(* ===== verification/Prelude.thy ===== *)
theory Prelude
  imports Complex_Main
begin

text \<open>
  Shared vocabulary of the development: exceptions as values, the sequencing and guarding
  combinators the constructors are written with, Python strings, time stamps and optional
  fields, and the rewrite rules every component proof uses.

  A Python function that may raise returns a value of \<open>'a res\<close>: \<open>Inl e\<close> for the exception,
  \<open>Inr v\<close> for the result. A \<open>__post_init__\<close> is a chain of \<open>raise_when\<close> guards, in the order
  of the source, that ends in the normalised object. The collection \<open>guards\<close> holds the
  rewrite rules for these combinators; \<open>post_init\<close> holds the definitions of the constructors.
  \<open>InjectedProcessCrash\<close> is a \<open>BaseException\<close>: no \<open>except Exception\<close> catches it.
\<close>

section \<open>Exceptions as values\<close>

text \<open>The subclasses of \<open>BybitClockError\<close>.\<close>

datatype clock_error = NOT_SYNCHRONIZED | DRIFT | UNCERTAINTY | STALE

datatype py_exn =
    ValueError string
  | AssertionError string
  | RuntimeError string
  | DecimalException string
  | IndexError
  | KeyError
  | IntegrityError
  | TimeoutError string
  | PermissionError string
  | ConcurrentSnapshotUpdateError string
  | UncertainOrderOutcomeError string
  | ProtectionNotConfirmedError string
  | EntryFillNotConfirmedError string
  | ExitFillNotConfirmedError string
  | LifecyclePositionMismatchError string
  | OptionSpreadNotOpenedError string
  | SimulatedOrderRejectedError string
  | InjectedProcessCrash string
  | BybitClockError clock_error

type_synonym 'a res = "py_exn + 'a"

named_theorems guards
named_theorems post_init

definition raise_if :: "bool \<Rightarrow> py_exn \<Rightarrow> 'a res \<Rightarrow> 'a res" where
  "raise_if b e k = (if b then Inl e else k)"

abbreviation raise_when :: "bool \<Rightarrow> string \<Rightarrow> 'a res \<Rightarrow> 'a res" where
  "raise_when b msg k \<equiv> raise_if b (ValueError msg) k"

abbreviation r_bind :: "'a res \<Rightarrow> ('a \<Rightarrow> 'b res) \<Rightarrow> 'b res" where
  "r_bind m f \<equiv> (case m of Inl e \<Rightarrow> Inl e | Inr x \<Rightarrow> f x)"

definition is_ok :: "'a res \<Rightarrow> bool" where
  "is_ok m = (case m of Inl _ \<Rightarrow> False | Inr _ \<Rightarrow> True)"

lemma raise_if_True [simp, guards]: "raise_if True e k = Inl e"
  by (simp add: raise_if_def)

lemma raise_if_False [simp, guards]: "raise_if False e k = k"
  by (simp add: raise_if_def)

lemma raise_if_Inr [simp, guards]: "raise_if b e k = Inr x \<longleftrightarrow> \<not> b \<and> k = Inr x"
  by (simp add: raise_if_def)

lemma raise_if_Inl [guards]:
  "raise_if b e k = Inl e' \<longleftrightarrow> (b \<and> e' = e) \<or> (\<not> b \<and> k = Inl e')"
  by (auto simp add: raise_if_def)

lemma r_bind_eq_Inr [simp, guards]:
  "r_bind m f = Inr y \<longleftrightarrow> (\<exists>x. m = Inr x \<and> f x = Inr y)"
  by (cases m) simp_all

lemma r_bind_eq_Inl [guards]:
  "r_bind m f = Inl e \<longleftrightarrow> m = Inl e \<or> (\<exists>x. m = Inr x \<and> f x = Inl e)"
  by (cases m) simp_all

lemma r_bind_assoc: "r_bind (r_bind m f) g = r_bind m (\<lambda>x. r_bind (f x) g)"
  by (cases m) simp_all

lemma is_ok_simps [simp]: "is_ok (Inl e) = False" "is_ok (Inr x) = True"
  by (simp_all add: is_ok_def)

lemma is_ok_iff: "is_ok m \<longleftrightarrow> (\<exists>x. m = Inr x)"
  by (cases m) simp_all

lemma is_ok_raise_if [simp, guards]: "is_ok (raise_if b e k) \<longleftrightarrow> \<not> b \<and> is_ok k"
  by (simp add: raise_if_def)

lemma is_ok_r_bind [guards]: "is_ok (r_bind m f) \<longleftrightarrow> (\<exists>x. m = Inr x \<and> is_ok (f x))"
  by (cases m) simp_all

text \<open>
  A \<open>__post_init__\<close> that only validates is a list of guards: the first condition that holds
  raises its \<open>ValueError\<close>. The field loops of the source are written out.
\<close>

fun check_all :: "(bool \<times> string) list \<Rightarrow> 'a res \<Rightarrow> 'a res" where
  "check_all [] k = k"
| "check_all ((b, msg) # gs) k = (if b then Inl (ValueError msg) else check_all gs k)"

definition none_holds :: "(bool \<times> string) list \<Rightarrow> bool" where
  "none_holds gs = list_all (\<lambda>(b, _). \<not> b) gs"

lemma none_holds_simps [simp, guards]:
  "none_holds []" "none_holds ((b, m) # gs) \<longleftrightarrow> \<not> b \<and> none_holds gs"
  by (simp_all add: none_holds_def)

lemma check_all_Inr [simp, guards]: "check_all gs k = Inr x \<longleftrightarrow> none_holds gs \<and> k = Inr x"
  by (induction gs k rule: check_all.induct) simp_all

lemma is_ok_check_all [simp, guards]: "is_ok (check_all gs k) \<longleftrightarrow> none_holds gs \<and> is_ok k"
  by (induction gs k rule: check_all.induct) simp_all

lemma check_all_Inl:
  "check_all gs k = Inl e \<longleftrightarrow> (\<exists>as m bs. gs = as @ (True, m) # bs \<and> none_holds as \<and> e = ValueError m)
     \<or> none_holds gs \<and> k = Inl e"
proof (induction gs)
  case (Cons g gs)
  obtain b m where g: "g = (b, m)" by (cases g)
  show ?case
  proof (cases b)
    case True
    then show ?thesis unfolding g by (fastforce simp: Cons_eq_append_conv)
  next
    case False
    with Cons show ?thesis unfolding g by (fastforce simp: Cons_eq_append_conv)
  qed
qed simp

declare check_all.simps [simp del]

text \<open>A Python \<open>for\<close> loop whose body may raise: the first exception stops it.\<close>

fun r_foldl :: "('s \<Rightarrow> 'a \<Rightarrow> 's res) \<Rightarrow> 's \<Rightarrow> 'a list \<Rightarrow> 's res" where
  "r_foldl f s [] = Inr s"
| "r_foldl f s (x # xs) = r_bind (f s x) (\<lambda>s'. r_foldl f s' xs)"

lemma r_foldl_append: "r_foldl f s (xs @ ys) = r_bind (r_foldl f s xs) (\<lambda>s'. r_foldl f s' ys)"
  by (induction xs arbitrary: s) (simp_all add: r_bind_assoc [symmetric] split: sum.split)

lemma r_foldl_invariant:
  assumes "r_foldl f s xs = Inr t" and "P s"
    and "\<And>s x s'. P s \<Longrightarrow> x \<in> set xs \<Longrightarrow> f s x = Inr s' \<Longrightarrow> P s'"
  shows "P t"
  using assms
proof (induction xs arbitrary: s)
  case Nil
  then show ?case by simp
next
  case (Cons x xs)
  from Cons.prems(1) obtain s' where s': "f s x = Inr s'" "r_foldl f s' xs = Inr t"
    by auto
  have "P s'" using Cons.prems(2,3) s'(1) by (meson list.set_intros(1))
  moreover have "\<And>s x s'. P s \<Longrightarrow> x \<in> set xs \<Longrightarrow> f s x = Inr s' \<Longrightarrow> P s'"
    using Cons.prems(3) by (meson list.set_intros(2))
  ultimately show ?case using s'(2) by (blast intro: Cons.IH)
qed

text \<open>
  A service method acts on the world and returns or raises; what it did before an exception
  stays done. \<open>act_bind\<close> is the sequencing of such methods (\<open>await\<close> of one after the other).
\<close>

type_synonym ('s, 'a) act = "'s \<Rightarrow> 's \<times> 'a res"

definition act_return :: "'a \<Rightarrow> ('s, 'a) act" where
  "act_return x s = (s, Inr x)"

definition act_raise :: "py_exn \<Rightarrow> ('s, 'a) act" where
  "act_raise e s = (s, Inl e)"

definition act_bind :: "('s, 'a) act \<Rightarrow> ('a \<Rightarrow> ('s, 'b) act) \<Rightarrow> ('s, 'b) act" where
  "act_bind m f s = (case m s of (s1, r) \<Rightarrow> (case r of Inl e \<Rightarrow> (s1, Inl e) | Inr x \<Rightarrow> f x s1))"

lemma act_bind_Inr [simp, guards]:
  "act_bind m f s = (s', Inr y) \<longleftrightarrow> (\<exists>s1 x. m s = (s1, Inr x) \<and> f x s1 = (s', Inr y))"
  by (auto simp: act_bind_def split: prod.splits sum.splits)

lemma act_bind_Inl [guards]:
  "act_bind m f s = (s', Inl e) \<longleftrightarrow> m s = (s', Inl e) \<or> (\<exists>s1 x. m s = (s1, Inr x) \<and> f x s1 = (s', Inl e))"
  by (auto simp: act_bind_def split: prod.splits sum.splits)

lemma act_simps [simp]: "act_return x s = (s, Inr x)" "act_raise e s = (s, Inl e)"
  by (simp_all add: act_return_def act_raise_def)

text \<open>What holds of the world at the start and is kept by the parts, holds at the end, also when
  the sequence raises.\<close>

lemma act_bind_keeps:
  assumes "act_bind m f s = (s', r)" and "P s"
    and "\<And>s1 r1. m s = (s1, r1) \<Longrightarrow> P s \<Longrightarrow> P s1"
    and "\<And>x s1. P s1 \<Longrightarrow> m s = (s1, Inr x) \<Longrightarrow> f x s1 = (s', r) \<Longrightarrow> P s'"
  shows "P s'"
  using assms by (auto simp: act_bind_def split: prod.splits sum.splits)

text \<open>The list of reasons, blocks or errors the gates collect: one entry per failed check.\<close>

definition reason_if :: "bool \<Rightarrow> string \<Rightarrow> string list" where
  "reason_if b msg = (if b then [msg] else [])"

lemma reason_if_Nil [simp]: "reason_if b msg = [] \<longleftrightarrow> \<not> b"
  by (simp add: reason_if_def)

lemma reason_if_simps [simp]: "reason_if True m = [m]" "reason_if False m = []"
  by (simp_all add: reason_if_def)

lemma set_reason_if: "m' \<in> set (reason_if b m) \<longleftrightarrow> b \<and> m' = m"
  by (auto simp add: reason_if_def)

section \<open>Strings\<close>

text \<open>
  A Python \<open>str\<close> is a \<open>string\<close> (a list of code points up to 255). \<open>py_space\<close> holds of the
  characters \<open>str.strip\<close> removes in that range.
\<close>

definition py_space :: "char \<Rightarrow> bool" where
  "py_space c = (let n = of_char c :: nat in
     (9 \<le> n \<and> n \<le> 13) \<or> (28 \<le> n \<and> n \<le> 32) \<or> n = 133 \<or> n = 160)"

definition blank :: "string \<Rightarrow> bool" where
  "blank s = list_all py_space s"

text \<open>\<open>_require_text\<close> and \<open>_utc\<close> as guards.\<close>

definition text_guard :: "string \<Rightarrow> string \<Rightarrow> bool \<times> string" where
  [simp]: "text_guard v field = (blank v, field @ '' cannot be empty'')"

lemma blank_Nil [simp]: "blank []"
  by (simp add: blank_def)

section \<open>Time stamps\<close>

text \<open>
  A \<open>datetime\<close> is its instant in microseconds, with or without a UTC offset. \<open>_utc\<close> refuses
  a naive one; converting an aware one to UTC keeps the instant. Aware time stamps compare
  by instant.
\<close>

datatype datetime = Naive (instant: int) | Aware (instant: int)

fun is_aware :: "datetime \<Rightarrow> bool" where
  "is_aware (Aware _) = True"
| "is_aware (Naive _) = False"

definition raise_naive :: "datetime \<Rightarrow> string \<Rightarrow> 'a res \<Rightarrow> 'a res" where
  "raise_naive t field k = raise_when (\<not> is_aware t) (field @ '' must be timezone-aware'') k"

lemma raise_naive_Inr [simp, guards]:
  "raise_naive t f k = Inr x \<longleftrightarrow> is_aware t \<and> k = Inr x"
  by (simp add: raise_naive_def)

lemma raise_naive_aware [simp, guards]: "is_aware t \<Longrightarrow> raise_naive t f k = k"
  by (simp add: raise_naive_def)

lemma is_ok_raise_naive [simp, guards]: "is_ok (raise_naive t f k) \<longleftrightarrow> is_aware t \<and> is_ok k"
  by (simp add: raise_naive_def)

definition utc_guard :: "datetime \<Rightarrow> string \<Rightarrow> bool \<times> string" where
  [simp]: "utc_guard t field = (\<not> is_aware t, field @ '' must be timezone-aware'')"

lemma is_aware_Aware_instant [simp]: "is_aware t \<Longrightarrow> Aware (instant t) = t"
  by (cases t) simp_all

section \<open>Optional fields\<close>

definition some_and :: "('a \<Rightarrow> bool) \<Rightarrow> 'a option \<Rightarrow> bool" where
  "some_and P x = (case x of None \<Rightarrow> False | Some v \<Rightarrow> P v)"

lemma some_and_simps [simp]: "some_and P None = False" "some_and P (Some v) = P v"
  by (simp_all add: some_and_def)

lemma some_and_iff: "some_and P x \<longleftrightarrow> (\<exists>v. x = Some v \<and> P v)"
  by (cases x) simp_all

section \<open>Lists\<close>

text \<open>A dictionary kept in insertion order: Python's \<open>d[k] = v\<close> on an association list.\<close>

fun dict_set :: "'k \<Rightarrow> 'v \<Rightarrow> ('k \<times> 'v) list \<Rightarrow> ('k \<times> 'v) list" where
  "dict_set k v [] = [(k, v)]"
| "dict_set k v ((k', v') # d) = (if k' = k then (k, v) # d else (k', v') # dict_set k v d)"

definition dict_of :: "('k \<times> 'v) list \<Rightarrow> ('k \<times> 'v) list" where
  "dict_of kvs = foldl (\<lambda>d (k, v). dict_set k v d) [] kvs"

lemma map_of_dict_set [simp]: "map_of (dict_set k v d) = (map_of d)(k \<mapsto> v)"
  by (induction k v d rule: dict_set.induct) auto

lemma keys_dict_set:
  "map fst (dict_set k v d) = (if k \<in> fst ` set d then map fst d else map fst d @ [k])"
  by (induction k v d rule: dict_set.induct) auto

lemma distinct_dict_set [intro]: "distinct (map fst d) \<Longrightarrow> distinct (map fst (dict_set k v d))"
  by (induction k v d rule: dict_set.induct) (auto simp: keys_dict_set)

lemma list_update_same_map:
  "f y = f (xs ! i) \<Longrightarrow> map f (xs[i := y]) = map f xs"
  by (cases "i < length xs") (simp_all add: map_update list_update_same_conv list_update_beyond)

end
