(* ===== verification/Decimal_Arith.thy ===== *)
theory Decimal_Arith
  imports Prelude "HOL-Library.Log_Nat"
begin

text \<open>
  The arithmetic of Python's \<open>decimal\<close> module as the program uses it. A finite \<open>Decimal\<close> is
  its value, a rational; every \<open>+\<close>, \<open>-\<close>, \<open>*\<close> and \<open>/\<close> is computed exactly and then rounded to
  the 28 significant digits of the default context, half to even (\<open>rnd\<close>). Comparisons,
  \<open>min\<close>, \<open>max\<close> and \<open>to_integral_value\<close> do not round.

  The lemmas say what is left of exact arithmetic: \<open>rnd\<close> is monotone, keeps signs and zero,
  is the identity on the 28-digit numbers (\<open>representable\<close>), and has a relative error of at
  most \<open>10^-27 / 2\<close>. \<open>on_grid k x\<close> (\<open>x\<close> has at most \<open>k\<close> decimals) is the hypothesis under which
  whole formulas are exact. Infinities, NaN and the exponent range of the context are not
  modelled; every constructor of the domain model rejects the first two.
\<close>

type_synonym dec = rat

section \<open>Rounding to 28 digits\<close>

definition half_even :: "rat \<Rightarrow> int" where
  "half_even x = (let f = \<lfloor>x\<rfloor>; d = x - of_int f
     in if d < 1 / 2 \<or> (d = 1 / 2 \<and> even f) then f else f + 1)"

function digits10 :: "int \<Rightarrow> int" where
  "digits10 n = (if n < 1 then 0 else 1 + digits10 (n div 10))"
  by pat_completeness auto
termination
  by (relation "measure nat") auto

declare digits10.simps [simp del]

definition mag :: "rat \<Rightarrow> int" where
  "mag x = (case quotient_of \<bar>x\<bar> of (p, q) \<Rightarrow>
     let k = digits10 p - digits10 q
     in if (10::rat) powi k \<le> \<bar>x\<bar> then k else k - 1)"

definition rnd :: "rat \<Rightarrow> rat" where
  "rnd x = (if x = 0 then 0
     else let u = (10::rat) powi (mag x - 27) in of_int (half_even (x / u)) * u)"

definition dadd :: "dec \<Rightarrow> dec \<Rightarrow> dec" where
  "dadd x y = rnd (x + y)"

definition dsub :: "dec \<Rightarrow> dec \<Rightarrow> dec" where
  "dsub x y = rnd (x - y)"

definition dmul :: "dec \<Rightarrow> dec \<Rightarrow> dec" where
  "dmul x y = rnd (x * y)"

definition dabs :: "dec \<Rightarrow> dec" where
  "dabs x = rnd \<bar>x\<bar>"

definition dneg :: "dec \<Rightarrow> dec" where
  "dneg x = rnd (- x)"

definition ddiv :: "dec \<Rightarrow> dec \<Rightarrow> dec res" where
  "ddiv x y = (if y = 0 then Inl (DecimalException ''division by zero'') else Inr (rnd (x / y)))"

text \<open>A quotient whose divisor the source has already checked to be non-zero.\<close>

definition dquot :: "dec \<Rightarrow> dec \<Rightarrow> dec" where
  "dquot x y = rnd (x / y)"

definition dsum :: "dec list \<Rightarrow> dec" where
  "dsum xs = foldl dadd 0 xs"

text \<open>\<open>Decimal(str((a - b).total_seconds()))\<close>: the difference in seconds, exact to the microsecond.\<close>

definition seconds_between :: "datetime \<Rightarrow> datetime \<Rightarrow> dec" where
  "seconds_between a b = of_int (instant a - instant b) / 10 ^ 6"

section \<open>Half-even rounding to an integer\<close>

lemma half_even_cases: "half_even x = \<lfloor>x\<rfloor> \<or> half_even x = \<lfloor>x\<rfloor> + 1"
  by (simp add: half_even_def Let_def)

lemma half_even_of_int [simp]: "half_even (of_int n) = n"
  by (simp add: half_even_def)

lemma half_even_error: "\<bar>of_int (half_even x) - x\<bar> \<le> 1 / 2"
proof -
  have "of_int \<lfloor>x\<rfloor> \<le> x" "x < of_int \<lfloor>x\<rfloor> + 1" by linarith+
  then show ?thesis
    unfolding half_even_def Let_def abs_le_iff
    by (auto simp only: of_int_add of_int_1 split: if_split)
qed

lemma half_even_mono: "x \<le> y \<Longrightarrow> half_even x \<le> half_even y"
proof -
  assume xy: "x \<le> y"
  show ?thesis
  proof (cases "\<lfloor>x\<rfloor> = \<lfloor>y\<rfloor>")
    case True
    with xy show ?thesis by (auto simp: half_even_def Let_def)
  next
    case False
    with floor_mono [OF xy] have "\<lfloor>x\<rfloor> + 1 \<le> \<lfloor>y\<rfloor>" by linarith
    with half_even_cases [of x] half_even_cases [of y] show ?thesis by linarith
  qed
qed

lemma half_even_minus: "half_even (- x) = - half_even x"
proof (cases "x = of_int \<lfloor>x\<rfloor>")
  case True
  then have "- x = of_int (- \<lfloor>x\<rfloor>)" by simp
  then have "half_even (- x) = - \<lfloor>x\<rfloor>" by (simp only: half_even_of_int)
  moreover from True have "half_even x = \<lfloor>x\<rfloor>" by (metis half_even_of_int)
  ultimately show ?thesis by simp
next
  case False
  then have "of_int \<lfloor>x\<rfloor> < x" by linarith
  then have fl: "\<lfloor>- x\<rfloor> = - \<lfloor>x\<rfloor> - 1" by linarith
  show ?thesis
    unfolding half_even_def Let_def fl by (simp add: field_simps) linarith
qed

section \<open>Decimal magnitude\<close>

lemma pow10_gt [simp]: "(0::rat) < 10 powi k"
  by simp

lemma pow10_mono: "a \<le> b \<Longrightarrow> (10::rat) powi a \<le> 10 powi b"
  by (rule power_int_increasing) simp_all

lemma pow10_less_iff: "(10::rat) powi a < 10 powi b \<longleftrightarrow> a < b"
  using power_int_strict_increasing [of a b "10::rat"] power_int_increasing [of b a "10::rat"]
  by (meson linorder_not_less num.distinct one_less_numeral_iff less_imp_le semiring_norm(76))

lemma pow10_le_iff: "(10::rat) powi a \<le> 10 powi b \<longleftrightarrow> a \<le> b"
  by (simp add: linorder_not_less [symmetric] pow10_less_iff)

lemma pow10_add: "(10::rat) powi (a + b) = 10 powi a * 10 powi b"
  by (simp add: power_int_add)

lemma pow10_diff: "(10::rat) powi (a - b) = 10 powi a / 10 powi b"
  by (simp add: power_int_diff)

lemma pow10_int: "0 \<le> k \<Longrightarrow> (10::rat) powi k = of_int (10 ^ nat k)"
  by (simp add: power_int_def)


text \<open>\<open>mag x\<close> is the exponent of the leading digit, and the only one.\<close>

lemma floorlog10_bounds:
  assumes "0 < n"
  shows "(10::rat) powi (int (floorlog 10 n) - 1) \<le> of_nat n" "of_nat n < (10::rat) powi int (floorlog 10 n)"
proof -
  let ?d = "floorlog 10 n"
  have b: "10 ^ (?d - 1) \<le> n" "n < 10 ^ ?d"
    using floorlog_bounds [of n 10] assms by simp_all
  have pos: "0 < ?d" using b assms by (cases ?d) auto
  have "(10::rat) powi (int ?d - 1) = of_nat (10 ^ (?d - 1))"
    using pos by (simp add: power_int_def nat_diff_distrib)
  also have "\<dots> \<le> of_nat n" using b(1) by (simp only: of_nat_le_iff)
  finally show "(10::rat) powi (int ?d - 1) \<le> of_nat n" .
  have "(of_nat n :: rat) < of_nat (10 ^ ?d)" using b(2) by (simp only: of_nat_less_iff)
  then show "of_nat n < (10::rat) powi int ?d" by simp
qed

lemma digits10_floorlog: "digits10 n = int (floorlog 10 (nat n))"
proof (induction n rule: digits10.induct)
  case (1 n)
  have "nat (n div 10) = nat n div 10" by (simp add: nat_div_distrib')
  with 1 show ?case
    by (simp add: digits10.simps [of n] compute_floorlog [of 10 "nat n"])
qed

lemma mag_bounds:
  assumes "x \<noteq> 0"
  shows "(10::rat) powi mag x \<le> \<bar>x\<bar>" "\<bar>x\<bar> < 10 powi (mag x + 1)"
proof -
  obtain p q where pq: "quotient_of \<bar>x\<bar> = (p, q)" by fastforce
  then have q: "0 < q" and x: "\<bar>x\<bar> = of_int p / of_int q"
    using quotient_of_denom_pos quotient_of_div by blast+
  have p: "0 < p" using x q assms by (metis abs_le_zero_iff divide_nonpos_pos not_less of_int_0_less_iff of_int_le_0_iff)
  let ?a = "int (floorlog 10 (nat p))" and ?b = "int (floorlog 10 (nat q))"
  have P: "(10::rat) powi (?a - 1) \<le> of_int p" "of_int p < (10::rat) powi ?a"
    using floorlog10_bounds [of "nat p"] p by simp_all
  have Q: "(10::rat) powi (?b - 1) \<le> of_int q" "of_int q < (10::rat) powi ?b"
    using floorlog10_bounds [of "nat q"] q by simp_all
  have "\<bar>x\<bar> \<le> of_int p / 10 powi (?b - 1)"
    unfolding x using p Q(1) q by (intro divide_left_mono) simp_all
  also have "\<dots> < 10 powi ?a / 10 powi (?b - 1)"
    using P(2) by (intro divide_strict_right_mono) simp_all
  also have "\<dots> = 10 powi (?a - ?b + 1)" by (simp only: pow10_diff [symmetric]) (rule arg_cong [where f = "power_int 10"], simp)
  finally have up: "\<bar>x\<bar> < 10 powi (?a - ?b + 1)" .
  have "(10::rat) powi (?a - ?b - 1) = 10 powi (?a - 1) / 10 powi ?b"
    by (simp only: pow10_diff [symmetric]) (rule arg_cong [where f = "power_int 10"], simp)
  also have "\<dots> \<le> of_int p / 10 powi ?b" using P(1) by (intro divide_right_mono) simp_all
  also have "\<dots> \<le> \<bar>x\<bar>" unfolding x using p Q(2) q by (intro divide_left_mono) simp_all
  finally have low: "(10::rat) powi (?a - ?b - 1) \<le> \<bar>x\<bar>" .
  show "(10::rat) powi mag x \<le> \<bar>x\<bar>" "\<bar>x\<bar> < 10 powi (mag x + 1)"
    using up low unfolding mag_def pq digits10_floorlog by (simp_all add: Let_def)
qed

lemma mag_unique:
  assumes "(10::rat) powi k \<le> \<bar>x\<bar>" "\<bar>x\<bar> < 10 powi (k + 1)"
  shows "mag x = k"
proof -
  have "x \<noteq> 0" using assms(1) pow10_gt [of k] by linarith
  note m = mag_bounds [OF this]
  have "(10::rat) powi mag x < 10 powi (k + 1)" using m(1) assms(2) by linarith
  moreover have "(10::rat) powi k < 10 powi (mag x + 1)" using m(2) assms(1) by linarith
  ultimately show ?thesis by (simp add: pow10_less_iff)
qed

lemma mag_mono:
  assumes "0 < x" "x \<le> y"
  shows "mag x \<le> mag y"
proof -
  have "(10::rat) powi mag x \<le> \<bar>x\<bar>" "\<bar>y\<bar> < 10 powi (mag y + 1)"
    using mag_bounds [of x] mag_bounds [of y] assms by auto
  with assms have "(10::rat) powi mag x < 10 powi (mag y + 1)" by linarith
  then show ?thesis by (simp add: pow10_less_iff)
qed

lemma mag_minus [simp]: "mag (- x) = mag x"
  by (simp add: mag_def)

section \<open>Properties of rounding\<close>

definition representable :: "rat \<Rightarrow> bool" where
  "representable x \<longleftrightarrow> (\<exists>n e. x = of_int n * 10 powi e \<and> \<bar>n\<bar> \<le> 10 ^ 28)"

lemma rnd_0 [simp]: "rnd 0 = 0"
  by (simp add: rnd_def)

lemma rnd_minus [simp]: "rnd (- x) = - rnd x"
  by (simp add: rnd_def Let_def half_even_minus)

lemma rnd_exact:
  assumes "representable x"
  shows "rnd x = x"
proof (cases "x = 0")
  case False
  from assms obtain n e where x: "x = of_int n * 10 powi e" and n: "\<bar>n\<bar> \<le> 10 ^ 28"
    unfolding representable_def by blast
  let ?u = "(10::rat) powi (mag x - 27)"
  have "\<exists>m. x / ?u = of_int m"
  proof (cases "mag x - 27 \<le> e")
    case True
    have "x / ?u = of_int n * 10 powi (e - (mag x - 27))" by (simp add: x pow10_diff)
    also have "\<dots> = of_int (n * 10 ^ nat (e - (mag x - 27)))" using True by (simp add: pow10_int)
    finally show ?thesis by blast
  next
    case False
    have "\<bar>x\<bar> = of_int \<bar>n\<bar> * 10 powi e" by (simp add: x abs_mult)
    also have "\<dots> \<le> of_int (10 ^ 28) * 10 powi e" using n by (intro mult_right_mono) (simp_all only: of_int_le_iff pow10_gt less_imp_le)
    also have "\<dots> = 10 powi (28 + e)" by (simp add: pow10_add)
    finally have up: "\<bar>x\<bar> \<le> 10 powi (28 + e)" .
    have "(10::rat) powi (28 + e) \<le> 10 powi mag x" using False by (intro pow10_mono) simp
    with up mag_bounds(1) [OF \<open>x \<noteq> 0\<close>] have "\<bar>x\<bar> = 10 powi mag x" by linarith
    then have "\<bar>x\<bar> / ?u = 10 powi 27" by (simp add: pow10_diff)
    then have "\<bar>x / ?u\<bar> = of_int (10 ^ 27)" by simp
    then have "x / ?u = of_int (10 ^ 27) \<or> x / ?u = of_int (- (10 ^ 27))" by (auto simp: abs_if split: if_splits)
    then show ?thesis by blast
  qed
  then obtain m where "x / ?u = of_int m" by blast
  moreover from this have "x = of_int m * ?u" by (simp add: field_simps)
  ultimately show ?thesis using False by (simp add: rnd_def Let_def)
qed simp


lemma representable_0 [simp]: "representable 0"
  unfolding representable_def by (rule exI [of _ 0]) simp

lemma representable_pow10 [simp]: "representable (10 powi k)"
  unfolding representable_def by (rule exI [of _ 1], rule exI [of _ k]) simp

lemma representable_of_int: "\<bar>n\<bar> \<le> 10 ^ 28 \<Longrightarrow> representable (of_int n)"
  unfolding representable_def by (rule exI [of _ n], rule exI [of _ 0]) simp

lemma rnd_nonneg_mag:
  assumes "0 < x"
  shows "10 powi mag x \<le> rnd x" "rnd x \<le> 10 powi (mag x + 1)"
proof -
  let ?u = "(10::rat) powi (mag x - 27)"
  have r: "rnd x = of_int (half_even (x / ?u)) * ?u" using assms by (simp add: rnd_def Let_def)
  have u: "(10::rat) powi mag x = of_int (10 ^ 27) * ?u" "10 powi (mag x + 1) = of_int (10 ^ 28) * ?u"
    by (simp_all add: pow10_diff pow10_add)
  have "10 powi mag x \<le> x" "x \<le> 10 powi (mag x + 1)" using mag_bounds [of x] assms by simp_all
  then have "of_int (10 ^ 27) \<le> x / ?u" "x / ?u \<le> of_int (10 ^ 28)"
    unfolding u by (simp_all add: pos_le_divide_eq pos_divide_le_eq)
  then have "10 ^ 27 \<le> half_even (x / ?u)" "half_even (x / ?u) \<le> 10 ^ 28"
    by (metis half_even_mono half_even_of_int)+
  then show "10 powi mag x \<le> rnd x" "rnd x \<le> 10 powi (mag x + 1)"
    unfolding r u by (intro mult_right_mono; simp only: of_int_le_iff pow10_gt less_imp_le)+
qed

lemma rnd_pos: "0 < x \<Longrightarrow> 0 < rnd x"
  using rnd_nonneg_mag(1) [of x] pow10_gt [of "mag x"] by linarith

lemma rnd_eq_0_iff [simp]: "rnd x = 0 \<longleftrightarrow> x = 0"
  using rnd_pos [of x] rnd_pos [of "- x"] by (cases "0 < x"; cases "x < 0") auto

lemma rnd_nonneg_iff [simp]: "0 \<le> rnd x \<longleftrightarrow> 0 \<le> x"
proof -
  have "x < 0 \<Longrightarrow> rnd x < 0" using rnd_pos [of "- x"] by simp
  then show ?thesis using rnd_pos [of x] by (cases "x = 0"; cases "0 < x") auto
qed

lemma rnd_pos_iff [simp]: "0 < rnd x \<longleftrightarrow> 0 < x"
  using rnd_nonneg_iff [of x] rnd_eq_0_iff [of x] by linarith

lemma rnd_nonpos_iff [simp]: "rnd x \<le> 0 \<longleftrightarrow> x \<le> 0"
  using rnd_pos_iff [of x] by linarith

lemma rnd_neg_iff [simp]: "rnd x < 0 \<longleftrightarrow> x < 0"
  using rnd_nonneg_iff [of x] by linarith

lemma rnd_mono_pos:
  assumes "0 < x" "x \<le> y"
  shows "rnd x \<le> rnd y"
proof (cases "mag x = mag y")
  case True
  let ?u = "(10::rat) powi (mag y - 27)"
  have "x / ?u \<le> y / ?u" using assms by (intro divide_right_mono) simp_all
  then have "half_even (x / ?u) \<le> half_even (y / ?u)" by (rule half_even_mono)
  then show ?thesis using assms True by (simp add: rnd_def Let_def)
next
  case False
  with mag_mono [OF assms] have "mag x + 1 \<le> mag y" by simp
  then have "(10::rat) powi (mag x + 1) \<le> 10 powi mag y" by (rule pow10_mono)
  with rnd_nonneg_mag [of x] rnd_nonneg_mag [of y] assms show ?thesis by linarith
qed

lemma rnd_mono: "x \<le> y \<Longrightarrow> rnd x \<le> rnd y"
proof -
  assume xy: "x \<le> y"
  consider "0 < x" | "x \<le> 0" "0 \<le> y" | "y < 0" by linarith
  then show ?thesis
  proof cases
    case 1 then show ?thesis using xy by (rule rnd_mono_pos)
  next
    case 2
    then have "rnd x \<le> 0" "0 \<le> rnd y" by simp_all
    then show ?thesis by linarith
  next
    case 3
    then have "rnd (- y) \<le> rnd (- x)" using xy by (intro rnd_mono_pos) simp_all
    then show ?thesis by simp
  qed
qed

lemma rnd_representable_pos:
  assumes "0 < x"
  shows "representable (rnd x)"
proof -
  let ?u = "(10::rat) powi (mag x - 27)"
  have r: "rnd x = of_int (half_even (x / ?u)) * ?u" using assms by (simp add: rnd_def Let_def)
  have u: "10 powi (mag x + 1) = of_int (10 ^ 28) * ?u" by (simp add: pow10_diff pow10_add)
  from rnd_nonneg_mag(2) [OF assms] have "half_even (x / ?u) \<le> 10 ^ 28"
    unfolding r u by (simp only: mult_le_cancel_right_pos pow10_gt of_int_le_iff)
  moreover have "0 \<le> half_even (x / ?u)"
    using half_even_mono [of 0 "x / ?u"] half_even_of_int [of 0] assms by simp
  ultimately show ?thesis unfolding representable_def r by (intro exI conjI) (rule refl, simp)
qed

lemma representable_minus [simp]: "representable (- x) \<longleftrightarrow> representable x"
proof -
  have "representable y \<Longrightarrow> representable (- y)" for y
    unfolding representable_def by (metis abs_minus mult_minus_left of_int_minus abs_minus_cancel)
  from this [of x] this [of "- x"] show ?thesis by auto
qed

lemma rnd_representable [simp]: "representable (rnd x)"
  using rnd_representable_pos [of x] rnd_representable_pos [of "- x"]
  by (cases "0 < x"; cases "x = 0") simp_all

lemma rnd_idem [simp]: "rnd (rnd x) = rnd x"
  by (simp add: rnd_exact)

lemma rnd_eq_iff: "rnd x = x \<longleftrightarrow> representable x"
  using rnd_exact rnd_representable by metis

lemma rnd_le_representable: "x \<le> y \<Longrightarrow> representable y \<Longrightarrow> rnd x \<le> y"
  using rnd_mono [of x y] by (simp add: rnd_exact)

lemma rnd_ge_representable: "x \<le> y \<Longrightarrow> representable x \<Longrightarrow> x \<le> rnd y"
  using rnd_mono [of x y] by (simp add: rnd_exact)

lemma rnd_error: "\<bar>rnd x - x\<bar> \<le> \<bar>x\<bar> / (2 * 10 ^ 27)"
proof (cases "x = 0")
  case False
  let ?u = "(10::rat) powi (mag x - 27)"
  have "rnd x - x = (of_int (half_even (x / ?u)) - x / ?u) * ?u"
    using False by (simp add: rnd_def Let_def algebra_simps)
  then have "\<bar>rnd x - x\<bar> = \<bar>of_int (half_even (x / ?u)) - x / ?u\<bar> * ?u" by (simp add: abs_mult)
  also have "\<dots> \<le> 1 / 2 * ?u" using half_even_error by (intro mult_right_mono) simp_all
  also have "\<dots> = 10 powi mag x / (2 * 10 ^ 27)" by (simp add: pow10_diff)
  also have "\<dots> \<le> \<bar>x\<bar> / (2 * 10 ^ 27)" using mag_bounds(1) [OF False] by (intro divide_right_mono) simp_all
  finally show ?thesis .
qed simp

lemma rnd_upper: "0 \<le> x \<Longrightarrow> rnd x \<le> x + x / (2 * 10 ^ 27)"
proof -
  assume "0 \<le> x"
  with rnd_error [of x] have "\<bar>rnd x - x\<bar> \<le> x / (2 * 10 ^ 27)" by (simp only: abs_of_nonneg)
  then show ?thesis unfolding abs_le_iff by linarith
qed

section \<open>Numbers with a bounded number of decimals\<close>

definition on_grid :: "nat \<Rightarrow> rat \<Rightarrow> bool" where
  "on_grid k x \<longleftrightarrow> x * 10 ^ k \<in> \<int>"

lemma on_grid_representable:
  assumes "on_grid k x" "\<bar>x\<bar> * 10 ^ k \<le> 10 ^ 28"
  shows "representable x"
proof -
  from assms(1) obtain n where n: "x * 10 ^ k = of_int n" unfolding on_grid_def by (auto elim: Ints_cases)
  then have x: "x = of_int n * 10 powi (- int k)" by (simp add: power_int_minus field_simps)
  have "\<bar>of_int n :: rat\<bar> = \<bar>x\<bar> * 10 ^ k" using n [symmetric] by (simp add: abs_mult)
  with assms(2) have "(of_int \<bar>n\<bar> :: rat) \<le> of_int (10 ^ 28)" by simp
  then have "\<bar>n\<bar> \<le> 10 ^ 28" by (simp only: of_int_le_iff)
  with x show ?thesis unfolding representable_def by blast
qed

text \<open>
  Evaluation: a number with at most nine decimals and a short numerator is its own rounding, so
  a concrete run rarely computes a magnitude.
\<close>

definition rnd_general :: "rat \<Rightarrow> rat" where
  "rnd_general x = (if x = 0 then 0
     else let u = (10::rat) powi (mag x - 27) in of_int (half_even (x / u)) * u)"

lemma rnd_code [code]:
  "rnd x = (case quotient_of x of (p, q) \<Rightarrow>
     if 1000000000 mod q = 0 \<and> \<bar>p\<bar> \<le> 10000000000000000000 then x else rnd_general x)"
proof -
  obtain p q where pq: "quotient_of x = (p, q)" by fastforce
  then have q: "0 < q" and x: "x = of_int p / of_int q"
    using quotient_of_denom_pos quotient_of_div by blast+
  have "rnd x = x" if "1000000000 mod q = 0" "\<bar>p\<bar> \<le> 10000000000000000000"
  proof -
    from that(1) have "q dvd 10 ^ 9" by (simp add: mod_eq_0_iff_dvd)
    then obtain m where m: "10 ^ 9 = q * m" by (rule dvdE)
    have "of_int q * of_int m = (of_int (10 ^ 9) :: rat)" unfolding m by simp
    then have x': "x * 10 ^ 9 = of_int (p * m)" using q by (simp add: x field_simps)
    have "0 < m" using m q by (smt (verit) zero_less_mult_iff zero_less_power)
    then have "1 * m \<le> 10 ^ 9" unfolding m using q by (intro mult_right_mono) simp_all
    then have "\<bar>p * m\<bar> \<le> \<bar>p\<bar> * 10 ^ 9" using \<open>0 < m\<close> by (simp add: abs_mult mult_left_mono)
    also have "\<dots> \<le> 10 ^ 28" using that(2) by simp
    finally have "(of_int \<bar>p * m\<bar> :: rat) \<le> of_int (10 ^ 28)" by (simp only: of_int_le_iff)
    moreover have "\<bar>x\<bar> * 10 ^ 9 = \<bar>x * 10 ^ 9\<bar>" by (simp add: abs_mult)
    ultimately have "\<bar>x\<bar> * 10 ^ 9 \<le> 10 ^ 28" unfolding x' by simp
    moreover have "on_grid 9 x" unfolding on_grid_def x' by simp
    ultimately show ?thesis by (intro rnd_exact on_grid_representable)
  qed
  then show ?thesis by (simp add: pq rnd_general_def rnd_def)
qed

lemma on_grid_of_int [simp]: "on_grid k (of_int n)" "on_grid k (of_nat m)" "on_grid k (numeral v)"
    "on_grid k 0" "on_grid k 1"
  by (simp_all add: on_grid_def)

lemma on_grid_add [intro]: "on_grid k x \<Longrightarrow> on_grid k y \<Longrightarrow> on_grid k (x + y)"
  by (simp add: on_grid_def distrib_right)

lemma on_grid_diff [intro]: "on_grid k x \<Longrightarrow> on_grid k y \<Longrightarrow> on_grid k (x - y)"
  by (simp add: on_grid_def left_diff_distrib)

lemma on_grid_mult [intro]: "on_grid k x \<Longrightarrow> on_grid l y \<Longrightarrow> on_grid (k + l) (x * y)"
proof -
  assume "on_grid k x" "on_grid l y"
  then have "(x * 10 ^ k) * (y * 10 ^ l) \<in> \<int>" unfolding on_grid_def by (rule Ints_mult)
  then show ?thesis by (simp add: on_grid_def power_add ac_simps)
qed

lemma on_grid_weaken: "on_grid k x \<Longrightarrow> k \<le> l \<Longrightarrow> on_grid l x"
proof -
  assume g: "on_grid k x" and "k \<le> l"
  then obtain d where l: "l = k + d" using le_Suc_ex by blast
  have "x * 10 ^ k * 10 ^ d \<in> \<int>" using g unfolding on_grid_def by (rule Ints_mult) simp
  then show ?thesis by (simp add: on_grid_def l power_add ac_simps)
qed

lemma on_grid_max: "on_grid k x \<Longrightarrow> on_grid k y \<Longrightarrow> on_grid k (max x y)"
  by (simp add: max_def)

lemma on_grid_min: "on_grid k x \<Longrightarrow> on_grid k y \<Longrightarrow> on_grid k (min x y)"
  by (simp add: min_def)

section \<open>The arithmetic operations\<close>

lemma dadd_0 [simp]: "dadd x 0 = rnd x" "dadd 0 x = rnd x"
  by (simp_all add: dadd_def)

lemma dsub_0 [simp]: "dsub x 0 = rnd x" "dsub x x = 0"
  by (simp_all add: dsub_def)

lemma dmul_0 [simp]: "dmul x 0 = 0" "dmul 0 x = 0"
  by (simp_all add: dmul_def)

lemma dadd_commute: "dadd x y = dadd y x"
  by (simp add: dadd_def add.commute)

lemma dadd_nonneg: "0 \<le> x \<Longrightarrow> 0 \<le> y \<Longrightarrow> 0 \<le> dadd x y"
  by (simp add: dadd_def)

lemma dmul_nonneg: "0 \<le> x \<Longrightarrow> 0 \<le> y \<Longrightarrow> 0 \<le> dmul x y"
  by (simp add: dmul_def)

lemma dmul_pos: "0 < x \<Longrightarrow> 0 < y \<Longrightarrow> 0 < dmul x y"
  by (simp add: dmul_def)

lemma dsub_nonneg_iff [simp]: "0 \<le> dsub x y \<longleftrightarrow> y \<le> x" "0 < dsub x y \<longleftrightarrow> y < x"
    "dsub x y = 0 \<longleftrightarrow> x = y" "dsub x y \<le> 0 \<longleftrightarrow> x \<le> y"
  by (auto simp: dsub_def)

lemma dadd_mono: "x \<le> x' \<Longrightarrow> y \<le> y' \<Longrightarrow> dadd x y \<le> dadd x' y'"
  by (simp add: dadd_def rnd_mono)

lemma dsub_mono: "x \<le> x' \<Longrightarrow> y' \<le> y \<Longrightarrow> dsub x y \<le> dsub x' y'"
  by (simp add: dsub_def rnd_mono)

lemma dmul_mono: "0 \<le> x \<Longrightarrow> x \<le> x' \<Longrightarrow> 0 \<le> y \<Longrightarrow> y \<le> y' \<Longrightarrow> dmul x y \<le> dmul x' y'"
  by (simp add: dmul_def mult_mono rnd_mono)

lemma representable_ops [simp]: "representable (dadd x y)" "representable (dsub x y)" "representable (dmul x y)"
  by (simp_all add: dadd_def dsub_def dmul_def)

lemma ddiv_Inr: "ddiv x y = Inr z \<longleftrightarrow> y \<noteq> 0 \<and> z = rnd (x / y)"
  by (auto simp: ddiv_def)

lemma ddiv_dquot: "y \<noteq> 0 \<Longrightarrow> ddiv x y = Inr (dquot x y)"
  by (simp add: ddiv_def dquot_def)

lemma dquot_nonneg: "0 \<le> x \<Longrightarrow> 0 \<le> y \<Longrightarrow> 0 \<le> dquot x y"
  by (simp add: dquot_def)

lemma dquot_pos: "0 < x \<Longrightarrow> 0 < y \<Longrightarrow> 0 < dquot x y"
  by (simp add: dquot_def)

lemma dquot_mono: "x \<le> x' \<Longrightarrow> 0 < y \<Longrightarrow> dquot x y \<le> dquot x' y"
  by (simp add: dquot_def rnd_mono divide_right_mono)

lemma dquot_0 [simp]: "dquot 0 y = 0"
  by (simp add: dquot_def)

lemma dadd_ge_left: "representable x \<Longrightarrow> 0 \<le> y \<Longrightarrow> x \<le> dadd x y"
  unfolding dadd_def by (rule rnd_ge_representable) simp_all

lemma dsub_le_left: "representable x \<Longrightarrow> 0 \<le> y \<Longrightarrow> dsub x y \<le> x"
  unfolding dsub_def by (rule rnd_le_representable) simp_all

lemma dsum_simps [simp]: "dsum [] = 0" "dsum [x] = rnd x"
  by (simp_all add: dsum_def)

lemma dsum_nonneg: "(\<And>x. x \<in> set xs \<Longrightarrow> 0 \<le> x) \<Longrightarrow> 0 \<le> dsum xs"
proof -
  have "0 \<le> a \<Longrightarrow> (\<And>x. x \<in> set xs \<Longrightarrow> 0 \<le> x) \<Longrightarrow> 0 \<le> foldl dadd a xs" for a
    by (induction xs arbitrary: a) (simp_all add: dadd_nonneg)
  then show "(\<And>x. x \<in> set xs \<Longrightarrow> 0 \<le> x) \<Longrightarrow> 0 \<le> dsum xs" by (simp add: dsum_def)
qed

text \<open>A non-negative value on the grid that is bounded by one that fits is not rounded.\<close>

lemma rnd_on_grid:
  assumes "on_grid k x" "0 \<le> x" "x \<le> y" "y * 10 ^ k \<le> 10 ^ 28"
  shows "rnd x = x"
proof -
  have "\<bar>x\<bar> * 10 ^ k \<le> y * 10 ^ k" using assms by (intro mult_right_mono) simp_all
  also note assms(4)
  finally show ?thesis using assms(1) by (intro rnd_exact on_grid_representable [of k]) simp_all
qed

end
