(* ===== verification/Credit_Spread.thy ===== *)
theory Credit_Spread
  imports Decimal_Arith
begin

text \<open>
  \<open>core/credit_spread.py\<close>: the put credit spread with its expiry payoff. \<open>payoff\<close> is the
  abstract specification of \<open>expiry_pnl\<close> over exact rationals; the two agree on every spread whose
  fields have few enough decimals (\<open>exact_spread\<close>).
\<close>

section \<open>The spread\<close>

record credit_spread =
  spot :: dec
  short_put_strike :: dec
  long_put_strike :: dec
  option_quantity :: dec
  premium_credit :: dec

definition mk_credit_spread :: "dec \<Rightarrow> dec \<Rightarrow> dec \<Rightarrow> dec \<Rightarrow> dec \<Rightarrow> credit_spread res" where
  [post_init]: "mk_credit_spread sp short long qty prem =
     raise_when (sp \<le> 0) ''spot must be positive''
    (raise_when (short \<le> long) ''short put strike must be above long put strike''
    (raise_when (long \<le> 0) ''long put strike must be positive''
    (raise_when (qty \<le> 0) ''option quantity must be positive''
    (raise_when (prem < 0) ''premium credit cannot be negative''
    (raise_when (dmul (dsub short long) qty < prem) ''premium credit cannot exceed total spread width''
    (Inr \<lparr>spot = sp, short_put_strike = short, long_put_strike = long,
           option_quantity = qty, premium_credit = prem\<rparr>))))))"

definition expiry_pnl :: "credit_spread \<Rightarrow> dec \<Rightarrow> dec" where
  "expiry_pnl s price = (let
     short_intrinsic = max (dsub (short_put_strike s) price) 0;
     long_intrinsic = max (dsub (long_put_strike s) price) 0
   in dadd (dsub (premium_credit s) (dmul (option_quantity s) short_intrinsic))
           (dmul (option_quantity s) long_intrinsic))"

definition max_profit :: "credit_spread \<Rightarrow> dec" where
  "max_profit s = premium_credit s"

definition max_loss :: "credit_spread \<Rightarrow> dec" where
  "max_loss s = (let spread_width = dsub (short_put_strike s) (long_put_strike s)
     in dsub (dmul (option_quantity s) spread_width) (premium_credit s))"

definition loss_region :: "credit_spread \<Rightarrow> dec \<times> dec" where
  "loss_region s = (long_put_strike s, short_put_strike s)"

definition loss_slope :: "credit_spread \<Rightarrow> dec \<Rightarrow> dec" where
  "loss_slope s price =
     (if long_put_strike s < price \<and> price < short_put_strike s then option_quantity s else 0)"

definition valid_spread :: "credit_spread \<Rightarrow> bool" where
  "valid_spread s \<longleftrightarrow> 0 < spot s \<and> 0 < long_put_strike s \<and> long_put_strike s < short_put_strike s
     \<and> 0 < option_quantity s \<and> 0 \<le> premium_credit s
     \<and> premium_credit s \<le> dmul (dsub (short_put_strike s) (long_put_strike s)) (option_quantity s)"

lemma mk_credit_spread_iff:
  "mk_credit_spread sp short long qty prem = Inr s \<longleftrightarrow>
     s = \<lparr>spot = sp, short_put_strike = short, long_put_strike = long,
          option_quantity = qty, premium_credit = prem\<rparr> \<and> valid_spread s"
  unfolding mk_credit_spread_def raise_if_Inr not_le not_less
  by (auto simp: valid_spread_def)

lemma mk_credit_spread_valid: "mk_credit_spread sp short long qty prem = Inr s \<Longrightarrow> valid_spread s"
  using mk_credit_spread_iff by blast

section \<open>The payoff as a specification\<close>

definition payoff :: "credit_spread \<Rightarrow> rat \<Rightarrow> rat" where
  "payoff s p = premium_credit s
     - option_quantity s * (max (short_put_strike s - p) 0 - max (long_put_strike s - p) 0)"

definition exact_spread :: "nat \<Rightarrow> credit_spread \<Rightarrow> bool" where
  "exact_spread k s \<longleftrightarrow> on_grid k (short_put_strike s) \<and> on_grid k (long_put_strike s)
     \<and> on_grid k (option_quantity s) \<and> on_grid (k + k) (premium_credit s)
     \<and> short_put_strike s * 10 ^ k \<le> 10 ^ 28
     \<and> (premium_credit s + option_quantity s * short_put_strike s) * 10 ^ (k + k) \<le> 10 ^ 28"

lemma exact_intrinsic:
  assumes "on_grid k a" "on_grid k p" "0 \<le> p" "a * 10 ^ k \<le> 10 ^ 28"
  shows "max (dsub a p) 0 = max (a - p) 0"
proof (cases "p \<le> a")
  case True
  have "\<bar>a - p\<bar> * 10 ^ k \<le> a * 10 ^ k" using assms(3) True by (intro mult_right_mono) simp_all
  also note assms(4)
  finally have "\<bar>a - p\<bar> * 10 ^ k \<le> 10 ^ 28" .
  then have "representable (a - p)"
    using assms by (intro on_grid_representable [of k] on_grid_diff)
  then show ?thesis by (simp add: dsub_def rnd_exact)
next
  case False
  then have "dsub a p \<le> 0" by simp
  with False show ?thesis by simp
qed

text \<open>Every intermediate value is a multiple of \<open>10^-2k\<close> no larger than premium plus notional.\<close>

lemma exact_value:
  assumes "exact_spread k s" "on_grid (k + k) x" "\<bar>x\<bar> \<le> premium_credit s + option_quantity s * short_put_strike s"
  shows "rnd x = x"
proof -
  have "\<bar>x\<bar> * 10 ^ (k + k) \<le> (premium_credit s + option_quantity s * short_put_strike s) * 10 ^ (k + k)"
    using assms(3) by (intro mult_right_mono) simp_all
  also have "\<dots> \<le> 10 ^ 28" using assms(1) by (simp add: exact_spread_def)
  finally have "\<bar>x\<bar> * 10 ^ (k + k) \<le> 10 ^ 28" .
  then show ?thesis using assms(2) by (intro rnd_exact on_grid_representable) simp_all
qed

lemma expiry_pnl_payoff:
  assumes v: "valid_spread s" and e: "exact_spread k s" and p: "on_grid k p" "0 \<le> p"
  shows "expiry_pnl s p = payoff s p"
proof -
  let ?K = "short_put_strike s" and ?L = "long_put_strike s" and ?q = "option_quantity s"
    and ?c = "premium_credit s"
  define a b where "a = max (?K - p) 0" and "b = max (?L - p) 0"
  have g: "on_grid k ?K" "on_grid k ?L" "on_grid k ?q" "on_grid (k + k) ?c" "?K * 10 ^ k \<le> 10 ^ 28"
    using e by (simp_all add: exact_spread_def)
  have s: "0 < ?q" "0 < ?L" "?L < ?K" "0 \<le> ?c" using v by (simp_all add: valid_spread_def)
  have "?L * 10 ^ k \<le> ?K * 10 ^ k" using s by (intro mult_right_mono) simp_all
  with g(5) have L: "?L * 10 ^ k \<le> 10 ^ 28" by linarith
  have ab: "max (dsub ?K p) 0 = a" "max (dsub ?L p) 0 = b"
    using exact_intrinsic [OF g(1) p g(5)] exact_intrinsic [OF g(2) p L] by (simp_all add: a_def b_def)
  have abk: "0 \<le> b" "b \<le> a" "a \<le> ?K" "on_grid k a" "on_grid k b"
    using s p g by (auto simp: a_def b_def intro: on_grid_max)
  have qa: "0 \<le> ?q * b" "?q * b \<le> ?q * a" "?q * a \<le> ?q * ?K" "0 \<le> ?q * a"
    using abk s by simp_all
  have gq: "on_grid (k + k) (?q * a)" "on_grid (k + k) (?q * b)" using g abk by auto
  have "dmul ?q a = ?q * a" "dmul ?q b = ?q * b"
    unfolding dmul_def using qa gq s(4) by (rule_tac exact_value [OF e]; linarith | assumption)+
  moreover have "dsub ?c (?q * a) = ?c - ?q * a"
    unfolding dsub_def by (rule exact_value [OF e on_grid_diff [OF g(4) gq(1)]]) (use qa s in linarith)
  moreover have "dadd (?c - ?q * a) (?q * b) = ?c - ?q * a + ?q * b"
    unfolding dadd_def
    by (rule exact_value [OF e on_grid_add [OF on_grid_diff [OF g(4) gq(1)] gq(2)]]) (use qa s in linarith)
  ultimately have "expiry_pnl s p = ?c - ?q * a + ?q * b"
    by (simp add: expiry_pnl_def Let_def ab)
  then show ?thesis by (simp add: payoff_def a_def b_def algebra_simps)
qed

lemma payoff_mono: "valid_spread s \<Longrightarrow> p \<le> p' \<Longrightarrow> payoff s p \<le> payoff s p'"
proof -
  assume v: "valid_spread s" and "p \<le> p'"
  then have "max (short_put_strike s - p') 0 - max (long_put_strike s - p') 0
      \<le> max (short_put_strike s - p) 0 - max (long_put_strike s - p) 0"
    by (auto simp: valid_spread_def max_def)
  with v show ?thesis unfolding payoff_def valid_spread_def
    by (intro diff_left_mono mult_left_mono) simp_all
qed

lemma payoff_above: "valid_spread s \<Longrightarrow> short_put_strike s \<le> p \<Longrightarrow> payoff s p = premium_credit s"
  by (simp add: payoff_def valid_spread_def)

lemma payoff_below: "p \<le> long_put_strike s \<Longrightarrow> valid_spread s \<Longrightarrow>
    payoff s p = premium_credit s - option_quantity s * (short_put_strike s - long_put_strike s)"
  by (simp add: payoff_def valid_spread_def)

lemma payoff_between: "valid_spread s \<Longrightarrow> long_put_strike s \<le> p \<Longrightarrow> p \<le> short_put_strike s \<Longrightarrow>
    payoff s p = premium_credit s - option_quantity s * (short_put_strike s - p)"
  by (simp add: payoff_def)

lemma max_loss_exact:
  assumes v: "valid_spread s" and e: "exact_spread k s"
  shows "max_loss s = option_quantity s * (short_put_strike s - long_put_strike s) - premium_credit s"
proof -
  let ?K = "short_put_strike s" and ?L = "long_put_strike s" and ?q = "option_quantity s"
  have g: "on_grid k ?K" "on_grid k ?L" "on_grid k ?q" "on_grid (k + k) (premium_credit s)"
    using e by (simp_all add: exact_spread_def)
  have s: "0 < ?q" "0 < ?L" "?L < ?K" "0 \<le> premium_credit s" using v by (simp_all add: valid_spread_def)
  have w: "dsub ?K ?L = ?K - ?L"
    using exact_intrinsic [of k ?K ?L] g s e by (simp add: exact_spread_def max_def split: if_splits)
  have b: "0 \<le> ?q * (?K - ?L)" "?q * (?K - ?L) \<le> ?q * ?K" using s by simp_all
  have "dmul ?q (?K - ?L) = ?q * (?K - ?L)"
    unfolding dmul_def using g b s by (intro exact_value [OF e] on_grid_mult on_grid_diff) linarith+
  moreover have "dsub (?q * (?K - ?L)) (premium_credit s) = ?q * (?K - ?L) - premium_credit s"
    unfolding dsub_def using g b s by (intro exact_value [OF e] on_grid_mult on_grid_diff) linarith+
  ultimately show ?thesis by (simp add: max_loss_def w)
qed

text \<open>C20. Expiry payoff. On a valid spread whose fields and price have at most \<open>k\<close> decimals and
  fit the 28-digit context, \<open>expiry_pnl\<close> is exactly the textbook payoff, lies between the negated
  maximum loss and the maximum profit, reaches them at and beyond the strikes, and does not
  decrease with the price.\<close>

theorem expiry_pnl_spec:
  assumes "valid_spread s" and "exact_spread k s" and "on_grid k p" "0 \<le> p"
  shows "expiry_pnl s p = payoff s p \<and> - max_loss s \<le> expiry_pnl s p \<and> expiry_pnl s p \<le> max_profit s
    \<and> (short_put_strike s \<le> p \<longrightarrow> expiry_pnl s p = max_profit s)
    \<and> (p \<le> long_put_strike s \<longrightarrow> expiry_pnl s p = - max_loss s)
    \<and> (\<forall>p'. on_grid k p' \<longrightarrow> p \<le> p' \<longrightarrow> expiry_pnl s p \<le> expiry_pnl s p')"
proof -
  have eq: "on_grid k x \<Longrightarrow> 0 \<le> x \<Longrightarrow> expiry_pnl s x = payoff s x" for x
    by (rule expiry_pnl_payoff [OF assms(1,2)])
  let ?K = "short_put_strike s" and ?L = "long_put_strike s"
  have top: "payoff s ?K = max_profit s" and bot: "payoff s ?L = - max_loss s"
    using payoff_above [OF assms(1) order_refl] payoff_below [OF order_refl assms(1)]
    by (simp_all add: max_profit_def max_loss_exact [OF assms(1,2)])
  have hi: "payoff s p \<le> max_profit s" and lo: "- max_loss s \<le> payoff s p"
    using payoff_mono [OF assms(1), of p "max p ?K"] payoff_above [OF assms(1), of "max p ?K"]
      payoff_mono [OF assms(1), of "min p ?L" p] payoff_below [OF _ assms(1), of "min p ?L"]
      top bot payoff_below [OF order_refl assms(1)] by (simp_all add: max_profit_def)
  have mono: "expiry_pnl s p \<le> expiry_pnl s p'" if "on_grid k p'" "p \<le> p'" for p'
    using eq [of p] eq [of p'] payoff_mono [OF assms(1) that(2)] that assms(3,4) by simp
  have "?K \<le> p \<Longrightarrow> payoff s p = max_profit s"
    using payoff_above [OF assms(1), of p] by (simp add: max_profit_def)
  moreover have "p \<le> ?L \<Longrightarrow> payoff s p = - max_loss s"
    using payoff_below [OF _ assms(1), of p] payoff_below [OF order_refl assms(1)] bot by simp
  ultimately show ?thesis using eq [OF assms(3,4)] hi lo mono by simp
qed

theorem expiry_pnl_spec_witness:
  "expiry_pnl \<lparr>spot = 3010, short_put_strike = 3000, long_put_strike = 2900,
     option_quantity = 1 / 2, premium_credit = 25 / 2\<rparr> (5900 / 2) = - (25 / 2)"
proof -
  let ?s = "\<lparr>spot = 3010, short_put_strike = 3000, long_put_strike = 2900,
     option_quantity = 1 / 2, premium_credit = 25 / 2\<rparr>"
  have g: "on_grid 1 (1 / 2)" "on_grid (1 + 1) (25 / 2)"
    unfolding on_grid_def by (auto intro: Ints_numeral)
  have "valid_spread ?s" by code_simp
  moreover have "exact_spread 1 ?s" using g by (simp add: exact_spread_def)
  moreover have "on_grid 1 (2950 :: rat)" by simp
  ultimately have "expiry_pnl ?s 2950 = payoff ?s 2950" using expiry_pnl_spec [of ?s 1 2950] by simp
  then show ?thesis by (simp add: payoff_def)
qed

end
