(* ===== verification/Virtual_Levels.thy ===== *)
theory Virtual_Levels
  imports Credit_Spread
begin

text \<open>
  \<open>core/virtual_levels.py\<close>: a hedge level, its derived distances and the generator that
  partitions the interval between the two strikes. Level numbers count from 1. The lemmas say
  that the generated levels tile the interval without a gap, from the short strike down to the
  long strike, and that their entry prices do not increase, whatever the rounding does.
\<close>

datatype level_state = READY | ACTIVE | PAID | LOCKED

type_synonym allocations = "(nat \<times> dec) list"

record hedge_level =
  level_id :: nat
  entry_price :: dec
  tp_price :: dec
  stop_price :: dec
  option_budget :: dec
  state :: level_state
  attempts :: nat
  active_quantity :: dec
  active_is_floor :: bool
  entry_armed :: bool
  recovery_debt :: dec
  recovery_tps_remaining :: int
  realized_stop_losses :: dec
  realized_tp_profit :: dec
  stop_loss_history :: "dec list"
  active_recovery_allocations :: allocations

definition tp_distance :: "hedge_level \<Rightarrow> dec" where
  "tp_distance l = dsub (entry_price l) (tp_price l)"

definition stop_distance :: "hedge_level \<Rightarrow> dec" where
  "stop_distance l = dsub (stop_price l) (entry_price l)"

definition initial_quantity :: "hedge_level \<Rightarrow> dec res" where
  "initial_quantity l = ddiv (option_budget l) (tp_distance l)"

definition fresh_level :: "nat \<Rightarrow> dec \<Rightarrow> dec \<Rightarrow> dec \<Rightarrow> dec \<Rightarrow> hedge_level" where
  "fresh_level i entry tp stop budget =
     \<lparr>level_id = i, entry_price = entry, tp_price = tp, stop_price = stop, option_budget = budget,
      state = READY, attempts = 0, active_quantity = 0, active_is_floor = False,
      entry_armed = False, recovery_debt = 0, recovery_tps_remaining = 0,
      realized_stop_losses = 0, realized_tp_profit = 0, stop_loss_history = [],
      active_recovery_allocations = []\<rparr>"

definition level_boundary :: "credit_spread \<Rightarrow> nat \<Rightarrow> nat \<Rightarrow> dec" where
  "level_boundary s n i = (let width = dsub (short_put_strike s) (long_put_strike s)
     in dsub (short_put_strike s) (dquot (dmul width (of_nat i)) (of_nat n)))"

definition level_boundaries :: "credit_spread \<Rightarrow> nat \<Rightarrow> dec list" where
  "level_boundaries s n = map (level_boundary s n) [0..<n] @ [long_put_strike s]"

definition level_between :: "credit_spread \<Rightarrow> dec \<Rightarrow> dec list \<Rightarrow> nat \<Rightarrow> hedge_level" where
  "level_between s rate boundaries i = (let entry = boundaries ! i; tp = boundaries ! (i + 1)
     in fresh_level (i + 1) entry tp (dmul entry (dadd 1 rate))
          (dmul (option_quantity s) (dsub entry tp)))"

definition generate_virtual_levels :: "credit_spread \<Rightarrow> int \<Rightarrow> dec \<Rightarrow> hedge_level list res" where
  "generate_virtual_levels s level_count rate =
     raise_when (level_count \<le> 0) ''level count must be positive''
    (raise_when (rate \<le> 0) ''stop rate must be positive''
    (Inr (map (level_between s rate (level_boundaries s (nat level_count))) [0..<nat level_count])))"

section \<open>The levels tile the interval between the strikes\<close>

lemma length_level_boundaries [simp]: "length (level_boundaries s n) = n + 1"
  by (simp add: level_boundaries_def)

lemma boundary_nth:
  "i < n \<Longrightarrow> level_boundaries s n ! i = dsub (short_put_strike s)
     (dquot (dmul (dsub (short_put_strike s) (long_put_strike s)) (of_nat i)) (of_nat n))"
  by (simp add: level_boundaries_def level_boundary_def Let_def nth_append)

lemma boundary_last [simp]: "level_boundaries s n ! n = long_put_strike s"
  by (simp add: level_boundaries_def level_boundary_def Let_def nth_append)

lemma boundary_first: "0 < n \<Longrightarrow> level_boundaries s n ! 0 = rnd (short_put_strike s)"
  by (simp add: boundary_nth)

lemma boundary_step:
  assumes "i + 1 < n" "long_put_strike s \<le> short_put_strike s"
  shows "level_boundaries s n ! (i + 1) \<le> level_boundaries s n ! i"
proof -
  have "dmul (dsub (short_put_strike s) (long_put_strike s)) (of_nat i)
      \<le> dmul (dsub (short_put_strike s) (long_put_strike s)) (of_nat (i + 1))"
    using assms(2) by (intro dmul_mono) simp_all
  then show ?thesis
    using assms by (simp only: boundary_nth Suc_lessD [of i n]) (auto intro!: dsub_mono dquot_mono simp: boundary_nth)
qed

text \<open>
  Rounding up \<open>width * i\<close> cannot push the last boundary below the long strike: one part in
  \<open>2 * 10^27\<close> of \<open>i\<close> widths is at most one width.
\<close>

lemma quotient_in_width:
  assumes i: "i < n" and n: "n \<le> 2 * 10 ^ 27" and w: "0 \<le> w" "representable w"
  shows "rnd (dmul w (of_nat i) / of_nat n) \<le> w"
proof -
  have "of_nat n \<le> (of_nat (2 * 10 ^ 27) :: rat)" using n by (simp only: of_nat_le_iff)
  then have n': "of_nat i / (2 * 10 ^ 27) \<le> (1 :: rat)" "of_nat i + 1 \<le> (of_nat n :: rat)"
    using i by (auto simp: pos_divide_le_eq simp flip: of_nat_Suc of_nat_add)
  have "0 \<le> w * of_nat i" using w(1) by simp
  then have "dmul w (of_nat i) \<le> w * of_nat i + w * of_nat i / (2 * 10 ^ 27)"
    unfolding dmul_def by (rule rnd_upper)
  also have "\<dots> \<le> w * of_nat i + w * 1"
    using mult_left_mono [OF n'(1) w(1)] by (simp only: add_le_cancel_left times_divide_eq_right)
  also have "\<dots> = w * (of_nat i + 1)" by (simp add: algebra_simps)
  also have "\<dots> \<le> w * of_nat n" using n'(2) w(1) by (rule mult_left_mono)
  finally have "dmul w (of_nat i) / of_nat n \<le> w" using i by (simp add: pos_divide_le_eq)
  then show ?thesis by (rule rnd_le_representable) (rule w(2))
qed

lemma boundary_above_long:
  assumes i: "i < n" and n: "n \<le> 2 * 10 ^ 27" and le: "long_put_strike s \<le> short_put_strike s"
    and rep: "representable (long_put_strike s)"
      "representable (short_put_strike s - long_put_strike s)"
  shows "long_put_strike s \<le> level_boundaries s n ! i"
proof -
  let ?w = "short_put_strike s - long_put_strike s"
  have w: "dsub (short_put_strike s) (long_put_strike s) = ?w" "0 \<le> ?w"
    using rep(2) le by (simp_all add: dsub_def rnd_exact)
  have "dquot (dmul ?w (of_nat i)) (of_nat n) \<le> ?w"
    unfolding dquot_def by (rule quotient_in_width [OF i n w(2) rep(2)])
  then have "long_put_strike s \<le> short_put_strike s - dquot (dmul ?w (of_nat i)) (of_nat n)" by linarith
  then have "long_put_strike s \<le> dsub (short_put_strike s) (dquot (dmul ?w (of_nat i)) (of_nat n))"
    unfolding dsub_def by (rule rnd_ge_representable) (rule rep(1))
  with i show ?thesis by (simp add: boundary_nth w(1))
qed

lemma generate_levels_nth:
  assumes "generate_virtual_levels s c rate = Inr ls" "i < length ls"
  shows "ls ! i = fresh_level (i + 1) (level_boundaries s (length ls) ! i)
      (level_boundaries s (length ls) ! (i + 1))
      (dmul (level_boundaries s (length ls) ! i) (dadd 1 rate))
      (dmul (option_quantity s) (dsub (level_boundaries s (length ls) ! i) (level_boundaries s (length ls) ! (i + 1))))"
  using assms by (auto simp: generate_virtual_levels_def level_between_def Let_def)

lemma generate_levels_length:
  "generate_virtual_levels s c rate = Inr ls \<Longrightarrow> length ls = nat c \<and> 0 < c \<and> 0 < rate"
  by (auto simp: generate_virtual_levels_def Let_def)


definition contiguous :: "hedge_level list \<Rightarrow> bool" where
  "contiguous ls \<longleftrightarrow> (\<forall>i < length ls. level_id (ls ! i) = i + 1
     \<and> (i + 1 < length ls \<longrightarrow> tp_price (ls ! i) = entry_price (ls ! (i + 1))))"

text \<open>Along the generated levels the entry prices do not increase and none lies below the
  long strike, in rounded arithmetic.\<close>

lemma levels_descend:
  assumes "generate_virtual_levels s c rate = Inr ls" and "long_put_strike s \<le> short_put_strike s"
    and "representable (long_put_strike s)" "representable (short_put_strike s - long_put_strike s)"
    and "c \<le> 2 * 10 ^ 27"
  shows "(\<forall>i j. i \<le> j \<longrightarrow> j < length ls \<longrightarrow> entry_price (ls ! j) \<le> entry_price (ls ! i))
     \<and> (\<forall>l \<in> set ls. long_put_strike s \<le> tp_price l \<and> tp_price l \<le> entry_price l)"
proof -
  note nth = generate_levels_nth [OF assms(1)]
  let ?n = "length ls"
  have n: "?n \<le> 2 * 10 ^ 27" using generate_levels_length [OF assms(1)] assms(5) by simp
  have above: "i \<le> ?n \<Longrightarrow> long_put_strike s \<le> level_boundaries s ?n ! i" for i
    using boundary_above_long [OF _ n assms(2,3,4), of i] by (cases "i = ?n") simp_all
  have one: "i < ?n \<Longrightarrow> level_boundaries s ?n ! (i + 1) \<le> level_boundaries s ?n ! i" for i
  proof (cases "i + 1 < ?n")
    case True
    then show ?thesis using boundary_step assms(2) by blast
  next
    case False
    assume "i < ?n"
    with False have "i + 1 = ?n" by simp
    with above [of i] show ?thesis by (simp only: boundary_last)
  qed
  have "i \<le> j \<Longrightarrow> j < ?n \<Longrightarrow> level_boundaries s ?n ! j \<le> level_boundaries s ?n ! i" for i j
  proof (induction j rule: dec_induct)
    case (step k)
    then show ?case using one [of k] by simp
  qed simp
  then show ?thesis
    using above one by (auto simp: nth fresh_level_def in_set_conv_nth)
qed

text \<open>The interior boundaries are the equal partition, up to the three roundings and the final subtraction.\<close>

lemma boundary_close:
  assumes i: "i < n" and n: "n \<le> 2 * 10 ^ 27" and le: "0 \<le> long_put_strike s" "long_put_strike s \<le> short_put_strike s"
    and rep: "representable (long_put_strike s)"
      "representable (short_put_strike s - long_put_strike s)"
  shows "\<bar>level_boundaries s n ! i
      - (short_put_strike s - (short_put_strike s - long_put_strike s) * of_nat i / of_nat n)\<bar> \<le> short_put_strike s / (5 * 10 ^ 26)"
proof -
  let ?S = "short_put_strike s" and ?w = "short_put_strike s - long_put_strike s"
  define u where "u = ?w * of_nat i / of_nat n"
  define y where "y = dmul ?w (of_nat i) / of_nat n"
  define q where "q = rnd y"
  have w: "dsub ?S (long_put_strike s) = ?w" "0 \<le> ?w"
    using rep(2) le by (simp_all add: dsub_def rnd_exact)
  have b: "level_boundaries s n ! i = rnd (?S - q)"
    using i by (simp only: boundary_nth w(1) q_def y_def dquot_def dsub_def [of _ "rnd _"])
  have "?w * of_nat i \<le> ?w * of_nat n" using i w(2) by (intro mult_left_mono) simp_all
  then have u: "0 \<le> u" "u \<le> ?w" using i w(2) by (simp_all add: u_def pos_divide_le_eq)
  have "\<bar>rnd (?w * of_nat i) - ?w * of_nat i\<bar> \<le> ?w * of_nat i / (2 * 10 ^ 27)"
    using rnd_error [of "?w * of_nat i"] w(2) by (simp add: abs_mult)
  then have "\<bar>rnd (?w * of_nat i) - ?w * of_nat i\<bar> / of_nat n \<le> ?w * of_nat i / (2 * 10 ^ 27) / of_nat n"
    by (rule divide_right_mono) simp
  then have yu: "\<bar>y - u\<bar> \<le> u / (2 * 10 ^ 27)"
    using i by (simp add: y_def u_def dmul_def abs_divide field_simps flip: diff_divide_distrib)
  have y0: "0 \<le> y" using w(2) by (simp add: y_def dmul_nonneg)
  have qy: "\<bar>q - y\<bar> \<le> y / (2 * 10 ^ 27)" using rnd_error [of y] y0 by (simp add: q_def)
  have q0: "0 \<le> q" using y0 by (simp add: q_def)
  have "q \<le> ?w" unfolding q_def y_def by (rule quotient_in_width [OF i n w(2) rep(2)])
  then have z: "0 \<le> ?S - q" "?S - q \<le> ?S" using le q0 by linarith+
  have "\<bar>rnd (?S - q) - (?S - q)\<bar> \<le> (?S - q) / (2 * 10 ^ 27)" using rnd_error [of "?S - q"] z(1) by simp
  then have "\<bar>rnd (?S - q) - (?S - u)\<bar> \<le> ?S / (5 * 10 ^ 26)"
    using yu qy z u le unfolding abs_le_iff by (intro conjI) (simp_all add: field_simps)
  then show ?thesis unfolding b u_def .
qed

text \<open>C21. The generated levels partition the interval between the strikes equally, from the short strike down
  to the long one. For strikes with \<open>0 \<le> long \<le> short\<close> that are numbers of the decimal context, as is their
  difference, and at most \<open>2 * 10^27\<close> levels: there are as many levels as asked for, numbered from 1; entry
  \<open>i\<close> is the short strike less \<open>i\<close> times the width over the count, up to \<open>short / (5 * 10^26)\<close>; each take
  profit price is exactly the next level's entry price, the first entry the short strike, the last take profit
  the long strike; along the levels the entries do not increase, and no price falls below the long strike or, as
  a take profit, above its own entry. Stop and budget of a level are the rounded products with rate and quantity.\<close>

theorem levels_tile_interval:
  assumes "generate_virtual_levels s c rate = Inr ls" and "0 \<le> long_put_strike s" "long_put_strike s \<le> short_put_strike s"
    and "representable (short_put_strike s)" "representable (long_put_strike s)"
      "representable (short_put_strike s - long_put_strike s)"
    and "c \<le> 2 * 10 ^ 27"
  shows "length ls = nat c \<and> ls \<noteq> [] \<and> contiguous ls
     \<and> entry_price (hd ls) = short_put_strike s \<and> tp_price (last ls) = long_put_strike s
     \<and> (\<forall>i < length ls. \<bar>entry_price (ls ! i)
          - (short_put_strike s - (short_put_strike s - long_put_strike s) * of_nat i / of_int c)\<bar> \<le> short_put_strike s / (5 * 10 ^ 26))
     \<and> (\<forall>i j. i \<le> j \<and> j < length ls \<longrightarrow> entry_price (ls ! j) \<le> entry_price (ls ! i))
     \<and> (\<forall>l \<in> set ls. long_put_strike s \<le> tp_price l \<and> tp_price l \<le> entry_price l
          \<and> stop_price l = dmul (entry_price l) (dadd 1 rate)
          \<and> option_budget l = dmul (option_quantity s) (dsub (entry_price l) (tp_price l))
          \<and> state l = READY \<and> \<not> entry_armed l \<and> recovery_debt l = 0 \<and> active_quantity l = 0)"
proof -
  have len: "length ls = nat c" "0 < length ls" "0 < c" using generate_levels_length [OF assms(1)] by simp_all
  note nth = generate_levels_nth [OF assms(1)]
  have n: "length ls \<le> 2 * 10 ^ 27" using len assms(7) by simp
  have "contiguous ls" unfolding contiguous_def by (auto simp: nth fresh_level_def)
  moreover have "entry_price (hd ls) = short_put_strike s"
    using nth [OF len(2)] len(2) assms(4) by (cases ls) (simp_all add: fresh_level_def boundary_first rnd_exact)
  moreover have "tp_price (last ls) = long_put_strike s"
  proof -
    have l: "length ls - 1 < length ls" "length ls - 1 + 1 = length ls" using len(2) by simp_all
    have "last ls = ls ! (length ls - 1)" using len(2) by (simp add: last_conv_nth)
    then show ?thesis using nth [OF l(1)] unfolding l(2) by (simp add: fresh_level_def)
  qed
  moreover have "\<bar>entry_price (ls ! i) - (short_put_strike s - (short_put_strike s - long_put_strike s) * of_nat i / of_int c)\<bar>
      \<le> short_put_strike s / (5 * 10 ^ 26)" if "i < length ls" for i
  proof -
    have "entry_price (ls ! i) = level_boundaries s (length ls) ! i" by (simp add: nth [OF that] fresh_level_def)
    moreover have "of_int c = (of_nat (length ls) :: rat)" using len by simp
    ultimately show ?thesis using boundary_close [OF that n assms(2,3,5,6)] by simp
  qed
  moreover have "\<forall>l \<in> set ls. stop_price l = dmul (entry_price l) (dadd 1 rate)
      \<and> option_budget l = dmul (option_quantity s) (dsub (entry_price l) (tp_price l))
      \<and> state l = READY \<and> \<not> entry_armed l \<and> recovery_debt l = 0 \<and> active_quantity l = 0"
    by (auto simp: in_set_conv_nth nth fresh_level_def)
  ultimately show ?thesis using len levels_descend [OF assms(1,3,5,6,7)] by auto
qed

definition sample_spread :: credit_spread where
  "sample_spread = \<lparr>spot = 3010, short_put_strike = 3000, long_put_strike = 2900,
     option_quantity = 1, premium_credit = 25\<rparr>"

lemma representable_numeral: "numeral v \<le> (10 ^ 28 :: int) \<Longrightarrow> representable (numeral v)"
  using representable_of_int [of "numeral v"] by simp

theorem levels_tile_interval_witness:
  "\<exists>ls. generate_virtual_levels sample_spread 4 (15 / 10000) = Inr ls \<and> length ls = 4 \<and> contiguous ls
     \<and> \<bar>entry_price (ls ! 2) - 2950\<bar> \<le> 3000 / (5 * 10 ^ 26)
     \<and> (\<forall>l \<in> set ls. 2900 \<le> tp_price l \<and> tp_price l \<le> entry_price l)"
proof -
  have r: "0 \<le> long_put_strike sample_spread" "long_put_strike sample_spread \<le> short_put_strike sample_spread"
    "representable (short_put_strike sample_spread)" "representable (long_put_strike sample_spread)"
    "representable (short_put_strike sample_spread - long_put_strike sample_spread)"
    by (simp_all add: sample_spread_def representable_numeral)
  obtain ls where ls: "generate_virtual_levels sample_spread 4 (15 / 10000) = Inr ls"
    by (simp add: generate_virtual_levels_def Let_def)
  note t = levels_tile_interval [OF ls r]
  from t have l: "length ls = 4" by simp
  from t have "\<forall>i < length ls. \<bar>entry_price (ls ! i) - (3000 - 100 * of_nat i / 4)\<bar> \<le> 3000 / (5 * 10 ^ 26)"
    by (simp add: sample_spread_def)
  from this [rule_format, of 2] l have "\<bar>entry_price (ls ! 2) - 2950\<bar> \<le> 3000 / (5 * 10 ^ 26)" by simp
  moreover have "\<forall>l \<in> set ls. 2900 \<le> tp_price l \<and> tp_price l \<le> entry_price l" using t by (simp add: sample_spread_def)
  ultimately show ?thesis using ls l t by auto
qed

end
