(* ===== verification/Ledger.thy ===== *)
theory Ledger
  imports Virtual_Levels
begin

text \<open>
  \<open>core/ledger.py\<close>: the append-only event ledger with its running totals, the accounting
  snapshots and the strategy result. A \<open>record_*\<close> method appends one event and adds it to the
  totals; here it returns the new ledger. The lemmas relate the totals to the events: every
  total is the fold of its increments over the event list (\<open>ledger_consistent\<close>), so the
  ledger can be rebuilt from its events (\<open>replay_ledger\<close>).
\<close>

section \<open>Events and totals\<close>

datatype ledger_event_type = ENTRY | FLOOR_ENTRY | TP | STOP | BREAKEVEN | LOCK

record ledger_event =
  ev_sequence :: nat
  ev_tick_index :: int
  ev_event_type :: ledger_event_type
  ev_level_id :: nat
  ev_price :: dec
  ev_quantity :: dec
  ev_realized_pnl :: dec
  ev_level_state :: level_state
  ev_attempt :: nat
  ev_projected_stop_loss :: dec
  ev_zone_profit_component :: dec
  ev_recovery_profit_component :: dec
  ev_recovery_allocations :: allocations

record ledger =
  events :: "ledger_event list"
  realized_hedge_pnl :: dec
  gross_stop_losses :: dec
  gross_tp_profits :: dec
  maximum_quantity :: dec
  entries :: nat
  stops :: nat
  tps :: nat
  reentries :: nat
  floor_entries :: nat
  breakeven_exits :: nat

definition empty_ledger :: ledger where
  "empty_ledger = \<lparr>events = [], realized_hedge_pnl = 0, gross_stop_losses = 0, gross_tp_profits = 0,
     maximum_quantity = 0, entries = 0, stops = 0, tps = 0, reentries = 0, floor_entries = 0,
     breakeven_exits = 0\<rparr>"

definition append_event ::
    "ledger \<Rightarrow> int \<Rightarrow> ledger_event_type \<Rightarrow> hedge_level \<Rightarrow> dec \<Rightarrow> dec \<Rightarrow> dec \<Rightarrow> dec \<Rightarrow> dec \<Rightarrow> dec
     \<Rightarrow> allocations \<Rightarrow> ledger" where
  "append_event g tick ty l price qty realized projected zone recov allocs =
     g\<lparr>events := events g @ [\<lparr>ev_sequence = length (events g) + 1, ev_tick_index = tick,
        ev_event_type = ty, ev_level_id = level_id l, ev_price = price, ev_quantity = qty,
        ev_realized_pnl = realized, ev_level_state = state l, ev_attempt = attempts l,
        ev_projected_stop_loss = projected, ev_zone_profit_component = zone,
        ev_recovery_profit_component = recov, ev_recovery_allocations = allocs\<rparr>]\<rparr>"

definition record_open ::
    "ledger \<Rightarrow> int \<Rightarrow> ledger_event_type \<Rightarrow> hedge_level \<Rightarrow> dec \<Rightarrow> dec \<Rightarrow> ledger" where
  "record_open g tick ty l qty projected = (let
     g1 = g\<lparr>entries := entries g + 1\<rparr>;
     g2 = (if 1 < attempts l then g1\<lparr>reentries := reentries g1 + 1\<rparr> else g1);
     g3 = g2\<lparr>maximum_quantity := max (maximum_quantity g2) qty\<rparr>
   in append_event g3 tick ty l (entry_price l) qty 0 projected 0 0 [])"

definition record_entry :: "ledger \<Rightarrow> hedge_level \<Rightarrow> int \<Rightarrow> dec \<Rightarrow> dec \<Rightarrow> ledger" where
  "record_entry g l tick qty projected = record_open g tick ENTRY l qty projected"

definition record_floor_entry :: "ledger \<Rightarrow> hedge_level \<Rightarrow> int \<Rightarrow> dec \<Rightarrow> dec \<Rightarrow> ledger" where
  "record_floor_entry g l tick qty projected =
     record_open (g\<lparr>floor_entries := floor_entries g + 1\<rparr>) tick FLOOR_ENTRY l qty projected"

definition record_breakeven :: "ledger \<Rightarrow> hedge_level \<Rightarrow> int \<Rightarrow> dec \<Rightarrow> ledger" where
  "record_breakeven g l tick qty =
     append_event (g\<lparr>breakeven_exits := breakeven_exits g + 1\<rparr>) tick BREAKEVEN l (entry_price l) qty 0 0 0 0 []"

definition record_stop :: "ledger \<Rightarrow> hedge_level \<Rightarrow> int \<Rightarrow> dec \<Rightarrow> dec \<Rightarrow> ledger" where
  "record_stop g l tick qty loss =
     append_event (g\<lparr>stops := stops g + 1, gross_stop_losses := dadd (gross_stop_losses g) loss,
        realized_hedge_pnl := dsub (realized_hedge_pnl g) loss\<rparr>)
       tick STOP l (stop_price l) qty (dneg loss) 0 0 0 []"

definition record_tp ::
    "ledger \<Rightarrow> hedge_level \<Rightarrow> int \<Rightarrow> dec \<Rightarrow> dec \<Rightarrow> dec \<Rightarrow> dec \<Rightarrow> allocations \<Rightarrow> ledger" where
  "record_tp g l tick qty profit zone recov allocs =
     append_event (g\<lparr>tps := tps g + 1, gross_tp_profits := dadd (gross_tp_profits g) profit,
        realized_hedge_pnl := dadd (realized_hedge_pnl g) profit\<rparr>)
       tick TP l (tp_price l) qty profit 0 zone recov allocs"

definition record_locked :: "ledger \<Rightarrow> hedge_level \<Rightarrow> int \<Rightarrow> dec \<Rightarrow> dec \<Rightarrow> ledger" where
  "record_locked g l tick qty projected =
     append_event g tick LOCK l (entry_price l) qty 0 projected 0 0 []"

section \<open>Snapshots and results\<close>

record accounting_snapshot =
  as_tick_index :: int
  as_event_sequence :: "nat option"
  as_price :: dec
  as_option_terminal_value_pnl :: dec
  as_realized_hedge_pnl :: dec
  as_open_hedge_pnl :: dec
  as_combined_terminal_value_pnl :: dec
  as_gross_stop_losses :: dec
  as_gross_tp_profits :: dec
  as_outstanding_recovery_debt :: dec
  as_remaining_premium_stop_budget :: dec
  as_incremental_pnl_since_entry :: dec

definition level_open_pnl :: "dec \<Rightarrow> hedge_level \<Rightarrow> dec" where
  "level_open_pnl price l = dmul (active_quantity l) (dsub (entry_price l) price)"

definition open_pnl :: "hedge_level list \<Rightarrow> dec \<Rightarrow> dec" where
  "open_pnl ls price = dsum (map (level_open_pnl price) (filter (\<lambda>l. state l = ACTIVE) ls))"

definition snapshot ::
    "ledger \<Rightarrow> credit_spread \<Rightarrow> hedge_level list \<Rightarrow> dec \<Rightarrow> int \<Rightarrow> nat option \<Rightarrow> accounting_snapshot" where
  "snapshot g s ls price tick seq = (let
     option_pnl = expiry_pnl s price;
     opn = open_pnl ls price;
     combined = dadd (dadd option_pnl (realized_hedge_pnl g)) opn;
     outstanding = dsum (map recovery_debt ls)
   in \<lparr>as_tick_index = tick, as_event_sequence = seq, as_price = price,
       as_option_terminal_value_pnl = option_pnl, as_realized_hedge_pnl = realized_hedge_pnl g,
       as_open_hedge_pnl = opn, as_combined_terminal_value_pnl = combined,
       as_gross_stop_losses = gross_stop_losses g, as_gross_tp_profits = gross_tp_profits g,
       as_outstanding_recovery_debt = outstanding,
       as_remaining_premium_stop_budget = dsub (premium_credit s) (gross_stop_losses g),
       as_incremental_pnl_since_entry = dsub combined (expiry_pnl s (spot s))\<rparr>)"

record strategy_metrics =
  combined_pnl :: dec
  minimum_combined_pnl :: dec
  floor_pass :: bool
  number_of_entries :: nat
  number_of_stops :: nat
  number_of_tps :: nat
  reentry_count :: nat
  floor_entry_count :: nat
  breakeven_exit_count :: nat
  sm_maximum_quantity :: dec
  premium_budget_consumed :: dec
  remaining_premium_stop_budget :: dec
  locked_levels :: "nat list"
  outstanding_recovery_debt :: dec

text \<open>A \<open>LevelSnapshot\<close> copies every field of the level but its active allocations.\<close>

record strategy_result =
  input_prices :: "dec list"
  sr_prices :: "dec list"
  sr_snapshots :: "accounting_snapshot list"
  sr_events :: "ledger_event list"
  sr_levels :: "hedge_level list"
  metrics :: strategy_metrics

definition level_snapshot :: "hedge_level \<Rightarrow> hedge_level" where
  "level_snapshot l = l\<lparr>active_recovery_allocations := []\<rparr>"

definition build_result ::
    "ledger \<Rightarrow> credit_spread \<Rightarrow> hedge_level list \<Rightarrow> dec list \<Rightarrow> accounting_snapshot list \<Rightarrow> strategy_result res" where
  "build_result g s ls prices snaps =
     raise_when (snaps = []) ''at least one accounting snapshot is required''
    (let locked = map level_id (filter (\<lambda>l. state l = LOCKED) ls);
         combined = map as_combined_terminal_value_pnl snaps;
         minimum_combined = fold min (tl combined) (hd combined);
         final = last snaps;
         m = \<lparr>combined_pnl = as_combined_terminal_value_pnl final,
              minimum_combined_pnl = minimum_combined,
              floor_pass = (0 \<le> minimum_combined),
              number_of_entries = entries g, number_of_stops = stops g, number_of_tps = tps g,
              reentry_count = reentries g, floor_entry_count = floor_entries g,
              breakeven_exit_count = breakeven_exits g, sm_maximum_quantity = maximum_quantity g,
              premium_budget_consumed = gross_stop_losses g,
              remaining_premium_stop_budget = dsub (premium_credit s) (gross_stop_losses g),
              locked_levels = locked,
              outstanding_recovery_debt = as_outstanding_recovery_debt final\<rparr>
     in Inr \<lparr>input_prices = prices, sr_prices = map as_price snaps, sr_snapshots = snaps,
             sr_events = events g, sr_levels = map level_snapshot ls, metrics = m\<rparr>)"

section \<open>The totals are folds of the events\<close>

text \<open>
  \<open>replay_event\<close> is the specification of the totals: what one event adds to a ledger that does
  not yet hold it. Replaying the events from the empty ledger must give the ledger back.
\<close>

definition is_open :: "ledger_event \<Rightarrow> bool" where
  "is_open e \<longleftrightarrow> ev_event_type e \<in> {ENTRY, FLOOR_ENTRY}"

definition replay_event :: "ledger \<Rightarrow> ledger_event \<Rightarrow> ledger" where
  "replay_event g e = g\<lparr>
     events := events g @ [e],
     realized_hedge_pnl := (if ev_event_type e \<in> {TP, STOP} then dadd (realized_hedge_pnl g) (ev_realized_pnl e)
                            else realized_hedge_pnl g),
     gross_stop_losses := (if ev_event_type e = STOP then dsub (gross_stop_losses g) (ev_realized_pnl e)
                           else gross_stop_losses g),
     gross_tp_profits := (if ev_event_type e = TP then dadd (gross_tp_profits g) (ev_realized_pnl e)
                          else gross_tp_profits g),
     maximum_quantity := (if is_open e then max (maximum_quantity g) (ev_quantity e) else maximum_quantity g),
     entries := entries g + (if is_open e then 1 else 0),
     stops := stops g + (if ev_event_type e = STOP then 1 else 0),
     tps := tps g + (if ev_event_type e = TP then 1 else 0),
     reentries := reentries g + (if is_open e \<and> 1 < ev_attempt e then 1 else 0),
     floor_entries := floor_entries g + (if ev_event_type e = FLOOR_ENTRY then 1 else 0),
     breakeven_exits := breakeven_exits g + (if ev_event_type e = BREAKEVEN then 1 else 0)\<rparr>"

definition replay_ledger :: "ledger_event list \<Rightarrow> ledger" where
  "replay_ledger es = foldl replay_event empty_ledger es"

definition ledger_consistent :: "ledger \<Rightarrow> bool" where
  "ledger_consistent g \<longleftrightarrow> g = replay_ledger (events g)
     \<and> map ev_sequence (events g) = [1..<length (events g) + 1]"

lemma replay_ledger_snoc: "replay_ledger (es @ [e]) = replay_event (replay_ledger es) e"
  by (simp add: replay_ledger_def)

lemma ledger_consistent_empty [simp, intro]: "ledger_consistent empty_ledger"
  by (simp add: ledger_consistent_def empty_ledger_def replay_ledger_def)

lemma ledger_consistent_snoc:
  assumes "ledger_consistent g" and "g' = replay_event g e" and "ev_sequence e = length (events g) + 1"
  shows "ledger_consistent g'"
proof -
  have ev: "events g' = events g @ [e]" by (simp add: assms(2) replay_event_def)
  have "g' = replay_event (replay_ledger (events g)) e"
    using assms(1,2) by (simp add: ledger_consistent_def)
  then show ?thesis using assms unfolding ledger_consistent_def ev replay_ledger_snoc by simp
qed

lemma append_event_events: "events (append_event g t ty l p q r pr z rc al) = events g @
   [\<lparr>ev_sequence = length (events g) + 1, ev_tick_index = t,
        ev_event_type = ty, ev_level_id = level_id l, ev_price = p, ev_quantity = q,
        ev_realized_pnl = r, ev_level_state = state l, ev_attempt = attempts l,
        ev_projected_stop_loss = pr, ev_zone_profit_component = z,
        ev_recovery_profit_component = rc, ev_recovery_allocations = al\<rparr>]"
  by (simp add: append_event_def)

text \<open>Each \<open>record_*\<close> operation is one replayed event. A stop loss must be a number the context
  can hold: the negation that records it as P&L would otherwise round once more.\<close>

lemmas record_defs = record_entry_def record_floor_entry_def record_open_def record_breakeven_def
  record_stop_def record_tp_def record_locked_def

lemma record_is_replay:
  "record_entry g l t q pr = replay_event g (last (events (record_entry g l t q pr)))"
  "record_floor_entry g l t q pr = replay_event g (last (events (record_floor_entry g l t q pr)))"
  "record_breakeven g l t q = replay_event g (last (events (record_breakeven g l t q)))"
  "record_tp g l t q p z rc al = replay_event g (last (events (record_tp g l t q p z rc al)))"
  "record_locked g l t q pr = replay_event g (last (events (record_locked g l t q pr)))"
  "representable ls \<Longrightarrow> record_stop g l t q ls = replay_event g (last (events (record_stop g l t q ls)))"
  by (simp_all add: record_defs append_event_def replay_event_def is_open_def Let_def
      dadd_def dsub_def dneg_def rnd_exact)

lemma record_sequence:
  "ev_sequence (last (events (record_entry g l t q pr))) = length (events g) + 1"
  "ev_sequence (last (events (record_floor_entry g l t q pr))) = length (events g) + 1"
  "ev_sequence (last (events (record_breakeven g l t q))) = length (events g) + 1"
  "ev_sequence (last (events (record_tp g l t q p z rc al))) = length (events g) + 1"
  "ev_sequence (last (events (record_locked g l t q pr))) = length (events g) + 1"
  "ev_sequence (last (events (record_stop g l t q ls))) = length (events g) + 1"
  by (simp_all add: record_defs append_event_def Let_def)

lemma record_consistent [intro]:
  assumes "ledger_consistent g"
  shows "ledger_consistent (record_entry g l t q pr)" "ledger_consistent (record_floor_entry g l t q pr)"
    "ledger_consistent (record_breakeven g l t q)" "ledger_consistent (record_tp g l t q p z rc al)"
    "ledger_consistent (record_locked g l t q pr)"
    "representable ls \<Longrightarrow> ledger_consistent (record_stop g l t q ls)"
  by (rule ledger_consistent_snoc [OF assms], rule record_is_replay record_is_replay(6),
      simp_all add: record_sequence)+

lemma record_gross_stop [simp]:
  "gross_stop_losses (record_entry g l t q pr) = gross_stop_losses g"
  "gross_stop_losses (record_floor_entry g l t q pr) = gross_stop_losses g"
  "gross_stop_losses (record_breakeven g l t q) = gross_stop_losses g"
  "gross_stop_losses (record_tp g l t q p z rc al) = gross_stop_losses g"
  "gross_stop_losses (record_locked g l t q pr) = gross_stop_losses g"
  "gross_stop_losses (record_stop g l t q ls) = dadd (gross_stop_losses g) ls"
  by (simp_all add: record_defs append_event_def Let_def)

lemma record_events_grow:
  "\<exists>e. events (record_entry g l t q pr) = events g @ [e]"
  "\<exists>e. events (record_floor_entry g l t q pr) = events g @ [e]"
  "\<exists>e. events (record_breakeven g l t q) = events g @ [e]"
  "\<exists>e. events (record_tp g l t q p z rc al) = events g @ [e]"
  "\<exists>e. events (record_locked g l t q pr) = events g @ [e]"
  "\<exists>e. events (record_stop g l t q ls) = events g @ [e]"
  by (simp_all add: record_defs append_event_def Let_def)

end
