(* ===== verification/Strategy_Config.thy ===== *)
theory Strategy_Config
  imports Decimal_Arith
begin

text \<open>
  \<open>config/schema.py\<close>: the validated strategy configuration and the runtime configuration that
  restricts it outside the local environments. \<open>RuntimeConfig.from_env\<close>, which parses strings
  of the process environment, is not modelled.
\<close>

datatype recovery_mode = FULL_NEXT_TP | DISTRIBUTED

datatype lock_policy = UNHEDGED | BREAKEVEN_FLOOR

datatype runtime_environment = LOCAL_EXACT | LOCAL_SIMULATED | DEMO | SHADOW_MAINNET | PRODUCTION_PILOT | PRODUCTION

datatype trigger_price_source = LAST_TRADE | MARK_PRICE | INDEX_PRICE

record strategy_config =
  level_count :: int
  stop_rate :: dec
  recovery_mode :: recovery_mode
  lock_policy :: lock_policy
  recovery_tp_count :: int

definition mk_strategy_config ::
    "int \<Rightarrow> dec \<Rightarrow> recovery_mode \<Rightarrow> lock_policy \<Rightarrow> int \<Rightarrow> strategy_config res" where
  [post_init]: "mk_strategy_config n rate mode policy tp_count =
     raise_when (n \<le> 0) ''level count must be positive''
    (raise_when (rate \<le> 0) ''stop rate must be positive''
    (raise_when (tp_count \<le> 0) ''recovery TP count must be positive''
    (Inr \<lparr>level_count = n, stop_rate = rate, recovery_mode = mode, lock_policy = policy,
          recovery_tp_count = tp_count\<rparr>)))"

definition baseline :: "int \<Rightarrow> int \<Rightarrow> strategy_config res" where
  "baseline n tp_count = mk_strategy_config n (15 / 10000) FULL_NEXT_TP UNHEDGED tp_count"

definition experimental_floor :: "int \<Rightarrow> int \<Rightarrow> strategy_config res" where
  "experimental_floor n tp_count = mk_strategy_config n (15 / 10000) FULL_NEXT_TP BREAKEVEN_FLOOR tp_count"

record runtime_config =
  rt_environment :: runtime_environment
  rt_strategy :: strategy_config
  rt_trigger_price_source :: trigger_price_source

definition mk_runtime_config ::
    "runtime_environment \<Rightarrow> strategy_config \<Rightarrow> trigger_price_source \<Rightarrow> runtime_config res" where
  [post_init]: "mk_runtime_config env strategy source = (let local = (env = LOCAL_EXACT \<or> env = LOCAL_SIMULATED) in
     raise_when (\<not> local \<and> (recovery_mode strategy \<noteq> FULL_NEXT_TP \<or> lock_policy strategy \<noteq> UNHEDGED))
       ''demo, shadow, and production require FULL_NEXT_TP and UNHEDGED''
    (raise_when (\<not> local \<and> source \<noteq> LAST_TRADE)
       ''demo, shadow, and production require LAST_TRADE trigger source''
    (Inr \<lparr>rt_environment = env, rt_strategy = strategy, rt_trigger_price_source = source\<rparr>)))"

definition valid_config :: "strategy_config \<Rightarrow> bool" where
  "valid_config c \<longleftrightarrow> 0 < level_count c \<and> 0 < stop_rate c \<and> 0 < recovery_tp_count c"

lemma mk_strategy_config_valid: "mk_strategy_config n r m p t = Inr c \<Longrightarrow> valid_config c"
  by (auto simp: mk_strategy_config_def valid_config_def)

lemma baseline_policy:
  "baseline n t = Inr c \<Longrightarrow> recovery_mode c = FULL_NEXT_TP \<and> lock_policy c = UNHEDGED \<and> valid_config c"
  by (auto simp: baseline_def mk_strategy_config_def valid_config_def)

lemma runtime_config_restricted:
  "mk_runtime_config env c src = Inr r \<Longrightarrow> env \<notin> {LOCAL_EXACT, LOCAL_SIMULATED} \<Longrightarrow>
     recovery_mode (rt_strategy r) = FULL_NEXT_TP \<and> lock_policy (rt_strategy r) = UNHEDGED
     \<and> rt_trigger_price_source r = LAST_TRADE"
  by (auto simp: mk_runtime_config_def Let_def)

end
