(* ===== verification/Hedge_Engine.thy ===== *)
theory Hedge_Engine
  imports Ledger Strategy_Config "HOL-Library.Product_Lexorder"
begin

text \<open>
  \<open>core/hedge_engine.py\<close> and \<open>core/crossing_engine.py\<close>: the tick-driven hedge lifecycle. The
  engine's state is the record \<open>hedge_engine\<close>; the Python methods that mutate a level of
  \<open>self.levels\<close> update that position of the list. \<open>process_loop\<close> is the \<open>while True\<close> loop of
  \<open>CrossingEngine.process_transition\<close> over this engine; its termination proof is that every
  iteration executes a trigger not executed before in the same segment.
\<close>

section \<open>Engine state\<close>

record hedge_engine =
  config :: strategy_config
  spread :: credit_spread
  levels :: "hedge_level list"
  ledger :: ledger
  previous_price :: "dec option"

definition mk_hedge_engine :: "credit_spread \<Rightarrow> int \<Rightarrow> recovery_mode \<Rightarrow> int \<Rightarrow> lock_policy \<Rightarrow> dec \<Rightarrow> hedge_engine res" where
  "mk_hedge_engine s n mode tp_count policy rate =
     r_bind (mk_strategy_config n rate mode policy tp_count) (\<lambda>c.
     r_bind (generate_virtual_levels s (level_count c) (stop_rate c)) (\<lambda>ls.
     Inr \<lparr>config = c, spread = s, levels = ls, ledger = empty_ledger, previous_price = None\<rparr>))"

definition initial_stop_budget :: "hedge_engine \<Rightarrow> dec" where
  "initial_stop_budget e = premium_credit (spread e)"

definition used_stop_budget :: "hedge_engine \<Rightarrow> dec" where
  "used_stop_budget e = gross_stop_losses (ledger e)"

definition remaining_stop_budget :: "hedge_engine \<Rightarrow> dec" where
  "remaining_stop_budget e = dsub (initial_stop_budget e) (used_stop_budget e)"

text \<open>\<open>self.levels[level_id - 1]\<close>: Python counts index \<open>-1\<close> from the end.\<close>

definition level_index :: "hedge_level list \<Rightarrow> nat \<Rightarrow> nat res" where
  "level_index ls i = (let k = (if i = 0 then length ls - 1 else i - 1)
     in if k < length ls then Inr k else Inl IndexError)"

definition set_level :: "hedge_engine \<Rightarrow> nat \<Rightarrow> hedge_level \<Rightarrow> hedge_engine" where
  "set_level e k l = e\<lparr>levels := (levels e)[k := l]\<rparr>"

section \<open>Opening a hedge\<close>

fun distributed_allocation :: "nat \<Rightarrow> hedge_level list \<Rightarrow> allocations" where
  "distributed_allocation target [] = []"
| "distributed_allocation target (source # rest) =
     (if target < level_id source then []
      else if 0 < recovery_debt source \<and> 0 < recovery_tps_remaining source
        then [(level_id source, min (recovery_debt source)
                 (dquot (recovery_debt source) (of_int (recovery_tps_remaining source))))]
        else distributed_allocation target rest)"

definition recovery_allocations_for :: "hedge_engine \<Rightarrow> hedge_level \<Rightarrow> allocations" where
  "recovery_allocations_for e target = (case recovery_mode (config e) of
       FULL_NEXT_TP \<Rightarrow> (if 0 < recovery_debt target then [(level_id target, recovery_debt target)] else [])
     | DISTRIBUTED \<Rightarrow> distributed_allocation (level_id target) (levels e))"

definition open_level :: "hedge_level \<Rightarrow> dec \<Rightarrow> bool \<Rightarrow> allocations \<Rightarrow> hedge_level" where
  "open_level l quantity is_floor allocs = l\<lparr>active_quantity := quantity, active_is_floor := is_floor,
     entry_armed := False, active_recovery_allocations := allocs, attempts := attempts l + 1,
     state := ACTIVE\<rparr>"

definition open_floor_hedge :: "hedge_engine \<Rightarrow> nat \<Rightarrow> int \<Rightarrow> dec \<Rightarrow> allocations \<Rightarrow> dec \<Rightarrow> hedge_engine" where
  "open_floor_hedge e k tick quantity allocs projected = (let
     l = open_level (levels e ! k) quantity True allocs
   in (set_level e k l)\<lparr>ledger := record_floor_entry (ledger e) l tick quantity projected\<rparr>)"

definition open_hedge :: "hedge_engine \<Rightarrow> nat \<Rightarrow> int \<Rightarrow> hedge_engine res" where
  "open_hedge e k tick = (let
     level = levels e ! k;
     allocs = recovery_allocations_for e level;
     recovery_target = dsum (map snd allocs)
   in r_bind (ddiv (dadd (option_budget level) recovery_target) (tp_distance level)) (\<lambda>quantity.
      let projected = dmul quantity (stop_distance level)
      in if initial_stop_budget e < dadd (used_stop_budget e) projected
         then (case lock_policy (config e) of
             BREAKEVEN_FLOOR \<Rightarrow> Inr (open_floor_hedge e k tick quantity allocs projected)
           | UNHEDGED \<Rightarrow> (let l = level\<lparr>state := LOCKED, entry_armed := False\<rparr>
               in Inr ((set_level e k l)\<lparr>ledger := record_locked (ledger e) l tick quantity projected\<rparr>)))
         else (let l = open_level level quantity False allocs
               in Inr ((set_level e k l)\<lparr>ledger := record_entry (ledger e) l tick quantity projected\<rparr>))))"

section \<open>Closing a hedge\<close>

text \<open>One iteration of the allocation loop of \<open>_take_profit\<close>.\<close>

definition settle_source :: "recovery_mode \<Rightarrow> hedge_level list \<Rightarrow> nat \<times> dec \<Rightarrow> hedge_level list res" where
  "settle_source mode ls alloc = r_bind (level_index ls (fst alloc)) (\<lambda>k. let
     source = ls ! k;
     debt = dsub (recovery_debt source) (snd alloc);
     source1 = source\<lparr>recovery_debt := debt\<rparr>;
     source2 = (case mode of FULL_NEXT_TP \<Rightarrow> source1
       | DISTRIBUTED \<Rightarrow> source1\<lparr>recovery_tps_remaining :=
           (if debt = 0 then 0 else recovery_tps_remaining source - 1)\<rparr>)
   in raise_if (debt < 0) (AssertionError ''recovery debt cannot become negative'')
        (Inr (ls[k := source2])))"

definition take_profit :: "hedge_engine \<Rightarrow> nat \<Rightarrow> int \<Rightarrow> hedge_engine res" where
  "take_profit e k tick = (let
     level = levels e ! k;
     quantity = active_quantity level;
     profit = dmul quantity (tp_distance level);
     allocs = active_recovery_allocations level;
     recovery_profit = dsum (map snd allocs)
   in r_bind (r_foldl (settle_source (recovery_mode (config e))) (levels e) allocs) (\<lambda>ls.
      let level1 = ls ! k;
          l = level1\<lparr>realized_tp_profit := dadd (realized_tp_profit level1) profit,
                active_quantity := 0, active_is_floor := False, entry_armed := False,
                active_recovery_allocations := [], state := PAID\<rparr>
      in Inr (e\<lparr>levels := ls[k := l],
               ledger := record_tp (ledger e) l tick quantity profit (option_budget l)
                           recovery_profit allocs\<rparr>)))"

definition stop_level :: "recovery_mode \<Rightarrow> int \<Rightarrow> hedge_level \<Rightarrow> dec \<Rightarrow> hedge_level" where
  "stop_level mode tp_count level loss = level\<lparr>
     realized_stop_losses := dadd (realized_stop_losses level) loss,
     stop_loss_history := stop_loss_history level @ [loss],
     recovery_debt := dadd (recovery_debt level) loss,
     recovery_tps_remaining := (if mode = DISTRIBUTED \<and> recovery_tps_remaining level = 0
        then tp_count else recovery_tps_remaining level),
     active_quantity := 0, active_recovery_allocations := [], state := READY, entry_armed := True\<rparr>"

definition stop_hedge :: "hedge_engine \<Rightarrow> nat \<Rightarrow> int \<Rightarrow> hedge_engine res" where
  "stop_hedge e k tick = (let level = levels e ! k in
     raise_if (active_is_floor level) (AssertionError ''floor hedge cannot execute a fixed stop'')
    (let quantity = active_quantity level;
         loss = dmul quantity (stop_distance level);
         l = stop_level (recovery_mode (config e)) (recovery_tp_count (config e)) level loss
     in Inr ((set_level e k l)\<lparr>ledger := record_stop (ledger e) l tick quantity loss\<rparr>)))"

definition breakeven_hedge :: "hedge_engine \<Rightarrow> nat \<Rightarrow> int \<Rightarrow> hedge_engine res" where
  "breakeven_hedge e k tick = (let level = levels e ! k in
     raise_if (\<not> active_is_floor level) (AssertionError ''breakeven exit requires a floor hedge'')
    (let quantity = active_quantity level;
         l = level\<lparr>active_quantity := 0, active_is_floor := False, active_recovery_allocations := [],
                  state := READY, entry_armed := True\<rparr>
     in Inr ((set_level e k l)\<lparr>ledger := record_breakeven (ledger e) l tick quantity\<rparr>)))"

section \<open>Crossings\<close>

datatype direction = DOWN | UP

datatype crossing_event_type = C_ENTRY | C_TP | C_STOP | C_BREAKEVEN

record crossing_event =
  cr_event_type :: crossing_event_type
  cr_level_id :: nat
  cr_price :: dec
  cr_priority :: int

definition crossing :: "crossing_event_type \<Rightarrow> nat \<Rightarrow> dec \<Rightarrow> int \<Rightarrow> crossing_event" where
  "crossing ty i p prio = \<lparr>cr_event_type = ty, cr_level_id = i, cr_price = p, cr_priority = prio\<rparr>"

definition level_crossings :: "dec \<Rightarrow> dec \<Rightarrow> direction \<Rightarrow> hedge_level \<Rightarrow> crossing_event list" where
  "level_crossings previous current dir level = (case dir of
     DOWN \<Rightarrow>
       (if state level = ACTIVE \<and> tp_price level < previous \<and> current \<le> tp_price level
        then [crossing C_TP (level_id level) (tp_price level) 0] else []) @
       (if state level = READY \<and> entry_armed level \<and> current \<le> entry_price level
        then [crossing C_ENTRY (level_id level) (entry_price level) 1] else [])
   | UP \<Rightarrow>
       (if state level = ACTIVE \<and> active_is_floor level \<and> previous \<le> entry_price level
           \<and> entry_price level \<le> current
        then [crossing C_BREAKEVEN (level_id level) (entry_price level) 0]
        else if state level = ACTIVE \<and> previous < stop_price level \<and> stop_price level \<le> current
        then [crossing C_STOP (level_id level) (stop_price level) 0] else []))"

definition eligible_crossings :: "hedge_engine \<Rightarrow> dec \<Rightarrow> dec \<Rightarrow> direction \<Rightarrow> crossing_event list" where
  "eligible_crossings e previous current dir = concat (map (level_crossings previous current dir) (levels e))"

definition execute_crossing :: "hedge_engine \<Rightarrow> crossing_event \<Rightarrow> int \<Rightarrow> hedge_engine res" where
  "execute_crossing e ev tick = r_bind (level_index (levels e) (cr_level_id ev)) (\<lambda>k.
     case cr_event_type ev of
       C_ENTRY \<Rightarrow> open_hedge e k tick
     | C_TP \<Rightarrow> take_profit e k tick
     | C_STOP \<Rightarrow> stop_hedge e k tick
     | C_BREAKEVEN \<Rightarrow> breakeven_hedge e k tick)"

definition inside_remaining_segment :: "dec \<Rightarrow> dec \<Rightarrow> dec \<Rightarrow> direction \<Rightarrow> bool" where
  "inside_remaining_segment price cursor current dir = (case dir of
     DOWN \<Rightarrow> current \<le> price \<and> price \<le> cursor
   | UP \<Rightarrow> cursor \<le> price \<and> price \<le> current)"

definition down_key :: "crossing_event \<Rightarrow> dec \<times> int \<times> nat" where
  "down_key ev = (dneg (cr_price ev), cr_priority ev, cr_level_id ev)"

definition up_key :: "crossing_event \<Rightarrow> dec \<times> int \<times> nat" where
  "up_key ev = (cr_price ev, cr_priority ev, cr_level_id ev)"

definition nearest :: "crossing_event list \<Rightarrow> direction \<Rightarrow> crossing_event" where
  "nearest candidates dir = (case dir of
     DOWN \<Rightarrow> hd (sort_key down_key candidates)
   | UP \<Rightarrow> hd (sort_key up_key candidates))"

type_synonym crossing_key = "crossing_event_type \<times> nat \<times> dec"

definition key_of :: "crossing_event \<Rightarrow> crossing_key" where
  "key_of ev = (cr_event_type ev, cr_level_id ev, cr_price ev)"

definition candidates ::
    "hedge_engine \<Rightarrow> dec \<Rightarrow> dec \<Rightarrow> direction \<Rightarrow> dec \<Rightarrow> crossing_key list \<Rightarrow> crossing_event list" where
  "candidates e previous current dir cursor processed =
     filter (\<lambda>ev. inside_remaining_segment (cr_price ev) cursor current dir \<and> key_of ev \<notin> set processed)
       (eligible_crossings e previous current dir)"


section \<open>Levels keep their geometry\<close>

text \<open>No operation changes the number, the prices or the budget of a level.\<close>

definition geometry :: "hedge_level \<Rightarrow> nat \<times> dec \<times> dec \<times> dec \<times> dec" where
  "geometry l = (level_id l, entry_price l, tp_price l, stop_price l, option_budget l)"

definition geometries :: "hedge_engine \<Rightarrow> (nat \<times> dec \<times> dec \<times> dec \<times> dec) list" where
  "geometries e = map geometry (levels e)"

lemma geometry_set_level:
  "geometry l = geometry (levels e ! k) \<Longrightarrow> geometries (set_level e k l) = geometries e"
  by (simp add: geometries_def set_level_def list_update_same_map)

lemma geometries_ledger [simp]: "geometries (e\<lparr>ledger := g\<rparr>) = geometries e"
  by (simp add: geometries_def)

lemma geometry_fields [simp]:
  "geometry (open_level l q f a) = geometry l"
  "geometry (stop_level m c l loss) = geometry l"
  "geometry (l\<lparr>state := st, entry_armed := b\<rparr>) = geometry l"
  by (simp_all add: geometry_def open_level_def stop_level_def)

lemma open_geometries: "open_hedge e k tick = Inr e' \<Longrightarrow> geometries e' = geometries e"
  by (auto simp: open_hedge_def open_floor_hedge_def Let_def geometry_set_level
      split: if_splits lock_policy.splits)

lemma settle_source_geometry:
  "settle_source m ls a = Inr ls' \<Longrightarrow> map geometry ls' = map geometry ls"
  by (cases m) (auto simp: settle_source_def Let_def geometry_def intro!: list_update_same_map)

lemma settle_sources_geometry:
  "r_foldl (settle_source m) ls as = Inr ls' \<Longrightarrow> map geometry ls' = map geometry ls"
  by (rule r_foldl_invariant [where P = "\<lambda>t. map geometry t = map geometry ls"])
     (auto dest: settle_source_geometry)

lemma take_profit_geometries: "take_profit e k tick = Inr e' \<Longrightarrow> geometries e' = geometries e"
  by (auto simp: take_profit_def Let_def geometries_def dest!: settle_sources_geometry
      intro!: list_update_same_map [THEN trans]) (simp_all add: geometry_def)

lemma stop_geometries: "stop_hedge e k tick = Inr e' \<Longrightarrow> geometries e' = geometries e"
  by (auto simp: stop_hedge_def Let_def geometry_set_level)

lemma breakeven_geometries: "breakeven_hedge e k tick = Inr e' \<Longrightarrow> geometries e' = geometries e"
  by (auto simp: breakeven_hedge_def Let_def geometry_set_level geometry_def)

lemma execute_geometries: "execute_crossing e ev tick = Inr e' \<Longrightarrow> geometries e' = geometries e"
  by (cases "cr_event_type ev")
     (auto simp: execute_crossing_def
       dest: open_geometries take_profit_geometries stop_geometries breakeven_geometries)

section \<open>The crossing loop\<close>

text \<open>The triggers a direction can fire: two per level.\<close>

fun trigger_keys :: "direction \<Rightarrow> nat \<times> dec \<times> dec \<times> dec \<times> dec \<Rightarrow> crossing_key list" where
  "trigger_keys DOWN (i, entry, tp, stop, budget) = [(C_TP, i, tp), (C_ENTRY, i, entry)]"
| "trigger_keys UP (i, entry, tp, stop, budget) = [(C_BREAKEVEN, i, entry), (C_STOP, i, stop)]"

definition segment_keys :: "direction \<Rightarrow> hedge_engine \<Rightarrow> crossing_key list" where
  "segment_keys dir e = concat (map (trigger_keys dir) (geometries e))"

lemma length_trigger_keys: "length (trigger_keys dir g) = 2"
  by (cases dir; cases g) simp_all

lemma length_segment_keys: "length (segment_keys dir e) = 2 * length (levels e)"
  by (simp add: segment_keys_def length_concat comp_def length_trigger_keys geometries_def sum_list_triv)

lemma level_crossing_key:
  "ev \<in> set (level_crossings p c dir l) \<Longrightarrow> key_of ev \<in> set (trigger_keys dir (geometry l))"
  by (cases dir) (auto simp: level_crossings_def geometry_def key_of_def crossing_def split: if_splits)

lemma eligible_key: "ev \<in> set (eligible_crossings e p c dir) \<Longrightarrow> key_of ev \<in> set (segment_keys dir e)"
  by (fastforce simp: eligible_crossings_def segment_keys_def geometries_def dest: level_crossing_key)

lemma hd_sort_key_in: "cs \<noteq> [] \<Longrightarrow> hd (sort_key f cs) \<in> set cs"
  using hd_in_set [of "sort_key f cs"] by (metis length_0_conv length_sort set_sort)

lemma nearest_in: "cs \<noteq> [] \<Longrightarrow> nearest cs dir \<in> set cs"
  by (cases dir) (simp_all add: nearest_def hd_sort_key_in)

lemma candidate_key:
  assumes "candidates e p c dir cursor processed \<noteq> []"
  shows "key_of (nearest (candidates e p c dir cursor processed) dir) \<in> set (segment_keys dir e) - set processed"
  using nearest_in [OF assms, of dir] by (auto simp: candidates_def dest: eligible_key)

function process_loop ::
    "(hedge_engine \<Rightarrow> crossing_event \<Rightarrow> 'a \<Rightarrow> 'a) \<Rightarrow> dec \<Rightarrow> dec \<Rightarrow> direction \<Rightarrow> int \<Rightarrow> hedge_engine \<Rightarrow> dec
     \<Rightarrow> crossing_event list \<Rightarrow> crossing_key list \<Rightarrow> 'a \<Rightarrow> (hedge_engine \<times> crossing_event list \<times> 'a) res" where
  "process_loop on_executed previous current dir tick e cursor executed processed acc =
     (let cs = candidates e previous current dir cursor processed
      in if cs = [] then Inr (e, executed, acc)
         else let ev = nearest cs dir
           in r_bind (execute_crossing e ev tick) (\<lambda>e'.
                process_loop on_executed previous current dir tick e' (cr_price ev) (executed @ [ev])
                  (key_of ev # processed) (on_executed e' ev acc)))"
  by pat_completeness auto
termination
proof (relation "measure (\<lambda>(cb, p, c, dir, t, e, cur, ex, processed, acc).
    card (set (segment_keys dir e) - set processed))", goal_cases)
  case 1
  show ?case by simp
next
  case (2 cb p c dir t e cursor ex processed acc cs ev e')
  then have key: "key_of ev \<in> set (segment_keys dir e) - set processed"
    using candidate_key by metis
  have same: "segment_keys dir e' = segment_keys dir e"
    using execute_geometries [OF 2(4)] by (simp add: segment_keys_def)
  have "set (segment_keys dir e') - set (key_of ev # processed) \<subset> set (segment_keys dir e) - set processed"
    using key unfolding same by auto
  then show ?case by (simp only: in_measure prod.case) (rule psubset_card_mono, simp_all)
qed

declare process_loop.simps [simp del]

definition process_transition ::
    "(hedge_engine \<Rightarrow> crossing_event \<Rightarrow> 'a \<Rightarrow> 'a) \<Rightarrow> hedge_engine \<Rightarrow> dec \<Rightarrow> dec \<Rightarrow> int \<Rightarrow> 'a
     \<Rightarrow> (hedge_engine \<times> crossing_event list \<times> 'a) res" where
  "process_transition on_executed e previous current tick acc =
     (if previous = current then Inr (e, [], acc)
      else process_loop on_executed previous current (if current < previous then DOWN else UP) tick e
             previous [] [] acc)"

section \<open>Ticks and runs\<close>

definition arm_level :: "dec \<Rightarrow> hedge_level \<Rightarrow> hedge_level" where
  "arm_level price l =
     (if state l = READY \<and> entry_price l \<le> price then l\<lparr>entry_armed := True\<rparr> else l)"

definition arm_ready_levels :: "hedge_engine \<Rightarrow> dec \<Rightarrow> hedge_engine" where
  "arm_ready_levels e price = e\<lparr>levels := map (arm_level price) (levels e)\<rparr>"

definition step ::
    "(hedge_engine \<Rightarrow> crossing_event \<Rightarrow> 'a \<Rightarrow> 'a) \<Rightarrow> hedge_engine \<Rightarrow> dec \<Rightarrow> int \<Rightarrow> 'a
     \<Rightarrow> (hedge_engine \<times> ledger_event list \<times> 'a) res" where
  "step on_crossing e current tick acc = (case previous_price e of
     None \<Rightarrow> Inr (arm_ready_levels (e\<lparr>previous_price := Some current\<rparr>) current, [], acc)
   | Some previous \<Rightarrow> (let event_start = length (events (ledger e))
       in r_bind (process_transition on_crossing e previous current tick acc) (\<lambda>(e1, _, acc1).
          let e2 = arm_ready_levels (e1\<lparr>previous_price := Some current\<rparr>) current
          in Inr (e2, drop event_start (events (ledger e2)), acc1))))"

definition quiet_step :: "hedge_engine \<Rightarrow> nat \<times> dec \<Rightarrow> hedge_engine res" where
  "quiet_step e tick = r_bind (step (\<lambda>_ _ u. u) e (snd tick) (int (fst tick)) ()) (\<lambda>(e1, _, _). Inr e1)"

definition engine_run :: "hedge_engine \<Rightarrow> dec list \<Rightarrow> hedge_engine res" where
  "engine_run e prices = r_foldl quiet_step e (enumerate 0 prices)"

text \<open>\<open>run\<close> returns the ledger's events after the last price.\<close>

definition run :: "hedge_engine \<Rightarrow> dec list \<Rightarrow> ledger_event list res" where
  "run e prices = r_bind (engine_run e prices) (\<lambda>e1. Inr (events (ledger e1)))"

text \<open>
  \<open>run_with_accounting\<close>: a snapshot at every executed trigger, and one at the end of the tick
  unless the last snapshot already is of this tick and price.
\<close>

definition record_crossing ::
    "int \<Rightarrow> hedge_engine \<Rightarrow> crossing_event \<Rightarrow> accounting_snapshot list \<Rightarrow> accounting_snapshot list" where
  "record_crossing tick e ev snaps = snaps @
     [snapshot (ledger e) (spread e) (levels e) (cr_price ev) tick (Some (length (events (ledger e))))]"

definition accounting_step ::
    "hedge_engine \<times> accounting_snapshot list \<Rightarrow> nat \<times> dec \<Rightarrow> (hedge_engine \<times> accounting_snapshot list) res" where
  "accounting_step st tp = (case st of (e, snaps) \<Rightarrow> let tick = int (fst tp); price = snd tp
     in r_bind (step (record_crossing tick) e price tick snaps) (\<lambda>(e1, _, snaps1).
        Inr (e1, if snaps1 = [] \<or> as_tick_index (last snaps1) \<noteq> tick \<or> as_price (last snaps1) \<noteq> price
                 then snaps1 @ [snapshot (ledger e1) (spread e1) (levels e1) price tick None]
                 else snaps1)))"

definition run_with_accounting :: "hedge_engine \<Rightarrow> dec list \<Rightarrow> strategy_result res" where
  "run_with_accounting e prices =
     raise_if (previous_price e \<noteq> None \<or> events (ledger e) \<noteq> [])
       (RuntimeError ''accounting runs require a fresh hedge engine'')
    (raise_when (prices = []) ''price path cannot be empty''
    (r_bind (r_foldl accounting_step (e, []) (enumerate 0 prices)) (\<lambda>(e1, snaps).
       build_result (ledger e1) (spread e1) (levels e1) prices snaps)))"

end
