(* ===== verification/Engine_Invariant.thy ===== *)
theory Engine_Invariant
  imports Hedge_Engine
begin

text \<open>
  What the hedge engine keeps on every price path, when the levels form a \<open>ladder\<close>: each take
  profit is the next entry, and a level's stop is not above the entry of the level over it. Then
  at most one hedge is open at a time, so the stop budget, which \<open>_open\<close> checks against the
  realised stop losses only, bounds the losses; no assertion of the engine can fail; and a take
  profit settles the debt it was opened for. Without the ladder two hedges can be open together
  and overrun the budget: the last section computes such a run.
\<close>

section \<open>Effects of the operations\<close>

definition frame :: "hedge_engine \<Rightarrow> strategy_config \<times> credit_spread \<times> dec option" where
  "frame e = (config e, spread e, previous_price e)"

lemma open_hedge_cases:
  assumes "open_hedge e k tick = Inr e'"
  obtains (entry) q where "ddiv (dadd (option_budget (levels e ! k))
        (dsum (map snd (recovery_allocations_for e (levels e ! k))))) (tp_distance (levels e ! k)) = Inr q"
      "levels e' = (levels e)[k := open_level (levels e ! k) q False
        (recovery_allocations_for e (levels e ! k))]"
      "dadd (used_stop_budget e) (dmul q (stop_distance (levels e ! k))) \<le> initial_stop_budget e"
      "used_stop_budget e' = used_stop_budget e" "frame e' = frame e"
  | (floor) q where "ddiv (dadd (option_budget (levels e ! k))
        (dsum (map snd (recovery_allocations_for e (levels e ! k))))) (tp_distance (levels e ! k)) = Inr q"
      "levels e' = (levels e)[k := open_level (levels e ! k) q True
        (recovery_allocations_for e (levels e ! k))]"
      "used_stop_budget e' = used_stop_budget e" "frame e' = frame e"
  | (locked) "levels e' = (levels e)[k := (levels e ! k)\<lparr>state := LOCKED, entry_armed := False\<rparr>]"
      "used_stop_budget e' = used_stop_budget e" "frame e' = frame e"
  using assms
  by (cases "lock_policy (config e)")
     (auto simp: open_hedge_def open_floor_hedge_def Let_def set_level_def used_stop_budget_def
       initial_stop_budget_def frame_def not_less split: if_splits)

text \<open>Settling debts leaves the trading part of every level alone.\<close>

definition trading :: "hedge_level \<Rightarrow> level_state \<times> dec \<times> bool \<times> bool \<times> allocations" where
  "trading l = (state l, active_quantity l, active_is_floor l, entry_armed l, active_recovery_allocations l)"

lemma settle_source_trading: "settle_source m ls a = Inr ls' \<Longrightarrow> map trading ls' = map trading ls"
  by (cases m) (auto simp: settle_source_def Let_def trading_def intro!: list_update_same_map)

lemma settle_sources_trading:
  "r_foldl (settle_source m) ls as = Inr ls' \<Longrightarrow> map trading ls' = map trading ls"
  by (rule r_foldl_invariant [where P = "\<lambda>t. map trading t = map trading ls"])
     (auto dest: settle_source_trading)

definition paid_level :: "hedge_level \<Rightarrow> dec \<Rightarrow> hedge_level" where
  "paid_level l profit = l\<lparr>realized_tp_profit := dadd (realized_tp_profit l) profit,
     active_quantity := 0, active_is_floor := False, entry_armed := False,
     active_recovery_allocations := [], state := PAID\<rparr>"

lemma take_profit_cases:
  assumes "take_profit e k tick = Inr e'"
  obtains ls profit where
    "r_foldl (settle_source (recovery_mode (config e))) (levels e) (active_recovery_allocations (levels e ! k)) = Inr ls"
    "levels e' = ls[k := paid_level (ls ! k) profit]"
    "used_stop_budget e' = used_stop_budget e" "frame e' = frame e"
  using assms
  by (fastforce simp: take_profit_def Let_def paid_level_def used_stop_budget_def frame_def)

lemma stop_hedge_cases:
  assumes "stop_hedge e k tick = Inr e'"
  obtains loss where "\<not> active_is_floor (levels e ! k)"
    "loss = dmul (active_quantity (levels e ! k)) (stop_distance (levels e ! k))"
    "levels e' = (levels e)[k := stop_level (recovery_mode (config e)) (recovery_tp_count (config e)) (levels e ! k) loss]"
    "used_stop_budget e' = dadd (used_stop_budget e) loss" "frame e' = frame e"
  using assms by (auto simp: stop_hedge_def Let_def set_level_def used_stop_budget_def frame_def)

definition released_level :: "hedge_level \<Rightarrow> hedge_level" where
  "released_level l = l\<lparr>active_quantity := 0, active_is_floor := False,
     active_recovery_allocations := [], state := READY, entry_armed := True\<rparr>"

lemma breakeven_hedge_cases:
  assumes "breakeven_hedge e k tick = Inr e'"
  obtains "active_is_floor (levels e ! k)" "levels e' = (levels e)[k := released_level (levels e ! k)]"
    "used_stop_budget e' = used_stop_budget e" "frame e' = frame e"
  using assms
  by (auto simp: breakeven_hedge_def Let_def set_level_def used_stop_budget_def frame_def released_level_def)

section \<open>The ladder\<close>

definition ladder :: "hedge_level list \<Rightarrow> bool" where
  "ladder ls \<longleftrightarrow> (\<forall>i < length ls. let l = ls ! i in
     level_id l = i + 1 \<and> tp_price l < entry_price l \<and> entry_price l < stop_price l
     \<and> 0 \<le> option_budget l \<and> representable (entry_price l) \<and> representable (tp_price l)
     \<and> (i + 1 < length ls \<longrightarrow> tp_price l = entry_price (ls ! (i + 1))
          \<and> stop_price (ls ! (i + 1)) \<le> entry_price l))"

lemma geometry_eqD:
  assumes "map geometry ls = map geometry ls'" "i < length ls"
  shows "level_id (ls ! i) = level_id (ls' ! i)" "entry_price (ls ! i) = entry_price (ls' ! i)"
    "tp_price (ls ! i) = tp_price (ls' ! i)" "stop_price (ls ! i) = stop_price (ls' ! i)"
    "option_budget (ls ! i) = option_budget (ls' ! i)" "length ls = length ls'"
proof -
  show len: "length ls = length ls'" using assms(1) by (rule map_eq_imp_length_eq)
  have "geometry (ls ! i) = geometry (ls' ! i)" using assms len by (metis nth_map)
  then show "level_id (ls ! i) = level_id (ls' ! i)" "entry_price (ls ! i) = entry_price (ls' ! i)"
    "tp_price (ls ! i) = tp_price (ls' ! i)" "stop_price (ls ! i) = stop_price (ls' ! i)"
    "option_budget (ls ! i) = option_budget (ls' ! i)"
    by (simp_all add: geometry_def)
qed

lemma ladder_cong: "map geometry ls = map geometry ls' \<Longrightarrow> ladder ls = ladder ls'"
proof -
  have "map geometry xs = map geometry ys \<Longrightarrow> ladder xs \<Longrightarrow> ladder ys" for xs ys
  proof -
    assume eq: "map geometry xs = map geometry ys" and xs: "ladder xs"
    note g = geometry_eqD [OF eq]
    have len: "length xs = length ys" using eq by (rule map_eq_imp_length_eq)
    show "ladder ys"
      unfolding ladder_def Let_def
    proof (intro allI impI)
      fix i
      assume "i < length ys"
      then have i: "i < length xs" by (simp add: len)
      have n: "i + 1 < length ys \<Longrightarrow> entry_price (xs ! (i + 1)) = entry_price (ys ! (i + 1))
          \<and> stop_price (xs ! (i + 1)) = stop_price (ys ! (i + 1))"
        using g(2,4) [of "i + 1"] by (simp only: len)
      show "level_id (ys ! i) = i + 1 \<and> tp_price (ys ! i) < entry_price (ys ! i)
          \<and> entry_price (ys ! i) < stop_price (ys ! i) \<and> 0 \<le> option_budget (ys ! i)
          \<and> representable (entry_price (ys ! i))
          \<and> representable (tp_price (ys ! i))
          \<and> (i + 1 < length ys \<longrightarrow> tp_price (ys ! i) = entry_price (ys ! (i + 1))
            \<and> stop_price (ys ! (i + 1)) \<le> entry_price (ys ! i))"
        using xs [unfolded ladder_def Let_def, rule_format, OF i] n
        unfolding g [OF i] len by (cases "i + 1 < length ys") auto
    qed
  qed
  then show "map geometry ls = map geometry ls' \<Longrightarrow> ladder ls = ladder ls'" by metis
qed

lemma ladder_nth:
  assumes "ladder ls" "i < length ls"
  shows "level_id (ls ! i) = i + 1" "tp_price (ls ! i) < entry_price (ls ! i)"
    "entry_price (ls ! i) < stop_price (ls ! i)"
    "0 \<le> option_budget (ls ! i)"
    "representable (entry_price (ls ! i))" "representable (tp_price (ls ! i))"
  using assms unfolding ladder_def Let_def by blast+

lemma ladder_next:
  assumes "ladder ls" "i + 1 < length ls"
  shows "entry_price (ls ! (i + 1)) = tp_price (ls ! i)" "stop_price (ls ! (i + 1)) \<le> entry_price (ls ! i)"
  using assms unfolding ladder_def Let_def by (metis add_lessD1)+

lemma ladder_entry_mono:
  assumes "ladder ls" "i \<le> j" "j < length ls"
  shows "entry_price (ls ! j) \<le> entry_price (ls ! i)"
  using assms(2,3)
proof (induction j rule: dec_induct)
  case (step m)
  have "entry_price (ls ! (m + 1)) = tp_price (ls ! m)" "tp_price (ls ! m) < entry_price (ls ! m)"
    using ladder_next [OF assms(1), of m] ladder_nth [OF assms(1), of m] step.prems by simp_all
  with step show ?case by simp
qed simp

text \<open>An entry strictly above the take profit of level \<open>j\<close> belongs to \<open>j\<close> or to a level over it,
  and an entry over \<open>j\<close> is at least \<open>j\<close>'s stop.\<close>

lemma ladder_entry_above:
  assumes l: "ladder ls" "k < length ls" "j < length ls" and "k \<noteq> j"
    and "tp_price (ls ! j) < entry_price (ls ! k)"
  shows "stop_price (ls ! j) \<le> entry_price (ls ! k)"
proof -
  have "k < j"
  proof (rule ccontr)
    assume "\<not> k < j"
    with assms(4) have j: "j + 1 \<le> k" by simp
    then have "entry_price (ls ! k) \<le> entry_price (ls ! (j + 1))"
      using ladder_entry_mono [OF l(1) j l(2)] by simp
    moreover have "entry_price (ls ! (j + 1)) = tp_price (ls ! j)"
      using ladder_next [OF l(1), of j] j l(2) by simp
    ultimately show False using assms(5) by simp
  qed
  then obtain m where m: "j = m + 1" "k \<le> m" by (metis Suc_eq_plus1 less_Suc_eq_le less_imp_Suc_add add_Suc_right less_iff_Suc_add le_add1)
  have "stop_price (ls ! j) \<le> entry_price (ls ! m)" using ladder_next [OF l(1), of m] l(3) m by simp
  also have "\<dots> \<le> entry_price (ls ! k)" using ladder_entry_mono [OF l(1) m(2)] l(3) m by simp
  finally show ?thesis .
qed

lemma ladder_index:
  assumes "ladder ls" "k < length ls"
  shows "level_index ls (level_id (ls ! k)) = Inr k"
  using ladder_nth(1) [OF assms] assms(2) by (simp add: level_index_def)


section \<open>The invariant of a segment\<close>

definition none_active :: "hedge_level list \<Rightarrow> bool" where
  "none_active ls \<longleftrightarrow> (\<forall>l \<in> set ls. state l \<noteq> ACTIVE)"

definition at_most_one_active :: "hedge_level list \<Rightarrow> bool" where
  "at_most_one_active ls \<longleftrightarrow> (\<forall>i < length ls. \<forall>j < length ls.
     state (ls ! i) = ACTIVE \<longrightarrow> state (ls ! j) = ACTIVE \<longrightarrow> i = j)"

definition level_budget :: "dec \<Rightarrow> dec \<Rightarrow> hedge_level \<Rightarrow> bool" where
  "level_budget premium used l \<longleftrightarrow> (state l = ACTIVE \<longrightarrow> \<not> active_is_floor l \<longrightarrow>
     dadd used (dmul (active_quantity l) (stop_distance l)) \<le> premium)"

definition alloc_ok :: "hedge_level list \<Rightarrow> allocations \<Rightarrow> bool" where
  "alloc_ok ls as \<longleftrightarrow> as = [] \<or>
     (\<exists>k a. as = [(k + 1, a)] \<and> k < length ls \<and> 0 \<le> a \<and> a \<le> recovery_debt (ls ! k))"

definition quiet_level :: "hedge_level \<Rightarrow> bool" where
  "quiet_level l \<longleftrightarrow> 0 \<le> recovery_debt l \<and> 0 \<le> active_quantity l \<and> (state l \<noteq> READY \<longrightarrow> \<not> entry_armed l)
     \<and> (state l \<noteq> ACTIVE \<longrightarrow> active_quantity l = 0 \<and> \<not> active_is_floor l \<and> active_recovery_allocations l = [])"

definition core_inv :: "hedge_engine \<Rightarrow> bool" where
  "core_inv e \<longleftrightarrow> ladder (levels e) \<and> at_most_one_active (levels e)
     \<and> used_stop_budget e \<le> initial_stop_budget e
     \<and> (\<forall>l \<in> set (levels e). level_budget (initial_stop_budget e) (used_stop_budget e) l
          \<and> alloc_ok (levels e) (active_recovery_allocations l) \<and> quiet_level l)"

lemma frame_budget: "frame e' = frame e \<Longrightarrow> initial_stop_budget e' = initial_stop_budget e"
  by (simp add: frame_def initial_stop_budget_def)

lemma none_active_at_most_one: "none_active ls \<Longrightarrow> at_most_one_active ls"
  by (simp add: none_active_def at_most_one_active_def)

lemma none_active_update:
  "none_active ls \<Longrightarrow> state l \<noteq> ACTIVE \<Longrightarrow> none_active (ls[k := l])"
  using set_update_subset_insert [of ls k l] by (auto simp: none_active_def)

lemma none_active_update_only:
  assumes "at_most_one_active ls" "k < length ls" "state (ls ! k) = ACTIVE" "state l \<noteq> ACTIVE"
    "map state ls' = map state ls"
  shows "none_active (ls'[k := l])"
proof -
  have len: "length ls' = length ls" using assms(5) by (rule map_eq_imp_length_eq)
  have st: "i < length ls \<Longrightarrow> state (ls' ! i) = state (ls ! i)" for i
    using assms(5) len by (metis nth_map)
  show ?thesis unfolding none_active_def
  proof
    fix x assume "x \<in> set (ls'[k := l])"
    then obtain i where "i < length ls" "x = ls'[k := l] ! i" by (auto simp: in_set_conv_nth len)
    then show "state x \<noteq> ACTIVE"
      using assms(1-4) st [of i] len unfolding at_most_one_active_def
      by (cases "i = k") auto
  qed
qed

lemma alloc_ok_mono:
  assumes "alloc_ok ls as" "length ls' = length ls"
    and "\<And>i. i < length ls \<Longrightarrow> recovery_debt (ls ! i) \<le> recovery_debt (ls' ! i)"
  shows "alloc_ok ls' as"
  using assms unfolding alloc_ok_def by (metis order_trans)

lemma distributed_allocation_ok:
  assumes "\<And>l. l \<in> set ls \<Longrightarrow> 0 \<le> recovery_debt l"
  shows "distributed_allocation t ls = [] \<or> (\<exists>s \<in> set ls. \<exists>a. distributed_allocation t ls = [(level_id s, a)]
     \<and> 0 \<le> a \<and> a \<le> recovery_debt s)"
  using assms
proof (induction ls)
  case (Cons s ls)
  have "0 \<le> recovery_debt s \<and> 0 \<le> dquot (recovery_debt s) (of_int (recovery_tps_remaining s))"
    if "0 < recovery_tps_remaining s" using Cons.prems [of s] that by (simp add: dquot_nonneg)
  then have "0 < recovery_tps_remaining s \<Longrightarrow>
      0 \<le> min (recovery_debt s) (dquot (recovery_debt s) (of_int (recovery_tps_remaining s)))"
    by simp
  with Cons show ?case by auto
qed simp

lemma recovery_allocations_ok:
  assumes "core_inv e" "k < length (levels e)"
  shows "alloc_ok (levels e) (recovery_allocations_for e (levels e ! k))"
proof -
  have l: "ladder (levels e)" and q: "\<And>l. l \<in> set (levels e) \<Longrightarrow> 0 \<le> recovery_debt l"
    using assms(1) by (auto simp: core_inv_def quiet_level_def)
  note id = ladder_nth(1) [OF l]
  show ?thesis
  proof (cases "recovery_mode (config e)")
    case FULL_NEXT_TP
    then show ?thesis using assms(2) id [of k] by (auto simp: recovery_allocations_for_def alloc_ok_def)
  next
    case DISTRIBUTED
    have "distributed_allocation (level_id (levels e ! k)) (levels e) = [] \<or>
       (\<exists>i < length (levels e). \<exists>a. distributed_allocation (level_id (levels e ! k)) (levels e) = [(i + 1, a)]
          \<and> 0 \<le> a \<and> a \<le> recovery_debt (levels e ! i))"
      using distributed_allocation_ok [OF q, of "levels e" "level_id (levels e ! k)"] id
      by (metis in_set_conv_nth)
    then show ?thesis using DISTRIBUTED by (auto simp: recovery_allocations_for_def alloc_ok_def)
  qed
qed

text \<open>Opening the only hedge keeps the invariant and cannot raise.\<close>

lemma core_inv_update:
  assumes inv: "core_inv e" and k: "k < length (levels e)" and lv: "levels e' = (levels e)[k := l]"
    and fr: "frame e' = frame e" and used: "used_stop_budget e' = used_stop_budget e"
    and geo: "geometry l = geometry (levels e ! k)"
    and one: "at_most_one_active (levels e')"
    and debt: "recovery_debt (levels e ! k) \<le> recovery_debt l"
    and new: "level_budget (initial_stop_budget e) (used_stop_budget e) l" "quiet_level l"
      "alloc_ok (levels e) (active_recovery_allocations l)"
  shows "core_inv e'"
proof -
  have "map geometry (levels e') = map geometry (levels e)"
    using lv geo by (simp add: list_update_same_map)
  then have "ladder (levels e')" using inv ladder_cong unfolding core_inv_def by metis
  moreover have "alloc_ok (levels e) as \<Longrightarrow> alloc_ok (levels e') as" for as
    using debt k lv by (elim alloc_ok_mono) (auto simp add: nth_list_update)
  ultimately show ?thesis
    using inv new one used frame_budget [OF fr] set_update_subset_insert [of "levels e" k l]
    unfolding core_inv_def lv by auto
qed

lemma level_in_set: "k < length ls \<Longrightarrow> ls ! k \<in> set ls"
  by simp

lemma open_hedge_total:
  assumes "core_inv e" "k < length (levels e)"
  shows "\<exists>e'. open_hedge e k tick = Inr e'"
proof -
  have "tp_price (levels e ! k) < entry_price (levels e ! k)"
    using assms ladder_nth(2) unfolding core_inv_def by blast
  then have "0 < tp_distance (levels e ! k)" by (simp add: tp_distance_def)
  then show ?thesis by (auto simp: open_hedge_def Let_def ddiv_def split: lock_policy.split)
qed

lemma alloc_ok_target: "alloc_ok ls as \<Longrightarrow> 0 \<le> dsum (map snd as)"
  by (auto simp: alloc_ok_def)

lemma open_quantity_nonneg:
  assumes inv: "core_inv e" and k: "k < length (levels e)"
    and q: "ddiv (dadd (option_budget (levels e ! k))
      (dsum (map snd (recovery_allocations_for e (levels e ! k))))) (tp_distance (levels e ! k)) = Inr q"
  shows "0 \<le> q"
proof -
  have l: "ladder (levels e)" using inv by (simp add: core_inv_def)
  have "0 \<le> tp_distance (levels e ! k)" using ladder_nth(2) [OF l k] by (simp add: tp_distance_def)
  moreover have "0 \<le> dadd (option_budget (levels e ! k)) (dsum (map snd (recovery_allocations_for e (levels e ! k))))"
    using ladder_nth(4) [OF l k] alloc_ok_target [OF recovery_allocations_ok [OF inv k]] by (rule dadd_nonneg)
  ultimately show ?thesis using q by (auto simp: ddiv_Inr)
qed

lemma open_hedge_core:
  assumes inv: "core_inv e" and k: "k < length (levels e)" and st: "state (levels e ! k) = READY"
    and none: "none_active (levels e)" and ok: "open_hedge e k tick = Inr e'"
  shows "core_inv e' \<and> frame e' = frame e \<and> (\<forall>j. j \<noteq> k \<longrightarrow> levels e' ! j = levels e ! j)
    \<and> state (levels e' ! k) \<noteq> READY"
proof -
  note al = recovery_allocations_ok [OF inv k] and qn = open_quantity_nonneg [OF inv k]
  have q: "quiet_level (levels e ! k)" using inv k unfolding core_inv_def by simp
  have one: "at_most_one_active ((levels e)[k := l])" for l
    using none unfolding none_active_def at_most_one_active_def
    by (metis length_list_update nth_list_update_neq nth_mem)
  note defs = one level_budget_def quiet_level_def open_level_def stop_distance_def geometry_def alloc_ok_def
  from ok show ?thesis
  proof (cases rule: open_hedge_cases)
    case (entry r)
    have "core_inv e'"
      using q al entry(3) qn [OF entry(1)]
      by (intro core_inv_update [OF inv k entry(2,5,4)]) (simp_all add: entry(2) defs)
    with entry k show ?thesis by (simp add: open_level_def)
  next
    case (floor r)
    have "core_inv e'"
      using q al qn [OF floor(1)]
      by (intro core_inv_update [OF inv k floor(2,4,3)]) (simp_all add: floor(2) defs)
    with floor k show ?thesis by (simp add: open_level_def)
  next
    case locked
    have "core_inv e'"
      using q st
      by (intro core_inv_update [OF inv k locked(1,3,2)]) (simp_all add: locked(1) defs)
    with locked k show ?thesis by simp
  qed
qed

text \<open>Closing the open hedge keeps the invariant, leaves no hedge open and cannot raise.\<close>

definition settled :: "hedge_level list \<Rightarrow> hedge_level list \<Rightarrow> bool" where
  "settled ls ls' \<longleftrightarrow> map geometry ls' = map geometry ls \<and> map trading ls' = map trading ls
     \<and> (\<forall>i < length ls. 0 \<le> recovery_debt (ls' ! i))"

lemma settle_total:
  assumes "alloc_ok ls as" and "\<forall>i < length ls. 0 \<le> recovery_debt (ls ! i)"
  shows "\<exists>ls'. r_foldl (settle_source m) ls as = Inr ls' \<and> settled ls ls'"
proof (cases "as = []")
  case True
  then show ?thesis using assms(2) by (simp add: settled_def)
next
  case False
  then obtain k a where as: "as = [(k + 1, a)]" "k < length ls" "0 \<le> a" "a \<le> recovery_debt (ls ! k)"
    using assms(1) unfolding alloc_ok_def by blast
  then have d: "0 \<le> dsub (recovery_debt (ls ! k)) a" by simp
  have "\<exists>ls'. settle_source m ls (k + 1, a) = Inr ls' \<and> (\<forall>i < length ls. 0 \<le> recovery_debt (ls' ! i))"
    using as(2) assms(2) d
    by (cases m) (auto simp: settle_source_def level_index_def Let_def not_less nth_list_update raise_if_def)
  then obtain ls' where ls': "settle_source m ls (k + 1, a) = Inr ls'"
    "\<And>i. i < length ls \<Longrightarrow> 0 \<le> recovery_debt (ls' ! i)" by blast
  then show ?thesis using settle_source_geometry [OF ls'(1)] settle_source_trading [OF ls'(1)]
    by (auto simp: as(1) settled_def)
qed

lemma core_inv_closed:
  assumes inv: "core_inv e" and none: "none_active (levels e')"
    and geo: "map geometry (levels e') = map geometry (levels e)"
    and fr: "frame e' = frame e" and used: "used_stop_budget e' \<le> initial_stop_budget e"
    and lv: "\<And>l. l \<in> set (levels e') \<Longrightarrow> quiet_level l"
  shows "core_inv e'"
proof -
  have "ladder (levels e')" using inv ladder_cong [OF geo] by (simp add: core_inv_def)
  moreover have "active_recovery_allocations l = []" if "l \<in> set (levels e')" for l
    using none lv [OF that] that unfolding none_active_def quiet_level_def by blast
  ultimately show ?thesis
    using none_active_at_most_one [OF none] used lv none frame_budget [OF fr]
    by (auto simp: core_inv_def alloc_ok_def level_budget_def none_active_def)
qed

lemma quiet_after_update:
  assumes "\<And>l. l \<in> set ls \<Longrightarrow> quiet_level l" "quiet_level l'" "l \<in> set (ls[k := l'])"
  shows "quiet_level l"
  using assms set_update_subset_insert [of ls k l'] by blast

lemma take_profit_core:
  assumes inv: "core_inv e" and k: "k < length (levels e)" and st: "state (levels e ! k) = ACTIVE"
  shows "\<exists>e'. take_profit e k tick = Inr e' \<and> core_inv e' \<and> frame e' = frame e
    \<and> none_active (levels e') \<and> state (levels e' ! k) = PAID
    \<and> (\<forall>j < length (levels e). j \<noteq> k \<longrightarrow> state (levels e' ! j) = state (levels e ! j))"
proof -
  have q: "\<And>l. l \<in> set (levels e) \<Longrightarrow> quiet_level l" and one: "at_most_one_active (levels e)"
    and al: "alloc_ok (levels e) (active_recovery_allocations (levels e ! k))"
    and bud: "used_stop_budget e \<le> initial_stop_budget e"
    using inv k by (auto simp: core_inv_def)
  obtain ls where ls: "r_foldl (settle_source (recovery_mode (config e))) (levels e)
      (active_recovery_allocations (levels e ! k)) = Inr ls" "settled (levels e) ls"
    using settle_total [OF al] q [OF nth_mem] unfolding quiet_level_def by blast
  then obtain e' where ok: "take_profit e k tick = Inr e'" by (simp add: take_profit_def Let_def)
  have len: "length ls = length (levels e)" using ls(2) by (auto simp: settled_def dest: map_eq_imp_length_eq)
  have tr: "i < length ls \<Longrightarrow> trading (ls ! i) = trading (levels e ! i)" for i
    using ls(2) len unfolding settled_def by (metis nth_map)
  then have sts: "map state ls = map state (levels e)"
    using len by (intro nth_equalityI) (simp_all add: trading_def)
  from ok obtain profit where e': "levels e' = ls[k := paid_level (ls ! k) profit]"
      "used_stop_budget e' = used_stop_budget e" "frame e' = frame e"
    using ls(1) by (elim take_profit_cases) simp
  have none: "none_active (levels e')"
    unfolding e'(1) by (rule none_active_update_only [OF one k st _ sts]) (simp add: paid_level_def)
  have qls: "quiet_level l" if "l \<in> set ls" for l
    using that q [OF nth_mem] tr ls(2) len unfolding settled_def quiet_level_def trading_def in_set_conv_nth
    by auto
  have ql: "quiet_level (paid_level (ls ! k) profit)"
    using ls(2) k by (simp add: settled_def quiet_level_def paid_level_def)
  have lv: "\<And>l. l \<in> set (levels e') \<Longrightarrow> quiet_level l"
    unfolding e'(1) by (rule quiet_after_update [OF qls ql])
  have "map geometry (levels e') = map geometry (levels e)"
    using take_profit_geometries [OF ok] by (simp add: geometries_def)
  then have "core_inv e'" by (rule core_inv_closed [OF inv none]) (use e' bud lv in simp_all)
  moreover have "\<forall>j < length (levels e). j \<noteq> k \<longrightarrow> state (levels e' ! j) = state (levels e ! j)"
    using tr len by (simp add: e'(1) trading_def)
  ultimately show ?thesis using ok none e' k len by (auto simp: paid_level_def)
qed

lemma stop_hedge_core:
  assumes inv: "core_inv e" and k: "k < length (levels e)" and st: "state (levels e ! k) = ACTIVE"
    and fl: "\<not> active_is_floor (levels e ! k)"
  shows "\<exists>e'. stop_hedge e k tick = Inr e' \<and> core_inv e' \<and> frame e' = frame e \<and> none_active (levels e')"
proof -
  have q: "\<And>l. l \<in> set (levels e) \<Longrightarrow> quiet_level l" and one: "at_most_one_active (levels e)"
    using inv by (auto simp: core_inv_def)
  from fl obtain e' where ok: "stop_hedge e k tick = Inr e'" by (simp add: stop_hedge_def Let_def)
  then obtain loss where loss: "loss = dmul (active_quantity (levels e ! k)) (stop_distance (levels e ! k))"
    and e': "levels e' = (levels e)[k := stop_level (recovery_mode (config e)) (recovery_tp_count (config e)) (levels e ! k) loss]"
      "used_stop_budget e' = dadd (used_stop_budget e) loss" "frame e' = frame e"
    by (rule stop_hedge_cases)
  have "level_budget (initial_stop_budget e) (used_stop_budget e) (levels e ! k)" "quiet_level (levels e ! k)"
    using inv k unfolding core_inv_def by simp_all
  then have bud: "used_stop_budget e' \<le> initial_stop_budget e"
    using st fl by (simp add: level_budget_def e'(2) loss)
  have l: "ladder (levels e)" using inv by (simp add: core_inv_def)
  have "0 \<le> stop_distance (levels e ! k)" using ladder_nth(3) [OF l k] by (simp add: stop_distance_def)
  then have pos: "0 \<le> loss" using q [OF nth_mem [OF k]] by (simp add: loss quiet_level_def dmul_nonneg)
  have none: "none_active (levels e')"
    unfolding e'(1) using one k st by (rule none_active_update_only) (simp_all add: stop_level_def)
  have ql: "quiet_level (stop_level (recovery_mode (config e)) (recovery_tp_count (config e)) (levels e ! k) loss)"
    using q [OF nth_mem [OF k]] pos fl by (simp add: quiet_level_def stop_level_def dadd_nonneg)
  have lv: "\<And>l. l \<in> set (levels e') \<Longrightarrow> quiet_level l"
    unfolding e'(1) by (rule quiet_after_update [OF q ql])
  have "map geometry (levels e') = map geometry (levels e)"
    using stop_geometries [OF ok] by (simp add: geometries_def)
  then have "core_inv e'" by (rule core_inv_closed [OF inv none]) (use e' bud lv in simp_all)
  then show ?thesis using ok none e' by blast
qed

lemma breakeven_hedge_core:
  assumes inv: "core_inv e" and k: "k < length (levels e)" and st: "state (levels e ! k) = ACTIVE"
    and fl: "active_is_floor (levels e ! k)"
  shows "\<exists>e'. breakeven_hedge e k tick = Inr e' \<and> core_inv e' \<and> frame e' = frame e \<and> none_active (levels e')"
proof -
  have q: "\<And>l. l \<in> set (levels e) \<Longrightarrow> quiet_level l" and one: "at_most_one_active (levels e)"
    and bud: "used_stop_budget e \<le> initial_stop_budget e"
    using inv by (auto simp: core_inv_def)
  from fl obtain e' where ok: "breakeven_hedge e k tick = Inr e'" by (simp add: breakeven_hedge_def Let_def)
  then have e': "levels e' = (levels e)[k := released_level (levels e ! k)]"
      "used_stop_budget e' = used_stop_budget e" "frame e' = frame e"
    by (auto elim: breakeven_hedge_cases)
  have none: "none_active (levels e')"
    unfolding e'(1) using one k st by (rule none_active_update_only) (simp_all add: released_level_def)
  have ql: "quiet_level (released_level (levels e ! k))"
    using q [OF nth_mem [OF k]] by (simp add: quiet_level_def released_level_def)
  have lv: "\<And>l. l \<in> set (levels e') \<Longrightarrow> quiet_level l"
    unfolding e'(1) by (rule quiet_after_update [OF q ql])
  have "map geometry (levels e') = map geometry (levels e)"
    using breakeven_geometries [OF ok] by (simp add: geometries_def)
  then have "core_inv e'" by (rule core_inv_closed [OF inv none]) (use e' bud lv in simp_all)
  then show ?thesis using ok none e' by blast
qed


section \<open>The crossing loop keeps the invariant\<close>

lemma hd_sort_key_min: "c \<in> set cs \<Longrightarrow> f (hd (sort_key f cs)) \<le> f c"
proof -
  assume c: "c \<in> set cs"
  have s: "sorted (map f (sort_key f cs))" by simp
  from c have "c \<in> set (sort_key f cs)" by simp
  then obtain x xs where xs: "sort_key f cs = x # xs" "c = x \<or> c \<in> set xs"
    by (cases "sort_key f cs") auto
  with s show ?thesis by auto
qed

lemma nearest_down_min: "c \<in> set cs \<Longrightarrow> down_key (nearest cs DOWN) \<le> down_key c"
  by (simp add: nearest_def hd_sort_key_min)

lemma candidate_level:
  assumes "ev \<in> set (candidates e prev cur dir cursor processed)"
  obtains k where "k < length (levels e)" "ev \<in> set (level_crossings prev cur dir (levels e ! k))"
    "inside_remaining_segment (cr_price ev) cursor cur dir" "key_of ev \<notin> set processed"
proof -
  from assms obtain l where "l \<in> set (levels e)" "ev \<in> set (level_crossings prev cur dir l)"
    "inside_remaining_segment (cr_price ev) cursor cur dir" "key_of ev \<notin> set processed"
    by (auto simp: candidates_def eligible_crossings_def)
  with that show thesis by (metis in_set_conv_nth)
qed

lemma down_candidate:
  assumes "ev \<in> set (candidates e prev cur DOWN cursor processed)" and "ladder (levels e)"
  obtains k where "k < length (levels e)" "level_index (levels e) (cr_level_id ev) = Inr k"
    "cr_level_id ev = k + 1" "cur \<le> cr_price ev" "cr_price ev \<le> cursor" "key_of ev \<notin> set processed"
    "cr_event_type ev = C_TP \<and> cr_price ev = tp_price (levels e ! k) \<and> cr_priority ev = 0
        \<and> state (levels e ! k) = ACTIVE \<and> tp_price (levels e ! k) < prev
     \<or> cr_event_type ev = C_ENTRY \<and> cr_price ev = entry_price (levels e ! k) \<and> cr_priority ev = 1
        \<and> state (levels e ! k) = READY"
proof -
  obtain k where k: "k < length (levels e)"
    "ev \<in> set (level_crossings prev cur DOWN (levels e ! k))" "cur \<le> cr_price ev" "cr_price ev \<le> cursor"
    "key_of ev \<notin> set processed"
    using assms(1) by (elim candidate_level) (simp add: inside_remaining_segment_def)
  have "cr_level_id ev = level_id (levels e ! k)"
    using k(2) by (auto simp: level_crossings_def crossing_def split: if_splits)
  then have "level_index (levels e) (cr_level_id ev) = Inr k" "cr_level_id ev = k + 1"
    using ladder_index [OF assms(2) k(1)] ladder_nth(1) [OF assms(2) k(1)] by simp_all
  then show thesis
    using that [OF k(1) _ _ k(3,4,5)] k(2) by (auto simp: level_crossings_def crossing_def split: if_splits)
qed

lemma tp_is_candidate:
  assumes "l \<in> set (levels e)" "state l = ACTIVE" "tp_price l < prev" "cur \<le> tp_price l" "tp_price l \<le> cursor"
    and "(C_TP, level_id l, tp_price l) \<notin> set processed"
  shows "crossing C_TP (level_id l) (tp_price l) 0 \<in> set (candidates e prev cur DOWN cursor processed)"
  using assms by (auto simp: candidates_def eligible_crossings_def level_crossings_def
      inside_remaining_segment_def key_of_def crossing_def)

definition down_level :: "dec \<Rightarrow> dec \<Rightarrow> crossing_key list \<Rightarrow> hedge_level \<Rightarrow> bool" where
  "down_level prev cursor processed l \<longleftrightarrow>
     (state l = ACTIVE \<longrightarrow> tp_price l < prev \<and> tp_price l \<le> cursor \<and> cursor < stop_price l
        \<and> (active_is_floor l \<longrightarrow> cursor \<le> entry_price l))
     \<and> ((C_TP, level_id l, tp_price l) \<in> set processed \<longrightarrow> state l = PAID)"

definition resting :: "dec \<Rightarrow> hedge_level \<Rightarrow> bool" where
  "resting p l \<longleftrightarrow> (state l = ACTIVE \<longrightarrow> tp_price l < p
     \<and> (if active_is_floor l then p \<le> entry_price l else p < stop_price l))"

text \<open>An entry is selected only when no hedge is open: the take profit of an open hedge is a
  nearer candidate, or the entry would have to lie above the hedge's stop.\<close>

lemma entry_alone:
  assumes inv: "core_inv e" and dl: "\<forall>l \<in> set (levels e). down_level prev cursor processed l"
    and k: "k < length (levels e)" and st: "state (levels e ! k) = READY"
    and ev: "cr_price ev = entry_price (levels e ! k)" "cr_priority ev = 1"
      "cur \<le> cr_price ev" "cr_price ev \<le> cursor"
    and near: "\<And>c. c \<in> set (candidates e prev cur DOWN cursor processed) \<Longrightarrow> down_key ev \<le> down_key c"
  shows "none_active (levels e)"
proof (rule ccontr)
  assume "\<not> none_active (levels e)"
  then obtain j where j: "j < length (levels e)" "state (levels e ! j) = ACTIVE"
    by (auto simp: none_active_def in_set_conv_nth)
  let ?l = "levels e ! j"
  have lad: "ladder (levels e)" using inv by (simp add: core_inv_def)
  have d: "tp_price ?l < prev" "tp_price ?l \<le> cursor" "cursor < stop_price ?l"
    "(C_TP, level_id ?l, tp_price ?l) \<notin> set processed"
    using dl j unfolding down_level_def by (auto dest: nth_mem)
  have "tp_price ?l < entry_price (levels e ! k)"
  proof (cases "cur \<le> tp_price ?l")
    case True
    have "down_key ev \<le> down_key (crossing C_TP (level_id ?l) (tp_price ?l) 0)"
      using tp_is_candidate [of ?l e prev cur cursor processed] j d True by (intro near) simp
    moreover have "dneg (tp_price ?l) = - tp_price ?l" "dneg (cr_price ev) = - cr_price ev"
      using ladder_nth(5,6) [OF lad] j k ev(1) by (simp_all add: dneg_def rnd_exact)
    ultimately show ?thesis using ev by (simp add: down_key_def crossing_def)
  next
    case False
    with ev show ?thesis by simp
  qed
  moreover have "k \<noteq> j" using st j by auto
  ultimately have "stop_price ?l \<le> entry_price (levels e ! k)"
    using ladder_entry_above [OF lad k j(1)] by simp
  with d(3) ev show False by simp
qed

lemma down_iteration:
  assumes inv: "core_inv e" and dl: "\<forall>l \<in> set (levels e). down_level prev cursor processed l"
    and cp: "cursor \<le> prev" and ne: "candidates e prev cur DOWN cursor processed \<noteq> []"
    and ev: "ev = nearest (candidates e prev cur DOWN cursor processed) DOWN"
  shows "\<exists>e'. execute_crossing e ev tick = Inr e' \<and> core_inv e' \<and> frame e' = frame e
    \<and> (\<forall>l \<in> set (levels e'). down_level prev (cr_price ev) (key_of ev # processed) l)
    \<and> cr_price ev \<le> prev \<and> cur \<le> cr_price ev"
proof -
  have lad: "ladder (levels e)" using inv by (simp add: core_inv_def)
  have near: "c \<in> set (candidates e prev cur DOWN cursor processed) \<Longrightarrow> down_key ev \<le> down_key c" for c
    unfolding ev by (rule nearest_down_min)
  obtain k where k: "k < length (levels e)" "level_index (levels e) (cr_level_id ev) = Inr k"
    "cr_level_id ev = k + 1" "cur \<le> cr_price ev" "cr_price ev \<le> cursor"
    and cases: "cr_event_type ev = C_TP \<and> cr_price ev = tp_price (levels e ! k) \<and> cr_priority ev = 0
        \<and> state (levels e ! k) = ACTIVE \<and> tp_price (levels e ! k) < prev
     \<or> cr_event_type ev = C_ENTRY \<and> cr_price ev = entry_price (levels e ! k) \<and> cr_priority ev = 1
        \<and> state (levels e ! k) = READY"
    by (rule down_candidate [OF nearest_in [OF ne, of DOWN, folded ev] lad])
  from cases show ?thesis
  proof (elim disjE conjE)
    assume a: "cr_event_type ev = C_TP" "cr_price ev = tp_price (levels e ! k)" "state (levels e ! k) = ACTIVE"
    obtain e' where e': "take_profit e k tick = Inr e'" "core_inv e'" "frame e' = frame e"
      "none_active (levels e')" "state (levels e' ! k) = PAID"
      "\<And>j. j < length (levels e) \<Longrightarrow> j \<noteq> k \<Longrightarrow> state (levels e' ! j) = state (levels e ! j)"
      using take_profit_core [OF inv k(1) a(3), of tick] by blast
    have ex: "execute_crossing e ev tick = Inr e'" using k a e' by (simp add: execute_crossing_def)
    note geo = geometry_eqD [OF execute_geometries [OF ex, unfolded geometries_def]]
    have len: "length (levels e') = length (levels e)"
      using execute_geometries [OF ex, unfolded geometries_def] by (rule map_eq_imp_length_eq)
    have "down_level prev (cr_price ev) (key_of ev # processed) (levels e' ! i)" if i: "i < length (levels e')" for i
    proof -
      have "(C_TP, level_id (levels e ! i), tp_price (levels e ! i)) \<in> set processed \<Longrightarrow> state (levels e ! i) = PAID"
        using dl i len unfolding down_level_def by auto
      moreover have "state (levels e' ! i) \<noteq> ACTIVE" using e'(4) i by (auto simp: none_active_def)
      moreover have "level_id (levels e ! i) = i + 1" using ladder_nth(1) [OF lad] i len by simp
      ultimately show ?thesis
        using e'(5,6) k(3) i len unfolding down_level_def geo(1,3) [OF i] by (cases "i = k") (auto simp: key_of_def)
    qed
    then show ?thesis using ex e' k cp by (auto simp: in_set_conv_nth)
  next
    assume a: "cr_event_type ev = C_ENTRY" "cr_price ev = entry_price (levels e ! k)" "cr_priority ev = 1"
      "state (levels e ! k) = READY"
    have none: "none_active (levels e)"
      by (rule entry_alone [OF inv dl k(1) a(4) a(2,3) k(4,5) near])
    obtain e' where ok: "open_hedge e k tick = Inr e'" using open_hedge_total [OF inv k(1)] by blast
    have e': "core_inv e'" "frame e' = frame e" "\<And>j. j \<noteq> k \<Longrightarrow> levels e' ! j = levels e ! j"
      "state (levels e' ! k) \<noteq> READY"
      using open_hedge_core [OF inv k(1) a(4) none ok] by blast+
    have ex: "execute_crossing e ev tick = Inr e'" using k a ok by (simp add: execute_crossing_def)
    note geo = geometry_eqD [OF execute_geometries [OF ex, unfolded geometries_def]]
    have len: "length (levels e') = length (levels e)"
      using execute_geometries [OF ex, unfolded geometries_def] by (rule map_eq_imp_length_eq)
    have "down_level prev (cr_price ev) (key_of ev # processed) (levels e' ! i)" if i: "i < length (levels e')" for i
    proof (cases "i = k")
      case False
      then show ?thesis using e'(3) [OF False] dl i len none
        unfolding down_level_def none_active_def key_of_def a by auto
    next
      case True
      have "(C_TP, level_id (levels e ! k), tp_price (levels e ! k)) \<notin> set processed"
        using dl k(1) a(4) unfolding down_level_def by (metis level_state.distinct(3) nth_mem)
      then show ?thesis
        using ladder_nth(2,3) [OF lad k(1)] k cp a i True
        unfolding down_level_def key_of_def geo [OF i] by auto
    qed
    then show ?thesis using ex e' k cp by (auto simp: in_set_conv_nth)
  qed
qed

lemma down_loop:
  assumes "core_inv e" "\<forall>l \<in> set (levels e). down_level prev cursor processed l" "cursor \<le> prev" "cur \<le> cursor"
  shows "\<exists>e' ex acc'. process_loop cb prev cur DOWN tick e cursor executed processed acc = Inr (e', ex, acc')
    \<and> core_inv e' \<and> frame e' = frame e \<and> (\<forall>l \<in> set (levels e'). resting cur l)"
  using assms
proof (induction cb prev cur DOWN tick e cursor executed processed acc rule: process_loop.induct)
  case (1 cb prev cur tick e cursor executed processed acc)
  let ?cs = "candidates e prev cur DOWN cursor processed"
  show ?case
  proof (cases "?cs = []")
    case True
    have "resting cur l" if l: "l \<in> set (levels e)" for l
    proof -
      have "down_level prev cursor processed l" using 1(3) l by blast
      moreover have "state l = ACTIVE \<Longrightarrow> tp_price l < prev \<Longrightarrow> tp_price l \<le> cursor
          \<Longrightarrow> (C_TP, level_id l, tp_price l) \<notin> set processed \<Longrightarrow> tp_price l < cur"
        using tp_is_candidate [OF l, of prev cur cursor processed] True by (metis list.set(1) empty_iff not_less)
      ultimately show ?thesis using 1(5) unfolding down_level_def resting_def by auto
    qed
    then show ?thesis using 1(2) True by (simp add: process_loop.simps Let_def)
  next
    case False
    obtain e' where e': "execute_crossing e (nearest ?cs DOWN) tick = Inr e'" "core_inv e'" "frame e' = frame e"
      "\<forall>l \<in> set (levels e'). down_level prev (cr_price (nearest ?cs DOWN)) (key_of (nearest ?cs DOWN) # processed) l"
      "cr_price (nearest ?cs DOWN) \<le> prev" "cur \<le> cr_price (nearest ?cs DOWN)"
      using down_iteration [OF 1(2,3,4) False refl, of tick] by blast
    show ?thesis
      using 1(1) [OF refl False refl e'(1) e'(2,4,5,6)] e'(1,3) False
      by (subst process_loop.simps) (simp add: Let_def)
  qed
qed


text \<open>Upwards only the open hedge can trigger, and it triggers once.\<close>

definition up_level :: "dec \<Rightarrow> dec \<Rightarrow> dec \<Rightarrow> crossing_key list \<Rightarrow> hedge_level \<Rightarrow> bool" where
  "up_level prev cur cursor processed l \<longleftrightarrow> (state l = ACTIVE \<longrightarrow> tp_price l < cur
     \<and> (if active_is_floor l
        then prev \<le> entry_price l \<and> cursor \<le> entry_price l \<and> (C_BREAKEVEN, level_id l, entry_price l) \<notin> set processed
        else prev < stop_price l \<and> cursor \<le> stop_price l \<and> (C_STOP, level_id l, stop_price l) \<notin> set processed))"

lemma up_iteration:
  assumes inv: "core_inv e" and ul: "\<forall>l \<in> set (levels e). up_level prev cur cursor processed l"
    and ne: "candidates e prev cur UP cursor processed \<noteq> []"
    and ev: "ev = nearest (candidates e prev cur UP cursor processed) UP"
  shows "\<exists>e'. execute_crossing e ev tick = Inr e' \<and> core_inv e' \<and> frame e' = frame e \<and> none_active (levels e')"
proof -
  have lad: "ladder (levels e)" using inv by (simp add: core_inv_def)
  obtain k where k: "k < length (levels e)" "ev \<in> set (level_crossings prev cur UP (levels e ! k))"
    by (rule candidate_level [OF nearest_in [OF ne, of UP, folded ev]])
  have up: "up_level prev cur cursor processed (levels e ! k)" using ul k(1) by simp
  have "cr_level_id ev = level_id (levels e ! k)"
    using k(2) by (auto simp: level_crossings_def crossing_def split: if_splits)
  then have idx: "level_index (levels e) (cr_level_id ev) = Inr k" using ladder_index [OF lad k(1)] by simp
  have st: "state (levels e ! k) = ACTIVE"
    using k(2) by (auto simp: level_crossings_def split: if_splits)
  show ?thesis
  proof (cases "active_is_floor (levels e ! k)")
    case True
    have "entry_price (levels e ! k) < stop_price (levels e ! k)" using ladder_nth(3) [OF lad k(1)] .
    then have "cr_event_type ev = C_BREAKEVEN"
      using k(2) up st True by (auto simp: level_crossings_def crossing_def up_level_def split: if_splits)
    then have "execute_crossing e ev tick = breakeven_hedge e k tick" using idx by (simp add: execute_crossing_def)
    then show ?thesis using breakeven_hedge_core [OF inv k(1) st True, of tick] by auto
  next
    case False
    then have "cr_event_type ev = C_STOP"
      using k(2) by (auto simp: level_crossings_def crossing_def split: if_splits)
    then have "execute_crossing e ev tick = stop_hedge e k tick" using idx by (simp add: execute_crossing_def)
    then show ?thesis using stop_hedge_core [OF inv k(1) st False, of tick] by auto
  qed
qed

lemma up_loop:
  assumes "core_inv e" "\<forall>l \<in> set (levels e). up_level prev cur cursor processed l"
  shows "\<exists>e' ex acc'. process_loop cb prev cur UP tick e cursor executed processed acc = Inr (e', ex, acc')
    \<and> core_inv e' \<and> frame e' = frame e \<and> (\<forall>l \<in> set (levels e'). resting cur l)"
  using assms
proof (induction cb prev cur UP tick e cursor executed processed acc rule: process_loop.induct)
  case (1 cb prev cur tick e cursor executed processed acc)
  let ?cs = "candidates e prev cur UP cursor processed"
  show ?case
  proof (cases "?cs = []")
    case True
    have "resting cur l" if l: "l \<in> set (levels e)" for l
    proof (rule ccontr)
      assume nr: "\<not> resting cur l"
      have ul: "up_level prev cur cursor processed l" using 1(3) l by blast
      have "level_crossings prev cur UP l \<noteq> [] \<and> (\<forall>ev \<in> set (level_crossings prev cur UP l).
          inside_remaining_segment (cr_price ev) cursor cur UP \<and> key_of ev \<notin> set processed)"
        using nr ul by (auto simp: resting_def up_level_def level_crossings_def crossing_def key_of_def
            inside_remaining_segment_def not_le not_less split: if_splits)
      then obtain ev where "ev \<in> set ?cs"
        using l by (fastforce simp: candidates_def eligible_crossings_def neq_Nil_conv)
      with True show False by simp
    qed
    then show ?thesis using 1(2) True by (simp add: process_loop.simps Let_def)
  next
    case False
    obtain e' where e': "execute_crossing e (nearest ?cs UP) tick = Inr e'" "core_inv e'" "frame e' = frame e"
      "none_active (levels e')"
      using up_iteration [OF 1(2,3) False refl, of tick] by blast
    have "\<forall>l \<in> set (levels e'). up_level prev cur (cr_price (nearest ?cs UP)) (key_of (nearest ?cs UP) # processed) l"
      using e'(4) by (simp add: up_level_def none_active_def)
    from 1(1) [OF refl False refl e'(1) e'(2) this] e'(1,3) False
    show ?thesis by (subst process_loop.simps) (simp add: Let_def)
  qed
qed

section \<open>Ticks and whole runs\<close>

definition engine_inv :: "hedge_engine \<Rightarrow> bool" where
  "engine_inv e \<longleftrightarrow> core_inv e \<and> (case previous_price e of
     None \<Rightarrow> none_active (levels e)
   | Some p \<Rightarrow> (\<forall>l \<in> set (levels e). resting p l))"

lemma process_transition_inv:
  assumes inv: "core_inv e" and rest: "\<forall>l \<in> set (levels e). resting prev l"
  shows "\<exists>e' ex acc'. process_transition cb e prev cur tick acc = Inr (e', ex, acc')
    \<and> core_inv e' \<and> frame e' = frame e \<and> (\<forall>l \<in> set (levels e'). resting cur l)"
proof -
  have lad: "l \<in> set (levels e) \<Longrightarrow> entry_price l < stop_price l" for l
    using inv ladder_nth(3) by (metis core_inv_def in_set_conv_nth)
  consider "prev = cur" | "cur < prev" | "prev < cur" by linarith
  then show ?thesis
  proof cases
    case 1
    with inv rest show ?thesis by (simp add: process_transition_def)
  next
    case 2
    have "\<forall>l \<in> set (levels e). down_level prev prev [] l"
      using rest lad by (fastforce simp: down_level_def resting_def split: if_splits)
    from down_loop [OF inv this order_refl less_imp_le [OF 2], of cb tick "[]" acc] 2
    show ?thesis by (simp add: process_transition_def)
  next
    case 3
    have "\<forall>l \<in> set (levels e). up_level prev cur prev [] l"
      using rest 3 by (auto simp: up_level_def resting_def split: if_splits)
    from up_loop [OF inv this, of cb tick "[]" acc] 3
    show ?thesis by (simp add: process_transition_def)
  qed
qed

lemma arm_level_simps [simp]:
  "geometry (arm_level p l) = geometry l" "state (arm_level p l) = state l"
  "active_quantity (arm_level p l) = active_quantity l" "active_is_floor (arm_level p l) = active_is_floor l"
  "recovery_debt (arm_level p l) = recovery_debt l" "entry_price (arm_level p l) = entry_price l"
  "active_recovery_allocations (arm_level p l) = active_recovery_allocations l"
  "stop_price (arm_level p l) = stop_price l" "tp_price (arm_level p l) = tp_price l"
  by (simp_all add: arm_level_def geometry_def)

lemma arm_core: "core_inv e \<Longrightarrow> core_inv (arm_ready_levels e p)"
proof -
  assume inv: "core_inv e"
  have geo: "map geometry (map (arm_level p) (levels e)) = map geometry (levels e)" by simp
  have "ladder (map (arm_level p) (levels e))" using inv ladder_cong [OF geo] by (simp add: core_inv_def)
  moreover have "at_most_one_active (map (arm_level p) (levels e))"
    using inv by (simp add: core_inv_def at_most_one_active_def)
  moreover have "quiet_level l \<Longrightarrow> quiet_level (arm_level p l)" for l
    by (simp add: quiet_level_def) (simp add: arm_level_def)
  moreover have "alloc_ok (levels e) as \<Longrightarrow> alloc_ok (map (arm_level p) (levels e)) as" for as
    by (auto simp: alloc_ok_def)
  ultimately show ?thesis
    using inv unfolding core_inv_def
    by (auto simp: arm_ready_levels_def initial_stop_budget_def used_stop_budget_def level_budget_def stop_distance_def)
qed

lemma arm_frame [simp]: "previous_price (arm_ready_levels e p) = previous_price e"
    "config (arm_ready_levels e p) = config e" "spread (arm_ready_levels e p) = spread e"
    "ledger (arm_ready_levels e p) = ledger e"
  by (simp_all add: arm_ready_levels_def)

lemma core_inv_previous [simp]: "core_inv (e\<lparr>previous_price := p\<rparr>) = core_inv e"
  by (simp add: core_inv_def initial_stop_budget_def used_stop_budget_def)

lemma resting_arm: "\<forall>l \<in> set (levels e). resting q l \<Longrightarrow> \<forall>l \<in> set (levels (arm_ready_levels e p)). resting q l"
  by (auto simp: arm_ready_levels_def resting_def)

lemma step_inv:
  assumes "engine_inv e"
  shows "\<exists>e' evs acc'. step cb e cur tick acc = Inr (e', evs, acc') \<and> engine_inv e'
    \<and> config e' = config e \<and> spread e' = spread e"
proof (cases "previous_price e")
  case None
  have "\<forall>l \<in> set (levels e). resting cur l" using assms None by (simp add: engine_inv_def none_active_def resting_def)
  then show ?thesis
    using assms None arm_core [of "e\<lparr>previous_price := Some cur\<rparr>" cur]
      resting_arm [of "e\<lparr>previous_price := Some cur\<rparr>" cur cur]
    by (simp add: step_def engine_inv_def)
next
  case (Some prev)
  then obtain e1 ex acc1 where e1: "process_transition cb e prev cur tick acc = Inr (e1, ex, acc1)"
      "core_inv e1" "frame e1 = frame e" "\<forall>l \<in> set (levels e1). resting cur l"
    using process_transition_inv [of e prev cb cur tick acc] assms by (auto simp: engine_inv_def)
  then show ?thesis
    using Some arm_core [of "e1\<lparr>previous_price := Some cur\<rparr>" cur]
      resting_arm [of "e1\<lparr>previous_price := Some cur\<rparr>" cur cur]
    by (simp add: step_def engine_inv_def Let_def frame_def)
qed

lemma run_inv:
  assumes "engine_inv e"
  shows "\<exists>e'. r_foldl quiet_step e ticks = Inr e' \<and> engine_inv e' \<and> config e' = config e \<and> spread e' = spread e"
  using assms
proof (induction ticks arbitrary: e)
  case (Cons t ticks)
  obtain e1 evs u where e1: "step (\<lambda>_ _ u. u) e (snd t) (int (fst t)) () = Inr (e1, evs, u)"
    "engine_inv e1" "config e1 = config e" "spread e1 = spread e"
    using step_inv [OF Cons.prems, of "\<lambda>_ _ u. u" "snd t" "int (fst t)" "()"] by blast
  then show ?case using Cons.IH [OF e1(2)] by (auto simp: quiet_step_def)
qed simp

lemma fresh_engine_inv:
  assumes "mk_hedge_engine s n mode tp_count policy rate = Inr e" and "ladder (levels e)" and "0 \<le> premium_credit s"
  shows "engine_inv e"
proof -
  obtain c where ls: "generate_virtual_levels s c rate = Inr (levels e)"
    and e: "spread e = s" "ledger e = empty_ledger" "previous_price e = None"
    using assms(1) by (auto simp: mk_hedge_engine_def mk_strategy_config_def)
  have fresh: "\<exists>i a b c d. l = fresh_level i a b c d" if "l \<in> set (levels e)" for l
    using that generate_levels_nth [OF ls] by (metis in_set_conv_nth)
  have none: "none_active (levels e)"
    unfolding none_active_def using fresh by (force simp: fresh_level_def)
  moreover have "quiet_level l \<and> active_recovery_allocations l = []" if "l \<in> set (levels e)" for l
    using fresh [OF that] by (auto simp: fresh_level_def quiet_level_def)
  ultimately show ?thesis
    using assms(2,3) none_active_at_most_one [OF none] e
    by (auto simp: engine_inv_def core_inv_def level_budget_def alloc_ok_def none_active_def
        initial_stop_budget_def used_stop_budget_def empty_ledger_def)
qed

end
