(* ===== verification/Engine_Properties.thy ===== *)
theory Engine_Properties
  imports Engine_Invariant
begin

text \<open>
  The properties of the hedge engine over whole price paths, from the invariant of
  \<open>Engine_Invariant\<close>: the stop budget, the replay of the ledger, the order and number of the
  triggers of one transition, the debt that take profits settle, and the agreement of the
  accounting run with the plain run.
\<close>

section \<open>The stop budget\<close>

text \<open>A two-level engine small enough to evaluate in the witnesses.\<close>

definition demo_spread :: credit_spread where
  "demo_spread = \<lparr>spot = 3010, short_put_strike = 3000, long_put_strike = 2900,
     option_quantity = 1, premium_credit = 25\<rparr>"

definition demo_engine :: "hedge_engine res" where
  "demo_engine = mk_hedge_engine demo_spread 2 FULL_NEXT_TP 3 UNHEDGED (3 / 2000)"

definition demo_levels :: "hedge_level list" where
  "demo_levels = [fresh_level 1 3000 2950 (6009 / 2) 50, fresh_level 2 2950 2900 (118177 / 40) 50]"

lemma demo_engine_levels:
  "generate_virtual_levels demo_spread 2 (3 / 2000) = Inr demo_levels"
  by code_simp

lemma demo_engine_ok: "\<exists>e. demo_engine = Inr e \<and> levels e = demo_levels"
  by (simp add: demo_engine_def mk_hedge_engine_def mk_strategy_config_def demo_engine_levels)

lemma demo_ladder: "ladder demo_levels"
  by (auto simp: demo_levels_def ladder_def fresh_level_def Let_def less_Suc_eq nth_Cons' representable_numeral)

text \<open>C1. Premium stop budget. On every price path an engine built on a ladder of levels runs
  without an exception, in every recovery mode and lock policy; the realised stop losses never
  exceed the premium credit, and at most one hedge is open at the end of the path.\<close>

theorem stop_budget_never_exceeded:
  assumes "mk_hedge_engine s n mode tp_count policy rate = Inr e"
    and "ladder (levels e)" and "valid_spread s"
  shows "\<exists>e'. engine_run e prices = Inr e' \<and> gross_stop_losses (ledger e') \<le> premium_credit s
    \<and> at_most_one_active (levels e')"
proof -
  have "0 \<le> premium_credit s" and s: "spread e = s"
    using assms(1,3) by (auto simp: valid_spread_def mk_hedge_engine_def)
  from run_inv [OF fresh_engine_inv [OF assms(1,2) this(1)], of "enumerate 0 prices"] s show ?thesis
    by (auto simp: engine_run_def engine_inv_def core_inv_def used_stop_budget_def initial_stop_budget_def)
qed

theorem stop_budget_never_exceeded_witness:
  "\<exists>e e'. demo_engine = Inr e \<and> engine_run e [3010, 2990, 3005, 2940, 2960] = Inr e'
     \<and> gross_stop_losses (ledger e') \<le> 25"
proof -
  obtain e where e: "demo_engine = Inr e" "levels e = demo_levels" using demo_engine_ok by blast
  have "valid_spread demo_spread"
    by code_simp
  with stop_budget_never_exceeded [of demo_spread 2 FULL_NEXT_TP 3 UNHEDGED "3 / 2000" e
      "[3010, 2990, 3005, 2940, 2960]"] e demo_ladder
  show ?thesis by (auto simp: demo_engine_def demo_spread_def)
qed

text \<open>The ladder is needed: two hedges open together, each within the remaining budget at its
  entry, overrun it together.\<close>

definition steep_engine :: "hedge_engine res" where
  "steep_engine = mk_hedge_engine \<lparr>spot = 3010, short_put_strike = 3000, long_put_strike = 2992,
     option_quantity = 1, premium_credit = 5\<rparr> 2 FULL_NEXT_TP 3 UNHEDGED (3 / 2000)"

definition losses_of :: "hedge_engine res \<Rightarrow> dec list \<Rightarrow> dec res" where
  "losses_of m prices = r_bind m (\<lambda>e. r_bind (engine_run e prices) (\<lambda>e'. Inr (gross_stop_losses (ledger e'))))"

lemma stop_budget_overrun_without_ladder:
  "losses_of steep_engine [2998, 2995, 30002 / 10, 2999, 3005] = Inr (4497 / 500)"
  by code_simp

section \<open>The ledger is the replay of its events\<close>

lemma execute_crossing_consistent:
  assumes "execute_crossing e ev tick = Inr e'" "ledger_consistent (ledger e)"
  shows "ledger_consistent (ledger e')"
  using assms
  by (cases "cr_event_type ev"; cases "lock_policy (config e)")
     (auto simp: execute_crossing_def open_hedge_def open_floor_hedge_def take_profit_def stop_hedge_def
       breakeven_hedge_def Let_def set_level_def record_consistent split: if_splits)

lemma process_loop_preserves:
  assumes "process_loop cb p c dir t e cur ex pr acc = Inr (e', ex', acc')" and "P e"
    and "\<And>e ev e'. P e \<Longrightarrow> ev \<in> set (eligible_crossings e p c dir) \<Longrightarrow> execute_crossing e ev t = Inr e' \<Longrightarrow> P e'"
  shows "P e'"
  using assms
proof (induction cb p c dir t e cur ex pr acc rule: process_loop.induct)
  case (1 cb p c dir t e cur ex pr acc)
  show ?case
  proof (cases "candidates e p c dir cur pr = []")
    case True
    with 1(2,3) show ?thesis by (simp add: process_loop.simps Let_def)
  next
    case False
    with 1(2) obtain e1 where e1: "execute_crossing e (nearest (candidates e p c dir cur pr) dir) t = Inr e1"
      "process_loop cb p c dir t e1 (cr_price (nearest (candidates e p c dir cur pr) dir))
         (ex @ [nearest (candidates e p c dir cur pr) dir]) (key_of (nearest (candidates e p c dir cur pr) dir) # pr)
         (cb e1 (nearest (candidates e p c dir cur pr) dir) acc) = Inr (e', ex', acc')"
      by (subst (asm) process_loop.simps) (auto simp: Let_def)
    have "nearest (candidates e p c dir cur pr) dir \<in> set (eligible_crossings e p c dir)"
      using nearest_in [OF False, of dir] by (simp add: candidates_def)
    from 1(4) [OF 1(3) this e1(1)] show ?thesis by (rule 1(1) [OF refl False refl e1 _ 1(4)])
  qed
qed

text \<open>A property of the engine that every operation and the arming of the levels keep, holds
  after a tick and after a run.\<close>

lemma step_preserves:
  assumes "step cb e cur t acc = Inr (e', evs, acc')" and "P e"
    and "\<And>e ev e' p c dir. P e \<Longrightarrow> ev \<in> set (eligible_crossings e p c dir) \<Longrightarrow> execute_crossing e ev t = Inr e' \<Longrightarrow> P e'"
    and "\<And>e p. P e \<Longrightarrow> P (arm_ready_levels (e\<lparr>previous_price := Some p\<rparr>) p)"
  shows "P e'"
  using assms
  by (auto simp: step_def process_transition_def Let_def split: option.splits if_splits
      dest!: process_loop_preserves [where P = P])

lemma run_preserves:
  assumes "engine_run e prices = Inr e'" and "P e"
    and "\<And>e ev e' t p c dir. P e \<Longrightarrow> ev \<in> set (eligible_crossings e p c dir) \<Longrightarrow> execute_crossing e ev t = Inr e' \<Longrightarrow> P e'"
    and "\<And>e p. P e \<Longrightarrow> P (arm_ready_levels (e\<lparr>previous_price := Some p\<rparr>) p)"
  shows "P e'"
proof -
  have "P e2" if "P e1" "quiet_step e1 x = Inr e2" for e1 x e2
    using that step_preserves [where P = P] assms(3,4) by (fastforce simp: quiet_step_def)
  with assms(1,2) show ?thesis
    unfolding engine_run_def by (rule_tac r_foldl_invariant [where P = P]) auto
qed

text \<open>C15. Append-only ledger. After any run of a fresh engine, on any levels and whatever the
  prices, the ledger's totals (realised P&L, gross stop losses and take profits, quantities and
  counts) are exactly those obtained by replaying its events from the empty ledger, and the
  events carry the consecutive sequence numbers 1, 2, 3 and so on.\<close>

theorem ledger_is_replay:
  assumes "mk_hedge_engine s n mode tp_count policy rate = Inr e" and "engine_run e prices = Inr e'"
  shows "ledger e' = replay_ledger (events (ledger e'))
    \<and> map ev_sequence (events (ledger e')) = [1..<length (events (ledger e')) + 1]"
proof -
  have "ledger_consistent (ledger e)" using assms(1) by (auto simp: mk_hedge_engine_def)
  with assms(2) have "ledger_consistent (ledger e')"
    by (rule run_preserves [where P = "\<lambda>e. ledger_consistent (ledger e)"])
       (auto intro: execute_crossing_consistent simp: arm_ready_levels_def)
  then show ?thesis by (simp add: ledger_consistent_def)
qed

theorem ledger_is_replay_witness:
  "\<exists>e e'. demo_engine = Inr e \<and> engine_run e [3010, 2990, 3005] = Inr e'
     \<and> ledger e' = replay_ledger (events (ledger e'))"
proof -
  obtain e where e: "demo_engine = Inr e" using demo_engine_ok by blast
  have "is_ok (r_bind demo_engine (\<lambda>e. engine_run e [3010, 2990, 3005]))" by code_simp
  then obtain e' where e': "engine_run e [3010, 2990, 3005] = Inr e'" by (simp only: e sum.case is_ok_iff) blast
  from ledger_is_replay [OF e [unfolded demo_engine_def] e'] e e' show ?thesis by blast
qed

section \<open>The triggers of one transition\<close>

text \<open>\<open>along\<close>: each price lies between the one before it and the end of the segment.\<close>

fun along :: "direction \<Rightarrow> dec \<Rightarrow> dec \<Rightarrow> dec list \<Rightarrow> bool" where
  "along dir cursor current [] = True"
| "along dir cursor current (p # ps) =
     (inside_remaining_segment p cursor current dir \<and> along dir p current ps)"

definition cursor_after :: "dec \<Rightarrow> crossing_event list \<Rightarrow> dec" where
  "cursor_after start executed = (if executed = [] then start else cr_price (last executed))"

lemma cursor_after_simps [simp]:
  "cursor_after c [] = c" "cursor_after c (ev # evs) = cursor_after (cr_price ev) evs"
  by (simp_all add: cursor_after_def)

lemma process_loop_trace:
  assumes "process_loop cb p c dir t e cur ex pr acc = Inr (e', ex', acc')"
  shows "\<exists>new. ex' = ex @ new \<and> along dir cur c (map cr_price new) \<and> distinct (map key_of new)
    \<and> set (map key_of new) \<subseteq> set (segment_keys dir e) - set pr
    \<and> geometries e' = geometries e
    \<and> candidates e' p c dir (cursor_after cur new) (rev (map key_of new) @ pr) = []"
  using assms
proof (induction cb p c dir t e cur ex pr acc rule: process_loop.induct)
  case (1 cb p c dir t e cur ex pr acc)
  show ?case
  proof (cases "candidates e p c dir cur pr = []")
    case True
    with 1(2) show ?thesis by (simp add: process_loop.simps Let_def)
  next
    case False
    let ?ev = "nearest (candidates e p c dir cur pr) dir"
    obtain e1 where e1: "execute_crossing e ?ev t = Inr e1"
      "process_loop cb p c dir t e1 (cr_price ?ev) (ex @ [?ev]) (key_of ?ev # pr) (cb e1 ?ev acc) = Inr (e', ex', acc')"
      using 1(2) False by (subst (asm) process_loop.simps) (auto simp: Let_def)
    have geo: "geometries e1 = geometries e" using execute_geometries [OF e1(1)] .
    have key: "key_of ?ev \<in> set (segment_keys dir e) - set pr" using candidate_key [OF False] .
    have ins: "inside_remaining_segment (cr_price ?ev) cur c dir"
      using nearest_in [OF False, of dir] by (simp add: candidates_def)
    obtain new where new: "ex' = (ex @ [?ev]) @ new" "along dir (cr_price ?ev) c (map cr_price new)"
      "distinct (map key_of new)" "set (map key_of new) \<subseteq> set (segment_keys dir e1) - set (key_of ?ev # pr)"
      "geometries e' = geometries e1"
      "candidates e' p c dir (cursor_after (cr_price ?ev) new) (rev (map key_of new) @ key_of ?ev # pr) = []"
      using 1(1) [OF refl False refl e1] by blast
    have "segment_keys dir e1 = segment_keys dir e" using geo by (simp add: segment_keys_def)
    then show ?thesis using new ins key geo by (intro exI [of _ "?ev # new"]) auto
  qed
qed

text \<open>What the loop promises of its choices. A trigger is \<open>due\<close> if it is eligible in the engine's state, lies
  in the rest of the segment and has not fired in it; \<open>no_farther\<close> compares two triggers by price along the
  direction, equal prices by priority and then by level. \<open>nearest_first\<close> is a transition that fires a due trigger
  than which no due trigger is nearer, in the state the one before left, until none is due.\<close>

definition due :: "dec \<Rightarrow> dec \<Rightarrow> direction \<Rightarrow> hedge_engine \<Rightarrow> dec \<Rightarrow> crossing_key list \<Rightarrow> crossing_event \<Rightarrow> bool" where
  "due p c dir e cursor fired ev \<longleftrightarrow> (\<exists>l \<in> set (levels e). ev \<in> set (level_crossings p c dir l))
     \<and> (if dir = DOWN then c \<le> cr_price ev \<and> cr_price ev \<le> cursor else cursor \<le> cr_price ev \<and> cr_price ev \<le> c)
     \<and> key_of ev \<notin> set fired"

definition no_farther :: "direction \<Rightarrow> crossing_event \<Rightarrow> crossing_event \<Rightarrow> bool" where
  "no_farther dir a b \<longleftrightarrow> (if dir = DOWN then cr_price b < cr_price a else cr_price a < cr_price b)
     \<or> cr_price a = cr_price b \<and> (cr_priority a < cr_priority b
          \<or> cr_priority a = cr_priority b \<and> cr_level_id a \<le> cr_level_id b)"

inductive nearest_first :: "dec \<Rightarrow> dec \<Rightarrow> direction \<Rightarrow> int \<Rightarrow> hedge_engine \<Rightarrow> dec \<Rightarrow> crossing_key list
    \<Rightarrow> crossing_event list \<Rightarrow> hedge_engine \<Rightarrow> bool" for p c dir t where
  Rest: "(\<And>ev. \<not> due p c dir e cursor fired ev) \<Longrightarrow> nearest_first p c dir t e cursor fired [] e"
| Fire: "due p c dir e cursor fired ev \<Longrightarrow> (\<And>ev'. due p c dir e cursor fired ev' \<Longrightarrow> no_farther dir ev ev')
    \<Longrightarrow> execute_crossing e ev t = Inr e1 \<Longrightarrow> nearest_first p c dir t e1 (cr_price ev) (key_of ev # fired) evs e'
    \<Longrightarrow> nearest_first p c dir t e cursor fired (ev # evs) e'"

text \<open>The engine compares downward triggers by the negated price, and negation rounds: the order is by price
  when the prices are numbers of the decimal context.\<close>

definition priced :: "hedge_engine \<Rightarrow> bool" where
  "priced e \<longleftrightarrow> (\<forall>l \<in> set (levels e). representable (entry_price l) \<and> representable (tp_price l))"

lemma priced_geometries: "geometries e' = geometries e \<Longrightarrow> priced e' = priced e"
proof -
  have "priced e \<longleftrightarrow> (\<forall>(i, entry, tp, stop, budget) \<in> set (geometries e). representable entry \<and> representable tp)" for e
    by (auto simp: priced_def geometries_def geometry_def)
  then show "geometries e' = geometries e \<Longrightarrow> priced e' = priced e" by simp
qed

lemma due_candidates: "due p c dir e cursor fired ev \<longleftrightarrow> ev \<in> set (candidates e p c dir cursor fired)"
  by (cases dir) (auto simp: due_def candidates_def eligible_crossings_def inside_remaining_segment_def)

lemma down_price:
  assumes "priced e" "ev \<in> set (candidates e p c DOWN cursor fired)"
  shows "dneg (cr_price ev) = - cr_price ev"
  using assms
  by (auto simp: candidates_def eligible_crossings_def level_crossings_def crossing_def priced_def dneg_def rnd_exact
      split: if_splits)

lemma nearest_no_farther:
  assumes "priced e" and b: "b \<in> set (candidates e p c dir cursor fired)"
  shows "no_farther dir (nearest (candidates e p c dir cursor fired) dir) b"
proof -
  let ?cs = "candidates e p c dir cursor fired"
  have a: "nearest ?cs dir \<in> set ?cs" using b by (intro nearest_in) auto
  show ?thesis
  proof (cases dir)
    case DOWN
    have "down_key (nearest ?cs DOWN) \<le> down_key b" using nearest_down_min b DOWN by blast
    with down_price [OF assms(1)] a b DOWN show ?thesis by (auto simp: down_key_def no_farther_def)
  next
    case UP
    have "up_key (nearest ?cs UP) \<le> up_key b" using hd_sort_key_min b UP by (simp add: nearest_def)
    with UP show ?thesis by (auto simp: up_key_def no_farther_def)
  qed
qed

lemma process_loop_nearest:
  assumes "process_loop cb p c dir t e cur ex pr acc = Inr (e', ex', acc')" and "priced e"
  shows "\<exists>new. ex' = ex @ new \<and> nearest_first p c dir t e cur pr new e'"
  using assms
proof (induction cb p c dir t e cur ex pr acc rule: process_loop.induct)
  case (1 cb p c dir t e cur ex pr acc)
  show ?case
  proof (cases "candidates e p c dir cur pr = []")
    case True
    with 1(2) show ?thesis by (auto simp: process_loop.simps Let_def due_candidates intro: nearest_first.Rest)
  next
    case False
    let ?ev = "nearest (candidates e p c dir cur pr) dir"
    obtain e1 where e1: "execute_crossing e ?ev t = Inr e1"
      "process_loop cb p c dir t e1 (cr_price ?ev) (ex @ [?ev]) (key_of ?ev # pr) (cb e1 ?ev acc) = Inr (e', ex', acc')"
      using 1(2) False by (subst (asm) process_loop.simps) (auto simp: Let_def)
    have "priced e1" using priced_geometries [OF execute_geometries [OF e1(1)]] 1(3) by simp
    then obtain new where new: "ex' = ex @ ?ev # new" "nearest_first p c dir t e1 (cr_price ?ev) (key_of ?ev # pr) new e'"
      using 1(1) [OF refl False refl e1] by auto
    have "nearest_first p c dir t e cur pr (?ev # new) e'"
      by (rule nearest_first.Fire [OF _ _ e1(1) new(2)])
        (simp_all add: due_candidates nearest_in [OF False] nearest_no_farther [OF 1(3)])
    with new(1) show ?thesis by blast
  qed
qed

text \<open>C13. Triggers fire in price order, none is skipped and none fires twice. Let the entry and take profit
  prices of the levels be numbers of the decimal context. A transition between two prices fires, from the
  previous price on, always a trigger that no other due trigger is nearer to the cursor than, and ends when no
  trigger is due; a trigger is due if the state of the engine at that moment makes it eligible, its price lies in
  the rest of the segment and it has not fired in this transition. So the prices fired follow the segment,
  no trigger (event type, level, price) fires twice, and there are at most two per level, which bounds the loop.\<close>

theorem transition_trace:
  assumes "process_transition cb e previous current tick acc = Inr (e', executed, acc')" and "previous \<noteq> current"
    and "priced e"
  shows "let dir = (if current < previous then DOWN else UP) in
    nearest_first previous current dir tick e previous [] executed e'
    \<and> along dir previous current (map cr_price executed) \<and> distinct (map key_of executed)
    \<and> length executed \<le> 2 * length (levels e)"
proof -
  define dir where "dir = (if current < previous then DOWN else UP)"
  have loop: "process_loop cb previous current dir tick e previous [] [] acc = Inr (e', executed, acc')"
    using assms by (simp add: process_transition_def dir_def)
  from process_loop_trace [OF loop]
  have t: "along dir previous current (map cr_price executed)" "distinct (map key_of executed)"
    "set (map key_of executed) \<subseteq> set (segment_keys dir e)"
    by auto
  have "card (set (map key_of executed)) \<le> card (set (segment_keys dir e))" by (rule card_mono [OF _ t(3)]) simp
  also have "\<dots> \<le> 2 * length (levels e)" using card_length [of "segment_keys dir e"] by (simp add: length_segment_keys)
  finally have "length executed \<le> 2 * length (levels e)" using distinct_card [OF t(2)] by simp
  moreover have "nearest_first previous current dir tick e previous [] executed e'"
    using process_loop_nearest [OF loop assms(3)] by simp
  ultimately show ?thesis using t by (simp add: dir_def)
qed

definition armed_demo :: "hedge_engine res" where
  "armed_demo = r_bind demo_engine (\<lambda>e. engine_run e [3010])"

lemma armed_demo_priced:
  assumes "armed_demo = Inr e" shows "priced e"
proof -
  have "(case armed_demo of Inr e \<Rightarrow> map (\<lambda>l. (entry_price l, tp_price l)) (levels e) | Inl _ \<Rightarrow> []) = [(3000, 2950), (2950, 2900)]"
    by code_simp
  then have "map (\<lambda>l. (entry_price l, tp_price l)) (levels e) = [(3000, 2950), (2950, 2900)]" by (simp only: assms sum.case)
  then have "set (map (\<lambda>l. (entry_price l, tp_price l)) (levels e)) = {(3000, 2950), (2950, 2900)}" by simp
  then have "\<forall>l \<in> set (levels e). (entry_price l, tp_price l) \<in> {(3000, 2950), (2950, 2900)}" by auto
  then show ?thesis by (auto simp: priced_def representable_numeral)
qed

theorem transition_trace_witness:
  "\<exists>e e' ex. armed_demo = Inr e \<and> process_transition (\<lambda>_ _ u. u) e 3010 2940 1 () = Inr (e', ex, ())
     \<and> nearest_first 3010 2940 DOWN 1 e 3010 [] ex e' \<and> map cr_price ex = [3000, 2950, 2950]
     \<and> along DOWN 3010 2940 (map cr_price ex) \<and> length ex \<le> 2 * length (levels e)"
proof -
  have "(case r_bind armed_demo (\<lambda>e. process_transition (\<lambda>_ _ u. u) e 3010 2940 1 ()) of
      Inr (e', ex, u) \<Rightarrow> map cr_price ex | Inl _ \<Rightarrow> []) = [3000, 2950, 2950]" by code_simp
  then obtain e e' ex where e: "armed_demo = Inr e"
    "process_transition (\<lambda>_ _ u. u) e 3010 2940 1 () = Inr (e', ex, ())" "map cr_price ex = [3000, 2950, 2950]"
    by (cases armed_demo) (auto split: sum.splits)
  from transition_trace [OF e(2) _ armed_demo_priced [OF e(1)]] e show ?thesis by (auto simp: Let_def)
qed

section \<open>Debts and take profits\<close>

definition settled_level :: "hedge_level \<Rightarrow> bool" where
  "settled_level l \<longleftrightarrow> 0 \<le> recovery_debt l \<and> 0 \<le> active_quantity l \<and> tp_price l < entry_price l
     \<and> entry_price l < stop_price l \<and> 0 \<le> option_budget l
     \<and> (state l = PAID \<longrightarrow> recovery_debt l = 0)
     \<and> (state l = ACTIVE \<longrightarrow> active_recovery_allocations l =
          (if 0 < recovery_debt l then [(level_id l, recovery_debt l)] else []))"

definition settled_engine :: "hedge_engine \<Rightarrow> bool" where
  "settled_engine e \<longleftrightarrow> recovery_mode (config e) = FULL_NEXT_TP
     \<and> (\<forall>i < length (levels e). level_id (levels e ! i) = i + 1 \<and> settled_level (levels e ! i))"

lemma settled_update:
  assumes "settled_engine e" "levels e' = (levels e)[k := l]" "config e' = config e" "k < length (levels e)"
    and "settled_level (levels e ! k) \<Longrightarrow> settled_level l" "level_id l = level_id (levels e ! k)"
  shows "settled_engine e'"
  using assms unfolding settled_engine_def by (auto simp: nth_list_update)

lemma level_index_bound: "level_index ls i = Inr k \<Longrightarrow> k < length ls"
  by (auto simp: level_index_def Let_def split: if_splits)

lemma settled_open:
  assumes inv: "settled_engine e" and k: "k < length (levels e)" and r: "open_hedge e k t = Inr e'"
  shows "settled_engine e'"
proof -
  let ?l = "levels e ! k" and ?as = "recovery_allocations_for e (levels e ! k)"
  have l: "settled_level ?l" using inv k by (simp add: settled_engine_def)
  have as: "?as = (if 0 < recovery_debt ?l then [(level_id ?l, recovery_debt ?l)] else [])"
    using inv by (simp add: settled_engine_def recovery_allocations_for_def)
  have q: "0 \<le> q" if "ddiv (dadd (option_budget ?l) (dsum (map snd ?as))) (tp_distance ?l) = Inr q" for q
    using l that unfolding as by (auto simp: settled_level_def ddiv_Inr tp_distance_def intro!: divide_nonneg_nonneg dadd_nonneg)
  from r show ?thesis
  proof (cases rule: open_hedge_cases)
    case (entry q)
    have "settled_level ?l \<Longrightarrow> settled_level (open_level ?l q False ?as)"
      using q [OF entry(1)] as by (auto simp: settled_level_def open_level_def)
    with settled_update [OF inv entry(2) _ k] entry show ?thesis by (simp add: frame_def open_level_def)
  next
    case (floor q)
    have "settled_level ?l \<Longrightarrow> settled_level (open_level ?l q True ?as)"
      using q [OF floor(1)] as by (auto simp: settled_level_def open_level_def)
    with settled_update [OF inv floor(2) _ k] floor show ?thesis by (simp add: frame_def open_level_def)
  next
    case locked
    with settled_update [OF inv locked(1) _ k] show ?thesis by (simp add: frame_def settled_level_def)
  qed
qed

lemma settled_stop:
  assumes inv: "settled_engine e" and k: "k < length (levels e)" and r: "stop_hedge e k t = Inr e'"
  shows "settled_engine e'"
  using r
proof (cases rule: stop_hedge_cases)
  case (1 loss)
  have "settled_level (levels e ! k) \<Longrightarrow> 0 \<le> loss"
    unfolding 1(2) by (intro dmul_nonneg) (simp_all add: settled_level_def stop_distance_def)
  then have "settled_level (levels e ! k) \<Longrightarrow>
      settled_level (stop_level (recovery_mode (config e)) (recovery_tp_count (config e)) (levels e ! k) loss)"
    by (auto simp: settled_level_def stop_level_def dadd_nonneg)
  with settled_update [OF inv 1(3) _ k] 1 show ?thesis by (simp add: frame_def stop_level_def)
qed

lemma settled_breakeven:
  assumes inv: "settled_engine e" and k: "k < length (levels e)" and r: "breakeven_hedge e k t = Inr e'"
  shows "settled_engine e'"
  using r
proof (cases rule: breakeven_hedge_cases)
  case 1
  with settled_update [OF inv 1(2) _ k] show ?thesis by (simp add: frame_def settled_level_def released_level_def)
qed

lemma settled_take_profit:
  assumes inv: "settled_engine e" and k: "k < length (levels e)" and active: "state (levels e ! k) = ACTIVE"
    and r: "take_profit e k t = Inr e'"
  shows "settled_engine e'"
  using r
proof (cases rule: take_profit_cases)
  case (1 ls profit)
  let ?l = "levels e ! k"
  have l: "settled_level ?l" "level_id ?l = k + 1" "recovery_mode (config e) = FULL_NEXT_TP"
    using inv k by (simp_all add: settled_engine_def)
  have "ls = (levels e)[k := ?l\<lparr>recovery_debt := 0\<rparr>]"
  proof (cases "0 < recovery_debt ?l")
    case True
    with 1(1) l active k show ?thesis
      by (simp add: settled_level_def settle_source_def level_index_def Let_def)
  next
    case False
    then have "recovery_debt ?l = 0" using l by (simp add: settled_level_def)
    then have noop: "?l\<lparr>recovery_debt := 0\<rparr> = ?l" and "ls = levels e"
      using 1(1) l active by (cases ?l, simp, simp add: settled_level_def)
    then show ?thesis by (simp only: noop list_update_id)
  qed
  then have "levels e' = (levels e)[k := paid_level (?l\<lparr>recovery_debt := 0\<rparr>) profit]"
    using 1(2) k by simp
  from settled_update [OF inv this _ k] 1 show ?thesis
    by (simp add: frame_def settled_level_def paid_level_def)
qed

lemma eligible_active:
  assumes "settled_engine e" "ev \<in> set (eligible_crossings e p c dir)" "cr_event_type ev = C_TP"
    and "level_index (levels e) (cr_level_id ev) = Inr k"
  shows "state (levels e ! k) = ACTIVE"
proof -
  obtain i where i: "i < length (levels e)" "ev \<in> set (level_crossings p c dir (levels e ! i))"
    using assms(2) by (auto simp: eligible_crossings_def in_set_conv_nth) (metis nth_mem in_set_conv_nth)
  moreover have "level_id (levels e ! i) = i + 1" using assms(1) i by (simp add: settled_engine_def)
  moreover have "cr_level_id ev = level_id (levels e ! i) \<and> state (levels e ! i) = ACTIVE"
    using i(2) assms(3) by (cases dir) (auto simp: level_crossings_def crossing_def split: if_splits)
  ultimately show ?thesis using assms(4) by (auto simp: level_index_def Let_def split: if_splits)
qed

lemma settled_execute:
  assumes "settled_engine e" "ev \<in> set (eligible_crossings e p c dir)" "execute_crossing e ev t = Inr e'"
  shows "settled_engine e'"
proof -
  obtain k where k: "level_index (levels e) (cr_level_id ev) = Inr k"
    using assms(3) by (auto simp: execute_crossing_def)
  show ?thesis
    using assms k level_index_bound [OF k] eligible_active [OF assms(1,2) _ k]
    by (cases "cr_event_type ev")
       (auto simp: execute_crossing_def intro: settled_open settled_stop settled_breakeven settled_take_profit)
qed

lemma settled_arm: "settled_engine e \<Longrightarrow> settled_engine (arm_ready_levels (e\<lparr>previous_price := q\<rparr>) p)"
  by (auto simp: settled_engine_def settled_level_def arm_ready_levels_def arm_level_def)

lemma fresh_settled:
  assumes "mk_hedge_engine s n FULL_NEXT_TP tp_count policy rate = Inr e" "ladder (levels e)"
  shows "settled_engine e"
proof -
  obtain c where ls: "generate_virtual_levels s c rate = Inr (levels e)" "recovery_mode (config e) = FULL_NEXT_TP"
    using assms(1) by (auto simp: mk_hedge_engine_def mk_strategy_config_def)
  show ?thesis
    using generate_levels_nth [OF ls(1)] ls(2) ladder_nth [OF assms(2)] assms(2)
    by (auto simp: settled_engine_def settled_level_def fresh_level_def ladder_def Let_def)
qed

text \<open>C14. Recovery by the next take profit. On a ladder of levels, in the \<open>FULL_NEXT_TP\<close> mode, after any price path, a
  level that has taken profit has no outstanding recovery debt; an open hedge carries its level's
  whole debt as its single allocation; and no debt is ever negative.\<close>

theorem paid_levels_have_no_debt:
  assumes "mk_hedge_engine s n FULL_NEXT_TP tp_count policy rate = Inr e"
    and "ladder (levels e)" and "engine_run e prices = Inr e'"
  shows "\<forall>l \<in> set (levels e'). 0 \<le> recovery_debt l \<and> (state l = PAID \<longrightarrow> recovery_debt l = 0)
    \<and> (state l = ACTIVE \<longrightarrow> active_recovery_allocations l =
         (if 0 < recovery_debt l then [(level_id l, recovery_debt l)] else []))"
proof -
  have "settled_engine e'"
    using assms(3) fresh_settled [OF assms(1,2)]
    by (rule run_preserves) (auto intro: settled_execute settled_arm)
  then have "\<forall>l \<in> set (levels e'). settled_level l" by (auto simp: settled_engine_def in_set_conv_nth)
  then show ?thesis unfolding settled_level_def by blast
qed

theorem paid_levels_have_no_debt_witness:
  "\<exists>e e'. demo_engine = Inr e \<and> engine_run e [3010, 2990, 3005, 2940] = Inr e'
     \<and> (\<forall>l \<in> set (levels e'). state l = PAID \<longrightarrow> recovery_debt l = 0)"
proof -
  obtain e where e: "demo_engine = Inr e" "levels e = demo_levels" using demo_engine_ok by blast
  have lad: "ladder (levels e)" using demo_ladder e(2) by simp
  have "is_ok (r_bind demo_engine (\<lambda>e. engine_run e [3010, 2990, 3005, 2940]))" by code_simp
  then obtain e' where e': "engine_run e [3010, 2990, 3005, 2940] = Inr e'"
    by (simp only: e sum.case is_ok_iff) blast
  from paid_levels_have_no_debt [OF e(1) [unfolded demo_engine_def] lad e'] e e' show ?thesis by blast
qed

text \<open>The size of a hedge is chosen so that its take profit pays its target. Three roundings lie
  between the target and the profit.\<close>

lemma rnd_close: "0 \<le> x \<Longrightarrow> \<bar>rnd x - x\<bar> \<le> x / (2 * 10 ^ 27)"
  using rnd_error [of x] by simp

lemma sized_profit_error:
  assumes "0 \<le> x" "0 < d"
  shows "\<bar>dmul (dquot (rnd x) d) d - x\<bar> \<le> x / (5 * 10 ^ 26)"
proof -
  define s q where "s = rnd x" and "q = rnd (s / d)"
  have s0: "0 \<le> s" "0 \<le> q * d" using assms by (simp_all add: s_def q_def)
  have s: "\<bar>s - x\<bar> \<le> x / (2 * 10 ^ 27)" unfolding s_def by (rule rnd_close [OF assms(1)])
  have "\<bar>q - s / d\<bar> * d \<le> s / d / (2 * 10 ^ 27) * d"
    unfolding q_def using assms s0 by (intro mult_right_mono rnd_close) simp_all
  moreover have "\<bar>q - s / d\<bar> * d = \<bar>q * d - s\<bar>"
    using assms(2) abs_mult [of "q - s / d" d] by (simp add: left_diff_distrib)
  ultimately have q: "\<bar>q * d - s\<bar> \<le> s / (2 * 10 ^ 27)" using assms(2) by simp
  have p: "\<bar>rnd (q * d) - q * d\<bar> \<le> q * d / (2 * 10 ^ 27)" by (rule rnd_close [OF s0(2)])
  have "\<bar>rnd (q * d) - x\<bar> \<le> x / (5 * 10 ^ 26)"
    using s q p assms(1) unfolding abs_le_iff by (intro conjI) (simp_all add: field_simps)
  then show ?thesis by (simp add: dmul_def dquot_def s_def q_def)
qed

text \<open>The crossings of a run, each with the engine before and after it; between them the engine only notes the
  price and arms levels.\<close>

record firing =
  fi_before :: hedge_engine
  fi_trigger :: crossing_event
  fi_after :: hedge_engine

inductive engine_history :: "hedge_engine \<Rightarrow> firing list \<Rightarrow> hedge_engine \<Rightarrow> bool" for e0 where
  Start: "engine_history e0 [] e0"
| Cross: "engine_history e0 h e \<Longrightarrow> ev \<in> set (eligible_crossings e p c dir) \<Longrightarrow> execute_crossing e ev t = Inr e'
    \<Longrightarrow> engine_history e0 (h @ [\<lparr>fi_before = e, fi_trigger = ev, fi_after = e'\<rparr>]) e'"
| Arm: "engine_history e0 h e \<Longrightarrow> engine_history e0 h (arm_ready_levels (e\<lparr>previous_price := Some p\<rparr>) p)"

lemma engine_run_history:
  assumes "engine_run e prices = Inr e'"
  shows "\<exists>h. engine_history e h e'"
  using assms
  by (rule run_preserves [where P = "\<lambda>e1. \<exists>h. engine_history e h e1"])
    (auto intro: engine_history.Start engine_history.Cross engine_history.Arm)

text \<open>Every crossing books one event.\<close>

definition booked :: "firing \<Rightarrow> ledger_event" where
  "booked f = last (events (ledger (fi_after f)))"

lemma execute_books:
  assumes "execute_crossing e ev t = Inr e'"
  shows "\<exists>x. events (ledger e') = events (ledger e) @ [x]"
  using assms record_events_grow
  by (cases "cr_event_type ev"; cases "lock_policy (config e)")
     (fastforce simp: execute_crossing_def open_hedge_def open_floor_hedge_def take_profit_def stop_hedge_def
       breakeven_hedge_def Let_def set_level_def split: if_splits)+

lemma history_books:
  assumes "engine_history e h e'" "events (ledger e) = []"
  shows "events (ledger e') = map booked h"
  using assms
proof (induction rule: engine_history.induct)
  case (Cross h e1 ev p c dir t e2)
  then show ?case using execute_books [OF Cross(3)] by (auto simp: booked_def)
qed simp_all

text \<open>The levels of such a history: on the ladder, with debts and quantities that are not negative.\<close>

definition laddered :: "hedge_engine \<Rightarrow> bool" where
  "laddered e \<longleftrightarrow> ladder (levels e) \<and> (\<forall>l \<in> set (levels e). 0 \<le> recovery_debt l \<and> 0 \<le> active_quantity l)"

lemma ladder_execute: "execute_crossing e ev t = Inr e' \<Longrightarrow> ladder (levels e') = ladder (levels e)"
  using execute_geometries [of e ev t e'] ladder_cong unfolding geometries_def by blast

lemma allocation_target_nonneg:
  assumes "\<forall>l \<in> set (levels e). 0 \<le> recovery_debt l"
  shows "0 \<le> dsum (map snd (recovery_allocations_for e l))"
  using distributed_allocation_ok [of "levels e" "level_id l"] assms
  by (cases "recovery_mode (config e)") (auto simp: recovery_allocations_for_def)

lemma settle_debt_nonneg:
  assumes "settle_source m ls a = Inr ls'" "\<forall>l \<in> set ls. 0 \<le> recovery_debt l \<and> 0 \<le> active_quantity l"
  shows "\<forall>l \<in> set ls'. 0 \<le> recovery_debt l \<and> 0 \<le> active_quantity l"
proof -
  obtain k where k: "level_index ls (fst a) = Inr k" using assms(1) by (auto simp: settle_source_def)
  obtain l where l: "ls' = ls[k := l]" "0 \<le> recovery_debt l" "active_quantity l = active_quantity (ls ! k)"
  proof (cases m)
    case FULL_NEXT_TP
    then show thesis
      using assms(1) k by (intro that [of "(ls ! k)\<lparr>recovery_debt := dsub (recovery_debt (ls ! k)) (snd a)\<rparr>"])
        (auto simp: settle_source_def Let_def not_less)
  next
    case DISTRIBUTED
    let ?d = "dsub (recovery_debt (ls ! k)) (snd a)"
    from DISTRIBUTED show thesis
      using assms(1) k by (intro that [of "(ls ! k)\<lparr>recovery_debt := ?d,
          recovery_tps_remaining := (if ?d = 0 then 0 else recovery_tps_remaining (ls ! k) - 1)\<rparr>"])
        (auto simp: settle_source_def Let_def not_less)
  qed
  have "active_quantity (ls ! k) \<ge> 0" using assms(2) level_index_bound [OF k] by simp
  with l assms(2) set_update_subset_insert [of ls k l] show ?thesis by auto
qed

lemma eligible_level:
  assumes "ladder (levels e)" "ev \<in> set (eligible_crossings e p c dir)"
  obtains k where "k < length (levels e)" "level_index (levels e) (cr_level_id ev) = Inr k" "cr_level_id ev = k + 1"
    "cr_event_type ev \<noteq> C_ENTRY \<Longrightarrow> state (levels e ! k) = ACTIVE" "cr_event_type ev = C_ENTRY \<Longrightarrow> state (levels e ! k) = READY"
proof -
  obtain k where k: "k < length (levels e)" "ev \<in> set (level_crossings p c dir (levels e ! k))"
    using assms(2) by (auto simp: eligible_crossings_def) (metis in_set_conv_nth)
  have "cr_level_id ev = level_id (levels e ! k)" "cr_event_type ev \<noteq> C_ENTRY \<Longrightarrow> state (levels e ! k) = ACTIVE"
    "cr_event_type ev = C_ENTRY \<Longrightarrow> state (levels e ! k) = READY"
    using k(2) by (cases dir; auto simp: level_crossings_def crossing_def split: if_splits)+
  with that k(1) ladder_index [OF assms(1) k(1)] ladder_nth(1) [OF assms(1) k(1)] show thesis by simp
qed

lemma laddered_execute:
  assumes inv: "laddered e" and el: "ev \<in> set (eligible_crossings e p c dir)" and x: "execute_crossing e ev t = Inr e'"
  shows "laddered e'"
proof -
  have lad: "ladder (levels e)" and nn: "\<forall>l \<in> set (levels e). 0 \<le> recovery_debt l \<and> 0 \<le> active_quantity l"
    using inv by (simp_all add: laddered_def)
  obtain k where k: "k < length (levels e)" "level_index (levels e) (cr_level_id ev) = Inr k"
    by (rule eligible_level [OF lad el])
  let ?l = "levels e ! k"
  have l: "0 \<le> recovery_debt ?l" "0 \<le> active_quantity ?l" using nn k(1) by simp_all
  have put: ?thesis if "levels e' = ls[k := l']" "0 \<le> recovery_debt l'" "0 \<le> active_quantity l'"
      "\<forall>l \<in> set ls. 0 \<le> recovery_debt l \<and> 0 \<le> active_quantity l" for l' ls
    using that lad ladder_execute [OF x] set_update_subset_insert [of ls k l'] by (auto simp: laddered_def)
  have q: "0 \<le> q" if "ddiv (dadd (option_budget ?l) (dsum (map snd (recovery_allocations_for e ?l)))) (tp_distance ?l) = Inr q" for q
  proof -
    have "0 \<le> dsum (map snd (recovery_allocations_for e ?l))" using allocation_target_nonneg nn by blast
    then have "0 \<le> dadd (option_budget ?l) (dsum (map snd (recovery_allocations_for e ?l)))"
      using ladder_nth(4) [OF lad k(1)] by (rule dadd_nonneg [rotated])
    moreover have "0 \<le> tp_distance ?l" using ladder_nth(2) [OF lad k(1)] by (simp add: tp_distance_def)
    ultimately show ?thesis using that by (auto simp: ddiv_Inr)
  qed
  show ?thesis
  proof (cases "cr_event_type ev")
    case C_ENTRY
    then have "open_hedge e k t = Inr e'" using x k(2) by (simp add: execute_crossing_def)
    then show ?thesis
      by (cases rule: open_hedge_cases) (auto intro!: put [OF _ _ _ nn] simp: open_level_def q l)
  next
    case C_TP
    then have "take_profit e k t = Inr e'" using x k(2) by (simp add: execute_crossing_def)
    then show ?thesis
    proof (cases rule: take_profit_cases)
      case (1 ls profit)
      have ls: "\<forall>l \<in> set ls. 0 \<le> recovery_debt l \<and> 0 \<le> active_quantity l"
        using 1(1) by (rule r_foldl_invariant [where P = "\<lambda>ls. \<forall>l \<in> set ls. 0 \<le> recovery_debt l \<and> 0 \<le> active_quantity l"])
          (use nn settle_debt_nonneg in blast)+
      have "length ls = length (levels e)" using settle_sources_geometry [OF 1(1)] by (rule map_eq_imp_length_eq)
      then have "0 \<le> recovery_debt (ls ! k)" using ls k(1) by simp
      then show ?thesis by (intro put [OF 1(2) _ _ ls]) (simp_all add: paid_level_def)
    qed
  next
    case C_STOP
    then have "stop_hedge e k t = Inr e'" using x k(2) by (simp add: execute_crossing_def)
    then show ?thesis
    proof (cases rule: stop_hedge_cases)
      case (1 loss)
      have "0 \<le> stop_distance ?l" using ladder_nth(3) [OF lad k(1)] by (simp add: stop_distance_def)
      then have "0 \<le> loss" unfolding 1(2) using l(2) by (intro dmul_nonneg)
      then show ?thesis by (intro put [OF 1(3) _ _ nn]) (simp_all add: stop_level_def dadd_nonneg l)
    qed
  next
    case C_BREAKEVEN
    then have "breakeven_hedge e k t = Inr e'" using x k(2) by (simp add: execute_crossing_def)
    then show ?thesis by (cases rule: breakeven_hedge_cases) (auto intro!: put [OF _ _ _ nn] simp: released_level_def l)
  qed
qed

lemma laddered_arm: "laddered e \<Longrightarrow> laddered (arm_ready_levels (e\<lparr>previous_price := q\<rparr>) p)"
proof -
  assume e: "laddered e"
  have "map geometry (map (arm_level p) (levels e)) = map geometry (levels e)" by simp
  from ladder_cong [OF this] e show ?thesis by (auto simp: laddered_def arm_ready_levels_def)
qed

text \<open>The history of an open hedge: it was opened by entry \<open>j\<close>, no later crossing is of its level, and its
  quantity and allocations are those of that entry.\<close>

definition sized :: "firing \<Rightarrow> nat \<Rightarrow> dec \<Rightarrow> allocations \<Rightarrow> bool" where
  "sized f k q allocs \<longleftrightarrow> (let l = levels (fi_before f) ! k in
     allocs = recovery_allocations_for (fi_before f) l
     \<and> ddiv (dadd (option_budget l) (dsum (map snd allocs))) (tp_distance l) = Inr q
     \<and> 0 \<le> dsum (map snd allocs) \<and> ev_quantity (booked f) = q)"

definition opened_by :: "firing list \<Rightarrow> nat \<Rightarrow> nat \<Rightarrow> bool" where
  "opened_by h j i \<longleftrightarrow> j < length h \<and> cr_event_type (fi_trigger (h ! j)) = C_ENTRY \<and> cr_level_id (fi_trigger (h ! j)) = i
     \<and> (\<forall>m. j < m \<and> m < length h \<longrightarrow> cr_level_id (fi_trigger (h ! m)) \<noteq> i)"

definition open_hedges :: "hedge_engine \<Rightarrow> firing list \<Rightarrow> hedge_engine \<Rightarrow> bool" where
  "open_hedges e0 h e \<longleftrightarrow> laddered e \<and> geometries e = geometries e0
     \<and> (\<forall>f \<in> set h. geometries (fi_before f) = geometries e0)
     \<and> (\<forall>k < length (levels e). state (levels e ! k) = ACTIVE \<longrightarrow> (\<exists>j. opened_by h j (k + 1)
          \<and> sized (h ! j) k (active_quantity (levels e ! k)) (active_recovery_allocations (levels e ! k))))"

lemma geometries_nth:
  assumes "geometries e' = geometries e" "k < length (levels e')"
  shows "geometry (levels e' ! k) = geometry (levels e ! k)" "k < length (levels e)"
proof -
  have m: "map geometry (levels e') = map geometry (levels e)" using assms(1) by (simp add: geometries_def)
  then show "k < length (levels e)" using assms(2) by (metis length_map)
  with assms(2) m show "geometry (levels e' ! k) = geometry (levels e ! k)" by (metis nth_map)
qed

text \<open>A crossing leaves the trading part of every other level alone, and only an entry opens its own.\<close>

lemma execute_others:
  assumes lad: "ladder (levels e)" and el: "ev \<in> set (eligible_crossings e p c dir)" and x: "execute_crossing e ev t = Inr e'"
    and i: "i < length (levels e)" "cr_level_id ev \<noteq> i + 1"
  shows "trading (levels e' ! i) = trading (levels e ! i)"
proof -
  obtain k where k: "k < length (levels e)" "level_index (levels e) (cr_level_id ev) = Inr k" "cr_level_id ev = k + 1"
    by (rule eligible_level [OF lad el])
  then have ki: "k \<noteq> i" using i(2) by auto
  show ?thesis
  proof (cases "cr_event_type ev")
    case C_ENTRY
    then have "open_hedge e k t = Inr e'" using x k(2) by (simp add: execute_crossing_def)
    then show ?thesis by (cases rule: open_hedge_cases) (simp_all add: ki)
  next
    case C_TP
    then have "take_profit e k t = Inr e'" using x k(2) by (simp add: execute_crossing_def)
    then show ?thesis
    proof (cases rule: take_profit_cases)
      case (1 ls profit)
      have "map trading ls = map trading (levels e)" using settle_sources_trading [OF 1(1)] .
      then have "trading (ls ! i) = trading (levels e ! i)" using i(1) by (metis length_map nth_map)
      then show ?thesis by (simp add: 1(2) ki)
    qed
  next
    case C_STOP
    then have "stop_hedge e k t = Inr e'" using x k(2) by (simp add: execute_crossing_def)
    then show ?thesis by (cases rule: stop_hedge_cases) (simp add: ki)
  next
    case C_BREAKEVEN
    then have "breakeven_hedge e k t = Inr e'" using x k(2) by (simp add: execute_crossing_def)
    then show ?thesis by (cases rule: breakeven_hedge_cases) (simp add: ki)
  qed
qed

lemma open_books:
  assumes "open_hedge e k t = Inr e'" "state (levels e' ! k) = ACTIVE" "k < length (levels e)" "state (levels e ! k) = READY"
  shows "ev_quantity (last (events (ledger e'))) = active_quantity (levels e' ! k)"
  using assms
  by (auto simp: open_hedge_def open_floor_hedge_def Let_def set_level_def open_level_def record_defs append_event_def
      split: if_splits lock_policy.splits)

lemma execute_opens:
  assumes e: "laddered e" and el: "ev \<in> set (eligible_crossings e p c dir)" and x: "execute_crossing e ev t = Inr e'"
    and k: "k < length (levels e)" "cr_level_id ev = k + 1" and st: "state (levels e' ! k) = ACTIVE"
  shows "cr_event_type ev = C_ENTRY \<and> sized \<lparr>fi_before = e, fi_trigger = ev, fi_after = e'\<rparr> k
    (active_quantity (levels e' ! k)) (active_recovery_allocations (levels e' ! k))"
proof -
  have lad: "ladder (levels e)" using e by (simp add: laddered_def)
  have ix: "level_index (levels e) (cr_level_id ev) = Inr k" using k by (simp add: level_index_def)
  have target: "0 \<le> dsum (map snd (recovery_allocations_for e l))" for l
    using e by (intro allocation_target_nonneg) (simp add: laddered_def)
  show ?thesis
  proof (cases "cr_event_type ev")
    case C_ENTRY
    obtain k' where "k' < length (levels e)" "level_index (levels e) (cr_level_id ev) = Inr k'"
      "state (levels e ! k') = READY" by (rule eligible_level [OF lad el]) (use C_ENTRY in auto)
    then have ready: "state (levels e ! k) = READY" using ix C_ENTRY by simp
    have o: "open_hedge e k t = Inr e'" using C_ENTRY x ix by (simp add: execute_crossing_def)
    note b = open_books [OF o st k(1) ready]
    from o show ?thesis
      by (cases rule: open_hedge_cases) (use k(1) st b target C_ENTRY in \<open>auto simp: sized_def Let_def open_level_def booked_def\<close>)
  next
    case C_TP
    then have "take_profit e k t = Inr e'" using x ix by (simp add: execute_crossing_def)
    then show ?thesis
    proof (cases rule: take_profit_cases)
      case (1 ls profit)
      have "length ls = length (levels e)" using settle_sources_geometry [OF 1(1)] by (rule map_eq_imp_length_eq)
      with 1(2) st k(1) show ?thesis by (simp add: paid_level_def)
    qed
  next
    case C_STOP
    then have "stop_hedge e k t = Inr e'" using x ix by (simp add: execute_crossing_def)
    then show ?thesis by (cases rule: stop_hedge_cases) (use st k(1) in \<open>simp add: stop_level_def\<close>)
  next
    case C_BREAKEVEN
    then have "breakeven_hedge e k t = Inr e'" using x ix by (simp add: execute_crossing_def)
    then show ?thesis by (cases rule: breakeven_hedge_cases) (use st k(1) in \<open>simp add: released_level_def\<close>)
  qed
qed

lemma tp_books:
  assumes "take_profit e k t = Inr e'" "k < length (levels e)"
  shows "let l = levels e ! k; ev = last (events (ledger e')) in ev_event_type ev = TP \<and> ev_level_id ev = level_id l
    \<and> ev_price ev = tp_price l \<and> ev_quantity ev = active_quantity l
    \<and> ev_realized_pnl ev = dmul (active_quantity l) (tp_distance l) \<and> ev_zone_profit_component ev = option_budget l
    \<and> ev_recovery_profit_component ev = dsum (map snd (active_recovery_allocations l))
    \<and> ev_recovery_allocations ev = active_recovery_allocations l"
proof -
  let ?l = "levels e ! k"
  obtain ls where ls: "r_foldl (settle_source (recovery_mode (config e))) (levels e) (active_recovery_allocations ?l) = Inr ls"
    using assms(1) by (auto simp: take_profit_def Let_def)
  have "map geometry ls = map geometry (levels e)" by (rule settle_sources_geometry [OF ls])
  then have "geometry (ls ! k) = geometry ?l" using assms(2) by (metis length_map nth_map)
  then have "level_id (ls ! k) = level_id ?l" "tp_price (ls ! k) = tp_price ?l" "option_budget (ls ! k) = option_budget ?l"
    by (simp_all add: geometry_def)
  with assms(1) ls show ?thesis by (auto simp: take_profit_def Let_def record_tp_def append_event_def)
qed

lemma tp_booked_by_take_profit:
  assumes "execute_crossing e ev t = Inr e'" "ev_event_type (last (events (ledger e'))) = TP"
  shows "cr_event_type ev = C_TP"
  using assms
  by (cases "cr_event_type ev"; cases "lock_policy (config e)")
     (auto simp: execute_crossing_def open_hedge_def open_floor_hedge_def stop_hedge_def breakeven_hedge_def Let_def
       set_level_def record_defs append_event_def split: if_splits)

text \<open>What a take profit owes to the entry that opened its hedge: the state of the engine before that entry fixes
  budget, allocations and target.\<close>

definition pays_target :: "firing \<Rightarrow> ledger_event \<Rightarrow> bool" where
  "pays_target opening ev \<longleftrightarrow> (let
     l = levels (fi_before opening) ! (ev_level_id ev - 1);
     allocs = recovery_allocations_for (fi_before opening) l;
     target = dsum (map snd allocs)
   in level_id l = ev_level_id ev \<and> 0 \<le> target
     \<and> \<bar>ev_realized_pnl ev - (option_budget l + target)\<bar> \<le> (option_budget l + target) / (5 * 10 ^ 26)
     \<and> ev_zone_profit_component ev = option_budget l \<and> ev_recovery_profit_component ev = target
     \<and> ev_recovery_allocations ev = allocs \<and> ev_price ev = tp_price l
     \<and> ev_quantity ev = ev_quantity (booked opening))"

lemma sized_pays:
  assumes e: "ladder (levels e)" and k: "k < length (levels e)" and r: "take_profit e k t = Inr e'"
    and s: "sized f k (active_quantity (levels e ! k)) (active_recovery_allocations (levels e ! k))"
    and g: "geometries (fi_before f) = geometries e"
  shows "pays_target f (last (events (ledger e')))" "ev_level_id (last (events (ledger e'))) = k + 1"
proof -
  let ?l = "levels (fi_before f) ! k" and ?ev = "last (events (ledger e'))" and ?as = "active_recovery_allocations (levels e ! k)"
  have geo: "geometry ?l = geometry (levels e ! k)"
    using geometries_nth [of e "fi_before f" k] g k by simp
  then have same: "level_id ?l = k + 1" "tp_price ?l = tp_price (levels e ! k)" "option_budget ?l = option_budget (levels e ! k)"
      "tp_distance ?l = tp_distance (levels e ! k)" "0 < tp_distance ?l" "0 \<le> option_budget ?l"
    using ladder_nth [OF e k] by (simp_all add: geometry_def tp_distance_def)
  have b: "ev_level_id ?ev = k + 1" "ev_price ?ev = tp_price (levels e ! k)" "ev_quantity ?ev = active_quantity (levels e ! k)"
      "ev_realized_pnl ?ev = dmul (active_quantity (levels e ! k)) (tp_distance ?l)"
      "ev_zone_profit_component ?ev = option_budget (levels e ! k)" "ev_recovery_profit_component ?ev = dsum (map snd ?as)"
      "ev_recovery_allocations ?ev = ?as"
    using tp_books [OF r k] ladder_nth(1) [OF e k] same(4) by (simp_all add: Let_def)
  have sz: "?as = recovery_allocations_for (fi_before f) ?l" "0 \<le> dsum (map snd ?as)"
      "active_quantity (levels e ! k) = dquot (rnd (option_budget ?l + dsum (map snd ?as))) (tp_distance ?l)"
      "ev_quantity (booked f) = active_quantity (levels e ! k)"
    using s unfolding sized_def Let_def ddiv_Inr dquot_def dadd_def by (blast, blast, blast, blast)
  have err: "\<bar>dmul (active_quantity (levels e ! k)) (tp_distance ?l) - (option_budget ?l + dsum (map snd ?as))\<bar>
      \<le> (option_budget ?l + dsum (map snd ?as)) / (5 * 10 ^ 26)"
    unfolding sz(3) using same(5,6) sz(2) by (intro sized_profit_error) simp_all
  show "ev_level_id ?ev = k + 1" by (rule b(1))
  show "pays_target f ?ev"
    using err b same sz(2,4) sz(1) [symmetric] by (simp add: pays_target_def Let_def)
qed

definition pays_so_far :: "firing list \<Rightarrow> bool" where
  "pays_so_far h \<longleftrightarrow> (\<forall>i < length h. ev_event_type (booked (h ! i)) = TP
     \<longrightarrow> (\<exists>j. opened_by (take i h) j (ev_level_id (booked (h ! i))) \<and> pays_target (h ! j) (booked (h ! i))))"

lemma history_inv:
  assumes "engine_history e0 h e" and "laddered e0" "none_active (levels e0)"
  shows "open_hedges e0 h e \<and> pays_so_far h"
  using assms
proof (induction rule: engine_history.induct)
  case Start
  then show ?case by (simp add: open_hedges_def none_active_def pays_so_far_def)
next
  case (Cross h e ev p c dir t e')
  let ?f = "\<lparr>fi_before = e, fi_trigger = ev, fi_after = e'\<rparr>"
  have inv: "laddered e" "geometries e = geometries e0" "\<forall>f \<in> set h. geometries (fi_before f) = geometries e0"
      "\<And>k. k < length (levels e) \<Longrightarrow> state (levels e ! k) = ACTIVE \<Longrightarrow> \<exists>j. opened_by h j (k + 1)
        \<and> sized (h ! j) k (active_quantity (levels e ! k)) (active_recovery_allocations (levels e ! k))"
    and pays: "pays_so_far h"
    using Cross.IH Cross.prems by (simp_all add: open_hedges_def)
  have lad: "ladder (levels e)" using inv(1) by (simp add: laddered_def)
  have geo: "geometries e' = geometries e" using execute_geometries [OF Cross(3)] .
  have open_after: "\<exists>j. opened_by (h @ [?f]) j (k + 1)
      \<and> sized ((h @ [?f]) ! j) k (active_quantity (levels e' ! k)) (active_recovery_allocations (levels e' ! k))"
    if k: "k < length (levels e')" "state (levels e' ! k) = ACTIVE" for k
  proof (cases "cr_level_id ev = k + 1")
    case True
    with execute_opens [OF inv(1) Cross(2,3) _ True k(2)] geometries_nth(2) [OF geo k(1)]
    show ?thesis by (intro exI [of _ "length h"]) (simp add: opened_by_def)
  next
    case False
    have kl: "k < length (levels e)" using geometries_nth(2) [OF geo k(1)] .
    have "trading (levels e' ! k) = trading (levels e ! k)" by (rule execute_others [OF lad Cross(2,3) kl False])
    with k(2) have "state (levels e ! k) = ACTIVE" "active_quantity (levels e' ! k) = active_quantity (levels e ! k)"
        "active_recovery_allocations (levels e' ! k) = active_recovery_allocations (levels e ! k)"
      by (simp_all add: trading_def)
    with inv(4) [OF kl] obtain j where "opened_by h j (k + 1)"
        "sized (h ! j) k (active_quantity (levels e' ! k)) (active_recovery_allocations (levels e' ! k))" by auto
    with False show ?thesis by (intro exI [of _ j]) (auto simp: opened_by_def nth_append less_Suc_eq)
  qed
  have now: "\<exists>j. opened_by h j (ev_level_id (booked ?f)) \<and> pays_target (h ! j) (booked ?f)"
    if tp: "ev_event_type (booked ?f) = TP"
  proof -
    have ty: "cr_event_type ev = C_TP" using tp_booked_by_take_profit [OF Cross(3)] tp by (simp add: booked_def)
    obtain k where k: "k < length (levels e)" "level_index (levels e) (cr_level_id ev) = Inr k" "state (levels e ! k) = ACTIVE"
      by (rule eligible_level [OF lad Cross(2)]) (use ty in auto)
    have r: "take_profit e k t = Inr e'" using Cross(3) k(2) ty by (simp add: execute_crossing_def)
    obtain j where j: "opened_by h j (k + 1)"
        "sized (h ! j) k (active_quantity (levels e ! k)) (active_recovery_allocations (levels e ! k))"
      using inv(4) [OF k(1,3)] by blast
    have "geometries (fi_before (h ! j)) = geometries e" using inv(2,3) j(1) by (simp add: opened_by_def)
    from sized_pays [OF lad k(1) r j(2) this] j(1) show ?thesis by (auto simp: booked_def)
  qed
  have "pays_so_far (h @ [?f])"
    unfolding pays_so_far_def
  proof (intro allI impI)
    fix i assume i: "i < length (h @ [?f])" and tp: "ev_event_type (booked ((h @ [?f]) ! i)) = TP"
    show "\<exists>j. opened_by (take i (h @ [?f])) j (ev_level_id (booked ((h @ [?f]) ! i)))
        \<and> pays_target ((h @ [?f]) ! j) (booked ((h @ [?f]) ! i))"
    proof (cases "i < length h")
      case True
      with pays tp obtain j where j: "opened_by (take i h) j (ev_level_id (booked (h ! i)))" "pays_target (h ! j) (booked (h ! i))"
        unfolding pays_so_far_def by (auto simp: nth_append)
      then have "j < length h" by (simp add: opened_by_def)
      with j True show ?thesis by (intro exI [of _ j]) (simp add: nth_append)
    next
      case False
      with i have i: "i = length h" by simp
      with now tp obtain j where j: "opened_by h j (ev_level_id (booked ?f))" "pays_target (h ! j) (booked ?f)" by auto
      then have "j < length h" by (simp add: opened_by_def)
      with j i show ?thesis by (intro exI [of _ j]) (simp add: nth_append)
    qed
  qed
  moreover have "open_hedges e0 (h @ [?f]) e'"
    using laddered_execute [OF inv(1) Cross(2,3)] geo inv(2,3) open_after by (simp add: open_hedges_def)
  ultimately show ?case by blast
next
  case (Arm h e p)
  have "levels (arm_ready_levels (e\<lparr>previous_price := Some p\<rparr>) p) = map (arm_level p) (levels e)"
    by (simp add: arm_ready_levels_def)
  moreover have "laddered (arm_ready_levels (e\<lparr>previous_price := Some p\<rparr>) p)"
    using Arm by (intro laddered_arm) (simp add: open_hedges_def)
  ultimately show ?case using Arm by (simp add: open_hedges_def geometries_def comp_def)
qed

text \<open>C16. A take profit pays what its hedge was sized for. On a ladder of levels and any price path, in every
  recovery mode and lock policy, with any other crossings and ticks between entry and exit: each take profit
  event of the ledger closes the hedge that the last entry of its level opened. It sells the whole quantity of
  that entry, at the level's take profit price; its realised profit equals the level's option budget plus the
  recovery target which the engine's debts fixed at that entry, up to a relative error of 2e-27; and the event
  splits it into exactly these two components, with the allocations that make up the target.\<close>

theorem take_profit_pays_target:
  assumes "mk_hedge_engine s n mode tp_count policy rate = Inr e" and "ladder (levels e)"
    and "engine_run e prices = Inr e'"
  shows "\<exists>h. engine_history e h e' \<and> events (ledger e') = map booked h
    \<and> (\<forall>i < length h. let ev = events (ledger e') ! i in ev_event_type ev = TP
        \<longrightarrow> (\<exists>j. opened_by (take i h) j (ev_level_id ev) \<and> pays_target (h ! j) ev))"
proof -
  obtain c where ls: "generate_virtual_levels s c rate = Inr (levels e)" "ledger e = empty_ledger"
    using assms(1) by (auto simp: mk_hedge_engine_def mk_strategy_config_def)
  have "state l = READY \<and> recovery_debt l = 0 \<and> active_quantity l = 0" if "l \<in> set (levels e)" for l
    using that generate_levels_nth [OF ls(1)] by (auto simp: in_set_conv_nth fresh_level_def)
  then have fresh: "laddered e" "none_active (levels e)" using assms(2) by (auto simp: laddered_def none_active_def)
  obtain h where h: "engine_history e h e'" using engine_run_history [OF assms(3)] by blast
  have b: "events (ledger e') = map booked h"
    using history_books [OF h] ls(2) by (simp add: empty_ledger_def)
  from history_inv [OF h fresh] h show ?thesis
    unfolding b pays_so_far_def Let_def by (intro exI [of _ h]) simp
qed

theorem take_profit_pays_target_witness:
  "\<exists>e e' h. demo_engine = Inr e \<and> engine_run e [3010, 2990, 3005, 2940] = Inr e' \<and> events (ledger e') = map booked h
     \<and> (\<exists>i < length h. ev_event_type (events (ledger e') ! i) = TP
          \<and> (\<exists>j. opened_by (take i h) j 1 \<and> pays_target (h ! j) (events (ledger e') ! i)))"
proof -
  obtain e where e: "demo_engine = Inr e" "levels e = demo_levels" using demo_engine_ok by blast
  have lad: "ladder (levels e)" using demo_ladder e(2) by simp
  have "(case r_bind demo_engine (\<lambda>e. engine_run e [3010, 2990, 3005, 2940]) of
      Inr e' \<Rightarrow> map (\<lambda>ev. (ev_event_type ev, ev_level_id ev)) (events (ledger e')) | Inl _ \<Rightarrow> [])
    = [(ENTRY, 1), (STOP, 1), (ENTRY, 1), (TP, 1), (ENTRY, 2)]"
    by code_simp
  then obtain e' where e': "engine_run e [3010, 2990, 3005, 2940] = Inr e'"
      "map (\<lambda>ev. (ev_event_type ev, ev_level_id ev)) (events (ledger e')) = [(ENTRY, 1), (STOP, 1), (ENTRY, 1), (TP, 1), (ENTRY, 2)]"
    unfolding e(1) by (auto split: sum.splits)
  obtain h where h: "events (ledger e') = map booked h"
      "\<forall>i < length h. let ev = events (ledger e') ! i in ev_event_type ev = TP
        \<longrightarrow> (\<exists>j. opened_by (take i h) j (ev_level_id ev) \<and> pays_target (h ! j) ev)"
    using take_profit_pays_target [OF e(1) [unfolded demo_engine_def] lad e'(1)] by blast
  have len: "length (events (ledger e')) = 5" using arg_cong [OF e'(2), of length] by simp
  then have "3 < length h" using h(1) by simp
  moreover have "ev_event_type (events (ledger e') ! 3) = TP" "ev_level_id (events (ledger e') ! 3) = 1"
    using arg_cong [OF e'(2), of "\<lambda>xs. xs ! 3"] len by simp_all
  ultimately show ?thesis using h e(1) e'(1) by (metis (no_types, lifting))
qed

section \<open>The accounting run\<close>

text \<open>The callback of a step does not influence the engine.\<close>

lemma process_loop_callback:
  "r_bind (process_loop cb p c dir t e cur ex pr acc) (\<lambda>(e', ex', _). Inr (e', ex')) =
   r_bind (process_loop cb' p c dir t e cur ex pr acc') (\<lambda>(e', ex', _). Inr (e', ex'))"
proof (induction cb p c dir t e cur ex pr acc arbitrary: acc' rule: process_loop.induct)
  case (1 cb p c dir t e cur ex pr acc)
  show ?case
  proof (cases "candidates e p c dir cur pr = []")
    case True
    then show ?thesis by (simp add: process_loop.simps Let_def)
  next
    case False
    let ?ev = "nearest (candidates e p c dir cur pr) dir"
    show ?thesis
    proof (cases "execute_crossing e ?ev t")
      case (Inl x)
      with False show ?thesis by (simp add: process_loop.simps [of cb] process_loop.simps [of cb'] Let_def)
    next
      case (Inr e1)
      with 1 [OF refl False refl Inr] False show ?thesis
        by (simp add: process_loop.simps [of cb] process_loop.simps [of cb'] Let_def)
    qed
  qed
qed

lemma transition_callback:
  "r_bind (process_transition cb e p c t acc) (\<lambda>(e', ex', _). Inr (e', ex')) =
   r_bind (process_transition cb' e p c t acc') (\<lambda>(e', ex', _). Inr (e', ex'))"
  unfolding process_transition_def by (auto intro: process_loop_callback)

lemma step_callback:
  "r_bind (step cb e p t acc) (\<lambda>(e', _, _). Inr e') = r_bind (step cb' e p t acc') (\<lambda>(e', _, _). Inr e')"
proof (cases "previous_price e")
  case (Some prev)
  with transition_callback [of cb e prev p t acc cb' acc'] show ?thesis
    by (auto simp: step_def Let_def split: sum.splits)
qed (simp add: step_def)

text \<open>What a transition adds to the snapshots: nothing, or a list that ends with a snapshot of
  the engine as the transition leaves it.\<close>

definition recorded :: "int \<Rightarrow> hedge_engine \<Rightarrow> hedge_engine \<Rightarrow> accounting_snapshot list \<Rightarrow> bool" where
  "recorded t e e' new \<longleftrightarrow> (\<forall>s \<in> set new. as_tick_index s = t) \<and> (new = [] \<longrightarrow> e' = e)
    \<and> (new \<noteq> [] \<longrightarrow> (\<exists>q n. last new = snapshot (ledger e') (spread e') (levels e') q t n))"

lemma recorded_Cons:
  assumes "recorded t e1 e' new"
  shows "recorded t e e' (snapshot (ledger e1) (spread e1) (levels e1) q t n # new)"
  using assms by (auto simp: recorded_def snapshot_def Let_def)

lemma process_loop_recorded:
  assumes "process_loop cb p c dir t e cur ex pr acc = Inr (e', ex', acc')" and "cb = record_crossing t"
  shows "\<exists>new. acc' = acc @ new \<and> recorded t e e' new"
  using assms
proof (induction cb p c dir t e cur ex pr acc rule: process_loop.induct)
  case (1 cb p c dir t e cur ex pr acc)
  show ?case
  proof (cases "candidates e p c dir cur pr = []")
    case True
    with 1(2) show ?thesis by (simp add: process_loop.simps Let_def recorded_def)
  next
    case False
    let ?ev = "nearest (candidates e p c dir cur pr) dir"
    obtain e1 where e1: "execute_crossing e ?ev t = Inr e1"
      "process_loop cb p c dir t e1 (cr_price ?ev) (ex @ [?ev]) (key_of ?ev # pr)
        (cb e1 ?ev acc) = Inr (e', ex', acc')"
      using 1(2) False by (subst (asm) process_loop.simps) (auto simp: Let_def)
    obtain new where new: "acc' = cb e1 ?ev acc @ new" "recorded t e1 e' new"
      using 1(1) [OF refl False refl e1 1(3)] by blast
    from new(1) recorded_Cons [OF new(2), of e] show ?thesis
      unfolding 1(3) record_crossing_def by (metis append.assoc append_Cons append_Nil)
  qed
qed

lemma transition_recorded:
  assumes "process_transition (record_crossing t) e p c t acc = Inr (e', ex', acc')"
  shows "\<exists>new. acc' = acc @ new \<and> recorded t e e' new"
  using assms process_loop_recorded [OF _ refl] by (auto simp: process_transition_def recorded_def split: if_splits)

text \<open>The final snapshot shows the accounts of the engine at the last price.\<close>

definition shows_engine :: "hedge_engine \<Rightarrow> dec \<Rightarrow> int \<Rightarrow> accounting_snapshot \<Rightarrow> bool" where
  "shows_engine e price t s \<longleftrightarrow> (\<exists>n. s = snapshot (ledger e) (spread e) (levels e) price t n)"

lemma filter_active_arm:
  "map (level_open_pnl q) (filter (\<lambda>l. state l = ACTIVE) (map (arm_level p) ls))
     = map (level_open_pnl q) (filter (\<lambda>l. state l = ACTIVE) ls)"
  by (induction ls) (auto simp: level_open_pnl_def)

lemma snapshot_arm:
  "snapshot g s (levels (arm_ready_levels (e\<lparr>previous_price := v\<rparr>) p)) q t n = snapshot g s (levels e) q t n"
proof -
  have debts: "map recovery_debt (map (arm_level p) ls) = map recovery_debt ls" for ls by (induction ls) simp_all
  have lv: "levels (arm_ready_levels (e\<lparr>previous_price := v\<rparr>) p) = map (arm_level p) (levels e)"
    by (simp add: arm_ready_levels_def)
  show ?thesis unfolding snapshot_def open_pnl_def lv filter_active_arm debts ..
qed

lemma accounting_step_snapshots:
  assumes "accounting_step (e, snaps) (t, p) = Inr (e', snaps')" and "\<forall>s \<in> set snaps. as_tick_index s < int t"
  shows "quiet_step e (t, p) = Inr e' \<and> (\<forall>s \<in> set snaps'. as_tick_index s < int (Suc t))
    \<and> snaps' \<noteq> [] \<and> shows_engine e' p (int t) (last snaps')"
proof -
  obtain evs snaps1 where st: "step (record_crossing (int t)) e p (int t) snaps = Inr (e', evs, snaps1)"
    and snaps': "snaps' = (if snaps1 = [] \<or> as_tick_index (last snaps1) \<noteq> int t \<or> as_price (last snaps1) \<noteq> p
       then snaps1 @ [snapshot (ledger e') (spread e') (levels e') p (int t) None] else snaps1)"
    using assms(1) by (auto simp: accounting_step_def Let_def)
  have q: "quiet_step e (t, p) = Inr e'"
    using step_callback [of "record_crossing (int t)" e p "int t" snaps "\<lambda>_ _ u. u" "()"] st
    by (simp add: quiet_step_def)
  obtain new where new: "snaps1 = snaps @ new" "\<forall>s \<in> set new. as_tick_index s = int t"
    "new \<noteq> [] \<longrightarrow> (\<exists>q n. last new = snapshot (ledger e') (spread e') (levels e') q (int t) n)"
  proof (cases "previous_price e")
    case None
    with st that [of "[]"] show ?thesis by (auto simp: step_def)
  next
    case (Some prev)
    with st obtain e1 ex where e1: "process_transition (record_crossing (int t)) e prev p (int t) snaps = Inr (e1, ex, snaps1)"
      "e' = arm_ready_levels (e1\<lparr>previous_price := Some p\<rparr>) p"
      by (auto simp: step_def Let_def)
    from transition_recorded [OF e1(1)] show ?thesis
      using that unfolding e1(2) snapshot_arm recorded_def by auto
  qed
  have "shows_engine e' p (int t) (last snaps')"
  proof (cases "snaps1 = [] \<or> as_tick_index (last snaps1) \<noteq> int t \<or> as_price (last snaps1) \<noteq> p")
    case True
    then show ?thesis unfolding snaps' shows_engine_def by auto
  next
    case False
    have "new \<noteq> []"
    proof
      assume "new = []"
      with False new(1) have "last snaps1 \<in> set snaps" by simp
      with assms(2) False show False by fastforce
    qed
    with new False obtain u n where "last snaps1 = snapshot (ledger e') (spread e') (levels e') u (int t) n" by auto
    moreover from this False have "u = p" by (simp add: snapshot_def Let_def)
    ultimately show ?thesis using False unfolding snaps' shows_engine_def by auto
  qed
  moreover have "\<forall>s \<in> set snaps'. as_tick_index s < int (Suc t)"
    using new assms(2) by (fastforce simp: snaps' snapshot_def Let_def split: if_splits)
  ultimately show ?thesis using q unfolding snaps' by auto
qed

lemma accounting_fold:
  assumes "r_foldl accounting_step (e, snaps) (enumerate n prices) = Inr (e', snaps')"
    and "\<forall>s \<in> set snaps. as_tick_index s < int n" and "prices \<noteq> []"
  shows "r_foldl quiet_step e (enumerate n prices) = Inr e' \<and> snaps' \<noteq> []
    \<and> (\<exists>t. shows_engine e' (last prices) t (last snaps'))"
  using assms
proof (induction prices arbitrary: e snaps n)
  case (Cons p ps)
  then obtain e1 s1 where e1: "accounting_step (e, snaps) (n, p) = Inr (e1, s1)"
    "r_foldl accounting_step (e1, s1) (enumerate (Suc n) ps) = Inr (e', snaps')"
    by auto
  from accounting_step_snapshots [OF e1(1) Cons.prems(2)]
  have s1: "quiet_step e (n, p) = Inr e1" "\<forall>s \<in> set s1. as_tick_index s < int (Suc n)"
    "s1 \<noteq> []" "shows_engine e1 p (int n) (last s1)" by auto
  show ?case
  proof (cases "ps = []")
    case True
    with e1 s1 show ?thesis by auto
  next
    case False
    with Cons.IH [OF e1(2) s1(2)] s1(1) show ?thesis by auto
  qed
qed simp

lemma accounting_step_ok:
  assumes "engine_inv e"
  shows "\<exists>e' snaps'. accounting_step (e, snaps) x = Inr (e', snaps') \<and> engine_inv e'
    \<and> spread e' = spread e"
proof -
  obtain e1 evs s1 where "step (record_crossing (int (fst x)) ) e (snd x) (int (fst x)) snaps = Inr (e1, evs, s1)"
    "engine_inv e1" "config e1 = config e" "spread e1 = spread e"
    using step_inv [OF assms, of "record_crossing (int (fst x))" "snd x" "int (fst x)" snaps] by blast
  then show ?thesis by (simp add: accounting_step_def Let_def)
qed

lemma accounting_fold_ok:
  "engine_inv e \<Longrightarrow> \<exists>e' snaps'. r_foldl accounting_step (e, snaps) xs = Inr (e', snaps') \<and> engine_inv e' \<and> spread e' = spread e"
proof (induction xs arbitrary: e snaps)
  case (Cons x xs)
  obtain e1 s1 where "accounting_step (e, snaps) x = Inr (e1, s1)" "engine_inv e1" "spread e1 = spread e"
    using accounting_step_ok [OF Cons.prems, of snaps x] by blast
  with Cons.IH [of e1 s1] show ?case by simp
qed simp

lemma fold_min_le:
  "0 \<le> fold min xs (y::dec) \<longleftrightarrow> 0 \<le> y \<and> (\<forall>x \<in> set xs. 0 \<le> x)"
  by (induction xs arbitrary: y) auto

lemma floor_pass_iff:
  "snaps \<noteq> [] \<Longrightarrow> build_result g s ls prices snaps = Inr r \<Longrightarrow>
    floor_pass (metrics r) \<longleftrightarrow> (\<forall>a \<in> set snaps. 0 \<le> as_combined_terminal_value_pnl a)"
  by (cases snaps) (auto simp: build_result_def Let_def fold_min_le)

text \<open>C12. The accounting run. On a ladder of levels and a non-empty path, \<open>run_with_accounting\<close>
  returns a result whose events are those of the plain run; its final combined P&L is option payoff
  plus realised plus open hedge P&L of the engine at the last price; the consumed premium is
  the engine's gross stop loss, within the credit; and the floor passes exactly if no snapshot has
  a negative combined P&L.\<close>

theorem accounting_run_agrees:
  assumes "mk_hedge_engine s n mode tp_count policy rate = Inr e"
    and "ladder (levels e)" and "valid_spread s" and "prices \<noteq> []"
  shows "\<exists>e' r. engine_run e prices = Inr e' \<and> run_with_accounting e prices = Inr r
    \<and> sr_events r = events (ledger e')
    \<and> combined_pnl (metrics r) = dadd (dadd (expiry_pnl s (last prices)) (realized_hedge_pnl (ledger e')))
         (open_pnl (levels e') (last prices))
    \<and> premium_budget_consumed (metrics r) = gross_stop_losses (ledger e')
    \<and> premium_budget_consumed (metrics r) \<le> premium_credit s
    \<and> floor_pass (metrics r) = (\<forall>a \<in> set (sr_snapshots r). 0 \<le> as_combined_terminal_value_pnl a)"
proof -
  have "0 \<le> premium_credit s" and e: "spread e = s" "previous_price e = None" "ledger e = empty_ledger"
    using assms(1,3) by (auto simp: valid_spread_def mk_hedge_engine_def)
  obtain e' snaps where f: "r_foldl accounting_step (e, []) (enumerate 0 prices) = Inr (e', snaps)"
    "engine_inv e'" "spread e' = s"
    using accounting_fold_ok [OF fresh_engine_inv [OF assms(1,2) \<open>0 \<le> premium_credit s\<close>]] e by blast
  obtain t where g: "engine_run e prices = Inr e'" "snaps \<noteq> []" "shows_engine e' (last prices) t (last snaps)"
    using accounting_fold [OF f(1) _ assms(4)] by (auto simp: engine_run_def)
  obtain r where r: "build_result (ledger e') s (levels e') prices snaps = Inr r"
    using g(2) by (auto simp: build_result_def Let_def)
  have "run_with_accounting e prices = Inr r"
    using f r e assms(4) by (simp add: run_with_accounting_def empty_ledger_def)
  moreover have "gross_stop_losses (ledger e') \<le> premium_credit s"
    using f(2,3) by (simp add: engine_inv_def core_inv_def used_stop_budget_def initial_stop_budget_def)
  ultimately show ?thesis
    using floor_pass_iff [OF g(2) r] r g f(3)
    by (auto simp: build_result_def Let_def shows_engine_def snapshot_def)
qed

theorem accounting_run_agrees_witness:
  "\<exists>e e' r. demo_engine = Inr e \<and> engine_run e [3010, 2990, 3005, 2940] = Inr e'
     \<and> run_with_accounting e [3010, 2990, 3005, 2940] = Inr r \<and> sr_events r = events (ledger e')"
proof -
  obtain e where e: "demo_engine = Inr e" "levels e = demo_levels" using demo_engine_ok by blast
  have "ladder (levels e)" "valid_spread demo_spread" using demo_ladder e(2) by simp (code_simp)
  from accounting_run_agrees [OF e(1) [unfolded demo_engine_def] this, of "[3010, 2990, 3005, 2940]"] e
  show ?thesis by auto
qed

end
