(* ===== verification/Client_Order_Ids.thy ===== *)
theory Client_Order_Ids
  imports Prelude
begin

text \<open>
  \<open>domain/client_order_ids.py\<close>: the compact order identifiers. \<open>render_id\<close> is \<open>__str__\<close>,
  \<open>parse_id\<close> is \<open>parse\<close>. No component of an identifier contains a hyphen, so a full match of the
  identifier pattern is a match of the seven hyphen-separated parts. The nonce of \<open>new\<close> comes
  from \<open>secrets\<close>; it is an argument here. The lemmas end in the two round trips.
\<close>

section \<open>Identifiers\<close>

datatype client_order_role = OPTION_LONG | OPTION_SHORT | HEDGE_ENTRY | HEDGE_TP | HEDGE_STOP | EMERGENCY_CLOSE

fun role_to_token :: "client_order_role \<Rightarrow> string" where
  "role_to_token OPTION_LONG = ''OL''"
| "role_to_token OPTION_SHORT = ''OS''"
| "role_to_token HEDGE_ENTRY = ''ENTRY''"
| "role_to_token HEDGE_TP = ''TP''"
| "role_to_token HEDGE_STOP = ''STOP''"
| "role_to_token EMERGENCY_CLOSE = ''EC''"

text \<open>The \<open>value\<close> of a role.\<close>

fun role_value :: "client_order_role \<Rightarrow> string" where
  "role_value OPTION_LONG = ''OPTION_LONG''"
| "role_value OPTION_SHORT = ''OPTION_SHORT''"
| "role_value HEDGE_ENTRY = ''HEDGE_ENTRY''"
| "role_value HEDGE_TP = ''HEDGE_TP''"
| "role_value HEDGE_STOP = ''HEDGE_STOP''"
| "role_value EMERGENCY_CLOSE = ''EMERGENCY_CLOSE''"

definition token_to_role :: "string \<Rightarrow> client_order_role option" where
  "token_to_role t = (if t = ''OL'' then Some OPTION_LONG
     else if t = ''OS'' then Some OPTION_SHORT
     else if t = ''ENTRY'' then Some HEDGE_ENTRY
     else if t = ''TP'' then Some HEDGE_TP
     else if t = ''STOP'' then Some HEDGE_STOP
     else if t = ''EC'' then Some EMERGENCY_CLOSE
     else None)"

definition digit_char :: "char \<Rightarrow> bool" where
  "digit_char c \<longleftrightarrow> 48 \<le> (of_char c :: nat) \<and> (of_char c :: nat) \<le> 57"

definition upper_letter :: "char \<Rightarrow> bool" where
  "upper_letter c \<longleftrightarrow> 65 \<le> (of_char c :: nat) \<and> (of_char c :: nat) \<le> 90"

definition lower_letter :: "char \<Rightarrow> bool" where
  "lower_letter c \<longleftrightarrow> 97 \<le> (of_char c :: nat) \<and> (of_char c :: nat) \<le> 122"

definition alnum_char :: "char \<Rightarrow> bool" where
  "alnum_char c \<longleftrightarrow> digit_char c \<or> upper_letter c \<or> lower_letter c"

definition hex_char :: "char \<Rightarrow> bool" where
  "hex_char c \<longleftrightarrow> digit_char c \<or> (65 \<le> (of_char c :: nat) \<and> (of_char c :: nat) \<le> 70)"

definition component_pattern :: "string \<Rightarrow> bool" where
  "component_pattern s \<longleftrightarrow> 1 \<le> length s \<and> length s \<le> 4 \<and> list_all alnum_char s"

definition nonce_pattern :: "string \<Rightarrow> bool" where
  "nonce_pattern s \<longleftrightarrow> 4 \<le> length s \<and> length s \<le> 6 \<and> list_all hex_char s"

definition digits_pattern :: "nat \<Rightarrow> string \<Rightarrow> bool" where
  "digits_pattern w s \<longleftrightarrow> length s = w \<and> list_all digit_char s"

text \<open>\<open>str.upper\<close> on ASCII; no other character becomes a hexadecimal digit.\<close>

definition upper_char :: "char \<Rightarrow> char" where
  "upper_char c = (if lower_letter c then char_of ((of_char c :: nat) - 32) else c)"

definition upper :: "string \<Rightarrow> string" where
  "upper s = map upper_char s"

text \<open>Decimal numerals: \<open>str(n)\<close>, the format \<open>{n:0wd}\<close>, and \<open>int(s)\<close> on digits.\<close>

definition digit_of :: "nat \<Rightarrow> char" where
  "digit_of d = char_of (48 + d)"

definition digit_value :: "char \<Rightarrow> nat" where
  "digit_value c = (of_char c :: nat) - 48"

fun nat_str :: "nat \<Rightarrow> string" where
  "nat_str n = (if n < 10 then [digit_of n] else nat_str (n div 10) @ [digit_of (n mod 10)])"

declare nat_str.simps [simp del]

definition pad_zero :: "nat \<Rightarrow> string \<Rightarrow> string" where
  "pad_zero w s = replicate (w - length s) (CHR ''0'') @ s"

definition format_int :: "nat \<Rightarrow> int \<Rightarrow> string" where
  "format_int w n = pad_zero w (nat_str (nat n))"

definition add_digit :: "nat \<Rightarrow> char \<Rightarrow> nat" where
  "add_digit n c = 10 * n + digit_value c"

definition digits_value :: "string \<Rightarrow> nat" where
  "digits_value s = foldl add_digit 0 s"

text \<open>Characters by their bits, which evaluates faster.\<close>

lemma digit_char_bits [code]:
  "digit_char (Char b0 b1 b2 b3 b4 b5 b6 b7) \<longleftrightarrow> \<not> b7 \<and> \<not> b6 \<and> b5 \<and> b4 \<and> (b3 \<longrightarrow> \<not> b2 \<and> \<not> b1)"
  by (simp add: digit_char_def of_char_Char)

lemma upper_letter_bits [code]:
  "upper_letter (Char b0 b1 b2 b3 b4 b5 b6 b7) \<longleftrightarrow> \<not> b7 \<and> b6 \<and> \<not> b5 \<and> (b4 \<longrightarrow> \<not> b3 \<or> \<not> b2 \<and> (\<not> b1 \<or> \<not> b0)) \<and> (b4 \<or> b3 \<or> b2 \<or> b1 \<or> b0)"
  by (simp add: upper_letter_def of_char_Char)

lemma lower_letter_bits [code]:
  "lower_letter (Char b0 b1 b2 b3 b4 b5 b6 b7) \<longleftrightarrow> \<not> b7 \<and> b6 \<and> b5 \<and> (b4 \<longrightarrow> \<not> b3 \<or> \<not> b2 \<and> (\<not> b1 \<or> \<not> b0)) \<and> (b4 \<or> b3 \<or> b2 \<or> b1 \<or> b0)"
  by (simp add: lower_letter_def of_char_Char)

lemma hex_char_bits [code]:
  "hex_char (Char b0 b1 b2 b3 b4 b5 b6 b7) \<longleftrightarrow> digit_char (Char b0 b1 b2 b3 b4 b5 b6 b7)
     \<or> \<not> b7 \<and> b6 \<and> \<not> b5 \<and> \<not> b4 \<and> \<not> b3 \<and> (b2 \<longrightarrow> \<not> b1 \<or> \<not> b0) \<and> (b2 \<or> b1 \<or> b0)"
  by (simp add: hex_char_def of_char_Char)

lemma digit_of_cases [code]:
  "digit_of d = (if d = 0 then CHR ''0'' else if d = 1 then CHR ''1'' else if d = 2 then CHR ''2'' else if d = 3 then CHR ''3''
     else if d = 4 then CHR ''4'' else if d = 5 then CHR ''5'' else if d = 6 then CHR ''6'' else if d = 7 then CHR ''7''
     else if d = 8 then CHR ''8'' else if d = 9 then CHR ''9'' else char_of (48 + d))"
  by (simp add: digit_of_def char_of_def bit_0)

lemma digit_value_bits [code]:
  "digit_value (Char b0 b1 b2 b3 b4 b5 b6 b7) = of_bool b0 + 2 * of_bool b1 + 4 * of_bool b2 + 8 * of_bool b3 + 16 * of_bool b4
     + 32 * of_bool b5 + 64 * of_bool b6 + 128 * of_bool b7 - 48"
  by (simp add: digit_value_def of_char_Char)

record client_order_id =
  strategy_instance :: string
  cycle :: int
  level :: int
  role :: client_order_role
  attempt :: int
  nonce :: string

definition render_id :: "client_order_id \<Rightarrow> string" where
  "render_id c = ''ECH-'' @ strategy_instance c @ ''-C'' @ format_int 4 (cycle c) @ ''-L'' @
     format_int 2 (level c) @ ''-'' @ role_to_token (role c) @ ''-A'' @ format_int 2 (attempt c) @
     ''-'' @ nonce c"

definition bounded_integer :: "int \<Rightarrow> int \<Rightarrow> string \<Rightarrow> 'a res \<Rightarrow> 'a res" where
  "bounded_integer v maximum field k = (if 0 \<le> v \<and> v \<le> maximum then k
     else Inl (ValueError (field @ '' must be between 0 and '' @ nat_str (nat maximum))))"

lemma bounded_integer_Inr [simp, guards]:
  "bounded_integer v maximum field k = Inr x \<longleftrightarrow> 0 \<le> v \<and> v \<le> maximum \<and> k = Inr x"
  by (auto simp: bounded_integer_def)

definition mk_client_order_id ::
    "string \<Rightarrow> int \<Rightarrow> int \<Rightarrow> client_order_role \<Rightarrow> int \<Rightarrow> string \<Rightarrow> client_order_id res" where
  [post_init]: "mk_client_order_id inst cyc lvl rl att nc =
     raise_when (\<not> component_pattern inst) ''strategy instance must be 1-4 alphanumeric characters''
    (bounded_integer cyc 9999 ''cycle''
    (bounded_integer lvl 99 ''level''
    (bounded_integer att 99 ''attempt''
    (raise_when (\<not> nonce_pattern (upper nc)) ''nonce must contain 4-6 hexadecimal characters''
    (let c = \<lparr>strategy_instance = inst, cycle = cyc, level = lvl, role = rl, attempt = att,
              nonce = upper nc\<rparr>
     in raise_when (36 < length (render_id c)) ''client order ID cannot exceed 36 characters'' (Inr c))))))"

text \<open>The pattern \<open>_CLIENT_ID_PATTERN\<close>.\<close>

fun split_dash :: "string \<Rightarrow> string list" where
  "split_dash [] = [[]]"
| "split_dash (c # s) = (if c = CHR ''-'' then [] # split_dash s
     else (case split_dash s of [] \<Rightarrow> [[c]] | p # ps \<Rightarrow> (c # p) # ps))"

definition led_by :: "char \<Rightarrow> string \<Rightarrow> bool" where
  "led_by c s \<longleftrightarrow> (case s of [] \<Rightarrow> False | d # _ \<Rightarrow> d = c)"

definition parse_id :: "string \<Rightarrow> client_order_id res" where
  "parse_id v = (case split_dash v of
       [ech, inst, cyc, lvl, tok, att, nc] \<Rightarrow>
         (if ech = ''ECH'' \<and> component_pattern inst \<and> led_by (CHR ''C'') cyc \<and> digits_pattern 4 (tl cyc)
             \<and> led_by (CHR ''L'') lvl \<and> digits_pattern 2 (tl lvl) \<and> token_to_role tok \<noteq> None
             \<and> led_by (CHR ''A'') att \<and> digits_pattern 2 (tl att) \<and> nonce_pattern nc
          then mk_client_order_id inst (int (digits_value (tl cyc))) (int (digits_value (tl lvl)))
                 (the (token_to_role tok)) (int (digits_value (tl att))) nc
          else Inl (ValueError ''invalid client order ID''))
     | _ \<Rightarrow> Inl (ValueError ''invalid client order ID''))"

section \<open>Numerals\<close>

lemma digit_value_of [simp]: "d < 10 \<Longrightarrow> digit_value (digit_of d) = d"
  by (simp add: digit_value_def digit_of_def)

lemma digit_char_of [simp]: "d < 10 \<Longrightarrow> digit_char (digit_of d)"
  by (simp add: digit_char_def digit_of_def)

lemma digit_of_value: "digit_char c \<Longrightarrow> digit_of (digit_value c) = c"
  by (simp add: digit_char_def digit_value_def digit_of_def)

lemma digit_value_less: "digit_char c \<Longrightarrow> digit_value c < 10"
  unfolding digit_char_def digit_value_def by linarith

lemma digit_of_0: "digit_of 0 = CHR ''0''"
  by code_simp

lemma digit_char_0 [simp]: "digit_char (CHR ''0'')"
  by code_simp

lemma digits_value_simps [simp]: "digits_value [] = 0" "digits_value (s @ [c]) = 10 * digits_value s + digit_value c"
  by (simp_all add: digits_value_def add_digit_def)

lemma nat_str_digits: "list_all digit_char (nat_str n)"
  by (induction n rule: nat_str.induct) (subst nat_str.simps, auto)

lemma digits_value_nat_str: "digits_value (nat_str n) = n"
proof (induction n rule: nat_str.induct)
  case (1 n)
  then show ?case
    using digits_value_simps(2) [of "[]" "digit_of n"] by (subst nat_str.simps) auto
qed

lemma digits_value_pad: "digits_value (replicate k (CHR ''0'') @ s) = digits_value s"
proof (induction k)
  case (Suc k)
  have "add_digit 0 (CHR ''0'') = 0" by (simp add: add_digit_def digit_value_def)
  with Suc show ?case by (simp add: digits_value_def)
qed simp

lemma length_nat_str: "n < 10 ^ w \<Longrightarrow> 0 < w \<Longrightarrow> length (nat_str n) \<le> w"
proof (induction w arbitrary: n)
  case (Suc w)
  show ?case
  proof (cases "n < 10")
    case True
    then show ?thesis by (subst nat_str.simps) simp
  next
    case False
    with Suc.prems have "n div 10 < 10 ^ w" "0 < w" by (auto intro: ccontr)
    with Suc.IH False show ?thesis by (subst nat_str.simps) simp
  qed
qed simp

lemma format_int_pattern:
  assumes "0 \<le> n" "n < 10 ^ w" "0 < w"
  shows "digits_pattern w (format_int w n)" "int (digits_value (format_int w n)) = n"
proof -
  have "nat n < 10 ^ w" using assms by (simp add: nat_less_iff)
  from length_nat_str [OF this assms(3)] nat_str_digits [of "nat n"] assms(1)
  show "digits_pattern w (format_int w n)" "int (digits_value (format_int w n)) = n"
    by (simp_all add: format_int_def pad_zero_def digits_pattern_def digits_value_pad digits_value_nat_str
        list_all_iff ball_Un)
qed

lemma pad_nat_str_snoc:
  assumes "d < 10"
  shows "pad_zero (Suc w) (nat_str (10 * n + d)) = (if n = 0 then replicate w (CHR ''0'') @ [digit_of d]
    else pad_zero w (nat_str n) @ [digit_of d])"
  using assms by (subst nat_str.simps) (auto simp: pad_zero_def)

lemma pad_nat_str_0: "0 < w \<Longrightarrow> pad_zero w (nat_str 0) = replicate w (CHR ''0'')"
  using digit_of_0 by (cases w) (simp_all add: pad_zero_def nat_str.simps [of 0] replicate_append_same)

lemma format_digits_value: "list_all digit_char s \<Longrightarrow> s \<noteq> [] \<Longrightarrow> pad_zero (length s) (nat_str (digits_value s)) = s"
proof (induction s rule: rev_induct)
  case (snoc c s)
  have c: "digit_char c" "digit_value c < 10" "digit_of (digit_value c) = c"
    using snoc.prems by (simp_all add: digit_value_less digit_of_value)
  show ?case
  proof (cases "s = []")
    case True
    with c show ?thesis using digits_value_simps(2) [of "[]" c] by (subst nat_str.simps) (simp add: pad_zero_def)
  next
    case False
    with snoc have ih: "pad_zero (length s) (nat_str (digits_value s)) = s" by simp
    have "digits_value s = 0 \<Longrightarrow> s = replicate (length s) (CHR ''0'')"
      using ih pad_nat_str_0 [of "length s"] False by simp
    with ih c show ?thesis by (auto simp: pad_nat_str_snoc)
  qed
qed simp

lemma format_int_value: "digits_pattern w s \<Longrightarrow> 0 < w \<Longrightarrow> format_int w (int (digits_value s)) = s"
  using format_digits_value [of s] by (auto simp: digits_pattern_def format_int_def)

lemma digits_value_bound: "list_all digit_char s \<Longrightarrow> digits_value s < 10 ^ length s"
proof (induction s rule: rev_induct)
  case (snoc c s)
  then have "digits_value s < 10 ^ length s" "digit_value c < 10" by (simp_all add: digit_value_less)
  then show ?case by simp
qed simp

section \<open>Hyphen-free components\<close>

definition dash_free :: "string \<Rightarrow> bool" where
  "dash_free s \<longleftrightarrow> CHR ''-'' \<notin> set s"

lemma alnum_not_dash: "alnum_char c \<Longrightarrow> c \<noteq> CHR ''-''"
  by (auto simp: alnum_char_def digit_char_def upper_letter_def lower_letter_def)

lemma digit_hex_alnum: "digit_char c \<Longrightarrow> alnum_char c" "hex_char c \<Longrightarrow> alnum_char c"
  by (auto simp: alnum_char_def hex_char_def upper_letter_def)

lemma dash_free_patterns [intro]:
  "component_pattern s \<Longrightarrow> dash_free s" "nonce_pattern s \<Longrightarrow> dash_free s" "digits_pattern w s \<Longrightarrow> dash_free s"
  by (auto simp: component_pattern_def nonce_pattern_def digits_pattern_def dash_free_def list_all_iff
      dest: alnum_not_dash digit_hex_alnum)

lemma dash_free_token: "dash_free (role_to_token r)"
  by (cases r) (simp_all add: dash_free_def)

lemma dash_free_simps [simp]: "dash_free []" "dash_free (c # s) \<longleftrightarrow> c \<noteq> CHR ''-'' \<and> dash_free s"
  by (auto simp: dash_free_def)

lemma split_dash_free: "dash_free s \<Longrightarrow> split_dash s = [s]"
  by (induction s) simp_all

lemma split_dash_append: "dash_free s \<Longrightarrow> split_dash (s @ CHR ''-'' # t) = s # split_dash t"
  by (induction s) simp_all

fun join_dash :: "string list \<Rightarrow> string" where
  "join_dash [] = []"
| "join_dash [s] = s"
| "join_dash (s # t # ss) = s @ CHR ''-'' # join_dash (t # ss)"

lemma split_dash_not_Nil [simp]: "split_dash s \<noteq> []"
  by (induction s) (auto split: list.splits)

lemma join_split: "join_dash (split_dash s) = s"
proof (induction s)
  case (Cons c s)
  then show ?case by (cases "split_dash s"; cases "tl (split_dash s)") auto
qed simp

lemma token_to_role_token [simp]: "token_to_role (role_to_token r) = Some r"
  by (cases r) (simp_all add: token_to_role_def)

lemma role_token_of: "token_to_role t = Some r \<Longrightarrow> role_to_token r = t"
  by (auto simp: token_to_role_def split: if_splits)

lemma upper_hex: "hex_char c \<Longrightarrow> upper_char c = c"
  by (auto simp: upper_char_def hex_char_def digit_char_def lower_letter_def)

lemma upper_nonce: "nonce_pattern s \<Longrightarrow> upper s = s"
  by (auto simp: nonce_pattern_def upper_def list_all_iff upper_hex intro: map_idI)

section \<open>Valid identifiers and the round trips\<close>

definition valid_id :: "client_order_id \<Rightarrow> bool" where
  "valid_id c \<longleftrightarrow> component_pattern (strategy_instance c) \<and> 0 \<le> cycle c \<and> cycle c \<le> 9999
     \<and> 0 \<le> level c \<and> level c \<le> 99 \<and> 0 \<le> attempt c \<and> attempt c \<le> 99 \<and> nonce_pattern (nonce c)"

lemma valid_id_formats:
  assumes "valid_id c"
  shows "digits_pattern 4 (format_int 4 (cycle c))" "digits_pattern 2 (format_int 2 (level c))"
    "digits_pattern 2 (format_int 2 (attempt c))" "int (digits_value (format_int 4 (cycle c))) = cycle c"
    "int (digits_value (format_int 2 (level c))) = level c" "int (digits_value (format_int 2 (attempt c))) = attempt c"
  using assms format_int_pattern [of "cycle c" 4] format_int_pattern [of "level c" 2]
    format_int_pattern [of "attempt c" 2]
  by (simp_all add: valid_id_def)

lemma role_token_length: "length (role_to_token r) \<le> 5"
  by (cases r) simp_all

text \<open>The longest identifier has 35 characters: the length check of the constructor never fires.\<close>

lemma length_render: "valid_id c \<Longrightarrow> length (render_id c) \<le> 35"
  using valid_id_formats [of c] role_token_length [of "role c"]
  by (simp add: render_id_def digits_pattern_def valid_id_def component_pattern_def nonce_pattern_def)

lemma mk_client_order_id_iff:
  "mk_client_order_id inst cyc lvl rl att nc = Inr c \<longleftrightarrow>
     c = \<lparr>strategy_instance = inst, cycle = cyc, level = lvl, role = rl, attempt = att, nonce = upper nc\<rparr>
     \<and> valid_id c"
proof -
  let ?c = "\<lparr>strategy_instance = inst, cycle = cyc, level = lvl, role = rl, attempt = att, nonce = upper nc\<rparr>"
  have m: "mk_client_order_id inst cyc lvl rl att nc = Inr c \<longleftrightarrow> valid_id ?c \<and> length (render_id ?c) \<le> 36 \<and> ?c = c"
    by (auto simp: mk_client_order_id_def valid_id_def Let_def)
  have "valid_id ?c \<Longrightarrow> length (render_id ?c) \<le> 36" using length_render [of ?c] by linarith
  then show ?thesis unfolding m by blast
qed

lemma split_render:
  assumes "valid_id c"
  shows "split_dash (render_id c) = [''ECH'', strategy_instance c, CHR ''C'' # format_int 4 (cycle c),
    CHR ''L'' # format_int 2 (level c), role_to_token (role c), CHR ''A'' # format_int 2 (attempt c), nonce c]"
proof -
  have d: "dash_free ''ECH''" "dash_free (strategy_instance c)" "dash_free (CHR ''C'' # format_int 4 (cycle c))"
    "dash_free (CHR ''L'' # format_int 2 (level c))" "dash_free (CHR ''A'' # format_int 2 (attempt c))"
    "dash_free (nonce c)"
    using assms valid_id_formats [OF assms] by (auto simp: valid_id_def)
  have r: "render_id c = ''ECH'' @ CHR ''-'' # strategy_instance c @ CHR ''-'' # (CHR ''C'' # format_int 4 (cycle c))
      @ CHR ''-'' # (CHR ''L'' # format_int 2 (level c)) @ CHR ''-'' # role_to_token (role c)
      @ CHR ''-'' # (CHR ''A'' # format_int 2 (attempt c)) @ CHR ''-'' # nonce c"
    by (simp add: render_id_def)
  show ?thesis
    unfolding r by (simp only: split_dash_append d dash_free_token) (simp only: split_dash_free d)
qed

text \<open>C19. Identifiers survive a round trip: whatever the constructor accepts, rendering and parsing
  it gives the same identifier back; and any text that parses is exactly the rendering of the
  identifier it parses to. So distinct identifiers never render alike.\<close>

theorem client_order_id_roundtrip:
  assumes "mk_client_order_id inst cyc lvl rl att nc = Inr c"
  shows "parse_id (render_id c) = Inr c \<and> length (render_id c) \<le> 36
    \<and> (\<forall>v c'. parse_id v = Inr c' \<longrightarrow> render_id c' = v)"
proof -
  have v: "valid_id c" using assms unfolding mk_client_order_id_iff by blast
  have "mk_client_order_id (strategy_instance c) (cycle c) (level c) (role c) (attempt c) (nonce c) = Inr c"
    using v upper_nonce [of "nonce c"] by (simp add: mk_client_order_id_iff valid_id_def)
  then have "parse_id (render_id c) = Inr c"
    using v valid_id_formats [OF v] by (simp add: parse_id_def split_render [OF v] led_by_def valid_id_def)
  moreover have "render_id c' = u" if pu: "parse_id u = Inr c'" for u c'
  proof -
    obtain ech inst cyc' lvl' tok att' nc where u: "split_dash u = [ech, inst, cyc', lvl', tok, att', nc]"
      using pu by (auto simp: parse_id_def split: list.splits)
    have led: "led_by k t \<Longrightarrow> t = k # tl t" for k t by (cases t) (simp_all add: led_by_def)
    define cyc lvl att where "cyc = tl cyc'" and "lvl = tl lvl'" and "att = tl att'"
    from pu u obtain r where s: "split_dash u = [''ECH'', inst, CHR ''C'' # cyc, CHR ''L'' # lvl, tok, CHR ''A'' # att, nc]"
      and p: "digits_pattern 4 cyc" "digits_pattern 2 lvl" "digits_pattern 2 att" "token_to_role tok = Some r" "nonce_pattern nc"
      and m: "mk_client_order_id inst (int (digits_value cyc)) (int (digits_value lvl)) r (int (digits_value att)) nc = Inr c'"
      unfolding parse_id_def cyc_def lvl_def att_def by (auto split: if_splits dest: led)
    have u': "u = join_dash [''ECH'', inst, CHR ''C'' # cyc, CHR ''L'' # lvl, tok, CHR ''A'' # att, nc]"
      using join_split [of u] unfolding s by (rule sym)
    have c': "c' = \<lparr>strategy_instance = inst, cycle = int (digits_value cyc), level = int (digits_value lvl),
        role = r, attempt = int (digits_value att), nonce = upper nc\<rparr>"
      using m unfolding mk_client_order_id_iff by blast
    have f: "format_int 4 (int (digits_value cyc)) = cyc" "format_int 2 (int (digits_value lvl)) = lvl"
      "format_int 2 (int (digits_value att)) = att" "role_to_token r = tok" "upper nc = nc"
      using p by (simp_all only: format_int_value zero_less_numeral role_token_of upper_nonce)
    show ?thesis unfolding c' u' render_id_def by (simp add: f)
  qed
  moreover have "length (render_id c) \<le> 36" using length_render [OF v] by linarith
  ultimately show ?thesis by blast
qed

theorem client_order_id_roundtrip_witness:
  "\<exists>c. mk_client_order_id ''a1'' 7 3 HEDGE_STOP 2 ''00ff3a'' = Inr c
     \<and> render_id c = ''ECH-a1-C0007-L03-STOP-A02-00FF3A'' \<and> parse_id (render_id c) = Inr c"
proof -
  have "mk_client_order_id ''a1'' 7 3 HEDGE_STOP 2 ''00ff3a'' = Inr
      \<lparr>strategy_instance = ''a1'', cycle = 7, level = 3, role = HEDGE_STOP, attempt = 2, nonce = ''00FF3A''\<rparr>"
    by code_simp
  moreover have "render_id \<lparr>strategy_instance = ''a1'', cycle = 7, level = 3, role = HEDGE_STOP, attempt = 2,
      nonce = ''00FF3A''\<rparr> = ''ECH-a1-C0007-L03-STOP-A02-00FF3A''"
    by code_simp
  ultimately show ?thesis using client_order_id_roundtrip by blast
qed

end
