(* ===== verification/Kill_Switch.thy ===== *)
theory Kill_Switch
  imports Prelude
begin

text \<open>
  \<open>domain/control.py\<close>, \<open>application/kill_switch.py\<close> and the store
  \<open>infrastructure/persistence/file_kill_switch_store.py\<close>: the durable kill switch. The store is an
  interface with optimistic versions (locale \<open>version_store\<close>), interpreted on the file store, whose
  content is modelled as the state its JSON text encodes. Several controllers may share the store;
  \<open>ks_step\<close> is one operation of one of them, and the lemmas about reachable systems say that no
  update is lost and that the stored mode never de-escalates except by an acknowledged reset.
\<close>

section \<open>Modes and states\<close>

datatype kill_switch_mode = RUNNING | SOFT_PAUSE | STRATEGY_CLOSE | EMERGENCY_FLATTEN

fun escalation :: "kill_switch_mode \<Rightarrow> nat" where
  "escalation RUNNING = 0"
| "escalation SOFT_PAUSE = 1"
| "escalation STRATEGY_CLOSE = 2"
| "escalation EMERGENCY_FLATTEN = 3"

instantiation kill_switch_mode :: linorder
begin

definition less_eq_kill_switch_mode :: "kill_switch_mode \<Rightarrow> kill_switch_mode \<Rightarrow> bool" where
  "less_eq_kill_switch_mode a b \<longleftrightarrow> escalation a \<le> escalation b"

definition less_kill_switch_mode :: "kill_switch_mode \<Rightarrow> kill_switch_mode \<Rightarrow> bool" where
  "less_kill_switch_mode a b \<longleftrightarrow> escalation a < escalation b"

instance
proof
  fix x y z :: kill_switch_mode
  show "x < y \<longleftrightarrow> x \<le> y \<and> \<not> y \<le> x" by (auto simp: less_eq_kill_switch_mode_def less_kill_switch_mode_def)
  show "x \<le> x" by (simp add: less_eq_kill_switch_mode_def)
  show "x \<le> y \<Longrightarrow> y \<le> z \<Longrightarrow> x \<le> z" by (simp add: less_eq_kill_switch_mode_def)
  show "x \<le> y \<Longrightarrow> y \<le> x \<Longrightarrow> x = y" by (cases x; cases y) (simp_all add: less_eq_kill_switch_mode_def)
  show "x \<le> y \<or> y \<le> x" by (auto simp: less_eq_kill_switch_mode_def)
qed

end

lemma RUNNING_least [simp]: "RUNNING \<le> m"
  by (simp add: less_eq_kill_switch_mode_def)

record kill_switch_state =
  ks_mode :: kill_switch_mode
  ks_reason :: string
  ks_requested_by :: string
  ks_changed_at_utc :: datetime
  ks_version :: int

definition mk_kill_switch_state ::
    "kill_switch_mode \<Rightarrow> string \<Rightarrow> string \<Rightarrow> datetime \<Rightarrow> int \<Rightarrow> kill_switch_state res" where
  [post_init]: "mk_kill_switch_state m reason by changed v =
     raise_when (blank reason \<or> blank by) ''kill-switch reason and requester cannot be empty''
    (raise_naive changed ''kill-switch timestamp''
    (raise_when (v \<le> 0) ''kill-switch version must be positive''
    (Inr \<lparr>ks_mode = m, ks_reason = reason, ks_requested_by = by, ks_changed_at_utc = changed, ks_version = v\<rparr>)))"

lemma mk_kill_switch_state_Inr:
  "mk_kill_switch_state m reason by changed v = Inr s \<longleftrightarrow>
     s = \<lparr>ks_mode = m, ks_reason = reason, ks_requested_by = by, ks_changed_at_utc = changed, ks_version = v\<rparr>
     \<and> \<not> blank reason \<and> \<not> blank by \<and> is_aware changed \<and> 0 < v"
  by (auto simp: mk_kill_switch_state_def)

section \<open>The versioned store\<close>

type_synonym file_store = "kill_switch_state option"

definition file_load :: "file_store \<Rightarrow> kill_switch_state option" where
  "file_load f = f"

definition file_save :: "file_store \<Rightarrow> kill_switch_state \<Rightarrow> int option \<Rightarrow> file_store res" where
  "file_save f s expected = (let current_version = (case file_load f of None \<Rightarrow> None | Some c \<Rightarrow> Some (ks_version c))
     in raise_if (current_version \<noteq> expected) (RuntimeError ''kill-switch state changed concurrently'')
          (Inr (Some s)))"

text \<open>What the controllers rely on: a save succeeds exactly if the expected version is the stored
  one, and then the store holds the new state.\<close>

locale version_store =
  fixes load :: "'f \<Rightarrow> kill_switch_state option"
    and save :: "'f \<Rightarrow> kill_switch_state \<Rightarrow> int option \<Rightarrow> 'f res"
  assumes save_ok: "map_option ks_version (load f) = v \<Longrightarrow> \<exists>f'. save f s v = Inr f' \<and> load f' = Some s"
    and save_conflict: "map_option ks_version (load f) \<noteq> v \<Longrightarrow> \<not> is_ok (save f s v)"
begin

lemma save_Inr: "save f s v = Inr f' \<Longrightarrow> load f' = Some s \<and> v = map_option ks_version (load f)"
  using save_ok [of f v s] save_conflict [of f v s] by force

lemma save_is_ok: "is_ok (save f s v) \<longleftrightarrow> v = map_option ks_version (load f)"
  using save_ok [of f v s] save_conflict [of f v s] by (cases "map_option ks_version (load f) = v") (auto simp: is_ok_iff)

text \<open>A second writer that read the same version loses: its save is refused.\<close>

lemma one_writer_wins:
  assumes "save f s v = Inr f'" and "v \<noteq> Some (ks_version s)"
  shows "\<not> is_ok (save f' s' v)"
proof -
  have "map_option ks_version (load f') \<noteq> v" using save_Inr [OF assms(1)] assms(2) by (metis option.simps(9))
  then show ?thesis by (rule save_conflict)
qed

end

interpretation fs: version_store file_load file_save
proof
  fix f :: file_store and s v
  show "map_option ks_version (file_load f) = v \<Longrightarrow> \<exists>f'. file_save f s v = Inr f' \<and> file_load f' = Some s"
    by (cases f) (auto simp: file_load_def file_save_def Let_def)
  show "map_option ks_version (file_load f) \<noteq> v \<Longrightarrow> \<not> is_ok (file_save f s v)"
    by (cases f) (auto simp: file_load_def file_save_def Let_def)
qed

section \<open>The controller\<close>

text \<open>A controller is its cached \<open>_state\<close>; the operations take and return it with the store. The
  argument \<open>now\<close> is the value of \<open>_clock()\<close>.\<close>

type_synonym controller = "kill_switch_state option"

definition controller_state :: "controller \<Rightarrow> kill_switch_state res" where
  "controller_state c = (case c of None \<Rightarrow> Inl (RuntimeError ''kill switch has not been initialized'')
     | Some s \<Rightarrow> Inr s)"

definition entries_allowed :: "controller \<Rightarrow> bool res" where
  "entries_allowed c = r_bind (controller_state c) (\<lambda>s. Inr (ks_mode s = RUNNING))"

definition initialize :: "file_store \<Rightarrow> datetime \<Rightarrow> (file_store \<times> controller) res" where
  "initialize f now = (case file_load f of
       Some persisted \<Rightarrow> Inr (f, Some persisted)
     | None \<Rightarrow> r_bind (mk_kill_switch_state RUNNING ''initial state'' ''system'' now 1) (\<lambda>s.
         r_bind (file_save f s None) (\<lambda>f'. Inr (f', Some s))))"

definition activate ::
    "file_store \<Rightarrow> controller \<Rightarrow> kill_switch_mode \<Rightarrow> string \<Rightarrow> string \<Rightarrow> datetime \<Rightarrow> (file_store \<times> controller) res" where
  "activate f c requested reason by now =
     raise_when (requested = RUNNING) ''use reset to return the kill switch to RUNNING''
    (r_bind (controller_state c) (\<lambda>current.
     raise_when (escalation requested < escalation (ks_mode current))
       ''kill switch cannot de-escalate without explicit reset''
    (r_bind (mk_kill_switch_state requested reason by now (ks_version current + 1)) (\<lambda>updated.
     r_bind (file_save f updated (Some (ks_version current))) (\<lambda>f'. Inr (f', Some updated))))))"

definition reset :: "file_store \<Rightarrow> controller \<Rightarrow> string \<Rightarrow> bool \<Rightarrow> datetime \<Rightarrow> (file_store \<times> controller) res" where
  "reset f c by operator_acknowledged now =
     raise_when (\<not> operator_acknowledged) ''operator acknowledgement is required to reset''
    (r_bind (controller_state c) (\<lambda>current.
     r_bind (mk_kill_switch_state RUNNING ''operator acknowledged reset'' by now (ks_version current + 1)) (\<lambda>updated.
     r_bind (file_save f updated (Some (ks_version current))) (\<lambda>f'. Inr (f', Some updated)))))"

section \<open>Several controllers over one store\<close>

datatype ks_action =
    Initialize datetime
  | Activate kill_switch_mode string string datetime
  | Reset string bool datetime

fun perform :: "ks_action \<Rightarrow> file_store \<Rightarrow> controller \<Rightarrow> (file_store \<times> controller) res" where
  "perform (Initialize now) f c = initialize f now"
| "perform (Activate m reason by now) f c = activate f c m reason by now"
| "perform (Reset by ack now) f c = reset f c by ack now"

type_synonym ks_system = "file_store \<times> (nat \<Rightarrow> controller)"

text \<open>An operation that raises changes neither the store nor the controller.\<close>

inductive ks_step :: "ks_system \<Rightarrow> nat \<times> ks_action \<Rightarrow> ks_system \<Rightarrow> bool" where
  performed: "perform a f (cs i) = Inr (f', c') \<Longrightarrow> ks_step (f, cs) (i, a) (f', cs(i := c'))"
| raised: "perform a f (cs i) = Inl x \<Longrightarrow> ks_step (f, cs) (i, a) (f, cs)"

inductive_cases ks_stepE: "ks_step (f, cs) (i, a) (f', cs')"

inductive ks_reachable :: "ks_system \<Rightarrow> bool" where
  start: "ks_reachable (None, \<lambda>_. None)"
| step: "ks_reachable s \<Longrightarrow> ks_step s ia s' \<Longrightarrow> ks_reachable s'"

text \<open>A cached state is never newer than the stored one, and is the stored one if it has its version.\<close>

definition cache_inv :: "ks_system \<Rightarrow> bool" where
  "cache_inv sys \<longleftrightarrow> (\<forall>i c. snd sys i = Some c \<longrightarrow> (\<exists>s. fst sys = Some s \<and> ks_version c \<le> ks_version s
     \<and> (ks_version c = ks_version s \<longrightarrow> c = s)))"

lemma perform_cases:
  assumes "perform a f c = Inr (f', c')"
  obtains (loaded) s now where "a = Initialize now" "f = Some s" "f' = f" "c' = f"
  | (first) s now where "a = Initialize now" "f = None" "f' = Some s" "c' = f'" "ks_version s = 1" "ks_mode s = RUNNING"
  | (activated) m r b t cur s where "a = Activate m r b t" "c = Some cur" "f' = Some s" "c' = f'"
      "map_option ks_version f = Some (ks_version cur)" "ks_version s = ks_version cur + 1"
      "ks_mode s = m" "ks_mode cur \<le> m" "m \<noteq> RUNNING"
  | (was_reset) b t cur s where "a = Reset b True t" "c = Some cur" "f' = Some s" "c' = f'"
      "map_option ks_version f = Some (ks_version cur)" "ks_version s = ks_version cur + 1" "ks_mode s = RUNNING"
proof (cases a)
  case (Initialize now)
  show ?thesis
  proof (cases f)
    case None
    with assms Initialize obtain s where s: "mk_kill_switch_state RUNNING ''initial state'' ''system'' now 1 = Inr s"
      "f' = Some s" "c' = f'"
      by (auto simp: initialize_def file_load_def file_save_def Let_def)
    with None Initialize show ?thesis by (intro that(2) [of now s]) (auto simp: mk_kill_switch_state_Inr)
  next
    case (Some s)
    with assms Initialize show ?thesis by (intro that(1) [of now s]) (auto simp: initialize_def file_load_def)
  qed
next
  case (Activate m r b t)
  with assms obtain cur upd where u: "m \<noteq> RUNNING" "c = Some cur" "escalation (ks_mode cur) \<le> escalation m"
    "mk_kill_switch_state m r b t (ks_version cur + 1) = Inr upd"
    "file_save f upd (Some (ks_version cur)) = Inr f'" "c' = Some upd"
    by (auto simp: activate_def controller_state_def not_less split: option.splits)
  from fs.save_Inr [OF u(5)] have "f' = Some upd" "map_option ks_version f = Some (ks_version cur)"
    by (simp_all add: file_load_def)
  with u Activate show ?thesis
    by (intro that(3) [of m r b t cur upd]) (simp_all add: mk_kill_switch_state_Inr less_eq_kill_switch_mode_def)
next
  case (Reset b ack t)
  with assms obtain cur upd where u: "ack" "c = Some cur"
    "mk_kill_switch_state RUNNING ''operator acknowledged reset'' b t (ks_version cur + 1) = Inr upd"
    "file_save f upd (Some (ks_version cur)) = Inr f'" "c' = Some upd"
    by (auto simp: reset_def controller_state_def split: option.splits)
  from fs.save_Inr [OF u(4)] have "f' = Some upd" "map_option ks_version f = Some (ks_version cur)"
    by (simp_all add: file_load_def)
  with u Reset show ?thesis
    by (intro that(4) [of b t cur upd]) (simp_all add: mk_kill_switch_state_Inr)
qed

lemma cache_inv_save:
  assumes "cache_inv (f, cs)" "map_option ks_version f = Some v" "ks_version s = v + 1"
  shows "cache_inv (Some s, cs(i := Some s))"
  unfolding cache_inv_def
proof (intro allI impI)
  fix j c
  assume c: "snd (Some s, cs(i := Some s)) j = Some c"
  show "\<exists>s'. fst (Some s, cs(i := Some s)) = Some s' \<and> ks_version c \<le> ks_version s' \<and> (ks_version c = ks_version s' \<longrightarrow> c = s')"
  proof (cases "j = i")
    case False
    with c obtain s0 where "f = Some s0" "ks_version c \<le> ks_version s0" using assms(1) by (auto simp: cache_inv_def)
    with assms(2,3) show ?thesis by simp
  qed (use c in simp)
qed

lemma cache_inv_step:
  assumes "cache_inv s" and "ks_step s ia s'"
  shows "cache_inv s'"
  using assms(2,1)
proof cases
  case (performed a f cs i f' c')
  from performed(4) show ?thesis
  proof (cases rule: perform_cases)
    case (loaded s now)
    with performed assms(1) show ?thesis by (auto simp: cache_inv_def)
  next
    case (first s now)
    with performed assms(1) show ?thesis by (auto simp: cache_inv_def)
  next
    case (activated m r b t cur s)
    with performed(1,3) assms(1) show ?thesis by (simp add: cache_inv_save)
  next
    case (was_reset b t cur s)
    with performed(1,3) assms(1) show ?thesis by (simp add: cache_inv_save)
  qed
qed simp

lemma ks_reachable_cache: "ks_reachable s \<Longrightarrow> cache_inv s"
  by (induction rule: ks_reachable.induct) (simp add: cache_inv_def, rule cache_inv_step)

text \<open>C17. No lost update and no silent de-escalation. In every reachable system of controllers that
  share the kill-switch store, a step either leaves the stored state alone or replaces it by one
  with exactly the next version, computed from the stored state itself and not from a stale copy;
  and the stored mode becomes less severe only through a reset that the operator acknowledged.\<close>

theorem kill_switch_never_deescalates:
  assumes "ks_reachable (f, cs)" and "ks_step (f, cs) (i, a) (f', cs')"
  shows "f' = f \<or> (\<exists>s'. f' = Some s' \<and>
    (case f of
       None \<Rightarrow> ks_version s' = 1 \<and> ks_mode s' = RUNNING
     | Some s \<Rightarrow> cs i = Some s \<and> ks_version s' = ks_version s + 1 \<and>
         (ks_mode s \<le> ks_mode s' \<or> (\<exists>by now. a = Reset by True now \<and> ks_mode s' = RUNNING))))"
proof (cases "f' = f")
  case False
  with assms(2) obtain c' where p: "perform a f (cs i) = Inr (f', c')" by (auto elim: ks_stepE)
  have inv: "cache_inv (f, cs)" using ks_reachable_cache [OF assms(1)] .
  from p show ?thesis
  proof (cases rule: perform_cases)
    case (activated m r b t cur s)
    then have "f = Some cur" using inv by (auto simp: cache_inv_def)
    with activated show ?thesis by simp
  next
    case (was_reset b t cur s)
    then have "f = Some cur" using inv by (auto simp: cache_inv_def)
    with was_reset show ?thesis by simp
  qed simp_all
qed simp

definition start_system :: ks_system where
  "start_system = (None, \<lambda>_. None)"

theorem kill_switch_never_deescalates_witness:
  "\<exists>f cs f' cs'. ks_reachable (f, cs) \<and> ks_step (f, cs) (0, Activate SOFT_PAUSE ''drift'' ''ops'' (Aware 2)) (f', cs')
     \<and> (\<exists>s'. f' = Some s' \<and> ks_version s' = 2 \<and> ks_mode s' = SOFT_PAUSE)"
proof -
  define s1 where "s1 = \<lparr>ks_mode = RUNNING, ks_reason = ''initial state'', ks_requested_by = ''system'',
    ks_changed_at_utc = Aware 1, ks_version = 1\<rparr>"
  define s2 where "s2 = \<lparr>ks_mode = SOFT_PAUSE, ks_reason = ''drift'', ks_requested_by = ''ops'',
    ks_changed_at_utc = Aware 2, ks_version = 2\<rparr>"
  define c1 where "c1 = ((\<lambda>_. None) :: nat \<Rightarrow> controller)(0 := Some s1)"
  have "perform (Initialize (Aware 1)) None None = Inr (Some s1, Some s1)"
    unfolding s1_def by code_simp
  then have "ks_step (None, \<lambda>_. None) (0, Initialize (Aware 1)) (Some s1, c1)"
    unfolding c1_def by (rule ks_step.performed)
  with ks_reachable.start have r: "ks_reachable (Some s1, c1)" by (rule ks_reachable.step)
  have "perform (Activate SOFT_PAUSE ''drift'' ''ops'' (Aware 2)) (Some s1) (Some s1) = Inr (Some s2, Some s2)"
    unfolding s1_def s2_def by code_simp
  then have st: "ks_step (Some s1, c1) (0, Activate SOFT_PAUSE ''drift'' ''ops'' (Aware 2)) (Some s2, c1(0 := Some s2))"
    by (intro ks_step.performed) (simp add: c1_def)
  from kill_switch_never_deescalates [OF r st] r st show ?thesis
    by (auto simp: s1_def s2_def intro!: exI)
qed

section \<open>Closing the strategy\<close>

text \<open>The ports the services call; \<open>'w\<close> is the world outside (exchange, account, alerts).\<close>

record 'w close_ports =
  cancel_all :: "string \<Rightarrow> string option \<Rightarrow> ('w, unit) act"
  close_hedges :: "('w, unit) act"
  close_option_spread :: "('w, unit) act"
  verify_strategy_closed :: "('w, bool) act"
  send_notification :: "string \<Rightarrow> string \<Rightarrow> string \<Rightarrow> ('w, unit) act"
  confirm_flattened :: "('w, bool) act"
  flatten_short :: "string \<Rightarrow> ('w, unit) act"
  reconcile :: "('w, bool) act"
  order_link_id_factory :: "nat \<Rightarrow> string"

type_synonym 'w service = "file_store \<times> controller \<times> 'w"

text \<open>A port acts on the outside world only.\<close>

definition outside :: "('w, 'a) act \<Rightarrow> ('w service, 'a) act" where
  "outside m s = (case s of (f, c, w) \<Rightarrow> (case m w of (w', r) \<Rightarrow> ((f, c, w'), r)))"

definition activate_service ::
    "kill_switch_mode \<Rightarrow> string \<Rightarrow> string \<Rightarrow> datetime \<Rightarrow> ('w service, kill_switch_state) act" where
  "activate_service m reason by now s = (case s of (f, c, w) \<Rightarrow>
     (case activate f c m reason by now of
        Inl e \<Rightarrow> ((f, c, w), Inl e)
      | Inr (f', c') \<Rightarrow> ((f', c', w), controller_state c')))"

definition strategy_close ::
    "'w close_ports \<Rightarrow> string \<Rightarrow> string \<Rightarrow> datetime \<Rightarrow> ('w service, kill_switch_state \<times> bool) act" where
  "strategy_close ports reason by now =
     act_bind (activate_service STRATEGY_CLOSE reason by now) (\<lambda>state.
     act_bind (outside (cancel_all ports ''linear'' (Some ''ETHUSDT''))) (\<lambda>_.
     act_bind (outside (cancel_all ports ''option'' None)) (\<lambda>_.
     act_bind (outside (close_hedges ports)) (\<lambda>_.
     act_bind (outside (close_option_spread ports)) (\<lambda>_.
     act_bind (outside (verify_strategy_closed ports)) (\<lambda>verified.
     act_return (state, verified)))))))"

text \<open>The attempts \<open>attempt, attempt + 1, ...\<close>, of which \<open>left\<close> remain.\<close>

definition flatten_once :: "'w close_ports \<Rightarrow> nat \<Rightarrow> ('w service, bool \<times> bool) act" where
  "flatten_once ports attempt =
     act_bind (outside (confirm_flattened ports)) (\<lambda>flat0.
     act_bind (if flat0 then act_return True
               else act_bind (outside (flatten_short ports (order_link_id_factory ports attempt))) (\<lambda>_.
                    outside (confirm_flattened ports))) (\<lambda>flat.
     act_bind (outside (reconcile ports)) (\<lambda>reconciled. act_return (flat, reconciled))))"

fun flatten_attempts :: "'w close_ports \<Rightarrow> nat \<Rightarrow> nat \<Rightarrow> ('w service, nat) act" where
  "flatten_attempts ports attempt 0 =
     act_raise (RuntimeError ''emergency flatten did not verify flat and reconciled'')"
| "flatten_attempts ports attempt (Suc left) =
     act_bind (flatten_once ports attempt) (\<lambda>(flat, reconciled).
       if flat \<and> reconciled then act_return attempt else flatten_attempts ports (attempt + 1) left)"

definition emergency_execute ::
    "'w close_ports \<Rightarrow> int \<Rightarrow> string \<Rightarrow> string \<Rightarrow> datetime \<Rightarrow> ('w service, nat \<times> bool \<times> bool) act" where
  "emergency_execute ports maximum_attempts reason by now =
     (if maximum_attempts \<le> 0 then act_raise (ValueError ''maximum emergency attempts must be positive'')
      else act_bind (activate_service EMERGENCY_FLATTEN reason by now) (\<lambda>_.
       act_bind (outside (send_notification ports ''KILL_SWITCH'' ''IMMEDIATE'' (''emergency flatten activated: '' @ reason))) (\<lambda>_.
       act_bind (outside (cancel_all ports ''linear'' (Some ''ETHUSDT''))) (\<lambda>_.
       act_bind (outside (cancel_all ports ''option'' None)) (\<lambda>_.
       act_bind (flatten_attempts ports 1 (nat maximum_attempts)) (\<lambda>attempt.
       act_return (attempt, True, True)))))))"

subsection \<open>Lemmas\<close>

definition stored_mode :: "'w service \<Rightarrow> kill_switch_mode option" where
  "stored_mode s = map_option ks_mode (fst s)"

lemma outside_keeps: "outside m s = (s', r) \<Longrightarrow> stored_mode s' = stored_mode s"
  by (auto simp: outside_def stored_mode_def split: prod.splits)

lemma activate_service_cases:
  assumes "activate_service m reason by now s = (s', r)"
  obtains e where "s' = s" "r = Inl e" | "stored_mode s' = Some m" "is_ok r"
proof -
  obtain f c w where s: "s = (f, c, w)" by (cases s)
  show ?thesis
  proof (cases "activate f c m reason by now")
    case (Inl e)
    with assms s that(1) [of e] show ?thesis by (simp add: activate_service_def)
  next
    case (Inr fc)
    obtain f' c' where fc: "fc = (f', c')" by (cases fc)
    with Inr have "perform (Activate m reason by now) f c = Inr (f', c')" by simp
    then have "\<exists>x. f' = Some x \<and> c' = f' \<and> ks_mode x = m" by (cases rule: perform_cases) auto
    with assms s Inr fc that(2) show ?thesis
      by (auto simp: activate_service_def stored_mode_def controller_state_def)
  qed
qed

lemma flatten_once_keeps: "flatten_once ports n s = (s', r) \<Longrightarrow> stored_mode s' = stored_mode s"
  unfolding flatten_once_def
  by (auto simp: act_bind_def split: prod.splits sum.splits if_splits dest!: outside_keeps)

lemma flatten_attempts_Suc:
  assumes "flatten_attempts ports n (Suc k) s = (s', r)"
  obtains (raised) e where "flatten_once ports n s = (s', Inl e)" "r = Inl e"
  | (verified) "flatten_once ports n s = (s', Inr (True, True))" "r = Inr n"
  | (again) s1 b where "flatten_once ports n s = (s1, Inr b)" "flatten_attempts ports (n + 1) k s1 = (s', r)"
proof -
  obtain s1 r1 where s1: "flatten_once ports n s = (s1, r1)" by (cases "flatten_once ports n s")
  show ?thesis
  proof (cases r1)
    case (Inl e)
    with assms s1 that(1) [of e] show ?thesis by (simp add: act_bind_def)
  next
    case (Inr b)
    with assms s1 that(2,3) show ?thesis by (cases b) (auto simp: act_bind_def split: if_splits)
  qed
qed

lemma flatten_attempts_keeps: "flatten_attempts ports n k s = (s', r) \<Longrightarrow> stored_mode s' = stored_mode s"
proof (induction k arbitrary: n s)
  case (Suc k)
  from Suc.prems show ?case
  proof (cases rule: flatten_attempts_Suc)
    case (again s1 b)
    with flatten_once_keeps [OF again(1)] Suc.IH [OF again(2)] show ?thesis by simp
  qed (auto dest: flatten_once_keeps)
qed simp

text \<open>A successful attempt saw the position flat and then the reconciliation succeed.\<close>

definition verified_flat :: "'w close_ports \<Rightarrow> 'w service \<Rightarrow> bool" where
  "verified_flat ports s \<longleftrightarrow> (\<exists>w0 w1. confirm_flattened ports w0 = (w1, Inr True)
     \<and> reconcile ports w1 = (snd (snd s), Inr True))"

lemma outside_Inr: "outside m s = (s', Inr x) \<Longrightarrow> m (snd (snd s)) = (snd (snd s'), Inr x)"
  by (auto simp: outside_def split: prod.splits)

lemma flatten_once_verified:
  assumes "flatten_once ports n s = (s', Inr (True, True))"
  shows "verified_flat ports s'"
proof -
  obtain s0 s1 where "outside (confirm_flattened ports) s0 = (s1, Inr True)" "outside (reconcile ports) s1 = (s', Inr True)"
    using assms by (cases s) (auto simp: flatten_once_def split: if_splits)
  then show ?thesis unfolding verified_flat_def by (blast dest: outside_Inr)
qed

lemma flatten_attempts_verified:
  "flatten_attempts ports n k s = (s', Inr a) \<Longrightarrow> n \<le> a \<and> a < n + k \<and> verified_flat ports s'"
proof (induction k arbitrary: n s)
  case (Suc k)
  from Suc.prems show ?case
  proof (cases rule: flatten_attempts_Suc)
    case verified
    with flatten_once_verified [OF verified(1)] show ?thesis by simp
  next
    case (again s1 b)
    from Suc.IH [OF again(2)] show ?thesis by simp
  qed simp
qed simp

text \<open>C18. Persistence-first emergency. \<open>emergency_execute\<close> either changes nothing at all (the
  activation was refused, so no port was called), or the stored mode is \<open>EMERGENCY_FLATTEN\<close> at the
  end, however the ports behave and whatever is raised. When it returns, an attempt within the
  configured maximum saw the position flat and the reconciliation after it succeed.\<close>

theorem emergency_flatten_persists_first:
  assumes "emergency_execute ports maximum_attempts reason by now s = (s', r)"
  shows "(s' = s \<and> \<not> is_ok r \<or> stored_mode s' = Some EMERGENCY_FLATTEN) \<and>
    (case r of Inl _ \<Rightarrow> True | Inr (attempt, flat, reconciled) \<Rightarrow>
       flat \<and> reconciled \<and> 1 \<le> attempt \<and> int attempt \<le> maximum_attempts \<and> verified_flat ports s')"
proof (cases "maximum_attempts \<le> 0")
  case True
  with assms show ?thesis by (auto simp: emergency_execute_def)
next
  case False
  obtain s1 r1 where s1: "activate_service EMERGENCY_FLATTEN reason by now s = (s1, r1)"
    by (cases "activate_service EMERGENCY_FLATTEN reason by now s")
  from s1 show ?thesis
  proof (cases rule: activate_service_cases)
    case (1 e)
    with assms False s1 show ?thesis by (auto simp: emergency_execute_def act_bind_def)
  next
    case 2
    then obtain x where r1: "r1 = Inr x" by (auto simp: is_ok_iff)
    have "stored_mode s' = Some EMERGENCY_FLATTEN"
      using assms False s1 2(1) r1
      by (auto simp: emergency_execute_def act_bind_def split: prod.splits sum.splits
          dest!: outside_keeps flatten_attempts_keeps)
    moreover have "flat \<and> reconciled \<and> 1 \<le> attempt \<and> int attempt \<le> maximum_attempts \<and> verified_flat ports s'"
      if r: "r = Inr (attempt, flat, reconciled)" for attempt flat reconciled
    proof -
      obtain s2 where "flatten_attempts ports 1 (nat maximum_attempts) s2 = (s', Inr attempt)" "flat" "reconciled"
        using assms False unfolding r by (auto simp: emergency_execute_def)
      with flatten_attempts_verified [OF this(1)] False show ?thesis by auto
    qed
    ultimately show ?thesis by (auto split: sum.split)
  qed
qed

text \<open>Ports of a venue whose position is flat after the first flatten order; the world is the
  number of open contracts.\<close>

definition demo_ports :: "nat close_ports" where
  "demo_ports = \<lparr>cancel_all = \<lambda>_ _. act_return (), close_hedges = act_return (), close_option_spread = act_return (),
     verify_strategy_closed = act_return True, send_notification = \<lambda>_ _ _. act_return (),
     confirm_flattened = \<lambda>w. (w, Inr (w = 0)), flatten_short = \<lambda>_ _. (0, Inr ()),
     reconcile = act_return True, order_link_id_factory = \<lambda>_. ''ECH-a1-C0001-L00-EC-A01-00FF''\<rparr>"

theorem emergency_flatten_persists_first_witness:
  "\<exists>s'. emergency_execute demo_ports 3 ''drift'' ''ops'' (Aware 9)
      (Some \<lparr>ks_mode = RUNNING, ks_reason = ''initial state'', ks_requested_by = ''system'',
         ks_changed_at_utc = Aware 1, ks_version = 1\<rparr>,
       Some \<lparr>ks_mode = RUNNING, ks_reason = ''initial state'', ks_requested_by = ''system'',
         ks_changed_at_utc = Aware 1, ks_version = 1\<rparr>, 5) = (s', Inr (1, True, True))
    \<and> verified_flat demo_ports s'"
proof -
  define k where "k = \<lparr>ks_mode = RUNNING, ks_reason = ''initial state'', ks_requested_by = ''system'',
     ks_changed_at_utc = Aware 1, ks_version = 1\<rparr>"
  define k' where "k' = \<lparr>ks_mode = EMERGENCY_FLATTEN, ks_reason = ''drift'', ks_requested_by = ''ops'',
     ks_changed_at_utc = Aware 9, ks_version = 2\<rparr>"
  have "emergency_execute demo_ports 3 ''drift'' ''ops'' (Aware 9) (Some k, Some k, 5)
      = ((Some k', Some k', 0), Inr (1, True, True))"
    unfolding k_def k'_def by code_simp
  from emergency_flatten_persists_first [OF this] this show ?thesis by (auto simp: k_def)
qed

text \<open>\<open>strategy_close\<close> has the same discipline: the mode is stored before the first port is called.\<close>

lemma strategy_close_persists_first:
  assumes "strategy_close ports reason by now s = (s', r)"
  shows "s' = s \<and> \<not> is_ok r \<or> stored_mode s' = Some STRATEGY_CLOSE"
proof -
  obtain s1 r1 where s1: "activate_service STRATEGY_CLOSE reason by now s = (s1, r1)"
    by (cases "activate_service STRATEGY_CLOSE reason by now s")
  from s1 show ?thesis
  proof (cases rule: activate_service_cases)
    case (1 e)
    with assms s1 show ?thesis by (auto simp: strategy_close_def act_bind_def)
  next
    case 2
    with assms s1 show ?thesis
      by (auto simp: strategy_close_def act_bind_def is_ok_iff split: prod.splits sum.splits dest!: outside_keeps)
  qed
qed

end
