(* ===== verification/Instruments.thy ===== *)
theory Instruments
  imports Decimal_Arith
begin

text \<open>
  \<open>domain/instruments.py\<close>: option contracts, market quotes, fills, and the trading filters of an
  instrument. A constructor is the validation its \<open>__post_init__\<close> makes of a raw object; the
  normalisations (exact conversion to Decimal, conversion of an aware time stamp to UTC) keep the
  value. The string literals of sides, option types and categories are datatypes.
\<close>

datatype option_type = Put | Call

datatype order_side = Buy | Sell

datatype instrument_category = option_category | linear_category

section \<open>Option data\<close>

record option_contract =
  oc_symbol :: string
  oc_base_coin :: string
  oc_quote_coin :: string
  oc_settle_coin :: string
  oc_option_type :: option_type
  oc_strike :: dec
  oc_expiry_time_utc :: datetime
  oc_contract_multiplier :: dec

definition mk_option_contract :: "option_contract \<Rightarrow> option_contract res" where
  [post_init]: "mk_option_contract c = check_all
    [text_guard (oc_symbol c) ''symbol'', text_guard (oc_base_coin c) ''base_coin'',
     text_guard (oc_quote_coin c) ''quote_coin'', text_guard (oc_settle_coin c) ''settle_coin'',
     (oc_strike c \<le> 0, ''strike must be positive''),
     (oc_contract_multiplier c \<le> 0, ''contract multiplier must be positive''),
     utc_guard (oc_expiry_time_utc c) ''expiry time''] (Inr c)"

record option_market_quote =
  mq_symbol :: string
  mq_timestamp_utc :: datetime
  mq_bid_price :: "dec option"
  mq_bid_size :: "dec option"
  mq_ask_price :: "dec option"
  mq_ask_size :: "dec option"
  mq_mark_price :: dec
  mq_underlying_price :: dec
  mq_index_price :: dec
  mq_bid_iv :: "dec option"
  mq_ask_iv :: "dec option"
  mq_mark_iv :: "dec option"
  mq_delta :: "dec option"
  mq_gamma :: "dec option"
  mq_vega :: "dec option"
  mq_theta :: "dec option"

definition is_negative :: "dec option \<Rightarrow> bool" where
  "is_negative v = (case v of None \<Rightarrow> False | Some x \<Rightarrow> x < 0)"

definition mk_option_market_quote :: "option_market_quote \<Rightarrow> option_market_quote res" where
  [post_init]: "mk_option_market_quote q = check_all
    [text_guard (mq_symbol q) ''symbol'', utc_guard (mq_timestamp_utc q) ''quote timestamp'',
     (mq_mark_price q < 0, ''mark price cannot be negative''),
     (mq_underlying_price q \<le> 0 \<or> mq_index_price q \<le> 0, ''underlying and index prices must be positive''),
     (is_negative (mq_bid_price q), ''bid_price cannot be negative''),
     (is_negative (mq_ask_price q), ''ask_price cannot be negative''),
     (is_negative (mq_bid_size q), ''bid_size cannot be negative''),
     (is_negative (mq_ask_size q), ''ask_size cannot be negative''),
     (is_negative (mq_bid_iv q), ''bid_iv cannot be negative''),
     (is_negative (mq_ask_iv q), ''ask_iv cannot be negative''),
     (is_negative (mq_mark_iv q), ''mark_iv cannot be negative''),
     (case (mq_bid_price q, mq_ask_price q) of (Some b, Some a) \<Rightarrow> a < b | _ \<Rightarrow> False,
      ''bid cannot exceed ask'')] (Inr q)"

record option_fill =
  fl_order_id :: string
  fl_execution_id :: string
  fl_symbol :: string
  fl_side :: order_side
  fl_price :: dec
  fl_quantity :: dec
  fl_fee :: dec
  fl_timestamp_utc :: datetime

definition mk_option_fill :: "option_fill \<Rightarrow> option_fill res" where
  [post_init]: "mk_option_fill f = check_all
    [text_guard (fl_order_id f) ''order_id'', text_guard (fl_execution_id f) ''execution_id'',
     text_guard (fl_symbol f) ''symbol'',
     (fl_price f < 0, ''fill price cannot be negative''),
     (fl_quantity f \<le> 0, ''fill quantity must be positive''),
     (fl_fee f < 0, ''fee cannot be negative''),
     utc_guard (fl_timestamp_utc f) ''fill timestamp''] (Inr f)"

section \<open>Trading filters\<close>

record price_filter =
  tick_size :: dec
  min_price :: "dec option"
  max_price :: "dec option"

definition mk_price_filter :: "price_filter \<Rightarrow> price_filter res" where
  [post_init]: "mk_price_filter f = check_all
    [(tick_size f \<le> 0, ''tick size must be positive''),
     (is_negative (min_price f), ''minimum price cannot be negative''),
     (some_and (\<lambda>m. m \<le> 0) (max_price f), ''maximum price must be positive''),
     (case (min_price f, max_price f) of (Some lo, Some hi) \<Rightarrow> hi < lo | _ \<Rightarrow> False,
      ''minimum price cannot exceed maximum price'')] (Inr f)"

record lot_size_filter =
  qty_step :: dec
  min_order_qty :: dec
  max_order_qty :: dec
  max_market_order_qty :: "dec option"
  min_notional :: "dec option"

definition mk_lot_size_filter :: "lot_size_filter \<Rightarrow> lot_size_filter res" where
  [post_init]: "mk_lot_size_filter f = check_all
    [(qty_step f \<le> 0, ''quantity step must be positive''),
     (min_order_qty f \<le> 0, ''minimum order quantity must be positive''),
     (max_order_qty f < min_order_qty f, ''maximum order quantity cannot be below minimum''),
     (some_and (\<lambda>m. m \<le> 0) (max_market_order_qty f), ''maximum market order quantity must be positive''),
     (some_and (\<lambda>m. m \<le> 0) (min_notional f), ''minimum notional must be positive'')] (Inr f)"

record instrument_spec =
  is_symbol :: string
  is_category :: instrument_category
  is_status :: string
  is_base_coin :: string
  is_quote_coin :: string
  is_settle_coin :: string
  is_price_filter :: price_filter
  is_lot_size_filter :: lot_size_filter
  is_contract_multiplier :: dec
  is_delivery_time_utc :: "datetime option"

definition mk_instrument_spec :: "instrument_spec \<Rightarrow> instrument_spec res" where
  [post_init]: "mk_instrument_spec i = check_all
    [text_guard (is_symbol i) ''symbol'', text_guard (is_status i) ''status'',
     text_guard (is_base_coin i) ''base_coin'', text_guard (is_quote_coin i) ''quote_coin'',
     text_guard (is_settle_coin i) ''settle_coin'',
     (is_contract_multiplier i \<le> 0, ''contract multiplier must be positive''),
     (some_and (\<lambda>t. \<not> is_aware t) (is_delivery_time_utc i), ''delivery time must be timezone-aware'')]
    (Inr i)"

text \<open>An accepted instrument has a positive tick, step and multiplier.\<close>

definition sound_instrument :: "instrument_spec \<Rightarrow> bool" where
  "sound_instrument i \<longleftrightarrow> 0 < tick_size (is_price_filter i) \<and> 0 < qty_step (is_lot_size_filter i)
     \<and> 0 < min_order_qty (is_lot_size_filter i) \<and> 0 < is_contract_multiplier i"

lemma sound_instrument_mk:
  assumes "mk_instrument_spec i = Inr i" "mk_price_filter (is_price_filter i) = Inr (is_price_filter i)"
    "mk_lot_size_filter (is_lot_size_filter i) = Inr (is_lot_size_filter i)"
  shows "sound_instrument i"
  using assms by (auto simp: sound_instrument_def mk_instrument_spec_def mk_price_filter_def mk_lot_size_filter_def not_le)

end
