(* ===== verification/Instrument_Rules.thy ===== *)
theory Instrument_Rules
  imports Instruments
begin

text \<open>
  \<open>domain/instrument_rules.py\<close>: rounding to the tick and the quantity step, validation of an order
  against the instrument's filters, and the risk amounts after rounding. The division and the
  product of \<open>_quantize_step\<close> round to the context; \<open>floor_quotient\<close> shows that this does not
  change the number of steps of any value the context can hold, so the quantizers are exact there
  (\<open>floor_to_step_exact\<close>, \<open>ceil_to_step_exact\<close>).
\<close>

section \<open>Quantization\<close>

datatype rounding = ROUND_FLOOR | ROUND_CEILING | ROUND_HALF_UP

definition half_up :: "rat \<Rightarrow> int" where
  "half_up x = (if 0 \<le> x then \<lfloor>x + 1 / 2\<rfloor> else - \<lfloor>- x + 1 / 2\<rfloor>)"

definition to_integral_value :: "rounding \<Rightarrow> dec \<Rightarrow> int" where
  "to_integral_value r x = (case r of ROUND_FLOOR \<Rightarrow> \<lfloor>x\<rfloor> | ROUND_CEILING \<Rightarrow> \<lceil>x\<rceil> | ROUND_HALF_UP \<Rightarrow> half_up x)"

definition quantize_step :: "dec \<Rightarrow> dec \<Rightarrow> rounding \<Rightarrow> dec res" where
  "quantize_step value step r = raise_when (step \<le> 0) ''step must be positive''
     (let units = to_integral_value r (dquot value step) in Inr (dmul (of_int units) step))"

definition floor_to_step :: "dec \<Rightarrow> dec \<Rightarrow> dec res" where
  "floor_to_step value step = quantize_step value step ROUND_FLOOR"

definition ceil_to_step :: "dec \<Rightarrow> dec \<Rightarrow> dec res" where
  "ceil_to_step value step = quantize_step value step ROUND_CEILING"

definition nearest_to_step :: "dec \<Rightarrow> dec \<Rightarrow> dec res" where
  "nearest_to_step value step = quantize_step value step ROUND_HALF_UP"

datatype price_quantization_policy = PASSIVE | AGGRESSIVE

definition quantize_limit_price :: "dec \<Rightarrow> dec \<Rightarrow> order_side \<Rightarrow> price_quantization_policy \<Rightarrow> dec res" where
  "quantize_limit_price value tick side policy =
     (let round_up = ((side = Sell) = (policy = PASSIVE))
      in if round_up then ceil_to_step value tick else floor_to_step value tick)"

section \<open>Order validation\<close>

record order_validation_result =
  ov_accepted :: bool
  ov_normalized_price :: "dec option"
  ov_normalized_quantity :: dec
  ov_errors :: "string list"
  ov_warnings :: "string list"

definition quantity_maximum :: "lot_size_filter \<Rightarrow> bool \<Rightarrow> dec" where
  "quantity_maximum lot is_market = (case (is_market, max_market_order_qty lot) of
     (True, Some m) \<Rightarrow> m | _ \<Rightarrow> max_order_qty lot)"

text \<open>The normalised limit price with the error and the warning its computation adds.\<close>

definition normalized_limit ::
    "instrument_spec \<Rightarrow> order_side \<Rightarrow> dec option \<Rightarrow> bool \<Rightarrow> price_quantization_policy
     \<Rightarrow> (dec option \<times> string list \<times> string list) res" where
  "normalized_limit instrument side price is_market policy =
     (if is_market then Inr (None, [], reason_if (price \<noteq> None) ''price ignored for market order'')
      else (case price of
          None \<Rightarrow> Inr (None, [''limit order requires price''], [])
        | Some requested \<Rightarrow>
            r_bind (quantize_limit_price requested (tick_size (is_price_filter instrument)) side policy) (\<lambda>p.
            Inr (Some p, [], reason_if (p \<noteq> requested) ''price rounded to instrument tick''))))"

definition price_errors :: "price_filter \<Rightarrow> dec option \<Rightarrow> string list" where
  "price_errors f price = (case price of None \<Rightarrow> [] | Some p \<Rightarrow>
     reason_if (some_and (\<lambda>lo. p < lo) (min_price f)) ''price is below instrument minimum'' @
     reason_if (some_and (\<lambda>hi. hi < p) (max_price f)) ''price exceeds instrument maximum'')"

definition notional_errors :: "instrument_spec \<Rightarrow> dec \<Rightarrow> dec option \<Rightarrow> string list" where
  "notional_errors instrument quantity price = (case min_notional (is_lot_size_filter instrument) of
       None \<Rightarrow> []
     | Some minimum \<Rightarrow> (case price of
           None \<Rightarrow> [''reference price is required for minimum notional'']
         | Some p \<Rightarrow> reason_if (dmul (dmul quantity p) (is_contract_multiplier instrument) < minimum)
                      ''notional is below instrument minimum''))"

definition normalize_and_validate_order ::
    "instrument_spec \<Rightarrow> order_side \<Rightarrow> dec \<Rightarrow> dec option \<Rightarrow> bool \<Rightarrow> dec option \<Rightarrow> price_quantization_policy
     \<Rightarrow> order_validation_result res" where
  "normalize_and_validate_order instrument side requested_quantity price is_market reference_price policy =
     (let lot = is_lot_size_filter instrument in
      r_bind (floor_to_step requested_quantity (qty_step lot)) (\<lambda>quantity.
      r_bind (normalized_limit instrument side price is_market policy) (\<lambda>(normalized_price, errs, warns).
      let notional_price = (if is_market \<and> reference_price \<noteq> None then reference_price else normalized_price);
          errors = errs @
            reason_if (is_status instrument \<noteq> ''Trading'') ''instrument is not Trading'' @
            reason_if (quantity < min_order_qty lot) ''quantity is below instrument minimum'' @
            reason_if (quantity_maximum lot is_market < quantity) ''quantity exceeds instrument maximum'' @
            price_errors (is_price_filter instrument) normalized_price @
            notional_errors instrument quantity notional_price;
          warnings = reason_if (quantity \<noteq> requested_quantity) ''quantity rounded down to instrument step'' @ warns
      in Inr \<lparr>ov_accepted = (errors = []), ov_normalized_price = normalized_price,
              ov_normalized_quantity = quantity, ov_errors = errors, ov_warnings = warnings\<rparr>)))"

section \<open>Risk after rounding\<close>

record quantized_risk_result =
  qr_accepted :: bool
  qr_quantity :: dec
  qr_entry_price :: dec
  qr_take_profit_price :: dec
  qr_stop_price :: dec
  qr_notional :: dec
  qr_tp_profit :: dec
  qr_projected_stop_loss :: dec
  qr_recovery_quantity :: dec
  qr_recovery_profit :: dec
  qr_errors :: "string list"

fun opposite :: "order_side \<Rightarrow> order_side" where
  "opposite Buy = Sell"
| "opposite Sell = Buy"

definition recovery_sizing :: "dec \<Rightarrow> dec \<Rightarrow> dec \<Rightarrow> (dec \<times> string list) res" where
  "recovery_sizing debt profit_per_unit step =
     (if 0 < debt then
        (if profit_per_unit = 0 then Inr (0, [''recovery profit per unit is zero''])
         else r_bind (ceil_to_step (dquot debt profit_per_unit) step) (\<lambda>q. Inr (q, [])))
      else Inr (0, []))"

definition recalculate_quantized_risk ::
    "order_validation_result \<Rightarrow> instrument_spec \<Rightarrow> order_side \<Rightarrow> dec \<Rightarrow> dec \<Rightarrow> dec \<Rightarrow> dec \<Rightarrow> dec
     \<Rightarrow> quantized_risk_result res" where
  "recalculate_quantized_risk validation instrument entry_side take_profit stop recovery_debt
       maximum_notional maximum_projected_stop_loss =
     (case ov_normalized_price validation of
        None \<Rightarrow> Inl (ValueError ''normalized entry price is required for risk calculation'')
      | Some entry \<Rightarrow> (let tick = tick_size (is_price_filter instrument); exit_side = opposite entry_side in
        r_bind (quantize_limit_price take_profit tick exit_side PASSIVE) (\<lambda>tp.
        r_bind (quantize_limit_price stop tick exit_side AGGRESSIVE) (\<lambda>st.
        let quantity = ov_normalized_quantity validation;
            multiplier = is_contract_multiplier instrument;
            notional = dmul (dmul entry quantity) multiplier;
            profit_distance = (if entry_side = Buy then dsub tp entry else dsub entry tp);
            stop_dist = (if entry_side = Buy then dsub entry st else dsub st entry);
            profit_per_unit = dmul (max profit_distance 0) multiplier;
            stop_loss_per_unit = dmul (max stop_dist 0) multiplier;
            tp_profit = dmul profit_per_unit quantity;
            projected = dmul stop_loss_per_unit quantity
        in raise_when (recovery_debt < 0) ''recovery debt cannot be negative''
          (r_bind (recovery_sizing recovery_debt profit_per_unit (qty_step (is_lot_size_filter instrument)))
            (\<lambda>(recovery_quantity, recovery_errors).
            let errors = ov_errors validation @
                  reason_if (profit_distance \<le> 0) ''normalized take profit is not profitable'' @
                  reason_if (stop_dist \<le> 0) ''normalized stop is not adverse'' @
                  recovery_errors @
                  reason_if (maximum_notional < notional) ''normalized notional exceeds risk limit'' @
                  reason_if (maximum_projected_stop_loss < projected) ''normalized stop loss exceeds risk limit''
            in Inr \<lparr>qr_accepted = (errors = []), qr_quantity = quantity, qr_entry_price = entry,
                 qr_take_profit_price = tp, qr_stop_price = st, qr_notional = notional, qr_tp_profit = tp_profit,
                 qr_projected_stop_loss = projected, qr_recovery_quantity = recovery_quantity,
                 qr_recovery_profit = dmul recovery_quantity profit_per_unit, qr_errors = errors\<rparr>))))))"

section \<open>The number of steps is exact\<close>

text \<open>A quotient of two multiples of \<open>10^-k\<close> that is not an integer is too far from the next
  integer for the context to round it there.\<close>

lemma rnd_below_int:
  fixes a b :: int
  assumes b: "0 < b" and a: "0 \<le> a" "a \<le> 10 ^ 27"
  shows "\<lfloor>rnd (of_int a / of_int b)\<rfloor> = a div b" "\<lceil>rnd (of_int a / of_int b)\<rceil> = - ((- a) div b)"
proof -
  define x :: rat where "x = of_int a / of_int b"
  have fl: "\<lfloor>x\<rfloor> = a div b" and ce: "\<lceil>x\<rceil> = - ((- a) div b)"
    by (simp_all add: x_def floor_divide_of_int_eq ceiling_def minus_divide_left flip: of_int_minus)
  have x0: "0 \<le> x" using a b by (simp add: x_def)
  have xb: "x \<le> 10 ^ 27"
  proof -
    have "x \<le> of_int a" using a b by (simp add: x_def field_simps mult_le_cancel_left1)
    also have "\<dots> \<le> of_int (10 ^ 27)" using a(2) by (simp only: of_int_le_iff)
    finally show ?thesis by simp
  qed
  have rep: "representable (of_int z)" if "0 \<le> z" "z \<le> 10 ^ 27 + 1" for z :: int
    using that by (intro representable_of_int) simp
  have lo: "0 \<le> \<lfloor>x\<rfloor>" "\<lfloor>x\<rfloor> \<le> 10 ^ 27" using x0 xb floor_mono [OF xb] by simp_all
  have down: "of_int \<lfloor>x\<rfloor> \<le> rnd x" by (rule rnd_ge_representable) (use lo in \<open>auto intro: rep\<close>)
  have up: "rnd x \<le> of_int \<lceil>x\<rceil>"
    by (rule rnd_le_representable) (use lo ceiling_diff_floor_le_1 [of x] x0 in \<open>auto intro!: rep simp: le_of_int_ceiling\<close>)
  show "\<lfloor>rnd x\<rfloor> = a div b" "\<lceil>rnd x\<rceil> = - ((- a) div b)"
  proof -
    consider "x = of_int \<lfloor>x\<rfloor>" | "x \<noteq> of_int \<lfloor>x\<rfloor>" by blast
    then have "\<lfloor>rnd x\<rfloor> = \<lfloor>x\<rfloor> \<and> \<lceil>rnd x\<rceil> = \<lceil>x\<rceil>"
    proof cases
      case 1
      then have "rnd x = x" using rep [of "\<lfloor>x\<rfloor>"] lo rnd_exact [of x] by simp
      then show ?thesis by simp
    next
      case 2
      have r: "0 < a mod b" "a mod b < b"
      proof -
        have "x = of_int \<lfloor>x\<rfloor>" if "a mod b = 0"
          using that b fl by (simp add: x_def) (metis (no_types, lifting) div_mult_mod_eq add.right_neutral
              nonzero_mult_div_cancel_right of_int_0_eq_iff of_int_mult order_less_irrefl)
        with 2 have "a mod b \<noteq> 0" by metis
        with pos_mod_sign [OF b, of a] pos_mod_bound [OF b, of a] show "0 < a mod b" "a mod b < b" by linarith+
      qed
      have split: "x = of_int (a div b) + of_int (a mod b) / of_int b"
        using b by (simp add: x_def field_simps flip: of_int_mult of_int_add)
      have err: "\<bar>rnd x - x\<bar> \<le> x / (2 * 10 ^ 27)" using rnd_error [of x] x0 by simp
      have "x / (2 * 10 ^ 27) = of_int a / (of_int b * (2 * 10 ^ 27))" by (simp add: x_def)
      also have "\<dots> < 1 / of_int b"
        using a b by (simp add: field_simps)
      finally have small: "\<bar>rnd x - x\<bar> < 1 / of_int b" using err by linarith
      have "1 / of_int b \<le> (of_int (a mod b) / of_int b :: rat)"
        "of_int (a mod b) / of_int b \<le> 1 - (1 / of_int b :: rat)"
      proof -
        have "1 + a mod b \<le> b" using r by simp
        then have "1 + rat_of_int (a mod b) \<le> rat_of_int b" by linarith
        then have "(1 + of_int (a mod b)) / of_int b \<le> (1 :: rat)" using b by (subst divide_le_eq_1_pos) simp_all
        then show "of_int (a mod b) / of_int b \<le> 1 - (1 / of_int b :: rat)"
          by (simp only: add_divide_distrib le_diff_eq add.commute)
        show "1 / of_int b \<le> (of_int (a mod b) / of_int b :: rat)"
          using r b by (intro divide_right_mono) simp_all
      qed
      with split small have "of_int (a div b) < rnd x" "rnd x < of_int (a div b) + 1" by linarith+
      moreover from this have "\<lfloor>rnd x\<rfloor> = a div b" by (intro floor_unique) simp_all
      moreover have "\<lceil>rnd x\<rceil> = a div b + 1"
        using calculation(1,2) by (intro ceiling_unique) simp_all
      moreover have "\<lceil>x\<rceil> = a div b + 1"
      proof -
        have "0 < (of_int (a mod b) / of_int b :: rat)" "of_int (a mod b) / of_int b < (1 :: rat)"
          using r b by simp_all
        with split have "of_int (a div b) < x" "x < of_int (a div b) + 1" by linarith+
        then show ?thesis by (intro ceiling_unique) simp_all
      qed
      ultimately show ?thesis using fl by simp
    qed
    then show "\<lfloor>rnd x\<rfloor> = a div b" "\<lceil>rnd x\<rceil> = - ((- a) div b)" using fl ce by simp_all
  qed
qed

lemma on_gridE:
  assumes "on_grid k x" obtains a :: int where "x = of_int a / 10 ^ k"
proof -
  from assms obtain a where "x * 10 ^ k = of_int a" by (auto simp: on_grid_def Ints_def)
  then have "x = of_int a / 10 ^ k" by (simp add: field_simps)
  then show thesis by (rule that)
qed

text \<open>\<open>fits k v s\<close>: value and step have \<open>k\<close> decimals and the value fits the context.\<close>

definition fits :: "nat \<Rightarrow> dec \<Rightarrow> dec \<Rightarrow> bool" where
  "fits k v s \<longleftrightarrow> on_grid k v \<and> on_grid k s \<and> 0 < s \<and> 0 \<le> v \<and> v * 10 ^ k \<le> 10 ^ 27 \<and> s * 10 ^ k \<le> 10 ^ 27"

lemma quotient_steps:
  assumes "fits k v s"
  shows "\<lfloor>dquot v s\<rfloor> = \<lfloor>v / s\<rfloor>" "\<lceil>dquot v s\<rceil> = \<lceil>v / s\<rceil>"
proof -
  obtain a b :: int where ab: "v = of_int a / 10 ^ k" "s = of_int b / 10 ^ k"
    using assms by (auto simp: fits_def elim!: on_gridE)
  have b: "0 < b" and a: "0 \<le> a" "a \<le> 10 ^ 27"
  proof -
    have e: "of_int a = v * 10 ^ k" "of_int b = s * 10 ^ k" using ab by simp_all
    have "0 < s * 10 ^ k" "0 \<le> v * 10 ^ k" using assms by (simp_all add: fits_def)
    then show "0 < b" "0 \<le> a" by (simp_all flip: e)
    have "of_int a \<le> (of_int (10 ^ 27) :: rat)" using assms ab by (simp add: fits_def)
    then show "a \<le> 10 ^ 27" by (simp only: of_int_le_iff)
  qed
  have q: "v / s = of_int a / of_int b" using ab by simp
  show "\<lfloor>dquot v s\<rfloor> = \<lfloor>v / s\<rfloor>" "\<lceil>dquot v s\<rceil> = \<lceil>v / s\<rceil>"
    unfolding dquot_def q using rnd_below_int [OF b a]
    by (simp_all add: floor_divide_of_int_eq ceiling_def minus_divide_left flip: of_int_minus)
qed

lemma steps_representable:
  assumes f: "fits k v s" and u: "0 \<le> u" "of_int u * s \<le> v + s"
  shows "dmul (of_int u) s = of_int u * s"
proof -
  have "on_grid k (of_int u * s)"
    using f on_grid_mult [of 0 "of_int u" k s] by (simp add: fits_def)
  moreover have "\<bar>of_int u * s\<bar> * 10 ^ k \<le> (v + s) * 10 ^ k"
    using f u by (intro mult_right_mono) (simp_all add: fits_def)
  then have "\<bar>of_int u * s\<bar> * 10 ^ k \<le> 10 ^ 28"
    using f unfolding fits_def by (simp add: distrib_right)
  ultimately show ?thesis unfolding dmul_def by (intro rnd_exact on_grid_representable)
qed

lemma floor_to_step_exact:
  assumes "fits k v s"
  shows "floor_to_step v s = Inr (of_int \<lfloor>v / s\<rfloor> * s)"
proof -
  have s: "0 < s" "0 \<le> v" using assms by (simp_all add: fits_def)
  have "of_int \<lfloor>v / s\<rfloor> * s \<le> v" using s floor_divide_lower [of s v] by simp
  with s have "dmul (of_int \<lfloor>v / s\<rfloor>) s = of_int \<lfloor>v / s\<rfloor> * s" by (intro steps_representable [OF assms]) simp_all
  with s show ?thesis
    by (simp add: floor_to_step_def quantize_step_def to_integral_value_def quotient_steps [OF assms])
qed

lemma ceil_to_step_exact:
  assumes "fits k v s"
  shows "ceil_to_step v s = Inr (of_int \<lceil>v / s\<rceil> * s)"
proof -
  have s: "0 < s" "0 \<le> v" using assms by (simp_all add: fits_def)
  have "of_int \<lceil>v / s\<rceil> * s < v + s" using s ceiling_divide_lower [of s v] by (simp add: algebra_simps)
  moreover have "0 \<le> \<lceil>v / s\<rceil>" using s by (simp add: less_le_trans [of "-1" 0])
  ultimately have "dmul (of_int \<lceil>v / s\<rceil>) s = of_int \<lceil>v / s\<rceil> * s" by (intro steps_representable [OF assms]) simp_all
  with s show ?thesis
    by (simp add: ceil_to_step_def quantize_step_def to_integral_value_def quotient_steps [OF assms])
qed

text \<open>Step quantization. On values and steps with at most \<open>k\<close> decimals that fit the context the
  quantizers are exact: they return whole multiples of the step, the largest not above and the
  smallest not below the value, less than one step away, and leave multiples alone.\<close>

theorem quantizers_bracket:
  assumes "fits k v s"
  shows "\<exists>lo hi. floor_to_step v s = Inr lo \<and> ceil_to_step v s = Inr hi
    \<and> lo / s \<in> \<int> \<and> hi / s \<in> \<int> \<and> lo \<le> v \<and> v < lo + s \<and> v \<le> hi \<and> hi < v + s
    \<and> (v / s \<in> \<int> \<longrightarrow> lo = v \<and> hi = v)"
proof -
  have s: "0 < s" using assms by (simp add: fits_def)
  have "of_int \<lfloor>v / s\<rfloor> * s \<le> v" "v < of_int \<lfloor>v / s\<rfloor> * s + s" "v \<le> of_int \<lceil>v / s\<rceil> * s"
    "of_int \<lceil>v / s\<rceil> * s < v + s"
    using floor_divide_lower [OF s, of v] floor_divide_upper [OF s, of v] ceiling_divide_upper [OF s, of v]
      ceiling_divide_lower [OF s, of v] by (simp_all add: algebra_simps)
  moreover have "of_int \<lfloor>v / s\<rfloor> * s = v" "of_int \<lceil>v / s\<rceil> * s = v" if "v / s \<in> \<int>"
    using that s by (auto elim!: Ints_cases simp: field_simps)
  ultimately show ?thesis
    using s by (auto simp: floor_to_step_exact [OF assms] ceil_to_step_exact [OF assms])
qed

theorem quantizers_bracket_witness:
  "\<exists>lo hi. floor_to_step (12345 / 1000) (1 / 10) = Inr lo \<and> ceil_to_step (12345 / 1000) (1 / 10) = Inr hi
     \<and> lo \<le> 12345 / 1000 \<and> 12345 / 1000 \<le> hi"
proof -
  have "fits 3 (12345 / 1000) (1 / 10)"
    by (simp add: fits_def on_grid_def)
  from quantizers_bracket [OF this] show ?thesis by blast
qed

section \<open>What an accepted order satisfies\<close>

lemma some_and_not: "\<not> some_and P v \<longleftrightarrow> (\<forall>x. v = Some x \<longrightarrow> \<not> P x)"
  by (cases v) simp_all

lemma quantize_limit_exact:
  assumes "fits k p t" "quantize_limit_price p t side policy = Inr q"
  shows "q / t \<in> \<int> \<and> \<bar>q - p\<bar> < t \<and> (if (side = Sell) = (policy = PASSIVE) then p \<le> q else q \<le> p)"
proof -
  have t: "0 < t" using assms(1) by (simp add: fits_def)
  obtain u where q: "q = of_int u * t"
    "if (side = Sell) = (policy = PASSIVE) then u = \<lceil>p / t\<rceil> else u = \<lfloor>p / t\<rfloor>"
    using assms by (auto simp: quantize_limit_price_def Let_def floor_to_step_exact ceil_to_step_exact split: if_splits)
  then have "q / t = of_int u" using t by simp
  moreover have "of_int \<lfloor>p / t\<rfloor> * t \<le> p" "p < of_int \<lfloor>p / t\<rfloor> * t + t" "p \<le> of_int \<lceil>p / t\<rceil> * t"
    "of_int \<lceil>p / t\<rceil> * t < p + t"
    using floor_divide_lower [OF t, of p] floor_divide_upper [OF t, of p] ceiling_divide_upper [OF t, of p]
      ceiling_divide_lower [OF t, of p] by (simp_all add: algebra_simps)
  ultimately show ?thesis
    using q by (cases "(side = Sell) = (policy = PASSIVE)") (simp_all add: abs_less_iff)
qed

text \<open>Order validation. An accepted limit order has a quantity that is a whole number of steps,
  not above the requested one by construction and within the lot limits, and a price that is a
  whole number of ticks, within the price limits, less than a tick from the requested price and, with
  the passive policy, never worse for the venue side than asked: a buy is not rounded up, a sell
  not down. The instrument is trading and a minimum notional is met.\<close>

theorem accepted_limit_order:
  assumes "normalize_and_validate_order instrument side quantity (Some price) False reference policy = Inr r"
    and "ov_accepted r"
    and "fits k quantity (qty_step (is_lot_size_filter instrument))"
    and "fits k price (tick_size (is_price_filter instrument))"
  shows "\<exists>p. let q = ov_normalized_quantity r; lot = is_lot_size_filter instrument; pf = is_price_filter instrument in
      ov_normalized_price r = Some p
      \<and> q / qty_step lot \<in> \<int> \<and> q \<le> quantity \<and> quantity < q + qty_step lot
      \<and> min_order_qty lot \<le> q \<and> q \<le> max_order_qty lot
      \<and> p / tick_size pf \<in> \<int> \<and> \<bar>p - price\<bar> < tick_size pf
      \<and> (if (side = Sell) = (policy = PASSIVE) then price \<le> p else p \<le> price)
      \<and> (\<forall>lo. min_price pf = Some lo \<longrightarrow> lo \<le> p) \<and> (\<forall>hi. max_price pf = Some hi \<longrightarrow> p \<le> hi)
      \<and> is_status instrument = ''Trading''
      \<and> (\<forall>n. min_notional lot = Some n \<longrightarrow> n \<le> dmul (dmul q p) (is_contract_multiplier instrument))"
proof -
  let ?lot = "is_lot_size_filter instrument" and ?pf = "is_price_filter instrument"
  obtain p where p: "quantize_limit_price price (tick_size ?pf) side policy = Inr p"
    and acc: "ov_normalized_price r = Some p" "floor_to_step quantity (qty_step ?lot) = Inr (ov_normalized_quantity r)"
      "is_status instrument = ''Trading''" "min_order_qty ?lot \<le> ov_normalized_quantity r"
      "ov_normalized_quantity r \<le> max_order_qty ?lot" "price_errors ?pf (Some p) = []"
      "notional_errors instrument (ov_normalized_quantity r) (Some p) = []"
    using assms(1,2)
    by (auto simp: normalize_and_validate_order_def normalized_limit_def Let_def quantity_maximum_def not_less)
  obtain lo where lo: "floor_to_step quantity (qty_step ?lot) = Inr lo" "lo / qty_step ?lot \<in> \<int>" "lo \<le> quantity"
    "quantity < lo + qty_step ?lot"
    using quantizers_bracket [OF assms(3)] by blast
  then have q: "ov_normalized_quantity r = lo" using acc(2) by simp
  have "(\<forall>lo. min_price ?pf = Some lo \<longrightarrow> lo \<le> p) \<and> (\<forall>hi. max_price ?pf = Some hi \<longrightarrow> p \<le> hi)"
    using acc(6) by (auto simp: price_errors_def not_less some_and_not)
  moreover have "\<forall>n. min_notional ?lot = Some n \<longrightarrow> n \<le> dmul (dmul lo p) (is_contract_multiplier instrument)"
    using acc(7) by (auto simp: notional_errors_def q not_less)
  ultimately show ?thesis
    using acc lo q quantize_limit_exact [OF assms(4) p] by (auto simp: Let_def)
qed

definition eth_perp :: instrument_spec where
  "eth_perp = \<lparr>is_symbol = ''ETHUSDT'', is_category = linear_category, is_status = ''Trading'',
     is_base_coin = ''ETH'', is_quote_coin = ''USDT'', is_settle_coin = ''USDT'',
     is_price_filter = \<lparr>tick_size = 1 / 100, min_price = Some (1 / 100), max_price = Some 199999\<rparr>,
     is_lot_size_filter = \<lparr>qty_step = 1 / 100, min_order_qty = 1 / 100, max_order_qty = 7240,
        max_market_order_qty = Some 3620, min_notional = Some 5\<rparr>,
     is_contract_multiplier = 1, is_delivery_time_utc = None\<rparr>"

theorem accepted_limit_order_witness:
  "\<exists>r p. normalize_and_validate_order eth_perp Sell (12345 / 10000) (Some (3000123 / 1000)) False None PASSIVE = Inr r
     \<and> ov_accepted r \<and> ov_normalized_price r = Some p \<and> 3000123 / 1000 \<le> p
     \<and> ov_normalized_quantity r \<le> 12345 / 10000"
proof -
  define r where "r = \<lparr>ov_accepted = True, ov_normalized_price = Some (300013 / 100), ov_normalized_quantity = 123 / 100,
    ov_errors = [], ov_warnings = [''quantity rounded down to instrument step'', ''price rounded to instrument tick'']\<rparr>"
  have run: "normalize_and_validate_order eth_perp Sell (12345 / 10000) (Some (3000123 / 1000)) False None PASSIVE = Inr r"
    unfolding r_def by code_simp
  have "fits 4 (12345 / 10000) (qty_step (is_lot_size_filter eth_perp))"
    "fits 4 (3000123 / 1000) (tick_size (is_price_filter eth_perp))" "ov_accepted r"
    by (simp_all add: fits_def on_grid_def eth_perp_def r_def)
  from accepted_limit_order [OF run this(3,1,2)] run \<open>ov_accepted r\<close> show ?thesis by (auto simp: Let_def)
qed

section \<open>What an accepted risk result satisfies\<close>

lemma rnd_lower:
  assumes "0 \<le> x" shows "x * (1 - 1 / (2 * 10 ^ 27)) \<le> rnd x"
proof -
  have "\<bar>rnd x - x\<bar> \<le> x / (2 * 10 ^ 27)" using rnd_error [of x] assms by simp
  then have "x - x / (2 * 10 ^ 27) \<le> rnd x" by linarith
  then show ?thesis by (simp only: right_diff_distrib mult_1_right times_divide_eq_right)
qed

lemma recovery_covers:
  assumes r: "recovery_sizing debt ppu step = Inr (q, [])" and d: "0 \<le> debt" "0 \<le> ppu"
  shows "debt * (1 - 1 / (2 * 10 ^ 27)) ^ 4 \<le> dmul q ppu"
proof (cases "0 < debt")
  case False
  with d have "debt = 0" by simp
  with r show ?thesis by (simp add: recovery_sizing_def)
next
  case True
  with r d have ppu: "0 < ppu" "ceil_to_step (dquot debt ppu) step = Inr q"
    by (auto simp: recovery_sizing_def split: if_splits)
  then have s: "0 < step" and q: "q = dmul (of_int \<lceil>dquot (dquot debt ppu) step\<rceil>) step"
    by (auto simp: ceil_to_step_def quantize_step_def to_integral_value_def Let_def)
  define e :: rat where "e = 1 - 1 / (2 * 10 ^ 27)"
  have e: "0 \<le> e" by (simp add: e_def)
  define u where "u = (of_int \<lceil>dquot (dquot debt ppu) step\<rceil> :: rat)"
  have "debt / ppu * e \<le> dquot debt ppu"
    unfolding dquot_def e_def using True ppu by (intro rnd_lower) simp
  then have "debt / ppu * e / step * e \<le> dquot debt ppu / step * e"
    using s e by (intro mult_right_mono divide_right_mono) simp_all
  also have "\<dots> \<le> dquot (dquot debt ppu) step"
    unfolding dquot_def [of "dquot debt ppu"] e_def
    using True ppu s by (intro rnd_lower divide_nonneg_pos dquot_nonneg) simp_all
  also have "\<dots> \<le> u" unfolding u_def by (rule le_of_int_ceiling)
  finally have u: "debt / ppu * e / step * e \<le> u" .
  moreover have "0 \<le> debt / ppu * e / step * e" using True ppu s e by simp
  ultimately have u0: "0 \<le> u" by linarith
  have "debt / ppu * e / step * e * step * e \<le> u * step * e"
    using u s e by (intro mult_right_mono) simp_all
  also have "\<dots> \<le> q" unfolding q dmul_def e_def u_def [symmetric] using u0 s by (intro rnd_lower) simp
  finally have "debt / ppu * e / step * e * step * e * ppu * e \<le> q * ppu * e"
    using ppu e by (intro mult_right_mono) simp_all
  also have "\<dots> \<le> dmul q ppu"
    unfolding dmul_def [of q] e_def using u0 s ppu q by (intro rnd_lower) (simp add: dmul_nonneg u_def)
  finally have "debt / ppu * e / step * e * step * e * ppu * e \<le> dmul q ppu" .
  moreover have "debt / ppu * e / step * e * step * e * ppu * e = debt * e ^ 4"
    using ppu s by (simp add: power4_eq_xxxx)
  ultimately show ?thesis unfolding e_def by simp
qed

text \<open>C27. Risk after rounding. An accepted risk result rests on a validation without errors, stays
  within both limits, has a profitable take profit and an adverse stop on the right sides of the
  entry, and its recovery quantity earns the outstanding debt back at the take profit, up to four
  roundings.\<close>

theorem accepted_risk:
  assumes "recalculate_quantized_risk validation instrument side tp st debt max_notional max_loss = Inr r"
    and "qr_accepted r" and "0 < is_contract_multiplier instrument"
  shows "ov_errors validation = [] \<and> qr_notional r \<le> max_notional \<and> qr_projected_stop_loss r \<le> max_loss
    \<and> (if side = Buy then qr_stop_price r < qr_entry_price r \<and> qr_entry_price r < qr_take_profit_price r
       else qr_take_profit_price r < qr_entry_price r \<and> qr_entry_price r < qr_stop_price r)
    \<and> debt * (1 - 1 / (2 * 10 ^ 27)) ^ 4 \<le> qr_recovery_profit r"
proof -
  let ?m = "is_contract_multiplier instrument"
  have rest: "ov_errors validation = []" "qr_notional r \<le> max_notional" "qr_projected_stop_loss r \<le> max_loss"
      "if side = Buy then qr_stop_price r < qr_entry_price r \<and> qr_entry_price r < qr_take_profit_price r
       else qr_take_profit_price r < qr_entry_price r \<and> qr_entry_price r < qr_stop_price r"
    and debt: "0 \<le> debt"
    and "\<exists>d q. recovery_sizing debt (dmul d ?m) (qty_step (is_lot_size_filter instrument)) = Inr (q, [])
       \<and> 0 \<le> d \<and> qr_recovery_profit r = dmul q (dmul d ?m)"
    using assms(1,2)
    by (cases side; fastforce simp: recalculate_quantized_risk_def Let_def not_less not_le split: option.splits)+
  then obtain d q where d: "recovery_sizing debt (dmul d ?m) (qty_step (is_lot_size_filter instrument)) = Inr (q, [])"
    "0 \<le> d" "qr_recovery_profit r = dmul q (dmul d ?m)" by blast
  from d(2) assms(3) have "0 \<le> dmul d ?m" by (simp add: dmul_nonneg)
  from recovery_covers [OF d(1) debt this] rest d(3) show ?thesis by simp
qed

theorem accepted_risk_witness:
  "\<exists>r. recalculate_quantized_risk \<lparr>ov_accepted = True, ov_normalized_price = Some 3000, ov_normalized_quantity = 1,
       ov_errors = [], ov_warnings = []\<rparr> eth_perp Sell 2975 (30045 / 10) 10 5000 25 = Inr r
     \<and> qr_stop_price r > 3000 \<and> qr_projected_stop_loss r \<le> 25"
proof -
  let ?v = "\<lparr>ov_accepted = True, ov_normalized_price = Some 3000, ov_normalized_quantity = 1,
       ov_errors = [], ov_warnings = []\<rparr>"
  define r where "r = \<lparr>qr_accepted = True, qr_quantity = 1, qr_entry_price = 3000, qr_take_profit_price = 2975,
     qr_stop_price = 30045 / 10, qr_notional = 3000, qr_tp_profit = 25, qr_projected_stop_loss = 45 / 10,
     qr_recovery_quantity = 4 / 10, qr_recovery_profit = 10, qr_errors = []\<rparr>"
  have run: "recalculate_quantized_risk ?v eth_perp Sell 2975 (30045 / 10) 10 5000 25 = Inr r"
    unfolding r_def by code_simp
  have "qr_accepted r" "0 < is_contract_multiplier eth_perp" by (simp_all add: r_def eth_perp_def)
  from accepted_risk [OF run this] run show ?thesis by (auto simp: r_def)
qed

end
