(* ===== verification/Risk.thy ===== *)
theory Risk
  imports Instruments
begin

text \<open>
  \<open>domain/risk.py\<close>: the independent risk gate. \<open>evaluate\<close> collects one reason per breached limit, in
  the order of the source; a proposal is approved exactly if there is none.
\<close>

record trade_proposal =
  tp_symbol :: string
  tp_side :: order_side
  tp_quantity :: dec
  tp_price :: dec
  tp_notional :: dec
  tp_projected_stop_loss :: dec
  opens_new_level :: bool

definition mk_trade_proposal :: "trade_proposal \<Rightarrow> trade_proposal res" where
  [post_init]: "mk_trade_proposal p = check_all
    [text_guard (tp_symbol p) ''symbol'',
     (tp_quantity p \<le> 0, ''quantity must be positive''),
     (tp_price p \<le> 0, ''price must be positive''),
     (tp_notional p \<le> 0, ''notional must be positive''),
     (tp_projected_stop_loss p < 0, ''projected stop loss cannot be negative'')] (Inr p)"

record risk_state =
  current_perp_quantity :: dec
  current_perp_notional :: dec
  post_trade_margin_usage :: dec
  post_trade_liquidation_distance :: dec
  confirmed_recovery_debt :: dec
  realized_cycle_loss :: dec
  daily_realized_loss :: dec
  entries_for_level :: int
  active_levels :: int
  order_requests_last_minute :: int
  consecutive_reconciliation_failures :: int
  market_data_fresh :: bool
  reconciliation_succeeded :: bool

definition mk_risk_state :: "risk_state \<Rightarrow> risk_state res" where
  [post_init]: "mk_risk_state s = check_all
    [(current_perp_quantity s < 0, ''current perp quantity cannot be negative''),
     (current_perp_notional s < 0, ''current perp notional cannot be negative''),
     (post_trade_margin_usage s < 0, ''post trade margin usage cannot be negative''),
     (post_trade_liquidation_distance s < 0, ''post trade liquidation distance cannot be negative''),
     (confirmed_recovery_debt s < 0, ''confirmed recovery debt cannot be negative''),
     (realized_cycle_loss s < 0, ''realized cycle loss cannot be negative''),
     (daily_realized_loss s < 0, ''daily realized loss cannot be negative''),
     (entries_for_level s < 0, ''entries for level cannot be negative''),
     (active_levels s < 0, ''active levels cannot be negative''),
     (order_requests_last_minute s < 0, ''order requests last minute cannot be negative''),
     (consecutive_reconciliation_failures s < 0, ''consecutive reconciliation failures cannot be negative'')]
    (Inr s)"

record risk_limits =
  maximum_perp_quantity :: dec
  maximum_perp_notional :: dec
  maximum_margin_usage :: dec
  minimum_liquidation_distance :: dec
  maximum_recovery_debt :: dec
  maximum_projected_stop_loss :: dec
  maximum_realized_cycle_loss :: dec
  maximum_daily_realized_loss :: dec
  maximum_entries_per_level :: int
  maximum_active_levels :: int
  maximum_order_requests_per_minute :: int
  maximum_reconciliation_failures :: int

definition mk_risk_limits :: "risk_limits \<Rightarrow> risk_limits res" where
  [post_init]: "mk_risk_limits l = check_all
    [(maximum_perp_quantity l \<le> 0, ''maximum perp quantity must be positive''),
     (maximum_perp_notional l \<le> 0, ''maximum perp notional must be positive''),
     (maximum_margin_usage l \<le> 0, ''maximum margin usage must be positive''),
     (minimum_liquidation_distance l \<le> 0, ''minimum liquidation distance must be positive''),
     (maximum_recovery_debt l \<le> 0, ''maximum recovery debt must be positive''),
     (maximum_projected_stop_loss l \<le> 0, ''maximum projected stop loss must be positive''),
     (maximum_realized_cycle_loss l \<le> 0, ''maximum realized cycle loss must be positive''),
     (maximum_daily_realized_loss l \<le> 0, ''maximum daily realized loss must be positive''),
     (maximum_entries_per_level l \<le> 0, ''maximum entries per level must be positive''),
     (maximum_active_levels l \<le> 0, ''maximum active levels must be positive''),
     (maximum_order_requests_per_minute l \<le> 0, ''maximum order requests per minute must be positive''),
     (maximum_reconciliation_failures l \<le> 0, ''maximum reconciliation failures must be positive'')]
    (Inr l)"

record risk_decision =
  approved :: bool
  approved_quantity :: "dec option"
  reasons :: "string list"
  requires_operator_ack :: bool

definition risk_checks :: "trade_proposal \<Rightarrow> risk_state \<Rightarrow> risk_limits \<Rightarrow> (bool \<times> string) list" where
  "risk_checks p s l =
    [(maximum_perp_quantity l < dadd (current_perp_quantity s) (tp_quantity p), ''maximum perpetual quantity exceeded''),
     (maximum_perp_notional l < dadd (current_perp_notional s) (tp_notional p), ''maximum perpetual notional exceeded''),
     (maximum_margin_usage l < post_trade_margin_usage s, ''maximum margin usage exceeded''),
     (post_trade_liquidation_distance s < minimum_liquidation_distance l, ''minimum liquidation distance breached''),
     (maximum_recovery_debt l < confirmed_recovery_debt s, ''maximum recovery debt exceeded''),
     (maximum_projected_stop_loss l < tp_projected_stop_loss p, ''maximum projected stop loss exceeded''),
     (maximum_realized_cycle_loss l < realized_cycle_loss s, ''maximum realized cycle loss exceeded''),
     (maximum_daily_realized_loss l < daily_realized_loss s, ''maximum daily realized loss exceeded''),
     (maximum_entries_per_level l \<le> entries_for_level s, ''maximum entries per level reached''),
     (opens_new_level p \<and> maximum_active_levels l \<le> active_levels s, ''maximum active levels reached''),
     (maximum_order_requests_per_minute l \<le> order_requests_last_minute s, ''maximum order request rate reached''),
     (maximum_reconciliation_failures l \<le> consecutive_reconciliation_failures s, ''maximum reconciliation failures reached''),
     (\<not> market_data_fresh s, ''market data is stale''),
     (\<not> reconciliation_succeeded s, ''reconciliation has not succeeded'')]"

definition operator_reasons :: "string list" where
  "operator_reasons = [''maximum realized cycle loss exceeded'', ''maximum daily realized loss exceeded'',
     ''reconciliation has not succeeded'']"

definition evaluate :: "trade_proposal \<Rightarrow> risk_state \<Rightarrow> risk_limits \<Rightarrow> risk_decision" where
  "evaluate p s l = (let rs = map snd (filter fst (risk_checks p s l))
     in \<lparr>approved = (rs = []), approved_quantity = (if rs = [] then Some (tp_quantity p) else None), reasons = rs,
         requires_operator_ack = list_ex (\<lambda>r. List.member operator_reasons r) rs\<rparr>)"

section \<open>The gate\<close>

definition within_limits :: "trade_proposal \<Rightarrow> risk_state \<Rightarrow> risk_limits \<Rightarrow> bool" where
  "within_limits p s l \<longleftrightarrow>
     dadd (current_perp_quantity s) (tp_quantity p) \<le> maximum_perp_quantity l
     \<and> dadd (current_perp_notional s) (tp_notional p) \<le> maximum_perp_notional l
     \<and> post_trade_margin_usage s \<le> maximum_margin_usage l
     \<and> minimum_liquidation_distance l \<le> post_trade_liquidation_distance s
     \<and> confirmed_recovery_debt s \<le> maximum_recovery_debt l
     \<and> tp_projected_stop_loss p \<le> maximum_projected_stop_loss l
     \<and> realized_cycle_loss s \<le> maximum_realized_cycle_loss l
     \<and> daily_realized_loss s \<le> maximum_daily_realized_loss l
     \<and> entries_for_level s < maximum_entries_per_level l
     \<and> (opens_new_level p \<longrightarrow> active_levels s < maximum_active_levels l)
     \<and> order_requests_last_minute s < maximum_order_requests_per_minute l
     \<and> consecutive_reconciliation_failures s < maximum_reconciliation_failures l
     \<and> market_data_fresh s \<and> reconciliation_succeeded s"

lemma approved_iff: "approved (evaluate p s l) \<longleftrightarrow> within_limits p s l"
  by (simp add: evaluate_def Let_def risk_checks_def within_limits_def filter_empty_conv not_less not_le)

lemma requires_ack_iff:
  "requires_operator_ack (evaluate p s l) \<longleftrightarrow> maximum_realized_cycle_loss l < realized_cycle_loss s
     \<or> maximum_daily_realized_loss l < daily_realized_loss s \<or> \<not> reconciliation_succeeded s"
  unfolding evaluate_def Let_def risk_decision.simps
  by (simp add: list_ex_iff risk_checks_def operator_reasons_def)

definition looser :: "risk_limits \<Rightarrow> risk_limits \<Rightarrow> bool" where
  "looser l l' \<longleftrightarrow> maximum_perp_quantity l \<le> maximum_perp_quantity l' \<and> maximum_perp_notional l \<le> maximum_perp_notional l'
     \<and> maximum_margin_usage l \<le> maximum_margin_usage l' \<and> minimum_liquidation_distance l' \<le> minimum_liquidation_distance l
     \<and> maximum_recovery_debt l \<le> maximum_recovery_debt l' \<and> maximum_projected_stop_loss l \<le> maximum_projected_stop_loss l'
     \<and> maximum_realized_cycle_loss l \<le> maximum_realized_cycle_loss l'
     \<and> maximum_daily_realized_loss l \<le> maximum_daily_realized_loss l'
     \<and> maximum_entries_per_level l \<le> maximum_entries_per_level l' \<and> maximum_active_levels l \<le> maximum_active_levels l'
     \<and> maximum_order_requests_per_minute l \<le> maximum_order_requests_per_minute l'
     \<and> maximum_reconciliation_failures l \<le> maximum_reconciliation_failures l'"

text \<open>The risk gate. A proposal is approved exactly if every limit, the freshness of the market
  data and the reconciliation hold; the approved quantity is the proposed one, never resized, and
  absent on a veto; an operator acknowledgement is required exactly for the cycle loss, the daily loss
  and a failed reconciliation; and loosening limits never turns an approval into a veto.\<close>

theorem risk_gate:
  "(approved (evaluate p s l) \<longleftrightarrow> within_limits p s l)
   \<and> approved_quantity (evaluate p s l) = (if within_limits p s l then Some (tp_quantity p) else None)
   \<and> (requires_operator_ack (evaluate p s l) \<longleftrightarrow> maximum_realized_cycle_loss l < realized_cycle_loss s
        \<or> maximum_daily_realized_loss l < daily_realized_loss s \<or> \<not> reconciliation_succeeded s)
   \<and> (looser l l' \<longrightarrow> approved (evaluate p s l) \<longrightarrow> approved (evaluate p s l'))"
proof -
  have q: "approved_quantity (evaluate p s l) = (if approved (evaluate p s l) then Some (tp_quantity p) else None)"
    by (simp add: evaluate_def Let_def)
  have "looser l l' \<Longrightarrow> within_limits p s l \<Longrightarrow> within_limits p s l'"
    unfolding looser_def within_limits_def by (intro conjI; (elim conjE, linarith | blast intro: order_less_le_trans))
  then show ?thesis using q by (simp add: approved_iff requires_ack_iff)
qed

definition sample_limits :: risk_limits where
  "sample_limits = \<lparr>maximum_perp_quantity = 10, maximum_perp_notional = 40000, maximum_margin_usage = 1 / 2,
     minimum_liquidation_distance = 200, maximum_recovery_debt = 100, maximum_projected_stop_loss = 25,
     maximum_realized_cycle_loss = 50, maximum_daily_realized_loss = 100, maximum_entries_per_level = 5,
     maximum_active_levels = 4, maximum_order_requests_per_minute = 20, maximum_reconciliation_failures = 3\<rparr>"

definition sample_state :: risk_state where
  "sample_state = \<lparr>current_perp_quantity = 2, current_perp_notional = 6000, post_trade_margin_usage = 1 / 5,
     post_trade_liquidation_distance = 500, confirmed_recovery_debt = 10, realized_cycle_loss = 5,
     daily_realized_loss = 5, entries_for_level = 1, active_levels = 1, order_requests_last_minute = 2,
     consecutive_reconciliation_failures = 0, market_data_fresh = True, reconciliation_succeeded = True\<rparr>"

definition sample_proposal :: trade_proposal where
  "sample_proposal = \<lparr>tp_symbol = ''ETHUSDT'', tp_side = Sell, tp_quantity = 1, tp_price = 3000, tp_notional = 3000,
     tp_projected_stop_loss = 5, opens_new_level = True\<rparr>"

theorem risk_gate_witness:
  "approved (evaluate sample_proposal sample_state (sample_limits\<lparr>maximum_active_levels := 8\<rparr>))"
proof -
  have "looser sample_limits (sample_limits\<lparr>maximum_active_levels := 8\<rparr>)" by code_simp
  moreover have "within_limits sample_proposal sample_state sample_limits" by code_simp
  ultimately show ?thesis using risk_gate [of sample_proposal sample_state sample_limits] by blast
qed

end
