(* ===== verification/Live_Recovery.thy ===== *)
theory Live_Recovery
  imports Instrument_Rules Risk Virtual_Levels
begin

text \<open>
  \<open>domain/live_recovery.py\<close>: the debt of confirmed stop losses, its allocation to the next hedge and
  its settlement, and the planner that sizes the recovery entry. \<open>debt_step\<close> applies one of the
  reducers; the lemmas follow whole sequences of them: debt is neither lost nor invented.
\<close>

section \<open>Debt states\<close>

record recovery_debt_state =
  projected_debt :: dec
  confirmed_debt :: dec
  allocated_debt :: dec
  remaining_debt :: dec

definition mk_recovery_debt_state :: "recovery_debt_state \<Rightarrow> recovery_debt_state res" where
  [post_init]: "mk_recovery_debt_state d = check_all
    [(projected_debt d < 0, ''projected debt cannot be negative''),
     (confirmed_debt d < 0, ''confirmed debt cannot be negative''),
     (allocated_debt d < 0, ''allocated debt cannot be negative''),
     (remaining_debt d < 0, ''remaining debt cannot be negative''),
     (confirmed_debt d \<noteq> dadd (allocated_debt d) (remaining_debt d),
      ''confirmed debt must equal allocated plus remaining debt'')] (Inr d)"

definition empty_debt :: "dec \<Rightarrow> recovery_debt_state res" where
  "empty_debt projected = mk_recovery_debt_state
     \<lparr>projected_debt = projected, confirmed_debt = 0, allocated_debt = 0, remaining_debt = 0\<rparr>"

record recovery_debt_snapshot =
  rd_level_id :: int
  rd_debt :: recovery_debt_state
  rd_version :: int
  rd_updated_at :: datetime

definition mk_recovery_debt_snapshot :: "recovery_debt_snapshot \<Rightarrow> recovery_debt_snapshot res" where
  [post_init]: "mk_recovery_debt_snapshot s = check_all
    [(rd_level_id s \<le> 0, ''level ID must be positive''),
     (rd_version s \<le> 0, ''debt snapshot version must be positive''),
     utc_guard (rd_updated_at s) ''update time''] (Inr s)"

section \<open>Reducers\<close>

definition add_confirmed_stop_debt :: "recovery_debt_state \<Rightarrow> dec \<Rightarrow> recovery_debt_state res" where
  "add_confirmed_stop_debt d debt = raise_when (debt < 0) ''actual stop debt cannot be negative''
    (mk_recovery_debt_state (d\<lparr>confirmed_debt := dadd (confirmed_debt d) debt,
       remaining_debt := dadd (remaining_debt d) debt\<rparr>))"

definition allocate_confirmed_debt :: "recovery_debt_state \<Rightarrow> recovery_debt_state res" where
  "allocate_confirmed_debt d = raise_when (allocated_debt d \<noteq> 0) ''recovery debt is already allocated to an active hedge''
    (mk_recovery_debt_state (d\<lparr>allocated_debt := remaining_debt d, remaining_debt := 0\<rparr>))"

definition settled_amount :: "recovery_debt_state \<Rightarrow> dec \<Rightarrow> dec \<Rightarrow> dec" where
  "settled_amount d realized zone = min (max (dsub realized zone) 0) (allocated_debt d)"

definition settle_recovery_take_profit :: "recovery_debt_state \<Rightarrow> dec \<Rightarrow> dec \<Rightarrow> recovery_debt_state res" where
  "settle_recovery_take_profit d realized zone =
     raise_when (allocated_debt d = 0) ''recovery TP requires explicitly allocated debt''
    (raise_when (zone < 0) ''zone budget cannot be negative''
    (let paid = settled_amount d realized zone;
         unpaid = dsub (allocated_debt d) paid
     in mk_recovery_debt_state (d\<lparr>confirmed_debt := dsub (confirmed_debt d) paid, allocated_debt := 0,
          remaining_debt := dadd (remaining_debt d) unpaid\<rparr>)))"

definition release_allocated_debt :: "recovery_debt_state \<Rightarrow> recovery_debt_state res" where
  "release_allocated_debt d = (if allocated_debt d = 0 then Inr d
     else mk_recovery_debt_state (d\<lparr>allocated_debt := 0, remaining_debt := dadd (remaining_debt d) (allocated_debt d)\<rparr>))"

section \<open>The recovery planner\<close>

datatype locked_level_action = CLOSE_OPTION_STRATEGY

record recovery_entry_plan =
  rp_approved :: bool
  rp_raw_desired_quantity :: dec
  rp_entry_price :: dec
  rp_quantity :: "dec option"
  rp_expected_take_profit :: dec
  rp_allocated_debt :: dec
  rp_reasons :: "string list"
  rp_locked_action :: "locked_level_action option"

definition sell_proposal :: "quantized_risk_result \<Rightarrow> trade_proposal res" where
  "sell_proposal q = mk_trade_proposal \<lparr>tp_symbol = ''ETHUSDT'', tp_side = Sell, tp_quantity = qr_quantity q,
     tp_price = qr_entry_price q, tp_notional = qr_notional q,
     tp_projected_stop_loss = qr_projected_stop_loss q, opens_new_level = True\<rparr>"

definition plan_recovery ::
    "hedge_level \<Rightarrow> recovery_debt_state \<Rightarrow> instrument_spec \<Rightarrow> risk_state \<Rightarrow> risk_limits \<Rightarrow> recovery_entry_plan res" where
  "plan_recovery level d instrument rs limits =
     raise_when (allocated_debt d \<noteq> 0) ''cannot plan while recovery debt is already allocated''
    (raise_when (confirmed_recovery_debt rs < confirmed_debt d) ''risk state underreports the level recovery debt''
    (raise_when (is_category instrument \<noteq> linear_category \<or> is_symbol instrument \<noteq> ''ETHUSDT'')
       ''recovery requires ETHUSDT linear''
    (raise_when (tp_distance level \<le> 0) ''recovery level requires positive TP distance''
    (let required = dadd (option_budget level) (confirmed_debt d);
         raw = dquot required (tp_distance level)
     in r_bind (ceil_to_step raw (qty_step (is_lot_size_filter instrument))) (\<lambda>rounded_up.
        r_bind (normalize_and_validate_order instrument Sell rounded_up (Some (entry_price level)) False None PASSIVE) (\<lambda>validation.
        r_bind (recalculate_quantized_risk validation instrument Sell (tp_price level) (stop_price level)
            (confirmed_debt d) (maximum_perp_notional limits) (maximum_projected_stop_loss limits)) (\<lambda>quantized.
        let reasons0 = qr_errors quantized @ reason_if (qr_tp_profit quantized < required)
              ''quantized TP profit does not cover zone budget and confirmed debt''
        in r_bind (if reasons0 = [] then r_bind (sell_proposal quantized) (\<lambda>p. Inr (reasons (evaluate p rs limits)))
                   else Inr []) (\<lambda>risk_reasons.
        let rsns = reasons0 @ risk_reasons; ok = (rsns = [])
        in Inr \<lparr>rp_approved = ok, rp_raw_desired_quantity = raw, rp_entry_price = qr_entry_price quantized,
             rp_quantity = (if ok then Some (qr_quantity quantized) else None),
             rp_expected_take_profit = qr_tp_profit quantized,
             rp_allocated_debt = (if ok then confirmed_debt d else 0), rp_reasons = rsns,
             rp_locked_action = (if ok then None else Some CLOSE_OPTION_STRATEGY)\<rparr>))))))))"

section \<open>Sequences of debt operations\<close>

datatype debt_op = AddStop dec | Allocate | Settle dec dec | Release

fun debt_step :: "recovery_debt_state \<Rightarrow> debt_op \<Rightarrow> recovery_debt_state res" where
  "debt_step d (AddStop x) = add_confirmed_stop_debt d x"
| "debt_step d Allocate = allocate_confirmed_debt d"
| "debt_step d (Settle realized zone) = settle_recovery_take_profit d realized zone"
| "debt_step d Release = release_allocated_debt d"

text \<open>What an operation adds to the debt, and what it pays of it, in exact arithmetic.\<close>

fun debt_added :: "debt_op \<Rightarrow> rat" where
  "debt_added (AddStop x) = x"
| "debt_added _ = 0"

fun debt_paid :: "recovery_debt_state \<Rightarrow> debt_op \<Rightarrow> rat" where
  "debt_paid d (Settle realized zone) = min (max (realized - zone) 0) (allocated_debt d)"
| "debt_paid d _ = 0"

definition exact_debt :: "nat \<Rightarrow> recovery_debt_state \<Rightarrow> bool" where
  "exact_debt k d \<longleftrightarrow> on_grid k (allocated_debt d) \<and> on_grid k (remaining_debt d)
     \<and> 0 \<le> projected_debt d \<and> 0 \<le> allocated_debt d \<and> 0 \<le> remaining_debt d
     \<and> confirmed_debt d = allocated_debt d + remaining_debt d"

fun exact_op :: "nat \<Rightarrow> debt_op \<Rightarrow> bool" where
  "exact_op k (AddStop x) = (on_grid k x \<and> 0 \<le> x)"
| "exact_op k (Settle realized zone) = (on_grid k realized \<and> on_grid k zone \<and> 0 \<le> realized \<and> 0 \<le> zone
     \<and> realized * 10 ^ k \<le> 10 ^ 28)"
| "exact_op k _ = True"

lemma exact_profit:
  assumes "exact_op k (Settle realized zone)"
  shows "max (dsub realized zone) 0 = max (realized - zone) 0"
proof (cases "zone \<le> realized")
  case True
  then have "rnd (realized - zone) = realized - zone"
    using assms by (intro rnd_on_grid [of k _ realized]) auto
  then show ?thesis by (simp add: dsub_def)
next
  case False
  then have "dsub realized zone \<le> 0" by (simp add: dsub_def)
  with False show ?thesis by simp
qed

fun op_enabled :: "recovery_debt_state \<Rightarrow> debt_op \<Rightarrow> bool" where
  "op_enabled d Allocate = (allocated_debt d = 0)"
| "op_enabled d (Settle _ _) = (allocated_debt d \<noteq> 0)"
| "op_enabled d _ = True"

lemma debt_step_exact:
  assumes e: "exact_debt k d" and o: "exact_op k op"
    and fit: "(confirmed_debt d + debt_added op) * 10 ^ k \<le> 10 ^ 28" and en: "op_enabled d op"
  shows "\<exists>d'. debt_step d op = Inr d' \<and> exact_debt k d' \<and> projected_debt d' = projected_debt d
    \<and> confirmed_debt d' = confirmed_debt d + debt_added op - debt_paid d op"
proof -
  let ?A = "allocated_debt d" and ?R = "remaining_debt d"
  have d: "on_grid k ?A" "on_grid k ?R" "0 \<le> ?A" "0 \<le> ?R" "0 \<le> projected_debt d" "confirmed_debt d = ?A + ?R"
    using e by (simp_all add: exact_debt_def)
  have rnd: "rnd x = x" if "on_grid k x" "0 \<le> x" "x \<le> confirmed_debt d + debt_added op" for x
    using rnd_on_grid [OF that fit] .
  show ?thesis
  proof (cases op)
    case (AddStop x)
    then have x: "on_grid k x" "0 \<le> x" using o by simp_all
    have "rnd (?A + ?R + x) = ?A + ?R + x" "rnd (?R + x) = ?R + x" "rnd (?A + (?R + x)) = ?A + (?R + x)"
      using d x AddStop by (auto intro!: rnd)
    then show ?thesis
      using AddStop d x by (simp add: add_confirmed_stop_debt_def mk_recovery_debt_state_def dadd_def exact_debt_def
          on_grid_add check_all.simps)
  next
    case Allocate
    have "rnd ?R = ?R" using d Allocate by (auto intro!: rnd)
    then show ?thesis
      using Allocate d en by (simp add: allocate_confirmed_debt_def mk_recovery_debt_state_def exact_debt_def check_all.simps)
  next
    case (Settle realized zone)
    define p where "p = settled_amount d realized zone"
    have p: "p = min (max (realized - zone) 0) ?A" "p = debt_paid d op"
      using exact_profit [of k realized zone] o Settle by (simp_all add: p_def settled_amount_def)
    have g: "on_grid k p" "0 \<le> p" "p \<le> ?A"
      using o Settle d unfolding p(1) by (auto intro!: on_grid_min on_grid_max)
    have f: "dsub ?A p = ?A - p" "dsub (confirmed_debt d) p = ?A + ?R - p" "dadd ?R (?A - p) = ?R + (?A - p)"
      "dadd 0 (?R + (?A - p)) = ?R + (?A - p)"
      using d g Settle by (auto intro!: rnd simp: dadd_def dsub_def)
    have en': "?A \<noteq> 0" "0 \<le> zone" using en o Settle by simp_all
    define d' where "d' = d\<lparr>confirmed_debt := ?A + ?R - p, allocated_debt := 0, remaining_debt := ?R + (?A - p)\<rparr>"
    have "debt_step d op = mk_recovery_debt_state d'"
      unfolding Settle d'_def
      by (simp only: debt_step.simps settle_recovery_take_profit_def p_def [symmetric] Let_def f en' raise_if_def)
         (use en' in simp)
    also have "\<dots> = Inr d'"
      using d g f(4) by (simp add: mk_recovery_debt_state_def check_all.simps d'_def)
    finally have "debt_step d op = Inr d'" .
    moreover have "exact_debt k d'"
      unfolding exact_debt_def d'_def using d g by (auto intro!: on_grid_add on_grid_diff)
    moreover have "confirmed_debt d' = confirmed_debt d + debt_added op - p"
      using d(6) Settle by (simp add: d'_def)
    ultimately show ?thesis unfolding p(2) [symmetric] by (auto simp: d'_def)
  next
    case Release
    have "rnd (?R + ?A) = ?R + ?A" using d Release by (auto intro!: rnd)
    then show ?thesis
      using Release d e by (simp add: release_allocated_debt_def mk_recovery_debt_state_def dadd_def exact_debt_def
          on_grid_add check_all.simps)
  qed
qed

definition run_debt :: "recovery_debt_state \<Rightarrow> debt_op list \<Rightarrow> recovery_debt_state res" where
  "run_debt d ops = r_foldl debt_step d ops"

fun total_paid :: "recovery_debt_state \<Rightarrow> debt_op list \<Rightarrow> rat" where
  "total_paid d [] = 0"
| "total_paid d (op # ops) = debt_paid d op + (case debt_step d op of Inl _ \<Rightarrow> 0 | Inr d1 \<Rightarrow> total_paid d1 ops)"

definition total_added :: "debt_op list \<Rightarrow> rat" where
  "total_added ops = sum_list (map debt_added ops)"

lemma debt_added_nonneg: "exact_op k op \<Longrightarrow> 0 \<le> debt_added op"
  by (cases op) simp_all

lemma total_added_nonneg: "\<forall>op \<in> set ops. exact_op k op \<Longrightarrow> 0 \<le> total_added ops"
  unfolding total_added_def by (intro sum_list_nonneg) (auto dest: debt_added_nonneg)

lemma debt_paid_bounds: "exact_debt k d \<Longrightarrow> 0 \<le> debt_paid d op \<and> debt_paid d op \<le> allocated_debt d"
  by (cases op) (auto simp: exact_debt_def)

lemma debt_step_enabled: "debt_step d op = Inr d' \<Longrightarrow> op_enabled d op"
  by (cases op) (auto simp: allocate_confirmed_debt_def settle_recovery_take_profit_def)

text \<open>C24. Debt conservation. Along any sequence of stop, allocation, settlement and release operations
  that do not raise, starting from a consistent state and on values the context can hold: the debt
  is always the allocated plus the remaining part, nothing is negative, and the final debt is the
  initial one plus all stops minus all payments. An operation raises only if an allocation exists
  already (allocate) or is missing (settle): the consistency check never fires.\<close>

theorem debt_conservation:
  assumes "run_debt d ops = Inr d'" and "exact_debt k d" and "\<forall>op \<in> set ops. exact_op k op"
    and "(confirmed_debt d + total_added ops) * 10 ^ k \<le> 10 ^ 28"
  shows "exact_debt k d' \<and> confirmed_debt d' = confirmed_debt d + total_added ops - total_paid d ops
    \<and> 0 \<le> total_paid d ops
    \<and> (\<forall>op. exact_op k op \<and> (confirmed_debt d' + debt_added op) * 10 ^ k \<le> 10 ^ 28 \<longrightarrow>
         is_ok (debt_step d' op) = op_enabled d' op)"
proof -
  have "exact_debt k d' \<and> confirmed_debt d' = confirmed_debt d + total_added ops - total_paid d ops \<and> 0 \<le> total_paid d ops"
    using assms unfolding run_debt_def
  proof (induction ops arbitrary: d)
    case Nil
    then show ?case by (simp add: total_added_def)
  next
    case (Cons op ops)
    then obtain d1 where d1: "debt_step d op = Inr d1" "r_foldl debt_step d1 ops = Inr d'" by auto
    have t: "total_added (op # ops) = debt_added op + total_added ops" by (simp add: total_added_def)
    have nn: "0 \<le> total_added ops" using total_added_nonneg Cons.prems(3) by (metis list.set_intros(2))
    note fit = Cons.prems(4) [unfolded t]
    have "(confirmed_debt d + debt_added op) * 10 ^ k \<le> (confirmed_debt d + (debt_added op + total_added ops)) * 10 ^ k"
      using nn by (intro mult_right_mono) simp_all
    then have fit1: "(confirmed_debt d + debt_added op) * 10 ^ k \<le> 10 ^ 28" using fit by linarith
    have s: "exact_debt k d1" "confirmed_debt d1 = confirmed_debt d + debt_added op - debt_paid d op"
      using debt_step_exact [OF Cons.prems(2) _ fit1 debt_step_enabled [OF d1(1)]] Cons.prems(3) d1(1) by auto
    have p: "0 \<le> debt_paid d op" using debt_paid_bounds [OF Cons.prems(2)] by blast
    have "(confirmed_debt d1 + total_added ops) * 10 ^ k \<le> (confirmed_debt d + (debt_added op + total_added ops)) * 10 ^ k"
      using p s(2) by (intro mult_right_mono) simp_all
    then have "(confirmed_debt d1 + total_added ops) * 10 ^ k \<le> 10 ^ 28" using fit by linarith
    from Cons.IH [OF d1(2) s(1) _ this] Cons.prems(3) s(2) p t d1(1) show ?case by simp
  qed
  moreover have "is_ok (debt_step d' op) = op_enabled d' op"
    if "exact_debt k d'" "exact_op k op" "(confirmed_debt d' + debt_added op) * 10 ^ k \<le> 10 ^ 28" for op
    using debt_step_exact [OF that] debt_step_enabled [of d' op] by (auto simp: is_ok_iff)
  ultimately show ?thesis by blast
qed

definition no_debt :: recovery_debt_state where
  "no_debt = \<lparr>projected_debt = 0, confirmed_debt = 0, allocated_debt = 0, remaining_debt = 0\<rparr>"

theorem debt_conservation_witness:
  "\<exists>d'. run_debt no_debt [AddStop (9 / 2), AddStop (1 / 2), Allocate, Settle 53 50, AddStop 1] = Inr d'
     \<and> confirmed_debt d' = 3"
proof -
  let ?ops = "[AddStop (9 / 2), AddStop (1 / 2), Allocate, Settle 53 50, AddStop 1]"
  have "is_ok (run_debt no_debt ?ops)" by code_simp
  then obtain d' where d': "run_debt no_debt ?ops = Inr d'" by (auto simp: is_ok_iff)
  have p: "total_paid no_debt ?ops = 3" by code_simp
  have "exact_debt 1 no_debt" by (simp add: exact_debt_def no_debt_def)
  moreover have "\<forall>op \<in> set ?ops. exact_op 1 op" by (simp add: on_grid_def)
  ultimately show ?thesis
    using debt_conservation [OF d', of 1] d' p by (auto simp: no_debt_def total_added_def)
qed

section \<open>What an approved plan satisfies\<close>

lemma validated_limit:
  assumes "normalize_and_validate_order instrument side quantity (Some price) False reference policy = Inr v"
    and "ov_errors v = []"
  shows "min_order_qty (is_lot_size_filter instrument) \<le> ov_normalized_quantity v"
    "\<exists>p. ov_normalized_price v = Some p \<and> quantize_limit_price price (tick_size (is_price_filter instrument)) side policy = Inr p"
  using assms by (auto simp: normalize_and_validate_order_def normalized_limit_def Let_def not_less)

lemma recalculated_fields:
  assumes "recalculate_quantized_risk v instrument side tp st debt n l = Inr r"
  shows "ov_normalized_price v = Some (qr_entry_price r)" "qr_quantity r = ov_normalized_quantity v"
    "qr_errors r = [] \<Longrightarrow> ov_errors v = []"
  using assms by (auto simp: recalculate_quantized_risk_def Let_def split: option.splits)

lemma recalculated_sell:
  assumes "recalculate_quantized_risk v instrument Sell tp st debt n l = Inr r" "qr_errors r = []"
  shows "\<exists>t s. quantize_limit_price tp (tick_size (is_price_filter instrument)) Buy PASSIVE = Inr t
    \<and> quantize_limit_price st (tick_size (is_price_filter instrument)) Buy AGGRESSIVE = Inr s
    \<and> t < qr_entry_price r \<and> qr_entry_price r < s
    \<and> qr_notional r = dmul (dmul (qr_entry_price r) (qr_quantity r)) (is_contract_multiplier instrument)
    \<and> qr_tp_profit r = dmul (dmul (dsub (qr_entry_price r) t) (is_contract_multiplier instrument)) (qr_quantity r)
    \<and> qr_projected_stop_loss r = dmul (dmul (dsub s (qr_entry_price r)) (is_contract_multiplier instrument)) (qr_quantity r)"
  using assms
  by (fastforce simp: recalculate_quantized_risk_def Let_def not_le max_def split: option.splits)

text \<open>The proposal a recovery order of quantity \<open>q\<close> at \<open>entry\<close> with its stop at \<open>stop\<close> puts before the gate.\<close>

definition recovery_proposal :: "instrument_spec \<Rightarrow> dec \<Rightarrow> dec \<Rightarrow> dec \<Rightarrow> trade_proposal" where
  "recovery_proposal instrument q entry stop = \<lparr>tp_symbol = ''ETHUSDT'', tp_side = Sell, tp_quantity = q, tp_price = entry,
     tp_notional = dmul (dmul entry q) (is_contract_multiplier instrument),
     tp_projected_stop_loss = dmul (dmul (dsub stop entry) (is_contract_multiplier instrument)) q, opens_new_level = True\<rparr>"

lemma sell_proposal_fields:
  assumes "sell_proposal r = Inr p"
    and "qr_notional r = dmul (dmul (qr_entry_price r) (qr_quantity r)) (is_contract_multiplier instrument)"
    and "qr_projected_stop_loss r = dmul (dmul (dsub s (qr_entry_price r)) (is_contract_multiplier instrument)) (qr_quantity r)"
  shows "p = recovery_proposal instrument (qr_quantity r) (qr_entry_price r) s"
  using assms by (auto simp: sell_proposal_def mk_trade_proposal_def recovery_proposal_def)

lemma evaluate_reasons: "reasons (evaluate p rs limits) = [] \<longleftrightarrow> within_limits p rs limits"
  using approved_iff [of p rs limits] by (simp add: evaluate_def Let_def)

text \<open>C25. An approved recovery entry covers its target and passed the gate with exactly what it will do. Let
  the level's entry price fit the tick size (a multiple of a power of ten of moderate size, \<open>fits\<close>). The expected
  take profit of an approved plan is the profit of its quantity from its entry price down to the tick-aligned
  take profit price, and at least the zone budget plus the confirmed debt; it allocates exactly the confirmed
  debt; its entry price is not below the level's; and the proposal with its quantity, its entry price, the
  notional of both and the loss of its quantity up to the tick-aligned stop passes every limit of the gate on
  the current risk state. A rejected plan opens nothing, allocates nothing, gives at least one reason and asks
  to close the option strategy.\<close>

theorem recovery_plan_sound:
  assumes "plan_recovery level d instrument rs limits = Inr plan"
    and "fits k (entry_price level) (tick_size (is_price_filter instrument))"
  shows "if rp_approved plan
    then rp_allocated_debt plan = confirmed_debt d \<and> rp_reasons plan = [] \<and> rp_locked_action plan = None
      \<and> entry_price level \<le> rp_entry_price plan
      \<and> dadd (option_budget level) (confirmed_debt d) \<le> rp_expected_take_profit plan
      \<and> (\<exists>q t s. rp_quantity plan = Some q \<and> min_order_qty (is_lot_size_filter instrument) \<le> q
           \<and> quantize_limit_price (tp_price level) (tick_size (is_price_filter instrument)) Buy PASSIVE = Inr t
           \<and> quantize_limit_price (stop_price level) (tick_size (is_price_filter instrument)) Buy AGGRESSIVE = Inr s
           \<and> t < rp_entry_price plan \<and> rp_entry_price plan < s
           \<and> rp_expected_take_profit plan
             = dmul (dmul (dsub (rp_entry_price plan) t) (is_contract_multiplier instrument)) q
           \<and> within_limits (recovery_proposal instrument q (rp_entry_price plan) s) rs limits)
    else rp_quantity plan = None \<and> rp_allocated_debt plan = 0 \<and> rp_reasons plan \<noteq> []
      \<and> rp_locked_action plan = Some CLOSE_OPTION_STRATEGY"
proof (cases "rp_approved plan")
  case False
  then show ?thesis using assms(1) by (auto simp: plan_recovery_def Let_def)
next
  case True
  with assms(1) obtain up v r p where
    v: "normalize_and_validate_order instrument Sell up (Some (entry_price level)) False None PASSIVE = Inr v"
    and r: "recalculate_quantized_risk v instrument Sell (tp_price level) (stop_price level) (confirmed_debt d)
        (maximum_perp_notional limits) (maximum_projected_stop_loss limits) = Inr r"
    and p: "sell_proposal r = Inr p" "reasons (evaluate p rs limits) = []"
    and errs: "qr_errors r = []" "dadd (option_budget level) (confirmed_debt d) \<le> qr_tp_profit r"
    and plan: "rp_expected_take_profit plan = qr_tp_profit r" "rp_allocated_debt plan = confirmed_debt d"
      "rp_reasons plan = []" "rp_locked_action plan = None" "rp_entry_price plan = qr_entry_price r"
      "rp_quantity plan = Some (qr_quantity r)"
    by (auto simp: plan_recovery_def Let_def not_less split: if_splits)
  note f = recalculated_fields [OF r]
  note vl = validated_limit [OF v f(3) [OF errs(1)]]
  have "quantize_limit_price (entry_price level) (tick_size (is_price_filter instrument)) Sell PASSIVE = Inr (qr_entry_price r)"
    using vl(2) f(1) by simp
  then have "entry_price level \<le> qr_entry_price r" using quantize_limit_exact [OF assms(2)] by fastforce
  moreover obtain t s where ts: "quantize_limit_price (tp_price level) (tick_size (is_price_filter instrument)) Buy PASSIVE = Inr t"
      "quantize_limit_price (stop_price level) (tick_size (is_price_filter instrument)) Buy AGGRESSIVE = Inr s"
      "t < qr_entry_price r" "qr_entry_price r < s"
      "qr_notional r = dmul (dmul (qr_entry_price r) (qr_quantity r)) (is_contract_multiplier instrument)"
      "qr_tp_profit r = dmul (dmul (dsub (qr_entry_price r) t) (is_contract_multiplier instrument)) (qr_quantity r)"
      "qr_projected_stop_loss r = dmul (dmul (dsub s (qr_entry_price r)) (is_contract_multiplier instrument)) (qr_quantity r)"
    using recalculated_sell [OF r errs(1)] by blast
  moreover have "within_limits (recovery_proposal instrument (qr_quantity r) (qr_entry_price r) s) rs limits"
    using p(2) unfolding sell_proposal_fields [OF p(1) ts(5,7)] by (simp add: evaluate_reasons)
  moreover have "min_order_qty (is_lot_size_filter instrument) \<le> qr_quantity r" using vl(1) f(2) by simp
  ultimately show ?thesis using True errs plan by auto
qed

definition sample_level :: hedge_level where
  "sample_level = fresh_level 1 3000 2975 (30045 / 10) 25"

theorem recovery_plan_sound_witness:
  "\<exists>plan. plan_recovery sample_level (no_debt\<lparr>confirmed_debt := 5, remaining_debt := 5\<rparr>) eth_perp sample_state sample_limits = Inr plan
     \<and> rp_approved plan \<and> 30 \<le> rp_expected_take_profit plan
     \<and> (\<exists>s > 3000. within_limits (recovery_proposal eth_perp (12 / 10) 3000 s) sample_state sample_limits)"
proof -
  let ?d = "no_debt\<lparr>confirmed_debt := 5, remaining_debt := 5\<rparr>"
  define plan where "plan = \<lparr>rp_approved = True, rp_raw_desired_quantity = 12 / 10, rp_entry_price = 3000,
    rp_quantity = Some (12 / 10), rp_expected_take_profit = 30, rp_allocated_debt = 5, rp_reasons = [],
    rp_locked_action = None\<rparr>"
  have run: "plan_recovery sample_level ?d eth_perp sample_state sample_limits = Inr plan"
    unfolding plan_def by code_simp
  have f: "fits 2 (entry_price sample_level) (tick_size (is_price_filter eth_perp))"
    by (simp add: fits_def on_grid_def sample_level_def fresh_level_def eth_perp_def)
  have "dadd (option_budget sample_level) (confirmed_debt ?d) = 30" by code_simp
  moreover have ok: "rp_approved plan" "rp_quantity plan = Some (12 / 10)" "rp_entry_price plan = 3000"
    by (simp_all add: plan_def)
  moreover obtain s where "3000 < s" "within_limits (recovery_proposal eth_perp (12 / 10) 3000 s) sample_state sample_limits"
      "dadd (option_budget sample_level) (confirmed_debt ?d) \<le> rp_expected_take_profit plan"
    using recovery_plan_sound [OF run f] unfolding ok option.inject if_P [OF ok(1)] by blast
  ultimately show ?thesis using run by auto
qed

end
