(* ===== verification/Execution.thy ===== *)
theory Execution
  imports Instruments Client_Order_Ids
begin

text \<open>
  \<open>domain/execution.py\<close>: the exchange-neutral order requests, acknowledgements, orders, fills,
  positions, wallets and connection events. As in \<open>Instruments\<close>, a constructor validates a raw
  object and returns it unchanged; string literals with a fixed set of values are datatypes, so the
  membership tests on them hold by typing.
\<close>

datatype order_type = Market | Limit

datatype time_in_force = GTC | IOC | FOK | PostOnly

datatype trigger_by = LastPrice | IndexPrice | MarkPrice

datatype order_request_kind = PLACE | AMEND | CANCEL

datatype live_execution_state =
    X_READY | X_TRIGGERED | ENTRY_REQUEST_PERSISTED | ENTRY_SUBMITTED | ENTRY_ACKNOWLEDGED
  | ENTRY_PARTIALLY_FILLED | ACTIVE_UNPROTECTED | ACTIVE_PROTECTED | EXIT_PARTIALLY_FILLED
  | CLOSED_TP | CLOSED_STOP | CANCEL_PENDING | RECONCILING | X_LOCKED | X_ERROR

datatype private_connection_state = CONNECTED | AUTHENTICATED | DISCONNECTED | RECONNECTING

section \<open>Shared checks\<close>

definition link_char :: "char \<Rightarrow> bool" where
  "link_char c \<longleftrightarrow> alnum_char c \<or> c = CHR ''_'' \<or> c = CHR ''-''"

definition exchange_order_link_id :: "string \<Rightarrow> bool" where
  "exchange_order_link_id v \<longleftrightarrow> length v \<le> 36 \<and> list_all link_char v"

definition own_order_link_id :: "string \<Rightarrow> 'a res \<Rightarrow> 'a res" where
  "own_order_link_id v k = r_bind (parse_id v) (\<lambda>_. k)"

definition hash_char :: "char \<Rightarrow> bool" where
  "hash_char c \<longleftrightarrow> hex_char c \<or> (97 \<le> (of_char c :: nat) \<and> (of_char c :: nat) \<le> 102)"

definition payload_hash :: "string \<Rightarrow> bool" where
  "payload_hash v \<longleftrightarrow> length v = 64 \<and> list_all hash_char v"

definition not_positive :: "dec option \<Rightarrow> bool" where
  "not_positive v = (case v of None \<Rightarrow> False | Some x \<Rightarrow> x \<le> 0)"

definition link_guard :: "string \<Rightarrow> bool \<times> string" where
  [simp]: "link_guard v = (\<not> exchange_order_link_id v, ''order link ID must use at most 36 safe characters'')"

lemma own_order_link_id_Inr [simp, guards]:
  "own_order_link_id v k = Inr x \<longleftrightarrow> is_ok (parse_id v) \<and> k = Inr x"
  by (cases "parse_id v") (simp_all add: own_order_link_id_def)

section \<open>Requests and acknowledgements\<close>

record place_order_request =
  po_category :: instrument_category
  po_symbol :: string
  po_side :: order_side
  po_order_type :: order_type
  po_quantity :: dec
  po_order_link_id :: string
  po_price :: "dec option"
  po_time_in_force :: time_in_force
  po_reduce_only :: bool
  po_trigger_price :: "dec option"
  po_trigger_direction :: "int option"
  po_trigger_by :: "trigger_by option"
  po_position_idx :: int
  po_close_on_trigger :: bool

definition mk_place_order_request :: "place_order_request \<Rightarrow> place_order_request res" where
  [post_init]: "mk_place_order_request r = check_all [text_guard (po_symbol r) ''symbol'']
    (own_order_link_id (po_order_link_id r) (check_all
    [(po_quantity r \<le> 0, ''quantity must be positive''),
     (po_order_type r = Limit \<and> po_price r = None, ''limit order requires a price''),
     (po_order_type r = Market \<and> po_price r \<noteq> None, ''market order cannot include a price''),
     (not_positive (po_price r), ''price must be positive''),
     (po_trigger_price r = None \<and> (po_trigger_direction r \<noteq> None \<or> po_trigger_by r \<noteq> None),
      ''trigger fields require a trigger price''),
     (not_positive (po_trigger_price r), ''trigger price must be positive''),
     (po_trigger_price r \<noteq> None \<and> po_trigger_direction r \<noteq> Some 1 \<and> po_trigger_direction r \<noteq> Some 2,
      ''trigger direction is required and must be 1 or 2''),
     (po_trigger_price r \<noteq> None \<and> po_trigger_by r = None, ''trigger source is required''),
     (po_close_on_trigger r \<and> (\<not> po_reduce_only r \<or> po_trigger_price r = None),
      ''close on trigger requires a reduce-only conditional order''),
     (po_position_idx r < 0 \<or> 2 < po_position_idx r, ''position index must be 0, 1, or 2'')] (Inr r)))"

record amend_order_request =
  am_category :: instrument_category
  am_symbol :: string
  am_order_link_id :: string
  am_quantity :: "dec option"
  am_price :: "dec option"
  am_trigger_price :: "dec option"

definition mk_amend_order_request :: "amend_order_request \<Rightarrow> amend_order_request res" where
  [post_init]: "mk_amend_order_request r = check_all [text_guard (am_symbol r) ''symbol'']
    (own_order_link_id (am_order_link_id r) (check_all
    [(am_quantity r = None \<and> am_price r = None \<and> am_trigger_price r = None, ''amend request requires at least one change''),
     (not_positive (am_quantity r), ''quantity must be positive''),
     (not_positive (am_price r), ''price must be positive''),
     (not_positive (am_trigger_price r), ''trigger price must be positive'')] (Inr r)))"

record cancel_order_request =
  ca_category :: instrument_category
  ca_symbol :: string
  ca_order_link_id :: string

definition mk_cancel_order_request :: "cancel_order_request \<Rightarrow> cancel_order_request res" where
  [post_init]: "mk_cancel_order_request r = check_all [text_guard (ca_symbol r) ''symbol'']
    (own_order_link_id (ca_order_link_id r) (Inr r))"

record order_request_ack =
  ak_request_kind :: order_request_kind
  ak_order_id :: string
  ak_order_link_id :: string
  ak_acknowledged_at :: datetime

definition mk_order_request_ack :: "order_request_ack \<Rightarrow> order_request_ack res" where
  [post_init]: "mk_order_request_ack a = check_all [text_guard (ak_order_id a) ''order ID'']
    (own_order_link_id (ak_order_link_id a) (check_all
    [utc_guard (ak_acknowledged_at a) ''acknowledgement time''] (Inr a)))"

section \<open>Reports of the exchange\<close>

record exchange_order =
  eo_category :: instrument_category
  eo_order_id :: string
  eo_order_link_id :: string
  eo_symbol :: string
  eo_status :: string
  eo_side :: order_side
  eo_order_type :: order_type
  eo_price :: "dec option"
  eo_quantity :: dec
  eo_cumulative_filled_quantity :: dec
  eo_average_price :: "dec option"
  eo_reduce_only :: bool
  eo_created_at :: datetime
  eo_updated_at :: datetime
  eo_trigger_price :: "dec option"
  eo_trigger_by :: "trigger_by option"
  eo_trigger_direction :: "int option"
  eo_time_in_force :: "time_in_force option"
  eo_position_idx :: "int option"
  eo_close_on_trigger :: bool

definition mk_exchange_order :: "exchange_order \<Rightarrow> exchange_order res" where
  [post_init]: "mk_exchange_order r = check_all
    [text_guard (eo_order_id r) ''order ID'', text_guard (eo_symbol r) ''symbol'',
     text_guard (eo_status r) ''order status'', link_guard (eo_order_link_id r),
     (not_positive (eo_price r), ''order price must be positive''),
     (eo_quantity r \<le> 0, ''order quantity must be positive''),
     (eo_cumulative_filled_quantity r < 0 \<or> eo_quantity r < eo_cumulative_filled_quantity r,
      ''cumulative filled quantity must be within order quantity''),
     (not_positive (eo_average_price r), ''average price must be positive''),
     (not_positive (eo_trigger_price r), ''trigger price must be positive''),
     (eo_trigger_price r = None \<and> (eo_trigger_by r \<noteq> None \<or> eo_trigger_direction r \<noteq> None),
      ''trigger fields require a trigger price''),
     (eo_trigger_price r \<noteq> None \<and> eo_trigger_by r = None, ''trigger price requires a trigger source''),
     (eo_trigger_price r \<noteq> None \<and> eo_trigger_direction r \<noteq> Some 1 \<and> eo_trigger_direction r \<noteq> Some 2,
      ''trigger price requires direction 1 or 2''),
     (some_and (\<lambda>i. i < 0 \<or> 2 < i) (eo_position_idx r), ''position index must be 0, 1, or 2''),
     utc_guard (eo_created_at r) ''order creation time'', utc_guard (eo_updated_at r) ''order update time'',
     (instant (eo_updated_at r) < instant (eo_created_at r), ''order update time cannot precede creation time'')]
    (Inr r)"

record order_update =
  ou_order_id :: string
  ou_order_link_id :: string
  ou_symbol :: string
  ou_status :: string
  ou_side :: order_side
  ou_order_type :: order_type
  ou_price :: "dec option"
  ou_quantity :: dec
  ou_cumulative_filled_quantity :: dec
  ou_average_price :: "dec option"
  ou_updated_at :: datetime

definition mk_order_update :: "order_update \<Rightarrow> order_update res" where
  [post_init]: "mk_order_update u = check_all
    [text_guard (ou_order_id u) ''order ID'', text_guard (ou_symbol u) ''symbol'',
     text_guard (ou_status u) ''order status'', link_guard (ou_order_link_id u),
     (not_positive (ou_price u), ''order price must be positive''),
     (ou_quantity u \<le> 0, ''order quantity must be positive''),
     (ou_cumulative_filled_quantity u < 0 \<or> ou_quantity u < ou_cumulative_filled_quantity u,
      ''cumulative filled quantity must be within order quantity''),
     (not_positive (ou_average_price u), ''average price must be positive''),
     utc_guard (ou_updated_at u) ''update time''] (Inr u)"

record execution_update =
  ex_execution_id :: string
  ex_order_id :: string
  ex_order_link_id :: string
  ex_symbol :: string
  ex_side :: order_side
  ex_price :: dec
  ex_quantity :: dec
  ex_fee :: dec
  ex_is_maker :: "bool option"
  ex_executed_at :: datetime

definition mk_execution_update :: "execution_update \<Rightarrow> execution_update res" where
  [post_init]: "mk_execution_update x = check_all
    [text_guard (ex_execution_id x) ''execution ID'', text_guard (ex_order_id x) ''order ID'',
     text_guard (ex_symbol x) ''symbol'', link_guard (ex_order_link_id x),
     (ex_price x \<le> 0, ''execution price must be positive''),
     (ex_quantity x \<le> 0, ''execution quantity must be positive''),
     utc_guard (ex_executed_at x) ''execution time''] (Inr x)"

record order_update_batch =
  ob_updates :: "order_update list"
  ob_received_at :: datetime
  ob_raw_payload_hash :: string

definition mk_order_update_batch :: "order_update_batch \<Rightarrow> order_update_batch res" where
  [post_init]: "mk_order_update_batch b = check_all
    [(\<not> payload_hash (ob_raw_payload_hash b), ''raw payload hash must be a SHA-256 hexadecimal digest''),
     utc_guard (ob_received_at b) ''batch receive time''] (Inr b)"

record execution_update_batch =
  xb_executions :: "execution_update list"
  xb_received_at :: datetime
  xb_raw_payload_hash :: string

definition mk_execution_update_batch :: "execution_update_batch \<Rightarrow> execution_update_batch res" where
  [post_init]: "mk_execution_update_batch b = check_all
    [(\<not> payload_hash (xb_raw_payload_hash b), ''raw payload hash must be a SHA-256 hexadecimal digest''),
     utc_guard (xb_received_at b) ''batch receive time''] (Inr b)"

record exchange_position =
  ep_category :: instrument_category
  ep_symbol :: string
  ep_side :: "order_side option"
  ep_quantity :: dec
  ep_average_price :: "dec option"
  ep_mark_price :: "dec option"
  ep_unrealized_pnl :: dec
  ep_updated_at :: datetime
  ep_position_idx :: int
  ep_liquidation_price :: "dec option"

definition mk_exchange_position :: "exchange_position \<Rightarrow> exchange_position res" where
  [post_init]: "mk_exchange_position p = check_all
    [text_guard (ep_symbol p) ''symbol'',
     (ep_quantity p < 0, ''position quantity cannot be negative''),
     (0 < ep_quantity p \<and> ep_side p = None, ''non-flat position requires a side''),
     (0 < ep_quantity p \<and> (ep_average_price p = None \<or> not_positive (ep_average_price p)),
      ''non-flat position requires a positive average price''),
     (not_positive (ep_average_price p), ''average price must be positive''),
     (not_positive (ep_mark_price p), ''mark price must be positive''),
     (not_positive (ep_liquidation_price p), ''liquidation price must be positive''),
     (ep_position_idx p < 0 \<or> 2 < ep_position_idx p, ''position index must be 0, 1, or 2''),
     utc_guard (ep_updated_at p) ''position time''] (Inr p)"

record wallet_balance =
  wb_coin :: string
  wb_equity :: dec
  wb_wallet_balance :: dec
  wb_available_balance :: "dec option"
  wb_unrealized_pnl :: dec

definition mk_wallet_balance :: "wallet_balance \<Rightarrow> wallet_balance res" where
  [post_init]: "mk_wallet_balance b = check_all [text_guard (wb_coin b) ''coin''] (Inr b)"

record wallet_state =
  ws_account_type :: string
  ws_total_equity :: dec
  ws_total_wallet_balance :: dec
  ws_total_available_balance :: "dec option"
  ws_balances :: "wallet_balance list"
  ws_updated_at :: datetime

definition mk_wallet_state :: "wallet_state \<Rightarrow> wallet_state res" where
  [post_init]: "mk_wallet_state w = check_all
    [text_guard (ws_account_type w) ''account type'',
     (\<not> distinct (map wb_coin (ws_balances w)), ''wallet balances must have unique coins''),
     utc_guard (ws_updated_at w) ''wallet time''] (Inr w)"

record private_connection_event =
  pc_state :: private_connection_state
  pc_observed_at :: datetime
  pc_connection_generation :: int
  pc_reason :: "string option"

definition mk_private_connection_event :: "private_connection_event \<Rightarrow> private_connection_event res" where
  [post_init]: "mk_private_connection_event e = check_all
    [(pc_connection_generation e < 0, ''connection generation cannot be negative''),
     (some_and blank (pc_reason e), ''connection reason cannot be empty''),
     utc_guard (pc_observed_at e) ''connection event time''] (Inr e)"

section \<open>Open short positions\<close>

text \<open>The selection of the non-flat ETHUSDT positions that several services repeat.\<close>

definition eth_linear :: "exchange_position \<Rightarrow> bool" where
  "eth_linear p \<longleftrightarrow> ep_category p = linear_category \<and> ep_symbol p = ''ETHUSDT'' \<and> 0 < ep_quantity p"

definition eth_positions :: "exchange_position list \<Rightarrow> exchange_position list" where
  "eth_positions ps = filter eth_linear ps"

definition single_short :: "exchange_position list \<Rightarrow> dec \<Rightarrow> bool" where
  "single_short ps quantity = (case eth_positions ps of
     [p] \<Rightarrow> ep_side p = Some Sell \<and> ep_quantity p = quantity | _ \<Rightarrow> False)"

end
