(* ===== verification/Live_Execution.thy ===== *)
theory Live_Execution
  imports Execution
begin

text \<open>
  \<open>domain/live_execution.py\<close>: the persisted snapshot of one hedge entry and its reducers. Every
  reducer ends in \<open>dataclasses.replace\<close>, which runs the validation again; \<open>mk_entry_snapshot\<close> is
  that validation. The lemmas follow the fills of an entry: the quantity, the notional and the fees
  are the sums over the fills, an overfill is refused, and the entry is complete exactly when the
  target is filled.
\<close>

section \<open>Snapshots\<close>

record entry_snapshot =
  es_order_link_id :: string
  es_state :: live_execution_state
  es_target_quantity :: dec
  es_entry_order_id :: "string option"
  es_filled_quantity :: dec
  es_entry_notional :: dec
  es_entry_fees :: dec
  es_version :: int
  es_updated_at :: datetime

definition entry_states :: "live_execution_state list" where
  "entry_states = [ENTRY_REQUEST_PERSISTED, ENTRY_SUBMITTED, ENTRY_ACKNOWLEDGED, ENTRY_PARTIALLY_FILLED,
     ACTIVE_UNPROTECTED, RECONCILING, X_ERROR]"

definition mk_entry_snapshot :: "entry_snapshot \<Rightarrow> entry_snapshot res" where
  [post_init]: "mk_entry_snapshot s = own_order_link_id (es_order_link_id s) (check_all
    [(es_state s \<notin> set entry_states, ''state is not valid for one-level entry execution''),
     (es_target_quantity s \<le> 0, ''target quantity must be positive''),
     (es_filled_quantity s < 0 \<or> es_target_quantity s < es_filled_quantity s,
      ''filled quantity must be between zero and target''),
     (es_entry_notional s < 0, ''entry notional cannot be negative''),
     (es_filled_quantity s = 0 \<and> es_entry_notional s \<noteq> 0, ''unfilled entry must have zero notional''),
     (0 < es_filled_quantity s \<and> es_entry_notional s \<le> 0, ''filled entry must have positive notional''),
     (some_and blank (es_entry_order_id s), ''entry order ID cannot be empty''),
     (es_state s \<in> set [ENTRY_ACKNOWLEDGED, ENTRY_PARTIALLY_FILLED, ACTIVE_UNPROTECTED] \<and> es_entry_order_id s = None,
      ''state requires an exchange order ID''),
     (es_state s = ENTRY_PARTIALLY_FILLED \<and> \<not> (0 < es_filled_quantity s \<and> es_filled_quantity s < es_target_quantity s),
      ''partial-fill state requires a partial quantity''),
     (es_state s = ACTIVE_UNPROTECTED \<and> es_filled_quantity s \<le> 0, ''active entry requires confirmed filled quantity''),
     (es_version s \<le> 0, ''snapshot version must be positive''),
     utc_guard (es_updated_at s) ''update time''] (Inr s))"

definition average_entry_price :: "entry_snapshot \<Rightarrow> dec option" where
  "average_entry_price s = (if es_filled_quantity s = 0 then None
     else Some (dquot (es_entry_notional s) (es_filled_quantity s)))"

definition for_intent :: "place_order_request \<Rightarrow> datetime \<Rightarrow> entry_snapshot res" where
  "for_intent r persisted_at =
     raise_when (po_category r \<noteq> linear_category \<or> po_symbol r \<noteq> ''ETHUSDT'' \<or> po_side r \<noteq> Sell \<or> po_reduce_only r)
       ''entry intent must open a short ETHUSDT linear position''
    (mk_entry_snapshot \<lparr>es_order_link_id = po_order_link_id r, es_state = ENTRY_REQUEST_PERSISTED,
       es_target_quantity = po_quantity r, es_entry_order_id = None, es_filled_quantity = 0,
       es_entry_notional = 0, es_entry_fees = 0, es_version = 1, es_updated_at = persisted_at\<rparr>)"

section \<open>Reducers\<close>

definition transition_entry_snapshot ::
    "entry_snapshot \<Rightarrow> live_execution_state \<Rightarrow> datetime \<Rightarrow> string option \<Rightarrow> entry_snapshot res" where
  "transition_entry_snapshot s st updated_at order_id = mk_entry_snapshot (s\<lparr>es_state := st,
     es_entry_order_id := (case order_id of None \<Rightarrow> es_entry_order_id s | Some i \<Rightarrow> Some i),
     es_version := es_version s + 1, es_updated_at := updated_at\<rparr>)"

definition apply_entry_execution :: "entry_snapshot \<Rightarrow> execution_update \<Rightarrow> datetime \<Rightarrow> entry_snapshot res" where
  "apply_entry_execution s x updated_at =
     raise_when (ex_order_link_id x \<noteq> es_order_link_id s) ''execution client ID does not match entry snapshot''
    (raise_when (ex_symbol x \<noteq> ''ETHUSDT'' \<or> ex_side x \<noteq> Sell) ''entry execution must be an ETHUSDT Sell''
    (raise_when (some_and (\<lambda>i. i \<noteq> ex_order_id x) (es_entry_order_id s)) ''execution order ID does not match entry snapshot''
    (let filled = dadd (es_filled_quantity s) (ex_quantity x) in
     raise_when (es_target_quantity s < filled) ''entry executions exceed target quantity''
    (mk_entry_snapshot (s\<lparr>
       es_state := (if filled = es_target_quantity s then ACTIVE_UNPROTECTED else ENTRY_PARTIALLY_FILLED),
       es_entry_order_id := Some (ex_order_id x), es_filled_quantity := filled,
       es_entry_notional := dadd (es_entry_notional s) (dmul (ex_price x) (ex_quantity x)),
       es_entry_fees := dadd (es_entry_fees s) (ex_fee x),
       es_version := es_version s + 1, es_updated_at := updated_at\<rparr>)))))"

definition finalize_partial_entry :: "entry_snapshot \<Rightarrow> datetime \<Rightarrow> entry_snapshot res" where
  "finalize_partial_entry s updated_at =
     raise_when (es_state s \<noteq> ENTRY_PARTIALLY_FILLED) ''partial finalization requires ENTRY_PARTIALLY_FILLED''
    (mk_entry_snapshot (s\<lparr>es_state := ACTIVE_UNPROTECTED, es_version := es_version s + 1, es_updated_at := updated_at\<rparr>))"

definition entry_position_matches :: "entry_snapshot \<Rightarrow> exchange_position list \<Rightarrow> bool" where
  "entry_position_matches s positions =
     (if es_filled_quantity s = 0 then eth_positions positions = []
      else single_short positions (es_filled_quantity s))"

section \<open>Valid snapshots\<close>

definition valid_entry :: "entry_snapshot \<Rightarrow> bool" where
  "valid_entry s \<longleftrightarrow> mk_entry_snapshot s = Inr s"

lemma mk_entry_snapshot_same: "mk_entry_snapshot s = Inr s' \<Longrightarrow> s' = s \<and> valid_entry s"
  by (auto simp: valid_entry_def mk_entry_snapshot_def)

lemma valid_entry_bounds:
  assumes "valid_entry s"
  shows "0 \<le> es_filled_quantity s" "es_filled_quantity s \<le> es_target_quantity s" "0 \<le> es_entry_notional s"
    "0 < es_target_quantity s" "0 < es_version s" "is_ok (parse_id (es_order_link_id s))"
    "es_filled_quantity s = 0 \<Longrightarrow> es_entry_notional s = 0"
  using assms by (auto simp: valid_entry_def mk_entry_snapshot_def not_le not_less)

text \<open>What a fill that the reducer accepts does.\<close>

lemma apply_entry_InrD:
  assumes "apply_entry_execution s x t = Inr s'"
  shows "valid_entry s'" "es_filled_quantity s' = dadd (es_filled_quantity s) (ex_quantity x)"
    "es_entry_notional s' = dadd (es_entry_notional s) (dmul (ex_price x) (ex_quantity x))"
    "es_entry_fees s' = dadd (es_entry_fees s) (ex_fee x)" "es_version s' = es_version s + 1"
    "es_target_quantity s' = es_target_quantity s" "es_order_link_id s' = es_order_link_id s"
    "es_filled_quantity s' \<le> es_target_quantity s" "es_entry_order_id s' = Some (ex_order_id x)"
    "es_state s' = (if es_filled_quantity s' = es_target_quantity s then ACTIVE_UNPROTECTED else ENTRY_PARTIALLY_FILLED)"
  using assms by (auto simp: apply_entry_execution_def Let_def not_less dest!: mk_entry_snapshot_same)

section \<open>All fills of an entry\<close>

definition apply_fill :: "entry_snapshot \<Rightarrow> execution_update \<times> datetime \<Rightarrow> entry_snapshot res" where
  "apply_fill s xt = apply_entry_execution s (fst xt) (snd xt)"

definition apply_fills :: "entry_snapshot \<Rightarrow> (execution_update \<times> datetime) list \<Rightarrow> entry_snapshot res" where
  "apply_fills s xts = r_foldl apply_fill s xts"

definition fills_quantity :: "(execution_update \<times> datetime) list \<Rightarrow> rat" where
  "fills_quantity xts = sum_list (map (ex_quantity \<circ> fst) xts)"

definition fills_notional :: "(execution_update \<times> datetime) list \<Rightarrow> rat" where
  "fills_notional xts = sum_list (map (\<lambda>xt. ex_price (fst xt) * ex_quantity (fst xt)) xts)"

text \<open>Fills with at most \<open>k\<close> decimals, positive, whose notional with the one already booked fits.\<close>

definition exact_fills :: "nat \<Rightarrow> entry_snapshot \<Rightarrow> (execution_update \<times> datetime) list \<Rightarrow> bool" where
  "exact_fills k s xts \<longleftrightarrow> on_grid k (es_filled_quantity s) \<and> on_grid (k + k) (es_entry_notional s)
     \<and> (\<forall>xt \<in> set xts. on_grid k (ex_price (fst xt)) \<and> on_grid k (ex_quantity (fst xt))
          \<and> 0 < ex_price (fst xt) \<and> 0 < ex_quantity (fst xt))
     \<and> (es_filled_quantity s + fills_quantity xts) * 10 ^ k \<le> 10 ^ 28
     \<and> (es_entry_notional s + fills_notional xts) * 10 ^ (k + k) \<le> 10 ^ 28"

lemma fills_nonneg: "\<forall>xt \<in> set xts. 0 < ex_price (fst xt) \<and> 0 < ex_quantity (fst xt) \<Longrightarrow>
    0 \<le> fills_quantity xts \<and> 0 \<le> fills_notional xts"
  unfolding fills_quantity_def fills_notional_def
  by (intro conjI sum_list_nonneg) auto

lemma fills_Cons:
  "fills_quantity (xt # xts) = ex_quantity (fst xt) + fills_quantity xts"
  "fills_notional (xt # xts) = ex_price (fst xt) * ex_quantity (fst xt) + fills_notional xts"
  by (simp_all add: fills_quantity_def fills_notional_def)

lemma exact_fill_step:
  assumes e: "exact_fills k s (xt # xts)" and v: "0 \<le> es_filled_quantity s" "0 \<le> es_entry_notional s"
    and r: "apply_fill s xt = Inr s'"
  shows "es_filled_quantity s' = es_filled_quantity s + ex_quantity (fst xt)"
    "es_entry_notional s' = es_entry_notional s + ex_price (fst xt) * ex_quantity (fst xt)"
    "exact_fills k s' xts"
proof -
  let ?q = "ex_quantity (fst xt)" and ?p = "ex_price (fst xt)"
  have g: "on_grid k ?q" "on_grid k ?p" "0 < ?q" "0 < ?p" "on_grid k (es_filled_quantity s)"
    "on_grid (k + k) (es_entry_notional s)" and nn: "0 \<le> fills_quantity xts" "0 \<le> fills_notional xts"
    and b: "(es_filled_quantity s + (?q + fills_quantity xts)) * 10 ^ k \<le> 10 ^ 28"
      "(es_entry_notional s + (?p * ?q + fills_notional xts)) * 10 ^ (k + k) \<le> 10 ^ 28"
    using e fills_nonneg [of xts] by (auto simp: exact_fills_def fills_Cons)
  have pq: "on_grid (k + k) (?p * ?q)" "0 \<le> ?p * ?q" using g by auto
  have "rnd (es_filled_quantity s + ?q) = es_filled_quantity s + ?q"
    by (rule rnd_on_grid [OF _ _ _ b(1)]) (use g v nn in auto)
  then show f: "es_filled_quantity s' = es_filled_quantity s + ?q"
    using apply_entry_InrD(2) [OF r [unfolded apply_fill_def]] by (simp add: dadd_def)
  have "rnd (?p * ?q) = ?p * ?q" by (rule rnd_on_grid [OF _ _ _ b(2)]) (use pq v nn in auto)
  moreover have "rnd (es_entry_notional s + ?p * ?q) = es_entry_notional s + ?p * ?q"
    by (rule rnd_on_grid [OF _ _ _ b(2)]) (use g pq v nn in auto)
  ultimately show n: "es_entry_notional s' = es_entry_notional s + ?p * ?q"
    using apply_entry_InrD(3) [OF r [unfolded apply_fill_def]] by (simp add: dadd_def dmul_def)
  show "exact_fills k s' xts"
    using e g pq f n by (auto simp: exact_fills_def fills_Cons add.assoc)
qed

lemma apply_fills_exact:
  assumes "apply_fills s xts = Inr s'" "exact_fills k s xts" "valid_entry s"
  shows "valid_entry s' \<and> es_filled_quantity s' = es_filled_quantity s + fills_quantity xts
    \<and> es_entry_notional s' = es_entry_notional s + fills_notional xts
    \<and> es_version s' = es_version s + int (length xts) \<and> es_target_quantity s' = es_target_quantity s"
  using assms unfolding apply_fills_def
proof (induction xts arbitrary: s)
  case Nil
  then show ?case by (simp add: fills_quantity_def fills_notional_def)
next
  case (Cons xt xts)
  then obtain s1 where s1: "apply_fill s xt = Inr s1" "r_foldl apply_fill s1 xts = Inr s'" by auto
  note step = exact_fill_step [OF Cons.prems(2) valid_entry_bounds(1,3) [OF Cons.prems(3)] s1(1)]
  note d = apply_entry_InrD [OF s1(1) [unfolded apply_fill_def]]
  from Cons.IH [OF s1(2) step(3) d(1)] step(1,2) d(5,6) show ?case by (simp add: fills_Cons)
qed

text \<open>The fills of an entry. Applying any list of fills that the reducer accepts books exactly
  their total quantity and notional, whatever their number and order, never more than the target;
  each fill raises the version by one; and after at least one fill the entry is active exactly when
  the target is reached, and partially filled otherwise.\<close>

theorem entry_fills_accounting:
  assumes "apply_fills s xts = Inr s'" and "exact_fills k s xts" and "valid_entry s"
  shows "es_filled_quantity s' = es_filled_quantity s + fills_quantity xts
    \<and> es_entry_notional s' = es_entry_notional s + fills_notional xts
    \<and> es_filled_quantity s' \<le> es_target_quantity s
    \<and> es_version s' = es_version s + int (length xts)
    \<and> (xts \<noteq> [] \<longrightarrow> es_state s' = (if es_filled_quantity s + fills_quantity xts = es_target_quantity s
         then ACTIVE_UNPROTECTED else ENTRY_PARTIALLY_FILLED))"
proof -
  note a = apply_fills_exact [OF assms]
  have "es_state s' = (if es_filled_quantity s' = es_target_quantity s' then ACTIVE_UNPROTECTED else ENTRY_PARTIALLY_FILLED)"
    if "xts \<noteq> []"
  proof -
    from that obtain ys y where "xts = ys @ [y]" by (metis rev_exhaust)
    with assms(1) obtain s1 where "apply_entry_execution s1 (fst y) (snd y) = Inr s'"
      by (auto simp: apply_fills_def r_foldl_append apply_fill_def)
    from apply_entry_InrD(6,10) [OF this] show ?thesis by simp
  qed
  with a valid_entry_bounds(2) [of s'] show ?thesis by auto
qed

definition sample_link :: string where
  "sample_link = ''ECH-a1-C0007-L03-ENTRY-A02-00FF3A''"

definition sample_entry :: entry_snapshot where
  "sample_entry = \<lparr>es_order_link_id = sample_link, es_state = ENTRY_ACKNOWLEDGED, es_target_quantity = 1,
     es_entry_order_id = Some ''o1'', es_filled_quantity = 0, es_entry_notional = 0, es_entry_fees = 0,
     es_version = 2, es_updated_at = Aware 1\<rparr>"

definition sample_fill :: "dec \<Rightarrow> dec \<Rightarrow> execution_update \<times> datetime" where
  "sample_fill p q = (\<lparr>ex_execution_id = ''e'', ex_order_id = ''o1'', ex_order_link_id = sample_link,
     ex_symbol = ''ETHUSDT'', ex_side = Sell, ex_price = p, ex_quantity = q, ex_fee = 1 / 10,
     ex_is_maker = Some True, ex_executed_at = Aware 2\<rparr>, Aware 3)"

theorem entry_fills_accounting_witness:
  "\<exists>s'. apply_fills sample_entry [sample_fill 3000 (1 / 4), sample_fill 2999 (3 / 4)] = Inr s'
     \<and> es_filled_quantity s' = 1 \<and> es_entry_notional s' = 11997 / 4 \<and> es_state s' = ACTIVE_UNPROTECTED"
proof -
  let ?fs = "[sample_fill 3000 (1 / 4), sample_fill 2999 (3 / 4)]"
  have "is_ok (apply_fills sample_entry ?fs)" by code_simp
  then obtain s' where s': "apply_fills sample_entry ?fs = Inr s'" by (auto simp: is_ok_iff)
  have "mk_entry_snapshot sample_entry = Inr sample_entry" by code_simp
  then have v: "valid_entry sample_entry" by (simp add: valid_entry_def)
  have g: "on_grid 2 (1 / 4)" "on_grid 2 (3 / 4)" by (simp_all add: on_grid_def)
  have "exact_fills 2 sample_entry ?fs"
    using g by (simp add: exact_fills_def sample_entry_def sample_fill_def fills_quantity_def fills_notional_def)
  from entry_fills_accounting [OF s' this v] s' show ?thesis
    by (auto simp: sample_entry_def sample_fill_def fills_quantity_def fills_notional_def)
qed

end
