(* ===== verification/Protected_Execution.thy ===== *)
theory Protected_Execution
  imports Live_Execution
begin

text \<open>
  \<open>domain/protected_execution.py\<close>: the snapshot of an open hedge with its exchange-hosted stop and
  take profit, and its reducers. \<open>prot_step\<close> is one application of a reducer; the lemmas about
  reachable snapshots say that quantity is conserved, that a position once reduced is not reopened,
  that recovery debt only grows, and that a level counts as closed by take profit only if none of
  its quantity was stopped.
\<close>

section \<open>Snapshots\<close>

definition protection_states :: "live_execution_state list" where
  "protection_states = [ACTIVE_UNPROTECTED, ACTIVE_PROTECTED, EXIT_PARTIALLY_FILLED, CANCEL_PENDING, CLOSED_TP,
     CLOSED_STOP, RECONCILING, X_ERROR]"

definition role_check :: "string \<Rightarrow> client_order_role \<Rightarrow> 'a res \<Rightarrow> 'a res" where
  "role_check link expected k = r_bind (parse_id link) (\<lambda>c.
     raise_when (role c \<noteq> expected) (''client order ID must have role '' @ role_value expected) k)"

record protection_snapshot =
  ps_entry_order_link_id :: string
  ps_state :: live_execution_state
  ps_entry_quantity :: dec
  ps_open_quantity :: dec
  ps_average_entry_price :: dec
  ps_entry_fees :: dec
  ps_stop_order_link_id :: string
  ps_stop_order_id :: "string option"
  ps_stop_trigger_price :: dec
  ps_tp_order_link_id :: "string option"
  ps_tp_order_id :: "string option"
  ps_tp_price :: "dec option"
  ps_tp_filled_quantity :: dec
  ps_stop_filled_quantity :: dec
  ps_exit_notional :: dec
  ps_exit_fees :: dec
  ps_confirmed_recovery_debt :: dec
  ps_pending_terminal_state :: "live_execution_state option"
  ps_version :: int
  ps_updated_at :: datetime

definition closed_quantity :: "protection_snapshot \<Rightarrow> dec" where
  "closed_quantity s = dadd (ps_tp_filled_quantity s) (ps_stop_filled_quantity s)"

definition protection_checks :: "protection_snapshot \<Rightarrow> (bool \<times> string) list" where
  "protection_checks s =
    [(ps_state s \<notin> set protection_states, ''state is not valid for protection execution''),
     (ps_entry_quantity s \<le> 0 \<or> ps_average_entry_price s \<le> 0, ''entry quantity and average price must be positive''),
     (ps_open_quantity s < 0 \<or> ps_entry_quantity s < ps_open_quantity s, ''open quantity must be within entry quantity''),
     (ps_entry_fees s < 0, ''entry fees cannot be negative''),
     (ps_tp_filled_quantity s < 0, ''tp filled quantity cannot be negative''),
     (ps_stop_filled_quantity s < 0, ''stop filled quantity cannot be negative''),
     (ps_exit_notional s < 0, ''exit notional cannot be negative''),
     (ps_exit_fees s < 0, ''exit fees cannot be negative''),
     (ps_confirmed_recovery_debt s < 0, ''confirmed recovery debt cannot be negative''),
     (dadd (closed_quantity s) (ps_open_quantity s) \<noteq> ps_entry_quantity s, ''open and closed quantities must equal entry quantity''),
     (closed_quantity s = 0 \<and> ps_exit_notional s \<noteq> 0, ''unfilled exits must have zero notional''),
     (0 < closed_quantity s \<and> ps_exit_notional s \<le> 0, ''filled exits must have positive notional''),
     (ps_stop_trigger_price s \<le> 0, ''stop trigger price must be positive''),
     (some_and blank (ps_stop_order_id s), ''stop order ID cannot be empty''),
     (some_and blank (ps_tp_order_id s), ''TP order ID cannot be empty''),
     (ps_tp_order_link_id s = None \<and> (ps_tp_order_id s \<noteq> None \<or> ps_tp_price s \<noteq> None), ''TP details require a TP client order ID''),
     (ps_tp_order_link_id s \<noteq> None \<and> (ps_tp_price s = None \<or> not_positive (ps_tp_price s)), ''TP intent requires a positive price''),
     (ps_state s = ACTIVE_PROTECTED \<and> ps_stop_order_id s = None, ''protected state requires a confirmed stop''),
     (ps_pending_terminal_state s \<notin> set [None, Some CLOSED_TP, Some CLOSED_STOP], ''pending terminal state must be CLOSED_TP or CLOSED_STOP''),
     (ps_state s = CANCEL_PENDING \<and> (ps_open_quantity s \<noteq> 0 \<or> ps_pending_terminal_state s = None), ''cancel pending requires a closed local position''),
     (ps_state s \<in> set [CLOSED_TP, CLOSED_STOP] \<and> (ps_open_quantity s \<noteq> 0 \<or> ps_pending_terminal_state s \<noteq> None), ''closed state requires zero open quantity''),
     (ps_version s \<le> 0, ''snapshot version must be positive''),
     utc_guard (ps_updated_at s) ''update time'']"

definition mk_protection_snapshot :: "protection_snapshot \<Rightarrow> protection_snapshot res" where
  [post_init]: "mk_protection_snapshot s =
     role_check (ps_entry_order_link_id s) HEDGE_ENTRY (role_check (ps_stop_order_link_id s) HEDGE_STOP
       ((case ps_tp_order_link_id s of None \<Rightarrow> id | Some l \<Rightarrow> role_check l HEDGE_TP)
         (check_all (protection_checks s) (Inr s))))"

definition realized_pnl :: "protection_snapshot \<Rightarrow> dec" where
  "realized_pnl s = (let closed = closed_quantity s;
       allocated_entry_fees = dquot (dmul (ps_entry_fees s) closed) (ps_entry_quantity s)
     in dsub (dsub (dsub (dmul (ps_average_entry_price s) closed) (ps_exit_notional s)) allocated_entry_fees) (ps_exit_fees s))"

definition for_stop_intent :: "entry_snapshot \<Rightarrow> string \<Rightarrow> dec \<Rightarrow> datetime \<Rightarrow> protection_snapshot res" where
  "for_stop_intent e stop_link trigger persisted_at =
     raise_when (es_state e \<noteq> ACTIVE_UNPROTECTED) ''stop protection requires ACTIVE_UNPROTECTED entry''
    (case average_entry_price e of
       None \<Rightarrow> Inl (ValueError ''stop protection requires confirmed entry executions'')
     | Some average \<Rightarrow> raise_when (es_filled_quantity e \<le> 0) ''stop protection requires confirmed entry executions''
        (mk_protection_snapshot \<lparr>ps_entry_order_link_id = es_order_link_id e, ps_state = ACTIVE_UNPROTECTED,
           ps_entry_quantity = es_filled_quantity e, ps_open_quantity = es_filled_quantity e,
           ps_average_entry_price = average, ps_entry_fees = es_entry_fees e, ps_stop_order_link_id = stop_link,
           ps_stop_order_id = None, ps_stop_trigger_price = trigger, ps_tp_order_link_id = None, ps_tp_order_id = None,
           ps_tp_price = None, ps_tp_filled_quantity = 0, ps_stop_filled_quantity = 0, ps_exit_notional = 0,
           ps_exit_fees = 0, ps_confirmed_recovery_debt = 0, ps_pending_terminal_state = None, ps_version = 1,
           ps_updated_at = persisted_at\<rparr>))"

section \<open>Reducers\<close>

definition touched :: "protection_snapshot \<Rightarrow> datetime \<Rightarrow> protection_snapshot" where
  "touched s now = s\<lparr>ps_version := ps_version s + 1, ps_updated_at := now\<rparr>"

definition confirm_stop :: "protection_snapshot \<Rightarrow> string \<Rightarrow> datetime \<Rightarrow> protection_snapshot res" where
  "confirm_stop s order_id now = mk_protection_snapshot
     ((touched s now)\<lparr>ps_state := ACTIVE_PROTECTED, ps_stop_order_id := Some order_id\<rparr>)"

definition replace_stop_intent :: "protection_snapshot \<Rightarrow> string \<Rightarrow> dec \<Rightarrow> datetime \<Rightarrow> protection_snapshot res" where
  "replace_stop_intent s link trigger now =
     raise_when (ps_open_quantity s \<le> 0) ''replacement stop requires confirmed open quantity''
    (raise_when (ps_state s \<notin> set [ACTIVE_PROTECTED, EXIT_PARTIALLY_FILLED, RECONCILING])
       ''snapshot state does not allow replacement protection''
    (mk_protection_snapshot ((touched s now)\<lparr>ps_state := ACTIVE_UNPROTECTED, ps_stop_order_link_id := link,
       ps_stop_order_id := None, ps_stop_trigger_price := trigger\<rparr>)))"

definition add_take_profit_intent :: "protection_snapshot \<Rightarrow> string \<Rightarrow> dec \<Rightarrow> datetime \<Rightarrow> protection_snapshot res" where
  "add_take_profit_intent s link price now =
     raise_when (ps_state s \<noteq> ACTIVE_PROTECTED) ''TP requires confirmed stop protection''
    (raise_when (ps_tp_order_link_id s \<noteq> None) ''TP intent already exists''
    (mk_protection_snapshot ((touched s now)\<lparr>ps_tp_order_link_id := Some link, ps_tp_price := Some price\<rparr>)))"

definition confirm_take_profit :: "protection_snapshot \<Rightarrow> string \<Rightarrow> datetime \<Rightarrow> protection_snapshot res" where
  "confirm_take_profit s order_id now =
     raise_when (ps_tp_order_link_id s = None) ''TP confirmation requires a persisted intent''
    (mk_protection_snapshot ((touched s now)\<lparr>ps_tp_order_id := Some order_id\<rparr>))"

definition mark_protection_reconciling :: "protection_snapshot \<Rightarrow> datetime \<Rightarrow> protection_snapshot res" where
  "mark_protection_reconciling s now = (if ps_state s = RECONCILING then Inr s
     else mk_protection_snapshot ((touched s now)\<lparr>ps_state := RECONCILING\<rparr>))"

text \<open>The loss of a stopped quantity with its share of the entry fee and the given exit fee.\<close>

definition stop_debt :: "protection_snapshot \<Rightarrow> dec \<Rightarrow> dec \<Rightarrow> dec \<Rightarrow> dec" where
  "stop_debt s price quantity exit_fee = max (dadd (dadd (dmul (dsub price (ps_average_entry_price s)) quantity)
     (dquot (dmul (ps_entry_fees s) quantity) (ps_entry_quantity s))) exit_fee) 0"

definition apply_exit_execution :: "protection_snapshot \<Rightarrow> execution_update \<Rightarrow> datetime \<Rightarrow> protection_snapshot res" where
  "apply_exit_execution s x now =
     raise_when (ex_symbol x \<noteq> ''ETHUSDT'' \<or> ex_side x \<noteq> Buy) ''protective execution must be an ETHUSDT Buy''
    (let is_stop = (ex_order_link_id x = ps_stop_order_link_id s);
         is_tp = (ps_tp_order_link_id s = Some (ex_order_link_id x));
         expected = (if is_stop then ps_stop_order_id s else ps_tp_order_id s)
     in raise_when (\<not> is_stop \<and> \<not> is_tp) ''execution does not belong to a protective exit''
    (raise_when (some_and (\<lambda>i. ex_order_id x \<noteq> i) expected) ''execution order ID does not match protective exit''
    (raise_when (ps_open_quantity s < ex_quantity x) ''exit execution exceeds confirmed open quantity''
    (let open_quantity = dsub (ps_open_quantity s) (ex_quantity x);
         stop_filled = (if is_stop then dadd (ps_stop_filled_quantity s) (ex_quantity x) else ps_stop_filled_quantity s);
         tp_filled = (if is_stop then ps_tp_filled_quantity s else dadd (ps_tp_filled_quantity s) (ex_quantity x));
         debt = (if is_stop then dadd (ps_confirmed_recovery_debt s) (stop_debt s (ex_price x) (ex_quantity x) (ex_fee x))
                 else ps_confirmed_recovery_debt s)
     in mk_protection_snapshot ((touched s now)\<lparr>
          ps_state := (if open_quantity = 0 then CANCEL_PENDING else EXIT_PARTIALLY_FILLED),
          ps_open_quantity := open_quantity, ps_tp_filled_quantity := tp_filled,
          ps_stop_filled_quantity := stop_filled,
          ps_exit_notional := dadd (ps_exit_notional s) (dmul (ex_price x) (ex_quantity x)),
          ps_exit_fees := dadd (ps_exit_fees s) (ex_fee x), ps_confirmed_recovery_debt := debt,
          ps_pending_terminal_state := (if open_quantity = 0
            then Some (if 0 < stop_filled then CLOSED_STOP else CLOSED_TP) else None)\<rparr>)))))"

definition apply_emergency_exit_execution ::
    "protection_snapshot \<Rightarrow> execution_update \<Rightarrow> datetime \<Rightarrow> dec option \<Rightarrow> protection_snapshot res" where
  "apply_emergency_exit_execution s x now allocated =
     r_bind (parse_id (ps_entry_order_link_id s)) (\<lambda>entry_id.
     r_bind (parse_id (ex_order_link_id x)) (\<lambda>close_id.
     raise_when (role close_id \<noteq> EMERGENCY_CLOSE \<or> strategy_instance close_id \<noteq> strategy_instance entry_id
         \<or> cycle close_id \<noteq> cycle entry_id) ''emergency execution does not belong to this level''
    (raise_when (ex_symbol x \<noteq> ''ETHUSDT'' \<or> ex_side x \<noteq> Buy) ''emergency execution must buy ETHUSDT''
    (let quantity = (case allocated of None \<Rightarrow> ex_quantity x | Some q \<Rightarrow> q)
     in raise_when (quantity \<le> 0 \<or> ex_quantity x < quantity) ''emergency allocation is outside the execution''
    (raise_when (ps_open_quantity s < quantity) ''emergency execution exceeds confirmed open quantity''
    (let allocated_exit_fee = dquot (dmul (ex_fee x) quantity) (ex_quantity x)
     in mk_protection_snapshot ((touched s now)\<lparr>
          ps_state := X_ERROR, ps_open_quantity := dsub (ps_open_quantity s) quantity,
          ps_stop_filled_quantity := dadd (ps_stop_filled_quantity s) quantity,
          ps_exit_notional := dadd (ps_exit_notional s) (dmul (ex_price x) quantity),
          ps_exit_fees := dadd (ps_exit_fees s) allocated_exit_fee,
          ps_confirmed_recovery_debt := dadd (ps_confirmed_recovery_debt s)
            (stop_debt s (ex_price x) quantity allocated_exit_fee),
          ps_pending_terminal_state := None\<rparr>)))))))"

definition confirm_exit_reconciliation :: "protection_snapshot \<Rightarrow> datetime \<Rightarrow> protection_snapshot res" where
  "confirm_exit_reconciliation s now = (case ps_pending_terminal_state s of
       None \<Rightarrow> Inl (ValueError ''exit reconciliation requires CANCEL_PENDING state'')
     | Some terminal \<Rightarrow> raise_when (ps_state s \<noteq> CANCEL_PENDING) ''exit reconciliation requires CANCEL_PENDING state''
        (mk_protection_snapshot ((touched s now)\<lparr>ps_state := terminal, ps_pending_terminal_state := None\<rparr>)))"

definition protection_position_matches :: "protection_snapshot \<Rightarrow> exchange_position list \<Rightarrow> bool" where
  "protection_position_matches s positions =
     (if ps_open_quantity s = 0 then eth_positions positions = [] else single_short positions (ps_open_quantity s))"

definition aggregate_protection_position_matches :: "protection_snapshot list \<Rightarrow> exchange_position list \<Rightarrow> bool" where
  "aggregate_protection_position_matches ss positions = (let expected = dsum (map ps_open_quantity ss)
     in if expected = 0 then eth_positions positions = [] else single_short positions expected)"

section \<open>Steps\<close>

datatype prot_op =
    ConfirmStop string datetime
  | ReplaceStop string dec datetime
  | AddTp string dec datetime
  | ConfirmTp string datetime
  | MarkReconciling datetime
  | Exit execution_update datetime
  | Emergency execution_update datetime "dec option"
  | ConfirmExit datetime

fun prot_apply :: "protection_snapshot \<Rightarrow> prot_op \<Rightarrow> protection_snapshot res" where
  "prot_apply s (ConfirmStop i t) = confirm_stop s i t"
| "prot_apply s (ReplaceStop l p t) = replace_stop_intent s l p t"
| "prot_apply s (AddTp l p t) = add_take_profit_intent s l p t"
| "prot_apply s (ConfirmTp i t) = confirm_take_profit s i t"
| "prot_apply s (MarkReconciling t) = mark_protection_reconciling s t"
| "prot_apply s (Exit x t) = apply_exit_execution s x t"
| "prot_apply s (Emergency x t q) = apply_emergency_exit_execution s x t q"
| "prot_apply s (ConfirmExit t) = confirm_exit_reconciliation s t"

text \<open>Fills reach the reducers as validated executions.\<close>

fun valid_op :: "prot_op \<Rightarrow> bool" where
  "valid_op (Exit x t) = is_ok (mk_execution_update x)"
| "valid_op (Emergency x t q) = is_ok (mk_execution_update x)"
| "valid_op _ = True"

inductive prot_step :: "protection_snapshot \<Rightarrow> prot_op \<Rightarrow> protection_snapshot \<Rightarrow> bool" where
  "valid_op op \<Longrightarrow> prot_apply s op = Inr s' \<Longrightarrow> prot_step s op s'"

inductive_simps prot_step_iff: "prot_step s op s'"

inductive prot_reachable :: "protection_snapshot \<Rightarrow> protection_snapshot \<Rightarrow> bool" for s0 where
  initially: "prot_reachable s0 s0"
| later: "prot_reachable s0 s \<Longrightarrow> prot_step s op s' \<Longrightarrow> prot_reachable s0 s'"

section \<open>What the reducers keep\<close>

definition valid_protection :: "protection_snapshot \<Rightarrow> bool" where
  "valid_protection s \<longleftrightarrow> mk_protection_snapshot s = Inr s"

lemma role_check_Inr: "role_check l r k = Inr x \<longleftrightarrow> (\<exists>c. parse_id l = Inr c \<and> role c = r) \<and> k = Inr x"
  by (auto simp: role_check_def)

lemma mk_protection_same: "mk_protection_snapshot s = Inr s' \<Longrightarrow> s' = s \<and> valid_protection s \<and> none_holds (protection_checks s)"
  by (auto simp: mk_protection_snapshot_def role_check_Inr valid_protection_def split: option.splits)

lemma valid_protection_facts:
  assumes "valid_protection s"
  shows "0 < ps_entry_quantity s" "0 \<le> ps_open_quantity s" "ps_open_quantity s \<le> ps_entry_quantity s"
    "0 \<le> ps_tp_filled_quantity s" "0 \<le> ps_stop_filled_quantity s" "0 \<le> ps_confirmed_recovery_debt s"
    "dadd (closed_quantity s) (ps_open_quantity s) = ps_entry_quantity s"
    "ps_state s = CANCEL_PENDING \<Longrightarrow> ps_open_quantity s = 0 \<and> ps_pending_terminal_state s \<noteq> None"
    "ps_state s \<in> {CLOSED_TP, CLOSED_STOP} \<Longrightarrow> ps_open_quantity s = 0 \<and> ps_pending_terminal_state s = None"
  using mk_protection_same [of s s] assms by (auto simp: valid_protection_def protection_checks_def not_le not_less)

definition same_fills :: "protection_snapshot \<Rightarrow> protection_snapshot \<Rightarrow> bool" where
  "same_fills s s' \<longleftrightarrow> ps_open_quantity s' = ps_open_quantity s \<and> ps_tp_filled_quantity s' = ps_tp_filled_quantity s
     \<and> ps_stop_filled_quantity s' = ps_stop_filled_quantity s
     \<and> ps_confirmed_recovery_debt s' = ps_confirmed_recovery_debt s"

text \<open>A reducer either leaves the fills and the pending terminal state alone, and does not enter a
  closed state; or it books a fill; or it takes over the pending terminal state.\<close>

lemma prot_step_cases:
  assumes "prot_step s op s'"
  obtains (quiet) "same_fills s s'" "ps_pending_terminal_state s' = ps_pending_terminal_state s"
      "ps_state s' \<notin> {CLOSED_TP, CLOSED_STOP} \<or> ps_state s' = ps_state s"
  | (tp_fill) q where "0 \<le> q" "ps_open_quantity s' = dsub (ps_open_quantity s) q"
      "ps_stop_filled_quantity s' = ps_stop_filled_quantity s"
      "ps_confirmed_recovery_debt s' = ps_confirmed_recovery_debt s" "ps_state s' \<notin> {CLOSED_TP, CLOSED_STOP}"
      "ps_pending_terminal_state s' \<in> {None, Some (if 0 < ps_stop_filled_quantity s' then CLOSED_STOP else CLOSED_TP)}"
  | (stop_fill) q loss where "0 \<le> q" "0 \<le> loss" "ps_open_quantity s' = dsub (ps_open_quantity s) q"
      "ps_confirmed_recovery_debt s' = dadd (ps_confirmed_recovery_debt s) loss" "ps_state s' \<notin> {CLOSED_TP, CLOSED_STOP}"
      "ps_pending_terminal_state s' \<in> {None, Some (if 0 < ps_stop_filled_quantity s' then CLOSED_STOP else CLOSED_TP)}"
  | (closing) "same_fills s s'" "ps_pending_terminal_state s = Some (ps_state s')" "ps_pending_terminal_state s' = None"
proof -
  have op: "valid_op op" "prot_apply s op = Inr s'" using assms by (simp_all add: prot_step_iff)
  have pos: "0 \<le> ex_quantity x" if "is_ok (mk_execution_update x)" for x
    using that by (auto simp: is_ok_iff mk_execution_update_def)
  show ?thesis
  proof (cases op)
    case (Exit x t)
    have x: "0 \<le> ex_quantity x" using pos op(1) Exit by simp
    show ?thesis
    proof (cases "ex_order_link_id x = ps_stop_order_link_id s")
      case True
      with Exit op(2) show ?thesis
        by (intro that(3) [of "ex_quantity x" "stop_debt s (ex_price x) (ex_quantity x) (ex_fee x)"])
           (use x in \<open>auto simp: apply_exit_execution_def Let_def touched_def stop_debt_def dest!: mk_protection_same split: if_splits\<close>)
    next
      case False
      with Exit op(2) show ?thesis
        by (intro that(2) [of "ex_quantity x"])
           (use x in \<open>auto simp: apply_exit_execution_def Let_def touched_def dest!: mk_protection_same split: if_splits\<close>)
    qed
  next
    case (Emergency x t q)
    define qty where "qty = (case q of None \<Rightarrow> ex_quantity x | Some y \<Rightarrow> y)"
    from Emergency op(2) have "0 < qty"
      by (auto simp: apply_emergency_exit_execution_def Let_def qty_def not_le)
    with Emergency op(2) show ?thesis
      by (intro that(3) [of qty "stop_debt s (ex_price x) qty (dquot (dmul (ex_fee x) qty) (ex_quantity x))"])
         (auto simp: apply_emergency_exit_execution_def Let_def touched_def stop_debt_def qty_def dest!: mk_protection_same)
  next
    case (ConfirmExit t)
    with op(2) show ?thesis
      by (intro that(4)) (auto simp: confirm_exit_reconciliation_def touched_def same_fills_def dest!: mk_protection_same split: option.splits)
  qed (use op(2) in \<open>auto simp: confirm_stop_def replace_stop_intent_def add_take_profit_intent_def confirm_take_profit_def
      mark_protection_reconciling_def touched_def same_fills_def dest!: mk_protection_same intro!: that(1) split: if_splits\<close>)
qed

lemma prot_step_frame:
  assumes "prot_step s op s'"
  shows "valid_protection s \<longrightarrow> valid_protection s'" "ps_entry_quantity s' = ps_entry_quantity s"
    "ps_average_entry_price s' = ps_average_entry_price s" "ps_entry_order_link_id s' = ps_entry_order_link_id s"
    "ps_version s \<le> ps_version s'"
  using assms
  by (cases op; auto simp: prot_step_iff confirm_stop_def replace_stop_intent_def add_take_profit_intent_def
      confirm_take_profit_def mark_protection_reconciling_def apply_exit_execution_def apply_emergency_exit_execution_def
      confirm_exit_reconciliation_def Let_def touched_def dest!: mk_protection_same split: if_splits option.splits)+

definition prot_inv :: "protection_snapshot \<Rightarrow> bool" where
  "prot_inv s \<longleftrightarrow> valid_protection s \<and> representable (ps_open_quantity s) \<and> representable (ps_confirmed_recovery_debt s)
     \<and> (CLOSED_TP \<in> set_option (ps_pending_terminal_state s) \<or> ps_state s = CLOSED_TP \<longrightarrow> ps_stop_filled_quantity s = 0)
     \<and> (CLOSED_STOP \<in> set_option (ps_pending_terminal_state s) \<or> ps_state s = CLOSED_STOP \<longrightarrow> 0 < ps_stop_filled_quantity s)"

lemma prot_inv_step:
  assumes "prot_inv s" "prot_step s op s'"
  shows "prot_inv s' \<and> ps_open_quantity s' \<le> ps_open_quantity s \<and> ps_confirmed_recovery_debt s \<le> ps_confirmed_recovery_debt s'"
proof -
  have v: "valid_protection s'" using prot_step_frame(1) [OF assms(2)] assms(1) by (simp add: prot_inv_def)
  have r: "representable (ps_open_quantity s)" "representable (ps_confirmed_recovery_debt s)"
    using assms(1) by (simp_all add: prot_inv_def)
  note nn = valid_protection_facts(5) [OF v]
  from assms(2) show ?thesis
  proof (cases rule: prot_step_cases)
    case quiet
    with assms(1) v show ?thesis by (auto simp: prot_inv_def same_fills_def)
  next
    case (tp_fill q)
    with v r nn show ?thesis by (auto simp: prot_inv_def dsub_le_left split: if_splits)
  next
    case (stop_fill q loss)
    with v r nn show ?thesis by (auto simp: prot_inv_def dsub_le_left dadd_ge_left split: if_splits)
  next
    case closing
    with assms(1) v show ?thesis by (auto simp: prot_inv_def same_fills_def)
  qed
qed

lemma prot_reachable_inv:
  assumes "prot_reachable s0 s" "prot_inv s0"
  shows "prot_inv s \<and> ps_entry_quantity s = ps_entry_quantity s0 \<and> ps_open_quantity s \<le> ps_open_quantity s0"
  using assms
proof (induction rule: prot_reachable.induct)
  case (later s op s')
  then show ?case using prot_inv_step [of s op s'] prot_step_frame(2) [of s op s'] by auto
qed simp

lemma for_stop_intent_inv:
  assumes "for_stop_intent e link trigger t = Inr s0" "representable (es_filled_quantity e)"
  shows "prot_inv s0" "ps_entry_quantity s0 = es_filled_quantity e" "ps_open_quantity s0 = es_filled_quantity e"
  using assms by (auto simp: for_stop_intent_def prot_inv_def dest!: mk_protection_same split: option.splits)

text \<open>C23. The protected hedge. From the stop intent of a filled entry, along any sequence of reducers
  with validated fills: the entry quantity is always the open plus the closed quantity; each step
  keeps or reduces the open quantity and keeps or raises the recovery debt, so a reduced position is
  never reopened and no debt forgotten; a closed level has nothing open, and it counts as closed by
  take profit exactly if no part of it was stopped.\<close>

theorem protected_hedge_safe:
  assumes "for_stop_intent e link trigger t = Inr s0" and "representable (es_filled_quantity e)"
    and "prot_reachable s0 s"
  shows "dadd (closed_quantity s) (ps_open_quantity s) = es_filled_quantity e
    \<and> 0 \<le> ps_open_quantity s \<and> ps_open_quantity s \<le> es_filled_quantity e \<and> 0 \<le> ps_confirmed_recovery_debt s
    \<and> (ps_state s \<in> {CLOSED_TP, CLOSED_STOP} \<longrightarrow> ps_open_quantity s = 0
         \<and> (ps_state s = CLOSED_TP \<longleftrightarrow> ps_stop_filled_quantity s = 0))
    \<and> (\<forall>op s'. prot_step s op s' \<longrightarrow> ps_open_quantity s' \<le> ps_open_quantity s
         \<and> ps_confirmed_recovery_debt s \<le> ps_confirmed_recovery_debt s' \<and> ps_version s \<le> ps_version s')"
proof -
  note s0 = for_stop_intent_inv [OF assms(1,2)]
  have inv: "prot_inv s" "ps_entry_quantity s = es_filled_quantity e" "ps_open_quantity s \<le> es_filled_quantity e"
    using prot_reachable_inv [OF assms(3) s0(1)] s0 by simp_all
  then have v: "valid_protection s" by (simp add: prot_inv_def)
  have steps: "\<forall>op s'. prot_step s op s' \<longrightarrow> ps_open_quantity s' \<le> ps_open_quantity s
      \<and> ps_confirmed_recovery_debt s \<le> ps_confirmed_recovery_debt s' \<and> ps_version s \<le> ps_version s'"
    using prot_inv_step [OF inv(1)] prot_step_frame(5) by blast
  show ?thesis
    using valid_protection_facts [OF v] inv steps by (auto simp: prot_inv_def)
qed

definition filled_sample :: entry_snapshot where
  "filled_sample = sample_entry\<lparr>es_state := ACTIVE_UNPROTECTED, es_filled_quantity := 1, es_entry_notional := 3000\<rparr>"

definition sample_stop_link :: string where
  "sample_stop_link = ''ECH-a1-C0007-L03-STOP-A02-00FF3A''"

theorem protected_hedge_safe_witness:
  "\<exists>s0 s. for_stop_intent filled_sample sample_stop_link (30045 / 10) (Aware 5) = Inr s0
     \<and> prot_reachable s0 s \<and> ps_state s = ACTIVE_PROTECTED \<and> 0 \<le> ps_open_quantity s"
proof -
  have "is_ok (r_bind (for_stop_intent filled_sample sample_stop_link (30045 / 10) (Aware 5)) (\<lambda>s0.
      confirm_stop s0 ''o2'' (Aware 6)))"
    by code_simp
  then obtain s0 s where s0: "for_stop_intent filled_sample sample_stop_link (30045 / 10) (Aware 5) = Inr s0"
    and s: "confirm_stop s0 ''o2'' (Aware 6) = Inr s"
    by (auto simp: is_ok_r_bind) (auto simp: is_ok_iff)
  have "prot_step s0 (ConfirmStop ''o2'' (Aware 6)) s" using s by (simp add: prot_step_iff)
  then have r: "prot_reachable s0 s" by (rule prot_reachable.later [OF prot_reachable.initially])
  have "representable (es_filled_quantity filled_sample)"
    by (simp add: filled_sample_def representable_of_int [of 1, simplified])
  from protected_hedge_safe [OF s0 this r] s0 r s show ?thesis
    by (auto simp: confirm_stop_def touched_def dest!: mk_protection_same)
qed

end
