(* ===== verification/Option_Lifecycle.thy ===== *)
theory Option_Lifecycle
  imports Decimal_Arith
begin

text \<open>
  \<open>domain/option_lifecycle.py\<close>: when a partly filled spread may be kept, and the cutoffs before
  expiry. The lemmas reduce all permissions and due events to the phase of a spread's life, the
  number of cutoffs reached, and say that this phase never goes back.
\<close>

datatype unmatched_long_policy = CLOSE_LONG | RETAIN_LONG

record option_entry_policy =
  max_leg_wait_seconds :: dec
  allow_partial_spread :: bool
  minimum_matched_quantity :: dec
  maximum_credit_deviation :: dec
  oe_unmatched_long_policy :: unmatched_long_policy

definition mk_option_entry_policy :: "option_entry_policy \<Rightarrow> option_entry_policy res" where
  [post_init]: "mk_option_entry_policy p = check_all
    [(max_leg_wait_seconds p \<le> 0, ''max leg wait seconds must be positive''),
     (minimum_matched_quantity p \<le> 0, ''minimum matched quantity must be positive''),
     (maximum_credit_deviation p < 0, ''maximum credit deviation cannot be negative'')] (Inr p)"

definition accepts_completion :: "option_entry_policy \<Rightarrow> dec \<Rightarrow> dec \<Rightarrow> dec \<Rightarrow> bool res" where
  "accepts_completion p requested matched deviation = check_all
    [(requested \<le> 0, ''requested quantity must be positive''),
     (matched < 0 \<or> requested < matched, ''matched quantity must be between zero and requested''),
     (deviation < 0, ''credit deviation cannot be negative'')]
    (Inr (if matched < minimum_matched_quantity p then False
          else if maximum_credit_deviation p < deviation then False
          else allow_partial_spread p \<or> matched = requested))"

datatype option_lifecycle_event = OPTION_EXPIRY_APPROACHING | OPTION_TRADING_CUTOFF | OPTION_DELIVERY | OPTION_SETTLED

record option_lifecycle_policy =
  last_new_hedge_time_utc :: datetime
  last_option_adjustment_time_utc :: datetime
  forced_close_time_utc :: datetime
  lp_expiry_time_utc :: datetime

definition mk_option_lifecycle_policy :: "option_lifecycle_policy \<Rightarrow> option_lifecycle_policy res" where
  [post_init]: "mk_option_lifecycle_policy p = check_all
    [utc_guard (last_new_hedge_time_utc p) ''last new hedge time utc'',
     utc_guard (last_option_adjustment_time_utc p) ''last option adjustment time utc'',
     utc_guard (forced_close_time_utc p) ''forced close time utc'',
     utc_guard (lp_expiry_time_utc p) ''expiry time utc'',
     (\<not> (instant (last_new_hedge_time_utc p) \<le> instant (last_option_adjustment_time_utc p)
         \<and> instant (last_option_adjustment_time_utc p) \<le> instant (forced_close_time_utc p)
         \<and> instant (forced_close_time_utc p) \<le> instant (lp_expiry_time_utc p)),
      ''option lifecycle times must be ordered'')] (Inr p)"

definition allows_new_hedge :: "option_lifecycle_policy \<Rightarrow> datetime \<Rightarrow> bool res" where
  "allows_new_hedge p now = raise_naive now ''as of time'' (Inr (instant now < instant (last_new_hedge_time_utc p)))"

definition allows_option_adjustment :: "option_lifecycle_policy \<Rightarrow> datetime \<Rightarrow> bool res" where
  "allows_option_adjustment p now =
     raise_naive now ''as of time'' (Inr (instant now < instant (last_option_adjustment_time_utc p)))"

definition requires_forced_close :: "option_lifecycle_policy \<Rightarrow> datetime \<Rightarrow> bool res" where
  "requires_forced_close p now = raise_naive now ''as of time''
     (Inr (instant (forced_close_time_utc p) \<le> instant now \<and> instant now < instant (lp_expiry_time_utc p)))"

definition events_due :: "option_lifecycle_policy \<Rightarrow> datetime \<Rightarrow> bool \<Rightarrow> option_lifecycle_event list res" where
  "events_due p now settled = raise_naive now ''as of time''
    (raise_when (settled \<and> instant now < instant (lp_expiry_time_utc p)) ''option cannot be settled before expiry''
    (Inr ((if instant (last_new_hedge_time_utc p) \<le> instant now then [OPTION_EXPIRY_APPROACHING] else []) @
          (if instant (last_option_adjustment_time_utc p) \<le> instant now then [OPTION_TRADING_CUTOFF] else []) @
          (if instant (lp_expiry_time_utc p) \<le> instant now then [OPTION_DELIVERY] else []) @
          (if settled then [OPTION_SETTLED] else []))))"

text \<open>The life of a spread has four cutoffs; its phase is the number of them that have been reached, counted from
  the first one on. The cutoffs of an accepted policy are in order, so none is reached before an earlier one.\<close>

definition cutoffs :: "option_lifecycle_policy \<Rightarrow> int list" where
  "cutoffs p = [instant (last_new_hedge_time_utc p), instant (last_option_adjustment_time_utc p),
     instant (forced_close_time_utc p), instant (lp_expiry_time_utc p)]"

definition phase :: "option_lifecycle_policy \<Rightarrow> datetime \<Rightarrow> nat" where
  "phase p t = length (takeWhile (\<lambda>c. c \<le> instant t) (cutoffs p))"

definition phase_events :: "nat \<Rightarrow> option_lifecycle_event list" where
  "phase_events n = (if n = 0 then [] else if n = 1 then [OPTION_EXPIRY_APPROACHING]
     else if n < 4 then [OPTION_EXPIRY_APPROACHING, OPTION_TRADING_CUTOFF]
     else [OPTION_EXPIRY_APPROACHING, OPTION_TRADING_CUTOFF, OPTION_DELIVERY])"

lemma phase_le: "phase p t \<le> 4"
  using length_takeWhile_le [of _ "cutoffs p"] by (simp add: phase_def cutoffs_def)

lemma length_takeWhile_mono:
  "(\<And>x. P x \<Longrightarrow> Q x) \<Longrightarrow> length (takeWhile P xs) \<le> length (takeWhile Q xs)"
  by (induction xs) auto

lemma phase_mono: "instant t \<le> instant t' \<Longrightarrow> phase p t \<le> phase p t'"
  unfolding phase_def by (rule length_takeWhile_mono) simp

text \<open>C28. The phases before expiry. Under an accepted policy and at aware times, all permissions are functions of
  the phase, the number of cutoffs reached of the last new hedge, the last adjustment, the forced close and the
  expiry: a new hedge is allowed exactly before the first cutoff, an adjustment exactly before the second, a close
  is forced exactly from the third to the expiry, and the due events are those of the phases reached, in
  order; a settlement is due in addition when reported, and reporting it before expiry is an error. Reaching
  the later cutoffs means having reached the earlier ones, and the phase never goes back as time goes on, so no
  permission returns and no due event is lost.\<close>

theorem lifecycle_phases:
  assumes "mk_option_lifecycle_policy p = Inr p" and "is_aware t" "is_aware t'" "instant t \<le> instant t'"
  shows "allows_new_hedge p t = Inr (phase p t = 0)
    \<and> allows_option_adjustment p t = Inr (phase p t < 2)
    \<and> requires_forced_close p t = Inr (phase p t = 3)
    \<and> events_due p t False = Inr (phase_events (phase p t))
    \<and> (if phase p t = 4 then events_due p t True = Inr (phase_events 4 @ [OPTION_SETTLED]) else \<not> is_ok (events_due p t True))
    \<and> (\<forall>i < 4. i < phase p t \<longleftrightarrow> cutoffs p ! i \<le> instant t)
    \<and> phase p t \<le> phase p t' \<and> set (phase_events (phase p t)) \<subseteq> set (phase_events (phase p t'))"
proof -
  have o: "instant (last_new_hedge_time_utc p) \<le> instant (last_option_adjustment_time_utc p)"
    "instant (last_option_adjustment_time_utc p) \<le> instant (forced_close_time_utc p)"
    "instant (forced_close_time_utc p) \<le> instant (lp_expiry_time_utc p)"
    using assms(1) by (auto simp: mk_option_lifecycle_policy_def)
  have permissions: "allows_new_hedge p t = Inr (phase p t = 0)" "allows_option_adjustment p t = Inr (phase p t < 2)"
      "requires_forced_close p t = Inr (phase p t = 3)"
    unfolding allows_new_hedge_def allows_option_adjustment_def requires_forced_close_def
      raise_naive_aware [OF assms(2)] phase_def cutoffs_def
    using o by auto
  have due: "events_due p t False = Inr (phase_events (phase p t))"
    unfolding events_due_def raise_naive_aware [OF assms(2)] phase_def cutoffs_def
    using o by (auto simp: phase_events_def)
  have settled: "if phase p t = 4 then events_due p t True = Inr (phase_events 4 @ [OPTION_SETTLED]) else \<not> is_ok (events_due p t True)"
    unfolding events_due_def raise_naive_aware [OF assms(2)] phase_def cutoffs_def
    using o by (auto simp: phase_events_def)
  have reached: "\<forall>i < 4. i < phase p t \<longleftrightarrow> cutoffs p ! i \<le> instant t"
    using o by (auto simp: phase_def cutoffs_def nth_Cons' less_Suc_eq eval_nat_numeral)
  have later: "phase p t \<le> phase p t'" by (rule phase_mono [OF assms(4)])
  moreover have "set (phase_events m) \<subseteq> set (phase_events n)" if "m \<le> n" for m n
    using that by (auto simp: phase_events_def)
  ultimately show ?thesis using permissions due settled reached by blast
qed

definition sample_lifecycle :: option_lifecycle_policy where
  "sample_lifecycle = \<lparr>last_new_hedge_time_utc = Aware 100, last_option_adjustment_time_utc = Aware 200,
     forced_close_time_utc = Aware 300, lp_expiry_time_utc = Aware 400\<rparr>"

theorem lifecycle_phases_witness:
  "phase sample_lifecycle (Aware 350) = 3 \<and> allows_new_hedge sample_lifecycle (Aware 350) = Inr False
   \<and> requires_forced_close sample_lifecycle (Aware 350) = Inr True
   \<and> events_due sample_lifecycle (Aware 350) False = Inr [OPTION_EXPIRY_APPROACHING, OPTION_TRADING_CUTOFF]
   \<and> \<not> is_ok (events_due sample_lifecycle (Aware 350) True) \<and> 3 \<le> phase sample_lifecycle (Aware 450)"
proof -
  have "mk_option_lifecycle_policy sample_lifecycle = Inr sample_lifecycle" by code_simp
  moreover have n: "phase sample_lifecycle (Aware 350) = 3" by code_simp
  ultimately show ?thesis
    using lifecycle_phases [of sample_lifecycle "Aware 350" "Aware 450"] by (simp add: n phase_events_def)
qed

end
