(* ===== verification/Option_Position.thy ===== *)
theory Option_Position
  imports Instruments Credit_Spread
begin

text \<open>
  \<open>domain/option_position.py\<close>: the legs of a put credit spread built from their confirmed fills, the
  position with its validation, and the three valuation views: at expiry, at the mark prices and at
  the prices it can be liquidated at. \<open>leg_from_fills\<close> says what a leg
  records of its fills; \<open>position_loss_bounded\<close> relates the value at expiry to the payoff of \<open>Credit_Spread\<close>.
\<close>

datatype leg_side = Long | Short

datatype option_position_state = PLANNED | LONG_PROTECTION_PENDING | LONG_PROTECTION_FILLED
  | SHORT_PREMIUM_PENDING | P_OPEN | PARTIALLY_OPEN | CLOSING | P_CLOSED | P_ERROR

record option_quote_validation_policy =
  max_quote_age_seconds :: dec
  max_leg_timestamp_difference_seconds :: dec
  max_index_price_difference_ratio :: dec

definition mk_option_quote_validation_policy :: "option_quote_validation_policy \<Rightarrow> option_quote_validation_policy res" where
  [post_init]: "mk_option_quote_validation_policy p = check_all
    [(max_quote_age_seconds p < 0, ''max quote age seconds cannot be negative''),
     (max_leg_timestamp_difference_seconds p < 0, ''max leg timestamp difference seconds cannot be negative''),
     (max_index_price_difference_ratio p < 0, ''max index price difference ratio cannot be negative'')] (Inr p)"

definition default_quote_validation_policy :: option_quote_validation_policy where
  "default_quote_validation_policy = \<lparr>max_quote_age_seconds = 5, max_leg_timestamp_difference_seconds = 2,
     max_index_price_difference_ratio = 1 / 1000\<rparr>"

section \<open>Legs\<close>

record option_leg_position =
  lg_contract :: option_contract
  lg_side :: leg_side
  lg_requested_quantity :: dec
  lg_filled_quantity :: dec
  lg_average_entry_price :: dec
  lg_fees_paid :: dec
  lg_fills :: "option_fill list"

fun expected_side :: "leg_side \<Rightarrow> order_side" where
  "expected_side Long = Buy"
| "expected_side Short = Sell"

fun side_name :: "order_side \<Rightarrow> string" where
  "side_name Buy = ''Buy''"
| "side_name Sell = ''Sell''"

fun leg_name :: "leg_side \<Rightarrow> string" where
  "leg_name Long = ''Long''"
| "leg_name Short = ''Short''"

fun fold_fills ::
    "option_contract \<Rightarrow> leg_side \<Rightarrow> string list \<Rightarrow> dec \<times> dec \<times> dec \<Rightarrow> option_fill list \<Rightarrow> (dec \<times> dec \<times> dec) res" where
  "fold_fills c side seen (quantity, notional, fees) [] = Inr (quantity, notional, fees)"
| "fold_fills c side seen (quantity, notional, fees) (f # fs) =
     raise_when (fl_execution_id f \<in> set seen) (''duplicate execution ID: '' @ fl_execution_id f)
    (raise_when (fl_symbol f \<noteq> oc_symbol c) ''fill symbol must match the leg contract''
    (raise_when (fl_side f \<noteq> expected_side side)
       (''fill side must be '' @ side_name (expected_side side) @ '' for a '' @ leg_name side @ '' leg'')
    (fold_fills c side (fl_execution_id f # seen)
       (dadd quantity (fl_quantity f), dadd notional (dmul (fl_price f) (fl_quantity f)), dadd fees (fl_fee f)) fs)))"

definition aggregate_fills :: "option_contract \<Rightarrow> leg_side \<Rightarrow> option_fill list \<Rightarrow> (dec \<times> dec \<times> dec) res" where
  "aggregate_fills c side fs = r_bind (fold_fills c side [] (0, 0, 0) fs) (\<lambda>(quantity, notional, fees).
     Inr (quantity, if 0 < quantity then dquot notional quantity else 0, fees))"

definition mk_option_leg_position :: "option_leg_position \<Rightarrow> option_leg_position res" where
  [post_init]: "mk_option_leg_position l = check_all
    [(lg_requested_quantity l \<le> 0, ''requested quantity must be positive''),
     (lg_filled_quantity l < 0 \<or> lg_requested_quantity l < lg_filled_quantity l,
      ''filled quantity must be between zero and requested''),
     (lg_fees_paid l < 0, ''fees paid cannot be negative''),
     (lg_filled_quantity l = 0 \<and> lg_average_entry_price l \<noteq> 0, ''unfilled leg must have zero average entry price''),
     (0 < lg_filled_quantity l \<and> lg_average_entry_price l \<le> 0, ''filled leg must have a positive average entry price'')]
    (if lg_fills l = [] then Inr l
     else r_bind (aggregate_fills (lg_contract l) (lg_side l) (lg_fills l)) (\<lambda>(quantity, average, fees). check_all
       [(quantity \<noteq> lg_filled_quantity l, ''filled quantity must equal confirmed fill quantity''),
        (average \<noteq> lg_average_entry_price l, ''average entry price must equal fill-weighted average''),
        (fees \<noteq> lg_fees_paid l, ''fees paid must equal confirmed fill fees'')] (Inr l)))"

definition from_fills :: "option_contract \<Rightarrow> leg_side \<Rightarrow> dec \<Rightarrow> option_fill list \<Rightarrow> option_leg_position res" where
  "from_fills c side requested fs = r_bind (aggregate_fills c side fs) (\<lambda>(quantity, average, fees).
     mk_option_leg_position \<lparr>lg_contract = c, lg_side = side, lg_requested_quantity = requested,
       lg_filled_quantity = quantity, lg_average_entry_price = average, lg_fees_paid = fees, lg_fills = fs\<rparr>)"

definition remaining_quantity :: "option_leg_position \<Rightarrow> dec" where
  "remaining_quantity l = dsub (lg_requested_quantity l) (lg_filled_quantity l)"

section \<open>The position\<close>

record put_credit_spread_position =
  short_put :: option_leg_position
  long_put :: option_leg_position
  sp_state :: option_position_state
  sp_opened_time_utc :: "datetime option"

definition matched_quantity :: "put_credit_spread_position \<Rightarrow> dec" where
  "matched_quantity p = min (lg_filled_quantity (short_put p)) (lg_filled_quantity (long_put p))"

definition has_naked_short :: "put_credit_spread_position \<Rightarrow> bool" where
  "has_naked_short p \<longleftrightarrow> lg_filled_quantity (long_put p) < lg_filled_quantity (short_put p)"

definition leg_value :: "option_leg_position \<Rightarrow> dec \<Rightarrow> dec" where
  "leg_value l price = dmul (dmul price (lg_filled_quantity l)) (oc_contract_multiplier (lg_contract l))"

definition short_proceeds :: "put_credit_spread_position \<Rightarrow> dec" where
  "short_proceeds p = leg_value (short_put p) (lg_average_entry_price (short_put p))"

definition long_cost :: "put_credit_spread_position \<Rightarrow> dec" where
  "long_cost p = leg_value (long_put p) (lg_average_entry_price (long_put p))"

definition total_entry_fees :: "put_credit_spread_position \<Rightarrow> dec" where
  "total_entry_fees p = dadd (lg_fees_paid (short_put p)) (lg_fees_paid (long_put p))"

definition actual_net_credit :: "put_credit_spread_position \<Rightarrow> dec" where
  "actual_net_credit p = dsub (dsub (short_proceeds p) (long_cost p)) (total_entry_fees p)"

definition contract_checks :: "put_credit_spread_position \<Rightarrow> (bool \<times> string) list" where
  "contract_checks p = (let short = lg_contract (short_put p); long = lg_contract (long_put p) in
    [(lg_side (short_put p) \<noteq> Short \<or> lg_side (long_put p) \<noteq> Long, ''credit spread requires short and long leg sides''),
     (oc_option_type short \<noteq> Put \<or> oc_option_type long \<noteq> Put, ''credit spread legs must both be puts''),
     (oc_base_coin short \<noteq> oc_base_coin long \<or> oc_quote_coin short \<noteq> oc_quote_coin long
        \<or> oc_settle_coin short \<noteq> oc_settle_coin long, ''credit spread legs must use the same coins''),
     (instant (oc_expiry_time_utc short) \<noteq> instant (oc_expiry_time_utc long), ''credit spread legs must have the same expiry''),
     (oc_contract_multiplier short \<noteq> oc_contract_multiplier long, ''credit spread legs must have the same multiplier''),
     (oc_strike short \<le> oc_strike long, ''short put strike must be above long put strike'')])"

definition latest_fill :: "option_fill list \<Rightarrow> datetime option" where
  "latest_fill fs = (case map (instant \<circ> fl_timestamp_utc) fs of [] \<Rightarrow> None | t # ts \<Rightarrow> Some (Aware (fold max ts t)))"

definition set_opened_time :: "put_credit_spread_position \<Rightarrow> put_credit_spread_position res" where
  "set_opened_time p = (case sp_opened_time_utc p of
       Some t \<Rightarrow> raise_naive t ''opened time'' (Inr p)
     | None \<Rightarrow> Inr (if matched_quantity p \<le> 0 then p
         else p\<lparr>sp_opened_time_utc := latest_fill (lg_fills (short_put p) @ lg_fills (long_put p))\<rparr>))"

definition state_checks :: "put_credit_spread_position \<Rightarrow> (bool \<times> string) list" where
  "state_checks p = (let short = lg_filled_quantity (short_put p); long = lg_filled_quantity (long_put p); st = sp_state p in
    [(st = PLANNED \<and> (short \<noteq> 0 \<or> long \<noteq> 0), ''PLANNED position cannot contain fills''),
     (st = LONG_PROTECTION_PENDING \<and> short \<noteq> 0, ''short cannot fill while long protection is pending''),
     (st = LONG_PROTECTION_FILLED \<and> long \<le> 0, ''state requires confirmed protective long''),
     (st = LONG_PROTECTION_FILLED \<and> short \<noteq> 0, ''short cannot fill before premium submission''),
     (st = SHORT_PREMIUM_PENDING \<and> long \<le> 0, ''state requires confirmed protective long''),
     (st = P_OPEN \<and> matched_quantity p \<le> 0, ''OPEN requires confirmed matched quantity''),
     (st = P_OPEN \<and> short \<noteq> long, ''OPEN requires equal confirmed leg quantities''),
     (st = P_OPEN \<and> actual_net_credit p \<le> 0, ''OPEN requires positive actual net credit''),
     (st = PARTIALLY_OPEN \<and> matched_quantity p \<le> 0, ''PARTIALLY_OPEN requires confirmed matched quantity''),
     (st = PARTIALLY_OPEN \<and> short = long, ''equal filled quantities must use OPEN state'')])"

definition mk_put_credit_spread_position :: "put_credit_spread_position \<Rightarrow> put_credit_spread_position res" where
  [post_init]: "mk_put_credit_spread_position p = check_all (contract_checks p)
    (check_all [(has_naked_short p, ''short fill would create naked short option exposure'')]
    (r_bind (set_opened_time p) (\<lambda>p1. check_all (state_checks p1) (Inr p1))))"

section \<open>Valuation\<close>

definition expiration_pnl :: "put_credit_spread_position \<Rightarrow> dec \<Rightarrow> dec res" where
  "expiration_pnl p price = raise_when (price < 0) ''underlying price cannot be negative''
    (let short_intrinsic = max (dsub (oc_strike (lg_contract (short_put p))) price) 0;
         long_intrinsic = max (dsub (oc_strike (lg_contract (long_put p))) price) 0
     in Inr (dadd (dsub (actual_net_credit p) (leg_value (short_put p) short_intrinsic)) (leg_value (long_put p) long_intrinsic)))"

definition pnl_at_prices :: "put_credit_spread_position \<Rightarrow> dec \<Rightarrow> dec \<Rightarrow> dec" where
  "pnl_at_prices p short_price long_price =
     dadd (dsub (actual_net_credit p) (leg_value (short_put p) short_price)) (leg_value (long_put p) long_price)"

definition quote_checks ::
    "put_credit_spread_position \<Rightarrow> option_market_quote \<Rightarrow> option_market_quote \<Rightarrow> datetime
     \<Rightarrow> option_quote_validation_policy \<Rightarrow> string \<Rightarrow> string \<Rightarrow> bool \<Rightarrow> (bool \<times> string) list" where
  "quote_checks p short_quote long_quote as_of policy short_status long_status require_liquidation =
    [utc_guard as_of ''valuation time'',
     (instant (oc_expiry_time_utc (lg_contract (short_put p))) \<le> instant as_of, ''option expiry has passed''),
     (mq_symbol short_quote \<noteq> oc_symbol (lg_contract (short_put p)), ''short quote symbol must match the short contract''),
     (mq_symbol long_quote \<noteq> oc_symbol (lg_contract (long_put p)), ''long quote symbol must match the long contract''),
     (short_status \<noteq> ''Trading'', ''short instrument is not Trading''),
     (long_status \<noteq> ''Trading'', ''long instrument is not Trading''),
     (seconds_between as_of (mq_timestamp_utc short_quote) < 0, ''short quote timestamp is after valuation time''),
     (max_quote_age_seconds policy < seconds_between as_of (mq_timestamp_utc short_quote), ''short quote is stale''),
     (seconds_between as_of (mq_timestamp_utc long_quote) < 0, ''long quote timestamp is after valuation time''),
     (max_quote_age_seconds policy < seconds_between as_of (mq_timestamp_utc long_quote), ''long quote is stale''),
     (max_leg_timestamp_difference_seconds policy
        < dabs (seconds_between (mq_timestamp_utc short_quote) (mq_timestamp_utc long_quote)),
      ''option quote timestamps differ beyond tolerance''),
     (max_index_price_difference_ratio policy
        < dquot (dabs (dsub (mq_index_price short_quote) (mq_index_price long_quote)))
            (max (mq_index_price short_quote) (mq_index_price long_quote)),
      ''option quote index prices differ beyond tolerance''),
     (require_liquidation \<and> mq_ask_price short_quote = None, ''short ask is required for liquidation''),
     (require_liquidation \<and> mq_bid_price long_quote = None, ''long bid is required for liquidation'')]"

definition mark_pnl ::
    "put_credit_spread_position \<Rightarrow> option_market_quote \<Rightarrow> option_market_quote \<Rightarrow> datetime
     \<Rightarrow> option_quote_validation_policy \<Rightarrow> string \<Rightarrow> string \<Rightarrow> dec res" where
  "mark_pnl p short_quote long_quote as_of policy short_status long_status =
     check_all (quote_checks p short_quote long_quote as_of policy short_status long_status False)
       (Inr (pnl_at_prices p (mq_mark_price short_quote) (mq_mark_price long_quote)))"

definition liquidation_pnl ::
    "put_credit_spread_position \<Rightarrow> option_market_quote \<Rightarrow> option_market_quote \<Rightarrow> datetime
     \<Rightarrow> option_quote_validation_policy \<Rightarrow> string \<Rightarrow> string \<Rightarrow> dec res" where
  "liquidation_pnl p short_quote long_quote as_of policy short_status long_status =
     check_all (quote_checks p short_quote long_quote as_of policy short_status long_status True)
       (case (mq_ask_price short_quote, mq_bid_price long_quote) of
          (None, _) \<Rightarrow> Inl (ValueError ''short ask is required for liquidation'')
        | (Some _, None) \<Rightarrow> Inl (ValueError ''long bid is required for liquidation'')
        | (Some ask, Some bid) \<Rightarrow> Inr (pnl_at_prices p ask bid))"

record option_position_snapshot =
  on_short_symbol :: string
  on_long_symbol :: string
  on_matched_quantity :: dec
  on_short_average_entry_price :: dec
  on_long_average_entry_price :: dec
  on_actual_net_credit :: dec
  on_total_fees :: dec
  on_opened_time_utc :: "datetime option"
  on_expiry_time_utc :: datetime
  on_state :: option_position_state

definition position_snapshot_of :: "put_credit_spread_position \<Rightarrow> option_position_snapshot" where
  "position_snapshot_of p = \<lparr>on_short_symbol = oc_symbol (lg_contract (short_put p)),
     on_long_symbol = oc_symbol (lg_contract (long_put p)), on_matched_quantity = matched_quantity p,
     on_short_average_entry_price = lg_average_entry_price (short_put p),
     on_long_average_entry_price = lg_average_entry_price (long_put p),
     on_actual_net_credit = actual_net_credit p, on_total_fees = total_entry_fees p,
     on_opened_time_utc = sp_opened_time_utc p,
     on_expiry_time_utc = oc_expiry_time_utc (lg_contract (short_put p)), on_state = sp_state p\<rparr>"

section \<open>Aggregated fills\<close>

text \<open>What the loop over the fills computes, and what it has checked when it returns.\<close>

definition fills_of :: "option_contract \<Rightarrow> leg_side \<Rightarrow> option_fill list \<Rightarrow> bool" where
  "fills_of c side fs \<longleftrightarrow> distinct (map fl_execution_id fs)
     \<and> (\<forall>f \<in> set fs. fl_symbol f = oc_symbol c \<and> fl_side f = expected_side side)"

lemma fold_fills_Inr:
  "fold_fills c side seen (a, n, e) fs = Inr (q, m, x) \<longleftrightarrow>
     fills_of c side fs \<and> (\<forall>f \<in> set fs. fl_execution_id f \<notin> set seen)
     \<and> q = foldl dadd a (map fl_quantity fs)
     \<and> m = foldl dadd n (map (\<lambda>f. dmul (fl_price f) (fl_quantity f)) fs)
     \<and> x = foldl dadd e (map fl_fee fs)"
proof (induction fs arbitrary: seen a n e)
  case Nil
  then show ?case by (auto simp: fills_of_def)
next
  case (Cons f fs)
  show ?case by (auto simp: Cons fills_of_def image_iff)
qed

lemma aggregate_fills_Inr:
  "aggregate_fills c side fs = Inr (q, avg, x) \<longleftrightarrow>
     fills_of c side fs \<and> q = dsum (map fl_quantity fs) \<and> x = dsum (map fl_fee fs)
     \<and> avg = (if 0 < q then dquot (dsum (map (\<lambda>f. dmul (fl_price f) (fl_quantity f)) fs)) q else 0)"
  by (auto simp: aggregate_fills_def fold_fills_Inr dsum_def)

text \<open>Fills whose prices and quantities have at most \<open>k\<close> decimals and whose notional fits the
  context are added without rounding.\<close>

definition exact_leg_fills :: "nat \<Rightarrow> option_fill list \<Rightarrow> bool" where
  "exact_leg_fills k fs \<longleftrightarrow> (\<forall>f \<in> set fs. mk_option_fill f = Inr f \<and> on_grid k (fl_price f) \<and> on_grid k (fl_quantity f))
     \<and> sum_list (map fl_quantity fs) * 10 ^ k \<le> 10 ^ 28
     \<and> sum_list (map (\<lambda>f. fl_price f * fl_quantity f) fs) * 10 ^ (k + k) \<le> 10 ^ 28"

lemma foldl_dadd_exact:
  assumes "\<forall>x \<in> set xs. 0 \<le> x \<and> on_grid k x" "on_grid k a" "0 \<le> a" "(a + sum_list xs) * 10 ^ k \<le> 10 ^ 28"
  shows "foldl dadd a xs = a + sum_list xs"
  using assms
proof (induction xs arbitrary: a)
  case (Cons x xs)
  have s: "0 \<le> sum_list xs" using Cons.prems(1) by (intro sum_list_nonneg) simp
  have "(a + x) * 10 ^ k \<le> (a + sum_list (x # xs)) * 10 ^ k"
    using s by (intro mult_right_mono) simp_all
  also note Cons.prems(4)
  finally have "\<bar>a + x\<bar> * 10 ^ k \<le> 10 ^ 28" using Cons.prems(1,3) by simp
  moreover have "on_grid k (a + x)" using Cons.prems(1,2) by auto
  ultimately have "dadd a x = a + x" unfolding dadd_def by (intro rnd_exact on_grid_representable)
  moreover have "foldl dadd (a + x) xs = (a + x) + sum_list xs"
    using Cons.prems by (intro Cons.IH) (auto simp: algebra_simps)
  ultimately show ?case by simp
qed simp

lemma dsum_exact:
  assumes "\<forall>x \<in> set xs. 0 \<le> x \<and> on_grid k x" "sum_list xs * 10 ^ k \<le> 10 ^ 28"
  shows "dsum xs = sum_list xs"
  using foldl_dadd_exact [of xs k 0] assms on_grid_of_int(1) [of k 0] by (simp add: dsum_def)

lemma exact_leg_fills_sums:
  assumes "exact_leg_fills k fs"
  shows "dsum (map fl_quantity fs) = sum_list (map fl_quantity fs)"
    and "dsum (map (\<lambda>f. dmul (fl_price f) (fl_quantity f)) fs) = sum_list (map (\<lambda>f. fl_price f * fl_quantity f) fs)"
proof -
  have f: "0 \<le> fl_price f" "0 < fl_quantity f" "on_grid k (fl_price f)" "on_grid k (fl_quantity f)" if "f \<in> set fs" for f
    using assms that by (auto simp: exact_leg_fills_def mk_option_fill_def not_less not_le)
  show "dsum (map fl_quantity fs) = sum_list (map fl_quantity fs)"
    using assms f by (intro dsum_exact [of _ k]) (auto simp: exact_leg_fills_def less_imp_le)
  have "dmul (fl_price f) (fl_quantity f) = fl_price f * fl_quantity f" if m: "f \<in> set fs" for f
  proof -
    have "fl_price f * fl_quantity f \<le> sum_list (map (\<lambda>f. fl_price f * fl_quantity f) fs)"
      using m f by (intro member_le_sum_list) (auto simp: less_imp_le)
    then have "fl_price f * fl_quantity f * 10 ^ (k + k)
        \<le> sum_list (map (\<lambda>f. fl_price f * fl_quantity f) fs) * 10 ^ (k + k)"
      by (intro mult_right_mono) simp_all
    also have "\<dots> \<le> 10 ^ 28" using assms by (simp add: exact_leg_fills_def)
    finally show ?thesis unfolding dmul_def using f [OF m]
      by (intro rnd_exact on_grid_representable [of "k + k"] on_grid_mult) (simp_all add: abs_mult)
  qed
  then have "map (\<lambda>f. dmul (fl_price f) (fl_quantity f)) fs = map (\<lambda>f. fl_price f * fl_quantity f) fs" by simp
  then show "dsum (map (\<lambda>f. dmul (fl_price f) (fl_quantity f)) fs) = sum_list (map (\<lambda>f. fl_price f * fl_quantity f) fs)"
    using assms f by (simp only:) (intro dsum_exact [of _ "k + k"], auto simp: exact_leg_fills_def less_imp_le)
qed

lemma sum_list_weighted:
  fixes fs :: "option_fill list"
  assumes "\<forall>f \<in> set fs. lo \<le> fl_price f \<and> fl_price f \<le> hi \<and> 0 \<le> fl_quantity f"
  shows "lo * sum_list (map fl_quantity fs) \<le> sum_list (map (\<lambda>f. fl_price f * fl_quantity f) fs)
    \<and> sum_list (map (\<lambda>f. fl_price f * fl_quantity f) fs) \<le> hi * sum_list (map fl_quantity fs)"
  using assms by (induction fs) (auto simp: distrib_left intro!: add_mono mult_right_mono)

text \<open>A leg built from its fills. When \<open>from_fills\<close> accepts, no execution is counted twice,
  every fill is of the contract and on the side of the leg, the filled quantity is the sum of the
  fill quantities and does not exceed the requested one, the fees are the fees of the fills, and
  the average entry price lies between the lowest and the highest fill price.\<close>

theorem leg_from_fills:
  assumes "from_fills c side requested fs = Inr leg" and "exact_leg_fills k fs"
    and "\<And>f. f \<in> set fs \<Longrightarrow> lo \<le> fl_price f \<and> fl_price f \<le> hi" and "representable lo" "representable hi"
  shows "lg_fills leg = fs \<and> distinct (map fl_execution_id fs)
    \<and> (\<forall>f \<in> set fs. fl_symbol f = oc_symbol c \<and> fl_side f = expected_side side)
    \<and> lg_filled_quantity leg = sum_list (map fl_quantity fs)
    \<and> lg_filled_quantity leg \<le> requested \<and> lg_fees_paid leg = dsum (map fl_fee fs)
    \<and> (fs \<noteq> [] \<longrightarrow> lo \<le> lg_average_entry_price leg \<and> lg_average_entry_price leg \<le> hi)"
proof -
  let ?q = "sum_list (map fl_quantity fs)" and ?n = "sum_list (map (\<lambda>f. fl_price f * fl_quantity f) fs)"
  obtain q avg x where agg: "aggregate_fills c side fs = Inr (q, avg, x)"
    and leg: "mk_option_leg_position \<lparr>lg_contract = c, lg_side = side, lg_requested_quantity = requested,
       lg_filled_quantity = q, lg_average_entry_price = avg, lg_fees_paid = x, lg_fills = fs\<rparr> = Inr leg"
    using assms(1) by (auto simp: from_fills_def)
  have a: "fills_of c side fs" "q = ?q" "x = dsum (map fl_fee fs)" "avg = (if 0 < q then dquot ?n q else 0)"
    using agg exact_leg_fills_sums [OF assms(2)] by (simp_all add: aggregate_fills_Inr)
  have l: "leg = \<lparr>lg_contract = c, lg_side = side, lg_requested_quantity = requested,
       lg_filled_quantity = q, lg_average_entry_price = avg, lg_fees_paid = x, lg_fills = fs\<rparr>" and "q \<le> requested"
    using leg by (auto simp: mk_option_leg_position_def not_less split: if_splits)
  have "lo \<le> avg \<and> avg \<le> hi" if "fs \<noteq> []"
  proof -
    have pos: "0 < fl_quantity f" if "f \<in> set fs" for f
      using assms(2) that by (auto simp: exact_leg_fills_def mk_option_fill_def not_le)
    have "0 < ?q" using that pos by (cases fs) (auto intro!: add_pos_nonneg sum_list_nonneg simp: less_imp_le)
    moreover from this have "lo \<le> ?n / ?q" "?n / ?q \<le> hi"
      using sum_list_weighted [of fs lo hi] assms(3) pos by (simp_all add: field_simps less_imp_le)
    ultimately show ?thesis
      using a(2,4) assms(4,5) by (simp add: dquot_def rnd_ge_representable rnd_le_representable)
  qed
  with a l \<open>q \<le> requested\<close> show ?thesis by (simp add: fills_of_def)
qed

theorem leg_from_fills_witness:
  "let c = \<lparr>oc_symbol = ''P'', oc_base_coin = ''ETH'', oc_quote_coin = ''USDT'', oc_settle_coin = ''USDT'',
       oc_option_type = Put, oc_strike = 3000, oc_expiry_time_utc = Aware 9, oc_contract_multiplier = 1\<rparr>;
     fs = [\<lparr>fl_order_id = ''o'', fl_execution_id = ''e1'', fl_symbol = ''P'', fl_side = Sell, fl_price = 40,
         fl_quantity = 1, fl_fee = 1, fl_timestamp_utc = Aware 1\<rparr>,
       \<lparr>fl_order_id = ''o'', fl_execution_id = ''e2'', fl_symbol = ''P'', fl_side = Sell, fl_price = 43,
         fl_quantity = 2, fl_fee = 1, fl_timestamp_utc = Aware 2\<rparr>]
   in \<exists>leg. from_fills c Short 4 fs = Inr leg \<and> lg_filled_quantity leg = 3
     \<and> 40 \<le> lg_average_entry_price leg \<and> lg_average_entry_price leg \<le> 43"
proof -
  let ?c = "\<lparr>oc_symbol = ''P'', oc_base_coin = ''ETH'', oc_quote_coin = ''USDT'', oc_settle_coin = ''USDT'',
       oc_option_type = Put, oc_strike = 3000, oc_expiry_time_utc = Aware 9, oc_contract_multiplier = 1\<rparr>"
  let ?fs = "[\<lparr>fl_order_id = ''o'', fl_execution_id = ''e1'', fl_symbol = ''P'', fl_side = Sell, fl_price = 40,
         fl_quantity = 1, fl_fee = 1, fl_timestamp_utc = Aware 1\<rparr>,
       \<lparr>fl_order_id = ''o'', fl_execution_id = ''e2'', fl_symbol = ''P'', fl_side = Sell, fl_price = 43,
         fl_quantity = 2, fl_fee = 1, fl_timestamp_utc = Aware 2\<rparr>]"
  have "is_ok (from_fills ?c Short 4 ?fs)" by code_simp
  then obtain leg where leg: "from_fills ?c Short 4 ?fs = Inr leg" by (auto simp: is_ok_iff)
  have "\<forall>f \<in> set ?fs. mk_option_fill f = Inr f" by code_simp
  then have "exact_leg_fills 0 ?fs" by (simp add: exact_leg_fills_def)
  moreover have "\<And>f. f \<in> set ?fs \<Longrightarrow> 40 \<le> fl_price f \<and> fl_price f \<le> 43" by auto
  moreover have "representable (40 :: rat)" "representable (43 :: rat)"
    using representable_of_int [of 40] representable_of_int [of 43] by simp_all
  ultimately have "lg_filled_quantity leg = 3 \<and> 40 \<le> lg_average_entry_price leg \<and> lg_average_entry_price leg \<le> 43"
    using leg_from_fills [OF leg, of 0 40 43] by simp
  with leg show ?thesis unfolding Let_def by blast
qed

section \<open>The position at expiry\<close>

lemma set_opened_time_frame: "set_opened_time p = Inr p' \<Longrightarrow> \<exists>t. p' = p\<lparr>sp_opened_time_utc := t\<rparr>"
  by (cases p) (auto simp: set_opened_time_def split: option.splits if_splits)

lemma actual_net_credit_opened [simp]:
  "actual_net_credit (p\<lparr>sp_opened_time_utc := t\<rparr>) = actual_net_credit p"
  by (simp add: actual_net_credit_def short_proceeds_def long_cost_def total_entry_fees_def)

lemma accepted_position:
  assumes "mk_put_credit_spread_position p = Inr p'"
  shows "short_put p' = short_put p" "long_put p' = long_put p" "sp_state p' = sp_state p"
    "lg_filled_quantity (short_put p) \<le> lg_filled_quantity (long_put p)"
    "oc_strike (lg_contract (long_put p)) < oc_strike (lg_contract (short_put p))"
    "oc_contract_multiplier (lg_contract (long_put p)) = oc_contract_multiplier (lg_contract (short_put p))"
    "sp_state p = P_OPEN \<Longrightarrow> lg_filled_quantity (short_put p) = lg_filled_quantity (long_put p)"
    "sp_state p = P_OPEN \<Longrightarrow> 0 < actual_net_credit p'"
proof -
  obtain p1 where p1: "none_holds (contract_checks p)" "\<not> has_naked_short p" "set_opened_time p = Inr p1"
      "none_holds (state_checks p1)" "p' = p1"
    using assms by (auto simp: mk_put_credit_spread_position_def)
  then obtain t where t: "p' = p\<lparr>sp_opened_time_utc := t\<rparr>" using set_opened_time_frame by blast
  from t show "short_put p' = short_put p" "long_put p' = long_put p" "sp_state p' = sp_state p" by simp_all
  from p1(2) show "lg_filled_quantity (short_put p) \<le> lg_filled_quantity (long_put p)"
    by (simp add: has_naked_short_def)
  from p1(1) show "oc_strike (lg_contract (long_put p)) < oc_strike (lg_contract (short_put p))"
    and "oc_contract_multiplier (lg_contract (long_put p)) = oc_contract_multiplier (lg_contract (short_put p))"
    by (simp_all add: contract_checks_def Let_def)
  have p1t: "p1 = p\<lparr>sp_opened_time_utc := t\<rparr>" using p1(5) t by simp
  from p1(4) show "sp_state p = P_OPEN \<Longrightarrow> lg_filled_quantity (short_put p) = lg_filled_quantity (long_put p)"
    and "sp_state p = P_OPEN \<Longrightarrow> 0 < actual_net_credit p'"
    unfolding t p1t by (simp_all add: state_checks_def Let_def)
qed

definition sound_leg :: "option_leg_position \<Rightarrow> bool" where
  "sound_leg l \<longleftrightarrow> mk_option_contract (lg_contract l) = Inr (lg_contract l) \<and> mk_option_leg_position l = Inr l"

lemma sound_leg_facts:
  "sound_leg l \<Longrightarrow> 0 < oc_strike (lg_contract l) \<and> 0 < oc_contract_multiplier (lg_contract l) \<and> 0 \<le> lg_filled_quantity l"
  by (auto simp: sound_leg_def mk_option_contract_def mk_option_leg_position_def not_le not_less)

definition exact_leg :: "nat \<Rightarrow> option_leg_position \<Rightarrow> bool" where
  "exact_leg k l \<longleftrightarrow> on_grid k (oc_strike (lg_contract l)) \<and> on_grid k (lg_filled_quantity l)
     \<and> on_grid k (oc_contract_multiplier (lg_contract l))
     \<and> oc_strike (lg_contract l) * 10 ^ k \<le> 10 ^ 28
     \<and> oc_strike (lg_contract l) * lg_filled_quantity l * 10 ^ (k + k) \<le> 10 ^ 28
     \<and> oc_strike (lg_contract l) * lg_filled_quantity l * oc_contract_multiplier (lg_contract l) * 10 ^ (k + k + k) \<le> 10 ^ 28"

lemma scaled_le:
  fixes x y :: rat
  assumes "0 \<le> x" "x \<le> y" "y * 10 ^ k \<le> 10 ^ 28" shows "\<bar>x\<bar> * 10 ^ k \<le> 10 ^ 28"
proof -
  have "x * 10 ^ k \<le> y * 10 ^ k" using assms(2) by (rule mult_right_mono) simp
  with assms(3) have "x * 10 ^ k \<le> 10 ^ 28" by (rule order_trans [rotated])
  with assms(1) show ?thesis by (simp only: abs_of_nonneg)
qed

lemma exact_legD:
  assumes "exact_leg k l"
  shows "on_grid k (oc_strike (lg_contract l))" "on_grid k (lg_filled_quantity l)"
    "on_grid k (oc_contract_multiplier (lg_contract l))" "oc_strike (lg_contract l) * 10 ^ k \<le> 10 ^ 28"
    "oc_strike (lg_contract l) * lg_filled_quantity l * 10 ^ (k + k) \<le> 10 ^ 28"
    "oc_strike (lg_contract l) * lg_filled_quantity l * oc_contract_multiplier (lg_contract l) * 10 ^ (k + k + k) \<le> 10 ^ 28"
  using assms unfolding exact_leg_def by blast+

text \<open>The value of a leg at expiry is computed without rounding.\<close>

lemma exact_leg_value:
  assumes s: "sound_leg l" and e: "exact_leg k l" and p: "on_grid k price" "0 \<le> price"
  defines "i \<equiv> max (oc_strike (lg_contract l) - price) 0"
  shows "max (dsub (oc_strike (lg_contract l)) price) 0 = i"
    and "leg_value l i = i * lg_filled_quantity l * oc_contract_multiplier (lg_contract l)"
    and "on_grid (k + k + k) (i * lg_filled_quantity l * oc_contract_multiplier (lg_contract l))"
proof -
  let ?q = "lg_filled_quantity l" and ?m = "oc_contract_multiplier (lg_contract l)"
  show "max (dsub (oc_strike (lg_contract l)) price) 0 = i"
    unfolding i_def by (rule exact_intrinsic [OF exact_legD(1) [OF e] p exact_legD(4) [OF e]])
  have i: "0 \<le> i" "i \<le> oc_strike (lg_contract l)" "on_grid k i"
    using p sound_leg_facts [OF s] exact_legD(1) [OF e] on_grid_of_int(1) [of k 0]
    by (auto simp: i_def intro!: on_grid_max)
  have g: "on_grid (k + k) (i * ?q)" "on_grid (k + k + k) (i * ?q * ?m)"
    using i exact_legD [OF e] by auto
  have b: "0 \<le> i * ?q" "i * ?q \<le> oc_strike (lg_contract l) * ?q"
    using mult_right_mono [OF i(2), of ?q] mult_nonneg_nonneg [OF i(1), of ?q] sound_leg_facts [OF s] by blast+
  have b': "i * ?q * ?m \<le> oc_strike (lg_contract l) * ?q * ?m"
    by (rule mult_right_mono [OF b(2)]) (use sound_leg_facts [OF s] in simp)
  have "dmul i ?q = i * ?q" unfolding dmul_def
    by (rule rnd_exact [OF on_grid_representable [OF g(1) scaled_le [OF b exact_legD(5) [OF e]]]])
  moreover have "0 \<le> i * ?q * ?m" using b sound_leg_facts [OF s] by simp
  then have "dmul (i * ?q) ?m = i * ?q * ?m" unfolding dmul_def
    by (rule rnd_exact [OF on_grid_representable [OF g(2) scaled_le [OF _ b' exact_legD(6) [OF e]]]])
  ultimately show "leg_value l i = i * ?q * ?m" by (simp add: leg_value_def)
  show "on_grid (k + k + k) (i * ?q * ?m)" by (rule g(2))
qed

definition exact_position :: "nat \<Rightarrow> put_credit_spread_position \<Rightarrow> bool" where
  "exact_position k p \<longleftrightarrow> exact_leg k (short_put p) \<and> exact_leg k (long_put p)
     \<and> on_grid (k + k + k) (actual_net_credit p)
     \<and> (\<bar>actual_net_credit p\<bar> + oc_strike (lg_contract (short_put p)) * lg_filled_quantity (long_put p)
          * oc_contract_multiplier (lg_contract (long_put p))) * 10 ^ (k + k + k) \<le> 10 ^ 28"

lemma intrinsic_between:
  fixes K L p :: rat
  assumes "L < K"
  shows "0 \<le> max (K - p) 0 - max (L - p) 0" "max (K - p) 0 - max (L - p) 0 \<le> K - L"
    "K \<le> p \<Longrightarrow> max (K - p) 0 = 0 \<and> max (L - p) 0 = 0"
  using assms by (auto simp: max_def)

text \<open>The expiry value of an accepted position, without rounding.\<close>

lemma expiration_pnl_exact:
  assumes a: "mk_put_credit_spread_position p0 = Inr p"
    and s: "sound_leg (short_put p)" "sound_leg (long_put p)"
    and e: "exact_position k p" and price: "on_grid k price" "0 \<le> price"
  defines "m \<equiv> oc_contract_multiplier (lg_contract (short_put p))"
    and "K \<equiv> oc_strike (lg_contract (short_put p))" and "L \<equiv> oc_strike (lg_contract (long_put p))"
  shows "expiration_pnl p price = Inr (actual_net_credit p - max (K - price) 0 * lg_filled_quantity (short_put p) * m
    + max (L - price) 0 * lg_filled_quantity (long_put p) * m)"
proof -
  let ?C = "actual_net_credit p" and ?qs = "lg_filled_quantity (short_put p)" and ?ql = "lg_filled_quantity (long_put p)"
  define S where "S = max (K - price) 0 * ?qs * m"
  define V where "V = max (L - price) 0 * ?ql * m"
  note acc = accepted_position [OF a]
  have m: "oc_contract_multiplier (lg_contract (long_put p)) = m" using acc(1,2,6) by (simp add: m_def)
  have el: "exact_leg k (short_put p)" "exact_leg k (long_put p)" "on_grid (k + k + k) ?C"
    and bound: "(\<bar>?C\<bar> + K * ?ql * m) * 10 ^ (k + k + k) \<le> 10 ^ 28"
    using e unfolding exact_position_def K_def m by blast+
  note sv = exact_leg_value [OF s(1) el(1) price] and lv = exact_leg_value [OF s(2) el(2) price]
  have g: "on_grid (k + k + k) S" "on_grid (k + k + k) V"
    using sv(3) lv(3) unfolding S_def V_def K_def L_def m m_def by simp_all
  have f: "0 < m" "0 < L" "L < K" "0 \<le> ?qs" "?qs \<le> ?ql"
    using sound_leg_facts [OF s(1)] sound_leg_facts [OF s(2)] acc(1,2,4,5) by (simp_all add: m_def K_def L_def)
  have "max (K - price) 0 * ?qs \<le> K * ?ql" "max (L - price) 0 * ?ql \<le> K * ?ql"
    using f price(2) by (auto intro!: mult_mono simp: max_def)
  then have SV: "S \<le> K * ?ql * m" "V \<le> K * ?ql * m" "0 \<le> S" "0 \<le> V"
    using f unfolding S_def V_def by (auto intro!: mult_right_mono mult_nonneg_nonneg)
  have r: "rnd x = x" if "on_grid (k + k + k) x" "\<bar>x\<bar> \<le> \<bar>?C\<bar> + K * ?ql * m" for x
    by (rule rnd_exact [OF on_grid_representable [OF that(1)]])
      (use scaled_le [OF _ that(2) bound] in \<open>simp only: abs_abs abs_ge_zero\<close>)
  have "dsub ?C S = ?C - S" unfolding dsub_def
    by (rule r [OF on_grid_diff [OF el(3) g(1)]]) (use SV in linarith)
  moreover have "dadd (?C - S) V = ?C - S + V" unfolding dadd_def
    by (rule r [OF on_grid_add [OF on_grid_diff [OF el(3) g(1)] g(2)]]) (use SV in linarith)
  ultimately show ?thesis
    using sv(1,2) lv(1,2) price(2) m
    by (simp add: expiration_pnl_def Let_def S_def V_def K_def L_def m_def)
qed

text \<open>C26. The expiry value of a position. For every accepted position, open or only partly open, whose legs are
  sound and whose numbers are few enough decimals for the context (\<open>exact_position\<close>), at a price on the same
  grid: the value at expiry is exactly the credit actually received, less the intrinsic value of the short leg on
  its own filled quantity, plus that of the long leg on its own; the protective long bounds the loss by the
  width of the spread on the short quantity; above the short strike exactly the credit is kept; and with equal
  legs the value is the payoff of the abstract spread whose premium is the actual credit, so at most the credit.\<close>

theorem position_loss_bounded:
  assumes "mk_put_credit_spread_position p0 = Inr p" and "sound_leg (short_put p)" "sound_leg (long_put p)"
    and "exact_position k p" and "on_grid k price" "0 \<le> price"
  shows "\<exists>pnl. expiration_pnl p price = Inr pnl
    \<and> pnl = actual_net_credit p
        - max (oc_strike (lg_contract (short_put p)) - price) 0 * lg_filled_quantity (short_put p)
          * oc_contract_multiplier (lg_contract (short_put p))
        + max (oc_strike (lg_contract (long_put p)) - price) 0 * lg_filled_quantity (long_put p)
          * oc_contract_multiplier (lg_contract (short_put p))
    \<and> actual_net_credit p - lg_filled_quantity (short_put p) * oc_contract_multiplier (lg_contract (short_put p))
        * (oc_strike (lg_contract (short_put p)) - oc_strike (lg_contract (long_put p))) \<le> pnl
    \<and> (oc_strike (lg_contract (short_put p)) \<le> price \<longrightarrow> pnl = actual_net_credit p)
    \<and> (lg_filled_quantity (short_put p) = lg_filled_quantity (long_put p) \<longrightarrow> pnl \<le> actual_net_credit p
        \<and> pnl = payoff \<lparr>spot = price, short_put_strike = oc_strike (lg_contract (short_put p)),
            long_put_strike = oc_strike (lg_contract (long_put p)),
            option_quantity = lg_filled_quantity (short_put p) * oc_contract_multiplier (lg_contract (short_put p)),
            premium_credit = actual_net_credit p\<rparr> price)"
proof -
  let ?C = "actual_net_credit p" and ?qs = "lg_filled_quantity (short_put p)" and ?ql = "lg_filled_quantity (long_put p)"
    and ?m = "oc_contract_multiplier (lg_contract (short_put p))"
  let ?K = "oc_strike (lg_contract (short_put p))" and ?L = "oc_strike (lg_contract (long_put p))"
  define i where "i = max (?K - price) 0"
  define j where "j = max (?L - price) 0"
  note acc = accepted_position [OF assms(1)]
  have f: "0 < ?m" "?L < ?K" "0 \<le> ?qs" "?qs \<le> ?ql"
    using sound_leg_facts [OF assms(2)] acc(1,2,4,5) by simp_all
  note b = intrinsic_between [OF f(2), of price]
  have pnl: "expiration_pnl p price = Inr (?C - i * ?qs * ?m + j * ?ql * ?m)"
    using expiration_pnl_exact [OF assms] by (simp add: i_def j_def)
  have "j * (?qs * ?m) \<le> j * (?ql * ?m)" using f by (intro mult_left_mono mult_right_mono) (simp_all add: j_def)
  moreover have "0 \<le> (i - j) * (?qs * ?m)" "(i - j) * (?qs * ?m) \<le> (?K - ?L) * (?qs * ?m)"
    using b(1,2) f by (auto simp: i_def j_def intro!: mult_right_mono mult_nonneg_nonneg)
  ultimately have "?C - ?qs * ?m * (?K - ?L) \<le> ?C - i * ?qs * ?m + j * ?ql * ?m"
    and "?qs = ?ql \<Longrightarrow> ?C - i * ?qs * ?m + j * ?ql * ?m \<le> ?C"
    by (simp_all add: algebra_simps)
  moreover have "?K \<le> price \<Longrightarrow> ?C - i * ?qs * ?m + j * ?ql * ?m = ?C" using b(3) by (simp add: i_def j_def)
  moreover have "?qs = ?ql \<Longrightarrow> ?C - i * ?qs * ?m + j * ?ql * ?m
      = payoff \<lparr>spot = price, short_put_strike = ?K, long_put_strike = ?L, option_quantity = ?qs * ?m, premium_credit = ?C\<rparr> price"
    by (simp add: payoff_def i_def [symmetric] j_def [symmetric] algebra_simps)
  ultimately show ?thesis using pnl unfolding i_def j_def by blast
qed

theorem position_loss_bounded_witness:
  "let leg = (\<lambda>sym side K filled price. \<lparr>lg_contract = \<lparr>oc_symbol = sym, oc_base_coin = ''ETH'', oc_quote_coin = ''USDT'',
         oc_settle_coin = ''USDT'', oc_option_type = Put, oc_strike = K, oc_expiry_time_utc = Aware 9, oc_contract_multiplier = 1\<rparr>,
       lg_side = side, lg_requested_quantity = 3, lg_filled_quantity = filled, lg_average_entry_price = price,
       lg_fees_paid = 1, lg_fills = []\<rparr>);
     p = \<lparr>short_put = leg ''S'' Short 3000 1 40, long_put = leg ''L'' Long 2900 2 10, sp_state = PARTIALLY_OPEN, sp_opened_time_utc = None\<rparr>
   in actual_net_credit p = 18 \<and> expiration_pnl p 2850 = Inr (18 - 150 * 1 * 1 + 50 * 2 * 1)"
proof -
  let ?leg = "\<lambda>sym side K filled price. \<lparr>lg_contract = \<lparr>oc_symbol = sym, oc_base_coin = ''ETH'', oc_quote_coin = ''USDT'',
         oc_settle_coin = ''USDT'', oc_option_type = Put, oc_strike = K, oc_expiry_time_utc = Aware 9, oc_contract_multiplier = 1\<rparr>,
       lg_side = side, lg_requested_quantity = 3, lg_filled_quantity = filled, lg_average_entry_price = price,
       lg_fees_paid = 1, lg_fills = []\<rparr>"
  define p where "p = \<lparr>short_put = ?leg ''S'' Short 3000 1 40, long_put = ?leg ''L'' Long 2900 2 10, sp_state = PARTIALLY_OPEN, sp_opened_time_utc = None\<rparr>"
  have "mk_put_credit_spread_position p = Inr p" unfolding p_def by code_simp
  moreover have "sound_leg (short_put p)" "sound_leg (long_put p)" unfolding p_def by code_simp+
  moreover have c: "actual_net_credit p = 18" unfolding p_def by code_simp
  moreover from c have "exact_position 0 p" by (simp add: exact_position_def exact_leg_def p_def)
  moreover have "on_grid 0 (2850 :: rat)" "(0 :: rat) \<le> 2850" by simp_all
  ultimately have "\<exists>pnl. expiration_pnl p 2850 = Inr pnl \<and> pnl = 18 - max (3000 - 2850) 0 * 1 * 1 + max (2900 - 2850) 0 * 2 * 1"
    using position_loss_bounded [of p p 0 2850] by (auto simp: p_def)
  then have "expiration_pnl p 2850 = Inr (18 - 150 * 1 * 1 + 50 * 2 * 1)" by simp
  with c show ?thesis unfolding p_def Let_def by blast
qed

end
