(* ===== verification/Live_Option_Execution.thy ===== *)
theory Live_Option_Execution
  imports Protected_Execution Option_Lifecycle Option_Position
begin

text \<open>
  \<open>domain/live_option_execution.py\<close>: the execution snapshot of a spread that is opened long leg first,
  and its reducers. \<open>spread_step\<close> is one application of a reducer. The lemmas about reachable
  snapshots say that the short leg is never sold beyond the protective long, and that it is only
  ordered after the long was confirmed.
\<close>

section \<open>Snapshots\<close>

record spread_snapshot =
  os_cycle_id :: string
  os_state :: option_position_state
  os_long_symbol :: string
  os_short_symbol :: string
  os_expiry_time_utc :: datetime
  os_requested_quantity :: dec
  os_expected_net_credit :: dec
  os_long_order_link_id :: string
  os_short_order_link_id :: "string option"
  os_long_order_id :: "string option"
  os_short_order_id :: "string option"
  os_long_filled_quantity :: dec
  os_short_filled_quantity :: dec
  os_long_notional :: dec
  os_short_notional :: dec
  os_long_fees :: dec
  os_short_fees :: dec
  os_opened_time_utc :: "datetime option"
  os_version :: int
  os_updated_at :: datetime

definition spread_matched_quantity :: "spread_snapshot \<Rightarrow> dec" where
  "spread_matched_quantity s = min (os_long_filled_quantity s) (os_short_filled_quantity s)"

definition spread_has_naked_short :: "spread_snapshot \<Rightarrow> bool" where
  "spread_has_naked_short s \<longleftrightarrow> os_long_filled_quantity s < os_short_filled_quantity s"

definition long_average_price :: "spread_snapshot \<Rightarrow> dec" where
  "long_average_price s = (if os_long_filled_quantity s = 0 then 0
     else dquot (os_long_notional s) (os_long_filled_quantity s))"

definition short_average_price :: "spread_snapshot \<Rightarrow> dec" where
  "short_average_price s = (if os_short_filled_quantity s = 0 then 0
     else dquot (os_short_notional s) (os_short_filled_quantity s))"

definition spread_net_credit :: "spread_snapshot \<Rightarrow> dec" where
  "spread_net_credit s = (let matched = spread_matched_quantity s in
     if matched = 0 then 0
     else let long_fee = dquot (dmul (os_long_fees s) matched) (os_long_filled_quantity s);
              short_fee = dquot (dmul (os_short_fees s) matched) (os_short_filled_quantity s)
       in dsub (dsub (dsub (dmul (short_average_price s) matched) (dmul (long_average_price s) matched)) long_fee) short_fee)"

definition amount_checks :: "dec \<Rightarrow> dec \<Rightarrow> dec \<Rightarrow> string \<Rightarrow> (bool \<times> string) list" where
  "amount_checks quantity notional fees name =
    [(notional < 0 \<or> fees < 0, name @ '' notional and fees cannot be negative''),
     (quantity = 0 \<and> (notional \<noteq> 0 \<or> fees \<noteq> 0), ''unfilled '' @ name @ '' leg cannot have cash amounts''),
     (0 < quantity \<and> notional \<le> 0, ''filled '' @ name @ '' leg requires positive notional'')]"

definition spread_checks :: "spread_snapshot \<Rightarrow> (bool \<times> string) list" where
  "spread_checks s =
    [(os_requested_quantity s \<le> 0, ''requested quantity must be positive''),
     (os_expected_net_credit s \<le> 0, ''expected net credit must be positive''),
     (os_long_filled_quantity s < 0 \<or> os_requested_quantity s < os_long_filled_quantity s,
      ''long filled quantity is outside the request''),
     (os_short_filled_quantity s < 0 \<or> os_long_filled_quantity s < os_short_filled_quantity s,
      ''short filled quantity cannot exceed protective long'')]
   @ amount_checks (os_long_filled_quantity s) (os_long_notional s) (os_long_fees s) ''long''
   @ amount_checks (os_short_filled_quantity s) (os_short_notional s) (os_short_fees s) ''short''
   @ [(some_and blank (os_long_order_id s), ''long exchange order ID cannot be empty''),
     (some_and blank (os_short_order_id s), ''short exchange order ID cannot be empty''),
     (os_short_order_id s \<noteq> None \<and> os_short_order_link_id s = None, ''short exchange order requires a client order ID''),
     (some_and (\<lambda>t. \<not> is_aware t) (os_opened_time_utc s), ''option opened time must be timezone-aware''),
     (os_state s = P_OPEN \<and> (os_long_filled_quantity s \<noteq> os_requested_quantity s
        \<or> os_short_filled_quantity s \<noteq> os_requested_quantity s \<or> spread_net_credit s \<le> 0 \<or> os_opened_time_utc s = None),
      ''OPEN requires equal full fills and positive credit''),
     (os_version s \<le> 0, ''option snapshot version must be positive''),
     utc_guard (os_expiry_time_utc s) ''option expiry time'', utc_guard (os_updated_at s) ''update time'']"

definition mk_spread_snapshot :: "spread_snapshot \<Rightarrow> spread_snapshot res" where
  [post_init]: "mk_spread_snapshot s = check_all
     [(blank (os_cycle_id s), ''option cycle ID cannot be empty''),
      text_guard (os_long_symbol s) ''long symbol'', text_guard (os_short_symbol s) ''short symbol'',
      (os_long_symbol s = os_short_symbol s, ''option leg symbols must differ'')]
     (role_check (os_long_order_link_id s) OPTION_LONG
       ((case os_short_order_link_id s of None \<Rightarrow> id | Some l \<Rightarrow> role_check l OPTION_SHORT)
         (check_all (spread_checks s) (Inr s))))"

definition spread_position_snapshot :: "spread_snapshot \<Rightarrow> option_position_snapshot res" where
  "spread_position_snapshot s = raise_when (os_state s \<noteq> P_OPEN) ''only an OPEN spread has a position snapshot''
    (Inr \<lparr>on_short_symbol = os_short_symbol s, on_long_symbol = os_long_symbol s,
       on_matched_quantity = spread_matched_quantity s, on_short_average_entry_price = short_average_price s,
       on_long_average_entry_price = long_average_price s, on_actual_net_credit = spread_net_credit s,
       on_total_fees = dadd (os_long_fees s) (os_short_fees s), on_opened_time_utc = os_opened_time_utc s,
       on_expiry_time_utc = os_expiry_time_utc s, on_state = os_state s\<rparr>)"

definition for_long_intent ::
    "place_order_request \<Rightarrow> string \<Rightarrow> string \<Rightarrow> datetime \<Rightarrow> dec \<Rightarrow> datetime \<Rightarrow> spread_snapshot res" where
  "for_long_intent r cycle_name short_symbol expiry expected_credit persisted_at =
     raise_when (po_category r \<noteq> option_category \<or> po_side r \<noteq> Buy \<or> po_reduce_only r)
       ''first option intent must buy protective long''
    (mk_spread_snapshot \<lparr>os_cycle_id = cycle_name, os_state = LONG_PROTECTION_PENDING, os_long_symbol = po_symbol r,
       os_short_symbol = short_symbol, os_expiry_time_utc = expiry, os_requested_quantity = po_quantity r,
       os_expected_net_credit = expected_credit, os_long_order_link_id = po_order_link_id r,
       os_short_order_link_id = None, os_long_order_id = None, os_short_order_id = None,
       os_long_filled_quantity = 0, os_short_filled_quantity = 0, os_long_notional = 0, os_short_notional = 0,
       os_long_fees = 0, os_short_fees = 0, os_opened_time_utc = None, os_version = 1, os_updated_at = persisted_at\<rparr>)"

section \<open>Reducers\<close>

definition spread_touched :: "spread_snapshot \<Rightarrow> datetime \<Rightarrow> spread_snapshot" where
  "spread_touched s now = s\<lparr>os_version := os_version s + 1, os_updated_at := now\<rparr>"

definition acknowledge_option_order :: "spread_snapshot \<Rightarrow> order_request_ack \<Rightarrow> datetime \<Rightarrow> spread_snapshot res" where
  "acknowledge_option_order s ack now =
     (if ak_order_link_id ack = os_long_order_link_id s then
        mk_spread_snapshot ((spread_touched s now)\<lparr>os_long_order_id := Some (ak_order_id ack)\<rparr>)
      else if Some (ak_order_link_id ack) = os_short_order_link_id s then
        mk_spread_snapshot ((spread_touched s now)\<lparr>os_short_order_id := Some (ak_order_id ack)\<rparr>)
      else Inl (ValueError ''acknowledgement does not belong to the option spread''))"

definition apply_option_execution :: "spread_snapshot \<Rightarrow> execution_update \<Rightarrow> datetime \<Rightarrow> spread_snapshot res" where
  "apply_option_execution s x now =
     (if ex_order_link_id x = os_long_order_link_id s then
        raise_when (ex_symbol x \<noteq> os_long_symbol s \<or> ex_side x \<noteq> Buy) ''protective long execution does not match its intent''
       (raise_when (os_long_order_id s \<notin> set [None, Some (ex_order_id x)]) ''protective long exchange order ID differs''
       (mk_spread_snapshot ((spread_touched s now)\<lparr>os_long_order_id := Some (ex_order_id x),
          os_long_filled_quantity := dadd (os_long_filled_quantity s) (ex_quantity x),
          os_long_notional := dadd (os_long_notional s) (dmul (ex_price x) (ex_quantity x)),
          os_long_fees := dadd (os_long_fees s) (ex_fee x)\<rparr>)))
      else if Some (ex_order_link_id x) = os_short_order_link_id s then
        raise_when (ex_symbol x \<noteq> os_short_symbol s \<or> ex_side x \<noteq> Sell) ''short premium execution does not match its intent''
       (raise_when (os_short_order_id s \<notin> set [None, Some (ex_order_id x)]) ''short premium exchange order ID differs''
       (mk_spread_snapshot ((spread_touched s now)\<lparr>os_short_order_id := Some (ex_order_id x),
          os_short_filled_quantity := dadd (os_short_filled_quantity s) (ex_quantity x),
          os_short_notional := dadd (os_short_notional s) (dmul (ex_price x) (ex_quantity x)),
          os_short_fees := dadd (os_short_fees s) (ex_fee x)\<rparr>)))
      else Inl (ValueError ''execution does not belong to the option spread''))"

definition finalize_protective_long :: "spread_snapshot \<Rightarrow> option_entry_policy \<Rightarrow> datetime \<Rightarrow> spread_snapshot res" where
  "finalize_protective_long s policy now = (let
       enough = minimum_matched_quantity policy \<le> os_long_filled_quantity s;
       acceptable = (if allow_partial_spread policy then enough
         else enough \<and> os_long_filled_quantity s = os_requested_quantity s)
     in mk_spread_snapshot ((spread_touched s now)\<lparr>os_state := (if acceptable then LONG_PROTECTION_FILLED else P_ERROR)\<rparr>))"

definition start_short_premium :: "spread_snapshot \<Rightarrow> place_order_request \<Rightarrow> datetime \<Rightarrow> spread_snapshot res" where
  "start_short_premium s r now =
     raise_when (os_state s \<noteq> LONG_PROTECTION_FILLED) ''short premium requires confirmed protective long''
    (raise_when (po_category r \<noteq> option_category \<or> po_symbol r \<noteq> os_short_symbol s \<or> po_side r \<noteq> Sell
        \<or> po_reduce_only r \<or> po_quantity r \<noteq> os_long_filled_quantity s) ''short premium intent exceeds confirmed protection''
    (mk_spread_snapshot ((spread_touched s now)\<lparr>os_state := SHORT_PREMIUM_PENDING,
       os_short_order_link_id := Some (po_order_link_id r)\<rparr>)))"

definition credit_deviation :: "spread_snapshot \<Rightarrow> dec" where
  "credit_deviation s = dabs (dsub (spread_net_credit s)
     (dquot (dmul (os_expected_net_credit s) (spread_matched_quantity s)) (os_requested_quantity s)))"

definition finalize_short_premium :: "spread_snapshot \<Rightarrow> option_entry_policy \<Rightarrow> datetime \<Rightarrow> spread_snapshot res" where
  "finalize_short_premium s policy now = (let matched = spread_matched_quantity s in
     r_bind (if 0 < spread_net_credit s
             then accepts_completion policy (os_requested_quantity s) matched (credit_deviation s) else Inr False)
      (\<lambda>accepted. mk_spread_snapshot ((spread_touched s now)\<lparr>
         os_state := (if \<not> accepted then P_ERROR else if matched = os_requested_quantity s then P_OPEN else PARTIALLY_OPEN),
         os_opened_time_utc := (if accepted then Some now else os_opened_time_utc s)\<rparr>)))"

definition mark_option_execution_error :: "spread_snapshot \<Rightarrow> datetime \<Rightarrow> spread_snapshot res" where
  "mark_option_execution_error s now = (if os_state s = P_ERROR then Inr s
     else mk_spread_snapshot ((spread_touched s now)\<lparr>os_state := P_ERROR\<rparr>))"

section \<open>The steps of an execution\<close>

datatype spread_op =
    Acknowledge order_request_ack datetime
  | Execute execution_update datetime
  | FinalizeLong option_entry_policy datetime
  | StartShort place_order_request datetime
  | FinalizeShort option_entry_policy datetime
  | MarkError datetime

fun spread_apply :: "spread_snapshot \<Rightarrow> spread_op \<Rightarrow> spread_snapshot res" where
  "spread_apply s (Acknowledge a t) = acknowledge_option_order s a t"
| "spread_apply s (Execute x t) = apply_option_execution s x t"
| "spread_apply s (FinalizeLong p t) = finalize_protective_long s p t"
| "spread_apply s (StartShort r t) = start_short_premium s r t"
| "spread_apply s (FinalizeShort p t) = finalize_short_premium s p t"
| "spread_apply s (MarkError t) = mark_option_execution_error s t"

text \<open>Fills and policies reach the reducers as validated objects.\<close>

fun valid_spread_op :: "spread_op \<Rightarrow> bool" where
  "valid_spread_op (Execute x t) = is_ok (mk_execution_update x)"
| "valid_spread_op (FinalizeLong p t) = is_ok (mk_option_entry_policy p)"
| "valid_spread_op (FinalizeShort p t) = is_ok (mk_option_entry_policy p)"
| "valid_spread_op _ = True"

inductive spread_step :: "spread_snapshot \<Rightarrow> spread_op \<Rightarrow> spread_snapshot \<Rightarrow> bool" where
  "valid_spread_op op \<Longrightarrow> spread_apply s op = Inr s' \<Longrightarrow> spread_step s op s'"

inductive_simps spread_step_iff: "spread_step s op s'"

inductive spread_reachable :: "spread_snapshot \<Rightarrow> spread_snapshot \<Rightarrow> bool" for s0 where
  initially: "spread_reachable s0 s0"
| later: "spread_reachable s0 s \<Longrightarrow> spread_step s op s' \<Longrightarrow> spread_reachable s0 s'"

definition valid_spread_snapshot :: "spread_snapshot \<Rightarrow> bool" where
  "valid_spread_snapshot s \<longleftrightarrow> mk_spread_snapshot s = Inr s"

lemma mk_spread_iff:
  "mk_spread_snapshot s = Inr s' \<longleftrightarrow> s' = s \<and> \<not> blank (os_cycle_id s) \<and> \<not> blank (os_long_symbol s)
     \<and> \<not> blank (os_short_symbol s) \<and> os_long_symbol s \<noteq> os_short_symbol s
     \<and> (\<exists>c. parse_id (os_long_order_link_id s) = Inr c \<and> role c = OPTION_LONG)
     \<and> (\<forall>l. os_short_order_link_id s = Some l \<longrightarrow> (\<exists>c. parse_id l = Inr c \<and> role c = OPTION_SHORT))
     \<and> none_holds (spread_checks s)"
  by (auto simp: mk_spread_snapshot_def role_check_Inr split: option.splits)

lemma mk_spread_same: "mk_spread_snapshot s = Inr s' \<Longrightarrow> s' = s \<and> valid_spread_snapshot s"
  by (simp add: valid_spread_snapshot_def mk_spread_iff)

lemma none_holds_append [simp, guards]: "none_holds (gs @ hs) \<longleftrightarrow> none_holds gs \<and> none_holds hs"
  by (simp add: none_holds_def)

lemma valid_spread_facts:
  assumes "valid_spread_snapshot s"
  shows "0 < os_requested_quantity s" "0 < os_expected_net_credit s"
    "0 \<le> os_short_filled_quantity s" "os_short_filled_quantity s \<le> os_long_filled_quantity s"
    "os_long_filled_quantity s \<le> os_requested_quantity s"
    "os_state s = P_OPEN \<Longrightarrow> os_long_filled_quantity s = os_requested_quantity s
       \<and> os_short_filled_quantity s = os_requested_quantity s \<and> 0 < spread_net_credit s \<and> os_opened_time_utc s \<noteq> None"
  using assms by (auto simp: valid_spread_snapshot_def mk_spread_iff spread_checks_def not_le not_less)

text \<open>The reducers validate what they return, and never touch the identity of the spread.\<close>

lemmas spread_reducers = acknowledge_option_order_def apply_option_execution_def finalize_protective_long_def
  start_short_premium_def finalize_short_premium_def mark_option_execution_error_def spread_touched_def Let_def

definition same_spread :: "spread_snapshot \<Rightarrow> spread_snapshot \<Rightarrow> bool" where
  "same_spread s s' \<longleftrightarrow> os_cycle_id s' = os_cycle_id s \<and> os_long_symbol s' = os_long_symbol s
     \<and> os_short_symbol s' = os_short_symbol s \<and> os_requested_quantity s' = os_requested_quantity s
     \<and> os_expected_net_credit s' = os_expected_net_credit s \<and> os_long_order_link_id s' = os_long_order_link_id s
     \<and> os_expiry_time_utc s' = os_expiry_time_utc s"

lemma spread_step_frame:
  assumes "spread_step s op s'"
  shows "valid_spread_snapshot s \<longrightarrow> valid_spread_snapshot s'" "same_spread s s'" "os_version s \<le> os_version s'"
  using assms by (cases op; auto simp: spread_step_iff spread_reducers same_spread_def dest!: mk_spread_same split: if_splits)+

text \<open>What a step does to the quantities and to the short order.\<close>

lemma spread_step_cases:
  assumes "spread_step s op s'"
  obtains (quiet) "os_long_filled_quantity s' = os_long_filled_quantity s" "os_short_filled_quantity s' = os_short_filled_quantity s"
      "os_short_order_link_id s' = os_short_order_link_id s" "os_state s' = LONG_PROTECTION_FILLED \<Longrightarrow> os_state s = LONG_PROTECTION_FILLED"
  | (long_fill) q where "0 \<le> q" "os_long_filled_quantity s' = dadd (os_long_filled_quantity s) q"
      "os_short_filled_quantity s' = os_short_filled_quantity s" "os_short_order_link_id s' = os_short_order_link_id s"
      "os_state s' = os_state s"
  | (short_fill) q where "0 \<le> q" "os_long_filled_quantity s' = os_long_filled_quantity s"
      "os_short_filled_quantity s' = dadd (os_short_filled_quantity s) q" "os_short_order_link_id s \<noteq> None"
      "os_short_order_link_id s' = os_short_order_link_id s" "os_state s' = os_state s"
  | (protected) "0 < os_long_filled_quantity s" "os_long_filled_quantity s' = os_long_filled_quantity s"
      "os_short_filled_quantity s' = os_short_filled_quantity s" "os_short_order_link_id s' = os_short_order_link_id s"
  | (start_short) r t where "op = StartShort r t" "os_state s = LONG_PROTECTION_FILLED" "po_quantity r = os_long_filled_quantity s"
      "os_long_filled_quantity s' = os_long_filled_quantity s" "os_short_filled_quantity s' = os_short_filled_quantity s"
      "os_state s' = SHORT_PREMIUM_PENDING"
proof -
  have op: "valid_spread_op op" "spread_apply s op = Inr s'" using assms by (simp_all add: spread_step_iff)
  show ?thesis
  proof (cases op)
    case (Acknowledge a t)
    with op(2) show ?thesis by (intro that(1)) (auto simp: spread_reducers dest!: mk_spread_same split: if_splits)
  next
    case (Execute x t)
    have x: "0 \<le> ex_quantity x" using op(1) Execute by (auto simp: is_ok_iff mk_execution_update_def)
    show ?thesis
    proof (cases "ex_order_link_id x = os_long_order_link_id s")
      case True
      with Execute op(2) x show ?thesis
        by (intro that(2) [of "ex_quantity x"]) (auto simp: spread_reducers dest!: mk_spread_same)
    next
      case False
      with Execute op(2) x show ?thesis
        by (intro that(3) [of "ex_quantity x"])
          (auto simp: spread_reducers dest!: mk_spread_same sym [of "Some _"] split: if_splits)
    qed
  next
    case (FinalizeLong p t)
    have "0 < minimum_matched_quantity p" using op(1) FinalizeLong by (auto simp: is_ok_iff mk_option_entry_policy_def)
    show ?thesis
    proof (cases "0 < os_long_filled_quantity s")
      case True
      with FinalizeLong op(2) show ?thesis by (intro that(4)) (auto simp: spread_reducers dest!: mk_spread_same)
    next
      case False
      with \<open>0 < minimum_matched_quantity p\<close> FinalizeLong op(2) show ?thesis
        by (intro that(1)) (auto simp: spread_reducers dest!: mk_spread_same split: if_splits)
    qed
  next
    case (StartShort r t)
    with op(2) show ?thesis by (intro that(5) [of r t]) (auto simp: spread_reducers dest!: mk_spread_same)
  next
    case (FinalizeShort p t)
    with op(2) show ?thesis by (intro that(1)) (auto simp: spread_reducers dest!: mk_spread_same split: if_splits)
  next
    case (MarkError t)
    with op(2) show ?thesis by (intro that(1)) (auto simp: spread_reducers dest!: mk_spread_same split: if_splits)
  qed
qed

definition spread_inv :: "spread_snapshot \<Rightarrow> bool" where
  "spread_inv s \<longleftrightarrow> valid_spread_snapshot s \<and> representable (os_long_filled_quantity s)
     \<and> (os_short_order_link_id s = None \<longrightarrow> os_short_filled_quantity s = 0)
     \<and> (os_state s = LONG_PROTECTION_FILLED \<or> os_short_order_link_id s \<noteq> None \<longrightarrow> 0 < os_long_filled_quantity s)"

lemma spread_inv_step:
  assumes "spread_inv s" "spread_step s op s'"
  shows "spread_inv s' \<and> os_long_filled_quantity s \<le> os_long_filled_quantity s'"
proof -
  have v: "valid_spread_snapshot s'" using spread_step_frame(1) [OF assms(2)] assms(1) by (simp add: spread_inv_def)
  have r: "representable (os_long_filled_quantity s)" using assms(1) by (simp add: spread_inv_def)
  from assms(2) show ?thesis
  proof (cases rule: spread_step_cases)
    case quiet
    with assms(1) v show ?thesis by (auto simp: spread_inv_def)
  next
    case (long_fill q)
    with r have "os_long_filled_quantity s \<le> os_long_filled_quantity s'" by (simp add: dadd_ge_left)
    with assms(1) v long_fill show ?thesis by (auto simp: spread_inv_def)
  next
    case (short_fill q)
    with assms(1) v show ?thesis by (auto simp: spread_inv_def)
  next
    case protected
    with assms(1) v show ?thesis by (auto simp: spread_inv_def)
  next
    case (start_short r t)
    moreover have "os_short_order_link_id s' = Some (po_order_link_id r)"
      using assms(2) start_short(1) by (auto simp: spread_step_iff spread_reducers dest!: mk_spread_same)
    ultimately show ?thesis using assms(1) v by (auto simp: spread_inv_def)
  qed
qed

lemma spread_reachable_inv:
  assumes "spread_reachable s0 s" "spread_inv s0"
  shows "spread_inv s \<and> same_spread s0 s"
  using assms
proof (induction rule: spread_reachable.induct)
  case initially
  then show ?case by (simp add: same_spread_def)
next
  case (later s op s')
  then show ?case using spread_inv_step [of s op s'] spread_step_frame(2) [of s op s'] by (simp add: same_spread_def)
qed

lemma for_long_intent_inv:
  assumes "for_long_intent r cyc short_symbol expiry credit t = Inr s0"
  shows "spread_inv s0" "os_requested_quantity s0 = po_quantity r"
  using assms by (auto simp: for_long_intent_def spread_inv_def dest!: mk_spread_same)

text \<open>C22. Long first, never naked. Along any sequence of reducers from the intent to buy the protective
  long: the short leg never holds more than the long leg and the long leg never more than the request;
  the short order exists, and can have fills, only once some of the long is confirmed; it is placed
  only from the confirmed state and for exactly the confirmed quantity; protection never shrinks; and
  an open spread is completely filled with a positive net credit.\<close>

theorem spread_never_naked:
  assumes "for_long_intent r cyc short_symbol expiry credit t = Inr s0" and "spread_reachable s0 s"
  shows "\<not> spread_has_naked_short s \<and> os_long_filled_quantity s \<le> po_quantity r
    \<and> (0 < os_short_filled_quantity s \<longrightarrow> os_short_order_link_id s \<noteq> None)
    \<and> (os_short_order_link_id s \<noteq> None \<longrightarrow> 0 < os_long_filled_quantity s)
    \<and> (os_state s = P_OPEN \<longrightarrow> os_short_filled_quantity s = po_quantity r \<and> os_long_filled_quantity s = po_quantity r
         \<and> 0 < spread_net_credit s)
    \<and> (\<forall>op s'. spread_step s op s' \<longrightarrow> same_spread s s' \<and> os_long_filled_quantity s \<le> os_long_filled_quantity s')
    \<and> (\<forall>req now s'. spread_step s (StartShort req now) s' \<longrightarrow> os_state s = LONG_PROTECTION_FILLED
         \<and> po_quantity req = os_long_filled_quantity s \<and> 0 < po_quantity req)"
proof -
  note s0 = for_long_intent_inv [OF assms(1)]
  have inv: "spread_inv s" "same_spread s0 s" using spread_reachable_inv [OF assms(2) s0(1)] by simp_all
  then have v: "valid_spread_snapshot s" and q: "os_requested_quantity s = po_quantity r"
    using s0(2) by (simp_all add: spread_inv_def same_spread_def)
  have steps: "\<forall>op s'. spread_step s op s' \<longrightarrow> same_spread s s' \<and> os_long_filled_quantity s \<le> os_long_filled_quantity s'"
    using spread_inv_step [OF inv(1)] spread_step_frame(2) by blast
  have start: "os_state s = LONG_PROTECTION_FILLED \<and> po_quantity req = os_long_filled_quantity s \<and> 0 < po_quantity req"
    if "spread_step s (StartShort req now) s'" for req now s'
    using that inv(1) by (auto simp: spread_step_iff start_short_premium_def spread_inv_def)
  note f = valid_spread_facts [OF v]
  have "\<not> spread_has_naked_short s \<and> os_long_filled_quantity s \<le> po_quantity r"
    using f(4,5) q by (simp add: spread_has_naked_short_def)
  moreover have "0 < os_short_filled_quantity s \<longrightarrow> os_short_order_link_id s \<noteq> None"
    "os_short_order_link_id s \<noteq> None \<longrightarrow> 0 < os_long_filled_quantity s"
    using inv(1) by (auto simp: spread_inv_def)
  moreover have "os_state s = P_OPEN \<longrightarrow> os_short_filled_quantity s = po_quantity r
      \<and> os_long_filled_quantity s = po_quantity r \<and> 0 < spread_net_credit s"
    using f(6) q by simp
  ultimately show ?thesis using steps start by blast
qed

definition sample_long_link :: string where
  "sample_long_link = ''ECH-a1-C0007-L00-OL-A01-00FF3A''"

definition sample_long_request :: place_order_request where
  "sample_long_request = \<lparr>po_category = option_category, po_symbol = ''ETH-P-2900'', po_side = Buy, po_order_type = Limit,
     po_quantity = 2, po_order_link_id = sample_long_link, po_price = Some 10, po_time_in_force = GTC,
     po_reduce_only = False, po_trigger_price = None, po_trigger_direction = None, po_trigger_by = None,
     po_position_idx = 0, po_close_on_trigger = False\<rparr>"

definition sample_long_fill :: "dec \<Rightarrow> execution_update" where
  "sample_long_fill q = \<lparr>ex_execution_id = ''e'', ex_order_id = ''o1'', ex_order_link_id = sample_long_link,
     ex_symbol = ''ETH-P-2900'', ex_side = Buy, ex_price = 10, ex_quantity = q, ex_fee = 1 / 10,
     ex_is_maker = Some True, ex_executed_at = Aware 2\<rparr>"

theorem spread_never_naked_witness:
  "\<exists>s0 s. for_long_intent sample_long_request ''C7'' ''ETH-P-3000'' (Aware 99) 58 (Aware 1) = Inr s0
     \<and> spread_reachable s0 s \<and> os_long_filled_quantity s = 1 \<and> \<not> spread_has_naked_short s"
proof -
  let ?i = "for_long_intent sample_long_request ''C7'' ''ETH-P-3000'' (Aware 99) 58 (Aware 1)"
  have "is_ok (r_bind ?i (\<lambda>s0. apply_option_execution s0 (sample_long_fill 1) (Aware 3)))"
    and x: "is_ok (mk_execution_update (sample_long_fill 1))"
    by code_simp+
  then obtain s0 s where s0: "?i = Inr s0" and s: "apply_option_execution s0 (sample_long_fill 1) (Aware 3) = Inr s"
    by (auto simp: is_ok_r_bind) (auto simp: is_ok_iff)
  have "spread_step s0 (Execute (sample_long_fill 1) (Aware 3)) s" using s x by (simp add: spread_step_iff)
  then have r: "spread_reachable s0 s" by (rule spread_reachable.later [OF spread_reachable.initially])
  have "os_long_filled_quantity s = dadd 0 1"
    using s0 s by (auto simp: for_long_intent_def spread_reducers sample_long_request_def sample_long_fill_def
        dest!: mk_spread_same)
  moreover have "dadd 0 1 = (1 :: dec)" by code_simp
  ultimately show ?thesis using spread_never_naked [OF s0 r] s0 r by auto
qed

section \<open>Completion\<close>

text \<open>Completion of a spread. On a valid snapshot with a valid policy and an aware time,
  \<open>finalize_short_premium\<close> always returns. The result is open exactly if the credit is positive, its
  deviation from the expected credit of the matched part is tolerated, the minimum is matched and the
  whole request is; it is partially open if the same holds for a part and the policy allows parts;
  and otherwise it is in error, with nothing but state, opening time, version and update time
  changed.\<close>

theorem finalize_short_total:
  assumes "valid_spread_snapshot s" and "mk_option_entry_policy p = Inr p" and "is_aware now"
  shows "\<exists>s'. finalize_short_premium s p now = Inr s'
    \<and> (let m = spread_matched_quantity s;
           fine = 0 < spread_net_credit s \<and> minimum_matched_quantity p \<le> m \<and> credit_deviation s \<le> maximum_credit_deviation p
       in os_state s' = (if fine \<and> m = os_requested_quantity s then P_OPEN
            else if fine \<and> allow_partial_spread p then PARTIALLY_OPEN else P_ERROR))
    \<and> s' = (spread_touched s now)\<lparr>os_state := os_state s', os_opened_time_utc :=
         (if os_state s' = P_ERROR then os_opened_time_utc s else Some now)\<rparr>"
proof -
  note f = valid_spread_facts [OF assms(1)]
  let ?m = "spread_matched_quantity s"
  define acc where "acc \<longleftrightarrow> 0 < spread_net_credit s \<and> minimum_matched_quantity p \<le> ?m
    \<and> credit_deviation s \<le> maximum_credit_deviation p \<and> (allow_partial_spread p \<or> ?m = os_requested_quantity s)"
  have m: "0 \<le> ?m" "?m \<le> os_requested_quantity s" "?m = os_short_filled_quantity s"
    using f by (auto simp: spread_matched_quantity_def)
  have "0 \<le> credit_deviation s" by (simp add: credit_deviation_def dabs_def)
  then have "(if 0 < spread_net_credit s
      then accepts_completion p (os_requested_quantity s) ?m (credit_deviation s) else Inr False) = Inr acc"
    using f(1) m by (auto simp: accepts_completion_def acc_def not_less not_le)
  define st where "st = (if \<not> acc then P_ERROR else if ?m = os_requested_quantity s then P_OPEN else PARTIALLY_OPEN)"
  define s' where "s' = (spread_touched s now)\<lparr>os_state := st,
      os_opened_time_utc := (if acc then Some now else os_opened_time_utc s)\<rparr>"
  have credit: "spread_net_credit s' = spread_net_credit s"
    by (simp add: spread_net_credit_def s'_def spread_touched_def spread_matched_quantity_def
        short_average_price_def long_average_price_def Let_def)
  have "st = P_OPEN \<Longrightarrow> os_long_filled_quantity s = os_requested_quantity s \<and> os_short_filled_quantity s = os_requested_quantity s
      \<and> 0 < spread_net_credit s \<and> acc"
    using m f(4,5) by (auto simp: st_def acc_def split: if_splits)
  then have "mk_spread_snapshot s' = Inr s'"
    using assms(1,3) credit
    by (auto simp: valid_spread_snapshot_def mk_spread_iff spread_checks_def amount_checks_def s'_def spread_touched_def
        some_and_def split: option.splits)
  then have "finalize_short_premium s p now = Inr s'"
    using \<open>_ = Inr acc\<close> by (simp add: finalize_short_premium_def Let_def s'_def st_def)
  moreover have "os_state s' = st" by (simp add: s'_def)
  ultimately show ?thesis
    by (auto simp: Let_def st_def acc_def s'_def)
qed

theorem finalize_short_total_witness:
  "let s = \<lparr>os_cycle_id = ''C7'', os_state = SHORT_PREMIUM_PENDING, os_long_symbol = ''ETH-P-2900'', os_short_symbol = ''ETH-P-3000'',
        os_expiry_time_utc = Aware 99, os_requested_quantity = 2, os_expected_net_credit = 58,
        os_long_order_link_id = sample_long_link, os_short_order_link_id = Some ''ECH-a1-C0007-L00-OS-A01-00FF3A'',
        os_long_order_id = Some ''o1'', os_short_order_id = Some ''o2'', os_long_filled_quantity = 2,
        os_short_filled_quantity = 1, os_long_notional = 20, os_short_notional = 40, os_long_fees = 1, os_short_fees = 1,
        os_opened_time_utc = None, os_version = 9, os_updated_at = Aware 5\<rparr>;
      p = \<lparr>max_leg_wait_seconds = 10, allow_partial_spread = True, minimum_matched_quantity = 1,
        maximum_credit_deviation = 2, oe_unmatched_long_policy = CLOSE_LONG\<rparr>
   in \<exists>s'. finalize_short_premium s p (Aware 6) = Inr s' \<and> os_state s' = PARTIALLY_OPEN"
proof -
  define s where "s = \<lparr>os_cycle_id = ''C7'', os_state = SHORT_PREMIUM_PENDING, os_long_symbol = ''ETH-P-2900'', os_short_symbol = ''ETH-P-3000'',
        os_expiry_time_utc = Aware 99, os_requested_quantity = 2, os_expected_net_credit = 58,
        os_long_order_link_id = sample_long_link, os_short_order_link_id = Some ''ECH-a1-C0007-L00-OS-A01-00FF3A'',
        os_long_order_id = Some ''o1'', os_short_order_id = Some ''o2'', os_long_filled_quantity = 2,
        os_short_filled_quantity = 1, os_long_notional = 20, os_short_notional = 40, os_long_fees = 1, os_short_fees = 1,
        os_opened_time_utc = None, os_version = 9, os_updated_at = Aware 5\<rparr>"
  define p where "p = \<lparr>max_leg_wait_seconds = 10, allow_partial_spread = True, minimum_matched_quantity = 1,
        maximum_credit_deviation = 2, oe_unmatched_long_policy = CLOSE_LONG\<rparr>"
  have "mk_spread_snapshot s = Inr s" "mk_option_entry_policy p = Inr p" unfolding s_def p_def by code_simp+
  moreover have "0 < spread_net_credit s \<and> minimum_matched_quantity p \<le> spread_matched_quantity s
      \<and> credit_deviation s \<le> maximum_credit_deviation p \<and> allow_partial_spread p
      \<and> spread_matched_quantity s \<noteq> os_requested_quantity s"
    unfolding s_def p_def by code_simp
  ultimately have "\<exists>s'. finalize_short_premium s p (Aware 6) = Inr s' \<and> os_state s' = PARTIALLY_OPEN"
    using finalize_short_total [of s p "Aware 6"] by (auto simp: valid_spread_snapshot_def Let_def)
  then show ?thesis unfolding Let_def s_def p_def .
qed

end
