(* ===== verification/Market_Data.thy ===== *)
theory Market_Data
  imports Instruments
begin

text \<open>
  \<open>domain/market_data.py\<close>: validated public market events, the local order book kept from snapshots
  and deltas, the choice of the trigger price, and the health gate of market data. The book is shown
  to be the replay of the accepted events on an abstract map of price to size, and the gate to be
  the conjunction of its conditions.
\<close>

datatype market_data_event_type = TICKER_UPDATED | TRADE_OBSERVED | ORDER_BOOK_SNAPSHOT_APPLIED
  | ORDER_BOOK_DELTA_APPLIED | MARKET_DATA_STALE | MARKET_DATA_RECOVERED | INSTRUMENT_CHANGED | INSTRUMENT_DISABLED

datatype trigger_price_source = LAST_TRADE | MARK_PRICE | INDEX_PRICE

section \<open>Events\<close>

record ticker_event =
  tk_symbol :: string
  tk_timestamp_utc :: datetime
  tk_last_price :: "dec option"
  tk_mark_price :: "dec option"
  tk_index_price :: "dec option"
  tk_bid_price :: "dec option"
  tk_ask_price :: "dec option"
  tk_sequence :: "int option"
  tk_connection_generation :: int
  tk_raw_payload_hash :: string
  tk_bid_size :: "dec option"
  tk_ask_size :: "dec option"
  tk_bid_iv :: "dec option"
  tk_ask_iv :: "dec option"
  tk_mark_iv :: "dec option"
  tk_underlying_price :: "dec option"
  tk_delta :: "dec option"
  tk_gamma :: "dec option"
  tk_vega :: "dec option"
  tk_theta :: "dec option"

definition mk_ticker_event :: "ticker_event \<Rightarrow> ticker_event res" where
  [post_init]: "mk_ticker_event e = check_all
    [text_guard (tk_symbol e) ''symbol'', utc_guard (tk_timestamp_utc e) ''time'',
     (is_negative (tk_last_price e), ''last_price cannot be negative''),
     (is_negative (tk_mark_price e), ''mark_price cannot be negative''),
     (is_negative (tk_index_price e), ''index_price cannot be negative''),
     (is_negative (tk_bid_price e), ''bid_price cannot be negative''),
     (is_negative (tk_ask_price e), ''ask_price cannot be negative''),
     (is_negative (tk_bid_size e), ''bid_size cannot be negative''),
     (is_negative (tk_ask_size e), ''ask_size cannot be negative''),
     (is_negative (tk_bid_iv e), ''bid_iv cannot be negative''),
     (is_negative (tk_ask_iv e), ''ask_iv cannot be negative''),
     (is_negative (tk_mark_iv e), ''mark_iv cannot be negative''),
     (is_negative (tk_underlying_price e), ''underlying_price cannot be negative''),
     (some_and (\<lambda>u. u \<le> 0) (tk_underlying_price e), ''underlying price must be positive''),
     (case (tk_bid_price e, tk_ask_price e) of (Some bid, Some ask) \<Rightarrow> ask < bid | _ \<Rightarrow> False,
      ''ticker bid cannot exceed ask''),
     (tk_connection_generation e < 0, ''connection generation cannot be negative''),
     text_guard (tk_raw_payload_hash e) ''raw payload hash''] (Inr e)"

record trade_event =
  te_symbol :: string
  te_timestamp_utc :: datetime
  te_price :: dec
  te_size :: dec
  te_side :: order_side
  te_trade_id :: string
  te_sequence :: "int option"
  te_connection_generation :: int
  te_raw_payload_hash :: string

definition mk_trade_event :: "trade_event \<Rightarrow> trade_event res" where
  [post_init]: "mk_trade_event e = check_all
    [text_guard (te_symbol e) ''symbol'', text_guard (te_trade_id e) ''trade ID'',
     (te_price e \<le> 0 \<or> te_size e \<le> 0, ''trade price and size must be positive''),
     utc_guard (te_timestamp_utc e) ''trade time'',
     (te_connection_generation e < 0, ''connection generation cannot be negative''),
     text_guard (te_raw_payload_hash e) ''raw payload hash''] (Inr e)"

type_synonym book_level = "dec \<times> dec"

definition normalize_levels :: "book_level list \<Rightarrow> bool \<times> string" where
  "normalize_levels ls = (list_ex (\<lambda>(price, sz). price \<le> 0 \<or> sz < 0) ls,
     ''book price must be positive and size non-negative'')"

text \<open>Snapshots and deltas have the same fields and the same validation.\<close>

record order_book_update =
  bk_symbol :: string
  bk_bids :: "book_level list"
  bk_asks :: "book_level list"
  bk_update_id :: int
  bk_sequence :: int
  bk_timestamp_utc :: datetime
  bk_connection_generation :: int
  bk_raw_payload_hash :: string

definition mk_order_book_update :: "order_book_update \<Rightarrow> order_book_update res" where
  [post_init]: "mk_order_book_update e = check_all
    [text_guard (bk_symbol e) ''symbol'',
     (bk_update_id e < 0 \<or> bk_sequence e < 0, ''book update ID and sequence cannot be negative''),
     (bk_connection_generation e < 0, ''connection generation cannot be negative''),
     normalize_levels (bk_bids e), normalize_levels (bk_asks e),
     utc_guard (bk_timestamp_utc e) ''book time'',
     text_guard (bk_raw_payload_hash e) ''raw payload hash''] (Inr e)"

datatype order_book_event = OrderBookSnapshot order_book_update | OrderBookDelta order_book_update

fun order_book_event_type :: "order_book_event \<Rightarrow> market_data_event_type" where
  "order_book_event_type (OrderBookSnapshot _) = ORDER_BOOK_SNAPSHOT_APPLIED"
| "order_book_event_type (OrderBookDelta _) = ORDER_BOOK_DELTA_APPLIED"

section \<open>The local order book\<close>

record local_order_book =
  lb_symbol :: string
  lb_bids :: "book_level list"
  lb_asks :: "book_level list"
  lb_update_id :: "int option"
  lb_sequence :: "int option"
  lb_timestamp_utc :: "datetime option"
  lb_connection_generation :: int
  lb_synchronized :: bool

definition new_book :: "string \<Rightarrow> local_order_book res" where
  "new_book symbol = check_all [text_guard symbol ''symbol'']
     (Inr \<lparr>lb_symbol = symbol, lb_bids = [], lb_asks = [], lb_update_id = None, lb_sequence = None,
       lb_timestamp_utc = None, lb_connection_generation = 0, lb_synchronized = False\<rparr>)"

text \<open>\<open>max(self.bids)\<close> and \<open>min(self.asks)\<close> over the keys.\<close>

definition best_bid :: "local_order_book \<Rightarrow> book_level option" where
  "best_bid b = (case map fst (lb_bids b) of [] \<Rightarrow> None
     | p # ps \<Rightarrow> (let price = fold max ps p in map_option (\<lambda>sz. (price, sz)) (map_of (lb_bids b) price)))"

definition best_ask :: "local_order_book \<Rightarrow> book_level option" where
  "best_ask b = (case map fst (lb_asks b) of [] \<Rightarrow> None
     | p # ps \<Rightarrow> (let price = fold min ps p in map_option (\<lambda>sz. (price, sz)) (map_of (lb_asks b) price)))"

definition positive_levels :: "book_level list \<Rightarrow> book_level list" where
  "positive_levels ls = dict_of (filter (\<lambda>(_, sz). 0 < sz) ls)"

definition apply_level :: "book_level list \<Rightarrow> book_level \<Rightarrow> book_level list" where
  "apply_level side l = (case l of (price, sz) \<Rightarrow>
     if sz = 0 then filter (\<lambda>(p, _). p \<noteq> price) side else dict_set price sz side)"

definition apply_levels :: "book_level list \<Rightarrow> book_level list \<Rightarrow> book_level list" where
  "apply_levels side ls = foldl apply_level side ls"

definition validate_symbol :: "local_order_book \<Rightarrow> string \<Rightarrow> 'a res \<Rightarrow> 'a res" where
  "validate_symbol b symbol k =
     raise_when (symbol \<noteq> lb_symbol b) ''order book event symbol does not match local book'' k"

definition apply_snapshot :: "local_order_book \<Rightarrow> order_book_update \<Rightarrow> (local_order_book \<times> bool) res" where
  "apply_snapshot b e = validate_symbol b (bk_symbol e)
    (if bk_connection_generation e < lb_connection_generation b then Inr (b, False)
     else Inr (b\<lparr>lb_bids := positive_levels (bk_bids e), lb_asks := positive_levels (bk_asks e),
       lb_update_id := Some (bk_update_id e), lb_sequence := Some (bk_sequence e),
       lb_timestamp_utc := Some (bk_timestamp_utc e),
       lb_connection_generation := bk_connection_generation e, lb_synchronized := True\<rparr>, True))"

definition apply_delta :: "local_order_book \<Rightarrow> order_book_update \<Rightarrow> (local_order_book \<times> bool) res" where
  "apply_delta b e = validate_symbol b (bk_symbol e)
    (if bk_connection_generation e < lb_connection_generation b then Inr (b, False)
     else if lb_connection_generation b < bk_connection_generation e then Inr (b\<lparr>lb_synchronized := False\<rparr>, False)
     else if \<not> lb_synchronized b then Inr (b, False)
     else (case (lb_update_id b, lb_sequence b) of
         (Some u, Some s) \<Rightarrow>
           (if bk_update_id e \<noteq> u + 1 \<or> bk_sequence e \<le> s then Inr (b\<lparr>lb_synchronized := False\<rparr>, False)
            else Inr (b\<lparr>lb_bids := apply_levels (lb_bids b) (bk_bids e), lb_asks := apply_levels (lb_asks b) (bk_asks e),
              lb_update_id := Some (bk_update_id e), lb_sequence := Some (bk_sequence e),
              lb_timestamp_utc := Some (bk_timestamp_utc e)\<rparr>, True))
       | _ \<Rightarrow> Inr (b, False)))"

definition mark_unsynchronized :: "local_order_book \<Rightarrow> local_order_book" where
  "mark_unsynchronized b = b\<lparr>lb_synchronized := False\<rparr>"

definition is_execution_ready :: "local_order_book \<Rightarrow> datetime \<Rightarrow> dec \<Rightarrow> bool res" where
  "is_execution_ready b as_of max_age = (case lb_timestamp_utc b of
       None \<Rightarrow> Inr False
     | Some t \<Rightarrow> (if \<not> lb_synchronized b \<or> best_bid b = None \<or> best_ask b = None then Inr False
         else raise_naive as_of ''as of time''
           (Inr (0 \<le> seconds_between as_of t \<and> seconds_between as_of t \<le> max_age))))"

section \<open>The trigger price\<close>

record trigger_price_event =
  tr_symbol :: string
  tr_source :: trigger_price_source
  tr_observed_price :: dec
  tr_observed_timestamp :: datetime
  tr_connection_generation :: int

definition from_trade :: "trigger_price_source \<Rightarrow> trade_event \<Rightarrow> trigger_price_event option" where
  "from_trade source e = (if source \<noteq> LAST_TRADE then None
     else Some \<lparr>tr_symbol = te_symbol e, tr_source = source, tr_observed_price = te_price e,
       tr_observed_timestamp = te_timestamp_utc e, tr_connection_generation = te_connection_generation e\<rparr>)"

definition from_ticker :: "trigger_price_source \<Rightarrow> ticker_event \<Rightarrow> trigger_price_event option" where
  "from_ticker source e = (if source = LAST_TRADE then None
     else (case (if source = MARK_PRICE then tk_mark_price e else tk_index_price e) of
         None \<Rightarrow> None
       | Some price \<Rightarrow> Some \<lparr>tr_symbol = tk_symbol e, tr_source = source, tr_observed_price = price,
           tr_observed_timestamp = tk_timestamp_utc e, tr_connection_generation = tk_connection_generation e\<rparr>))"

section \<open>The health gate\<close>

record market_data_health_policy =
  max_trigger_age_seconds :: dec
  max_option_quote_age_seconds :: dec
  max_order_book_age_seconds :: dec

definition mk_market_data_health_policy :: "market_data_health_policy \<Rightarrow> market_data_health_policy res" where
  [post_init]: "mk_market_data_health_policy p = check_all
    [(max_trigger_age_seconds p < 0, ''max trigger age seconds cannot be negative''),
     (max_option_quote_age_seconds p < 0, ''max option quote age seconds cannot be negative''),
     (max_order_book_age_seconds p < 0, ''max order book age seconds cannot be negative'')] (Inr p)"

record market_data_health_snapshot =
  mh_trigger_timestamp_utc :: "datetime option"
  mh_instrument_loaded :: bool
  mh_websocket_connected :: bool
  mh_option_quote_timestamps_utc :: "datetime list"
  mh_order_book_synchronized :: bool
  mh_order_book_timestamp_utc :: "datetime option"
  mh_clock_synchronized :: bool

record market_data_health_result =
  mr_trading_allowed :: bool
  mr_reasons :: "string list"
  mr_event_type :: market_data_event_type

record instrument_status_event =
  ie_symbol :: string
  ie_status :: string
  ie_timestamp_utc :: datetime
  ie_connection_generation :: int
  ie_event_type :: market_data_event_type

definition normalize_instrument_change ::
    "instrument_spec \<Rightarrow> instrument_spec \<Rightarrow> datetime \<Rightarrow> int \<Rightarrow> instrument_status_event res" where
  "normalize_instrument_change previous current observed_at generation =
     raise_when (is_symbol previous \<noteq> is_symbol current) ''instrument update symbols must match''
    (raise_when (previous = current) ''instrument update must contain a change''
    (raise_naive observed_at ''instrument observation time''
    (Inr \<lparr>ie_symbol = is_symbol current, ie_status = is_status current, ie_timestamp_utc = observed_at,
       ie_connection_generation = generation,
       ie_event_type = (if is_status current \<noteq> ''Trading'' then INSTRUMENT_DISABLED else INSTRUMENT_CHANGED)\<rparr>)))"

definition is_fresh :: "datetime \<Rightarrow> datetime \<Rightarrow> dec \<Rightarrow> bool res" where
  "is_fresh t as_of maximum_age = raise_naive t ''market-data timestamp''
     (Inr (0 \<le> seconds_between as_of t \<and> seconds_between as_of t \<le> maximum_age))"

text \<open>\<open>any(not _is_fresh(...) for ...)\<close> stops at the first stale quote.\<close>

fun any_stale :: "datetime \<Rightarrow> dec \<Rightarrow> datetime list \<Rightarrow> bool res" where
  "any_stale as_of age [] = Inr False"
| "any_stale as_of age (t # ts) = r_bind (is_fresh t as_of age) (\<lambda>fresh.
     if \<not> fresh then Inr True else any_stale as_of age ts)"

definition stale_reason :: "datetime option \<Rightarrow> datetime \<Rightarrow> dec \<Rightarrow> string \<Rightarrow> string \<Rightarrow> string list res" where
  "stale_reason t as_of age missing stale = (case t of None \<Rightarrow> Inr [missing]
     | Some t \<Rightarrow> r_bind (is_fresh t as_of age) (\<lambda>fresh. Inr (reason_if (\<not> fresh) stale)))"

definition evaluate_market_data_health ::
    "market_data_health_snapshot \<Rightarrow> market_data_health_policy \<Rightarrow> datetime \<Rightarrow> bool \<Rightarrow> market_data_health_result res" where
  "evaluate_market_data_health s p as_of order_book_required = raise_naive as_of ''as of time''
    (r_bind (stale_reason (mh_trigger_timestamp_utc s) as_of (max_trigger_age_seconds p)
        ''trigger price is unavailable'' ''trigger price is stale'') (\<lambda>trigger.
     r_bind (if mh_option_quote_timestamps_utc s = [] then Inr [''option quotes are unavailable'']
        else r_bind (any_stale as_of (max_option_quote_age_seconds p) (mh_option_quote_timestamps_utc s))
          (\<lambda>stale. Inr (reason_if stale ''option quote is stale''))) (\<lambda>quotes.
     r_bind (if \<not> order_book_required then Inr []
        else if \<not> mh_order_book_synchronized s then Inr [''order book is not synchronized'']
        else stale_reason (mh_order_book_timestamp_utc s) as_of (max_order_book_age_seconds p)
          ''order book timestamp is unavailable'' ''order book is stale'') (\<lambda>book.
     let rs = trigger @ reason_if (\<not> mh_instrument_loaded s) ''instrument is not loaded''
            @ reason_if (\<not> mh_websocket_connected s) ''public websocket is disconnected''
            @ quotes @ book @ reason_if (\<not> mh_clock_synchronized s) ''clock is not synchronized''
     in Inr \<lparr>mr_trading_allowed = (rs = []), mr_reasons = rs,
          mr_event_type = (if rs = [] then MARKET_DATA_RECOVERED else MARKET_DATA_STALE)\<rparr>))))"

section \<open>The book is the replay of what it accepted\<close>

definition book_step :: "local_order_book \<Rightarrow> order_book_event \<Rightarrow> (local_order_book \<times> bool) res" where
  "book_step b ev = (case ev of OrderBookSnapshot e \<Rightarrow> apply_snapshot b e | OrderBookDelta e \<Rightarrow> apply_delta b e)"

text \<open>The book over a feed, with the accepted events since the last accepted snapshot.\<close>

definition book_feed ::
    "local_order_book \<times> order_book_event list \<Rightarrow> order_book_event \<Rightarrow> (local_order_book \<times> order_book_event list) res" where
  "book_feed s ev = r_bind (book_step (fst s) ev) (\<lambda>(b, accepted). Inr (b,
     if \<not> accepted then snd s else (case ev of OrderBookSnapshot _ \<Rightarrow> [ev] | OrderBookDelta _ \<Rightarrow> snd s @ [ev])))"

text \<open>The abstract book: what a snapshot and its deltas make of the sizes at each price.\<close>

fun put_level :: "(dec \<Rightarrow> dec option) \<Rightarrow> book_level \<Rightarrow> dec \<Rightarrow> dec option" where
  "put_level m (price, sz) = m(price := (if sz = 0 then None else Some sz))"

definition snapshot_side :: "book_level list \<Rightarrow> dec \<Rightarrow> dec option" where
  "snapshot_side ls = map_of (positive_levels ls)"

fun replay_side :: "(order_book_update \<Rightarrow> book_level list) \<Rightarrow> order_book_event list \<Rightarrow> (dec \<Rightarrow> dec option) \<Rightarrow> dec \<Rightarrow> dec option" where
  "replay_side side [] m = m"
| "replay_side side (OrderBookSnapshot e # evs) m = replay_side side evs (snapshot_side (side e))"
| "replay_side side (OrderBookDelta e # evs) m = replay_side side evs (foldl put_level m (side e))"

lemma replay_side_append: "replay_side side (as @ bs) m = replay_side side bs (replay_side side as m)"
  by (induction side as m rule: replay_side.induct) simp_all

lemma map_of_filter_key: "map_of (filter (\<lambda>(p, _). p \<noteq> k) xs) = (map_of xs)(k := None)"
  by (induction xs) (auto simp: fun_eq_iff)

lemma map_of_apply_level: "map_of (apply_level side l) = put_level (map_of side) l"
  by (cases l) (simp add: apply_level_def map_of_filter_key)

lemma map_of_apply_levels: "map_of (apply_levels side ls) = foldl put_level (map_of side) ls"
  by (induction ls arbitrary: side) (simp_all add: apply_levels_def map_of_apply_level)

definition chain :: "int option \<Rightarrow> int option \<Rightarrow> int \<Rightarrow> order_book_event list \<Rightarrow> bool" where
  "chain uid seq generation acc \<longleftrightarrow> (\<exists>s ds. acc = OrderBookSnapshot s # map OrderBookDelta ds
     \<and> map bk_update_id ds = map (\<lambda>i. bk_update_id s + 1 + int i) [0..<length ds]
     \<and> uid = Some (bk_update_id s + int (length ds)) \<and> seq = Some (bk_sequence (last (s # ds)))
     \<and> sorted_wrt (<) (map bk_sequence (s # ds))
     \<and> (\<forall>d \<in> set (s # ds). bk_connection_generation d = generation))"

definition book_inv :: "local_order_book \<Rightarrow> order_book_event list \<Rightarrow> bool" where
  "book_inv b acc \<longleftrightarrow> map_of (lb_bids b) = replay_side bk_bids acc Map.empty
     \<and> map_of (lb_asks b) = replay_side bk_asks acc Map.empty
     \<and> (if acc = [] then \<not> lb_synchronized b
        else chain (lb_update_id b) (lb_sequence b) (lb_connection_generation b) acc)"

lemma chain_snapshot: "chain (Some (bk_update_id s)) (Some (bk_sequence s)) (bk_connection_generation s) [OrderBookSnapshot s]"
  unfolding chain_def by (rule exI [of _ s], rule exI [of _ "[]"]) simp

lemma book_inv_desync: "book_inv b acc \<Longrightarrow> book_inv (mark_unsynchronized b) acc"
  by (simp add: book_inv_def mark_unsynchronized_def split: if_splits)

lemma sorted_wrt_snoc_less:
  fixes xs :: "int list"
  shows "xs \<noteq> [] \<Longrightarrow> sorted_wrt (<) xs \<Longrightarrow> last xs < y \<Longrightarrow> sorted_wrt (<) (xs @ [y])"
  by (induction xs) (auto split: if_splits, meson last_in_set order_less_trans)

lemma chain_delta:
  assumes "chain (Some u) (Some q) g acc" "bk_update_id e = u + 1" "q < bk_sequence e" "bk_connection_generation e = g"
  shows "chain (Some (bk_update_id e)) (Some (bk_sequence e)) g (acc @ [OrderBookDelta e])"
proof -
  from assms(1) obtain s ds where a: "acc = OrderBookSnapshot s # map OrderBookDelta ds"
    "map bk_update_id ds = map (\<lambda>i. bk_update_id s + 1 + int i) [0..<length ds]"
    "u = bk_update_id s + int (length ds)" "q = bk_sequence (last (s # ds))"
    "sorted_wrt (<) (map bk_sequence (s # ds))" "\<forall>d \<in> set (s # ds). bk_connection_generation d = g"
    unfolding chain_def by blast
  have "last (map bk_sequence (s # ds)) < bk_sequence e"
    using a(4) assms(3) last_map [of "s # ds" bk_sequence] by (simp del: last.simps list.map)
  then have "sorted_wrt (<) (map bk_sequence (s # ds) @ [bk_sequence e])"
    by (intro sorted_wrt_snoc_less a(5)) simp_all
  then show ?thesis
    unfolding chain_def using a assms by (intro exI [of _ s] exI [of _ "ds @ [e]"]) simp
qed

lemma book_inv_feed:
  assumes "book_inv b acc" "book_feed (b, acc) ev = Inr (b', acc')"
  shows "book_inv b' acc'"
proof (cases ev)
  case (OrderBookSnapshot e)
  show ?thesis
  proof (cases "bk_connection_generation e < lb_connection_generation b")
    case True
    with OrderBookSnapshot assms show ?thesis
      by (simp add: book_feed_def book_step_def apply_snapshot_def validate_symbol_def)
  next
    case False
    with OrderBookSnapshot assms(2) have "acc' = [OrderBookSnapshot e]"
      "b' = b\<lparr>lb_bids := positive_levels (bk_bids e), lb_asks := positive_levels (bk_asks e),
       lb_update_id := Some (bk_update_id e), lb_sequence := Some (bk_sequence e),
       lb_timestamp_utc := Some (bk_timestamp_utc e),
       lb_connection_generation := bk_connection_generation e, lb_synchronized := True\<rparr>"
      by (simp_all add: book_feed_def book_step_def apply_snapshot_def validate_symbol_def)
    then show ?thesis
      unfolding book_inv_def by (simp add: snapshot_side_def chain_snapshot)
  qed
next
  case (OrderBookDelta e)
  show ?thesis
  proof (cases "acc' = acc")
    case True
    with assms(2) OrderBookDelta have "b' = b \<or> b' = b\<lparr>lb_synchronized := False\<rparr>"
      by (auto simp: book_feed_def book_step_def apply_delta_def validate_symbol_def split: if_splits option.splits)
    with True assms(1) book_inv_desync show ?thesis unfolding mark_unsynchronized_def by blast
  next
    case False
    then obtain u s0 where f: "lb_synchronized b" "lb_update_id b = Some u" "lb_sequence b = Some s0"
        "bk_update_id e = u + 1" "s0 < bk_sequence e" "bk_connection_generation e = lb_connection_generation b"
      and b': "b' = b\<lparr>lb_bids := apply_levels (lb_bids b) (bk_bids e), lb_asks := apply_levels (lb_asks b) (bk_asks e),
              lb_update_id := Some (bk_update_id e), lb_sequence := Some (bk_sequence e),
              lb_timestamp_utc := Some (bk_timestamp_utc e)\<rparr>" and acc': "acc' = acc @ [ev]"
      using assms(2) OrderBookDelta
      by (auto simp: book_feed_def book_step_def apply_delta_def validate_symbol_def not_less split: if_splits option.splits)
    have "chain (Some u) (Some s0) (lb_connection_generation b) acc"
      and m: "map_of (lb_bids b) = replay_side bk_bids acc Map.empty" "map_of (lb_asks b) = replay_side bk_asks acc Map.empty"
      using assms(1) f(1,2,3) by (simp_all add: book_inv_def split: if_splits)
    from chain_delta [OF this(1) f(4,5,6)] m OrderBookDelta show ?thesis
      by (simp add: book_inv_def b' acc' replay_side_append map_of_apply_levels)
  qed
qed

lemma fold_max_above: "x \<in> set (p # ps) \<Longrightarrow> x \<le> fold max ps (p :: dec)"
  unfolding Max.set_eq_fold [symmetric] by (rule Max_ge) simp_all

lemma fold_min_below: "x \<in> set (p # ps) \<Longrightarrow> fold min ps (p :: dec) \<le> x"
  unfolding Min.set_eq_fold [symmetric] by (rule Min_le) simp_all

lemma best_bid_max:
  assumes "best_bid b = Some (p, q)" shows "map_of (lb_bids b) p = Some q \<and> (\<forall>x \<in> set (lb_bids b). fst x \<le> p)"
proof -
  obtain k ks where k: "map fst (lb_bids b) = k # ks" "p = fold max ks k" "map_of (lb_bids b) p = Some q"
    using assms by (auto simp: best_bid_def Let_def split: list.splits)
  have "fst x \<le> p" if "x \<in> set (lb_bids b)" for x
    using fold_max_above [of "fst x" k ks] k(1,2) that by (metis imageI list.set_map)
  with k show ?thesis by blast
qed

lemma best_ask_min:
  assumes "best_ask b = Some (p, q)" shows "map_of (lb_asks b) p = Some q \<and> (\<forall>x \<in> set (lb_asks b). p \<le> fst x)"
proof -
  obtain k ks where k: "map fst (lb_asks b) = k # ks" "p = fold min ks k" "map_of (lb_asks b) p = Some q"
    using assms by (auto simp: best_ask_def Let_def split: list.splits)
  have "p \<le> fst x" if "x \<in> set (lb_asks b)" for x
    using fold_min_below [of "fst x" k ks] k(1,2) that by (metis imageI list.set_map)
  with k show ?thesis by blast
qed

lemma book_inv_run:
  assumes "r_foldl book_feed (b0, []) evs = Inr (b, acc)" "new_book symb = Inr b0"
  shows "book_inv b acc"
proof -
  have "book_inv b0 []" using assms(2) by (auto simp: new_book_def book_inv_def)
  then have "case (b, acc) of (b, acc) \<Rightarrow> book_inv b acc"
    by (intro r_foldl_invariant [OF assms(1), where P = "\<lambda>(b, acc). book_inv b acc"]) (auto intro: book_inv_feed)
  then show ?thesis by simp
qed

text \<open>C29. The local book follows the feed. Over any feed of snapshots and deltas, from an empty book:
  both sides hold exactly what the last accepted snapshot and the deltas accepted after it make of the
  abstract map from price to size; those deltas have consecutive update ids, increasing sequence
  numbers and the connection generation of the snapshot; a book that never accepted a snapshot is not
  synchronized; and the best bid and ask are the highest and the lowest price held.\<close>

theorem book_follows_feed:
  assumes "new_book symb = Inr b0" and "r_foldl book_feed (b0, []) evs = Inr (b, acc)"
  shows "map_of (lb_bids b) = replay_side bk_bids acc Map.empty
    \<and> map_of (lb_asks b) = replay_side bk_asks acc Map.empty
    \<and> (lb_synchronized b \<longrightarrow> acc \<noteq> [])
    \<and> (acc \<noteq> [] \<longrightarrow> (\<exists>s ds. acc = OrderBookSnapshot s # map OrderBookDelta ds
         \<and> map bk_update_id ds = map (\<lambda>i. bk_update_id s + 1 + int i) [0..<length ds]
         \<and> sorted_wrt (<) (map bk_sequence (s # ds))
         \<and> (\<forall>d \<in> set ds. bk_connection_generation d = bk_connection_generation s)))
    \<and> (\<forall>p q. best_bid b = Some (p, q) \<longrightarrow> map_of (lb_bids b) p = Some q \<and> (\<forall>x \<in> set (lb_bids b). fst x \<le> p))
    \<and> (\<forall>p q. best_ask b = Some (p, q) \<longrightarrow> map_of (lb_asks b) p = Some q \<and> (\<forall>x \<in> set (lb_asks b). p \<le> fst x))"
proof -
  have inv: "book_inv b acc" by (rule book_inv_run [OF assms(2,1)])
  have "\<exists>s ds. acc = OrderBookSnapshot s # map OrderBookDelta ds
         \<and> map bk_update_id ds = map (\<lambda>i. bk_update_id s + 1 + int i) [0..<length ds]
         \<and> sorted_wrt (<) (map bk_sequence (s # ds))
         \<and> (\<forall>d \<in> set ds. bk_connection_generation d = bk_connection_generation s)" if acc: "acc \<noteq> []"
  proof -
    from inv acc have "chain (lb_update_id b) (lb_sequence b) (lb_connection_generation b) acc"
      by (simp add: book_inv_def)
    then obtain s ds where "acc = OrderBookSnapshot s # map OrderBookDelta ds"
      "map bk_update_id ds = map (\<lambda>i. bk_update_id s + 1 + int i) [0..<length ds]"
      "sorted_wrt (<) (map bk_sequence (s # ds))"
      "\<forall>d \<in> set (s # ds). bk_connection_generation d = lb_connection_generation b"
      unfolding chain_def by blast
    then show ?thesis by (intro exI [of _ s] exI [of _ ds]) simp
  qed
  moreover have "map_of (lb_bids b) = replay_side bk_bids acc Map.empty"
    "map_of (lb_asks b) = replay_side bk_asks acc Map.empty" "lb_synchronized b \<longrightarrow> acc \<noteq> []"
    using inv by (auto simp: book_inv_def)
  ultimately show ?thesis using best_bid_max best_ask_min by blast
qed

definition sample_book_update :: "int \<Rightarrow> int \<Rightarrow> book_level list \<Rightarrow> order_book_update" where
  "sample_book_update uid seq bids = \<lparr>bk_symbol = ''ETHUSDT'', bk_bids = bids, bk_asks = [(3001, 2)], bk_update_id = uid,
     bk_sequence = seq, bk_timestamp_utc = Aware 1, bk_connection_generation = 1, bk_raw_payload_hash = ''h''\<rparr>"

theorem book_follows_feed_witness:
  "\<exists>b0 b acc. new_book ''ETHUSDT'' = Inr b0
     \<and> r_foldl book_feed (b0, []) [OrderBookSnapshot (sample_book_update 7 10 [(2999, 1), (2998, 4)]),
          OrderBookDelta (sample_book_update 8 12 [(2999, 0)]), OrderBookDelta (sample_book_update 10 15 [(2997, 1)])] = Inr (b, acc)
     \<and> map_of (lb_bids b) = [2998 \<mapsto> 4] \<and> \<not> lb_synchronized b"
proof -
  let ?evs = "[OrderBookSnapshot (sample_book_update 7 10 [(2999, 1), (2998, 4)]),
          OrderBookDelta (sample_book_update 8 12 [(2999, 0)]), OrderBookDelta (sample_book_update 10 15 [(2997, 1)])]"
  have "is_ok (new_book ''ETHUSDT'')" by code_simp
  then obtain b0 where b0: "new_book ''ETHUSDT'' = Inr b0" by (auto simp: is_ok_iff)
  then have "\<exists>b acc. r_foldl book_feed (b0, []) ?evs = Inr (b, acc) \<and> acc = take 2 ?evs \<and> \<not> lb_synchronized b"
    by (auto simp: new_book_def book_feed_def book_step_def apply_snapshot_def apply_delta_def validate_symbol_def
        sample_book_update_def simp del: r_bind_eq_Inr)
  then obtain b acc where r: "r_foldl book_feed (b0, []) ?evs = Inr (b, acc)" "acc = take 2 ?evs" "\<not> lb_synchronized b"
    by blast
  have "map_of (lb_bids b) = replay_side bk_bids acc Map.empty" using book_follows_feed [OF b0 r(1)] by blast
  then have "map_of (lb_bids b) = [2998 \<mapsto> 4]"
    by (simp add: r(2) sample_book_update_def snapshot_side_def positive_levels_def dict_of_def fun_eq_iff)
  with b0 r show ?thesis by blast
qed

section \<open>The health gate\<close>

definition fresh :: "datetime \<Rightarrow> datetime \<Rightarrow> dec \<Rightarrow> bool" where
  "fresh t as_of age \<longleftrightarrow> is_aware t \<and> 0 \<le> seconds_between as_of t \<and> seconds_between as_of t \<le> age"

lemma any_stale_Inr: "any_stale as_of age ts = Inr b \<Longrightarrow> b = (\<not> (\<forall>t \<in> set ts. fresh t as_of age))"
  by (induction ts) (auto simp: is_fresh_def fresh_def split: if_splits)

lemma stale_reason_Inr:
  "stale_reason t as_of age m s = Inr rs \<Longrightarrow> (rs = []) = (\<exists>x. t = Some x \<and> fresh x as_of age)"
  by (auto simp: stale_reason_def is_fresh_def fresh_def split: option.splits)

text \<open>The gate allows trading exactly if every source it needs is present, synchronized and fresh.\<close>

lemma health_gate:
  assumes "evaluate_market_data_health s p as_of required = Inr r"
  shows "mr_trading_allowed r \<longleftrightarrow> (\<exists>t. mh_trigger_timestamp_utc s = Some t \<and> fresh t as_of (max_trigger_age_seconds p))
    \<and> mh_instrument_loaded s \<and> mh_websocket_connected s \<and> mh_clock_synchronized s
    \<and> mh_option_quote_timestamps_utc s \<noteq> []
    \<and> (\<forall>t \<in> set (mh_option_quote_timestamps_utc s). fresh t as_of (max_option_quote_age_seconds p))
    \<and> (required \<longrightarrow> mh_order_book_synchronized s
         \<and> (\<exists>t. mh_order_book_timestamp_utc s = Some t \<and> fresh t as_of (max_order_book_age_seconds p)))"
    and "mr_trading_allowed r \<longleftrightarrow> mr_reasons r = []"
    and "mr_event_type r = (if mr_trading_allowed r then MARKET_DATA_RECOVERED else MARKET_DATA_STALE)"
proof -
  obtain tr qs bk where tr: "stale_reason (mh_trigger_timestamp_utc s) as_of (max_trigger_age_seconds p)
        ''trigger price is unavailable'' ''trigger price is stale'' = Inr tr"
    and qs: "(if mh_option_quote_timestamps_utc s = [] then Inr [''option quotes are unavailable'']
        else r_bind (any_stale as_of (max_option_quote_age_seconds p) (mh_option_quote_timestamps_utc s))
          (\<lambda>stale. Inr (reason_if stale ''option quote is stale''))) = Inr qs"
    and bk: "(if \<not> required then Inr [] else if \<not> mh_order_book_synchronized s then Inr [''order book is not synchronized'']
        else stale_reason (mh_order_book_timestamp_utc s) as_of (max_order_book_age_seconds p)
          ''order book timestamp is unavailable'' ''order book is stale'') = Inr bk"
    and rs: "mr_reasons r = tr @ reason_if (\<not> mh_instrument_loaded s) ''instrument is not loaded''
            @ reason_if (\<not> mh_websocket_connected s) ''public websocket is disconnected''
            @ qs @ bk @ reason_if (\<not> mh_clock_synchronized s) ''clock is not synchronized''"
    and ok: "mr_trading_allowed r = (mr_reasons r = [])"
      "mr_event_type r = (if mr_reasons r = [] then MARKET_DATA_RECOVERED else MARKET_DATA_STALE)"
    using assms by (auto simp: evaluate_market_data_health_def Let_def)
  have "qs = [] \<longleftrightarrow> mh_option_quote_timestamps_utc s \<noteq> []
      \<and> (\<forall>t \<in> set (mh_option_quote_timestamps_utc s). fresh t as_of (max_option_quote_age_seconds p))"
    using qs by (auto split: if_splits dest: any_stale_Inr)
  moreover have "bk = [] \<longleftrightarrow> (required \<longrightarrow> mh_order_book_synchronized s
         \<and> (\<exists>t. mh_order_book_timestamp_utc s = Some t \<and> fresh t as_of (max_order_book_age_seconds p)))"
    using bk stale_reason_Inr by (auto split: if_splits)
  ultimately show "mr_trading_allowed r \<longleftrightarrow> (\<exists>t. mh_trigger_timestamp_utc s = Some t \<and> fresh t as_of (max_trigger_age_seconds p))
    \<and> mh_instrument_loaded s \<and> mh_websocket_connected s \<and> mh_clock_synchronized s
    \<and> mh_option_quote_timestamps_utc s \<noteq> []
    \<and> (\<forall>t \<in> set (mh_option_quote_timestamps_utc s). fresh t as_of (max_option_quote_age_seconds p))
    \<and> (required \<longrightarrow> mh_order_book_synchronized s
         \<and> (\<exists>t. mh_order_book_timestamp_utc s = Some t \<and> fresh t as_of (max_order_book_age_seconds p)))"
    using stale_reason_Inr [OF tr] unfolding ok rs by auto
  show "mr_trading_allowed r \<longleftrightarrow> mr_reasons r = []"
    and "mr_event_type r = (if mr_trading_allowed r then MARKET_DATA_RECOVERED else MARKET_DATA_STALE)"
    using ok by simp_all
qed

end
