(* ===== verification/Actions.thy ===== *)
theory Actions
  imports Prelude
begin

text \<open>
  Service methods beyond plain sequencing: lifting a pure constructor, \<open>try\<close>/\<open>except\<close>, \<open>for\<close>
  loops, and database transactions. Their reasoning principle is \<open>triple P m Q E\<close>: from a world
  with \<open>P\<close>, a return leaves \<open>Q\<close> of the value and the world, an exception leaves \<open>E\<close>. \<open>keeps I m\<close>
  is the case of an invariant that survives both. The rules are collected in \<open>triples\<close> and \<open>keeping\<close>.
\<close>

named_theorems triples
named_theorems keeping

section \<open>Combinators\<close>

definition act_lift :: "'a res \<Rightarrow> ('s, 'a) act" where
  "act_lift r s = (s, r)"

definition act_catch :: "('s, 'a) act \<Rightarrow> (py_exn \<Rightarrow> ('s, 'a) act) \<Rightarrow> ('s, 'a) act" where
  "act_catch m h s = (case m s of (s1, Inl e) \<Rightarrow> h e s1 | (s1, Inr x) \<Rightarrow> (s1, Inr x))"

text \<open>The handler of an \<open>except Exception\<close>.\<close>

definition on_exception :: "(py_exn \<Rightarrow> ('s, 'a) act) \<Rightarrow> py_exn \<Rightarrow> ('s, 'a) act" where
  "on_exception h e = (case e of InjectedProcessCrash _ \<Rightarrow> act_raise e | _ \<Rightarrow> h e)"

definition act_get :: "('s \<Rightarrow> 'a) \<Rightarrow> ('s, 'a) act" where
  "act_get f s = (s, Inr (f s))"

definition act_query :: "('s \<Rightarrow> 'a res) \<Rightarrow> ('s, 'a) act" where
  "act_query f s = (s, f s)"

fun act_for :: "('a \<Rightarrow> 'b \<Rightarrow> ('s, 'b) act) \<Rightarrow> 'a list \<Rightarrow> 'b \<Rightarrow> ('s, 'b) act" where
  "act_for f [] b = act_return b"
| "act_for f (x # xs) b = act_bind (f x b) (act_for f xs)"

fun r_map :: "('a \<Rightarrow> 'b res) \<Rightarrow> 'a list \<Rightarrow> 'b list res" where
  "r_map f [] = Inr []"
| "r_map f (x # xs) = r_bind (f x) (\<lambda>y. r_bind (r_map f xs) (\<lambda>ys. Inr (y # ys)))"

lemma r_map_same: "r_map f xs = Inr ys \<Longrightarrow> (\<And>x y. x \<in> set xs \<Longrightarrow> f x = Inr y \<Longrightarrow> y = x) \<Longrightarrow> ys = xs"
  by (induction xs arbitrary: ys) auto

lemma is_ok_r_map: "is_ok (r_map f xs) \<longleftrightarrow> (\<forall>x \<in> set xs. is_ok (f x))"
  by (induction xs) (auto simp: is_ok_r_bind is_ok_iff)

text \<open>A transaction reads and writes the state and commits only if nothing was raised.\<close>

type_synonym ('d, 'a) transaction = "'d \<Rightarrow> ('d \<times> 'a) res"

definition transact :: "('d, 'a) transaction \<Rightarrow> ('d, 'a) act" where
  "transact t d = (case t d of Inl e \<Rightarrow> (d, Inl e) | Inr (d', x) \<Rightarrow> (d', Inr x))"

lemma transact_Inr [simp]: "transact t d = (d', Inr x) \<longleftrightarrow> t d = Inr (d', x)"
  by (auto simp: transact_def split: sum.splits)

lemma transact_Inl [simp]: "transact t d = (d', Inl e) \<longleftrightarrow> d' = d \<and> t d = Inl e"
  by (auto simp: transact_def split: sum.splits)

text \<open>\<open>except sqlite3.IntegrityError\<close> around a transaction.\<close>

definition on_integrity_error :: "string \<Rightarrow> ('d, 'a) transaction \<Rightarrow> ('d, 'a) transaction" where
  "on_integrity_error msg t d = (case t d of Inl IntegrityError \<Rightarrow> Inl (ValueError msg) | r \<Rightarrow> r)"

lemma on_integrity_error_Inr [simp, guards]: "on_integrity_error msg t d = Inr x \<longleftrightarrow> t d = Inr x"
  by (auto simp: on_integrity_error_def split: sum.splits py_exn.splits)

section \<open>Triples\<close>

definition triple ::
    "('s \<Rightarrow> bool) \<Rightarrow> ('s, 'a) act \<Rightarrow> ('a \<Rightarrow> 's \<Rightarrow> bool) \<Rightarrow> (py_exn \<Rightarrow> 's \<Rightarrow> bool) \<Rightarrow> bool" where
  "triple P m Q E \<longleftrightarrow> (\<forall>s. P s \<longrightarrow> (case m s of (s', Inl e) \<Rightarrow> E e s' | (s', Inr x) \<Rightarrow> Q x s'))"

lemma tripleI:
  "(\<And>s s' x. P s \<Longrightarrow> m s = (s', Inr x) \<Longrightarrow> Q x s') \<Longrightarrow> (\<And>s s' e. P s \<Longrightarrow> m s = (s', Inl e) \<Longrightarrow> E e s') \<Longrightarrow> triple P m Q E"
  by (fastforce simp: triple_def split: prod.splits sum.splits)

lemma triple_Inr: "triple P m Q E \<Longrightarrow> P s \<Longrightarrow> m s = (s', Inr x) \<Longrightarrow> Q x s'"
  by (fastforce simp: triple_def)

lemma triple_Inl: "triple P m Q E \<Longrightarrow> P s \<Longrightarrow> m s = (s', Inl e) \<Longrightarrow> E e s'"
  by (fastforce simp: triple_def)

lemma triple_weaken:
  "triple P' m Q' E' \<Longrightarrow> (\<And>s. P s \<Longrightarrow> P' s) \<Longrightarrow> (\<And>x s. Q' x s \<Longrightarrow> Q x s) \<Longrightarrow> (\<And>e s. E' e s \<Longrightarrow> E e s)
   \<Longrightarrow> triple P m Q E"
  by (fastforce simp: triple_def split: prod.splits sum.splits)

lemma triple_bind [triples]:
  "triple P m R E \<Longrightarrow> (\<And>x. triple (R x) (f x) Q E) \<Longrightarrow> triple P (act_bind m f) Q E"
  by (fastforce simp: triple_def act_bind_def split: prod.splits sum.splits)

lemma triple_catch [triples]:
  "triple P m Q E' \<Longrightarrow> (\<And>e. triple (E' e) (h e) Q E) \<Longrightarrow> triple P (act_catch m h) Q E"
  by (fastforce simp: triple_def act_catch_def split: prod.splits sum.splits)

lemma triple_pre: "(\<And>s. P s \<Longrightarrow> b) \<Longrightarrow> (b \<Longrightarrow> triple P m Q E) \<Longrightarrow> triple P m Q E"
  by (auto simp: triple_def)

lemma triple_if: "(b \<Longrightarrow> triple P m Q E) \<Longrightarrow> (\<not> b \<Longrightarrow> triple P n Q E) \<Longrightarrow> triple P (if b then m else n) Q E"
  by simp

lemma triple_return: "(\<And>s. P s \<Longrightarrow> Q x s) \<Longrightarrow> triple P (act_return x) Q E"
  by (simp add: triple_def)

lemma triple_raise: "(\<And>s. P s \<Longrightarrow> E e s) \<Longrightarrow> triple P (act_raise e) Q E"
  by (simp add: triple_def)

lemma triple_lift:
  "(\<And>s x. P s \<Longrightarrow> r = Inr x \<Longrightarrow> Q x s) \<Longrightarrow> (\<And>s e. P s \<Longrightarrow> r = Inl e \<Longrightarrow> E e s) \<Longrightarrow> triple P (act_lift r) Q E"
  by (auto simp: triple_def act_lift_def split: sum.splits)

lemma triple_get: "(\<And>s. P s \<Longrightarrow> Q (f s) s) \<Longrightarrow> triple P (act_get f) Q E"
  by (simp add: triple_def act_get_def)

lemma triple_on_exception:
  "(\<And>s. P s \<Longrightarrow> E e s) \<Longrightarrow> triple P (h e) Q E \<Longrightarrow> triple P (on_exception h e) Q E"
  by (cases e) (simp_all add: on_exception_def triple_raise)

lemma triple_query:
  "(\<And>s x. P s \<Longrightarrow> f s = Inr x \<Longrightarrow> Q x s) \<Longrightarrow> (\<And>s e. P s \<Longrightarrow> f s = Inl e \<Longrightarrow> E e s) \<Longrightarrow> triple P (act_query f) Q E"
  by (auto simp: triple_def act_query_def split: sum.splits)

lemma triple_for:
  assumes "\<And>x b. x \<in> set xs \<Longrightarrow> triple (I b) (f x b) I E"
  shows "triple (I b) (act_for f xs b) I E"
  using assms
proof (induction xs arbitrary: b)
  case Nil
  show ?case unfolding act_for.simps by (rule triple_return)
next
  case (Cons x xs)
  have "triple (I c) (act_for f xs c) I E" for c
    by (rule Cons.IH, rule Cons.prems, simp)
  moreover have "triple (I b) (f x b) I E"
    by (rule Cons.prems, simp)
  ultimately show ?case unfolding act_for.simps
    by (rule triple_bind [rotated])
qed

section \<open>Invariants\<close>

definition keeps :: "('s \<Rightarrow> bool) \<Rightarrow> ('s, 'a) act \<Rightarrow> bool" where
  "keeps I m \<longleftrightarrow> (\<forall>s s' r. m s = (s', r) \<longrightarrow> I s \<longrightarrow> I s')"

lemma keepsI: "(\<And>s s' r. m s = (s', r) \<Longrightarrow> I s \<Longrightarrow> I s') \<Longrightarrow> keeps I m"
  by (auto simp: keeps_def)

lemma keepsD: "keeps I m \<Longrightarrow> m s = (s', r) \<Longrightarrow> I s \<Longrightarrow> I s'"
  by (auto simp: keeps_def)

lemma keeps_triple: "keeps I m \<longleftrightarrow> triple I m (\<lambda>_. I) (\<lambda>_. I)"
proof
  show "keeps I m \<Longrightarrow> triple I m (\<lambda>_. I) (\<lambda>_. I)"
    by (rule tripleI) (auto simp: keeps_def)
  assume t: "triple I m (\<lambda>_. I) (\<lambda>_. I)"
  show "keeps I m"
  proof (rule keepsI)
    fix s s' r assume "m s = (s', r)" "I s"
    with t show "I s'" by (cases r) (auto dest: triple_Inr triple_Inl)
  qed
qed

lemma keeps_bind [keeping]: "keeps I m \<Longrightarrow> (\<And>x. keeps I (f x)) \<Longrightarrow> keeps I (act_bind m f)"
  unfolding keeps_triple by (rule triple_bind)

lemma keeps_catch [keeping]: "keeps I m \<Longrightarrow> (\<And>e. keeps I (h e)) \<Longrightarrow> keeps I (act_catch m h)"
  unfolding keeps_triple by (rule triple_catch)

lemma keeps_basic [keeping, simp]:
  "keeps I (act_return x)" "keeps I (act_raise e)" "keeps I (act_lift r)" "keeps I (act_get f)"
  "keeps I (act_query q)"
  by (auto simp: keeps_def act_lift_def act_get_def act_query_def)

lemma keeps_on_exception [keeping]: "(\<And>e. keeps I (h e)) \<Longrightarrow> keeps I (on_exception h e)"
  by (cases e) (simp_all add: on_exception_def)

lemma keeps_if [keeping]: "(b \<Longrightarrow> keeps I m) \<Longrightarrow> (\<not> b \<Longrightarrow> keeps I n) \<Longrightarrow> keeps I (if b then m else n)"
  by simp

lemma keeps_option [keeping]:
  "(x = None \<Longrightarrow> keeps I m) \<Longrightarrow> (\<And>v. x = Some v \<Longrightarrow> keeps I (f v)) \<Longrightarrow> keeps I (case x of None \<Rightarrow> m | Some v \<Rightarrow> f v)"
  by (cases x) simp_all

lemma keeps_for [keeping]: "(\<And>x b. x \<in> set xs \<Longrightarrow> keeps I (f x b)) \<Longrightarrow> keeps I (act_for f xs b)"
  unfolding keeps_triple by (rule triple_for) simp

lemma keeps_transact:
  "(\<And>d d' x. I d \<Longrightarrow> t d = Inr (d', x) \<Longrightarrow> I d') \<Longrightarrow> keeps I (transact t)"
  by (auto simp: keeps_def transact_def split: sum.splits)

end
