(* ===== verification/Execution_Store.thy ===== *)
theory Execution_Store
  imports Actions Live_Recovery Protected_Execution Live_Option_Execution
    "HOL-Library.Sublist" "HOL-Library.List_Lexorder" "HOL-Library.Product_Lexorder" "HOL-Library.Char_ord"
begin

text \<open>
  \<open>infrastructure/persistence/sqlite_execution_store.py\<close>: the durable store of order intents,
  versioned snapshots, executions and recovery debts. A database is the rows of its tables in
  insertion order; an SQL statement maps a database to a database or raises; a method is a
  transaction of statements. Primary keys, UNIQUE columns and foreign keys are the checks the
  statements make before they write. A column holds its value: a \<open>Decimal\<close> or a time stamp and the
  text it is stored as are identified, and a request and its JSON text. Reading a snapshot runs its
  constructor again, as \<open>_snapshot_from_row\<close> does.

  The section on versions states the contract of an optimistically locked table once, as the locale
  \<open>versioned_table\<close>, and interprets it on the four snapshot tables.
\<close>

section \<open>Tables\<close>

record intent_row =
  in_request :: place_order_request
  in_persisted_at :: datetime
  in_exchange_order_id :: "string option"
  in_acknowledged_at :: "datetime option"

record execution_row =
  xr_execution :: execution_update
  xr_received_at :: datetime
  xr_payload_hash :: string

record database =
  db_intents :: "intent_row list"
  db_entries :: "entry_snapshot list"
  db_executions :: "execution_row list"
  db_protections :: "protection_snapshot list"
  db_spreads :: "spread_snapshot list"
  db_debts :: "recovery_debt_snapshot list"

definition empty_database :: database where
  "empty_database = \<lparr>db_intents = [], db_entries = [], db_executions = [], db_protections = [],
     db_spreads = [], db_debts = []\<rparr>"

text \<open>\<open>CREATE TABLE IF NOT EXISTS\<close>: a new file gets empty tables, an old one keeps its rows.\<close>

definition initialize_store :: "database option \<Rightarrow> database" where
  "initialize_store file = (case file of None \<Rightarrow> empty_database | Some db \<Rightarrow> db)"

definition intent_id :: "intent_row \<Rightarrow> string" where
  "intent_id r = po_order_link_id (in_request r)"

definition execution_id :: "execution_row \<Rightarrow> string" where
  "execution_id r = ex_execution_id (xr_execution r)"

definition find_row :: "('r \<Rightarrow> 'k) \<Rightarrow> 'r list \<Rightarrow> 'k \<Rightarrow> 'r option" where
  "find_row key rows k = find (\<lambda>r. key r = k) rows"

definition has_row :: "('r \<Rightarrow> 'k) \<Rightarrow> 'r list \<Rightarrow> 'k \<Rightarrow> bool" where
  "has_row key rows k = list_ex (\<lambda>r. key r = k) rows"

definition has_intent :: "database \<Rightarrow> string \<Rightarrow> bool" where
  "has_intent db link = has_row intent_id (db_intents db) link"

text \<open>\<open>UPDATE ... WHERE key = ? AND version = ?\<close> of all columns but the key.\<close>

definition write_version :: "('r \<Rightarrow> 'k) \<Rightarrow> ('r \<Rightarrow> int) \<Rightarrow> int \<Rightarrow> 'r \<Rightarrow> 'r list \<Rightarrow> 'r list" where
  "write_version key version previous s rows =
     map (\<lambda>r. if key r = key s \<and> version r = previous then s else r) rows"

definition update_version ::
    "('r \<Rightarrow> 'k) \<Rightarrow> ('r \<Rightarrow> int) \<Rightarrow> string \<Rightarrow> string \<Rightarrow> int \<Rightarrow> 'r \<Rightarrow> bool \<Rightarrow> 'r list \<Rightarrow> 'r list res" where
  "update_version key version kind what previous s violated rows =
     raise_when (version s \<noteq> previous + 1) (''new '' @ kind @ '' version must increment exactly once'')
    (raise_if (\<not> list_ex (\<lambda>r. key r = key s \<and> version r = previous) rows)
       (ConcurrentSnapshotUpdateError (what @ '' version changed before transaction commit''))
    (raise_if violated IntegrityError (Inr (write_version key version previous s rows))))"

text \<open>A UNIQUE column: no other row holds the value; NULL is never equal.\<close>

definition taken :: "('r \<Rightarrow> 'k) \<Rightarrow> ('r \<Rightarrow> 'c) \<Rightarrow> 'r \<Rightarrow> 'r list \<Rightarrow> bool" where
  "taken key col s rows = list_ex (\<lambda>r. key r \<noteq> key s \<and> col r = col s) rows"

definition taken_opt :: "('r \<Rightarrow> 'k) \<Rightarrow> ('r \<Rightarrow> 'c option) \<Rightarrow> 'r \<Rightarrow> 'r list \<Rightarrow> bool" where
  "taken_opt key col s rows = (col s \<noteq> None \<and> taken key col s rows)"

definition refers :: "database \<Rightarrow> string option \<Rightarrow> bool" where
  "refers db link = (case link of None \<Rightarrow> True | Some l \<Rightarrow> has_intent db l)"

section \<open>Statements\<close>

type_synonym statement = "database \<Rightarrow> database res"

definition insert_order_intent :: "place_order_request \<Rightarrow> datetime \<Rightarrow> statement" where
  "insert_order_intent r persisted_at db =
     raise_if (has_intent db (po_order_link_id r)) IntegrityError
       (Inr (db\<lparr>db_intents := db_intents db @ [\<lparr>in_request = r, in_persisted_at = persisted_at,
          in_exchange_order_id = None, in_acknowledged_at = None\<rparr>]\<rparr>))"

definition acknowledge_row :: "order_request_ack \<Rightarrow> intent_row \<Rightarrow> intent_row" where
  "acknowledge_row a r = (if intent_id r = ak_order_link_id a
     then r\<lparr>in_exchange_order_id := Some (ak_order_id a), in_acknowledged_at := Some (ak_acknowledged_at a)\<rparr> else r)"

definition acknowledge_intent :: "string \<Rightarrow> order_request_ack \<Rightarrow> statement" where
  "acknowledge_intent msg a db =
     raise_when (\<not> has_intent db (ak_order_link_id a)) msg
       (Inr (db\<lparr>db_intents := map (acknowledge_row a) (db_intents db)\<rparr>))"

definition insert_entry_snapshot :: "entry_snapshot \<Rightarrow> statement" where
  "insert_entry_snapshot s db =
     raise_if (has_row es_order_link_id (db_entries db) (es_order_link_id s)
         \<or> \<not> has_intent db (es_order_link_id s)) IntegrityError
       (Inr (db\<lparr>db_entries := db_entries db @ [s]\<rparr>))"

definition update_snapshot :: "int \<Rightarrow> entry_snapshot \<Rightarrow> statement" where
  "update_snapshot previous s db = r_bind
     (update_version es_order_link_id es_version ''snapshot'' ''entry snapshot'' previous s False (db_entries db))
     (\<lambda>rows. Inr (db\<lparr>db_entries := rows\<rparr>))"

definition protection_violated :: "protection_snapshot \<Rightarrow> database \<Rightarrow> bool" where
  "protection_violated s db \<longleftrightarrow>
     taken ps_entry_order_link_id ps_stop_order_link_id s (db_protections db)
     \<or> taken_opt ps_entry_order_link_id ps_tp_order_link_id s (db_protections db)
     \<or> \<not> has_intent db (ps_stop_order_link_id s) \<or> \<not> refers db (ps_tp_order_link_id s)"

definition insert_protection_snapshot :: "protection_snapshot \<Rightarrow> statement" where
  "insert_protection_snapshot s db =
     raise_if (has_row ps_entry_order_link_id (db_protections db) (ps_entry_order_link_id s)
         \<or> \<not> has_intent db (ps_entry_order_link_id s) \<or> protection_violated s db) IntegrityError
       (Inr (db\<lparr>db_protections := db_protections db @ [s]\<rparr>))"

definition update_protection_snapshot :: "int \<Rightarrow> protection_snapshot \<Rightarrow> statement" where
  "update_protection_snapshot previous s db = r_bind
     (update_version ps_entry_order_link_id ps_version ''protection'' ''protection snapshot'' previous s (protection_violated s db) (db_protections db))
     (\<lambda>rows. Inr (db\<lparr>db_protections := rows\<rparr>))"

definition spread_violated :: "spread_snapshot \<Rightarrow> database \<Rightarrow> bool" where
  "spread_violated s db \<longleftrightarrow>
     taken os_cycle_id os_long_order_link_id s (db_spreads db)
     \<or> taken_opt os_cycle_id os_short_order_link_id s (db_spreads db)
     \<or> \<not> has_intent db (os_long_order_link_id s) \<or> \<not> refers db (os_short_order_link_id s)"

definition insert_option_spread :: "spread_snapshot \<Rightarrow> statement" where
  "insert_option_spread s db =
     raise_if (has_row os_cycle_id (db_spreads db) (os_cycle_id s) \<or> spread_violated s db) IntegrityError
       (Inr (db\<lparr>db_spreads := db_spreads db @ [s]\<rparr>))"

definition update_option_spread_snapshot :: "int \<Rightarrow> spread_snapshot \<Rightarrow> statement" where
  "update_option_spread_snapshot previous s db = r_bind
     (update_version os_cycle_id os_version ''option snapshot'' ''option snapshot'' previous s (spread_violated s db) (db_spreads db))
     (\<lambda>rows. Inr (db\<lparr>db_spreads := rows\<rparr>))"

definition insert_recovery_debt :: "recovery_debt_snapshot \<Rightarrow> statement" where
  "insert_recovery_debt s db =
     raise_if (has_row rd_level_id (db_debts db) (rd_level_id s)) IntegrityError
       (Inr (db\<lparr>db_debts := db_debts db @ [s]\<rparr>))"

definition update_recovery_debt :: "int \<Rightarrow> recovery_debt_snapshot \<Rightarrow> statement" where
  "update_recovery_debt previous s db = r_bind
     (update_version rd_level_id rd_version ''debt'' ''recovery debt'' previous s False (db_debts db))
     (\<lambda>rows. Inr (db\<lparr>db_debts := rows\<rparr>))"

text \<open>\<open>INSERT OR IGNORE\<close>: a known execution is skipped before its foreign key is looked at.\<close>

definition insert_execution_if_new ::
    "execution_update \<Rightarrow> datetime \<Rightarrow> string \<Rightarrow> database \<Rightarrow> (database \<times> bool) res" where
  "insert_execution_if_new x received_at h db =
     (if has_row execution_id (db_executions db) (ex_execution_id x) then Inr (db, False)
      else raise_if (\<not> has_intent db (ex_order_link_id x)) IntegrityError
        (Inr (db\<lparr>db_executions := db_executions db @ [\<lparr>xr_execution = x, xr_received_at = received_at,
           xr_payload_hash = h\<rparr>]\<rparr>, True)))"

section \<open>Methods\<close>

definition commit :: "statement list \<Rightarrow> (database, unit) transaction" where
  "commit statements db = r_bind (r_foldl (\<lambda>d st. st d) db statements) (\<lambda>db'. Inr (db', ()))"

text \<open>An execution and the snapshot it changes are written together or not at all.\<close>

definition commit_execution :: "execution_update \<Rightarrow> datetime \<Rightarrow> string \<Rightarrow> statement \<Rightarrow> (database, bool) transaction" where
  "commit_execution x received_at h update db = r_bind (insert_execution_if_new x received_at h db)
     (\<lambda>(db1, inserted). if \<not> inserted then Inr (db1, False) else r_bind (update db1) (\<lambda>db2. Inr (db2, True)))"

definition lower_char :: "char \<Rightarrow> char" where
  "lower_char c = (if 65 \<le> (of_char c :: nat) \<and> (of_char c :: nat) \<le> 90 then char_of (of_char c + 32 :: nat) else c)"

definition lower :: "string \<Rightarrow> string" where
  "lower s = List.map lower_char s"

definition persist_order_intent_rows :: "place_order_request \<Rightarrow> datetime \<Rightarrow> (database, unit) transaction" where
  "persist_order_intent_rows r persisted_at =
     on_integrity_error ''order intent is already persisted'' (commit [insert_order_intent r persisted_at])"

definition persist_order_intent :: "place_order_request \<Rightarrow> datetime \<Rightarrow> (database, unit) act" where
  "persist_order_intent r persisted_at = transact (\<lambda>db.
     raise_naive persisted_at ''intent persistence time''
    (persist_order_intent_rows r persisted_at db))"

definition persist_entry_intent_rows :: "place_order_request \<Rightarrow> entry_snapshot \<Rightarrow> datetime \<Rightarrow> (database, unit) transaction" where
  "persist_entry_intent_rows r s persisted_at =
     on_integrity_error ''entry intent is already persisted''
       (commit [insert_order_intent r persisted_at, insert_entry_snapshot s])"

definition persist_entry_intent :: "place_order_request \<Rightarrow> entry_snapshot \<Rightarrow> datetime \<Rightarrow> (database, unit) act" where
  "persist_entry_intent r s persisted_at = transact (\<lambda>db.
     raise_when (po_order_link_id r \<noteq> es_order_link_id s) ''request and snapshot client IDs differ''
    (raise_naive persisted_at ''intent persistence time''
    (persist_entry_intent_rows r s persisted_at db)))"

definition persist_option_long_intent_rows :: "place_order_request \<Rightarrow> spread_snapshot \<Rightarrow> datetime \<Rightarrow> (database, unit) transaction" where
  "persist_option_long_intent_rows r s persisted_at =
     on_integrity_error ''option long intent is already persisted''
       (commit [insert_order_intent r persisted_at, insert_option_spread s])"

definition persist_option_long_intent :: "place_order_request \<Rightarrow> spread_snapshot \<Rightarrow> datetime \<Rightarrow> (database, unit) act" where
  "persist_option_long_intent r s persisted_at = transact (\<lambda>db.
     raise_naive persisted_at ''option intent persistence time''
    (persist_option_long_intent_rows r s persisted_at db))"

definition persist_option_short_intent_rows :: "int \<Rightarrow> place_order_request \<Rightarrow> spread_snapshot \<Rightarrow> datetime \<Rightarrow> (database, unit) transaction" where
  "persist_option_short_intent_rows previous r s persisted_at =
     on_integrity_error ''option short intent is already persisted''
       (commit [insert_order_intent r persisted_at, update_option_spread_snapshot previous s])"

definition persist_option_short_intent ::
    "int \<Rightarrow> place_order_request \<Rightarrow> spread_snapshot \<Rightarrow> datetime \<Rightarrow> (database, unit) act" where
  "persist_option_short_intent previous r s persisted_at = transact (\<lambda>db.
     raise_naive persisted_at ''option intent persistence time''
    (persist_option_short_intent_rows previous r s persisted_at db))"

definition persist_protection_intent_rows :: "place_order_request \<Rightarrow> protection_snapshot \<Rightarrow> datetime \<Rightarrow> (database, unit) transaction" where
  "persist_protection_intent_rows r s persisted_at =
     on_integrity_error ''protection intent is already persisted''
       (commit [insert_order_intent r persisted_at, insert_protection_snapshot s])"

definition persist_protection_intent :: "place_order_request \<Rightarrow> protection_snapshot \<Rightarrow> datetime \<Rightarrow> (database, unit) act" where
  "persist_protection_intent r s persisted_at = transact (\<lambda>db.
     raise_when (po_order_link_id r \<noteq> ps_stop_order_link_id s) ''request and stop snapshot client IDs differ''
    (raise_naive persisted_at ''protection persistence time''
    (persist_protection_intent_rows r s persisted_at db)))"

definition persist_take_profit_intent_rows :: "int \<Rightarrow> place_order_request \<Rightarrow> protection_snapshot \<Rightarrow> datetime \<Rightarrow> (database, unit) transaction" where
  "persist_take_profit_intent_rows previous r s persisted_at =
     on_integrity_error ''TP intent is already persisted''
       (commit [insert_order_intent r persisted_at, update_protection_snapshot previous s])"

definition persist_take_profit_intent ::
    "int \<Rightarrow> place_order_request \<Rightarrow> protection_snapshot \<Rightarrow> datetime \<Rightarrow> (database, unit) act" where
  "persist_take_profit_intent previous r s persisted_at = transact (\<lambda>db.
     raise_when (Some (po_order_link_id r) \<noteq> ps_tp_order_link_id s) ''request and TP snapshot client IDs differ''
    (raise_naive persisted_at ''TP persistence time''
    (persist_take_profit_intent_rows previous r s persisted_at db)))"

definition persist_replacement_stop_intent_rows :: "int \<Rightarrow> place_order_request \<Rightarrow> protection_snapshot \<Rightarrow> datetime \<Rightarrow> (database, unit) transaction" where
  "persist_replacement_stop_intent_rows previous r s persisted_at =
     on_integrity_error ''replacement stop intent is already persisted''
       (commit [insert_order_intent r persisted_at, update_protection_snapshot previous s])"

definition persist_replacement_stop_intent ::
    "int \<Rightarrow> place_order_request \<Rightarrow> protection_snapshot \<Rightarrow> datetime \<Rightarrow> (database, unit) act" where
  "persist_replacement_stop_intent previous r s persisted_at = transact (\<lambda>db.
     raise_when (po_order_link_id r \<noteq> ps_stop_order_link_id s) ''request and replacement stop client IDs differ''
    (raise_naive persisted_at ''replacement stop persistence time''
    (persist_replacement_stop_intent_rows previous r s persisted_at db)))"

definition persist_recovery_debt_snapshot :: "recovery_debt_snapshot \<Rightarrow> (database, unit) act" where
  "persist_recovery_debt_snapshot s = transact
     (on_integrity_error ''recovery debt snapshot already exists'' (commit [insert_recovery_debt s]))"

definition transition_entry_row :: "int \<Rightarrow> entry_snapshot \<Rightarrow> (database, unit) act" where
  "transition_entry_row previous s = transact (commit [update_snapshot previous s])"

definition transition_protection_snapshot :: "int \<Rightarrow> protection_snapshot \<Rightarrow> (database, unit) act" where
  "transition_protection_snapshot previous s = transact (commit [update_protection_snapshot previous s])"

definition transition_option_spread_snapshot :: "int \<Rightarrow> spread_snapshot \<Rightarrow> (database, unit) act" where
  "transition_option_spread_snapshot previous s = transact (commit [update_option_spread_snapshot previous s])"

definition transition_recovery_debt_snapshot :: "int \<Rightarrow> recovery_debt_snapshot \<Rightarrow> (database, unit) act" where
  "transition_recovery_debt_snapshot previous s = transact (commit [update_recovery_debt previous s])"

definition record_acknowledgement :: "order_request_ack \<Rightarrow> (database, unit) act" where
  "record_acknowledgement a = transact (commit [acknowledge_intent ''acknowledgement has no persisted intent'' a])"

definition record_acknowledgement_and_snapshot_rows :: "int \<Rightarrow> order_request_ack \<Rightarrow> entry_snapshot \<Rightarrow> (database, unit) transaction" where
  "record_acknowledgement_and_snapshot_rows previous a s =
     commit [acknowledge_intent ''acknowledgement has no persisted intent'' a, update_snapshot previous s]"

definition record_acknowledgement_and_snapshot :: "int \<Rightarrow> order_request_ack \<Rightarrow> entry_snapshot \<Rightarrow> (database, unit) act" where
  "record_acknowledgement_and_snapshot previous a s = transact (\<lambda>db.
     raise_when (ak_order_link_id a \<noteq> es_order_link_id s) ''acknowledgement and snapshot client IDs differ''
       (record_acknowledgement_and_snapshot_rows previous a s db))"

definition record_option_acknowledgement_and_snapshot :: "int \<Rightarrow> order_request_ack \<Rightarrow> spread_snapshot \<Rightarrow> (database, unit) act" where
  "record_option_acknowledgement_and_snapshot previous a s = transact
     (commit [acknowledge_intent ''option acknowledgement has no persisted intent'' a, update_option_spread_snapshot previous s])"

definition raise_bad_hash :: "string \<Rightarrow> 'a res \<Rightarrow> 'a res" where
  "raise_bad_hash h k = raise_when (\<not> payload_hash h) ''payload hash must be a SHA-256 hexadecimal digest'' k"

definition record_execution :: "execution_update \<Rightarrow> datetime \<Rightarrow> string \<Rightarrow> (database, bool) act" where
  "record_execution x received_at h = transact (\<lambda>db.
     raise_naive received_at ''execution receive time'' (raise_bad_hash h
       (insert_execution_if_new x received_at (lower h) db)))"

definition record_execution_and_snapshot_rows :: "int \<Rightarrow> execution_update \<Rightarrow> datetime \<Rightarrow> string \<Rightarrow> entry_snapshot \<Rightarrow> (database, bool) transaction" where
  "record_execution_and_snapshot_rows previous x received_at h s =
     commit_execution x received_at h (update_snapshot previous s)"

definition record_execution_and_snapshot ::
    "int \<Rightarrow> execution_update \<Rightarrow> datetime \<Rightarrow> string \<Rightarrow> entry_snapshot \<Rightarrow> (database, bool) act" where
  "record_execution_and_snapshot previous x received_at h s = transact (\<lambda>db.
     raise_when (ex_order_link_id x \<noteq> es_order_link_id s) ''execution and snapshot client IDs differ''
    (raise_naive received_at ''execution receive time'' (raise_bad_hash h
       (record_execution_and_snapshot_rows previous x received_at (lower h) s db))))"

definition record_exit_execution_and_snapshot_rows :: "int \<Rightarrow> execution_update \<Rightarrow> datetime \<Rightarrow> string \<Rightarrow> protection_snapshot \<Rightarrow> (database, bool) transaction" where
  "record_exit_execution_and_snapshot_rows previous x received_at h s =
     commit_execution x received_at h (update_protection_snapshot previous s)"

definition record_exit_execution_and_snapshot ::
    "int \<Rightarrow> execution_update \<Rightarrow> datetime \<Rightarrow> string \<Rightarrow> protection_snapshot \<Rightarrow> (database, bool) act" where
  "record_exit_execution_and_snapshot previous x received_at h s = transact (\<lambda>db.
     raise_naive received_at ''execution receive time'' (raise_bad_hash h
       (record_exit_execution_and_snapshot_rows previous x received_at (lower h) s db)))"

definition record_option_execution_and_snapshot_rows :: "int \<Rightarrow> execution_update \<Rightarrow> datetime \<Rightarrow> string \<Rightarrow> spread_snapshot \<Rightarrow> (database, bool) transaction" where
  "record_option_execution_and_snapshot_rows previous x received_at h s =
     commit_execution x received_at h (update_option_spread_snapshot previous s)"

definition record_option_execution_and_snapshot ::
    "int \<Rightarrow> execution_update \<Rightarrow> datetime \<Rightarrow> string \<Rightarrow> spread_snapshot \<Rightarrow> (database, bool) act" where
  "record_option_execution_and_snapshot previous x received_at h s = transact (\<lambda>db.
     raise_naive received_at ''option execution receive time'' (raise_bad_hash h
       (record_option_execution_and_snapshot_rows previous x received_at (lower h) s db)))"

section \<open>Queries\<close>

text \<open>A row is read column by column into the constructor of its object.\<close>

definition snapshot_from_row :: "entry_snapshot \<Rightarrow> entry_snapshot res" where
  "snapshot_from_row r = mk_entry_snapshot \<lparr>
     es_order_link_id = es_order_link_id r, es_state = es_state r, es_target_quantity = es_target_quantity r,
     es_entry_order_id = es_entry_order_id r, es_filled_quantity = es_filled_quantity r,
     es_entry_notional = es_entry_notional r, es_entry_fees = es_entry_fees r, es_version = es_version r,
     es_updated_at = es_updated_at r\<rparr>"

lemma snapshot_from_row [simp]: "snapshot_from_row r = mk_entry_snapshot r"
  by (cases r) (simp add: snapshot_from_row_def)

definition protection_from_row :: "protection_snapshot \<Rightarrow> protection_snapshot res" where
  "protection_from_row r = mk_protection_snapshot \<lparr>
     ps_entry_order_link_id = ps_entry_order_link_id r, ps_state = ps_state r,
     ps_entry_quantity = ps_entry_quantity r, ps_open_quantity = ps_open_quantity r,
     ps_average_entry_price = ps_average_entry_price r, ps_entry_fees = ps_entry_fees r,
     ps_stop_order_link_id = ps_stop_order_link_id r, ps_stop_order_id = ps_stop_order_id r,
     ps_stop_trigger_price = ps_stop_trigger_price r, ps_tp_order_link_id = ps_tp_order_link_id r,
     ps_tp_order_id = ps_tp_order_id r, ps_tp_price = ps_tp_price r,
     ps_tp_filled_quantity = ps_tp_filled_quantity r, ps_stop_filled_quantity = ps_stop_filled_quantity r,
     ps_exit_notional = ps_exit_notional r, ps_exit_fees = ps_exit_fees r,
     ps_confirmed_recovery_debt = ps_confirmed_recovery_debt r,
     ps_pending_terminal_state = ps_pending_terminal_state r, ps_version = ps_version r,
     ps_updated_at = ps_updated_at r\<rparr>"

lemma protection_from_row [simp]: "protection_from_row r = mk_protection_snapshot r"
  by (cases r) (simp add: protection_from_row_def)

definition option_spread_from_row :: "spread_snapshot \<Rightarrow> spread_snapshot res" where
  "option_spread_from_row r = mk_spread_snapshot \<lparr>
     os_cycle_id = os_cycle_id r, os_state = os_state r, os_long_symbol = os_long_symbol r,
     os_short_symbol = os_short_symbol r, os_expiry_time_utc = os_expiry_time_utc r,
     os_requested_quantity = os_requested_quantity r, os_expected_net_credit = os_expected_net_credit r,
     os_long_order_link_id = os_long_order_link_id r, os_short_order_link_id = os_short_order_link_id r,
     os_long_order_id = os_long_order_id r, os_short_order_id = os_short_order_id r,
     os_long_filled_quantity = os_long_filled_quantity r,
     os_short_filled_quantity = os_short_filled_quantity r, os_long_notional = os_long_notional r,
     os_short_notional = os_short_notional r, os_long_fees = os_long_fees r, os_short_fees = os_short_fees r,
     os_opened_time_utc = os_opened_time_utc r, os_version = os_version r, os_updated_at = os_updated_at r\<rparr>"

lemma option_spread_from_row [simp]: "option_spread_from_row r = mk_spread_snapshot r"
  by (cases r) (simp add: option_spread_from_row_def)

definition execution_from_row :: "execution_row \<Rightarrow> execution_update res" where
  "execution_from_row r = mk_execution_update \<lparr>
     ex_execution_id = ex_execution_id (xr_execution r), ex_order_id = ex_order_id (xr_execution r),
     ex_order_link_id = ex_order_link_id (xr_execution r), ex_symbol = ex_symbol (xr_execution r),
     ex_side = ex_side (xr_execution r), ex_price = ex_price (xr_execution r),
     ex_quantity = ex_quantity (xr_execution r), ex_fee = ex_fee (xr_execution r),
     ex_is_maker = ex_is_maker (xr_execution r), ex_executed_at = ex_executed_at (xr_execution r)\<rparr>"

lemma execution_from_row [simp]: "execution_from_row r = mk_execution_update (xr_execution r)"
  by (cases "xr_execution r") (simp add: execution_from_row_def)

definition fetch_one :: "('r \<Rightarrow> 'a res) \<Rightarrow> 'r option \<Rightarrow> 'a option res" where
  "fetch_one from_row row = (case row of None \<Rightarrow> Inr None | Some r \<Rightarrow> r_bind (from_row r) (\<lambda>x. Inr (Some x)))"

definition load_order_intent :: "string \<Rightarrow> (database, place_order_request option) act" where
  "load_order_intent link = act_query (\<lambda>db.
     fetch_one (\<lambda>r. mk_place_order_request (in_request r)) (find_row intent_id (db_intents db) link))"

definition load_all_order_intents :: "(database, place_order_request list) act" where
  "load_all_order_intents = act_query (\<lambda>db. r_map (\<lambda>r. mk_place_order_request (in_request r))
     (sort_key (\<lambda>r. (instant (in_persisted_at r), intent_id r)) (db_intents db)))"

definition load_entry_snapshot :: "string \<Rightarrow> (database, entry_snapshot option) act" where
  "load_entry_snapshot link = act_query (\<lambda>db.
     fetch_one snapshot_from_row (find_row es_order_link_id (db_entries db) link))"

definition load_all_entry_snapshots :: "(database, entry_snapshot list) act" where
  "load_all_entry_snapshots = act_query (\<lambda>db. r_map snapshot_from_row (sort_key es_order_link_id (db_entries db)))"

definition load_protection_snapshot :: "string \<Rightarrow> (database, protection_snapshot option) act" where
  "load_protection_snapshot link = act_query (\<lambda>db.
     fetch_one protection_from_row (find_row ps_entry_order_link_id (db_protections db) link))"

definition load_protection_snapshot_by_exit_id :: "string \<Rightarrow> (database, protection_snapshot option) act" where
  "load_protection_snapshot_by_exit_id link = act_query (\<lambda>db. fetch_one protection_from_row
     (find (\<lambda>s. ps_stop_order_link_id s = link \<or> ps_tp_order_link_id s = Some link) (db_protections db)))"

definition load_all_protection_snapshots :: "(database, protection_snapshot list) act" where
  "load_all_protection_snapshots = act_query (\<lambda>db.
     r_map protection_from_row (sort_key ps_entry_order_link_id (db_protections db)))"

definition load_option_spread_snapshot :: "string \<Rightarrow> (database, spread_snapshot option) act" where
  "load_option_spread_snapshot cycle_id = act_query (\<lambda>db.
     fetch_one option_spread_from_row (find_row os_cycle_id (db_spreads db) cycle_id))"

definition load_all_option_spread_snapshots :: "(database, spread_snapshot list) act" where
  "load_all_option_spread_snapshots = act_query (\<lambda>db. r_map option_spread_from_row (sort_key os_cycle_id (db_spreads db)))"

definition recovery_debt_from_row :: "recovery_debt_snapshot \<Rightarrow> recovery_debt_snapshot res" where
  "recovery_debt_from_row s = r_bind (mk_recovery_debt_state (rd_debt s)) (\<lambda>d. mk_recovery_debt_snapshot (s\<lparr>rd_debt := d\<rparr>))"

definition load_recovery_debt_snapshot :: "int \<Rightarrow> (database, recovery_debt_snapshot option) act" where
  "load_recovery_debt_snapshot lv = act_query (\<lambda>db.
     fetch_one recovery_debt_from_row (find_row rd_level_id (db_debts db) lv))"

definition has_execution :: "string \<Rightarrow> (database, bool) act" where
  "has_execution i = act_get (\<lambda>db. has_row execution_id (db_executions db) i)"

definition load_all_executions :: "(database, execution_update list) act" where
  "load_all_executions = act_query (\<lambda>db. r_map execution_from_row
     (sort_key (\<lambda>r. (instant (ex_executed_at (xr_execution r)), execution_id r)) (db_executions db)))"

definition execution_count :: "(database, nat) act" where
  "execution_count = act_get (\<lambda>db. length (db_executions db))"

section \<open>Rows\<close>

lemma has_row_iff [simp]: "has_row key rows k \<longleftrightarrow> k \<in> key ` set rows"
  by (auto simp: has_row_def list_ex_iff)

lemma find_row_SomeD: "find_row key rows k = Some r \<Longrightarrow> r \<in> set rows \<and> key r = k"
  by (auto simp: find_row_def find_Some_iff in_set_conv_nth)

lemma find_row_None_iff: "find_row key rows k = None \<longleftrightarrow> k \<notin> key ` set rows"
  by (auto simp: find_row_def find_None_iff)

lemma find_row_Cons [simp]: "find_row key (r # rows) k = (if key r = k then Some r else find_row key rows k)"
  "find_row key [] k = None"
  by (simp_all add: find_row_def)

lemma find_row_append:
  "find_row key (rows @ [r]) k = (case find_row key rows k of Some r' \<Rightarrow> Some r' | None \<Rightarrow> if key r = k then Some r else None)"
  by (induction rows) simp_all

lemma find_row_iff: "distinct (map key rows) \<Longrightarrow> find_row key rows k = Some r \<longleftrightarrow> r \<in> set rows \<and> key r = k"
  by (induction rows) auto

lemma keys_write_version [simp]: "map key (write_version key version v s rows) = map key rows"
  by (simp add: write_version_def)

lemma keys_write_version_set: "key ` set (write_version key version v s rows) = key ` set rows"
  by (metis keys_write_version list.set_map)

lemma set_write_version: "r \<in> set (write_version key version v s rows) \<Longrightarrow> r \<in> set rows \<or> r = s"
  by (auto simp: write_version_def)

lemma find_write_version_other:
  "k \<noteq> key s \<Longrightarrow> find_row key (write_version key version v s rows) k = find_row key rows k"
  by (induction rows) (simp_all add: write_version_def)

lemma find_write_version:
  assumes "distinct (map key rows)" "r \<in> set rows" "key r = key s" "version r = v"
  shows "find_row key (write_version key version v s rows) = (find_row key rows)(key s \<mapsto> s)"
proof
  fix k
  have "s \<in> set (write_version key version v s rows)"
    using assms(2-4) by (force simp: write_version_def)
  then have "find_row key (write_version key version v s rows) (key s) = Some s"
    using assms(1) by (simp add: find_row_iff)
  then show "find_row key (write_version key version v s rows) k = ((find_row key rows)(key s \<mapsto> s)) k"
    using find_write_version_other [of k key s] by (cases "k = key s") simp_all
qed

text \<open>What an UPDATE returns, and when it finds the version changed.\<close>

lemma update_version_Inr:
  "update_version key version kind what v s violated rows = Inr rows'
   \<longleftrightarrow> version s = v + 1 \<and> (\<exists>r \<in> set rows. key r = key s \<and> version r = v) \<and> \<not> violated
     \<and> rows' = write_version key version v s rows"
  by (auto simp: update_version_def list_ex_iff)

lemma update_version_stale:
  assumes "distinct (map key rows)" "find_row key rows (key s) = Some old" "version old \<noteq> v" "version s = v + 1"
  shows "update_version key version kind what v s violated rows
    = Inl (ConcurrentSnapshotUpdateError (what @ '' version changed before transaction commit''))"
proof -
  have "\<not> list_ex (\<lambda>r. key r = key s \<and> version r = v) rows"
  proof
    assume "list_ex (\<lambda>r. key r = key s \<and> version r = v) rows"
    then obtain r where "r \<in> set rows" "key r = key s" "version r = v" by (auto simp: list_ex_iff)
    with assms(1) have "find_row key rows (key s) = Some r" by (simp add: find_row_iff)
    with assms(2,3) \<open>version r = v\<close> show False by simp
  qed
  then show ?thesis using assms(4) by (simp add: update_version_def)
qed

text \<open>A UNIQUE column: two rows that share a value are the same row. It stays unique when the value
  written is not taken.\<close>

definition unique_col :: "('r \<Rightarrow> 'k) \<Rightarrow> ('r \<Rightarrow> 'c option) \<Rightarrow> 'r list \<Rightarrow> bool" where
  "unique_col key col rows \<longleftrightarrow> 
     (\<forall>v. \<forall>r \<in> set rows. \<forall>r' \<in> set rows. col r = Some v \<and> col r' = Some v \<longrightarrow> key r = key r')"

lemma unique_col_grow:
  assumes "unique_col key col rows" "\<not> taken_opt key col s rows" "set rows' \<subseteq> insert s (set rows)"
  shows "unique_col key col rows'"
  unfolding unique_col_def
proof (intro allI ballI impI)
  fix v r r' assume r: "r \<in> set rows'" "r' \<in> set rows'" and v: "col r = Some v \<and> col r' = Some v"
  have free: "key x = key s" if "x \<in> set rows" "col x = Some v" "col s = Some v" for x
    using assms(2) that by (auto simp: taken_opt_def taken_def list_ex_iff)
  have old: "key x = key y" if "x \<in> set rows" "y \<in> set rows" "col x = Some v" "col y = Some v" for x y
    using assms(1) that unfolding unique_col_def by blast
  consider "r = s" "r' = s" | "r = s" "r' \<in> set rows" | "r \<in> set rows" "r' = s" | "r \<in> set rows" "r' \<in> set rows"
    using r assms(3) by blast
  then show "key r = key r'"
    using v free [of r] free [of r'] old [of r r'] by cases simp_all
qed

lemma set_write_version_subset: "set (write_version key version v s rows) \<subseteq> insert s (set rows)"
  using set_write_version by fastforce

lemmas unique_col_write = unique_col_grow [OF _ _ set_write_version_subset]

lemma unique_col_insert:
  "unique_col key col rows \<Longrightarrow> \<not> taken_opt key col s rows \<Longrightarrow> unique_col key col (rows @ [s])"
  by (rule unique_col_grow) auto

lemma taken_Some: "taken key (\<lambda>r. Some (col r)) s rows = taken key col s rows"
  by (simp add: taken_def)

lemma taken_opt_Some: "taken_opt key (\<lambda>r. Some (col r)) s rows = taken key col s rows"
  by (simp add: taken_opt_def taken_Some)

section \<open>Versions\<close>

text \<open>Later contents of a table against earlier ones: a key stays, and its snapshot is the same or newer.\<close>

definition advances :: "('s \<Rightarrow> int) \<Rightarrow> ('k \<Rightarrow> 's option) \<Rightarrow> ('k \<Rightarrow> 's option) \<Rightarrow> bool" where
  "advances version f f' \<longleftrightarrow> (\<forall>k s. f k = Some s \<longrightarrow> (\<exists>s'. f' k = Some s' \<and> (s' = s \<or> version s < version s')))"

lemma advances_refl [simp]: "advances version f f"
  by (simp add: advances_def)

lemma advances_trans: "advances version f g \<Longrightarrow> advances version g h \<Longrightarrow> advances version f h"
  unfolding advances_def by (metis order_less_trans)

lemma advances_newer:
  assumes "advances version f g" "\<exists>s'. f k = Some s' \<and> (s' = s \<or> version s < version s')"
  shows "\<exists>s'. g k = Some s' \<and> (s' = s \<or> version s < version s')"
proof -
  from assms(2) obtain s1 where 1: "f k = Some s1" "s1 = s \<or> version s < version s1" by blast
  with assms(1) obtain s2 where "g k = Some s2" "s2 = s1 \<or> version s1 < version s2"
    unfolding advances_def by blast
  with 1(2) show ?thesis by auto
qed

lemma advances_at_least:
  assumes "advances version f g" "\<exists>s. f k = Some s \<and> n \<le> version s"
  shows "\<exists>s. g k = Some s \<and> n \<le> version s"
  using assms unfolding advances_def by fastforce

text \<open>The contract of a table with optimistic locking: an update goes through exactly if it was
  computed from the version stored, and then it is stored; one that is not raises.\<close>

locale versioned_table =
  fixes lookup :: "'d \<Rightarrow> 'k \<Rightarrow> 's option"
    and save :: "int \<Rightarrow> 's \<Rightarrow> 'd \<Rightarrow> 'd res"
    and key :: "'s \<Rightarrow> 'k"
    and version :: "'s \<Rightarrow> int"
    and sound :: "'d \<Rightarrow> bool"
  assumes save_reads: "sound d \<Longrightarrow> save v s d = Inr d' \<Longrightarrow>
      version s = v + 1 \<and> (\<exists>old. lookup d (key s) = Some old \<and> version old = v)"
    and save_writes: "sound d \<Longrightarrow> save v s d = Inr d' \<Longrightarrow> lookup d' = (lookup d)(key s \<mapsto> s)"
    and save_stale: "sound d \<Longrightarrow> version s = v + 1 \<Longrightarrow> lookup d (key s) = Some old \<Longrightarrow> version old \<noteq> v
      \<Longrightarrow> \<exists>m. save v s d = Inl (ConcurrentSnapshotUpdateError m)"
begin

lemma save_advances: "sound d \<Longrightarrow> save v s d = Inr d' \<Longrightarrow> advances version (lookup d) (lookup d')"
  using save_reads save_writes by (fastforce simp: advances_def)

text \<open>Of two writers that read the same version, the second one to write fails, whatever happened in
  between.\<close>

lemma second_writer_fails:
  assumes "sound d" "save v s d = Inr d1" "advances version (lookup d1) (lookup d2)" "sound d2"
    and "key s' = key s" "version s' = v + 1"
  shows "\<exists>m. save v s' d2 = Inl (ConcurrentSnapshotUpdateError m)"
proof -
  have v: "version s = v + 1" and s: "lookup d1 (key s) = Some s"
    using save_reads [OF assms(1,2)] save_writes [OF assms(1,2)] by auto
  then obtain s2 where "lookup d2 (key s) = Some s2" "version s2 \<noteq> v"
    using assms(3) unfolding advances_def by force
  with assms show ?thesis by (metis save_stale)
qed

lemma second_writer_raises:
  assumes "sound d" "save v s d = Inr d1" "advances version (lookup d1) (lookup d2)" "sound d2" "key s' = key s"
  shows "\<exists>x. save v s' d2 = Inl x"
proof (cases "save v s' d2")
  case (Inr d3)
  then have "version s' = v + 1" using save_reads [OF assms(4)] by blast
  then show ?thesis using second_writer_fails [OF assms] by blast
qed simp

end

text \<open>A table that rows are also inserted into, under a fresh key.\<close>

locale versioned_store = versioned_table lookup save key version sound
  for lookup :: "'d \<Rightarrow> 'k \<Rightarrow> 's option" and save key version sound +
  fixes add :: "'s \<Rightarrow> 'd \<Rightarrow> 'd res"
  assumes add_fresh: "sound d \<Longrightarrow> add s d = Inr d' \<Longrightarrow> lookup d (key s) = None"
    and add_writes: "sound d \<Longrightarrow> add s d = Inr d' \<Longrightarrow> lookup d' = (lookup d)(key s \<mapsto> s)"
begin

lemma add_advances: "sound d \<Longrightarrow> add s d = Inr d' \<Longrightarrow> advances version (lookup d) (lookup d')"
  using add_fresh add_writes by (fastforce simp: advances_def)

text \<open>What was added last is found, and nothing else changed.\<close>

lemma add_then_lookup: "sound d \<Longrightarrow> add s d = Inr d' \<Longrightarrow> lookup d' (key s) = Some s"
  using add_writes by simp

end

section \<open>Integrity\<close>

abbreviation intent_of :: "database \<Rightarrow> string \<Rightarrow> intent_row option" where
  "intent_of db \<equiv> find_row intent_id (db_intents db)"

abbreviation entry_of :: "database \<Rightarrow> string \<Rightarrow> entry_snapshot option" where
  "entry_of db \<equiv> find_row es_order_link_id (db_entries db)"

abbreviation protection_of :: "database \<Rightarrow> string \<Rightarrow> protection_snapshot option" where
  "protection_of db \<equiv> find_row ps_entry_order_link_id (db_protections db)"

abbreviation spread_of :: "database \<Rightarrow> string \<Rightarrow> spread_snapshot option" where
  "spread_of db \<equiv> find_row os_cycle_id (db_spreads db)"

abbreviation debt_of :: "database \<Rightarrow> int \<Rightarrow> recovery_debt_snapshot option" where
  "debt_of db \<equiv> find_row rd_level_id (db_debts db)"

definition primary_keys :: "database \<Rightarrow> bool" where
  "primary_keys db \<longleftrightarrow> distinct (map intent_id (db_intents db)) \<and> distinct (map es_order_link_id (db_entries db))
     \<and> distinct (map execution_id (db_executions db)) \<and> distinct (map ps_entry_order_link_id (db_protections db))
     \<and> distinct (map os_cycle_id (db_spreads db)) \<and> distinct (map rd_level_id (db_debts db))"

definition unique_columns :: "database \<Rightarrow> bool" where
  "unique_columns db \<longleftrightarrow>
     unique_col ps_entry_order_link_id (\<lambda>s. Some (ps_stop_order_link_id s)) (db_protections db)
     \<and> unique_col ps_entry_order_link_id ps_tp_order_link_id (db_protections db)
     \<and> unique_col os_cycle_id (\<lambda>s. Some (os_long_order_link_id s)) (db_spreads db)
     \<and> unique_col os_cycle_id os_short_order_link_id (db_spreads db)"

definition references :: "database \<Rightarrow> bool" where
  "references db \<longleftrightarrow> (\<forall>s \<in> set (db_entries db). has_intent db (es_order_link_id s))
     \<and> (\<forall>x \<in> set (db_executions db). has_intent db (ex_order_link_id (xr_execution x)))
     \<and> (\<forall>s \<in> set (db_protections db). has_intent db (ps_entry_order_link_id s)
          \<and> has_intent db (ps_stop_order_link_id s) \<and> refers db (ps_tp_order_link_id s))
     \<and> (\<forall>s \<in> set (db_spreads db). has_intent db (os_long_order_link_id s) \<and> refers db (os_short_order_link_id s))"

definition store_ok :: "database \<Rightarrow> bool" where
  "store_ok db \<longleftrightarrow> primary_keys db \<and> unique_columns db \<and> references db"

text \<open>How a later database compares with an earlier one.\<close>

definition intents_kept :: "database \<Rightarrow> database \<Rightarrow> bool" where
  "intents_kept db db' \<longleftrightarrow> (\<forall>l r. intent_of db l = Some r \<longrightarrow>
     (\<exists>r'. intent_of db' l = Some r' \<and> in_request r' = in_request r \<and> in_persisted_at r' = in_persisted_at r))"

definition evolves :: "database \<Rightarrow> database \<Rightarrow> bool" where
  "evolves db db' \<longleftrightarrow> intents_kept db db' \<and> prefix (db_executions db) (db_executions db')
     \<and> advances es_version (entry_of db) (entry_of db') \<and> advances ps_version (protection_of db) (protection_of db')
     \<and> advances os_version (spread_of db) (spread_of db') \<and> advances rd_version (debt_of db) (debt_of db')"

lemma has_intent_iff [simp]: "has_intent db l \<longleftrightarrow> l \<in> intent_id ` set (db_intents db)"
  by (simp add: has_intent_def)

lemma intents_kept_refl [simp]: "db_intents db' = db_intents db \<Longrightarrow> intents_kept db db'"
  by (simp add: intents_kept_def)

lemma evolves_refl [simp]: "evolves db db"
  by (simp add: evolves_def)

lemma intents_kept_trans: "intents_kept a b \<Longrightarrow> intents_kept b c \<Longrightarrow> intents_kept a c"
  unfolding intents_kept_def by metis

lemma evolves_trans: "evolves a b \<Longrightarrow> evolves b c \<Longrightarrow> evolves a c"
  unfolding evolves_def by (blast intro: intents_kept_trans prefix_order.trans advances_trans)

lemma store_ok_empty [simp]: "store_ok empty_database"
  by (simp add: store_ok_def primary_keys_def unique_columns_def unique_col_def references_def empty_database_def)

lemma store_ok_keys:
  "store_ok db \<Longrightarrow> distinct (map intent_id (db_intents db))" "store_ok db \<Longrightarrow> distinct (map es_order_link_id (db_entries db))"
  "store_ok db \<Longrightarrow> distinct (map ps_entry_order_link_id (db_protections db))"
  "store_ok db \<Longrightarrow> distinct (map os_cycle_id (db_spreads db))" "store_ok db \<Longrightarrow> distinct (map rd_level_id (db_debts db))"
  "store_ok db \<Longrightarrow> distinct (map execution_id (db_executions db))"
  by (simp_all add: store_ok_def primary_keys_def)

lemma refers_mono: "refers db l \<Longrightarrow> intent_id ` set (db_intents db) \<subseteq> intent_id ` set (db_intents db') \<Longrightarrow> refers db' l"
  by (auto simp: refers_def split: option.splits)

text \<open>The four tables meet the contract of optimistic locking.\<close>

lemmas update_defs = update_snapshot_def update_protection_snapshot_def update_option_spread_snapshot_def
  update_recovery_debt_def

lemma save_row_facts:
  assumes "distinct (map key rows)" "update_version key version kind what v s violated rows = Inr rows'"
  shows "version s = v + 1" "\<exists>old. find_row key rows (key s) = Some old \<and> version old = v"
    "find_row key rows' = (find_row key rows)(key s \<mapsto> s)"
proof -
  from assms(2) obtain r where u: "version s = v + 1" "r \<in> set rows" "key r = key s" "version r = v"
      "rows' = write_version key version v s rows"
    by (auto simp: update_version_Inr)
  from u(2,3) assms(1) have "find_row key rows (key s) = Some r" by (simp add: find_row_iff)
  with u find_write_version [where key = key and version = version and v = v and s = s, OF assms(1) u(2-4)]
  show "version s = v + 1" "\<exists>old. find_row key rows (key s) = Some old \<and> version old = v"
    "find_row key rows' = (find_row key rows)(key s \<mapsto> s)" by simp_all
qed

lemma save_row_stale:
  assumes "distinct (map key rows)" "version s = v + 1" "find_row key rows (key s) = Some old" "version old \<noteq> v"
  shows "\<exists>m. r_bind (update_version key version kind what v s violated rows) f = Inl (ConcurrentSnapshotUpdateError m)"
  using update_version_stale [OF assms(1,3,4,2)] by simp

lemma add_row_facts:
  assumes "\<not> has_row key rows (key s)"
  shows "find_row key rows (key s) = None" "find_row key (rows @ [s]) = (find_row key rows)(key s \<mapsto> s)"
proof -
  show none: "find_row key rows (key s) = None"
    using assms by (simp add: find_row_None_iff)
  show "find_row key (rows @ [s]) = (find_row key rows)(key s \<mapsto> s)"
  proof
    fix k show "find_row key (rows @ [s]) k = ((find_row key rows)(key s \<mapsto> s)) k"
      using none by (cases "find_row key rows k") (auto simp: find_row_append)
  qed
qed

interpretation entries: versioned_store entry_of update_snapshot es_order_link_id es_version store_ok insert_entry_snapshot
  by unfold_locales (auto simp: update_defs insert_entry_snapshot_def has_row_iff [symmetric] simp del: has_row_iff
    dest: save_row_facts [OF store_ok_keys(2)] add_row_facts intro: save_row_stale [OF store_ok_keys(2)])

interpretation protections: versioned_store protection_of update_protection_snapshot ps_entry_order_link_id ps_version
    store_ok insert_protection_snapshot
  by unfold_locales (auto simp: update_defs insert_protection_snapshot_def has_row_iff [symmetric] simp del: has_row_iff
    dest: save_row_facts [OF store_ok_keys(3)] add_row_facts intro: save_row_stale [OF store_ok_keys(3)])

interpretation spreads: versioned_store spread_of update_option_spread_snapshot os_cycle_id os_version
    store_ok insert_option_spread
  by unfold_locales (auto simp: update_defs insert_option_spread_def has_row_iff [symmetric] simp del: has_row_iff
    dest: save_row_facts [OF store_ok_keys(4)] add_row_facts intro: save_row_stale [OF store_ok_keys(4)])

interpretation debts: versioned_store debt_of update_recovery_debt rd_level_id rd_version store_ok insert_recovery_debt
  by unfold_locales (auto simp: update_defs insert_recovery_debt_def has_row_iff [symmetric] simp del: has_row_iff
    dest: save_row_facts [OF store_ok_keys(5)] add_row_facts intro: save_row_stale [OF store_ok_keys(5)])

section \<open>Every method keeps the store sound\<close>

definition sound_statement :: "statement \<Rightarrow> bool" where
  "sound_statement st \<longleftrightarrow> (\<forall>db db'. store_ok db \<longrightarrow> st db = Inr db' \<longrightarrow> store_ok db' \<and> evolves db db')"

lemma refers_simps [simp]:
  "refers (db\<lparr>db_entries := a\<rparr>) = refers db" "refers (db\<lparr>db_executions := b\<rparr>) = refers db"
  "refers (db\<lparr>db_protections := c\<rparr>) = refers db" "refers (db\<lparr>db_spreads := d\<rparr>) = refers db"
  "refers (db\<lparr>db_debts := e\<rparr>) = refers db"
  by (auto simp: refers_def fun_eq_iff split: option.splits)

lemmas store_defs = store_ok_def primary_keys_def unique_columns_def references_def

lemma sound_insert_intent: "sound_statement (insert_order_intent r t)"
proof (unfold sound_statement_def, intro allI impI)
  fix db db' assume ok: "store_ok db" and st: "insert_order_intent r t db = Inr db'"
  then have new: "po_order_link_id r \<notin> intent_id ` set (db_intents db)"
    and db': "db' = db\<lparr>db_intents := db_intents db @ [\<lparr>in_request = r, in_persisted_at = t,
          in_exchange_order_id = None, in_acknowledged_at = None\<rparr>]\<rparr>"
    by (simp_all add: insert_order_intent_def)
  have sub: "intent_id ` set (db_intents db) \<subseteq> intent_id ` set (db_intents db')" by (auto simp: db')
  have "store_ok db'"
    using ok new sub unfolding store_defs
    by (auto simp: db' intent_id_def image_Un intro: refers_mono [OF _ sub, unfolded db'])
  moreover have "intents_kept db db'"
    by (auto simp: intents_kept_def db' find_row_append)
  ultimately show "store_ok db' \<and> evolves db db'"
    by (simp add: evolves_def db')
qed

lemma intent_id_acknowledge [simp]: "intent_id (acknowledge_row a r) = intent_id r"
  by (simp add: acknowledge_row_def intent_id_def)

lemma intent_id_comp_acknowledge [simp]: "intent_id \<circ> acknowledge_row a = intent_id"
  by (simp add: fun_eq_iff)

lemma find_map_acknowledge:
  "find_row intent_id (map (acknowledge_row a) rows) l = map_option (acknowledge_row a) (find_row intent_id rows l)"
  by (induction rows) simp_all

lemma sound_acknowledge: "sound_statement (acknowledge_intent msg a)"
proof (unfold sound_statement_def, intro allI impI)
  fix db db' assume ok: "store_ok db" and st: "acknowledge_intent msg a db = Inr db'"
  then have db': "db' = db\<lparr>db_intents := map (acknowledge_row a) (db_intents db)\<rparr>"
    by (simp add: acknowledge_intent_def)
  have same: "intent_id ` set (db_intents db') = intent_id ` set (db_intents db)"
    by (simp add: db' image_image)
  have refers: "refers db' = refers db"
    by (auto simp: refers_def same fun_eq_iff split: option.splits)
  have "map intent_id (db_intents db') = map intent_id (db_intents db)" by (simp add: db')
  then have "store_ok db'"
    using ok unfolding store_defs has_intent_iff same refers by (simp add: db')
  moreover have "intents_kept db db'"
    by (auto simp: intents_kept_def db' find_map_acknowledge acknowledge_row_def)
  ultimately show "store_ok db' \<and> evolves db db'" by (simp add: evolves_def db')
qed

lemma sound_insert_entry: "sound_statement (insert_entry_snapshot s)"
proof (unfold sound_statement_def, intro allI impI)
  fix db db' assume ok: "store_ok db" and st: "insert_entry_snapshot s db = Inr db'"
  then have db': "db' = db\<lparr>db_entries := db_entries db @ [s]\<rparr>"
    and new: "es_order_link_id s \<notin> es_order_link_id ` set (db_entries db)" "has_intent db (es_order_link_id s)"
    by (simp_all add: insert_entry_snapshot_def)
  have "store_ok db'" using ok new unfolding store_defs by (simp add: db')
  then show "store_ok db' \<and> evolves db db'"
    using entries.add_advances [OF ok st] by (simp add: evolves_def db')
qed

lemma sound_update_entry: "sound_statement (update_snapshot v s)"
proof (unfold sound_statement_def, intro allI impI)
  fix db db' assume ok: "store_ok db" and st: "update_snapshot v s db = Inr db'"
  then have db': "db' = db\<lparr>db_entries := write_version es_order_link_id es_version v s (db_entries db)\<rparr>"
    by (auto simp: update_snapshot_def update_version_Inr)
  from ok st obtain r where "r \<in> set (db_entries db)" "es_order_link_id r = es_order_link_id s"
    by (auto simp: update_snapshot_def update_version_Inr)
  then have "has_intent db (es_order_link_id s)" using ok unfolding store_defs by metis
  moreover have "\<forall>r \<in> set (db_entries db). has_intent db (es_order_link_id r)" using ok unfolding store_defs by blast
  ultimately have "\<forall>r \<in> set (db_entries db'). has_intent db (es_order_link_id r)"
    unfolding db' by (auto dest!: set_write_version)
  then have "store_ok db'" using ok unfolding store_defs by (simp add: db')
  then show "store_ok db' \<and> evolves db db'"
    using entries.save_advances [OF ok st] by (simp add: evolves_def db')
qed

lemma sound_insert_protection: "sound_statement (insert_protection_snapshot s)"
proof (unfold sound_statement_def, intro allI impI)
  fix db db' assume ok: "store_ok db" and st: "insert_protection_snapshot s db = Inr db'"
  then have db': "db' = db\<lparr>db_protections := db_protections db @ [s]\<rparr>"
    and new: "ps_entry_order_link_id s \<notin> ps_entry_order_link_id ` set (db_protections db)"
      "has_intent db (ps_entry_order_link_id s)" "\<not> protection_violated s db"
    by (simp_all add: insert_protection_snapshot_def)
  have "store_ok db'"
    using ok new unfolding store_defs protection_violated_def
    by (simp add: db' unique_col_insert taken_opt_Some)
  then show "store_ok db' \<and> evolves db db'"
    using protections.add_advances [OF ok st] by (simp add: evolves_def db')
qed

lemma sound_update_protection: "sound_statement (update_protection_snapshot v s)"
proof (unfold sound_statement_def, intro allI impI)
  fix db db' assume ok: "store_ok db" and st: "update_protection_snapshot v s db = Inr db'"
  then have db': "db' = db\<lparr>db_protections := write_version ps_entry_order_link_id ps_version v s (db_protections db)\<rparr>"
    and nv: "\<not> protection_violated s db"
    by (auto simp: update_protection_snapshot_def update_version_Inr)
  from ok st obtain r where "r \<in> set (db_protections db)" "ps_entry_order_link_id r = ps_entry_order_link_id s"
    by (auto simp: update_protection_snapshot_def update_version_Inr)
  then have "has_intent db (ps_entry_order_link_id s)" using ok unfolding store_defs by metis
  moreover have "\<forall>r \<in> set (db_protections db). has_intent db (ps_entry_order_link_id r)
      \<and> has_intent db (ps_stop_order_link_id r) \<and> refers db (ps_tp_order_link_id r)" using ok unfolding store_defs by blast
  ultimately have "\<forall>r \<in> set (db_protections db'). has_intent db (ps_entry_order_link_id r)
      \<and> has_intent db (ps_stop_order_link_id r) \<and> refers db (ps_tp_order_link_id r)"
    using nv unfolding db' protection_violated_def by (auto dest!: set_write_version)
  then have "store_ok db'"
    using ok nv unfolding store_defs protection_violated_def
    by (simp add: db' unique_col_write taken_opt_Some)
  then show "store_ok db' \<and> evolves db db'"
    using protections.save_advances [OF ok st] by (simp add: evolves_def db')
qed

lemma sound_insert_spread: "sound_statement (insert_option_spread s)"
proof (unfold sound_statement_def, intro allI impI)
  fix db db' assume ok: "store_ok db" and st: "insert_option_spread s db = Inr db'"
  then have db': "db' = db\<lparr>db_spreads := db_spreads db @ [s]\<rparr>"
    and new: "os_cycle_id s \<notin> os_cycle_id ` set (db_spreads db)" "\<not> spread_violated s db"
    by (simp_all add: insert_option_spread_def)
  have "store_ok db'"
    using ok new unfolding store_defs spread_violated_def by (simp add: db' unique_col_insert taken_opt_Some)
  then show "store_ok db' \<and> evolves db db'"
    using spreads.add_advances [OF ok st] by (simp add: evolves_def db')
qed

lemma sound_update_spread: "sound_statement (update_option_spread_snapshot v s)"
proof (unfold sound_statement_def, intro allI impI)
  fix db db' assume ok: "store_ok db" and st: "update_option_spread_snapshot v s db = Inr db'"
  then have db': "db' = db\<lparr>db_spreads := write_version os_cycle_id os_version v s (db_spreads db)\<rparr>"
    and nv: "\<not> spread_violated s db"
    by (auto simp: update_option_spread_snapshot_def update_version_Inr)
  have "\<forall>r \<in> set (db_spreads db). has_intent db (os_long_order_link_id r) \<and> refers db (os_short_order_link_id r)"
    using ok unfolding store_defs by blast
  then have "\<forall>r \<in> set (db_spreads db'). has_intent db (os_long_order_link_id r) \<and> refers db (os_short_order_link_id r)"
    using nv unfolding db' spread_violated_def by (auto dest!: set_write_version)
  then have "store_ok db'"
    using ok nv unfolding store_defs spread_violated_def
    by (simp add: db' unique_col_write taken_opt_Some)
  then show "store_ok db' \<and> evolves db db'"
    using spreads.save_advances [OF ok st] by (simp add: evolves_def db')
qed

lemma sound_insert_debt: "sound_statement (insert_recovery_debt s)"
proof (unfold sound_statement_def, intro allI impI)
  fix db db' assume ok: "store_ok db" and st: "insert_recovery_debt s db = Inr db'"
  then have db': "db' = db\<lparr>db_debts := db_debts db @ [s]\<rparr>" "rd_level_id s \<notin> rd_level_id ` set (db_debts db)"
    by (simp_all add: insert_recovery_debt_def)
  then have "store_ok db'" using ok unfolding store_defs by simp
  then show "store_ok db' \<and> evolves db db'"
    using debts.add_advances [OF ok st] by (simp add: evolves_def db')
qed

lemma sound_update_debt: "sound_statement (update_recovery_debt v s)"
proof (unfold sound_statement_def, intro allI impI)
  fix db db' assume ok: "store_ok db" and st: "update_recovery_debt v s db = Inr db'"
  then have db': "db' = db\<lparr>db_debts := write_version rd_level_id rd_version v s (db_debts db)\<rparr>"
    by (auto simp: update_recovery_debt_def update_version_Inr)
  then have "store_ok db'" using ok unfolding store_defs by simp
  then show "store_ok db' \<and> evolves db db'"
    using debts.save_advances [OF ok st] by (simp add: evolves_def db')
qed

lemma sound_insert_execution:
  assumes "store_ok db" "insert_execution_if_new x t h db = Inr (db', b)"
  shows "store_ok db' \<and> evolves db db'"
proof (cases "db' = db")
  case True with assms show ?thesis by simp
next
  case False
  with assms(2) have db': "db' = db\<lparr>db_executions := db_executions db @ [\<lparr>xr_execution = x, xr_received_at = t, xr_payload_hash = h\<rparr>]\<rparr>"
    and new: "ex_execution_id x \<notin> execution_id ` set (db_executions db)" "has_intent db (ex_order_link_id x)"
    by (auto simp: insert_execution_if_new_def split: if_splits)
  have "store_ok db'" using assms(1) new unfolding store_defs by (simp add: db' execution_id_def)
  then show ?thesis by (simp add: evolves_def db')
qed

lemmas sound_statements = sound_insert_intent sound_acknowledge sound_insert_entry sound_update_entry
  sound_insert_protection sound_update_protection sound_insert_spread sound_update_spread
  sound_insert_debt sound_update_debt

definition sound_transaction :: "(database, 'a) transaction \<Rightarrow> bool" where
  "sound_transaction t \<longleftrightarrow> (\<forall>db db' x. store_ok db \<longrightarrow> t db = Inr (db', x) \<longrightarrow> store_ok db' \<and> evolves db db')"

definition sound_method :: "(database, 'a) act \<Rightarrow> bool" where
  "sound_method m \<longleftrightarrow> (\<forall>db db' r. store_ok db \<longrightarrow> m db = (db', r) \<longrightarrow> store_ok db' \<and> evolves db db')"

named_theorems sound

lemma sound_run:
  assumes "r_foldl (\<lambda>d st. st d) db sts = Inr db'" "list_all sound_statement sts" "store_ok db"
  shows "store_ok db' \<and> evolves db db'"
proof (rule r_foldl_invariant [OF assms(1)])
  show "store_ok db \<and> evolves db db" using assms(3) by simp
  fix d st d' assume "store_ok d \<and> evolves db d" "st \<in> set sts" "st d = Inr d'"
  with assms(2) show "store_ok d' \<and> evolves db d'"
    unfolding sound_statement_def list_all_iff by (blast intro: evolves_trans)
qed

lemma sound_commit [sound]: "list_all sound_statement sts \<Longrightarrow> sound_transaction (commit sts)"
  by (auto simp: sound_transaction_def commit_def dest: sound_run)

lemma sound_commit_execution [sound]:
  assumes "sound_statement st" shows "sound_transaction (commit_execution x t h st)"
proof (unfold sound_transaction_def, intro allI impI)
  fix db db' b assume ok: "store_ok db" and c: "commit_execution x t h st db = Inr (db', b)"
  then obtain db1 b1 where i: "insert_execution_if_new x t h db = Inr (db1, b1)"
    and u: "db' = db1 \<or> st db1 = Inr db'"
    by (auto simp: commit_execution_def split: if_splits)
  note s1 = sound_insert_execution [OF ok i]
  with u assms show "store_ok db' \<and> evolves db db'"
    unfolding sound_statement_def by (blast intro: evolves_trans)
qed

lemma sound_insert_execution_transaction [sound]: "sound_transaction (insert_execution_if_new x t h)"
  by (simp add: sound_transaction_def sound_insert_execution)

lemma sound_guards [sound]:
  "(\<And>db. f db = raise_if b e (g db)) \<Longrightarrow> sound_transaction g \<Longrightarrow> sound_transaction f"
  "sound_transaction g \<Longrightarrow> sound_transaction (on_integrity_error msg g)"
  by (auto simp: sound_transaction_def)

lemma sound_guarded [sound]:
  "sound_transaction g \<Longrightarrow> sound_transaction (\<lambda>db. raise_if b e (g db))"
  "sound_transaction g \<Longrightarrow> sound_transaction (\<lambda>db. raise_naive t m (g db))"
  "sound_transaction g \<Longrightarrow> sound_transaction (\<lambda>db. raise_bad_hash h (g db))"
  by (auto simp: sound_transaction_def raise_bad_hash_def)

lemma sound_transact [sound]: "sound_transaction t \<Longrightarrow> sound_method (transact t)"
  by (auto simp: sound_method_def sound_transaction_def transact_def split: sum.splits)

text \<open>One step of the store is one call of one of its methods, whoever makes it and with whatever
  arguments; a call that raises is a step too.\<close>

inductive store_step :: "database \<Rightarrow> database \<Rightarrow> bool" where
  Persist_Order: "persist_order_intent r t db = (db', x1) \<Longrightarrow> store_step db db'"
| Persist_Entry: "persist_entry_intent r e t db = (db', x1) \<Longrightarrow> store_step db db'"
| Persist_Long: "persist_option_long_intent r o1 t db = (db', x1) \<Longrightarrow> store_step db db'"
| Persist_Short: "persist_option_short_intent v r o1 t db = (db', x1) \<Longrightarrow> store_step db db'"
| Persist_Protection: "persist_protection_intent r p t db = (db', x1) \<Longrightarrow> store_step db db'"
| Persist_Take_Profit: "persist_take_profit_intent v r p t db = (db', x1) \<Longrightarrow> store_step db db'"
| Persist_Replacement: "persist_replacement_stop_intent v r p t db = (db', x1) \<Longrightarrow> store_step db db'"
| Persist_Debt: "persist_recovery_debt_snapshot d db = (db', x1) \<Longrightarrow> store_step db db'"
| Transition_Entry: "transition_entry_row v e db = (db', x1) \<Longrightarrow> store_step db db'"
| Transition_Protection: "transition_protection_snapshot v p db = (db', x1) \<Longrightarrow> store_step db db'"
| Transition_Spread: "transition_option_spread_snapshot v o1 db = (db', x1) \<Longrightarrow> store_step db db'"
| Transition_Debt: "transition_recovery_debt_snapshot v d db = (db', x1) \<Longrightarrow> store_step db db'"
| Record_Ack: "record_acknowledgement a db = (db', x1) \<Longrightarrow> store_step db db'"
| Record_Ack_Entry: "record_acknowledgement_and_snapshot v a e db = (db', x1) \<Longrightarrow> store_step db db'"
| Record_Ack_Spread: "record_option_acknowledgement_and_snapshot v a o1 db = (db', x1) \<Longrightarrow> store_step db db'"
| Record_Execution: "record_execution x t h db = (db', x2) \<Longrightarrow> store_step db db'"
| Record_Execution_Entry: "record_execution_and_snapshot v x t h e db = (db', x2) \<Longrightarrow> store_step db db'"
| Record_Execution_Exit: "record_exit_execution_and_snapshot v x t h p db = (db', x2) \<Longrightarrow> store_step db db'"
| Record_Execution_Spread: "record_option_execution_and_snapshot v x t h o1 db = (db', x2) \<Longrightarrow> store_step db db'"

lemmas write_methods = persist_order_intent_def persist_entry_intent_def persist_option_long_intent_def
  persist_option_short_intent_def persist_protection_intent_def persist_take_profit_intent_def
  persist_replacement_stop_intent_def persist_recovery_debt_snapshot_def transition_entry_row_def
  transition_protection_snapshot_def transition_option_spread_snapshot_def transition_recovery_debt_snapshot_def
  record_acknowledgement_def record_acknowledgement_and_snapshot_def record_option_acknowledgement_and_snapshot_def
  record_execution_def record_execution_and_snapshot_def record_exit_execution_and_snapshot_def
  record_option_execution_and_snapshot_def

lemmas row_methods = persist_order_intent_rows_def persist_entry_intent_rows_def persist_option_long_intent_rows_def persist_option_short_intent_rows_def
  persist_protection_intent_rows_def persist_take_profit_intent_rows_def persist_replacement_stop_intent_rows_def record_acknowledgement_and_snapshot_rows_def
  record_execution_and_snapshot_rows_def record_exit_execution_and_snapshot_rows_def record_option_execution_and_snapshot_rows_def

lemma sound_methods:
  "sound_method (persist_order_intent r t)" "sound_method (persist_entry_intent r e t)"
  "sound_method (persist_option_long_intent r o1 t)" "sound_method (persist_option_short_intent v r o1 t)"
  "sound_method (persist_protection_intent r p t)" "sound_method (persist_take_profit_intent v r p t)"
  "sound_method (persist_replacement_stop_intent v r p t)" "sound_method (persist_recovery_debt_snapshot d)"
  "sound_method (transition_entry_row v e)" "sound_method (transition_protection_snapshot v p)"
  "sound_method (transition_option_spread_snapshot v o1)" "sound_method (transition_recovery_debt_snapshot v d)"
  "sound_method (record_acknowledgement a)" "sound_method (record_acknowledgement_and_snapshot v a e)"
  "sound_method (record_option_acknowledgement_and_snapshot v a o1)" "sound_method (record_execution x t h)"
  "sound_method (record_execution_and_snapshot v x t h e)" "sound_method (record_exit_execution_and_snapshot v x t h p)"
  "sound_method (record_option_execution_and_snapshot v x t h o1)"
  unfolding write_methods row_methods
  by (rule sound_transact, ((rule sound_guarded sound_guards(2))+)?,
      ((rule sound_commit, simp add: sound_statements) | (rule sound_commit_execution, rule sound_statements)
        | rule sound_insert_execution_transaction))+

lemma sound_methodD: "m db = (db', r) \<Longrightarrow> store_ok db \<Longrightarrow> sound_method m \<Longrightarrow> store_ok db' \<and> evolves db db'"
  by (auto simp: sound_method_def)

lemma store_step_sound: "store_step db db' \<Longrightarrow> store_ok db \<Longrightarrow> store_ok db' \<and> evolves db db'"
  by (erule store_step.cases) (hypsubst, erule sound_methodD, assumption, rule sound_methods)+

abbreviation store_runs :: "database \<Rightarrow> database \<Rightarrow> bool" where
  "store_runs \<equiv> store_step\<^sup>*\<^sup>*"

lemma store_runs_sound: "store_runs db db' \<Longrightarrow> store_ok db \<Longrightarrow> store_ok db' \<and> evolves db db'"
  by (induction rule: rtranclp_induct) (auto dest: store_step_sound intro: evolves_trans)

lemma has_intent_kept: "intents_kept db db' \<Longrightarrow> has_intent db l \<Longrightarrow> has_intent db' l"
  by (metis find_row_None_iff has_intent_iff intents_kept_def not_None_eq)

lemma distinct_unique_col:
  assumes "distinct (map key rows)" "unique_col key (\<lambda>s. Some (col s)) rows" shows "distinct (map col rows)"
proof -
  have "inj_on col (set rows)"
  proof (rule inj_onI)
    fix r r' assume r: "r \<in> set rows" "r' \<in> set rows" and c: "col r = col r'"
    have "key r = key r'" using assms(2) r c unfolding unique_col_def by blast
    then show "r = r'" using assms(1) r by (simp add: distinct_map inj_on_def)
  qed
  then show ?thesis using assms(1) by (simp add: distinct_map)
qed

text \<open>C30. Integrity of the store. Whatever methods are called on it in whatever order and with whatever
  arguments, rows are unique in their keys; every entry, execution, protection and option spread refers to
  intents that were persisted; and later an intent still holds its request and time, no execution is lost or
  changed or reordered, and a snapshot is the same or of a higher version.\<close>

theorem store_integrity:
  assumes "store_runs empty_database db" and "store_runs db db'"
  shows "distinct (map intent_id (db_intents db)) \<and> distinct (map execution_id (db_executions db))
    \<and> distinct (map es_order_link_id (db_entries db)) \<and> distinct (map ps_entry_order_link_id (db_protections db))
    \<and> distinct (map ps_stop_order_link_id (db_protections db)) \<and> distinct (map os_cycle_id (db_spreads db))
    \<and> (\<forall>s \<in> set (db_entries db). has_intent db (es_order_link_id s))
    \<and> (\<forall>x \<in> set (db_executions db). has_intent db (ex_order_link_id (xr_execution x)))
    \<and> (\<forall>s \<in> set (db_protections db). has_intent db (ps_entry_order_link_id s)
         \<and> has_intent db (ps_stop_order_link_id s) \<and> refers db (ps_tp_order_link_id s))
    \<and> (\<forall>s \<in> set (db_spreads db). has_intent db (os_long_order_link_id s) \<and> refers db (os_short_order_link_id s))
    \<and> (\<forall>l r. intent_of db l = Some r \<longrightarrow> (\<exists>r'. intent_of db' l = Some r' \<and> in_request r' = in_request r
         \<and> in_persisted_at r' = in_persisted_at r))
    \<and> prefix (db_executions db) (db_executions db')
    \<and> (\<forall>k s. entry_of db k = Some s \<longrightarrow> (\<exists>s'. entry_of db' k = Some s' \<and> (s' = s \<or> es_version s < es_version s')))
    \<and> (\<forall>k s. protection_of db k = Some s \<longrightarrow> (\<exists>s'. protection_of db' k = Some s' \<and> (s' = s \<or> ps_version s < ps_version s')))
    \<and> (\<forall>k s. spread_of db k = Some s \<longrightarrow> (\<exists>s'. spread_of db' k = Some s' \<and> (s' = s \<or> os_version s < os_version s')))
    \<and> (\<forall>k s. debt_of db k = Some s \<longrightarrow> (\<exists>s'. debt_of db' k = Some s' \<and> (s' = s \<or> rd_version s < rd_version s')))"
proof -
  have ok: "store_ok db" and ev: "evolves db db'"
    using store_runs_sound [OF assms(1)] store_runs_sound [OF assms(2)] by auto
  have keys: "distinct (map ps_entry_order_link_id (db_protections db))"
    and col: "unique_col ps_entry_order_link_id (\<lambda>s. Some (ps_stop_order_link_id s)) (db_protections db)"
    using ok unfolding store_defs by blast+
  have "distinct (map ps_stop_order_link_id (db_protections db))"
    using keys col by (rule distinct_unique_col)
  then show ?thesis
    using ok ev unfolding store_defs evolves_def intents_kept_def advances_def
    by (elim conjE) (intro conjI; assumption)
qed

definition sample_entry_request :: place_order_request where
  "sample_entry_request = \<lparr>po_category = linear_category, po_symbol = ''ETHUSDT'', po_side = Sell, po_order_type = Market,
     po_quantity = 1, po_order_link_id = sample_link, po_price = None, po_time_in_force = IOC, po_reduce_only = False,
     po_trigger_price = None, po_trigger_direction = None, po_trigger_by = None, po_position_idx = 0, po_close_on_trigger = False\<rparr>"

definition sample_persisted :: entry_snapshot where
  "sample_persisted = sample_entry\<lparr>es_state := ENTRY_REQUEST_PERSISTED, es_entry_order_id := None, es_version := 1\<rparr>"

definition sample_submitted :: entry_snapshot where
  "sample_submitted = sample_persisted\<lparr>es_state := ENTRY_SUBMITTED, es_version := 2\<rparr>"

definition sample_store :: database where
  "sample_store = fst (persist_entry_intent sample_entry_request sample_persisted (Aware 1) empty_database)"

definition sample_store_submitted :: database where
  "sample_store_submitted = fst (transition_entry_row 1 sample_submitted sample_store)"

lemma sample_runs: "store_runs empty_database sample_store" "store_runs sample_store sample_store_submitted"
  unfolding sample_store_def sample_store_submitted_def
  by (rule r_into_rtranclp, rule store_step.Persist_Entry, rule surjective_pairing)
     (rule r_into_rtranclp, rule store_step.Transition_Entry, rule surjective_pairing)

lemma sample_transition: "transition_entry_row 1 sample_submitted sample_store = (sample_store_submitted, Inr ())"
proof -
  have "is_ok (snd (transition_entry_row 1 sample_submitted sample_store))" by code_simp
  then show ?thesis by (auto simp: sample_store_submitted_def is_ok_iff prod_eq_iff)
qed

theorem store_integrity_witness:
  "has_intent sample_store sample_link \<and> entry_of sample_store sample_link = Some sample_persisted
    \<and> (\<exists>s. entry_of sample_store_submitted sample_link = Some s \<and> (s = sample_persisted \<or> 1 < es_version s))"
proof -
  have e: "entry_of sample_store sample_link = Some sample_persisted"
    unfolding sample_store_def
    by (simp add: persist_entry_intent_def persist_entry_intent_rows_def transact_def commit_def on_integrity_error_def insert_order_intent_def
        insert_entry_snapshot_def empty_database_def sample_entry_request_def sample_persisted_def sample_entry_def
        intent_id_def)
  have v: "es_version sample_persisted = 1" by (simp add: sample_persisted_def)
  note i = store_integrity [OF sample_runs]
  from i have "\<exists>s. entry_of sample_store_submitted sample_link = Some s \<and> (s = sample_persisted \<or> es_version sample_persisted < es_version s)"
    using e by blast
  moreover have "sample_persisted \<in> set (db_entries sample_store)" "es_order_link_id sample_persisted = sample_link"
    using find_row_SomeD [OF e] by simp_all
  then have "has_intent sample_store sample_link" using i by metis
  ultimately show ?thesis using e unfolding v by blast
qed

lemma transact_commit_one:
  "transact (commit [st]) db = (db', Inr ()) \<longleftrightarrow> st db = Inr db'"
  "transact (commit [st]) db = (db, Inl x) \<longleftrightarrow> st db = Inl x"
  by (auto simp: commit_def split: sum.splits)

lemma later_store:
  assumes "store_runs empty_database db" "sound_method m" "m db = (db1, r)" "store_runs db1 db2"
  shows "store_ok db" "store_ok db1" "store_ok db2" "evolves db1 db2"
proof -
  show "store_ok db" using store_runs_sound [OF assms(1)] by simp
  then show "store_ok db1" using assms(2,3) by (auto simp: sound_method_def)
  then show "store_ok db2" "evolves db1 db2" using store_runs_sound [OF assms(4)] by simp_all
qed

lemma intent_only_once:
  assumes "persist_order_intent r t db = (db1, Inr ())" "evolves db1 db2" "po_order_link_id r' = po_order_link_id r"
  shows "\<exists>x. persist_order_intent r' t' db2 = (db2, Inl x)"
proof -
  have "has_intent db1 (po_order_link_id r)"
    using assms(1) by (auto simp: persist_order_intent_def persist_order_intent_rows_def commit_def insert_order_intent_def intent_id_def)
  then have "has_intent db2 (po_order_link_id r')"
    using assms(2,3) has_intent_kept unfolding evolves_def by metis
  then show ?thesis
    by (auto simp: persist_order_intent_def persist_order_intent_rows_def commit_def insert_order_intent_def on_integrity_error_def raise_naive_def raise_if_def)
qed

lemma execution_only_once:
  assumes "record_execution x t h db = (db1, Inr b)" "evolves db1 db2" "ex_execution_id x' = ex_execution_id x"
    "is_aware t'" "payload_hash h'"
  shows "record_execution x' t' h' db2 = (db2, Inr False)"
proof -
  have "has_row execution_id (db_executions db1) (ex_execution_id x)"
    using assms(1)
    by (auto simp: record_execution_def insert_execution_if_new_def raise_bad_hash_def execution_id_def split: if_splits)
  then have "has_row execution_id (db_executions db2) (ex_execution_id x')"
    using assms(2,3) by (auto simp: evolves_def prefix_def)
  then show ?thesis
    using assms(4,5) by (simp add: record_execution_def insert_execution_if_new_def raise_bad_hash_def)
qed

text \<open>C31. No update is lost and nothing is recorded twice. After a method went through, in every later state
  of the store, whatever was called in between: a second update of an entry, protection, option spread or
  debt that was computed from the same version raises and changes nothing; the intent of the same order
  cannot be persisted again; and recording an execution again returns \<open>False\<close> and changes nothing.\<close>

theorem no_lost_update:
  assumes "store_runs empty_database db" and "store_runs db1 db2"
  shows "(transition_entry_row v e db = (db1, Inr ()) \<and> es_order_link_id e' = es_order_link_id e
      \<longrightarrow> (\<exists>x. transition_entry_row v e' db2 = (db2, Inl x)))
    \<and> (transition_protection_snapshot v p db = (db1, Inr ()) \<and> ps_entry_order_link_id p' = ps_entry_order_link_id p
      \<longrightarrow> (\<exists>x. transition_protection_snapshot v p' db2 = (db2, Inl x)))
    \<and> (transition_option_spread_snapshot v s db = (db1, Inr ()) \<and> os_cycle_id s' = os_cycle_id s
      \<longrightarrow> (\<exists>x. transition_option_spread_snapshot v s' db2 = (db2, Inl x)))
    \<and> (transition_recovery_debt_snapshot v d db = (db1, Inr ()) \<and> rd_level_id d' = rd_level_id d
      \<longrightarrow> (\<exists>x. transition_recovery_debt_snapshot v d' db2 = (db2, Inl x)))
    \<and> (persist_order_intent r t db = (db1, Inr ()) \<and> po_order_link_id r' = po_order_link_id r
      \<longrightarrow> (\<exists>x. persist_order_intent r' t' db2 = (db2, Inl x)))
    \<and> (record_execution x t h db = (db1, Inr b) \<and> ex_execution_id x' = ex_execution_id x \<and> is_aware t' \<and> payload_hash h'
      \<longrightarrow> record_execution x' t' h' db2 = (db2, Inr False))"
proof (intro conjI impI; (elim conjE)?)
  assume m: "transition_entry_row v e db = (db1, Inr ())" and k: "es_order_link_id e' = es_order_link_id e"
  note l = later_store [OF assms(1) sound_methods(9) m assms(2)]
  from m have "update_snapshot v e db = Inr db1" unfolding transition_entry_row_def transact_commit_one .
  from entries.second_writer_raises [OF l(1) this _ l(3) k] l(4)
  show "\<exists>x. transition_entry_row v e' db2 = (db2, Inl x)"
    unfolding transition_entry_row_def transact_commit_one evolves_def by blast
next
  assume m: "transition_protection_snapshot v p db = (db1, Inr ())" and k: "ps_entry_order_link_id p' = ps_entry_order_link_id p"
  note l = later_store [OF assms(1) sound_methods(10) m assms(2)]
  from m have "update_protection_snapshot v p db = Inr db1" unfolding transition_protection_snapshot_def transact_commit_one .
  from protections.second_writer_raises [OF l(1) this _ l(3) k] l(4)
  show "\<exists>x. transition_protection_snapshot v p' db2 = (db2, Inl x)"
    unfolding transition_protection_snapshot_def transact_commit_one evolves_def by blast
next
  assume m: "transition_option_spread_snapshot v s db = (db1, Inr ())" and k: "os_cycle_id s' = os_cycle_id s"
  note l = later_store [OF assms(1) sound_methods(11) m assms(2)]
  from m have "update_option_spread_snapshot v s db = Inr db1" unfolding transition_option_spread_snapshot_def transact_commit_one .
  from spreads.second_writer_raises [OF l(1) this _ l(3) k] l(4)
  show "\<exists>x. transition_option_spread_snapshot v s' db2 = (db2, Inl x)"
    unfolding transition_option_spread_snapshot_def transact_commit_one evolves_def by blast
next
  assume m: "transition_recovery_debt_snapshot v d db = (db1, Inr ())" and k: "rd_level_id d' = rd_level_id d"
  note l = later_store [OF assms(1) sound_methods(12) m assms(2)]
  from m have "update_recovery_debt v d db = Inr db1" unfolding transition_recovery_debt_snapshot_def transact_commit_one .
  from debts.second_writer_raises [OF l(1) this _ l(3) k] l(4)
  show "\<exists>x. transition_recovery_debt_snapshot v d' db2 = (db2, Inl x)"
    unfolding transition_recovery_debt_snapshot_def transact_commit_one evolves_def by blast
next
  assume m: "persist_order_intent r t db = (db1, Inr ())" and "po_order_link_id r' = po_order_link_id r"
  with later_store(4) [OF assms(1) sound_methods(1) m assms(2)] show "\<exists>x. persist_order_intent r' t' db2 = (db2, Inl x)"
    by (intro intent_only_once)
next
  assume m: "record_execution x t h db = (db1, Inr b)" and "ex_execution_id x' = ex_execution_id x" "is_aware t'" "payload_hash h'"
  with later_store(4) [OF assms(1) sound_methods(16) m assms(2)] show "record_execution x' t' h' db2 = (db2, Inr False)"
    by (intro execution_only_once)
qed

theorem no_lost_update_witness:
  "store_runs empty_database sample_store \<and> store_runs sample_store_submitted sample_store_submitted
    \<and> (\<exists>x. transition_entry_row 1 (sample_submitted\<lparr>es_state := X_ERROR\<rparr>) sample_store_submitted = (sample_store_submitted, Inl x))"
proof -
  have "store_runs sample_store_submitted sample_store_submitted" by simp
  note once = no_lost_update [OF sample_runs(1) this]
  have "es_order_link_id (sample_submitted\<lparr>es_state := X_ERROR\<rparr>) = es_order_link_id sample_submitted" by simp
  with sample_transition have "\<exists>x. transition_entry_row 1 (sample_submitted\<lparr>es_state := X_ERROR\<rparr>) sample_store_submitted = (sample_store_submitted, Inl x)"
    using conjunct1 [OF once] by blast
  then show ?thesis using sample_runs(1) by simp
qed

end
