(* ===== verification/Ports.thy ===== *)
theory Ports
  imports Execution_Store
begin

text \<open>
  \<open>ports/trading.py\<close>, \<open>ports/account.py\<close> and \<open>ports/market_data.py\<close>: what the services see of the
  world outside. The exchange is not part of the repository's core: it is a parameter, a record of
  functions that answer each call from the whole history of calls, so that it may refuse, lie, or
  answer the same question differently at any time. The world keeps the durable store and the history;
  every call is recorded together with the store as it was at that moment, which is what the
  properties about the order of writes and calls speak of.
\<close>

datatype exchange_call =
    Place place_order_request
  | Cancel cancel_order_request
  | Get_Order instrument_category string string
  | Get_Open_Orders instrument_category string
  | Get_Executions instrument_category string string
  | Get_Positions instrument_category string
  | Read_Clock
  | Sleep

type_synonym history = "(database \<times> exchange_call) list"

record exchange =
  x_place :: "history \<Rightarrow> place_order_request \<Rightarrow> order_request_ack res"
  x_cancel :: "history \<Rightarrow> cancel_order_request \<Rightarrow> order_request_ack res"
  x_order :: "history \<Rightarrow> string \<Rightarrow> exchange_order option res"
  x_open_orders :: "history \<Rightarrow> exchange_order list res"
  x_executions :: "history \<Rightarrow> string \<Rightarrow> execution_update list res"
  x_positions :: "history \<Rightarrow> exchange_position list res"
  x_clock :: "history \<Rightarrow> datetime"

record world =
  w_store :: database
  w_calls :: history

definition on_store :: "(database, 'a) act \<Rightarrow> ('z world_scheme, 'a) act" where
  "on_store m w = (case m (w_store w) of (db, r) \<Rightarrow> (w\<lparr>w_store := db\<rparr>, r))"

definition ask :: "exchange_call \<Rightarrow> (history \<Rightarrow> 'a res) \<Rightarrow> ('z world_scheme, 'a) act" where
  "ask c answer w = (let h = w_calls w @ [(w_store w, c)] in (w\<lparr>w_calls := h\<rparr>, answer h))"

definition place_order :: "exchange \<Rightarrow> place_order_request \<Rightarrow> ('z world_scheme, order_request_ack) act" where
  "place_order x r = ask (Place r) (\<lambda>h. x_place x h r)"

definition cancel_order :: "exchange \<Rightarrow> cancel_order_request \<Rightarrow> ('z world_scheme, order_request_ack) act" where
  "cancel_order x r = ask (Cancel r) (\<lambda>h. x_cancel x h r)"

definition get_order_by_link_id ::
    "exchange \<Rightarrow> instrument_category \<Rightarrow> string \<Rightarrow> string \<Rightarrow> ('z world_scheme, exchange_order option) act" where
  "get_order_by_link_id x category symb link = ask (Get_Order category symb link) (\<lambda>h. x_order x h link)"

definition get_open_orders :: "exchange \<Rightarrow> instrument_category \<Rightarrow> string \<Rightarrow> ('z world_scheme, exchange_order list) act" where
  "get_open_orders x category symb = ask (Get_Open_Orders category symb) (x_open_orders x)"

definition get_execution_history ::
    "exchange \<Rightarrow> instrument_category \<Rightarrow> string \<Rightarrow> string \<Rightarrow> ('z world_scheme, execution_update list) act" where
  "get_execution_history x category symb link = ask (Get_Executions category symb link) (\<lambda>h. x_executions x h link)"

definition get_positions :: "exchange \<Rightarrow> instrument_category \<Rightarrow> string \<Rightarrow> ('z world_scheme, exchange_position list) act" where
  "get_positions x category symb = ask (Get_Positions category symb) (x_positions x)"

definition clock :: "exchange \<Rightarrow> ('z world_scheme, datetime) act" where
  "clock x = ask Read_Clock (\<lambda>h. Inr (x_clock x h))"

definition sleep :: "('z world_scheme, unit) act" where
  "sleep = ask Sleep (\<lambda>_. Inr ())"

lemmas port_calls = place_order_def cancel_order_def get_order_by_link_id_def get_open_orders_def
  get_execution_history_def get_positions_def clock_def sleep_def

text \<open>The orders placed so far, each with the store at that moment.\<close>

fun placed :: "history \<Rightarrow> (database \<times> place_order_request) list" where
  "placed [] = []"
| "placed ((db, Place r) # h) = (db, r) # placed h"
| "placed (_ # h) = placed h"

lemma placed_append [simp]: "placed (g @ h) = placed g @ placed h"
  by (induction g rule: placed.induct) simp_all

definition placed_links :: "history \<Rightarrow> string list" where
  "placed_links h = map (\<lambda>(_, r). po_order_link_id r) (placed h)"

lemma placed_links_append [simp]: "placed_links (g @ h) = placed_links g @ placed_links h"
  by (simp add: placed_links_def)

lemma placed_snoc: "placed (h @ [(db, c)]) = (case c of Place r \<Rightarrow> placed h @ [(db, r)] | _ \<Rightarrow> placed h)"
  by (simp split: exchange_call.split)

fun is_place :: "exchange_call \<Rightarrow> bool" where
  "is_place (Place _) = True"
| "is_place _ = False"

lemma placed_quiet [simp]: "\<not> is_place c \<Longrightarrow> placed (h @ [(db, c)]) = placed h"
  by (cases c) simp_all

section \<open>Rules\<close>

text \<open>A service with state of its own extends the world; the ports work on any such extension.\<close>

lemma triple_store:
  assumes "\<And>w. P w \<Longrightarrow> triple (\<lambda>db. db = w_store w) m (\<lambda>y db. Q y (w\<lparr>w_store := db\<rparr>)) (\<lambda>e db. E e (w\<lparr>w_store := db\<rparr>))"
  shows "triple P (on_store m) Q E"
proof (rule tripleI)
  fix w w' y assume p: "P w" and r: "on_store m w = (w', Inr y)"
  then obtain db where "m (w_store w) = (db, Inr y)" "w' = w\<lparr>w_store := db\<rparr>"
    by (auto simp: on_store_def split: prod.splits)
  with triple_Inr [OF assms [OF p]] show "Q y w'" by blast
next
  fix w w' e assume p: "P w" and r: "on_store m w = (w', Inl e)"
  then obtain db where "m (w_store w) = (db, Inl e)" "w' = w\<lparr>w_store := db\<rparr>"
    by (auto simp: on_store_def split: prod.splits)
  with triple_Inl [OF assms [OF p]] show "E e w'" by blast
qed

lemma triple_ask:
  assumes "\<And>w y. P w \<Longrightarrow> Q y (w\<lparr>w_calls := w_calls w @ [(w_store w, c)]\<rparr>)"
    and "\<And>w e. P w \<Longrightarrow> E e (w\<lparr>w_calls := w_calls w @ [(w_store w, c)]\<rparr>)"
  shows "triple P (ask c answer) Q E"
  by (rule tripleI) (auto simp: ask_def Let_def assms)

lemma on_store_query: "on_store (act_query q) w = (w, q (w_store w))"
  by (simp add: on_store_def act_query_def)

lemma on_store_get: "on_store (act_get f) w = (w, Inr (f (w_store w)))"
  by (simp add: on_store_def act_get_def)

lemma triple_load:
  assumes "\<And>w y. P w \<Longrightarrow> q (w_store w) = Inr y \<Longrightarrow> Q y w" and "\<And>w e. P w \<Longrightarrow> q (w_store w) = Inl e \<Longrightarrow> E e w"
  shows "triple P (on_store (act_query q)) Q E"
  by (rule tripleI) (auto simp: on_store_query assms)

lemma triple_has:
  assumes "\<And>w. P w \<Longrightarrow> Q (f (w_store w)) w"
  shows "triple P (on_store (act_get f)) Q E"
  by (rule tripleI) (auto simp: on_store_get assms)

lemma fetch_one_Inr:
  "fetch_one g row = Inr y \<longleftrightarrow> (case row of None \<Rightarrow> y = None | Some r \<Rightarrow> (\<exists>v. g r = Inr v \<and> y = Some v))"
  by (auto simp: fetch_one_def split: option.splits)

text \<open>What a transaction does to the store: an exception leaves it unchanged.\<close>

lemma triple_transact:
  assumes "\<And>w db y. P w \<Longrightarrow> t (w_store w) = Inr (db, y) \<Longrightarrow> Q y (w\<lparr>w_store := db\<rparr>)"
    and "\<And>w e. P w \<Longrightarrow> t (w_store w) = Inl e \<Longrightarrow> E e w"
  shows "triple P (on_store (transact t)) Q E"
  by (rule tripleI) (auto simp: on_store_def transact_def assms split: prod.splits sum.splits)

end
