(* ===== verification/One_Level_Entry.thy ===== *)
theory One_Level_Entry
  imports Ports
begin

text \<open>
  \<open>application/one_level_entry.py\<close>: the service that persists, submits and accounts for one short
  entry. The methods are translated call by call over an arbitrary exchange; then any sequence of
  calls of the service, mixed with writes of other components to other tables, is shown to submit every
  entry at most once and only after its intent is durable, and to book exactly the recorded executions.
\<close>

section \<open>The service\<close>

record entry_world = world +
  w_active :: "string option"

type_synonym 'a entry_act = "(entry_world, 'a) act"

definition set_active :: "string \<Rightarrow> unit entry_act" where
  "set_active link w = (w\<lparr>w_active := Some link\<rparr>, Inr ())"

definition missing :: "string \<Rightarrow> 'a option \<Rightarrow> ('s, 'a) act" where
  "missing msg v = (case v of None \<Rightarrow> act_raise (ValueError msg) | Some x \<Rightarrow> act_return x)"

definition required_snapshot :: "string \<Rightarrow> ('z world_scheme, entry_snapshot) act" where
  "required_snapshot link = act_bind (on_store (load_entry_snapshot link)) (missing (''no persisted entry for '' @ link))"

definition persist_intent :: "exchange \<Rightarrow> place_order_request \<Rightarrow> entry_snapshot entry_act" where
  "persist_intent x r = act_bind (clock x) (\<lambda>persisted_at.
     act_bind (act_lift (for_intent r persisted_at)) (\<lambda>s.
     act_bind (on_store (persist_entry_intent r s persisted_at)) (\<lambda>_.
     act_bind (set_active (po_order_link_id r)) (\<lambda>_. act_return s))))"

text \<open>A state change of the snapshot at the current time, stored under its version.\<close>

definition move_entry :: "exchange \<Rightarrow> entry_snapshot \<Rightarrow> live_execution_state \<Rightarrow> ('z world_scheme, entry_snapshot) act" where
  "move_entry x s st = act_bind (clock x) (\<lambda>now.
     act_bind (act_lift (transition_entry_snapshot s st now None)) (\<lambda>s1.
     act_bind (on_store (transition_entry_row (es_version s) s1)) (\<lambda>_. act_return s1)))"

text \<open>The acknowledgement of an order that was found on the exchange after an unclear answer.\<close>

definition discovered_ack :: "exchange \<Rightarrow> exchange_order \<Rightarrow> ('z world_scheme, order_request_ack) act" where
  "discovered_ack x d = act_bind (clock x) (\<lambda>now.
     act_lift (mk_order_request_ack \<lparr>ak_request_kind = PLACE, ak_order_id = eo_order_id d,
       ak_order_link_id = eo_order_link_id d, ak_acknowledged_at = now\<rparr>))"

text \<open>What happens after \<open>place_order\<close> raised: an uncertain outcome is looked up, any other exception
  marks the entry as failed and is raised again.\<close>

definition place_failed :: "exchange \<Rightarrow> place_order_request \<Rightarrow> entry_snapshot \<Rightarrow> py_exn \<Rightarrow> order_request_ack entry_act" where
  "place_failed x r submitted e = (case e of
     UncertainOrderOutcomeError _ \<Rightarrow>
       act_bind (get_order_by_link_id x (po_category r) (po_symbol r) (po_order_link_id r)) (\<lambda>found.
         case found of
           None \<Rightarrow> act_bind (move_entry x submitted RECONCILING) (\<lambda>_. act_raise e)
         | Some d \<Rightarrow> discovered_ack x d)
   | _ \<Rightarrow> on_exception (\<lambda>e. act_bind (move_entry x submitted X_ERROR) (\<lambda>_. act_raise e)) e)"

definition acknowledge :: "exchange \<Rightarrow> entry_snapshot \<Rightarrow> order_request_ack \<Rightarrow> entry_snapshot entry_act" where
  "acknowledge x submitted a = act_bind (clock x) (\<lambda>now.
     act_bind (act_lift (transition_entry_snapshot submitted ENTRY_ACKNOWLEDGED now (Some (ak_order_id a)))) (\<lambda>s1.
     act_bind (on_store (record_acknowledgement_and_snapshot (es_version submitted) a s1)) (\<lambda>_. act_return s1)))"

definition place_and_acknowledge :: "exchange \<Rightarrow> place_order_request \<Rightarrow> entry_snapshot \<Rightarrow> entry_snapshot entry_act" where
  "place_and_acknowledge x r submitted =
     act_bind (act_catch (place_order x r) (place_failed x r submitted)) (acknowledge x submitted)"

definition submit_persisted_entry :: "exchange \<Rightarrow> place_order_request \<Rightarrow> entry_snapshot \<Rightarrow> entry_snapshot entry_act" where
  "submit_persisted_entry x r s =
     (if es_order_link_id s \<noteq> po_order_link_id r
      then act_raise (ValueError ''request and persisted entry client IDs differ'')
      else if es_state s \<noteq> ENTRY_REQUEST_PERSISTED
      then act_raise (ValueError ''entry snapshot is not ready for submission'')
      else act_bind (on_store (load_order_intent (po_order_link_id r))) (\<lambda>persisted.
        if persisted \<noteq> Some r then act_raise (ValueError ''entry request is not durably persisted'')
        else act_bind (set_active (po_order_link_id r)) (\<lambda>_.
          act_bind (move_entry x s ENTRY_SUBMITTED) (place_and_acknowledge x r))))"

definition submit_entry :: "exchange \<Rightarrow> place_order_request \<Rightarrow> entry_snapshot entry_act" where
  "submit_entry x r = act_bind (persist_intent x r) (submit_persisted_entry x r)"

definition apply_execution ::
    "execution_update \<Rightarrow> datetime \<Rightarrow> string \<Rightarrow> ('z world_scheme, entry_snapshot) act" where
  "apply_execution e received_at h = act_bind (required_snapshot (ex_order_link_id e)) (\<lambda>s.
     act_bind (on_store (has_execution (ex_execution_id e))) (\<lambda>known.
     if known then act_return s
     else act_bind (act_lift (apply_entry_execution s e received_at)) (\<lambda>updated.
       act_bind (on_store (record_execution_and_snapshot (es_version s) e received_at h updated)) (\<lambda>inserted.
       if inserted then act_return updated else required_snapshot (ex_order_link_id e)))))"

definition active_link :: "string entry_act" where
  "active_link w = (w, case w_active w of
     None \<Rightarrow> Inl (RuntimeError ''no entry has been submitted by this service'') | Some l \<Rightarrow> Inr l)"

definition reconcile_position :: "exchange \<Rightarrow> exchange_position list \<Rightarrow> bool entry_act" where
  "reconcile_position x positions = act_bind active_link (\<lambda>link.
     act_bind (required_snapshot link) (\<lambda>s.
     if entry_position_matches s positions then act_return True
     else if es_state s \<noteq> RECONCILING
     then act_bind (move_entry x s RECONCILING) (\<lambda>_. act_return False)
     else act_return False))"

definition finalize_partial_fill :: "exchange \<Rightarrow> string \<Rightarrow> ('z world_scheme, entry_snapshot) act" where
  "finalize_partial_fill x link = act_bind (required_snapshot link) (\<lambda>s.
     act_bind (clock x) (\<lambda>now.
     act_bind (act_lift (finalize_partial_entry s now)) (\<lambda>s1.
     act_bind (on_store (transition_entry_row (es_version s) s1)) (\<lambda>_. act_return s1))))"

section \<open>What is kept\<close>

text \<open>The recorded executions of an order, and an entry that books exactly them.\<close>

definition fills_of :: "database \<Rightarrow> string \<Rightarrow> execution_update list" where
  "fills_of db link = filter (\<lambda>e. ex_order_link_id e = link) (map xr_execution (db_executions db))"

definition booked :: "execution_update list \<Rightarrow> entry_snapshot \<Rightarrow> bool" where
  "booked fills s \<longleftrightarrow>
     es_filled_quantity s = foldl (\<lambda>q e. dadd q (ex_quantity e)) 0 fills
     \<and> es_entry_notional s = foldl (\<lambda>n e. dadd n (dmul (ex_price e) (ex_quantity e))) 0 fills
     \<and> es_entry_fees s = foldl (\<lambda>f e. dadd f (ex_fee e)) 0 fills"

text \<open>An entry is at its first version exactly as long as it has not been submitted. \<open>held\<close> are the
  snapshots handed out so far, \<open>links\<close> the orders placed; \<open>open_links\<close> are the entries whose executions
  are being booked, within a transaction.\<close>

definition unsubmitted_first :: "entry_snapshot \<Rightarrow> bool" where
  "unsubmitted_first s \<longleftrightarrow> (es_state s = ENTRY_REQUEST_PERSISTED \<longrightarrow> es_version s = 1) \<and> 1 \<le> es_version s"

definition entry_inv_but :: "string set \<Rightarrow> entry_snapshot set \<Rightarrow> string list \<Rightarrow> database \<Rightarrow> bool" where
  "entry_inv_but open_links held links db \<longleftrightarrow> store_ok db
     \<and> (\<forall>s \<in> set (db_entries db). unsubmitted_first s
          \<and> (es_order_link_id s \<notin> open_links \<longrightarrow> booked (fills_of db (es_order_link_id s)) s))
     \<and> (\<forall>s \<in> held. unsubmitted_first s
          \<and> (\<exists>s'. entry_of db (es_order_link_id s) = Some s' \<and> (s' = s \<or> es_version s < es_version s')))
     \<and> distinct links \<and> (\<forall>l \<in> set links. \<exists>s. entry_of db l = Some s \<and> 2 \<le> es_version s)"

abbreviation entry_inv :: "entry_snapshot set \<Rightarrow> string list \<Rightarrow> database \<Rightarrow> bool" where
  "entry_inv \<equiv> entry_inv_but {}"

text \<open>When an order is placed its intent is stored and its entry is marked as submitted.\<close>

definition written_ahead :: "database \<times> place_order_request \<Rightarrow> bool" where
  "written_ahead p = (case p of (db, r) \<Rightarrow>
     (\<exists>row. intent_of db (po_order_link_id r) = Some row \<and> in_request row = r)
     \<and> (\<exists>s. entry_of db (po_order_link_id r) = Some s \<and> es_state s = ENTRY_SUBMITTED \<and> es_version s = 2))"

definition service_inv :: "entry_snapshot set \<Rightarrow> 'z world_scheme \<Rightarrow> bool" where
  "service_inv held w \<longleftrightarrow> entry_inv held (placed_links (w_calls w)) (w_store w)
     \<and> (\<forall>p \<in> set (placed (w_calls w)). written_ahead p)"

section \<open>The store under the service\<close>

definition continues :: "entry_snapshot \<Rightarrow> entry_snapshot \<Rightarrow> bool" where
  "continues s s1 \<longleftrightarrow> es_order_link_id s1 = es_order_link_id s \<and> es_version s1 = es_version s + 1
     \<and> es_state s1 \<noteq> ENTRY_REQUEST_PERSISTED \<and> es_filled_quantity s1 = es_filled_quantity s
     \<and> es_entry_notional s1 = es_entry_notional s \<and> es_entry_fees s1 = es_entry_fees s"

lemma transition_continues:
  "transition_entry_snapshot s st now oid = Inr s1 \<Longrightarrow> st \<noteq> ENTRY_REQUEST_PERSISTED \<Longrightarrow> continues s s1 \<and> es_state s1 = st"
  by (auto simp: transition_entry_snapshot_def continues_def dest!: mk_entry_snapshot_same)

lemma finalize_continues: "finalize_partial_entry s now = Inr s1 \<Longrightarrow> continues s s1"
  by (auto simp: finalize_partial_entry_def continues_def dest!: mk_entry_snapshot_same)

lemma entry_inv_keys: "entry_inv I L db \<Longrightarrow> distinct (map es_order_link_id (db_entries db))"
  by (simp add: entry_inv_but_def store_ok_keys)

text \<open>Replacing the stored snapshot of a link by one that books the fills of the link.\<close>

lemma entry_inv_save:
  assumes inv: "entry_inv_but {es_order_link_id s1} I L db" and save: "update_snapshot v s1 db = Inr db'"
    and s1: "unsubmitted_first s1" "booked (fills_of db (es_order_link_id s1)) s1"
  shows "entry_inv (insert s1 I) L db'"
proof -
  have ok: "store_ok db" using inv by (simp add: entry_inv_but_def)
  have ok': "store_ok db'" using sound_update_entry ok save unfolding sound_statement_def by blast
  have stored: "entry_of db' (es_order_link_id s1) = Some s1"
    using entries.save_writes [OF ok save] by simp
  have db': "db' = db\<lparr>db_entries := write_version es_order_link_id es_version v s1 (db_entries db)\<rparr>"
    using save by (auto simp: update_snapshot_def update_version_Inr)
  have fills: "fills_of db' = fills_of db" by (simp add: db' fills_of_def fun_eq_iff)
  have rows: "unsubmitted_first s \<and> booked (fills_of db' (es_order_link_id s)) s" if s: "s \<in> set (db_entries db')" for s
  proof (cases "es_order_link_id s = es_order_link_id s1")
    case True
    then have "entry_of db' (es_order_link_id s1) = Some s"
      using s find_row_iff [OF store_ok_keys(2) [OF ok']] by metis
    with stored have "s = s1" by simp
    with s1 fills show ?thesis by simp
  next
    case False
    then have "s \<in> set (db_entries db)" using s by (auto simp: db' dest!: set_write_version)
    with inv False fills show ?thesis by (simp add: entry_inv_but_def)
  qed
  have adv: "advances es_version (entry_of db) (entry_of db')" by (rule entries.save_advances [OF ok save])
  have held: "\<exists>s'. entry_of db' (es_order_link_id s) = Some s' \<and> (s' = s \<or> es_version s < es_version s')" if "s \<in> I" for s
    by (rule advances_newer [OF adv]) (use inv that in \<open>simp add: entry_inv_but_def\<close>)
  have submitted: "\<exists>s. entry_of db' l = Some s \<and> 2 \<le> es_version s" if "l \<in> set L" for l
    by (rule advances_at_least [OF adv]) (use inv that in \<open>simp add: entry_inv_but_def\<close>)
  show ?thesis
    using inv ok' rows held submitted s1(1) stored unfolding entry_inv_but_def by auto
qed

lemma entry_inv_weaken: "entry_inv I L db \<Longrightarrow> entry_inv_but X I L db"
  by (simp add: entry_inv_but_def)

text \<open>A snapshot that was handed out is the stored one as long as the version is.\<close>

lemma held_is_stored:
  assumes "entry_inv I L db" "s \<in> I \<or> entry_of db (es_order_link_id s) = Some s"
    and "entry_of db (es_order_link_id s) = Some old" "es_version old = es_version s"
  shows "old = s"
  using assms unfolding entry_inv_but_def by fastforce

lemma entry_inv_continue:
  assumes inv: "entry_inv I L db" and s: "s \<in> I \<or> entry_of db (es_order_link_id s) = Some s"
    and c: "continues s s1" and save: "update_snapshot (es_version s) s1 db = Inr db'"
  shows "entry_inv (insert s1 I) L db'" "entry_of db (es_order_link_id s) = Some s"
    "entry_of db' (es_order_link_id s) = Some s1"
proof -
  have ok: "store_ok db" using inv by (simp add: entry_inv_but_def)
  have link: "es_order_link_id s1 = es_order_link_id s" using c by (simp add: continues_def)
  obtain old where "entry_of db (es_order_link_id s) = Some old" "es_version old = es_version s"
    using entries.save_reads [OF ok save] by (auto simp: link)
  with held_is_stored [OF inv s] show st: "entry_of db (es_order_link_id s) = Some s" by blast
  then have "s \<in> set (db_entries db)" by (auto dest: find_row_SomeD)
  then have "unsubmitted_first s" "booked (fills_of db (es_order_link_id s)) s"
    using inv by (auto simp: entry_inv_but_def)
  then have "unsubmitted_first s1" "booked (fills_of db (es_order_link_id s1)) s1"
    using c by (auto simp: continues_def unsubmitted_first_def booked_def)
  then show "entry_inv (insert s1 I) L db'" by (rule entry_inv_save [OF entry_inv_weaken [OF inv] save])
  show "entry_of db' (es_order_link_id s) = Some s1"
    using entries.save_writes [OF ok save] by (simp add: link)
qed

lemma entry_inv_acknowledged:
  assumes "entry_inv I L db" "acknowledge_intent msg a db = Inr db'"
  shows "entry_inv I L db'" "entry_of db' = entry_of db"
proof -
  have db': "db' = db\<lparr>db_intents := map (acknowledge_row a) (db_intents db)\<rparr>"
    using assms(2) by (simp add: acknowledge_intent_def)
  have "store_ok db'" using sound_acknowledge assms unfolding sound_statement_def entry_inv_but_def by blast
  moreover have "fills_of db' = fills_of db" by (simp add: db' fills_of_def fun_eq_iff)
  ultimately show "entry_inv I L db'" using assms(1) unfolding entry_inv_but_def by (simp add: db')
  show "entry_of db' = entry_of db" by (simp add: db')
qed

lemma for_intent_facts:
  assumes "for_intent r t0 = Inr s"
  shows "es_order_link_id s = po_order_link_id r" "es_state s = ENTRY_REQUEST_PERSISTED" "es_version s = 1"
    "es_filled_quantity s = 0" "es_entry_notional s = 0" "es_entry_fees s = 0"
  using assms by (auto simp: for_intent_def dest!: mk_entry_snapshot_same)

lemma entry_inv_persist:
  assumes inv: "entry_inv I L db" and s: "for_intent r t0 = Inr s"
    and p: "persist_entry_intent r s t db = (db', Inr ())"
  shows "entry_inv (insert s I) L db'" "entry_of db' (po_order_link_id r) = Some s"
proof -
  note f = for_intent_facts [OF s]
  from p obtain db1 where i: "insert_order_intent r t db = Inr db1" and e: "insert_entry_snapshot s db1 = Inr db'"
    by (auto simp: persist_entry_intent_def persist_entry_intent_rows_def commit_def)
  have ok: "store_ok db" using inv by (simp add: entry_inv_but_def)
  have ok1: "store_ok db1" using sound_insert_intent ok i unfolding sound_statement_def by blast
  have ok': "store_ok db'" using sound_insert_entry ok1 e unfolding sound_statement_def by blast
  have new: "\<not> has_intent db (po_order_link_id r)" using i by (auto simp: insert_order_intent_def)
  have db1: "db_entries db1 = db_entries db" "db_executions db1 = db_executions db"
    using i by (auto simp: insert_order_intent_def)
  have db': "db_entries db' = db_entries db @ [s]" "db_executions db' = db_executions db"
    using e db1 by (auto simp: insert_entry_snapshot_def)
  have fills: "fills_of db' = fills_of db" by (simp add: fills_of_def db' fun_eq_iff)
  have none: "fills_of db (po_order_link_id r) = []"
  proof -
    have "\<forall>x \<in> set (db_executions db). has_intent db (ex_order_link_id (xr_execution x))"
      using ok unfolding store_defs by blast
    with new show ?thesis by (auto simp: fills_of_def filter_empty_conv simp del: has_intent_iff)
  qed
  have writes: "entry_of db' = (entry_of db)(po_order_link_id r \<mapsto> s)"
    using entries.add_writes [OF ok1 e] by (simp add: db1 f)
  have fresh: "entry_of db (po_order_link_id r) = None"
    using entries.add_fresh [OF ok1 e] by (simp add: db1 f)
  have rows: "\<forall>s' \<in> set (db_entries db'). unsubmitted_first s' \<and> booked (fills_of db' (es_order_link_id s')) s'"
    using inv f none unfolding entry_inv_but_def fills by (simp add: db' unsubmitted_first_def booked_def)
  have other: "l \<noteq> po_order_link_id r" if "entry_of db l = Some y" for l y using that fresh by auto
  have held: "\<forall>s' \<in> I. unsubmitted_first s'
      \<and> (\<exists>y. entry_of db' (es_order_link_id s') = Some y \<and> (y = s' \<or> es_version s' < es_version y))"
    using inv other unfolding entry_inv_but_def writes by fastforce
  have links: "\<forall>l \<in> set L. \<exists>y. entry_of db' l = Some y \<and> 2 \<le> es_version y"
    using inv other unfolding entry_inv_but_def writes by fastforce
  show "entry_inv (insert s I) L db'"
    using inv ok' rows held links f writes unfolding entry_inv_but_def by (simp add: unsubmitted_first_def)
  show "entry_of db' (po_order_link_id r) = Some s" by (simp add: writes)
qed

lemma fills_insert:
  assumes "insert_execution_if_new e t h db = Inr (db1, True)"
  shows "fills_of db1 l = fills_of db l @ (if ex_order_link_id e = l then [e] else [])"
    "db_entries db1 = db_entries db"
  using assms by (auto simp: insert_execution_if_new_def fills_of_def split: if_splits)

lemma entry_inv_execution:
  assumes inv: "entry_inv I L db" and s: "entry_of db (es_order_link_id s) = Some s"
    and u: "apply_entry_execution s e now = Inr s1"
    and p: "record_execution_and_snapshot (es_version s) e t h s1 db = (db', Inr b)"
  shows "entry_inv (if b then insert s1 I else I) L db'" "b \<Longrightarrow> entry_of db' (es_order_link_id s) = Some s1"
proof -
  note a = apply_entry_InrD [OF u]
  have link: "ex_order_link_id e = es_order_link_id s" using u by (simp add: apply_entry_execution_def)
  from p obtain db1 where i: "insert_execution_if_new e t (lower h) db = Inr (db1, b)"
    and u: "if b then update_snapshot (es_version s) s1 db1 = Inr db' else db' = db1"
    by (auto simp: record_execution_and_snapshot_def record_execution_and_snapshot_rows_def raise_bad_hash_def
        commit_execution_def split: if_splits)
  have "entry_inv (if b then insert s1 I else I) L db' \<and> (b \<longrightarrow> entry_of db' (es_order_link_id s) = Some s1)"
  proof (cases b)
    case False
    with i u have "db' = db" by (auto simp: insert_execution_if_new_def split: if_splits)
    with inv False show ?thesis by simp
  next
    case True
    have ok: "store_ok db" using inv by (simp add: entry_inv_but_def)
    have ok1: "store_ok db1" using sound_insert_execution [OF ok i] by simp
    have "insert_execution_if_new e t (lower h) db = Inr (db1, True)" using i True by simp
    note f = fills_insert [OF this]
    have inv1: "entry_inv_but {es_order_link_id s1} I L db1"
      using inv ok1 unfolding entry_inv_but_def by (auto simp: f link a(7))
    have "s \<in> set (db_entries db)" using s by (auto dest: find_row_SomeD)
    then have "unsubmitted_first s" "booked (fills_of db (es_order_link_id s)) s"
      using inv by (auto simp: entry_inv_but_def)
    then have "unsubmitted_first s1" "booked (fills_of db1 (es_order_link_id s1)) s1"
      using a by (auto simp: unsubmitted_first_def booked_def f link)
    from entry_inv_save [OF inv1 _ this] u True
    have "entry_inv (insert s1 I) L db'" by simp
    moreover have "entry_of db' (es_order_link_id s) = Some s1"
      using entries.save_writes [OF ok1, of "es_version s" s1 db'] u True by (simp add: a(7))
    ultimately show ?thesis using True by simp
  qed
  then show "entry_inv (if b then insert s1 I else I) L db'" "b \<Longrightarrow> entry_of db' (es_order_link_id s) = Some s1" by simp_all
qed

section \<open>The methods of the service\<close>

lemma entry_inv_held_mono: "entry_inv I L db \<Longrightarrow> J \<subseteq> I \<Longrightarrow> entry_inv J L db"
  unfolding entry_inv_but_def by blast

lemma service_inv_mono: "service_inv I w \<Longrightarrow> J \<subseteq> I \<Longrightarrow> service_inv J w"
  unfolding service_inv_def using entry_inv_held_mono by blast

lemma service_inv_less: "service_inv (insert s I) w \<Longrightarrow> service_inv I w"
  by (erule service_inv_mono) blast

text \<open>Calls that place no order change nothing the invariant speaks of.\<close>

lemma service_inv_call:
  "service_inv I w \<Longrightarrow> \<not> is_place c \<Longrightarrow> service_inv I (w\<lparr>w_calls := w_calls w @ [(w_store w, c)]\<rparr>)"
  by (simp add: service_inv_def placed_links_def del: placed_append)

lemma service_inv_store:
  "service_inv I w \<Longrightarrow> entry_inv J (placed_links (w_calls w)) db \<Longrightarrow> service_inv J (w\<lparr>w_store := db\<rparr>)"
  by (simp add: service_inv_def)

lemma service_inv_active [simp]: "service_inv I (w\<lparr>w_active := a\<rparr>) = service_inv I w"
  by (simp add: service_inv_def)

abbreviation stored_entry :: "'z world_scheme \<Rightarrow> string \<Rightarrow> entry_snapshot option" where
  "stored_entry w \<equiv> entry_of (w_store w)"

definition holds :: "entry_snapshot set \<Rightarrow> entry_snapshot \<Rightarrow> 'z world_scheme \<Rightarrow> bool" where
  "holds I s w \<longleftrightarrow> service_inv I w \<and> (s \<in> I \<or> stored_entry w (es_order_link_id s) = Some s)"

lemma triple_quiet:
  "\<not> is_place c \<Longrightarrow> triple (service_inv I) (ask c answer) (\<lambda>_. service_inv I) (\<lambda>_. service_inv I)"
  by (rule triple_ask) (simp_all add: service_inv_call)

lemma triple_required:
  "triple (service_inv I) (required_snapshot link)
     (\<lambda>s w. service_inv I w \<and> stored_entry w link = Some s \<and> es_order_link_id s = link) (\<lambda>_. service_inv I)"
  unfolding required_snapshot_def load_entry_snapshot_def
  by (rule triple_bind [where R = "\<lambda>v w. service_inv I w \<and> (\<forall>s. v = Some s \<longrightarrow> stored_entry w link = Some s \<and> es_order_link_id s = link)"],
      rule triple_load, auto simp: fetch_one_Inr missing_def triple_raise triple_return
        dest!: mk_entry_snapshot_same dest: find_row_SomeD split: option.splits intro: triple_return triple_raise)

text \<open>Storing a continuation \<open>s1\<close> of a snapshot that is held: it is the stored one then, and if \<open>s\<close> was of
  the first version no order has been placed for it. \<open>M\<close> are the intents, which do not change.\<close>

definition ready :: "entry_snapshot set \<Rightarrow> entry_snapshot \<Rightarrow> intent_row list \<Rightarrow> 'z world_scheme \<Rightarrow> bool" where
  "ready I s M w \<longleftrightarrow> holds I s w \<and> db_intents (w_store w) = M"

definition moved :: "entry_snapshot set \<Rightarrow> entry_snapshot \<Rightarrow> intent_row list \<Rightarrow> entry_snapshot \<Rightarrow> 'z world_scheme \<Rightarrow> bool" where
  "moved I s M s1 w \<longleftrightarrow> service_inv (insert s1 I) w \<and> stored_entry w (es_order_link_id s) = Some s1 \<and> continues s s1
     \<and> (es_version s = 1 \<longrightarrow> es_order_link_id s \<notin> set (placed_links (w_calls w))) \<and> db_intents (w_store w) = M"

lemma ready_inv: "ready I s M w \<Longrightarrow> service_inv I w"
  by (simp add: ready_def holds_def)

lemma moved_inv: "moved I s M s1 w \<Longrightarrow> service_inv (insert s1 I) w"
  by (simp add: moved_def)

lemma saved_entry:
  assumes "ready I s M w" "continues s s1" "update_snapshot (es_version s) s1 (w_store w) = Inr db"
  shows "moved I s M s1 (w\<lparr>w_store := db\<rparr>)"
proof -
  have inv: "entry_inv I (placed_links (w_calls w)) (w_store w)"
    and s: "s \<in> I \<or> stored_entry w (es_order_link_id s) = Some s"
    using assms(1) by (auto simp: ready_def holds_def service_inv_def)
  note c = entry_inv_continue [OF inv s assms(2,3)]
  have "db_intents db = M" using assms by (auto simp: update_snapshot_def ready_def)
  moreover have "es_order_link_id s \<notin> set (placed_links (w_calls w))" if "es_version s = 1"
    using inv c(2) that unfolding entry_inv_but_def by fastforce
  ultimately show ?thesis
    using assms(1,2) c service_inv_store [OF ready_inv [OF assms(1)]] by (auto simp: moved_def)
qed

lemma triple_write:
  assumes "continues s s1"
  shows "triple (ready I s M) (on_store (transition_entry_row (es_version s) s1)) (\<lambda>_. moved I s M s1) (\<lambda>_. service_inv I)"
  unfolding transition_entry_row_def
  by (rule triple_transact) (auto simp: commit_def intro: saved_entry [OF _ assms] ready_inv)

lemma triple_ready_clock: "triple (ready I s M) (clock x) (\<lambda>_. ready I s M) (\<lambda>_. service_inv I)"
  unfolding clock_def ready_def holds_def by (rule triple_ask) (simp_all add: service_inv_call)

text \<open>A reducer that continues the snapshot, then the write of its result.\<close>

lemma triple_continue:
  assumes "\<And>s1. r = Inr s1 \<Longrightarrow> continues s s1 \<and> C s1"
  shows "triple (ready I s M)
    (act_bind (act_lift r) (\<lambda>s1. act_bind (on_store (transition_entry_row (es_version s) s1)) (\<lambda>_. act_return s1)))
    (\<lambda>s1 w. moved I s M s1 w \<and> C s1) (\<lambda>_. service_inv I)"
proof (rule triple_bind [where R = "\<lambda>s1 w. ready I s M w \<and> continues s s1 \<and> C s1"], rule triple_lift)
  fix s1
  show "triple (\<lambda>w. ready I s M w \<and> continues s s1 \<and> C s1)
      (act_bind (on_store (transition_entry_row (es_version s) s1)) (\<lambda>_. act_return s1))
      (\<lambda>s1 w. moved I s M s1 w \<and> C s1) (\<lambda>_. service_inv I)"
    by (rule triple_pre [where b = "continues s s1 \<and> C s1"], blast, rule triple_bind,
        rule triple_weaken [OF triple_write [of s s1 I M]], blast, blast, assumption, assumption, rule triple_return, blast)
qed (use assms ready_inv in auto)

lemma triple_move:
  assumes "st \<noteq> ENTRY_REQUEST_PERSISTED"
  shows "triple (ready I s M) (move_entry x s st) (\<lambda>s1 w. moved I s M s1 w \<and> es_state s1 = st) (\<lambda>_. service_inv I)"
  unfolding move_entry_def
  by (rule triple_bind [OF triple_ready_clock], rule triple_continue, rule transition_continues [OF _ assms])

lemma triple_pointwise: "(\<And>s. P s \<Longrightarrow> triple (\<lambda>s'. s' = s) m Q E) \<Longrightarrow> triple P m Q E"
  by (simp add: triple_def)

text \<open>From a snapshot that is held, whatever the intents are.\<close>

lemma triple_any: "(\<And>M. triple (ready I s M) m Q E) \<Longrightarrow> triple (holds I s) m Q E"
  by (fastforce simp: triple_def ready_def)

lemma triple_keep_move:
  assumes "st \<noteq> ENTRY_REQUEST_PERSISTED"
  shows "triple (holds I s) (move_entry x s st) (\<lambda>s1. service_inv (insert s1 I)) (\<lambda>_. service_inv I)"
  by (rule triple_any, rule triple_weaken [OF triple_move [OF assms]]) (auto intro: moved_inv)

text \<open>Placing the order of a snapshot that has just been moved to \<open>ENTRY_SUBMITTED\<close>.\<close>

definition submitting :: "entry_snapshot set \<Rightarrow> place_order_request \<Rightarrow> entry_snapshot \<Rightarrow> 'z world_scheme \<Rightarrow> bool" where
  "submitting I r s1 w \<longleftrightarrow> service_inv (insert s1 I) w \<and> stored_entry w (po_order_link_id r) = Some s1
     \<and> es_order_link_id s1 = po_order_link_id r \<and> es_state s1 = ENTRY_SUBMITTED \<and> es_version s1 = 2
     \<and> po_order_link_id r \<notin> set (placed_links (w_calls w))
     \<and> (\<exists>row. intent_of (w_store w) (po_order_link_id r) = Some row \<and> in_request row = r)"

lemma triple_place:
  "triple (submitting I r s1) (place_order x r) (\<lambda>_. holds (insert s1 I) s1) (\<lambda>_. holds (insert s1 I) s1)"
  unfolding place_order_def
proof (rule triple_ask)
  fix w assume s: "submitting I r s1 w"
  let ?w = "w\<lparr>w_calls := w_calls w @ [(w_store w, Place r)]\<rparr>"
  have "entry_inv (insert s1 I) (placed_links (w_calls ?w)) (w_store ?w)"
    using s unfolding submitting_def service_inv_def entry_inv_but_def by (auto simp: placed_links_def)
  moreover have "written_ahead (w_store w, r)"
    using s unfolding submitting_def written_ahead_def by auto
  ultimately show "holds (insert s1 I) s1 ?w"
    using s unfolding submitting_def service_inv_def holds_def by auto
  then show "holds (insert s1 I) s1 ?w" .
qed

abbreviation hands_out :: "entry_snapshot set \<Rightarrow> ('z world_scheme \<Rightarrow> bool) \<Rightarrow> ('z world_scheme, entry_snapshot) act \<Rightarrow> bool" where
  "hands_out I P m \<equiv> triple P m (\<lambda>s. service_inv (insert s I)) (\<lambda>_. service_inv I)"

lemma holds_inv: "holds I s w \<Longrightarrow> service_inv I w"
  by (simp add: holds_def)

lemma triple_quiet_holds: "\<not> is_place c \<Longrightarrow> triple (holds I s) (ask c answer) (\<lambda>_. holds I s) (\<lambda>_. service_inv I)"
  unfolding holds_def by (rule triple_ask) (simp_all add: service_inv_call)

lemma triple_place_failed:
  "triple (holds I s) (place_failed x r s e) (\<lambda>_. holds I s) (\<lambda>_. service_inv I)"
proof -
  have fail: "triple (holds I s) (act_bind (move_entry x s st) (\<lambda>_. act_raise e1)) (\<lambda>_. holds I s) (\<lambda>_. service_inv I)"
    if "st \<noteq> ENTRY_REQUEST_PERSISTED" for st e1
    by (rule triple_bind [OF triple_keep_move [OF that]]) (auto intro: triple_raise service_inv_less)
  have ack: "triple (holds I s) (discovered_ack x d) (\<lambda>_. holds I s) (\<lambda>_. service_inv I)" for d
    unfolding discovered_ack_def clock_def
    by (rule triple_bind [OF triple_quiet_holds]) (auto intro: triple_lift holds_inv)
  have found: "triple (holds I s) (act_bind (get_order_by_link_id x (po_category r) (po_symbol r) (po_order_link_id r))
      (\<lambda>found. case found of None \<Rightarrow> act_bind (move_entry x s RECONCILING) (\<lambda>_. act_raise e1) | Some d \<Rightarrow> discovered_ack x d))
      (\<lambda>_. holds I s) (\<lambda>_. service_inv I)" for e1
    unfolding get_order_by_link_id_def
    by (rule triple_bind [OF triple_quiet_holds]) (auto split: option.splits intro: fail ack)
  have other: "triple (holds I s) (on_exception (\<lambda>e. act_bind (move_entry x s X_ERROR) (\<lambda>_. act_raise e)) e1)
      (\<lambda>_. holds I s) (\<lambda>_. service_inv I)" for e1
    by (rule triple_on_exception) (auto intro: holds_inv fail)
  show ?thesis
    unfolding place_failed_def
    by (cases e) (simp_all only: py_exn.case found other)
qed

lemma ack_row_saved:
  assumes "ready I s M w" "continues s s1"
    and t: "record_acknowledgement_and_snapshot_rows (es_version s) a s1 (w_store w) = Inr (db, y)"
  shows "service_inv (insert s1 I) (w\<lparr>w_store := db\<rparr>)"
proof -
  from t obtain db1 where a: "acknowledge_intent ''acknowledgement has no persisted intent'' a (w_store w) = Inr db1"
    and u: "update_snapshot (es_version s) s1 db1 = Inr db"
    by (auto simp: record_acknowledgement_and_snapshot_rows_def commit_def)
  have inv: "entry_inv I (placed_links (w_calls w)) (w_store w)"
    and s: "s \<in> I \<or> stored_entry w (es_order_link_id s) = Some s"
    using assms(1) by (auto simp: ready_def holds_def service_inv_def)
  note k = entry_inv_acknowledged [OF inv a]
  have "entry_inv (insert s1 I) (placed_links (w_calls w)) db"
    by (rule entry_inv_continue(1) [OF k(1) _ assms(2) u]) (use s k(2) in simp)
  then show ?thesis by (rule service_inv_store [OF ready_inv [OF assms(1)]])
qed

lemma triple_acknowledge: "hands_out I (holds I s) (acknowledge x s a)"
proof (rule triple_any)
  fix M
  show "hands_out I (ready I s M) (acknowledge x s a)"
    unfolding acknowledge_def
  proof (rule triple_bind [OF triple_ready_clock])
    fix now
    show "hands_out I (ready I s M) (act_bind (act_lift (transition_entry_snapshot s ENTRY_ACKNOWLEDGED now (Some (ak_order_id a))))
       (\<lambda>s1. act_bind (on_store (record_acknowledgement_and_snapshot (es_version s) a s1)) (\<lambda>_. act_return s1)))"
    proof (rule triple_bind [where R = "\<lambda>s1 w. ready I s M w \<and> continues s s1"], rule triple_lift)
      fix s1
      show "hands_out I (\<lambda>w. ready I s M w \<and> continues s s1)
          (act_bind (on_store (record_acknowledgement_and_snapshot (es_version s) a s1)) (\<lambda>_. act_return s1))"
        by (rule triple_bind [where R = "\<lambda>_. service_inv (insert s1 I)"])
          (auto simp: record_acknowledgement_and_snapshot_def intro!: triple_transact triple_return
            intro: ack_row_saved ready_inv)
    qed (use transition_continues in \<open>auto intro: ready_inv\<close>)
  qed
qed

lemma triple_place_and_acknowledge:
  "hands_out I (submitting I r s) (place_and_acknowledge x r s)"
proof -
  have "triple (submitting I r s) (act_catch (place_order x r) (place_failed x r s))
      (\<lambda>_. holds (insert s I) s) (\<lambda>_. service_inv (insert s I))"
    by (rule triple_catch [OF triple_place triple_place_failed])
  then have "hands_out (insert s I) (submitting I r s) (place_and_acknowledge x r s)"
    unfolding place_and_acknowledge_def by (rule triple_bind) (rule triple_acknowledge)
  then show ?thesis
    by (rule triple_weaken) (auto intro: service_inv_mono)
qed

lemma moved_submitting:
  assumes "moved I s M s1 w" "es_state s1 = ENTRY_SUBMITTED" "es_order_link_id s = po_order_link_id r" "es_version s = 1"
    and "\<exists>row. find_row intent_id M (po_order_link_id r) = Some row \<and> in_request row = r"
  shows "submitting I r s1 w"
  using assms by (auto simp: moved_def submitting_def continues_def)

lemma triple_submit_persisted:
  assumes "s \<in> I" shows "hands_out I (service_inv I) (submit_persisted_entry x r s)"
proof -
  let ?known = "\<lambda>M. \<exists>row. find_row intent_id M (po_order_link_id r) = Some row \<and> in_request row = r"
  have go: "hands_out I (ready I s M) (act_bind (set_active (po_order_link_id r))
      (\<lambda>_. act_bind (move_entry x s ENTRY_SUBMITTED) (place_and_acknowledge x r)))"
    if p: "es_order_link_id s = po_order_link_id r" "es_version s = 1" "?known M" for M
  proof (rule triple_bind [where R = "\<lambda>_. ready I s M"])
    show "triple (ready I s M) (set_active (po_order_link_id r)) (\<lambda>_. ready I s M) (\<lambda>_. service_inv I)"
      by (rule tripleI) (auto simp: set_active_def ready_def holds_def)
    show "hands_out I (ready I s M) (act_bind (move_entry x s ENTRY_SUBMITTED) (place_and_acknowledge x r))"
    proof (rule triple_bind [OF triple_move])
      fix s1
      show "hands_out I (\<lambda>w. moved I s M s1 w \<and> es_state s1 = ENTRY_SUBMITTED) (place_and_acknowledge x r s1)"
        by (rule triple_weaken [OF triple_place_and_acknowledge]) (auto intro: moved_submitting p)
    qed simp
  qed
  have load: "triple (service_inv I) (on_store (load_order_intent (po_order_link_id r)))
      (\<lambda>v w. service_inv I w \<and> (v = Some r \<longrightarrow> ?known (db_intents (w_store w)))) (\<lambda>_. service_inv I)"
    unfolding load_order_intent_def
    by (rule triple_load) (auto simp: fetch_one_Inr mk_place_order_request_def split: option.splits)
  have rest: "hands_out I (\<lambda>w. service_inv I w \<and> (v = Some r \<longrightarrow> ?known (db_intents (w_store w))))
      (if v \<noteq> Some r then act_raise (ValueError ''entry request is not durably persisted'')
       else act_bind (set_active (po_order_link_id r)) (\<lambda>_. act_bind (move_entry x s ENTRY_SUBMITTED) (place_and_acknowledge x r)))"
    if p: "es_order_link_id s = po_order_link_id r" "es_version s = 1" for v
  proof (rule triple_if)
    assume v: "\<not> v \<noteq> Some r"
    let ?m = "act_bind (set_active (po_order_link_id r)) (\<lambda>_. act_bind (move_entry x s ENTRY_SUBMITTED) (place_and_acknowledge x r))"
    show "hands_out I (\<lambda>w. service_inv I w \<and> (v = Some r \<longrightarrow> ?known (db_intents (w_store w)))) ?m"
    proof (rule triple_pointwise)
      fix w :: entry_world
      assume w: "service_inv I w \<and> (v = Some r \<longrightarrow> ?known (db_intents (w_store w)))"
      with v have "?known (db_intents (w_store w))" by simp
      from go [OF p this] show "hands_out I (\<lambda>w'. w' = w) ?m"
        by (rule triple_weaken) (use w assms in \<open>auto simp: ready_def holds_def\<close>)
    qed
  qed (auto intro: triple_raise)
  have first: "es_version s = 1" if "service_inv I w" "es_state s = ENTRY_REQUEST_PERSISTED" for w :: entry_world
    using that assms unfolding service_inv_def entry_inv_but_def unsubmitted_first_def by blast
  show ?thesis
    unfolding submit_persisted_entry_def
  proof (intro triple_if triple_raise, assumption, assumption)
    assume a: "\<not> es_order_link_id s \<noteq> po_order_link_id r" "\<not> es_state s \<noteq> ENTRY_REQUEST_PERSISTED"
    show "hands_out I (service_inv I) (act_bind (on_store (load_order_intent (po_order_link_id r))) (\<lambda>persisted.
        if persisted \<noteq> Some r then act_raise (ValueError ''entry request is not durably persisted'')
        else act_bind (set_active (po_order_link_id r)) (\<lambda>_.
          act_bind (move_entry x s ENTRY_SUBMITTED) (place_and_acknowledge x r))))"
      by (rule triple_pre [where b = "es_version s = 1"], rule first, assumption, use a in simp,
          rule triple_bind [OF load], rule rest, use a in simp, assumption)
  qed
qed

lemma triple_persist_intent: "hands_out I (service_inv I) (persist_intent x r)"
  unfolding persist_intent_def clock_def
proof (rule triple_bind [OF triple_quiet])
  fix t
  show "hands_out I (service_inv I) (act_bind (act_lift (for_intent r t)) (\<lambda>s. act_bind (on_store (persist_entry_intent r s t))
      (\<lambda>_. act_bind (set_active (po_order_link_id r)) (\<lambda>_. act_return s))))"
  proof (rule triple_bind [where R = "\<lambda>s w. service_inv I w \<and> for_intent r t = Inr s"], rule triple_lift)
    fix s
    have "triple (\<lambda>w :: entry_world. service_inv I w \<and> for_intent r t = Inr s) (on_store (persist_entry_intent r s t))
        (\<lambda>_. service_inv (insert s I)) (\<lambda>_. service_inv I)"
    proof (rule tripleI)
      fix w w' :: entry_world and y assume w: "service_inv I w \<and> for_intent r t = Inr s"
        and p: "on_store (persist_entry_intent r s t) w = (w', Inr y)"
      then obtain db where db: "persist_entry_intent r s t (w_store w) = (db, Inr ())" "w' = w\<lparr>w_store := db\<rparr>"
        by (auto simp: on_store_def split: prod.splits)
      from w have "entry_inv I (placed_links (w_calls w)) (w_store w)" by (simp add: service_inv_def)
      with entry_inv_persist(1) [OF _ _ db(1)] w db(2) show "service_inv (insert s I) w'"
        by (blast intro: service_inv_store)
    next
      fix w w' :: entry_world and e assume "service_inv I w \<and> for_intent r t = Inr s"
        and "on_store (persist_entry_intent r s t) w = (w', Inl e)"
      then show "service_inv I w'" by (auto simp: on_store_def persist_entry_intent_def split: prod.splits)
    qed
    then show "hands_out I (\<lambda>w. service_inv I w \<and> for_intent r t = Inr s)
        (act_bind (on_store (persist_entry_intent r s t)) (\<lambda>_. act_bind (set_active (po_order_link_id r)) (\<lambda>_. act_return s)))"
      by (rule triple_bind) (auto simp: triple_def act_bind_def set_active_def)
  qed auto
qed simp

lemma triple_submit: "hands_out I (service_inv I) (submit_entry x r)"
proof -
  have "triple (service_inv (insert s I)) (submit_persisted_entry x r s) (\<lambda>s'. service_inv (insert s' I)) (\<lambda>_. service_inv I)" for s
    by (rule triple_weaken [OF triple_submit_persisted [of s "insert s I"]]) (auto intro: service_inv_mono)
  then show ?thesis unfolding submit_entry_def by (rule triple_bind [OF triple_persist_intent])
qed

lemma triple_required_out: "hands_out I (service_inv I) (required_snapshot link)"
proof (rule triple_weaken [OF triple_required [of I link]])
  fix s and w :: "'z world_scheme" assume w: "service_inv I w \<and> stored_entry w link = Some s \<and> es_order_link_id s = link"
  then have inv: "entry_inv I (placed_links (w_calls w)) (w_store w)" by (simp add: service_inv_def)
  have "s \<in> set (db_entries (w_store w))" using w by (auto dest: find_row_SomeD)
  then have "unsubmitted_first s" using inv by (auto simp: entry_inv_but_def)
  then have "entry_inv (insert s I) (placed_links (w_calls w)) (w_store w)"
    using inv w unfolding entry_inv_but_def by auto
  then show "service_inv (insert s I) w" using w by (simp add: service_inv_def)
qed auto

lemma triple_stored_ready:
  assumes "\<And>M. triple (ready I s M) m Q E"
  shows "triple (\<lambda>w. service_inv I w \<and> stored_entry w link = Some s \<and> es_order_link_id s = link) m Q E"
  using triple_any [of I s, OF assms] by (rule triple_weaken) (auto simp: holds_def)

lemma triple_apply_execution:
  "hands_out I (service_inv I) (apply_execution e t h :: ('z world_scheme, entry_snapshot) act)"
  unfolding apply_execution_def
proof (rule triple_bind [OF triple_required])
  fix s
  let ?l = "ex_order_link_id e"
  let ?P = "\<lambda>w :: 'z world_scheme. service_inv I w \<and> stored_entry w ?l = Some s \<and> es_order_link_id s = ?l"
  have out: "hands_out I ?P (act_return s)"
    by (rule triple_return) (use triple_required_out in \<open>auto simp: service_inv_def entry_inv_but_def dest: find_row_SomeD\<close>)
  have new: "hands_out I ?P (act_bind (act_lift (apply_entry_execution s e t)) (\<lambda>updated.
      act_bind (on_store (record_execution_and_snapshot (es_version s) e t h updated)) (\<lambda>inserted.
        if inserted then act_return updated else required_snapshot ?l)))"
  proof (rule triple_bind [where R = "\<lambda>u w. ?P w \<and> apply_entry_execution s e t = Inr u"], rule triple_lift)
    fix u
    have "triple (\<lambda>w. ?P w \<and> apply_entry_execution s e t = Inr u) (on_store (record_execution_and_snapshot (es_version s) e t h u))
        (\<lambda>b. service_inv (if b then insert u I else I)) (\<lambda>_. service_inv I)"
    proof (rule tripleI)
      fix w w' :: "'z world_scheme" and b assume w: "?P w \<and> apply_entry_execution s e t = Inr u"
        and r: "on_store (record_execution_and_snapshot (es_version s) e t h u) w = (w', Inr b)"
      then obtain db where db: "record_execution_and_snapshot (es_version s) e t h u (w_store w) = (db, Inr b)" "w' = w\<lparr>w_store := db\<rparr>"
        by (auto simp: on_store_def split: prod.splits)
      from w have "entry_inv I (placed_links (w_calls w)) (w_store w)" by (simp add: service_inv_def)
      from entry_inv_execution(1) [OF this _ _ db(1)] w db(2)
      show "service_inv (if b then insert u I else I) w'" by (auto intro: service_inv_store)
    next
      fix w w' :: "'z world_scheme" and x assume "?P w \<and> apply_entry_execution s e t = Inr u"
        and "on_store (record_execution_and_snapshot (es_version s) e t h u) w = (w', Inl x)"
      then show "service_inv I w'"
        by (auto simp: on_store_def record_execution_and_snapshot_def split: prod.splits)
    qed
    then show "hands_out I (\<lambda>w. ?P w \<and> apply_entry_execution s e t = Inr u)
        (act_bind (on_store (record_execution_and_snapshot (es_version s) e t h u)) (\<lambda>inserted.
          if inserted then act_return u else required_snapshot ?l))"
    proof (rule triple_bind)
      fix b show "hands_out I (service_inv (if b then insert u I else I)) (if b then act_return u else required_snapshot ?l)"
        by (cases b) (auto intro: triple_return triple_required_out)
    qed
  qed auto
  show "hands_out I ?P (act_bind (on_store (has_execution (ex_execution_id e))) (\<lambda>known. if known then act_return s else
      act_bind (act_lift (apply_entry_execution s e t)) (\<lambda>updated.
        act_bind (on_store (record_execution_and_snapshot (es_version s) e t h updated)) (\<lambda>inserted.
          if inserted then act_return updated else required_snapshot ?l))))"
    unfolding has_execution_def
    by (rule triple_bind [where R = "\<lambda>_. ?P"], rule triple_has, assumption) (auto intro: out new)
qed

lemma triple_finalize: "hands_out I (service_inv I) (finalize_partial_fill x link)"
  unfolding finalize_partial_fill_def
proof (rule triple_bind [OF triple_required], rule triple_stored_ready)
  fix s M
  show "hands_out I (ready I s M) (act_bind (clock x) (\<lambda>now. act_bind (act_lift (finalize_partial_entry s now)) (\<lambda>s1.
      act_bind (on_store (transition_entry_row (es_version s) s1)) (\<lambda>_. act_return s1))))"
    by (rule triple_bind [OF triple_ready_clock], rule triple_weaken [OF triple_continue [where C = "\<lambda>_. True"]])
      (auto intro: finalize_continues moved_inv)
qed

lemma triple_reconcile: "triple (service_inv I) (reconcile_position x ps) (\<lambda>_. service_inv I) (\<lambda>_. service_inv I)"
  unfolding reconcile_position_def
proof (rule triple_bind [where R = "\<lambda>_. service_inv I"])
  show "triple (service_inv I) active_link (\<lambda>_. service_inv I) (\<lambda>_. service_inv I)"
    by (rule tripleI) (simp_all add: active_link_def)
  fix link
  show "triple (service_inv I) (act_bind (required_snapshot link) (\<lambda>s. if entry_position_matches s ps then act_return True
      else if es_state s \<noteq> RECONCILING then act_bind (move_entry x s RECONCILING) (\<lambda>_. act_return False) else act_return False))
      (\<lambda>_. service_inv I) (\<lambda>_. service_inv I)"
  proof (rule triple_bind [OF triple_required], rule triple_stored_ready)
    fix s M
    have "triple (ready I s M) (act_bind (move_entry x s RECONCILING) (\<lambda>_. act_return False)) (\<lambda>_. service_inv I) (\<lambda>_. service_inv I)"
      by (rule triple_bind [OF triple_move]) (auto intro!: triple_return intro: service_inv_less moved_inv)
    then show "triple (ready I s M) (if entry_position_matches s ps then act_return True
        else if es_state s \<noteq> RECONCILING then act_bind (move_entry x s RECONCILING) (\<lambda>_. act_return False) else act_return False)
        (\<lambda>_. service_inv I) (\<lambda>_. service_inv I)"
      by (auto intro!: triple_return intro: ready_inv)
  qed
qed

section \<open>Any sequence of calls\<close>

fun issue :: "entry_snapshot res \<Rightarrow> entry_snapshot set \<Rightarrow> entry_snapshot set" where
  "issue (Inr s) I = insert s I"
| "issue (Inl e) I = I"

text \<open>Other components write to the same store: anything but the entries and their executions.\<close>

definition elsewhere :: "database \<Rightarrow> database \<Rightarrow> bool" where
  "elsewhere db db' \<longleftrightarrow> store_runs db db' \<and> db_entries db' = db_entries db
     \<and> (\<forall>s \<in> set (db_entries db). fills_of db' (es_order_link_id s) = fills_of db (es_order_link_id s))"

text \<open>The worlds a client can reach, with the snapshots it holds: it may call any method with any
  arguments in any order, except that a snapshot it submits is one it was given.\<close>

inductive entry_run :: "exchange \<Rightarrow> entry_snapshot set \<Rightarrow> entry_world \<Rightarrow> bool" for x where
  Begin: "entry_run x {} \<lparr>w_store = empty_database, w_calls = [], w_active = None\<rparr>"
| Persist: "entry_run x I w \<Longrightarrow> persist_intent x r w = (w', res) \<Longrightarrow> entry_run x (issue res I) w'"
| Submit_Persisted: "entry_run x I w \<Longrightarrow> s \<in> I \<Longrightarrow> submit_persisted_entry x r s w = (w', res) \<Longrightarrow> entry_run x (issue res I) w'"
| Submit: "entry_run x I w \<Longrightarrow> submit_entry x r w = (w', res) \<Longrightarrow> entry_run x (issue res I) w'"
| Fill: "entry_run x I w \<Longrightarrow> apply_execution e t h w = (w', res) \<Longrightarrow> entry_run x (issue res I) w'"
| Finalize: "entry_run x I w \<Longrightarrow> finalize_partial_fill x link w = (w', res) \<Longrightarrow> entry_run x (issue res I) w'"
| Reconcile: "entry_run x I w \<Longrightarrow> reconcile_position x ps w = (w', b) \<Longrightarrow> entry_run x I w'"
| Elsewhere: "entry_run x I w \<Longrightarrow> elsewhere (w_store w) db \<Longrightarrow> entry_run x I (w\<lparr>w_store := db\<rparr>)"

lemma hands_out_issue:
  assumes "hands_out I (service_inv I) m" "m w = (w', res)" "service_inv I w"
  shows "service_inv (issue res I) w'"
  using assms by (cases res) (auto dest: triple_Inr triple_Inl)

lemma elsewhere_inv:
  assumes "service_inv I w" "elsewhere (w_store w) db"
  shows "service_inv I (w\<lparr>w_store := db\<rparr>)"
proof -
  have "store_ok db"
    using assms store_runs_sound [of "w_store w" db] by (auto simp: elsewhere_def service_inv_def entry_inv_but_def)
  then have "entry_inv I (placed_links (w_calls w)) db"
    using assms unfolding elsewhere_def service_inv_def entry_inv_but_def by simp
  with assms(1) show ?thesis by (rule service_inv_store)
qed

lemma entry_run_inv: "entry_run x I w \<Longrightarrow> service_inv I w"
proof (induction rule: entry_run.induct)
  case Begin
  show ?case by (simp add: service_inv_def entry_inv_but_def placed_links_def) (simp add: empty_database_def)
next
  case (Persist I w r w' res)
  then show ?case by (blast intro: hands_out_issue [OF triple_persist_intent])
next
  case (Submit_Persisted I w s r w' res)
  then show ?case by (blast intro: hands_out_issue [OF triple_submit_persisted])
next
  case (Submit I w r w' res)
  then show ?case by (blast intro: hands_out_issue [OF triple_submit])
next
  case (Fill I w e t h w' res)
  then show ?case by (blast intro: hands_out_issue [OF triple_apply_execution])
next
  case (Finalize I w link w' res)
  then show ?case by (blast intro: hands_out_issue [OF triple_finalize])
next
  case (Reconcile I w ps w' b)
  then show ?case by (cases b) (auto dest: triple_Inr [OF triple_reconcile] triple_Inl [OF triple_reconcile])
next
  case (Elsewhere I w db)
  then show ?case by (blast intro: elsewhere_inv)
qed

text \<open>C32. Every entry is submitted at most once, and only after it is durable. Over an exchange that may
  answer anything, and over any sequence of calls of the service mixed with writes of other components:
  no client order id is placed twice, and whenever an order is placed the store holds its request, and its
  entry in the state \<open>ENTRY_SUBMITTED\<close> with nothing filled.\<close>

theorem entry_submitted_once:
  assumes "entry_run x I w"
  shows "distinct (placed_links (w_calls w))
    \<and> (\<forall>(db, r) \<in> set (placed (w_calls w)).
        (\<exists>row. intent_of db (po_order_link_id r) = Some row \<and> in_request row = r)
        \<and> (\<exists>s. entry_of db (po_order_link_id r) = Some s \<and> es_state s = ENTRY_SUBMITTED \<and> es_version s = 2))"
proof -
  have "distinct (placed_links (w_calls w))" "\<forall>p \<in> set (placed (w_calls w)). written_ahead p"
    using entry_run_inv [OF assms] by (simp_all add: service_inv_def entry_inv_but_def)
  then show ?thesis unfolding written_ahead_def by simp
qed

text \<open>C33. An entry books exactly the executions recorded for it. After any sequence of calls, the stored
  quantity, notional and fees of an entry are the sums over the executions in the store that carry its
  client order id, each execution being stored once; and applying an execution that is stored already
  changes nothing.\<close>

theorem entry_books_executions:
  assumes "entry_run x I w" and "entry_of (w_store w) link = Some s"
  shows "es_filled_quantity s = foldl (\<lambda>q e. dadd q (ex_quantity e)) 0 (fills_of (w_store w) link)
    \<and> es_entry_notional s = foldl (\<lambda>n e. dadd n (dmul (ex_price e) (ex_quantity e))) 0 (fills_of (w_store w) link)
    \<and> es_entry_fees s = foldl (\<lambda>f e. dadd f (ex_fee e)) 0 (fills_of (w_store w) link)
    \<and> distinct (map ex_execution_id (fills_of (w_store w) link))
    \<and> (\<forall>e t h. has_row execution_id (db_executions (w_store w)) (ex_execution_id e) \<longrightarrow> fst (apply_execution e t h w) = w)"
proof -
  have inv: "entry_inv I (placed_links (w_calls w)) (w_store w)"
    using entry_run_inv [OF assms(1)] by (simp add: service_inv_def)
  have b: "booked (fills_of (w_store w) link) s"
    using inv assms(2) unfolding entry_inv_but_def by (auto dest: find_row_SomeD)
  have "distinct (map execution_id (db_executions (w_store w)))"
    using inv by (simp add: entry_inv_but_def store_ok_keys)
  then have "distinct (map ex_execution_id (map xr_execution (db_executions (w_store w))))"
    by (simp add: execution_id_def [abs_def] comp_def)
  then have d: "distinct (map ex_execution_id (fills_of (w_store w) link))"
    unfolding fills_of_def by (rule distinct_map_filter)
  have "fst (apply_execution e t h w) = w" if "has_row execution_id (db_executions (w_store w)) (ex_execution_id e)" for e t h
    using that by (auto simp: apply_execution_def act_bind_def required_snapshot_def load_entry_snapshot_def on_store_query
        missing_def has_execution_def on_store_get fetch_one_def split: option.splits sum.splits)
  with b d show ?thesis unfolding booked_def by blast
qed

section \<open>An example run\<close>

definition prompt_exchange :: exchange where
  "prompt_exchange = \<lparr>x_place = (\<lambda>h r. Inr \<lparr>ak_request_kind = PLACE, ak_order_id = ''o1'', ak_order_link_id = po_order_link_id r,
       ak_acknowledged_at = Aware (int (length h))\<rparr>),
     x_cancel = (\<lambda>h r. Inr \<lparr>ak_request_kind = CANCEL, ak_order_id = ''o1'', ak_order_link_id = ca_order_link_id r,
       ak_acknowledged_at = Aware (int (length h))\<rparr>),
     x_order = (\<lambda>h link. Inr None), x_open_orders = (\<lambda>h. Inr []), x_executions = (\<lambda>h link. Inr []),
     x_positions = (\<lambda>h. Inr []), x_clock = (\<lambda>h. Aware (int (length h)))\<rparr>"

definition start_world :: entry_world where
  "start_world = \<lparr>w_store = empty_database, w_calls = [], w_active = None\<rparr>"

definition submitted_world :: entry_world where
  "submitted_world = fst (submit_entry prompt_exchange sample_entry_request start_world)"

definition filled_world :: entry_world where
  "filled_world = fst (apply_execution (fst (sample_fill 3000 (1 / 4))) (Aware 9) (replicate 64 (CHR ''a'')) submitted_world)"

lemma filled_world_run: "\<exists>I. entry_run prompt_exchange I filled_world"
proof -
  have "entry_run prompt_exchange {} start_world" unfolding start_world_def by (rule entry_run.Begin)
  from entry_run.Submit [OF this surjective_pairing] obtain I where "entry_run prompt_exchange I submitted_world"
    unfolding submitted_world_def by blast
  from entry_run.Fill [OF this surjective_pairing] show ?thesis unfolding filled_world_def by blast
qed

lemma map_singletonD: "map f xs = [y] \<Longrightarrow> \<exists>x. xs = [x] \<and> f x = y"
  by (auto simp: map_eq_Cons_conv)

theorem entry_submitted_once_witness:
  "\<exists>I. entry_run prompt_exchange I filled_world \<and> placed_links (w_calls filled_world) = [sample_link]
     \<and> distinct (placed_links (w_calls filled_world))"
proof -
  have "placed_links (w_calls filled_world) = [sample_link]" by code_simp
  with filled_world_run entry_submitted_once show ?thesis by blast
qed

theorem entry_books_executions_witness:
  "\<exists>I s. entry_run prompt_exchange I filled_world \<and> entry_of (w_store filled_world) sample_link = Some s
     \<and> es_filled_quantity s = 1 / 4"
proof -
  obtain I where I: "entry_run prompt_exchange I filled_world" using filled_world_run by blast
  have "map ex_quantity (fills_of (w_store filled_world) sample_link) = [1 / 4]" by code_simp
  then obtain e where e: "fills_of (w_store filled_world) sample_link = [e]" "ex_quantity e = 1 / 4"
    using map_singletonD by metis
  have "case_option False (\<lambda>_. True) (entry_of (w_store filled_world) sample_link)" by code_simp
  then obtain s where s: "entry_of (w_store filled_world) sample_link = Some s" by (cases "entry_of (w_store filled_world) sample_link") auto
  have "es_filled_quantity s = foldl (\<lambda>q e. dadd q (ex_quantity e)) 0 (fills_of (w_store filled_world) sample_link)"
    using entry_books_executions [OF I s] by blast
  then have "es_filled_quantity s = dadd 0 (1 / 4)" unfolding e(1) by (simp only: foldl.simps e(2))
  moreover have "dadd 0 (1 / 4) = 1 / 4" by code_simp
  ultimately show ?thesis using I s by metis
qed

end
