(* ===== verification/Reconciliation.thy ===== *)
theory Reconciliation
  imports Actions Live_Execution Protected_Execution "HOL-Library.List_Lexorder" "HOL-Library.Product_Lexorder"
    "HOL-Library.Char_ord"
begin

text \<open>
  \<open>domain/reconciliation.py\<close>, \<open>application/startup_reconciliation.py\<close> (\<open>evaluate_startup_reconciliation\<close>
  and its helpers) and \<open>application/read_only_reconciliation.py\<close> (\<open>evaluate_private_snapshot\<close>): the
  comparison of the durable local state with the private state of the exchange. Each loop of the source
  is a fold that appends differences and repair actions and raises the severity. The text of a
  \<open>Decimal\<close> in a message is a parameter \<open>show\<close>. The lemmas show the exact condition under which trading
  is allowed, that every report can be constructed, and one hole of that condition.
\<close>

section \<open>Reports\<close>

datatype reconciliation_status = MATCHED | REPAIRABLE | AMBIGUOUS | DANGEROUS

datatype state_difference_kind = UNKNOWN_EXCHANGE_ORDER | MISSING_EXCHANGE_ORDER | PROTECTION_MISMATCH
  | MISSING_PROTECTION | MISSING_TAKE_PROFIT | POSITION_MISMATCH | UNKNOWN_EXCHANGE_POSITION
  | UNKNOWN_OPTION_POSITION | MISSING_LOCAL_EXECUTION | UNKNOWN_EXCHANGE_EXECUTION

datatype repair_action_kind = IMPORT_ORDER | RESTORE_PROTECTION | RESTORE_TAKE_PROFIT | IMPORT_EXECUTION

record state_difference =
  sd_kind :: state_difference_kind
  sd_detail :: string
  sd_order_link_id :: "string option"

record repair_action =
  ra_kind :: repair_action_kind
  ra_detail :: string
  ra_order_link_id :: "string option"

record reconciliation_report =
  rr_status :: reconciliation_status
  rr_differences :: "state_difference list"
  rr_repair_actions :: "repair_action list"
  rr_trading_allowed :: bool

definition mk_state_difference :: "state_difference \<Rightarrow> state_difference res" where
  [post_init]: "mk_state_difference d = raise_when (blank (sd_detail d)) ''difference detail cannot be empty'' (Inr d)"

definition mk_repair_action :: "repair_action \<Rightarrow> repair_action res" where
  [post_init]: "mk_repair_action a = raise_when (blank (ra_detail a)) ''repair detail cannot be empty'' (Inr a)"

definition mk_reconciliation_report :: "reconciliation_report \<Rightarrow> reconciliation_report res" where
  [post_init]: "mk_reconciliation_report r = check_all
    [(rr_trading_allowed r \<noteq> (rr_status r = MATCHED), ''only MATCHED reconciliation may allow trading''),
     (rr_status r = MATCHED \<and> (rr_differences r \<noteq> [] \<or> rr_repair_actions r \<noteq> []),
      ''MATCHED reconciliation cannot contain differences'')] (Inr r)"

text \<open>\<open>_SEVERITY\<close> orders the statuses, and makes them an instance of \<open>linorder\<close>.\<close>

fun severity_rank :: "reconciliation_status \<Rightarrow> nat" where
  "severity_rank MATCHED = 0"
| "severity_rank REPAIRABLE = 1"
| "severity_rank AMBIGUOUS = 2"
| "severity_rank DANGEROUS = 3"

lemma severity_rank_inj: "severity_rank a = severity_rank b \<Longrightarrow> a = b"
  by (cases a; cases b) simp_all

instantiation reconciliation_status :: linorder
begin

definition less_eq_reconciliation_status :: "reconciliation_status \<Rightarrow> reconciliation_status \<Rightarrow> bool" where
  "a \<le> b \<longleftrightarrow> severity_rank a \<le> severity_rank b"

definition less_reconciliation_status :: "reconciliation_status \<Rightarrow> reconciliation_status \<Rightarrow> bool" where
  "a < b \<longleftrightarrow> severity_rank a < severity_rank b"

instance
  by standard (auto simp: less_eq_reconciliation_status_def less_reconciliation_status_def intro: severity_rank_inj)

end

definition more_severe :: "reconciliation_status \<Rightarrow> reconciliation_status \<Rightarrow> reconciliation_status" where
  "more_severe current candidate = (if severity_rank current < severity_rank candidate then candidate else current)"

lemma more_severe_max: "more_severe a b = max a b"
  by (auto simp: more_severe_def max_def less_eq_reconciliation_status_def intro: severity_rank_inj)

lemma MATCHED_least [simp]: "MATCHED \<le> s"
  by (simp add: less_eq_reconciliation_status_def)

lemma max_MATCHED_iff [simp]: "max a b = MATCHED \<longleftrightarrow> a = MATCHED \<and> b = MATCHED"
  by (metis MATCHED_least max.absorb1 max.cobounded1 max.cobounded2 order_antisym)

section \<open>Local and exchange state\<close>

record expected_position =
  xp_category :: instrument_category
  xp_symbol :: string
  xp_side :: order_side
  xp_quantity :: dec

definition mk_expected_position :: "expected_position \<Rightarrow> expected_position res" where
  [post_init]: "mk_expected_position p = check_all
    [(blank (xp_symbol p), ''expected position symbol cannot be empty''),
     (xp_quantity p \<le> 0, ''expected position quantity must be positive'')] (Inr p)"

record private_account_snapshot =
  pa_open_orders :: "exchange_order list"
  pa_recent_orders :: "exchange_order list"
  pa_executions :: "execution_update list"
  pa_positions :: "exchange_position list"
  pa_wallet :: wallet_state
  pa_captured_at_utc :: datetime

definition mk_private_account_snapshot :: "private_account_snapshot \<Rightarrow> private_account_snapshot res" where
  [post_init]: "mk_private_account_snapshot s = raise_naive (pa_captured_at_utc s) ''private snapshot time'' (Inr s)"

record local_recovery_state =
  lx_order_intents :: "place_order_request list"
  lx_entry_snapshots :: "entry_snapshot list"
  lx_protection_snapshots :: "protection_snapshot list"
  lx_expected_option_positions :: "expected_position list"
  lx_executions :: "execution_update list"

definition mk_local_recovery_state :: "local_recovery_state \<Rightarrow> local_recovery_state res" where
  [post_init]: "mk_local_recovery_state l = check_all
    [(\<not> distinct (map po_order_link_id (lx_order_intents l)), ''local order intents must have unique client IDs''),
     (\<not> distinct (map es_order_link_id (lx_entry_snapshots l)), ''local entry snapshots must have unique client IDs''),
     (\<not> distinct (map ps_entry_order_link_id (lx_protection_snapshots l)), ''protection snapshots must have unique entries''),
     (\<not> distinct (map ex_execution_id (lx_executions l)), ''local executions must have unique execution IDs'')] (Inr l)"

section \<open>The startup comparison\<close>

text \<open>The differences and actions found so far, and the severity.\<close>

record findings =
  fi_differences :: "state_difference list"
  fi_actions :: "repair_action list"
  fi_severity :: reconciliation_status

definition found ::
    "state_difference_kind \<Rightarrow> string \<Rightarrow> string option \<Rightarrow> (repair_action_kind \<times> string) option \<Rightarrow> reconciliation_status
     \<Rightarrow> findings \<Rightarrow> findings" where
  "found kind detail link repair s f = f\<lparr>
     fi_differences := fi_differences f @ [\<lparr>sd_kind = kind, sd_detail = detail, sd_order_link_id = link\<rparr>],
     fi_actions := fi_actions f @ (case repair of None \<Rightarrow> [] | Some (k, d) \<Rightarrow>
       [\<lparr>ra_kind = k, ra_detail = d, ra_order_link_id = link\<rparr>]),
     fi_severity := more_severe (fi_severity f) s\<rparr>"

definition by_link :: "('o \<Rightarrow> string) \<Rightarrow> 'o list \<Rightarrow> string \<Rightarrow> 'o option" where
  "by_link key xs = map_of (dict_of (map (\<lambda>x. (key x, x)) xs))"

definition is_owned_order_link_id :: "string \<Rightarrow> int \<Rightarrow> string \<Rightarrow> bool" where
  "is_owned_order_link_id instance_name cycle_number link = (case parse_id link of
     Inl _ \<Rightarrow> False
   | Inr i \<Rightarrow> strategy_instance i = instance_name \<and> cycle i = cycle_number)"

definition order_matches_intent :: "exchange_order \<Rightarrow> place_order_request \<Rightarrow> bool" where
  "order_matches_intent o1 r \<longleftrightarrow> eo_category o1 = po_category r \<and> eo_symbol o1 = po_symbol r \<and> eo_side o1 = po_side r
     \<and> eo_order_type o1 = po_order_type r \<and> eo_price o1 = po_price r \<and> eo_quantity o1 = po_quantity r
     \<and> eo_reduce_only o1 = po_reduce_only r \<and> eo_trigger_price o1 = po_trigger_price r
     \<and> eo_trigger_by o1 = po_trigger_by r \<and> eo_trigger_direction o1 = po_trigger_direction r
     \<and> eo_time_in_force o1 = Some (po_time_in_force r) \<and> eo_position_idx o1 = Some (po_position_idx r)
     \<and> eo_close_on_trigger o1 = po_close_on_trigger r"

definition check_open_order :: "local_recovery_state \<Rightarrow> string \<Rightarrow> int \<Rightarrow> findings \<Rightarrow> exchange_order \<Rightarrow> findings" where
  "check_open_order l instance_name cycle_number f o1 =
     (if by_link po_order_link_id (lx_order_intents l) (eo_order_link_id o1) \<noteq> None then f
      else if is_owned_order_link_id instance_name cycle_number (eo_order_link_id o1)
      then found UNKNOWN_EXCHANGE_ORDER (''exchange order '' @ eo_order_id o1 @ '' is not in the local journal'')
        (Some (eo_order_link_id o1)) (Some (IMPORT_ORDER, ''import strategy-owned order after operator review'')) REPAIRABLE f
      else found UNKNOWN_EXCHANGE_ORDER (''exchange order '' @ eo_order_id o1 @ '' is not in the local journal'')
        (Some (eo_order_link_id o1)) None AMBIGUOUS f)"

definition check_execution :: "local_recovery_state \<Rightarrow> string \<Rightarrow> int \<Rightarrow> findings \<Rightarrow> execution_update \<Rightarrow> findings" where
  "check_execution l instance_name cycle_number f x =
     (if ex_execution_id x \<in> set (map ex_execution_id (lx_executions l)) then f
      else if by_link po_order_link_id (lx_order_intents l) (ex_order_link_id x) \<noteq> None
          \<or> is_owned_order_link_id instance_name cycle_number (ex_order_link_id x)
      then found MISSING_LOCAL_EXECUTION (''exchange execution '' @ ex_execution_id x @ '' is absent locally'')
        (Some (ex_order_link_id x)) (Some (IMPORT_EXECUTION, ''persist and replay the missing exchange execution'')) REPAIRABLE f
      else found UNKNOWN_EXCHANGE_EXECUTION (''exchange execution '' @ ex_execution_id x @ '' is absent locally'')
        (Some (ex_order_link_id x)) None AMBIGUOUS f)"

definition in_flight :: "entry_snapshot \<Rightarrow> bool" where
  "in_flight s \<longleftrightarrow> es_state s \<in> set [ENTRY_SUBMITTED, ENTRY_ACKNOWLEDGED, ENTRY_PARTIALLY_FILLED]"

definition check_in_flight :: "private_account_snapshot \<Rightarrow> findings \<Rightarrow> entry_snapshot \<Rightarrow> findings" where
  "check_in_flight e f s =
     (if \<not> in_flight s then f
      else if by_link eo_order_link_id (pa_open_orders e) (es_order_link_id s) = None
          \<and> by_link eo_order_link_id (pa_recent_orders e) (es_order_link_id s) = None
      then found MISSING_EXCHANGE_ORDER ''entry request is absent from open orders and history''
        (Some (es_order_link_id s)) None AMBIGUOUS f
      else f)"

definition matches_link :: "local_recovery_state \<Rightarrow> exchange_order \<Rightarrow> string \<Rightarrow> bool" where
  "matches_link l o1 link = (case by_link po_order_link_id (lx_order_intents l) link of
     None \<Rightarrow> False | Some r \<Rightarrow> order_matches_intent o1 r)"

definition check_stop :: "local_recovery_state \<Rightarrow> private_account_snapshot \<Rightarrow> protection_snapshot \<Rightarrow> findings \<Rightarrow> findings" where
  "check_stop l e p f = (case by_link eo_order_link_id (pa_open_orders e) (ps_stop_order_link_id p) of
     None \<Rightarrow> found MISSING_PROTECTION ''confirmed local short has no visible exchange stop'' (Some (ps_stop_order_link_id p))
       (Some (RESTORE_PROTECTION, ''submit and confirm a replacement reduce-only stop'')) REPAIRABLE f
   | Some stop \<Rightarrow> if matches_link l stop (ps_stop_order_link_id p) then f
       else found PROTECTION_MISMATCH ''visible stop does not match its persisted intent''
         (Some (ps_stop_order_link_id p)) None DANGEROUS f)"

definition check_take_profit :: "local_recovery_state \<Rightarrow> private_account_snapshot \<Rightarrow> protection_snapshot \<Rightarrow> findings \<Rightarrow> findings" where
  "check_take_profit l e p f = (case ps_tp_order_link_id p of
     None \<Rightarrow> f
   | Some link \<Rightarrow> (case by_link eo_order_link_id (pa_open_orders e) link of
       None \<Rightarrow> found MISSING_TAKE_PROFIT ''local TP is not visible on the exchange'' (Some link)
         (Some (RESTORE_TAKE_PROFIT, ''submit and confirm a replacement reduce-only TP'')) REPAIRABLE f
     | Some tp \<Rightarrow> if matches_link l tp link then f
         else found PROTECTION_MISMATCH ''visible TP does not match its persisted intent'' (Some link) None DANGEROUS f))"

definition check_protection :: "local_recovery_state \<Rightarrow> private_account_snapshot \<Rightarrow> findings \<Rightarrow> protection_snapshot \<Rightarrow> findings" where
  "check_protection l e f p =
     (if ps_open_quantity p = 0 then f else check_take_profit l e p (check_stop l e p f))"

definition check_unprotected :: "local_recovery_state \<Rightarrow> findings \<Rightarrow> entry_snapshot \<Rightarrow> findings" where
  "check_unprotected l f s =
     (if 0 < es_filled_quantity s
         \<and> es_order_link_id s \<notin> set (map ps_entry_order_link_id (lx_protection_snapshots l))
         \<and> es_state s \<notin> set [RECONCILING, X_ERROR]
      then found MISSING_PROTECTION ''filled entry has no durable protection state'' (Some (es_order_link_id s))
        (Some (RESTORE_PROTECTION, ''create and confirm stop protection'')) REPAIRABLE f
      else f)"

definition expected_perp_quantity :: "local_recovery_state \<Rightarrow> dec" where
  "expected_perp_quantity l = (let
     protected = dict_of (map (\<lambda>p. (ps_entry_order_link_id p, ps_open_quantity p)) (lx_protection_snapshots l))
   in dadd (dsum (map snd protected)) (dsum (map es_filled_quantity (filter
        (\<lambda>s. es_order_link_id s \<notin> set (map fst protected) \<and> es_state s \<noteq> X_ERROR) (lx_entry_snapshots l)))))"

definition perp_position_matches :: "dec \<Rightarrow> exchange_position list \<Rightarrow> bool" where
  "perp_position_matches expected positions =
     (if expected = 0 then positions = []
      else (case positions of [p] \<Rightarrow> ep_side p = Some Sell \<and> ep_quantity p = expected | _ \<Rightarrow> False))"

text \<open>Equality of two dictionaries.\<close>

definition dict_eq :: "('k \<times> 'v) list \<Rightarrow> ('k \<times> 'v) list \<Rightarrow> bool" where
  "dict_eq d d' \<longleftrightarrow> list_all (\<lambda>k. map_of d k = map_of d' k) (map fst d @ map fst d')"

definition option_positions_match :: "expected_position list \<Rightarrow> exchange_position list \<Rightarrow> bool" where
  "option_positions_match expected actual = dict_eq
     (dict_of (map (\<lambda>p. ((xp_symbol p, Some (xp_side p)), xp_quantity p)) expected))
     (dict_of (map (\<lambda>p. ((ep_symbol p, ep_side p), ep_quantity p))
        (filter (\<lambda>p. ep_category p = option_category \<and> 0 < ep_quantity p) actual)))"

definition check_perp :: "(dec \<Rightarrow> string) \<Rightarrow> (dec list \<Rightarrow> string) \<Rightarrow> local_recovery_state \<Rightarrow> private_account_snapshot \<Rightarrow> findings \<Rightarrow> findings" where
  "check_perp show shows_tuple l e f = (let expected = expected_perp_quantity l; actual = eth_positions (pa_positions e)
     in if perp_position_matches expected actual then f
        else found (if expected = 0 \<and> actual \<noteq> [] then UNKNOWN_EXCHANGE_POSITION else POSITION_MISMATCH)
          (''local ETHUSDT short '' @ show expected @ '' does not match exchange positions '' @ shows_tuple (map ep_quantity actual))
          None None DANGEROUS f)"

definition check_options :: "local_recovery_state \<Rightarrow> private_account_snapshot \<Rightarrow> findings \<Rightarrow> findings" where
  "check_options l e f = (if option_positions_match (lx_expected_option_positions l) (pa_positions e) then f
     else found UNKNOWN_OPTION_POSITION ''exchange option positions do not match confirmed local legs'' None None DANGEROUS f)"

definition startup_findings ::
    "(dec \<Rightarrow> string) \<Rightarrow> (dec list \<Rightarrow> string) \<Rightarrow> local_recovery_state \<Rightarrow> private_account_snapshot \<Rightarrow> string \<Rightarrow> int \<Rightarrow> findings" where
  "startup_findings show shows_tuple l e instance_name cycle_number = (let
     f0 = \<lparr>fi_differences = [], fi_actions = [], fi_severity = MATCHED\<rparr>;
     f1 = foldl (check_open_order l instance_name cycle_number) f0 (pa_open_orders e);
     f2 = foldl (check_execution l instance_name cycle_number) f1 (pa_executions e);
     f3 = foldl (check_in_flight e) f2 (lx_entry_snapshots l);
     f4 = foldl (check_protection l e) f3 (lx_protection_snapshots l);
     f5 = foldl (check_unprotected l) f4 (map snd (dict_of (map (\<lambda>s. (es_order_link_id s, s)) (lx_entry_snapshots l))))
   in check_options l e (check_perp show shows_tuple l e f5))"

definition evaluate_startup_reconciliation ::
    "(dec \<Rightarrow> string) \<Rightarrow> (dec list \<Rightarrow> string) \<Rightarrow> local_recovery_state \<Rightarrow> private_account_snapshot \<Rightarrow> string \<Rightarrow> int
     \<Rightarrow> reconciliation_report res" where
  "evaluate_startup_reconciliation show shows_tuple l e instance_name cycle_number =
     (let f = startup_findings show shows_tuple l e instance_name cycle_number in
      r_bind (r_map mk_state_difference (fi_differences f)) (\<lambda>ds.
      r_bind (r_map mk_repair_action (fi_actions f)) (\<lambda>as.
      mk_reconciliation_report \<lparr>rr_status = fi_severity f, rr_differences = ds, rr_repair_actions = as,
        rr_trading_allowed = (fi_severity f = MATCHED)\<rparr>)))"

section \<open>Severity\<close>

lemma DANGEROUS_greatest [simp]: "s \<le> DANGEROUS"
  by (cases s) (simp_all add: less_eq_reconciliation_status_def)

lemma max_DANGEROUS_iff [simp]: "max a b = DANGEROUS \<longleftrightarrow> a = DANGEROUS \<or> b = DANGEROUS"
  by (metis DANGEROUS_greatest max.absorb_iff1 max.absorb_iff2 max_def)

lemma found_severity [simp]: "fi_severity (found k d link a s f) = max (fi_severity f) s"
  by (simp add: found_def more_severe_max)

text \<open>What one order, execution, entry or protection contributes to the severity.\<close>

definition order_severity :: "local_recovery_state \<Rightarrow> string \<Rightarrow> int \<Rightarrow> exchange_order \<Rightarrow> reconciliation_status" where
  "order_severity l i n o1 = (if by_link po_order_link_id (lx_order_intents l) (eo_order_link_id o1) \<noteq> None then MATCHED
     else if is_owned_order_link_id i n (eo_order_link_id o1) then REPAIRABLE else AMBIGUOUS)"

definition execution_severity :: "local_recovery_state \<Rightarrow> string \<Rightarrow> int \<Rightarrow> execution_update \<Rightarrow> reconciliation_status" where
  "execution_severity l i n x = (if ex_execution_id x \<in> set (map ex_execution_id (lx_executions l)) then MATCHED
     else if by_link po_order_link_id (lx_order_intents l) (ex_order_link_id x) \<noteq> None
         \<or> is_owned_order_link_id i n (ex_order_link_id x) then REPAIRABLE else AMBIGUOUS)"

definition in_flight_severity :: "private_account_snapshot \<Rightarrow> entry_snapshot \<Rightarrow> reconciliation_status" where
  "in_flight_severity e s = (if in_flight s \<and> by_link eo_order_link_id (pa_open_orders e) (es_order_link_id s) = None
     \<and> by_link eo_order_link_id (pa_recent_orders e) (es_order_link_id s) = None then AMBIGUOUS else MATCHED)"

definition visible_severity :: "local_recovery_state \<Rightarrow> private_account_snapshot \<Rightarrow> string \<Rightarrow> reconciliation_status" where
  "visible_severity l e link = (case by_link eo_order_link_id (pa_open_orders e) link of
     None \<Rightarrow> REPAIRABLE | Some o1 \<Rightarrow> if matches_link l o1 link then MATCHED else DANGEROUS)"

definition protection_severity :: "local_recovery_state \<Rightarrow> private_account_snapshot \<Rightarrow> protection_snapshot \<Rightarrow> reconciliation_status" where
  "protection_severity l e p = (if ps_open_quantity p = 0 then MATCHED
     else max (visible_severity l e (ps_stop_order_link_id p))
       (case ps_tp_order_link_id p of None \<Rightarrow> MATCHED | Some link \<Rightarrow> visible_severity l e link))"

definition unprotected_severity :: "local_recovery_state \<Rightarrow> entry_snapshot \<Rightarrow> reconciliation_status" where
  "unprotected_severity l s = (if 0 < es_filled_quantity s
     \<and> es_order_link_id s \<notin> set (map ps_entry_order_link_id (lx_protection_snapshots l))
     \<and> es_state s \<notin> set [RECONCILING, X_ERROR] then REPAIRABLE else MATCHED)"

lemma check_severities:
  "fi_severity (check_open_order l i n f o1) = max (fi_severity f) (order_severity l i n o1)"
  "fi_severity (check_execution l i n f x) = max (fi_severity f) (execution_severity l i n x)"
  "fi_severity (check_in_flight e f s) = max (fi_severity f) (in_flight_severity e s)"
  "fi_severity (check_protection l e f p) = max (fi_severity f) (protection_severity l e p)"
  "fi_severity (check_unprotected l f s) = max (fi_severity f) (unprotected_severity l s)"
  by (simp_all add: check_open_order_def order_severity_def check_execution_def execution_severity_def
      check_in_flight_def in_flight_severity_def check_unprotected_def unprotected_severity_def check_protection_def
      protection_severity_def check_stop_def check_take_profit_def visible_severity_def max.absorb1 max.assoc split: option.splits)

lemma foldl_severity:
  assumes "\<And>f x. fi_severity (c f x) = max (fi_severity f) (sev x)"
  shows "(fi_severity (foldl c f xs) = MATCHED) = (fi_severity f = MATCHED \<and> (\<forall>x \<in> set xs. sev x = MATCHED))"
    "(fi_severity (foldl c f xs) = DANGEROUS) = (fi_severity f = DANGEROUS \<or> (\<exists>x \<in> set xs. sev x = DANGEROUS))"
  by (induction xs arbitrary: f) (auto simp: assms)

section \<open>Reports can be constructed\<close>

definition well_found :: "findings \<Rightarrow> bool" where
  "well_found f \<longleftrightarrow> (fi_severity f = MATCHED) = (fi_differences f = []) \<and> (fi_severity f = MATCHED \<longrightarrow> fi_actions f = [])
     \<and> (\<forall>d \<in> set (fi_differences f). \<not> blank (sd_detail d)) \<and> (\<forall>a \<in> set (fi_actions f). \<not> blank (ra_detail a))"

lemma found_well [intro]:
  "well_found f \<Longrightarrow> \<not> blank d \<Longrightarrow> s \<noteq> MATCHED \<Longrightarrow> (\<And>k m. a = Some (k, m) \<Longrightarrow> \<not> blank m) \<Longrightarrow> well_found (found k d link a s f)"
  by (auto simp: well_found_def found_def more_severe_max split: option.splits)

lemma blank_append [simp]: "blank (a @ b) \<longleftrightarrow> blank a \<and> blank b"
  by (simp add: blank_def)

lemma blank_Cons [simp]: "blank (c # s) \<longleftrightarrow> py_space c \<and> blank s"
  by (simp add: blank_def)

lemma check_exit_well:
  "well_found f \<Longrightarrow> well_found (check_stop l e p f)" "well_found f \<Longrightarrow> well_found (check_take_profit l e p f)"
  by (auto simp: check_stop_def check_take_profit_def py_space_def split: option.splits)

lemma checks_well:
  "well_found f \<Longrightarrow> well_found (check_open_order l i n f o1)" "well_found f \<Longrightarrow> well_found (check_execution l i n f x)"
  "well_found f \<Longrightarrow> well_found (check_in_flight e f s)" "well_found f \<Longrightarrow> well_found (check_protection l e f p)"
  "well_found f \<Longrightarrow> well_found (check_unprotected l f s)" "well_found f \<Longrightarrow> well_found (check_perp sh sht l e f)"
  "well_found f \<Longrightarrow> well_found (check_options l e f)"
  by (auto simp: check_open_order_def check_execution_def check_in_flight_def check_protection_def
      check_unprotected_def check_perp_def check_options_def Let_def py_space_def check_exit_well)

lemma foldl_well: "(\<And>f x. well_found f \<Longrightarrow> well_found (c f x)) \<Longrightarrow> well_found f \<Longrightarrow> well_found (foldl c f xs)"
  by (induction xs arbitrary: f) auto

lemma startup_well: "well_found (startup_findings sh sht l e i n)"
  unfolding startup_findings_def Let_def
  by (intro checks_well(6,7) foldl_well checks_well(1-5)) (simp_all add: well_found_def)

lemma r_map_details:
  "\<forall>d \<in> set ds. \<not> blank (sd_detail d) \<Longrightarrow> r_map mk_state_difference ds = Inr ds"
  "\<forall>a \<in> set as. \<not> blank (ra_detail a) \<Longrightarrow> r_map mk_repair_action as = Inr as"
  by (induction ds) (simp_all add: mk_state_difference_def, induction as, simp_all add: mk_repair_action_def)

lemma evaluate_startup_Inr:
  "evaluate_startup_reconciliation sh sht l e i n = Inr (let f = startup_findings sh sht l e i n in
     \<lparr>rr_status = fi_severity f, rr_differences = fi_differences f, rr_repair_actions = fi_actions f,
      rr_trading_allowed = (fi_severity f = MATCHED)\<rparr>)"
  using startup_well [of sh sht l e i n]
  by (auto simp: well_found_def evaluate_startup_reconciliation_def Let_def r_map_details mk_reconciliation_report_def)

section \<open>The condition under which trading is allowed\<close>

lemma map_of_dict_of: "map_of (dict_of kvs) = map_of (rev kvs)"
proof -
  have "map_of (foldl (\<lambda>d (k, v). dict_set k v d) d kvs) = map_of d ++ map_of (rev kvs)" for d
    by (induction kvs arbitrary: d) (auto simp: map_add_upd_left fun_eq_iff map_add_def split: option.splits)
  then show ?thesis by (simp add: dict_of_def)
qed

lemma by_link_None_iff: "by_link key xs k = None \<longleftrightarrow> k \<notin> key ` set xs"
  by (simp add: by_link_def map_of_dict_of map_of_eq_None_iff image_image)

lemma by_link_distinct:
  assumes "distinct (map key xs)"
  shows "by_link key xs k = Some x \<longleftrightarrow> x \<in> set xs \<and> key x = k"
proof -
  have "distinct (map fst (rev (map (\<lambda>x. (key x, x)) xs)))"
    using assms by (simp add: rev_map [symmetric] comp_def)
  then have "by_link key xs k = Some x \<longleftrightarrow> (k, x) \<in> set (rev (map (\<lambda>x. (key x, x)) xs))"
    unfolding by_link_def map_of_dict_of by (rule map_of_eq_Some_iff)
  then show ?thesis by auto
qed

lemma dict_of_distinct: "distinct (map fst kvs) \<Longrightarrow> dict_of kvs = kvs"
proof -
  have snoc: "dict_set k v d = d @ [(k, v)]" if "k \<notin> fst ` set d" for k v and d :: "('a \<times> 'b) list"
    using that by (induction d) auto
  have "foldl (\<lambda>d (k, v). dict_set k v d) d kvs = d @ kvs" if "distinct (map fst (d @ kvs))" for d
    using that
  proof (induction kvs arbitrary: d)
    case (Cons kv kvs)
    obtain k v where kv: "kv = (k, v)" by (cases kv)
    have "k \<notin> fst ` set d" using Cons.prems kv by auto
    then show ?case using Cons.IH [of "d @ [kv]"] Cons.prems by (simp add: kv snoc)
  qed simp
  then show "distinct (map fst kvs) \<Longrightarrow> dict_of kvs = kvs" by (simp add: dict_of_def)
qed

lemma matches_link_iff:
  assumes "distinct (map po_order_link_id (lx_order_intents l))"
  shows "matches_link l o1 link \<longleftrightarrow> (\<exists>r \<in> set (lx_order_intents l). po_order_link_id r = link \<and> order_matches_intent o1 r)"
proof -
  have "matches_link l o1 link \<longleftrightarrow> (\<exists>r. by_link po_order_link_id (lx_order_intents l) link = Some r \<and> order_matches_intent o1 r)"
    by (simp add: matches_link_def split: option.splits)
  then show ?thesis unfolding by_link_distinct [OF assms] by blast
qed

text \<open>An exit order is in order if the exchange shows it as it was persisted.\<close>

definition exit_visible :: "local_recovery_state \<Rightarrow> private_account_snapshot \<Rightarrow> string \<Rightarrow> bool" where
  "exit_visible l e link \<longleftrightarrow> (\<exists>o1 r. by_link eo_order_link_id (pa_open_orders e) link = Some o1
     \<and> r \<in> set (lx_order_intents l) \<and> po_order_link_id r = link \<and> order_matches_intent o1 r)"

definition exit_mismatch :: "local_recovery_state \<Rightarrow> private_account_snapshot \<Rightarrow> string \<Rightarrow> bool" where
  "exit_mismatch l e link \<longleftrightarrow> (\<exists>o1. by_link eo_order_link_id (pa_open_orders e) link = Some o1
     \<and> \<not> (\<exists>r \<in> set (lx_order_intents l). po_order_link_id r = link \<and> order_matches_intent o1 r))"

lemma visible_severity_iff:
  assumes "distinct (map po_order_link_id (lx_order_intents l))"
  shows "visible_severity l e link = MATCHED \<longleftrightarrow> exit_visible l e link"
    "visible_severity l e link = DANGEROUS \<longleftrightarrow> exit_mismatch l e link"
  by (auto simp: visible_severity_def exit_visible_def exit_mismatch_def matches_link_iff [OF assms] split: option.splits)

lemma protection_severity_iff:
  assumes "distinct (map po_order_link_id (lx_order_intents l))"
  shows "protection_severity l e p = MATCHED \<longleftrightarrow> ps_open_quantity p = 0 \<or> exit_visible l e (ps_stop_order_link_id p)
      \<and> (\<forall>link. ps_tp_order_link_id p = Some link \<longrightarrow> exit_visible l e link)"
    "protection_severity l e p = DANGEROUS \<longleftrightarrow> ps_open_quantity p \<noteq> 0 \<and> (exit_mismatch l e (ps_stop_order_link_id p)
      \<or> (\<exists>link. ps_tp_order_link_id p = Some link \<and> exit_mismatch l e link))"
  by (auto simp: protection_severity_def visible_severity_iff [OF assms] split: option.splits)

lemma order_severity_iff:
  "order_severity l i n o1 = MATCHED \<longleftrightarrow> eo_order_link_id o1 \<in> po_order_link_id ` set (lx_order_intents l)"
  "order_severity l i n o1 \<noteq> DANGEROUS"
  by (auto simp: order_severity_def by_link_None_iff)

lemma execution_severity_iff:
  "execution_severity l i n x = MATCHED \<longleftrightarrow> ex_execution_id x \<in> ex_execution_id ` set (lx_executions l)"
  "execution_severity l i n x \<noteq> DANGEROUS"
  by (auto simp: execution_severity_def)

lemma in_flight_severity_iff:
  "in_flight_severity e s = MATCHED \<longleftrightarrow> (in_flight s \<longrightarrow>
     es_order_link_id s \<in> eo_order_link_id ` (set (pa_open_orders e) \<union> set (pa_recent_orders e)))"
  "in_flight_severity e s \<noteq> DANGEROUS"
  by (auto simp: in_flight_severity_def by_link_None_iff)

lemma unprotected_severity_iff:
  "unprotected_severity l s = MATCHED \<longleftrightarrow> (0 < es_filled_quantity s \<and> es_state s \<noteq> RECONCILING \<and> es_state s \<noteq> X_ERROR
     \<longrightarrow> es_order_link_id s \<in> ps_entry_order_link_id ` set (lx_protection_snapshots l))"
  "unprotected_severity l s \<noteq> DANGEROUS"
  by (auto simp: unprotected_severity_def)

lemma position_severities:
  "fi_severity (check_perp sh sht l e f) = max (fi_severity f)
     (if perp_position_matches (expected_perp_quantity l) (eth_positions (pa_positions e)) then MATCHED else DANGEROUS)"
  "fi_severity (check_options l e f) = max (fi_severity f)
     (if option_positions_match (lx_expected_option_positions l) (pa_positions e) then MATCHED else DANGEROUS)"
  by (simp_all add: check_perp_def check_options_def Let_def max.absorb1)

lemmas severity_iffs = order_severity_iff execution_severity_iff in_flight_severity_iff unprotected_severity_iff

text \<open>C34. The startup gate. On a valid local state the comparison always returns a report; it allows trading
  exactly if there is no difference, and that is exactly if every open order of the exchange is a persisted
  intent, every execution is stored, every entry in flight is known to the exchange, every open protection
  shows its stop and its take profit as persisted, every filled entry that is neither reconciling nor in
  error has a protection, and the perpetual and option positions are the expected ones. The status is
  DANGEROUS exactly if a visible exit order differs from its intent or a position differs.\<close>

theorem startup_gate:
  assumes "mk_local_recovery_state l = Inr l"
  shows "\<exists>r. evaluate_startup_reconciliation sh sht l e i n = Inr r
    \<and> (rr_trading_allowed r \<longleftrightarrow> rr_differences r = [])
    \<and> (rr_trading_allowed r \<longleftrightarrow>
        (\<forall>o1 \<in> set (pa_open_orders e). eo_order_link_id o1 \<in> po_order_link_id ` set (lx_order_intents l))
        \<and> (\<forall>x \<in> set (pa_executions e). ex_execution_id x \<in> ex_execution_id ` set (lx_executions l))
        \<and> (\<forall>s \<in> set (lx_entry_snapshots l). in_flight s \<longrightarrow>
             es_order_link_id s \<in> eo_order_link_id ` (set (pa_open_orders e) \<union> set (pa_recent_orders e)))
        \<and> (\<forall>p \<in> set (lx_protection_snapshots l). ps_open_quantity p = 0 \<or> exit_visible l e (ps_stop_order_link_id p)
             \<and> (\<forall>link. ps_tp_order_link_id p = Some link \<longrightarrow> exit_visible l e link))
        \<and> (\<forall>s \<in> set (lx_entry_snapshots l). 0 < es_filled_quantity s \<and> es_state s \<noteq> RECONCILING \<and> es_state s \<noteq> X_ERROR
             \<longrightarrow> es_order_link_id s \<in> ps_entry_order_link_id ` set (lx_protection_snapshots l))
        \<and> perp_position_matches (expected_perp_quantity l) (eth_positions (pa_positions e))
        \<and> option_positions_match (lx_expected_option_positions l) (pa_positions e))
    \<and> (rr_status r = DANGEROUS \<longleftrightarrow>
        (\<exists>p \<in> set (lx_protection_snapshots l). ps_open_quantity p \<noteq> 0 \<and> (exit_mismatch l e (ps_stop_order_link_id p)
           \<or> (\<exists>link. ps_tp_order_link_id p = Some link \<and> exit_mismatch l e link)))
        \<or> \<not> perp_position_matches (expected_perp_quantity l) (eth_positions (pa_positions e))
        \<or> \<not> option_positions_match (lx_expected_option_positions l) (pa_positions e))"
proof -
  let ?f = "startup_findings sh sht l e i n"
  have d: "distinct (map po_order_link_id (lx_order_intents l))" "distinct (map es_order_link_id (lx_entry_snapshots l))"
    using assms by (auto simp: mk_local_recovery_state_def)
  have entries: "map snd (dict_of (map (\<lambda>s. (es_order_link_id s, s)) (lx_entry_snapshots l))) = lx_entry_snapshots l"
    using d(2) by (simp add: dict_of_distinct comp_def)
  note folds = foldl_severity [of "check_open_order l i n", OF check_severities(1)]
    foldl_severity [of "check_execution l i n", OF check_severities(2)] foldl_severity [of "check_in_flight e", OF check_severities(3)]
    foldl_severity [of "check_protection l e", OF check_severities(4)] foldl_severity [of "check_unprotected l", OF check_severities(5)]
  have matched: "fi_severity ?f = MATCHED \<longleftrightarrow>
        (\<forall>o1 \<in> set (pa_open_orders e). eo_order_link_id o1 \<in> po_order_link_id ` set (lx_order_intents l))
        \<and> (\<forall>x \<in> set (pa_executions e). ex_execution_id x \<in> ex_execution_id ` set (lx_executions l))
        \<and> (\<forall>s \<in> set (lx_entry_snapshots l). in_flight s \<longrightarrow>
             es_order_link_id s \<in> eo_order_link_id ` (set (pa_open_orders e) \<union> set (pa_recent_orders e)))
        \<and> (\<forall>p \<in> set (lx_protection_snapshots l). ps_open_quantity p = 0 \<or> exit_visible l e (ps_stop_order_link_id p)
             \<and> (\<forall>link. ps_tp_order_link_id p = Some link \<longrightarrow> exit_visible l e link))
        \<and> (\<forall>s \<in> set (lx_entry_snapshots l). 0 < es_filled_quantity s \<and> es_state s \<noteq> RECONCILING \<and> es_state s \<noteq> X_ERROR
             \<longrightarrow> es_order_link_id s \<in> ps_entry_order_link_id ` set (lx_protection_snapshots l))
        \<and> perp_position_matches (expected_perp_quantity l) (eth_positions (pa_positions e))
        \<and> option_positions_match (lx_expected_option_positions l) (pa_positions e)"
    unfolding startup_findings_def Let_def entries position_severities max_MATCHED_iff folds severity_iffs
      protection_severity_iff [OF d(1)]
    by simp
  have dangerous: "fi_severity ?f = DANGEROUS \<longleftrightarrow>
        (\<exists>p \<in> set (lx_protection_snapshots l). ps_open_quantity p \<noteq> 0 \<and> (exit_mismatch l e (ps_stop_order_link_id p)
           \<or> (\<exists>link. ps_tp_order_link_id p = Some link \<and> exit_mismatch l e link)))
        \<or> \<not> perp_position_matches (expected_perp_quantity l) (eth_positions (pa_positions e))
        \<or> \<not> option_positions_match (lx_expected_option_positions l) (pa_positions e)"
    unfolding startup_findings_def Let_def entries position_severities max_DANGEROUS_iff folds
      protection_severity_iff [OF d(1)]
    by (simp add: severity_iffs)
  have none: "fi_severity ?f = MATCHED \<longleftrightarrow> fi_differences ?f = []"
    using startup_well [of sh sht l e i n] by (simp add: well_found_def)
  show ?thesis
    unfolding evaluate_startup_Inr Let_def
    by (intro exI conjI, rule refl) (simp_all only: reconciliation_report.simps none matched [unfolded none] dangerous)
qed

text \<open>A local state whose only entry was filled and is reconciling, without any protection, and an
  exchange that holds the short position and no order.\<close>

definition reconciling_local :: local_recovery_state where
  "reconciling_local = \<lparr>lx_order_intents = [],
     lx_entry_snapshots = [sample_entry\<lparr>es_state := RECONCILING, es_filled_quantity := 1, es_entry_notional := 3000\<rparr>],
     lx_protection_snapshots = [], lx_expected_option_positions = [], lx_executions = []\<rparr>"

definition unprotected_exchange :: private_account_snapshot where
  "unprotected_exchange = \<lparr>pa_open_orders = [], pa_recent_orders = [], pa_executions = [],
     pa_positions = [\<lparr>ep_category = linear_category, ep_symbol = ''ETHUSDT'', ep_side = Some Sell, ep_quantity = 1,
       ep_average_price = Some 3000, ep_mark_price = None, ep_unrealized_pnl = 0, ep_updated_at = Aware 1,
       ep_position_idx = 0, ep_liquidation_price = None\<rparr>],
     pa_wallet = \<lparr>ws_account_type = ''UNIFIED'', ws_total_equity = 0, ws_total_wallet_balance = 0,
       ws_total_available_balance = None, ws_balances = [], ws_updated_at = Aware 1\<rparr>,
     pa_captured_at_utc = Aware 2\<rparr>"

lemma reconciling_local_valid: "mk_local_recovery_state reconciling_local = Inr reconciling_local"
  by (simp add: mk_local_recovery_state_def reconciling_local_def)

lemma perp_matches: "perp_position_matches (expected_perp_quantity reconciling_local) (eth_positions (pa_positions unprotected_exchange))"
  by code_simp

lemma options_match: "option_positions_match (lx_expected_option_positions reconciling_local) (pa_positions unprotected_exchange)"
  by code_simp

theorem startup_gate_witness:
  "mk_local_recovery_state reconciling_local = Inr reconciling_local
   \<and> (\<exists>r. evaluate_startup_reconciliation (\<lambda>_. []) (\<lambda>_. []) reconciling_local unprotected_exchange ''a1'' 7 = Inr r
        \<and> rr_status r \<noteq> DANGEROUS)"
proof -
  from startup_gate [OF reconciling_local_valid, of "\<lambda>_. []" "\<lambda>_. []" unprotected_exchange "''a1''" 7] obtain r where
    r: "evaluate_startup_reconciliation (\<lambda>_. []) (\<lambda>_. []) reconciling_local unprotected_exchange ''a1'' 7 = Inr r"
    and d: "rr_status r = DANGEROUS \<longleftrightarrow>
        (\<exists>p \<in> set (lx_protection_snapshots reconciling_local). ps_open_quantity p \<noteq> 0
           \<and> (exit_mismatch reconciling_local unprotected_exchange (ps_stop_order_link_id p)
           \<or> (\<exists>link. ps_tp_order_link_id p = Some link \<and> exit_mismatch reconciling_local unprotected_exchange link)))
        \<or> \<not> perp_position_matches (expected_perp_quantity reconciling_local) (eth_positions (pa_positions unprotected_exchange))
        \<or> \<not> option_positions_match (lx_expected_option_positions reconciling_local) (pa_positions unprotected_exchange)"
    by blast
  have "lx_protection_snapshots reconciling_local = []" by (simp add: reconciling_local_def)
  then have "rr_status r \<noteq> DANGEROUS" using d perp_matches options_match by simp
  with r reconciling_local_valid show ?thesis by blast
qed

text \<open>The hole of the gate: trading is allowed while a filled short has no stop at all, because its entry is
  in the state RECONCILING.\<close>

lemma unprotected_short_allowed:
  "\<exists>r. evaluate_startup_reconciliation (\<lambda>_. []) (\<lambda>_. []) reconciling_local unprotected_exchange ''a1'' 7 = Inr r
     \<and> rr_trading_allowed r \<and> lx_protection_snapshots reconciling_local = [] \<and> pa_open_orders unprotected_exchange = []
     \<and> expected_perp_quantity reconciling_local = 1"
proof -
  have "fi_severity (startup_findings (\<lambda>_. []) (\<lambda>_. []) reconciling_local unprotected_exchange ''a1'' 7) = MATCHED"
    by code_simp
  moreover have "expected_perp_quantity reconciling_local = 1" by code_simp
  ultimately show ?thesis
    by (simp add: evaluate_startup_Inr Let_def) (simp add: reconciling_local_def unprotected_exchange_def)
qed

section \<open>The read-only comparison\<close>

instantiation instrument_category :: linorder
begin

text \<open>In the order of the strings ''linear'' and ''option''.\<close>

definition less_eq_instrument_category :: "instrument_category \<Rightarrow> instrument_category \<Rightarrow> bool" where
  "a \<le> b \<longleftrightarrow> a = linear_category \<or> b = option_category"

definition less_instrument_category :: "instrument_category \<Rightarrow> instrument_category \<Rightarrow> bool" where
  "a < b \<longleftrightarrow> a = linear_category \<and> b = option_category"

instance
proof
  fix a b c :: instrument_category
  show "(a < b) = (a \<le> b \<and> \<not> b \<le> a)" "a \<le> a" "a \<le> b \<Longrightarrow> b \<le> c \<Longrightarrow> a \<le> c" "a \<le> b \<Longrightarrow> b \<le> a \<Longrightarrow> a = b" "a \<le> b \<or> b \<le> a"
    by (cases a; cases b; cases c; simp add: less_eq_instrument_category_def less_instrument_category_def)+
qed

end

instantiation order_side :: linorder
begin

definition less_eq_order_side :: "order_side \<Rightarrow> order_side \<Rightarrow> bool" where
  "a \<le> b \<longleftrightarrow> a = Buy \<or> b = Sell"

definition less_order_side :: "order_side \<Rightarrow> order_side \<Rightarrow> bool" where
  "a < b \<longleftrightarrow> a = Buy \<and> b = Sell"

instance
proof
  fix a b c :: order_side
  show "(a < b) = (a \<le> b \<and> \<not> b \<le> a)" "a \<le> a" "a \<le> b \<Longrightarrow> b \<le> c \<Longrightarrow> a \<le> c" "a \<le> b \<Longrightarrow> b \<le> a \<Longrightarrow> a = b" "a \<le> b \<or> b \<le> a"
    by (cases a; cases b; cases c; simp add: less_eq_order_side_def less_order_side_def)+
qed

end

type_synonym position_key = "instrument_category \<times> string \<times> order_side"

datatype private_difference_kind = UNKNOWN_OPEN_ORDER | UNKNOWN_POSITION | MISSING_POSITION | POSITION_QUANTITY_MISMATCH

record private_state_difference =
  pd_kind :: private_difference_kind
  pd_detail :: string

record read_only_result =
  ro_trading_allowed :: bool
  ro_differences :: "private_state_difference list"

definition add_quantity :: "position_key \<Rightarrow> dec \<Rightarrow> (position_key \<times> dec) list \<Rightarrow> (position_key \<times> dec) list" where
  "add_quantity k q d = dict_set k (dadd (case map_of d k of None \<Rightarrow> 0 | Some v \<Rightarrow> v) q) d"

definition actual_position_quantities :: "exchange_position list \<Rightarrow> (position_key \<times> dec) list res" where
  "actual_position_quantities ps = r_foldl (\<lambda>d p. if ep_quantity p = 0 then Inr d
     else (case ep_side p of
         None \<Rightarrow> Inl (ValueError ''nonzero exchange position must have a side'')
       | Some side \<Rightarrow> Inr (add_quantity (ep_category p, ep_symbol p, side) (ep_quantity p) d))) [] ps"

definition expected_position_quantities :: "expected_position list \<Rightarrow> (position_key \<times> dec) list" where
  "expected_position_quantities ps =
     foldl (\<lambda>d p. add_quantity (xp_category p, xp_symbol p, xp_side p) (xp_quantity p) d) [] ps"

fun category_name :: "instrument_category \<Rightarrow> string" where
  "category_name linear_category = ''linear''"
| "category_name option_category = ''option''"

fun side_text :: "order_side \<Rightarrow> string" where
  "side_text Buy = ''Buy''"
| "side_text Sell = ''Sell''"

definition position_difference ::
    "(dec \<Rightarrow> string) \<Rightarrow> (position_key \<times> dec) list \<Rightarrow> (position_key \<times> dec) list \<Rightarrow> position_key \<Rightarrow> private_state_difference list" where
  "position_difference show actual expected k = (case k of (category, symb, side) \<Rightarrow>
     (case (map_of expected k, map_of actual k) of
       (None, None) \<Rightarrow> []
     | (None, Some a) \<Rightarrow> [\<lparr>pd_kind = UNKNOWN_POSITION, pd_detail = ''unexplained '' @ category_name category @ '' ''
         @ side_text side @ '' position on '' @ symb @ '': '' @ show a\<rparr>]
     | (Some x, None) \<Rightarrow> [\<lparr>pd_kind = MISSING_POSITION, pd_detail = ''expected '' @ category_name category @ '' ''
         @ side_text side @ '' position on '' @ symb @ '': '' @ show x\<rparr>]
     | (Some x, Some a) \<Rightarrow> if a \<noteq> x then [\<lparr>pd_kind = POSITION_QUANTITY_MISMATCH, pd_detail = category_name category @ '' ''
         @ side_text side @ '' position on '' @ symb @ '': local '' @ show x @ '', exchange '' @ show a\<rparr>] else []))"

definition unknown_order :: "string list \<Rightarrow> exchange_order \<Rightarrow> private_state_difference list" where
  "unknown_order known o1 = (if eo_order_link_id o1 = [] \<or> eo_order_link_id o1 \<notin> set known
     then [\<lparr>pd_kind = UNKNOWN_OPEN_ORDER, pd_detail = ''unexplained '' @ category_name (eo_category o1) @ '' order ''
       @ eo_order_id o1 @ '' on '' @ eo_symbol o1\<rparr>] else [])"

definition evaluate_private_snapshot ::
    "(dec \<Rightarrow> string) \<Rightarrow> private_account_snapshot \<Rightarrow> string list \<Rightarrow> expected_position list \<Rightarrow> read_only_result res" where
  "evaluate_private_snapshot show s known expected =
     r_bind (actual_position_quantities (pa_positions s)) (\<lambda>actual. let
       xs = expected_position_quantities expected;
       keys = sort (remdups (map fst actual @ map fst xs));
       ds = concat (map (unknown_order known) (pa_open_orders s)) @ concat (map (position_difference show actual xs) keys)
     in Inr \<lparr>ro_trading_allowed = (ds = []), ro_differences = ds\<rparr>)"

lemma position_difference_Nil: "position_difference sh a x k = [] \<longleftrightarrow> map_of x k = map_of a k"
  by (cases k) (auto simp: position_difference_def split: option.splits)

lemma map_of_eq_on_keys:
  "(\<forall>k \<in> set (remdups (map fst a @ map fst x)). map_of x k = map_of a k) \<longleftrightarrow> map_of a = map_of x"
proof
  assume eq: "\<forall>k \<in> set (remdups (map fst a @ map fst x)). map_of x k = map_of a k"
  show "map_of a = map_of x"
  proof
    fix k
    show "map_of a k = map_of x k"
    proof (cases "k \<in> fst ` set a \<union> fst ` set x")
      case True
      then have "k \<in> set (remdups (map fst a @ map fst x))" by simp
      with eq show ?thesis by metis
    next
      case False
      then have "map_of a k = None" "map_of x k = None" by (simp_all add: map_of_eq_None_iff)
      then show ?thesis by simp
    qed
  qed
qed simp

lemma read_only_maps:
  assumes "evaluate_private_snapshot sh s known expected = Inr r"
  shows "\<exists>actual. actual_position_quantities (pa_positions s) = Inr actual
    \<and> (ro_trading_allowed r \<longleftrightarrow> (\<forall>o1 \<in> set (pa_open_orders s). eo_order_link_id o1 \<noteq> [] \<and> eo_order_link_id o1 \<in> set known)
        \<and> map_of actual = map_of (expected_position_quantities expected))"
proof -
  from assms obtain actual where a: "actual_position_quantities (pa_positions s) = Inr actual"
    by (auto simp: evaluate_private_snapshot_def)
  let ?x = "expected_position_quantities expected"
  have k: "(\<forall>k \<in> set (remdups (map fst actual @ map fst ?x)). map_of ?x k = map_of actual k) \<longleftrightarrow> map_of actual = map_of ?x"
    by (rule map_of_eq_on_keys)
  have o1: "(\<forall>y \<in> set (pa_open_orders s). unknown_order known y = []) \<longleftrightarrow>
      (\<forall>y \<in> set (pa_open_orders s). eo_order_link_id y \<noteq> [] \<and> eo_order_link_id y \<in> set known)"
    by (auto simp: unknown_order_def)
  let ?ds = "concat (map (unknown_order known) (pa_open_orders s))
    @ concat (map (position_difference sh actual ?x) (sort (remdups (map fst actual @ map fst ?x))))"
  have "r = \<lparr>ro_trading_allowed = (?ds = []), ro_differences = ?ds\<rparr>"
    using assms unfolding evaluate_private_snapshot_def a Let_def by (simp only: sum.case sum.inject)
  then have "ro_trading_allowed r \<longleftrightarrow> ?ds = []" by (simp only: read_only_result.simps)
  also have "\<dots> \<longleftrightarrow> (\<forall>y \<in> set (pa_open_orders s). unknown_order known y = [])
      \<and> (\<forall>k \<in> set (remdups (map fst actual @ map fst ?x)). map_of ?x k = map_of actual k)"
    unfolding append_is_Nil_conv concat_eq_Nil_conv set_map set_sort ball_simps position_difference_Nil by (rule refl)
  finally show ?thesis using a unfolding k o1 by blast
qed

text \<open>What both accounts are: the sum of the quantities of each (category, symbol, side) that occurs.\<close>

definition account_of :: "(position_key \<times> dec) list \<Rightarrow> position_key \<Rightarrow> dec option" where
  "account_of rows k = (let qs = map snd (filter (\<lambda>r. fst r = k) rows) in if qs = [] then None else Some (foldl dadd 0 qs))"

definition expected_rows :: "expected_position list \<Rightarrow> (position_key \<times> dec) list" where
  "expected_rows ps = map (\<lambda>p. ((xp_category p, xp_symbol p, xp_side p), xp_quantity p)) ps"

definition actual_rows :: "exchange_position list \<Rightarrow> (position_key \<times> dec) list" where
  "actual_rows ps = map (\<lambda>p. ((ep_category p, ep_symbol p, the (ep_side p)), ep_quantity p)) (filter (\<lambda>p. ep_quantity p \<noteq> 0) ps)"

lemma map_of_add_quantity:
  "map_of (add_quantity k q d) = (map_of d)(k \<mapsto> dadd (case map_of d k of None \<Rightarrow> 0 | Some v \<Rightarrow> v) q)"
  by (simp add: add_quantity_def)

lemma map_of_accounts: "map_of (foldl (\<lambda>d (k, q). add_quantity k q d) [] rows) = account_of rows"
proof (induction rows rule: rev_induct)
  case (snoc r rows)
  obtain k q where r: "r = (k, q)" by (cases r)
  show ?case
    by (rule ext) (simp add: r map_of_add_quantity snoc.IH account_of_def Let_def)
qed (simp add: account_of_def fun_eq_iff)

lemma expected_accounts: "map_of (expected_position_quantities ps) = account_of (expected_rows ps)"
  by (simp add: map_of_accounts [symmetric] expected_position_quantities_def expected_rows_def foldl_map)

lemma actual_fold:
  "r_foldl (\<lambda>d p. if ep_quantity p = 0 then Inr d
     else (case ep_side p of None \<Rightarrow> Inl (ValueError ''nonzero exchange position must have a side'')
       | Some side \<Rightarrow> Inr (add_quantity (ep_category p, ep_symbol p, side) (ep_quantity p) d))) d ps
   = (if \<exists>p \<in> set ps. ep_quantity p \<noteq> 0 \<and> ep_side p = None
      then Inl (ValueError ''nonzero exchange position must have a side'')
      else Inr (foldl (\<lambda>d (k, q). add_quantity k q d) d (actual_rows ps)))"
  by (induction ps arbitrary: d) (auto simp: actual_rows_def split: option.split)

lemma actual_accounts: "actual_position_quantities ps = (if \<exists>p \<in> set ps. ep_quantity p \<noteq> 0 \<and> ep_side p = None
    then Inl (ValueError ''nonzero exchange position must have a side'')
    else Inr (foldl (\<lambda>d (k, q). add_quantity k q d) [] (actual_rows ps)))"
  unfolding actual_position_quantities_def by (rule actual_fold)

text \<open>The read-only gate. The comparison raises exactly if a nonzero position has no side. Otherwise it
  allows trading exactly if every open order carries a known client id and, for every category, symbol and
  side, the exchange and the expectation have the same total, or both have none; and it then reports no
  difference.\<close>

theorem read_only_gate:
  "case evaluate_private_snapshot sh s known expected of
     Inl e \<Rightarrow> (\<exists>p \<in> set (pa_positions s). ep_quantity p \<noteq> 0 \<and> ep_side p = None)
   | Inr r \<Rightarrow> \<not> (\<exists>p \<in> set (pa_positions s). ep_quantity p \<noteq> 0 \<and> ep_side p = None)
       \<and> (ro_trading_allowed r \<longleftrightarrow> (\<forall>o1 \<in> set (pa_open_orders s). eo_order_link_id o1 \<noteq> [] \<and> eo_order_link_id o1 \<in> set known)
            \<and> account_of (actual_rows (pa_positions s)) = account_of (expected_rows expected))
       \<and> (ro_trading_allowed r \<longleftrightarrow> ro_differences r = [])"
proof (cases "evaluate_private_snapshot sh s known expected")
  case (Inl e)
  then show ?thesis
    by (auto simp: evaluate_private_snapshot_def actual_accounts Let_def split: if_splits)
next
  case (Inr r)
  then have "ro_trading_allowed r \<longleftrightarrow> ro_differences r = []"
    by (auto simp: evaluate_private_snapshot_def Let_def)
  with Inr read_only_maps [OF Inr] show ?thesis
    by (auto simp: actual_accounts expected_accounts map_of_accounts split: if_splits)
qed

theorem read_only_gate_witness:
  "\<exists>r. evaluate_private_snapshot (\<lambda>_. []) unprotected_exchange []
     [\<lparr>xp_category = linear_category, xp_symbol = ''ETHUSDT'', xp_side = Sell, xp_quantity = 1\<rparr>] = Inr r \<and> ro_trading_allowed r"
proof -
  let ?x = "[\<lparr>xp_category = linear_category, xp_symbol = ''ETHUSDT'', xp_side = Sell, xp_quantity = 1\<rparr>]"
  have rows: "actual_rows (pa_positions unprotected_exchange) = expected_rows ?x" "pa_open_orders unprotected_exchange = []"
    by code_simp+
  have "is_ok (evaluate_private_snapshot (\<lambda>_. []) unprotected_exchange [] ?x)"
    by code_simp
  then show ?thesis
    using read_only_gate [where sh = "\<lambda>_. []" and s = unprotected_exchange and known = "[]" and expected = ?x] rows by (auto simp: is_ok_iff)
qed

end
