(* ===== verification/Journal.thy ===== *)
theory Journal
  imports Actions "HOL-Library.List_Lexorder" "HOL-Library.Char_ord"
begin

text \<open>
  \<open>domain/journal.py\<close>, \<open>infrastructure/persistence/sqlite_journal_store.py\<close> and
  \<open>application/startup_replay.py\<close>: audit events and restart snapshots, the store that numbers and keeps
  them, and the replay at startup. A payload and a state are canonical JSON objects (a \<open>Decimal\<close> or a time
  in them is its text); the JSON text of a column is identified with the object.

  The locale \<open>journal_port\<close> states what the replay relies on; it is interpreted on the store.
\<close>

section \<open>Events and snapshots\<close>

datatype journal_event_type = STRATEGY_CYCLE_CREATED | OPTION_ENTRY_INTENT_CREATED | OPTION_EXECUTION_RECEIVED
  | OPTION_SPREAD_OPENED | VIRTUAL_LEVEL_ARMED | HEDGE_ENTRY_INTENT_CREATED | ORDER_ACKNOWLEDGED | EXECUTION_RECEIVED
  | PROTECTION_INTENT_CREATED | PROTECTION_CONFIRMED | TAKE_PROFIT_RECEIVED | STOP_RECEIVED | RECOVERY_DEBT_CHANGED
  | LEVEL_PAID | LEVEL_LOCKED | TRADING_SUSPENDED | RECONCILIATION_COMPLETED

datatype json = JNull | JBool bool | JInt int | JText string | JList "json list" | JObject "(string \<times> json) list"

type_synonym json_object = "(string \<times> json) list"

record pending_event =
  je_event_id :: string
  je_event_type :: journal_event_type
  je_event_version :: int
  je_cycle_id :: string
  je_level_id :: "int option"
  je_timestamp_utc :: datetime
  je_payload :: json_object
  je_causation_id :: "string option"
  je_correlation_id :: string

definition mk_pending_event :: "'z pending_event_scheme \<Rightarrow> 'z pending_event_scheme res" where
  [post_init]: "mk_pending_event e = check_all
    [text_guard (je_event_id e) ''event ID'', text_guard (je_cycle_id e) ''cycle ID'',
     text_guard (je_correlation_id e) ''correlation ID'',
     (je_event_version e \<le> 0, ''event version must be positive''),
     (some_and (\<lambda>l. l \<le> 0) (je_level_id e), ''level ID must be positive when present''),
     (some_and blank (je_causation_id e), ''causation ID cannot be empty''),
     utc_guard (je_timestamp_utc e) ''event timestamp''] (Inr e)"

text \<open>A stored event is a pending one with its sequence number.\<close>

record journal_event = pending_event +
  je_sequence :: int

definition mk_journal_event :: "journal_event \<Rightarrow> journal_event res" where
  [post_init]: "mk_journal_event e = raise_when (je_sequence e \<le> 0) ''event sequence must be positive'' (mk_pending_event e)"

record cycle_snapshot =
  cy_cycle_id :: string
  cy_last_event_sequence :: int
  cy_state :: json_object
  cy_snapshot_version :: int
  cy_updated_at_utc :: datetime

definition mk_cycle_snapshot :: "cycle_snapshot \<Rightarrow> cycle_snapshot res" where
  [post_init]: "mk_cycle_snapshot s = check_all
    [text_guard (cy_cycle_id s) ''cycle ID'',
     (cy_last_event_sequence s < 0, ''last event sequence cannot be negative''),
     (cy_snapshot_version s \<le> 0, ''snapshot version must be positive''),
     utc_guard (cy_updated_at_utc s) ''snapshot update time''] (Inr s)"

lemma mk_journal_same: "mk_pending_event e = Inr e' \<Longrightarrow> e' = e" "mk_journal_event j = Inr j' \<Longrightarrow> j' = j"
  "mk_cycle_snapshot s = Inr s' \<Longrightarrow> s' = s"
  by (auto simp: mk_pending_event_def mk_journal_event_def mk_cycle_snapshot_def)

section \<open>The store\<close>

record journal_db =
  jd_events :: "journal_event list"
  jd_snapshots :: "cycle_snapshot list"

definition empty_journal :: journal_db where
  "empty_journal = \<lparr>jd_events = [], jd_snapshots = []\<rparr>"

text \<open>\<open>AUTOINCREMENT\<close>: one above every number given so far.\<close>

definition next_sequence :: "journal_db \<Rightarrow> int" where
  "next_sequence db = foldl max 0 (map je_sequence (jd_events db)) + 1"

definition numbered :: "pending_event \<Rightarrow> int \<Rightarrow> journal_event" where
  "numbered e n = \<lparr>je_event_id = je_event_id e, je_event_type = je_event_type e, je_event_version = je_event_version e,
     je_cycle_id = je_cycle_id e, je_level_id = je_level_id e, je_timestamp_utc = je_timestamp_utc e,
     je_payload = je_payload e, je_causation_id = je_causation_id e, je_correlation_id = je_correlation_id e,
     je_sequence = n\<rparr>"

definition insert_event :: "pending_event \<Rightarrow> (journal_db, journal_event) transaction" where
  "insert_event e db = raise_when (list_ex (\<lambda>x. je_event_id x = je_event_id e) (jd_events db)) ''event ID already exists''
     (r_bind (mk_journal_event (numbered e (next_sequence db))) (\<lambda>stored.
        Inr (db\<lparr>jd_events := jd_events db @ [stored]\<rparr>, stored)))"

definition append_event :: "pending_event \<Rightarrow> (journal_db, journal_event) act" where
  "append_event e = transact (insert_event e)"

definition insert_event_and_snapshot ::
    "pending_event \<Rightarrow> cycle_snapshot \<Rightarrow> (journal_db, journal_event \<times> cycle_snapshot) transaction" where
  "insert_event_and_snapshot e s db = r_bind (insert_event e db) (\<lambda>(db1, stored).
     r_bind (mk_cycle_snapshot (s\<lparr>cy_last_event_sequence := je_sequence stored\<rparr>)) (\<lambda>s1.
     raise_if (list_ex (\<lambda>x. cy_cycle_id x = cy_cycle_id s1 \<and> cy_last_event_sequence x = cy_last_event_sequence s1) (jd_snapshots db1))
       IntegrityError (Inr (db1\<lparr>jd_snapshots := jd_snapshots db1 @ [s1]\<rparr>, (stored, s1)))))"

definition append_event_and_snapshot ::
    "pending_event \<Rightarrow> cycle_snapshot \<Rightarrow> (journal_db, journal_event \<times> cycle_snapshot) act" where
  "append_event_and_snapshot e s = transact (\<lambda>db.
     raise_when (je_cycle_id e \<noteq> cy_cycle_id s) ''event and snapshot cycle IDs differ'' (insert_event_and_snapshot e s db))"

definition load_latest_snapshot :: "journal_db \<Rightarrow> string \<Rightarrow> cycle_snapshot option res" where
  "load_latest_snapshot db c =
     (case sort_key (\<lambda>s. - cy_last_event_sequence s) (filter (\<lambda>s. cy_cycle_id s = c) (jd_snapshots db)) of
        [] \<Rightarrow> Inr None
      | s # _ \<Rightarrow> r_bind (mk_cycle_snapshot s) (\<lambda>s. Inr (Some s)))"

definition load_events_after :: "journal_db \<Rightarrow> string \<Rightarrow> int \<Rightarrow> journal_event list res" where
  "load_events_after db c n = raise_when (n < 0) ''event sequence cannot be negative''
     (r_map mk_journal_event (sort_key je_sequence (filter (\<lambda>e. je_cycle_id e = c \<and> n < je_sequence e) (jd_events db))))"

section \<open>The replay at startup\<close>

record startup_replay_result =
  sr_cycle_id :: string
  sr_state :: json_object
  sr_last_event_sequence :: int
  sr_replayed_event_count :: nat

type_synonym reducer = "json_object \<Rightarrow> journal_event \<Rightarrow> json_object res"

definition replay_step :: "reducer \<Rightarrow> json_object \<times> int \<Rightarrow> journal_event \<Rightarrow> (json_object \<times> int) res" where
  "replay_step reduce acc e = raise_when (je_sequence e \<le> snd acc) ''journal replay sequence is not strictly increasing''
     (r_bind (reduce (fst acc) e) (\<lambda>st. Inr (st, je_sequence e)))"

text \<open>\<open>latest\<close> and \<open>events_after\<close> are the two methods of the journal port.\<close>

definition rebuild ::
    "('d \<Rightarrow> string \<Rightarrow> cycle_snapshot option res) \<Rightarrow> ('d \<Rightarrow> string \<Rightarrow> int \<Rightarrow> journal_event list res) \<Rightarrow> reducer
     \<Rightarrow> 'd \<Rightarrow> string \<Rightarrow> startup_replay_result res" where
  "rebuild latest events_after reduce d c = r_bind (latest d c) (\<lambda>snapshot. let
     st = (case snapshot of None \<Rightarrow> [] | Some s \<Rightarrow> cy_state s);
     last_sequence = (case snapshot of None \<Rightarrow> 0 | Some s \<Rightarrow> cy_last_event_sequence s)
   in r_bind (events_after d c last_sequence) (\<lambda>es.
      r_bind (r_foldl (replay_step reduce) (st, last_sequence) es) (\<lambda>(st', n). Inr
        \<lparr>sr_cycle_id = c, sr_state = st', sr_last_event_sequence = n, sr_replayed_event_count = length es\<rparr>)))"

lemma replay_ascending:
  assumes "sorted_wrt (<) (map je_sequence es)" "\<forall>e \<in> set es. n < je_sequence e"
  shows "r_foldl (replay_step reduce) (st, n) es = r_bind (r_foldl reduce st es)
    (\<lambda>st'. Inr (st', if es = [] then n else je_sequence (last es)))"
  using assms
proof (induction es arbitrary: st n)
  case (Cons e es)
  show ?case
  proof (cases "reduce st e")
    case (Inr st1)
    have "r_foldl (replay_step reduce) (st1, je_sequence e) es = r_bind (r_foldl reduce st1 es)
        (\<lambda>st'. Inr (st', if es = [] then je_sequence e else je_sequence (last es)))"
      by (rule Cons.IH) (use Cons.prems in auto)
    moreover have "replay_step reduce (st, n) e = Inr (st1, je_sequence e)"
      using Inr Cons.prems(2) by (simp add: replay_step_def not_le)
    ultimately show ?thesis using Inr by (cases "r_foldl reduce st1 es") simp_all
  qed (use Cons.prems(2) in \<open>simp add: replay_step_def\<close>)
qed simp

lemma sorted_split:
  fixes f :: "'a \<Rightarrow> int"
  assumes "sorted_wrt (<) (map f es)"
  shows "es = filter (\<lambda>e. f e \<le> n) es @ filter (\<lambda>e. n < f e) es"
  using assms
proof (induction es)
  case (Cons e es)
  show ?case
  proof (cases "f e \<le> n")
    case False
    then have "\<forall>x \<in> set es. n < f x" using Cons.prems by auto
    then have "filter (\<lambda>e. f e \<le> n) es = []" "filter (\<lambda>e. n < f e) es = es"
      by (auto simp: filter_empty_conv not_le)
    with False show ?thesis by simp
  qed (use Cons in auto)
qed simp

text \<open>What the replay relies on: a cycle has one log of events in ascending order, a query returns its tail,
  and the latest snapshot can be read.\<close>

locale journal_port =
  fixes latest :: "'d \<Rightarrow> string \<Rightarrow> cycle_snapshot option res"
    and events_after :: "'d \<Rightarrow> string \<Rightarrow> int \<Rightarrow> journal_event list res"
    and log :: "'d \<Rightarrow> string \<Rightarrow> journal_event list"
    and newest :: "'d \<Rightarrow> string \<Rightarrow> cycle_snapshot option"
    and sound :: "'d \<Rightarrow> bool"
  assumes log_ascending: "sound d \<Longrightarrow> sorted_wrt (<) (map je_sequence (log d c))"
    and log_positive: "sound d \<Longrightarrow> e \<in> set (log d c) \<Longrightarrow> 0 < je_sequence e"
    and events_after_log: "sound d \<Longrightarrow> 0 \<le> n \<Longrightarrow> events_after d c n = Inr (filter (\<lambda>e. n < je_sequence e) (log d c))"
    and latest_newest: "sound d \<Longrightarrow> latest d c = Inr (newest d c)"
    and newest_positive: "sound d \<Longrightarrow> newest d c = Some s \<Longrightarrow> 0 \<le> cy_last_event_sequence s"
begin

text \<open>The replay is the fold of the reducer over the events after the latest snapshot, and never fails for
  their order.\<close>

lemma rebuild_fold:
  assumes "sound d"
  shows "rebuild latest events_after reduce d c = (let
      st = (case newest d c of None \<Rightarrow> [] | Some s \<Rightarrow> cy_state s);
      n = (case newest d c of None \<Rightarrow> 0 | Some s \<Rightarrow> cy_last_event_sequence s);
      es = filter (\<lambda>e. n < je_sequence e) (log d c)
    in r_bind (r_foldl reduce st es) (\<lambda>st'. Inr \<lparr>sr_cycle_id = c, sr_state = st',
      sr_last_event_sequence = (if es = [] then n else je_sequence (last es)), sr_replayed_event_count = length es\<rparr>))"
proof -
  define n where "n = (case newest d c of None \<Rightarrow> 0 | Some s \<Rightarrow> cy_last_event_sequence s)"
  have n: "0 \<le> n" using newest_positive [OF assms] by (auto simp: n_def split: option.splits)
  have "sorted_wrt (<) (map je_sequence (filter (\<lambda>e. n < je_sequence e) (log d c)))"
    using log_ascending [OF assms, of c] by (simp add: sorted_wrt_map sorted_wrt_filter)
  moreover have "\<forall>e \<in> set (filter (\<lambda>e. n < je_sequence e) (log d c)). n < je_sequence e" by simp
  ultimately have fold: "r_foldl (replay_step reduce) (st, n) (filter (\<lambda>e. n < je_sequence e) (log d c))
      = r_bind (r_foldl reduce st (filter (\<lambda>e. n < je_sequence e) (log d c))) (\<lambda>st'. Inr (st',
          if filter (\<lambda>e. n < je_sequence e) (log d c) = [] then n
          else je_sequence (last (filter (\<lambda>e. n < je_sequence e) (log d c)))))" for st
    by (rule replay_ascending)
  show ?thesis
    unfolding rebuild_def Let_def latest_newest [OF assms] sum.case n_def [symmetric] events_after_log [OF assms n]
      fold r_bind_assoc
    by (simp cong: sum.case_cong)
qed

text \<open>If the latest snapshot is the fold over the events it covers, the replay is the fold over the whole log.\<close>

lemma rebuild_full:
  assumes "sound d"
    and "\<And>s. newest d c = Some s \<Longrightarrow>
      r_foldl reduce [] (filter (\<lambda>e. je_sequence e \<le> cy_last_event_sequence s) (log d c)) = Inr (cy_state s)"
  shows "(\<exists>r. rebuild latest events_after reduce d c = Inr r \<and> sr_state r = st) \<longleftrightarrow> r_foldl reduce [] (log d c) = Inr st"
proof (cases "newest d c")
  case None
  have "filter (\<lambda>e. 0 < je_sequence e) (log d c) = log d c"
    using log_positive [OF assms(1)] by simp
  with None show ?thesis unfolding rebuild_fold [OF assms(1)]
    by (cases "r_foldl reduce [] (log d c)") (simp_all add: Let_def)
next
  case (Some s)
  let ?n = "cy_last_event_sequence s"
  let ?tail = "filter (\<lambda>e. ?n < je_sequence e) (log d c)"
  have "r_foldl reduce [] (log d c) = r_foldl reduce [] (filter (\<lambda>e. je_sequence e \<le> ?n) (log d c) @ ?tail)"
    using sorted_split [OF log_ascending [OF assms(1), of c], of ?n] by simp
  also have "\<dots> = r_foldl reduce (cy_state s) ?tail" by (simp add: r_foldl_append assms(2) [OF Some])
  finally show ?thesis
    using Some unfolding rebuild_fold [OF assms(1)] by (cases "r_foldl reduce (cy_state s) ?tail") (simp_all add: Let_def)
qed

end

section \<open>The store meets the contract\<close>

text \<open>The events are numbered from 1 without gaps, in the order of the table.\<close>

definition journal_ok :: "journal_db \<Rightarrow> bool" where
  "journal_ok db \<longleftrightarrow> map je_sequence (jd_events db) = map (\<lambda>i. int i + 1) [0..<length (jd_events db)]
     \<and> distinct (map je_event_id (jd_events db)) \<and> (\<forall>e \<in> set (jd_events db). mk_journal_event e = Inr e)
     \<and> (\<forall>s \<in> set (jd_snapshots db). mk_cycle_snapshot s = Inr s \<and> cy_last_event_sequence s \<le> int (length (jd_events db)))"

definition log_of :: "journal_db \<Rightarrow> string \<Rightarrow> journal_event list" where
  "log_of db c = filter (\<lambda>e. je_cycle_id e = c) (jd_events db)"

definition newest_of :: "journal_db \<Rightarrow> string \<Rightarrow> cycle_snapshot option" where
  "newest_of db c = (case sort_key (\<lambda>s. - cy_last_event_sequence s) (filter (\<lambda>s. cy_cycle_id s = c) (jd_snapshots db)) of
     [] \<Rightarrow> None | s # _ \<Rightarrow> Some s)"

lemma ascending_ints: "sorted_wrt (<) (map (\<lambda>i. int i + 1) [0..<n])"
  by (induction n) (simp_all add: sorted_wrt_append)

lemma journal_ok_sorted: "journal_ok db \<Longrightarrow> sorted_wrt (<) (map je_sequence (jd_events db))"
  by (simp add: journal_ok_def ascending_ints)

lemma sort_key_sorted: "sorted_wrt (<) (map f xs) \<Longrightarrow> sort_key f xs = (xs :: 'a list)" for f :: "'a \<Rightarrow> int"
  by (rule sort_key_id_if_sorted) (induction xs, auto simp: less_imp_le)

lemma foldl_max_ints: "foldl max 0 (map (\<lambda>i. int i + 1) [0..<n]) = int n"
  by (induction n) (simp_all add: max_def)

lemma next_sequence_length: "journal_ok db \<Longrightarrow> next_sequence db = int (length (jd_events db)) + 1"
  by (simp only: journal_ok_def next_sequence_def foldl_max_ints)

lemma r_map_id: "(\<And>x. x \<in> set xs \<Longrightarrow> f x = Inr x) \<Longrightarrow> r_map f xs = Inr xs"
  by (induction xs) simp_all

lemma sequence_positive: "journal_ok db \<Longrightarrow> e \<in> set (jd_events db) \<Longrightarrow> 0 < je_sequence e"
  by (auto simp: journal_ok_def mk_journal_event_def)

lemma sort_key_head: "sort_key f xs = s # ys \<Longrightarrow> s \<in> set xs"
  by (metis set_sort list.set_intros(1))

interpretation sqlite_journal: journal_port load_latest_snapshot load_events_after log_of newest_of journal_ok
proof
  fix d c assume ok: "journal_ok d"
  show "sorted_wrt (<) (map je_sequence (log_of d c))"
    using journal_ok_sorted [OF ok] by (simp add: log_of_def sorted_wrt_map sorted_wrt_filter)
  show "load_latest_snapshot d c = Inr (newest_of d c)"
  proof -
    have "mk_cycle_snapshot s = Inr s"
      if "sort_key (\<lambda>s. - cy_last_event_sequence s) (filter (\<lambda>s. cy_cycle_id s = c) (jd_snapshots d)) = s # xs" for s xs
      using sort_key_head [OF that] ok by (simp add: journal_ok_def)
    then show ?thesis by (auto simp: load_latest_snapshot_def newest_of_def split: list.split)
  qed
  fix s assume "newest_of d c = Some s"
  then have "s \<in> set (filter (\<lambda>s. cy_cycle_id s = c) (jd_snapshots d))"
    by (auto simp only: newest_of_def option.inject option.distinct split: list.splits dest: sort_key_head)
  then show "0 \<le> cy_last_event_sequence s"
    using ok by (auto simp: journal_ok_def mk_cycle_snapshot_def)
next
  fix d e c assume "journal_ok d" "e \<in> set (log_of d c)"
  then show "0 < je_sequence e" by (auto simp: log_of_def intro: sequence_positive)
next
  fix d c and n :: int assume ok: "journal_ok d" and n: "0 \<le> n"
  let ?xs = "filter (\<lambda>e. je_cycle_id e = c \<and> n < je_sequence e) (jd_events d)"
  have "sort_key je_sequence ?xs = ?xs"
    using journal_ok_sorted [OF ok] by (intro sort_key_sorted) (simp add: sorted_wrt_map sorted_wrt_filter)
  moreover have "r_map mk_journal_event ?xs = Inr ?xs"
    using ok by (intro r_map_id) (auto simp: journal_ok_def)
  ultimately show "load_events_after d c n = Inr (filter (\<lambda>e. n < je_sequence e) (log_of d c))"
    using n by (simp add: load_events_after_def log_of_def conj_commute)
qed

section \<open>Any sequence of appends\<close>

lemma numbered_fields [simp]:
  "je_sequence (numbered e n) = n" "je_event_id (numbered e n) = je_event_id e" "je_cycle_id (numbered e n) = je_cycle_id e"
  "je_event_type (numbered e n) = je_event_type e"
  by (simp_all add: numbered_def)

lemma insert_event_facts:
  assumes "journal_ok db" "insert_event e db = Inr (db', stored)"
  shows "stored = numbered e (int (length (jd_events db)) + 1)" "jd_events db' = jd_events db @ [stored]"
    "jd_snapshots db' = jd_snapshots db" "journal_ok db'"
proof -
  from assms have s: "mk_journal_event (numbered e (int (length (jd_events db)) + 1)) = Inr stored"
    and new: "\<forall>x \<in> set (jd_events db). je_event_id x \<noteq> je_event_id e" and db': "db' = db\<lparr>jd_events := jd_events db @ [stored]\<rparr>"
    by (auto simp: insert_event_def next_sequence_length list_ex_iff)
  show st: "stored = numbered e (int (length (jd_events db)) + 1)" using mk_journal_same(2) [OF s] .
  show "jd_events db' = jd_events db @ [stored]" "jd_snapshots db' = jd_snapshots db" by (simp_all add: db')
  have "mk_journal_event stored = Inr stored" using s st by simp
  then show "journal_ok db'"
    using assms(1) new unfolding journal_ok_def by (auto simp: db' st image_iff)
qed

lemma insert_snapshot_facts:
  assumes ok: "journal_ok db" and r: "insert_event_and_snapshot e s db = Inr (db', (stored, s1))"
  shows "stored = numbered e (int (length (jd_events db)) + 1)" "jd_events db' = jd_events db @ [stored]"
    "s1 = s\<lparr>cy_last_event_sequence := int (length (jd_events db)) + 1\<rparr>" "jd_snapshots db' = jd_snapshots db @ [s1]"
    "journal_ok db'"
proof -
  from r obtain db1 where i: "insert_event e db = Inr (db1, stored)"
    and s1: "mk_cycle_snapshot (s\<lparr>cy_last_event_sequence := je_sequence stored\<rparr>) = Inr s1"
    and db': "db' = db1\<lparr>jd_snapshots := jd_snapshots db1 @ [s1]\<rparr>"
    by (auto simp: insert_event_and_snapshot_def)
  note f = insert_event_facts [OF ok i]
  show "stored = numbered e (int (length (jd_events db)) + 1)" "jd_events db' = jd_events db @ [stored]"
    "jd_snapshots db' = jd_snapshots db @ [s1]" using f by (simp_all add: db')
  have s1': "s1 = s\<lparr>cy_last_event_sequence := int (length (jd_events db)) + 1\<rparr>" using mk_journal_same(3) [OF s1] f(1) by simp
  then show "s1 = s\<lparr>cy_last_event_sequence := int (length (jd_events db)) + 1\<rparr>" .
  have "mk_cycle_snapshot s1 = Inr s1" using s1 s1' f(1) by simp
  then show "journal_ok db'"
    using f(4) unfolding journal_ok_def by (auto simp: db' s1' f(2,3))
qed

inductive journal_step :: "journal_db \<Rightarrow> journal_db \<Rightarrow> bool" where
  Append: "append_event e db = (db', r1) \<Longrightarrow> journal_step db db'"
| Append_Snapshot: "append_event_and_snapshot e s db = (db', r2) \<Longrightarrow> journal_step db db'"

abbreviation journal_runs :: "journal_db \<Rightarrow> journal_db \<Rightarrow> bool" where
  "journal_runs \<equiv> journal_step\<^sup>*\<^sup>*"

lemma journal_step_facts:
  assumes "journal_step db db'" "journal_ok db"
  shows "journal_ok db' \<and> (\<exists>es. jd_events db' = jd_events db @ es) \<and> (\<exists>ss. jd_snapshots db' = jd_snapshots db @ ss)"
  using assms
proof (cases rule: journal_step.cases)
  case (Append e r1)
  then show ?thesis using assms(2) insert_event_facts [OF assms(2), of e db']
    by (cases r1) (auto simp: append_event_def)
next
  case (Append_Snapshot e s r2)
  then show ?thesis using assms(2) insert_snapshot_facts [OF assms(2), of e s db']
    by (cases r2) (auto simp: append_event_and_snapshot_def)
qed

lemma journal_runs_ok: "journal_runs empty_journal db \<Longrightarrow> journal_ok db"
proof (induction rule: rtranclp_induct)
  case base
  show ?case by (simp add: journal_ok_def empty_journal_def)
next
  case (step db1 db2)
  then show ?case using journal_step_facts by blast
qed

lemma newest_is_latest:
  assumes "newest_of db c = Some s"
  shows "s \<in> set (jd_snapshots db) \<and> cy_cycle_id s = c
    \<and> (\<forall>s' \<in> set (jd_snapshots db). cy_cycle_id s' = c \<longrightarrow> cy_last_event_sequence s' \<le> cy_last_event_sequence s)"
proof -
  let ?ss = "filter (\<lambda>s. cy_cycle_id s = c) (jd_snapshots db)" and ?key = "\<lambda>s. - cy_last_event_sequence s"
  obtain ys where ys: "sort_key ?key ?ss = s # ys" using assms by (auto simp: newest_of_def split: list.splits)
  then have "sorted (map ?key (s # ys))" by (metis sorted_sort_key)
  moreover have "set ?ss = set (s # ys)" by (metis ys set_sort)
  ultimately show ?thesis by auto
qed

text \<open>C35. What a restart rebuilds. On any journal the store can hold, whatever the reducer: the replay of a cycle is
  the reducer run over exactly the events of the cycle after its latest snapshot, in their order, from the state
  of that snapshot, or over all events from the empty state if there is none; it fails only if the reducer does,
  and reports the last sequence and the number of events replayed. The latest snapshot is the one with the
  highest sequence of the cycle. If, moreover, that snapshot is the state its events up to it lead to, which
  the store does not check and a reconciliation's own snapshot does not satisfy, since it adds fields no event
  carries, then the replay returns a state exactly when the reducer over the whole history does, and the
  same one. The events are numbered 1, 2, 3, ... without gaps.\<close>

theorem rebuild_replays_journal:
  assumes "journal_runs empty_journal db"
  shows "rebuild load_latest_snapshot load_events_after reduce db c = (let
      st = (case newest_of db c of None \<Rightarrow> [] | Some s \<Rightarrow> cy_state s);
      n = (case newest_of db c of None \<Rightarrow> 0 | Some s \<Rightarrow> cy_last_event_sequence s);
      tail = filter (\<lambda>e. je_cycle_id e = c \<and> n < je_sequence e) (jd_events db)
    in r_bind (r_foldl reduce st tail) (\<lambda>st'.
         Inr \<lparr>sr_cycle_id = c, sr_state = st', sr_last_event_sequence = (if tail = [] then n else je_sequence (last tail)),
           sr_replayed_event_count = length tail\<rparr>))
    \<and> (\<forall>s. newest_of db c = Some s \<longrightarrow> s \<in> set (jd_snapshots db) \<and> cy_cycle_id s = c
         \<and> (\<forall>s' \<in> set (jd_snapshots db). cy_cycle_id s' = c \<longrightarrow> cy_last_event_sequence s' \<le> cy_last_event_sequence s))
    \<and> ((\<forall>s. newest_of db c = Some s \<longrightarrow>
           r_foldl reduce [] (filter (\<lambda>e. je_sequence e \<le> cy_last_event_sequence s) (log_of db c)) = Inr (cy_state s))
        \<longrightarrow> (\<forall>st. (\<exists>r. rebuild load_latest_snapshot load_events_after reduce db c = Inr r \<and> sr_state r = st)
              \<longleftrightarrow> r_foldl reduce [] (log_of db c) = Inr st))
    \<and> map je_sequence (jd_events db) = map (\<lambda>i. int i + 1) [0..<length (jd_events db)]"
proof -
  have ok: "journal_ok db" by (rule journal_runs_ok [OF assms])
  have tail: "filter (\<lambda>e. n < je_sequence e) (log_of db c) = filter (\<lambda>e. je_cycle_id e = c \<and> n < je_sequence e) (jd_events db)" for n
    by (simp add: log_of_def conj_commute)
  have numbers: "map je_sequence (jd_events db) = map (\<lambda>i. int i + 1) [0..<length (jd_events db)]"
    using ok by (simp add: journal_ok_def)
  have latest: "\<forall>s. newest_of db c = Some s \<longrightarrow> s \<in> set (jd_snapshots db) \<and> cy_cycle_id s = c
      \<and> (\<forall>s' \<in> set (jd_snapshots db). cy_cycle_id s' = c \<longrightarrow> cy_last_event_sequence s' \<le> cy_last_event_sequence s)"
    by (intro allI impI) (rule newest_is_latest)
  show ?thesis
    by (rule conjI [OF sqlite_journal.rebuild_fold [OF ok, of reduce c, unfolded tail] conjI [OF latest conjI [OF _ numbers]]])
      (intro impI allI, rule sqlite_journal.rebuild_full [OF ok], blast)
qed

definition sample_event :: "string \<Rightarrow> journal_event_type \<Rightarrow> pending_event" where
  "sample_event i ty = \<lparr>je_event_id = i, je_event_type = ty, je_event_version = 1, je_cycle_id = ''c7'', je_level_id = None,
     je_timestamp_utc = Aware 1, je_payload = [], je_causation_id = None, je_correlation_id = ''k''\<rparr>"

definition counting :: reducer where
  "counting st e = Inr [(''count'', JInt (case map_of st ''count'' of Some (JInt n) \<Rightarrow> n + 1 | _ \<Rightarrow> 1))]"

definition sample_journal :: journal_db where
  "sample_journal = fst (append_event (sample_event ''e2'' LEVEL_PAID)
     (fst (append_event_and_snapshot (sample_event ''e1'' LEVEL_LOCKED)
       \<lparr>cy_cycle_id = ''c7'', cy_last_event_sequence = 0, cy_state = [(''count'', JInt 1)], cy_snapshot_version = 1,
        cy_updated_at_utc = Aware 1\<rparr> empty_journal)))"

lemma sample_journal_runs: "journal_runs empty_journal sample_journal"
  unfolding sample_journal_def
  by (rule rtranclp.rtrancl_into_rtrancl, rule r_into_rtranclp, rule journal_step.Append_Snapshot, rule surjective_pairing,
      rule journal_step.Append, rule surjective_pairing)

theorem rebuild_replays_journal_witness:
  "\<exists>r. rebuild load_latest_snapshot load_events_after counting sample_journal ''c7'' = Inr r \<and> sr_state r = [(''count'', JInt 2)]
     \<and> sr_replayed_event_count r = 1"
proof -
  have "case_option True (\<lambda>s. r_foldl counting [] (filter (\<lambda>e. je_sequence e \<le> cy_last_event_sequence s)
      (log_of sample_journal ''c7'')) = Inr (cy_state s)) (newest_of sample_journal ''c7'')"
    by code_simp
  then have "newest_of sample_journal ''c7'' = Some s \<Longrightarrow>
      r_foldl counting [] (filter (\<lambda>e. je_sequence e \<le> cy_last_event_sequence s) (log_of sample_journal ''c7'')) = Inr (cy_state s)" for s
    by simp
  moreover have "r_foldl counting [] (log_of sample_journal ''c7'') = Inr [(''count'', JInt 2)]" by code_simp
  moreover note full = rebuild_replays_journal [OF sample_journal_runs, of counting "''c7''"]
  ultimately obtain r where r: "rebuild load_latest_snapshot load_events_after counting sample_journal ''c7'' = Inr r"
      "sr_state r = [(''count'', JInt 2)]" by blast
  have "(case newest_of sample_journal ''c7'' of None \<Rightarrow> False | Some s \<Rightarrow>
      length (filter (\<lambda>e. je_cycle_id e = ''c7'' \<and> cy_last_event_sequence s < je_sequence e) (jd_events sample_journal)) = 1)"
    by code_simp
  then obtain s where s: "newest_of sample_journal ''c7'' = Some s"
      "length (filter (\<lambda>e. je_cycle_id e = ''c7'' \<and> cy_last_event_sequence s < je_sequence e) (jd_events sample_journal)) = 1"
    by (auto split: option.splits)
  note e = full [THEN conjunct1, unfolded Let_def s(1) option.case r(1), symmetric]
  have "sr_replayed_event_count q = k" if "r_bind m (\<lambda>st. Inr \<lparr>sr_cycle_id = a, sr_state = st,
      sr_last_event_sequence = b, sr_replayed_event_count = k\<rparr>) = Inr q" for m a b k q
    using that by (auto simp: r_bind_eq_Inr)
  from this [OF e] have "sr_replayed_event_count r = 1" unfolding s(2) .
  with r show ?thesis by blast
qed

end
