(* ===== verification/Startup.thy ===== *)
theory Startup
  imports Reconciliation Journal Execution_Store
begin

text \<open>
  \<open>StartupReconciliationService\<close> of \<open>application/startup_reconciliation.py\<close>: replay the journal, load
  the durable local state, capture the exchange, compare, and record the decision as an event with a
  snapshot in one transaction. The captured private state, the clock and the event id are arguments: they
  come from outside. The theorem says what a restart right after it finds.
\<close>

record startup_world =
  su_execution :: database
  su_journal :: journal_db

record startup_inputs =
  si_capture :: "startup_world \<Rightarrow> private_account_snapshot res"
  si_expected_options :: "expected_position list"
  si_now :: datetime
  si_event_id :: "journal_event_type \<Rightarrow> string"
  si_reduce :: reducer
  si_show :: "dec \<Rightarrow> string"
  si_show_tuple :: "dec list \<Rightarrow> string"

record startup_result =
  st_replay :: startup_replay_result
  st_local :: local_recovery_state
  st_exchange :: private_account_snapshot
  st_report :: reconciliation_report
  st_committed :: cycle_snapshot

fun status_value :: "reconciliation_status \<Rightarrow> string" where
  "status_value MATCHED = ''MATCHED''"
| "status_value REPAIRABLE = ''REPAIRABLE''"
| "status_value AMBIGUOUS = ''AMBIGUOUS''"
| "status_value DANGEROUS = ''DANGEROUS''"

fun difference_value :: "state_difference_kind \<Rightarrow> string" where
  "difference_value UNKNOWN_EXCHANGE_ORDER = ''UNKNOWN_EXCHANGE_ORDER''"
| "difference_value MISSING_EXCHANGE_ORDER = ''MISSING_EXCHANGE_ORDER''"
| "difference_value PROTECTION_MISMATCH = ''PROTECTION_MISMATCH''"
| "difference_value MISSING_PROTECTION = ''MISSING_PROTECTION''"
| "difference_value MISSING_TAKE_PROFIT = ''MISSING_TAKE_PROFIT''"
| "difference_value POSITION_MISMATCH = ''POSITION_MISMATCH''"
| "difference_value UNKNOWN_EXCHANGE_POSITION = ''UNKNOWN_EXCHANGE_POSITION''"
| "difference_value UNKNOWN_OPTION_POSITION = ''UNKNOWN_OPTION_POSITION''"
| "difference_value MISSING_LOCAL_EXECUTION = ''MISSING_LOCAL_EXECUTION''"
| "difference_value UNKNOWN_EXCHANGE_EXECUTION = ''UNKNOWN_EXCHANGE_EXECUTION''"

fun action_value :: "repair_action_kind \<Rightarrow> string" where
  "action_value IMPORT_ORDER = ''IMPORT_ORDER''"
| "action_value RESTORE_PROTECTION = ''RESTORE_PROTECTION''"
| "action_value RESTORE_TAKE_PROFIT = ''RESTORE_TAKE_PROFIT''"
| "action_value IMPORT_EXECUTION = ''IMPORT_EXECUTION''"

definition entry_json :: "string \<Rightarrow> string \<Rightarrow> string option \<Rightarrow> json" where
  "entry_json kind detail link = JObject [(''kind'', JText kind), (''detail'', JText detail),
     (''order_link_id'', case link of None \<Rightarrow> JNull | Some l \<Rightarrow> JText l)]"

text \<open>The state of the cycle with the outcome of the comparison.\<close>

definition reconciled_state :: "json_object \<Rightarrow> reconciliation_report \<Rightarrow> json_object" where
  "reconciled_state st r = dict_set ''repair_actions''
       (JList (map (\<lambda>a. entry_json (action_value (ra_kind a)) (ra_detail a) (ra_order_link_id a)) (rr_repair_actions r)))
    (dict_set ''reconciliation_differences''
       (JList (map (\<lambda>d. entry_json (difference_value (sd_kind d)) (sd_detail d) (sd_order_link_id d)) (rr_differences r)))
    (dict_set ''reconciliation_status'' (JText (status_value (rr_status r)))
    (dict_set ''trading_allowed'' (JBool (rr_trading_allowed r)) st)))"

definition decision_type :: "reconciliation_report \<Rightarrow> journal_event_type" where
  "decision_type r = (if rr_trading_allowed r then RECONCILIATION_COMPLETED else TRADING_SUSPENDED)"

definition decision_event :: "startup_inputs \<Rightarrow> string \<Rightarrow> reconciliation_report \<Rightarrow> pending_event res" where
  "decision_event i cycle_id r = mk_pending_event \<lparr>je_event_id = si_event_id i (decision_type r), je_event_type = decision_type r,
     je_event_version = 1, je_cycle_id = cycle_id, je_level_id = None, je_timestamp_utc = si_now i,
     je_payload = [(''status'', JText (status_value (rr_status r))), (''trading_allowed'', JBool (rr_trading_allowed r)),
       (''difference_count'', JInt (int (length (rr_differences r))))],
     je_causation_id = None, je_correlation_id = cycle_id @ ''-startup-reconciliation''\<rparr>"

definition on_execution :: "(database, 'a) act \<Rightarrow> (startup_world, 'a) act" where
  "on_execution m w = (case m (su_execution w) of (db, r) \<Rightarrow> (w\<lparr>su_execution := db\<rparr>, r))"

definition on_journal :: "(journal_db, 'a) act \<Rightarrow> (startup_world, 'a) act" where
  "on_journal m w = (case m (su_journal w) of (db, r) \<Rightarrow> (w\<lparr>su_journal := db\<rparr>, r))"

definition load_local :: "startup_inputs \<Rightarrow> (startup_world, local_recovery_state) act" where
  "load_local i = act_bind (on_execution load_all_order_intents) (\<lambda>intents.
     act_bind (on_execution load_all_entry_snapshots) (\<lambda>es.
     act_bind (on_execution load_all_protection_snapshots) (\<lambda>ps.
     act_bind (on_execution load_all_executions) (\<lambda>xs.
     act_lift (mk_local_recovery_state \<lparr>lx_order_intents = intents, lx_entry_snapshots = es,
       lx_protection_snapshots = ps, lx_expected_option_positions = si_expected_options i, lx_executions = xs\<rparr>)))))"

definition reconcile :: "startup_inputs \<Rightarrow> string \<Rightarrow> string \<Rightarrow> int \<Rightarrow> (startup_world, startup_result) act" where
  "reconcile i cycle_id instance_name cycle_number =
     act_bind (on_journal (act_query (\<lambda>j. rebuild load_latest_snapshot load_events_after (si_reduce i) j cycle_id))) (\<lambda>replay.
     act_bind (load_local i) (\<lambda>local_state.
     act_bind (act_query (si_capture i)) (\<lambda>captured.
     act_bind (act_lift (evaluate_startup_reconciliation (si_show i) (si_show_tuple i) local_state captured instance_name cycle_number)) (\<lambda>report.
     act_bind (act_lift (decision_event i cycle_id report)) (\<lambda>event.
     act_bind (act_lift (mk_cycle_snapshot \<lparr>cy_cycle_id = cycle_id, cy_last_event_sequence = sr_last_event_sequence replay,
       cy_state = reconciled_state (sr_state replay) report, cy_snapshot_version = 1, cy_updated_at_utc = si_now i\<rparr>)) (\<lambda>snapshot.
     act_bind (on_journal (append_event_and_snapshot event snapshot)) (\<lambda>(_, committed).
     act_return \<lparr>st_replay = replay, st_local = local_state, st_exchange = captured, st_report = report, st_committed = committed\<rparr>)))))))"

section \<open>A restart after the decision\<close>

lemma on_query: "on_journal (act_query q) w = (w, q (su_journal w))" "on_execution (act_query q') w = (w, q' (su_execution w))"
  by (simp_all add: on_journal_def on_execution_def act_query_def)

lemma load_local_same: "load_local i w = (w', r) \<Longrightarrow> w' = w"
  by (auto simp: load_local_def load_all_order_intents_def load_all_entry_snapshots_def load_all_protection_snapshots_def
      load_all_executions_def act_bind_def on_query act_lift_def split: prod.splits sum.splits)

text \<open>The steps before the commit only read.\<close>

definition decide :: "startup_inputs \<Rightarrow> string \<Rightarrow> string \<Rightarrow> int \<Rightarrow> startup_world
    \<Rightarrow> (startup_replay_result \<times> local_recovery_state \<times> private_account_snapshot \<times> reconciliation_report
        \<times> pending_event \<times> cycle_snapshot) res" where
  "decide i cycle_id instance_name cycle_number w =
     r_bind (rebuild load_latest_snapshot load_events_after (si_reduce i) (su_journal w) cycle_id) (\<lambda>replay.
     r_bind (snd (load_local i w)) (\<lambda>local_state.
     r_bind (si_capture i w) (\<lambda>captured.
     r_bind (evaluate_startup_reconciliation (si_show i) (si_show_tuple i) local_state captured instance_name cycle_number) (\<lambda>report.
     r_bind (decision_event i cycle_id report) (\<lambda>event.
     r_bind (mk_cycle_snapshot \<lparr>cy_cycle_id = cycle_id, cy_last_event_sequence = sr_last_event_sequence replay,
       cy_state = reconciled_state (sr_state replay) report, cy_snapshot_version = 1, cy_updated_at_utc = si_now i\<rparr>) (\<lambda>snapshot.
     Inr (replay, local_state, captured, report, event, snapshot)))))))"

lemma load_local_reads: "load_local i w = (w, snd (load_local i w))"
  by (metis load_local_same surjective_pairing)

lemma reconcile_decide: "reconcile i c inst n w = (case decide i c inst n w of Inl e \<Rightarrow> (w, Inl e)
   | Inr (replay, local_state, captured, report, event, snapshot) \<Rightarrow>
       (case append_event_and_snapshot event snapshot (su_journal w) of
          (j, Inl e) \<Rightarrow> (w\<lparr>su_journal := j\<rparr>, Inl e)
        | (j, Inr (_, committed)) \<Rightarrow> (w\<lparr>su_journal := j\<rparr>, Inr \<lparr>st_replay = replay, st_local = local_state,
            st_exchange = captured, st_report = report, st_committed = committed\<rparr>)))"
proof -
  obtain r where l: "load_local i w = (w, r)" by (metis load_local_reads)
  show ?thesis
    unfolding reconcile_def decide_def act_bind_def on_query act_lift_def act_query_def prod.case l snd_conv
      act_return_def on_journal_def
    by (auto simp: l split: sum.splits prod.splits)
qed

lemma decideD:
  assumes "decide i c inst n w = Inr (replay, local_state, captured, report, event, snapshot)"
  shows "je_cycle_id event = c" "je_event_type event = decision_type report" "cy_cycle_id snapshot = c"
    "cy_state snapshot = reconciled_state (sr_state replay) report"
proof -
  from assms have e: "decision_event i c report = Inr event"
    and s: "mk_cycle_snapshot \<lparr>cy_cycle_id = c, cy_last_event_sequence = sr_last_event_sequence replay,
       cy_state = reconciled_state (sr_state replay) report, cy_snapshot_version = 1, cy_updated_at_utc = si_now i\<rparr> = Inr snapshot"
    unfolding decide_def by (auto simp only: r_bind_eq_Inr sum.inject prod.inject)
  show "je_cycle_id event = c" "je_event_type event = decision_type report"
    using mk_journal_same(1) [OF e [unfolded decision_event_def]] by simp_all
  show "cy_cycle_id snapshot = c" "cy_state snapshot = reconciled_state (sr_state replay) report"
    using mk_journal_same(3) [OF s] by simp_all
qed

lemma sort_key_least:
  fixes f :: "'a \<Rightarrow> int"
  assumes "y \<in> set ys" "\<And>x. x \<in> set ys \<Longrightarrow> x \<noteq> y \<Longrightarrow> f y < f x"
  shows "\<exists>zs. sort_key f ys = y # zs"
proof (cases "sort_key f ys")
  case Nil
  then show ?thesis using assms(1) by (metis empty_iff empty_set set_sort)
next
  case (Cons s zs)
  have "sorted (map f (sort_key f ys))" by simp
  moreover have "y \<in> set (s # zs)" using assms(1) Cons by (metis set_sort)
  ultimately have "f s \<le> f y" using Cons by auto
  moreover have "s \<in> set ys" using sort_key_head [OF Cons] .
  ultimately have "s = y" using assms(2) by force
  with Cons show ?thesis by blast
qed

lemma newest_after_commit:
  assumes ok: "journal_ok db" and r: "insert_event_and_snapshot e s db = Inr (db', (stored, s1))" and c: "cy_cycle_id s = c"
  shows "newest_of db' c = Some s1"
proof -
  note f = insert_snapshot_facts [OF ok r]
  let ?xs = "filter (\<lambda>s. cy_cycle_id s = c) (jd_snapshots db')"
  have old: "\<forall>x \<in> set (jd_snapshots db). cy_last_event_sequence x \<le> int (length (jd_events db))"
    using ok by (simp add: journal_ok_def)
  have "- cy_last_event_sequence s1 < - cy_last_event_sequence x" if "x \<in> set ?xs" "x \<noteq> s1" for x
  proof -
    have "x \<in> set (jd_snapshots db)" using that f(4) by (auto split: if_splits)
    then show ?thesis using old f(3) by auto
  qed
  moreover have "s1 \<in> set ?xs" using f(3,4) c by simp
  ultimately obtain zs where "sort_key (\<lambda>s. - cy_last_event_sequence s) ?xs = s1 # zs"
    using sort_key_least [of s1 ?xs "\<lambda>s. - cy_last_event_sequence s"] by blast
  then show ?thesis by (simp add: newest_of_def)
qed

lemma rebuild_after_commit:
  assumes ok: "journal_ok db" and r: "insert_event_and_snapshot e s db = Inr (db', (stored, s1))" and c: "cy_cycle_id s = c"
  shows "rebuild load_latest_snapshot load_events_after reduce db' c = Inr \<lparr>sr_cycle_id = c, sr_state = cy_state s,
    sr_last_event_sequence = int (length (jd_events db')), sr_replayed_event_count = 0\<rparr>"
proof -
  note f = insert_snapshot_facts [OF ok r]
  have "je_sequence x \<le> int (length (jd_events db'))" if "x \<in> set (jd_events db')" for x
  proof -
    have "je_sequence x \<in> set (map je_sequence (jd_events db'))" using that by simp
    also have "map je_sequence (jd_events db') = map (\<lambda>i. int i + 1) [0..<length (jd_events db')]"
      using f(5) by (simp add: journal_ok_def)
    finally show ?thesis by auto
  qed
  moreover have "cy_last_event_sequence s1 = int (length (jd_events db'))"
    using f(2,3) by simp
  ultimately have "filter (\<lambda>e. cy_last_event_sequence s1 < je_sequence e) (log_of db' c) = []"
    by (auto simp: log_of_def filter_empty_conv not_less simp del: of_nat_add)
  then show ?thesis
    using f(2,3) unfolding sqlite_journal.rebuild_fold [OF f(5)] newest_after_commit [OF ok r c] by simp
qed

lemma trading_allowed_recorded:
  "map_of (reconciled_state st r) ''trading_allowed'' = Some (JBool (rr_trading_allowed r))"
  by (simp add: reconciled_state_def)

text \<open>C36. The decision survives the restart. On any journal the store can hold, a reconciliation that raises
  leaves the journal and the execution store as they were; one that returns leaves the execution store as it
  was, appends exactly one event, which says whether trading is allowed, commits a state with the same answer
  under \<open>trading_allowed\<close>, and an immediate restart rebuilds exactly that state without replaying an
  event, whatever the reducer.\<close>

theorem restart_after_reconciliation:
  assumes "journal_runs empty_journal (su_journal w)" and "reconcile i c inst n w = (w', r)"
  shows "case r of Inl e \<Rightarrow> w' = w
    | Inr out \<Rightarrow> su_execution w' = su_execution w
      \<and> (\<exists>event. jd_events (su_journal w') = jd_events (su_journal w) @ [event] \<and> je_cycle_id event = c
          \<and> je_event_type event = (if rr_trading_allowed (st_report out) then RECONCILIATION_COMPLETED else TRADING_SUSPENDED))
      \<and> map_of (cy_state (st_committed out)) ''trading_allowed'' = Some (JBool (rr_trading_allowed (st_report out)))
      \<and> rebuild load_latest_snapshot load_events_after reduce (su_journal w') c = Inr \<lparr>sr_cycle_id = c,
          sr_state = cy_state (st_committed out), sr_last_event_sequence = int (length (jd_events (su_journal w'))),
          sr_replayed_event_count = 0\<rparr>"
proof (cases "decide i c inst n w")
  case (Inl e)
  then show ?thesis using assms(2) by (auto simp: reconcile_decide)
next
  case (Inr p)
  obtain replay local_state captured report event snapshot
    where p: "p = (replay, local_state, captured, report, event, snapshot)" by (metis surj_pair)
  note d = decideD [OF Inr [unfolded p]]
  have ok: "journal_ok (su_journal w)" using journal_runs_ok [OF assms(1)] .
  show ?thesis
  proof (cases "insert_event_and_snapshot event snapshot (su_journal w)")
    case (Inl e)
    then have "append_event_and_snapshot event snapshot (su_journal w) = (su_journal w, Inl e)"
      using d by (simp add: append_event_and_snapshot_def)
    then show ?thesis using assms(2) Inr p by (auto simp: reconcile_decide)
  next
    case (Inr q)
    obtain j stored committed where q: "q = (j, (stored, committed))" by (metis surj_pair)
    note i = Inr [unfolded q]
    then have "append_event_and_snapshot event snapshot (su_journal w) = (j, Inr (stored, committed))"
      using d by (simp add: append_event_and_snapshot_def)
    then have w': "w' = w\<lparr>su_journal := j\<rparr>" and r: "r = Inr \<lparr>st_replay = replay, st_local = local_state,
        st_exchange = captured, st_report = report, st_committed = committed\<rparr>"
      using assms(2) \<open>decide i c inst n w = Inr p\<close> p by (auto simp: reconcile_decide)
    note f = insert_snapshot_facts [OF ok i]
    show ?thesis
      unfolding r w' using f(1-3) d rebuild_after_commit [OF ok i d(3), of reduce]
      by (simp add: trading_allowed_recorded decision_type_def)
  qed
qed

definition sample_inputs :: startup_inputs where
  "sample_inputs = \<lparr>si_capture = (\<lambda>_. Inr \<lparr>pa_open_orders = [], pa_recent_orders = [], pa_executions = [], pa_positions = [],
       pa_wallet = \<lparr>ws_account_type = ''UNIFIED'', ws_total_equity = 0, ws_total_wallet_balance = 0,
         ws_total_available_balance = None, ws_balances = [], ws_updated_at = Aware 5\<rparr>,
       pa_captured_at_utc = Aware 5\<rparr>),
     si_expected_options = [], si_now = Aware 6,
     si_event_id = (\<lambda>ty. if ty = TRADING_SUSPENDED then ''suspended'' else ''completed''), si_reduce = counting,
     si_show = (\<lambda>_. ''d''), si_show_tuple = (\<lambda>_. ''t'')\<rparr>"

definition sample_startup :: startup_world where
  "sample_startup = \<lparr>su_execution = empty_database, su_journal = sample_journal\<rparr>"

theorem restart_after_reconciliation_witness:
  "case reconcile sample_inputs ''c7'' ''s1'' 1 sample_startup of (w', Inl e) \<Rightarrow> False
   | (w', Inr out) \<Rightarrow> rr_trading_allowed (st_report out) \<and> su_execution w' = empty_database
      \<and> (\<exists>r. rebuild load_latest_snapshot load_events_after counting (su_journal w') ''c7'' = Inr r \<and> sr_state r = cy_state (st_committed out))"
proof -
  obtain w' r where e: "reconcile sample_inputs ''c7'' ''s1'' 1 sample_startup = (w', r)" by (metis surj_pair)
  have "case snd (reconcile sample_inputs ''c7'' ''s1'' 1 sample_startup) of Inl e \<Rightarrow> False | Inr out \<Rightarrow> rr_trading_allowed (st_report out)"
    by code_simp
  moreover have "journal_runs empty_journal (su_journal sample_startup)"
    using sample_journal_runs by (simp add: sample_startup_def)
  note restart_after_reconciliation [OF this e, of counting]
  ultimately show ?thesis unfolding e by (cases r) (simp_all add: sample_startup_def)
qed

end
