(* ===== verification/Simulated_Exchange.thy ===== *)
theory Simulated_Exchange
  imports Actions Execution Market_Data
begin

text \<open>
  \<open>backtesting/simulated_exchange.py\<close> and \<open>backtesting/fault_injection.py\<close>: the seeded exchange of the
  backtests, with virtual time. \<open>sim_setup\<close> holds what the constructor keeps fixed, \<open>sim\<close> what changes.
  The numbers of the seeded generator, the conversion of a Decimal to a float and the digests are functions
  of the setup. A method is an action on \<open>sim\<close>: what it did before an exception stays done.
  The lemmas are in \<open>Simulation_Properties\<close>.
\<close>

section \<open>Configuration\<close>

record execution_model_config =
  ec_acknowledgement_delay_ms :: int
  ec_visibility_delay_ms :: int
  ec_fill_delay_ms :: int
  ec_partial_fill_probability :: dec
  ec_rejection_probability :: dec
  ec_maker_fee_rate :: dec
  ec_taker_fee_rate :: dec
  ec_stop_slippage_bps :: dec
  ec_entry_slippage_bps :: dec
  ec_duplicate_execution_probability :: dec
  ec_reorder_probability :: dec
  ec_uncertain_ack_probability :: dec
  ec_partial_fill_fraction :: dec
  ec_perp_spread_bps :: dec

definition probability_guard :: "dec \<Rightarrow> string \<Rightarrow> bool \<times> string" where
  "probability_guard v field = (\<not> (0 \<le> v \<and> v \<le> 1), field @ '' must be between zero and one'')"

definition mk_execution_model_config :: "execution_model_config \<Rightarrow> execution_model_config res" where
  [post_init]: "mk_execution_model_config c = check_all
    [(ec_acknowledgement_delay_ms c < 0, ''acknowledgement delay ms cannot be negative''),
     (ec_visibility_delay_ms c < 0, ''visibility delay ms cannot be negative''),
     (ec_fill_delay_ms c < 0, ''fill delay ms cannot be negative''),
     probability_guard (ec_partial_fill_probability c) ''partial fill probability'',
     probability_guard (ec_rejection_probability c) ''rejection probability'',
     probability_guard (ec_duplicate_execution_probability c) ''duplicate execution probability'',
     probability_guard (ec_reorder_probability c) ''reorder probability'',
     probability_guard (ec_uncertain_ack_probability c) ''uncertain ack probability'',
     probability_guard (ec_partial_fill_fraction c) ''partial fill fraction'',
     (ec_partial_fill_fraction c = 0 \<or> ec_partial_fill_fraction c = 1,
      ''partial fill fraction must be strictly between zero and one''),
     (ec_maker_fee_rate c < 0, ''maker fee rate cannot be negative''),
     (ec_taker_fee_rate c < 0, ''taker fee rate cannot be negative''),
     (ec_stop_slippage_bps c < 0, ''stop slippage bps cannot be negative''),
     (ec_entry_slippage_bps c < 0, ''entry slippage bps cannot be negative''),
     (ec_perp_spread_bps c < 0, ''perp spread bps cannot be negative'')] (Inr c)"

record fault_rule =
  fr_checkpoint :: string
  fr_occurrence :: int

definition mk_fault_rule :: "fault_rule \<Rightarrow> fault_rule res" where
  [post_init]: "mk_fault_rule r = check_all
    [(blank (fr_checkpoint r), ''fault checkpoint cannot be empty''),
     (fr_occurrence r \<le> 0, ''fault occurrence must be positive'')] (Inr r)"

record fault_injector =
  fi_rules :: "(string \<times> int) list"
  fi_counts :: "(string \<times> int) list"
  fi_fired :: "(string \<times> int) list"

definition new_fault_injector :: "fault_rule list \<Rightarrow> fault_injector res" where
  "new_fault_injector rules = (let identities = map (\<lambda>r. (fr_checkpoint r, fr_occurrence r)) rules in
     raise_when (\<not> distinct identities) ''fault rules must be unique''
       (Inr \<lparr>fi_rules = identities, fi_counts = [], fi_fired = []\<rparr>))"

definition fault_checkpoint :: "string \<Rightarrow> (fault_injector, unit) act" where
  "fault_checkpoint name f = (let
     occurrence = (case map_of (fi_counts f) name of None \<Rightarrow> 0 | Some n \<Rightarrow> n) + 1;
     f1 = f\<lparr>fi_counts := dict_set name occurrence (fi_counts f)\<rparr>
   in if (name, occurrence) \<in> set (fi_rules f) \<and> (name, occurrence) \<notin> set (fi_fired f)
      then (f1\<lparr>fi_fired := (name, occurrence) # fi_fired f\<rparr>, Inl (InjectedProcessCrash
        (''injected process crash at '' @ name @ '' occurrence '' @ nat_str (nat occurrence))))
      else (f1, Inr ()))"

section \<open>Events, costs and the replay of the ledger\<close>

text \<open>The values a payload holds; a Decimal stays a Decimal.\<close>

datatype sim_value = VText string | VDecimal dec | VInt int | VBool bool | VNone

type_synonym sim_payload = "(string \<times> sim_value) list"

record sim_event =
  sv_sequence :: int
  sv_event_type :: string
  sv_elapsed_ms :: int
  sv_payload :: sim_payload

record sim_cost =
  sc_execution_id :: string
  sc_order_link_id :: string
  sc_trigger_price :: "dec option"
  sc_first_available_price :: dec
  sc_fill_price :: dec
  sc_gap_slippage :: dec
  sc_spread_cost :: dec
  sc_model_slippage :: dec
  sc_fee :: dec

record sim_metrics =
  mx_mode :: string
  mx_entry_fees :: dec
  mx_exit_fees :: dec
  mx_tp_fees :: dec
  mx_stop_fees :: dec
  mx_funding :: dec
  mx_gross_trading_pnl :: dec
  mx_net_hedge_pnl :: dec
  mx_entry_slippage :: dec
  mx_stop_slippage :: dec
  mx_spread_cost :: dec
  mx_rejection_count :: int
  mx_partial_fill_count :: int
  mx_duplicate_event_count :: int
  mx_maximum_stale_duration_ms :: int
  mx_public_disconnect_count :: int
  mx_maximum_unprotected_ms :: int

record replayed_financials =
  rf_gross_trading_pnl :: dec
  rf_entry_fees :: dec
  rf_tp_fees :: dec
  rf_stop_fees :: dec
  rf_funding :: dec
  rf_net_hedge_pnl :: dec

text \<open>\<open>Decimal(str(v))\<close>; \<open>parse\<close> reads the text of a number. \<open>str\<close> of a bool or of None is no number.\<close>

definition payload_decimal :: "(string \<Rightarrow> dec option) \<Rightarrow> sim_payload \<Rightarrow> string \<Rightarrow> dec res" where
  "payload_decimal parse p field = (case map_of p field of
     None \<Rightarrow> Inl (ValueError (''simulated event is missing '' @ field))
   | Some v \<Rightarrow> (case (case v of VDecimal d \<Rightarrow> Some d | VInt i \<Rightarrow> Some (of_int i) | VText t \<Rightarrow> parse t | _ \<Rightarrow> None) of
       None \<Rightarrow> Inl (ValueError (''simulated event '' @ field @ '' must be finite''))
     | Some d \<Rightarrow> Inr d))"

record replay_account =
  ra_quantity :: dec
  ra_average :: dec
  ra_gross :: dec
  ra_entry_fees :: dec
  ra_tp_fees :: dec
  ra_stop_fees :: dec
  ra_funding :: dec

definition replay_execution :: "replay_account \<Rightarrow> sim_payload \<Rightarrow> dec \<Rightarrow> dec \<Rightarrow> dec \<Rightarrow> replay_account res" where
  "replay_execution a p price quantity fee =
     (if map_of p ''side'' = Some (VText ''Sell'') then
        let total_notional = dadd (dmul (ra_average a) (ra_quantity a)) (dmul price quantity);
            q = dadd (ra_quantity a) quantity
        in r_bind (ddiv total_notional q) (\<lambda>average. Inr
             (a\<lparr>ra_quantity := q, ra_average := average, ra_entry_fees := dadd (ra_entry_fees a) fee\<rparr>))
      else if map_of p ''side'' = Some (VText ''Buy'') then
        let closed = min quantity (ra_quantity a);
            q = dsub (ra_quantity a) closed;
            a1 = a\<lparr>ra_gross := dadd (ra_gross a) (dmul (dsub (ra_average a) price) closed), ra_quantity := q,
                   ra_average := (if q = 0 then 0 else ra_average a)\<rparr>
        in Inr (if map_of p ''role'' = Some (VText (role_value HEDGE_TP)) then a1\<lparr>ra_tp_fees := dadd (ra_tp_fees a1) fee\<rparr>
                else if map_of p ''role'' = Some (VText (role_value HEDGE_STOP)) then a1\<lparr>ra_stop_fees := dadd (ra_stop_fees a1) fee\<rparr>
                else a1)
      else Inl (ValueError ''simulated execution side must be Buy or Sell''))"

definition replay_event :: "(string \<Rightarrow> dec option) \<Rightarrow> replay_account \<Rightarrow> sim_event \<Rightarrow> replay_account res" where
  "replay_event parse a e =
     (if sv_event_type e = ''FUNDING_APPLIED'' then
        r_bind (payload_decimal parse (sv_payload e) ''payment'') (\<lambda>payment.
          Inr (a\<lparr>ra_funding := dadd (ra_funding a) payment\<rparr>))
      else if sv_event_type e \<noteq> ''EXECUTION'' then Inr a
      else r_bind (payload_decimal parse (sv_payload e) ''price'') (\<lambda>price.
           r_bind (payload_decimal parse (sv_payload e) ''quantity'') (\<lambda>quantity.
           r_bind (payload_decimal parse (sv_payload e) ''fee'') (\<lambda>fee.
             replay_execution a (sv_payload e) price quantity fee))))"

definition empty_account :: replay_account where
  "empty_account = \<lparr>ra_quantity = 0, ra_average = 0, ra_gross = 0, ra_entry_fees = 0, ra_tp_fees = 0,
     ra_stop_fees = 0, ra_funding = 0\<rparr>"

definition replay_simulated_financials :: "(string \<Rightarrow> dec option) \<Rightarrow> sim_event list \<Rightarrow> replayed_financials res" where
  "replay_simulated_financials parse events = r_bind (r_foldl (replay_event parse) empty_account events) (\<lambda>a. let
     total_fees = dadd (dadd (ra_entry_fees a) (ra_tp_fees a)) (ra_stop_fees a)
   in Inr \<lparr>rf_gross_trading_pnl = ra_gross a, rf_entry_fees = ra_entry_fees a, rf_tp_fees = ra_tp_fees a,
     rf_stop_fees = ra_stop_fees a, rf_funding = ra_funding a,
     rf_net_hedge_pnl = dsub (dadd (ra_gross a) (ra_funding a)) total_fees\<rparr>)"

section \<open>The state of the exchange\<close>

record sim_order =
  so_request :: place_order_request
  so_order_id :: string
  so_created_ms :: int
  so_visible_ms :: int
  so_fill_ms :: int
  so_status :: string
  so_filled_quantity :: dec
  so_fill_notional :: dec
  so_partial_planned :: bool
  so_partial_done :: bool
  so_updated_ms :: int

record sim_setup =
  sx_instrument :: instrument_spec
  sx_config :: execution_model_config
  sx_seed :: int
  sx_start_time :: datetime
  sx_option_quotes :: "option_market_quote list"
  sx_wallet_balance :: dec
  sx_random :: "nat \<Rightarrow> rat"
  sx_float :: "dec \<Rightarrow> rat"
  sx_show :: "dec \<Rightarrow> string"
  sx_sha256 :: "string \<Rightarrow> string"

record sim =
  sm_draws :: nat
  sm_faults :: "fault_injector option"
  sm_now_ms :: int
  sm_market_price :: dec
  sm_orders :: "(string \<times> sim_order) list"
  sm_executions :: "execution_update list"
  sm_delivery_queue :: "execution_update list"
  sm_event_log :: "sim_event list"
  sm_costs :: "sim_cost list"
  sm_trigger_prices :: "(string \<times> dec) list"
  sm_order_sequence :: nat
  sm_execution_sequence :: nat
  sm_market_sequence :: nat
  sm_position_quantity :: dec
  sm_position_average_price :: dec
  sm_realized_pnl :: dec
  sm_funding :: dec
  sm_entry_fees :: dec
  sm_exit_fees :: dec
  sm_tp_fees :: dec
  sm_stop_fees :: dec
  sm_entry_slippage :: dec
  sm_stop_slippage :: dec
  sm_spread_cost :: dec
  sm_rejection_count :: int
  sm_partial_fill_count :: int
  sm_duplicate_event_count :: int
  sm_private_connected :: bool
  sm_public_connected :: bool
  sm_public_disconnected_since_ms :: "int option"
  sm_maximum_stale_duration_ms :: int
  sm_public_disconnect_count :: int
  sm_latest_published_price :: dec
  sm_unprotected_since_ms :: "int option"
  sm_maximum_unprotected_ms :: int
  sm_ticker_queue :: "ticker_event list"
  sm_trade_queue :: "trade_event list"
  sm_book_queue :: "order_book_update list"

type_synonym 'a sim_act = "(sim, 'a) act"

definition new_simulated_exchange :: "sim_setup \<Rightarrow> dec \<Rightarrow> fault_injector option \<Rightarrow> sim res" where
  "new_simulated_exchange x initial_price faults = check_all
    [(is_category (sx_instrument x) \<noteq> linear_category, ''simulated exchange requires a linear instrument''),
     (\<not> is_aware (sx_start_time x), ''simulation start time must be timezone-aware''),
     (initial_price \<le> 0, ''initial price must be positive'')]
    (Inr \<lparr>sm_draws = 0, sm_faults = faults, sm_now_ms = 0, sm_market_price = initial_price, sm_orders = [],
       sm_executions = [], sm_delivery_queue = [], sm_event_log = [], sm_costs = [], sm_trigger_prices = [],
       sm_order_sequence = 0, sm_execution_sequence = 0, sm_market_sequence = 0, sm_position_quantity = 0,
       sm_position_average_price = 0, sm_realized_pnl = 0, sm_funding = 0, sm_entry_fees = 0, sm_exit_fees = 0,
       sm_tp_fees = 0, sm_stop_fees = 0, sm_entry_slippage = 0, sm_stop_slippage = 0, sm_spread_cost = 0,
       sm_rejection_count = 0, sm_partial_fill_count = 0, sm_duplicate_event_count = 0, sm_private_connected = True,
       sm_public_connected = True, sm_public_disconnected_since_ms = None, sm_maximum_stale_duration_ms = 0,
       sm_public_disconnect_count = 0, sm_latest_published_price = initial_price, sm_unprotected_since_ms = None,
       sm_maximum_unprotected_ms = 0, sm_ticker_queue = [], sm_trade_queue = [], sm_book_queue = []\<rparr>)"

definition active_statuses :: "string list" where
  "active_statuses = [''New'', ''Untriggered'', ''PartiallyFilled'']"

definition is_active :: "sim_order \<Rightarrow> bool" where
  "is_active d \<longleftrightarrow> so_status d \<in> set active_statuses"

definition sim_do :: "(sim \<Rightarrow> sim) \<Rightarrow> unit sim_act" where
  "sim_do f s = (f s, Inr ())"

definition put_order :: "string \<Rightarrow> sim_order \<Rightarrow> sim \<Rightarrow> sim" where
  "put_order k d s = s\<lparr>sm_orders := dict_set k d (sm_orders s)\<rparr>"

definition record_event :: "string \<Rightarrow> sim_payload \<Rightarrow> sim \<Rightarrow> sim" where
  "record_event ty p s = s\<lparr>sm_event_log := sm_event_log s @ [\<lparr>sv_sequence = int (length (sm_event_log s)) + 1,
     sv_event_type = ty, sv_elapsed_ms = sm_now_ms s, sv_payload = p\<rparr>]\<rparr>"

definition draw :: "sim_setup \<Rightarrow> dec \<Rightarrow> sim \<Rightarrow> sim \<times> bool" where
  "draw x p s = (s\<lparr>sm_draws := sm_draws s + 1\<rparr>, sx_random x (sm_draws s) < sx_float x p)"

definition sim_timestamp :: "sim_setup \<Rightarrow> int \<Rightarrow> datetime" where
  "sim_timestamp x ms = Aware (instant (sx_start_time x) + 1000 * ms)"

definition numbered_id :: "string \<Rightarrow> nat \<Rightarrow> string" where
  "numbered_id prefix n = prefix @ format_int 6 (int n)"

definition bid_ask :: "sim_setup \<Rightarrow> sim \<Rightarrow> dec \<times> dec" where
  "bid_ask x s = (let spread = dquot (ec_perp_spread_bps (sx_config x)) 10000
     in (dmul (sm_market_price s) (dsub 1 spread), dmul (sm_market_price s) (dadd 1 spread)))"

text \<open>Raises an injected crash if the checkpoint has a rule.\<close>

definition checkpoint :: "string \<Rightarrow> unit sim_act" where
  "checkpoint name s = (case sm_faults s of None \<Rightarrow> (s, Inr ())
     | Some f \<Rightarrow> (case fault_checkpoint name f of (f', r) \<Rightarrow> (s\<lparr>sm_faults := Some f'\<rparr>, r)))"

section \<open>Stale and unprotected time\<close>

definition since :: "int option \<Rightarrow> int \<Rightarrow> int" where
  "since start now = (case start of None \<Rightarrow> 0 | Some t \<Rightarrow> now - t)"

definition current_maximum_stale :: "sim \<Rightarrow> int" where
  "current_maximum_stale s = max (sm_maximum_stale_duration_ms s) (since (sm_public_disconnected_since_ms s) (sm_now_ms s))"

definition current_maximum_unprotected :: "sim \<Rightarrow> int" where
  "current_maximum_unprotected s = max (sm_maximum_unprotected_ms s) (since (sm_unprotected_since_ms s) (sm_now_ms s))"

definition has_active_stop :: "sim \<Rightarrow> bool" where
  "has_active_stop s = list_ex (\<lambda>(k, d). is_active d \<and>
     (case parse_id (po_order_link_id (so_request d)) of Inl _ \<Rightarrow> False | Inr c \<Rightarrow> role c = HEDGE_STOP)) (sm_orders s)"

definition update_protection_state :: "sim \<Rightarrow> sim" where
  "update_protection_state s = (let is_unprotected = 0 < sm_position_quantity s \<and> \<not> has_active_stop s in
     if is_unprotected \<and> sm_unprotected_since_ms s = None then s\<lparr>sm_unprotected_since_ms := Some (sm_now_ms s)\<rparr>
     else if \<not> is_unprotected \<and> sm_unprotected_since_ms s \<noteq> None
     then s\<lparr>sm_maximum_unprotected_ms := current_maximum_unprotected s, sm_unprotected_since_ms := None\<rparr>
     else s)"

section \<open>Fills\<close>

text \<open>Whether and how much the next fill takes: the first fill of an order that is to be filled in parts takes
  the fraction of its quantity, rounded down to the step.\<close>

definition remaining_of :: "sim_order \<Rightarrow> sim \<Rightarrow> dec" where
  "remaining_of d s = (let rest = dsub (po_quantity (so_request d)) (so_filled_quantity d) in
     if po_reduce_only (so_request d) then min rest (sm_position_quantity s) else rest)"

definition proposed_part :: "sim_setup \<Rightarrow> sim_order \<Rightarrow> dec" where
  "proposed_part x d = (let step = qty_step (is_lot_size_filter (sx_instrument x)) in
     dmul (of_int \<lfloor>dquot (dmul (po_quantity (so_request d)) (ec_partial_fill_fraction (sx_config x))) step\<rfloor>) step)"

definition takes_part :: "sim_setup \<Rightarrow> sim_order \<Rightarrow> dec \<Rightarrow> bool" where
  "takes_part x d remaining \<longleftrightarrow> so_partial_planned d \<and> \<not> so_partial_done d
     \<and> 0 < proposed_part x d \<and> proposed_part x d < remaining"

definition execution_price :: "sim_setup \<Rightarrow> sim \<Rightarrow> place_order_request \<Rightarrow> (dec \<times> dec \<times> client_order_role) res" where
  "execution_price x s r = (let (bid, ask_price) = bid_ask x s;
      first_available = (if po_side r = Sell then bid else ask_price)
    in r_bind (parse_id (po_order_link_id r)) (\<lambda>c. let
      slippage_bps = (case role c of HEDGE_ENTRY \<Rightarrow> ec_entry_slippage_bps (sx_config x)
                                   | HEDGE_STOP \<Rightarrow> ec_stop_slippage_bps (sx_config x) | _ \<Rightarrow> 0);
      direction = (if po_side r = Sell then -1 else 1);
      fill_price = dmul first_available (dadd 1 (dquot (dmul direction slippage_bps) 10000))
    in Inr (first_available, fill_price, role c)))"

text \<open>The divisor is positive: a position is never negative and a fill is positive (\<open>account_ok\<close> in \<open>Simulation_Properties\<close>).\<close>

definition apply_position :: "execution_update \<Rightarrow> client_order_role \<Rightarrow> sim \<Rightarrow> sim" where
  "apply_position e rl s =
     (if ex_side e = Sell then
        let total_notional = dadd (dmul (sm_position_average_price s) (sm_position_quantity s)) (dmul (ex_price e) (ex_quantity e));
            q = dadd (sm_position_quantity s) (ex_quantity e)
        in s\<lparr>sm_position_quantity := q, sm_position_average_price := dquot total_notional q,
             sm_entry_fees := dadd (sm_entry_fees s) (ex_fee e)\<rparr>
      else
        let closed = min (ex_quantity e) (sm_position_quantity s);
            q = dsub (sm_position_quantity s) closed
        in s\<lparr>sm_realized_pnl := dadd (sm_realized_pnl s) (dmul (dsub (sm_position_average_price s) (ex_price e)) closed),
             sm_position_quantity := q, sm_exit_fees := dadd (sm_exit_fees s) (ex_fee e),
             sm_tp_fees := (if rl = HEDGE_TP then dadd (sm_tp_fees s) (ex_fee e) else sm_tp_fees s),
             sm_stop_fees := (if rl = HEDGE_STOP then dadd (sm_stop_fees s) (ex_fee e) else sm_stop_fees s),
             sm_position_average_price := (if q = 0 then 0 else sm_position_average_price s)\<rparr>)"

definition record_cost :: "execution_update \<Rightarrow> dec \<Rightarrow> client_order_role \<Rightarrow> place_order_request \<Rightarrow> sim \<Rightarrow> sim" where
  "record_cost e first_available rl r s = (let
     trigger = (case map_of (sm_trigger_prices s) (ex_order_link_id e) of Some t \<Rightarrow> Some t | None \<Rightarrow> po_trigger_price r);
     gap = (case trigger of None \<Rightarrow> 0 | Some t \<Rightarrow> dabs (dsub (ex_price e) t));
     spread = dmul (dabs (dsub first_available (sm_market_price s))) (ex_quantity e);
     model_slippage = dmul (dabs (dsub (ex_price e) first_available)) (ex_quantity e)
   in s\<lparr>sm_spread_cost := dadd (sm_spread_cost s) spread,
        sm_entry_slippage := (if rl = HEDGE_ENTRY then dadd (sm_entry_slippage s) model_slippage else sm_entry_slippage s),
        sm_stop_slippage := (if rl = HEDGE_STOP then dadd (sm_stop_slippage s) model_slippage else sm_stop_slippage s),
        sm_costs := sm_costs s @ [\<lparr>sc_execution_id = ex_execution_id e, sc_order_link_id = ex_order_link_id e,
          sc_trigger_price = trigger, sc_first_available_price = first_available, sc_fill_price = ex_price e,
          sc_gap_slippage = gap, sc_spread_cost = spread, sc_model_slippage = model_slippage, sc_fee = ex_fee e\<rparr>]\<rparr>)"

fun side_value :: "order_side \<Rightarrow> string" where
  "side_value Buy = ''Buy''"
| "side_value Sell = ''Sell''"

definition execution_payload :: "execution_update \<Rightarrow> client_order_role \<Rightarrow> sim_payload" where
  "execution_payload e rl = [(''execution_id'', VText (ex_execution_id e)), (''order_link_id'', VText (ex_order_link_id e)),
     (''price'', VDecimal (ex_price e)), (''quantity'', VDecimal (ex_quantity e)), (''fee'', VDecimal (ex_fee e)),
     (''side'', VText (side_value (ex_side e))), (''role'', VText (role_value rl))]"

definition filled_order :: "sim_order \<Rightarrow> execution_update \<Rightarrow> int \<Rightarrow> sim_order" where
  "filled_order d e now = (let filled = dadd (so_filled_quantity d) (ex_quantity e) in
     d\<lparr>so_filled_quantity := filled, so_fill_notional := dadd (so_fill_notional d) (dmul (ex_price e) (ex_quantity e)),
       so_updated_ms := now, so_status := (if filled = po_quantity (so_request d) then ''Filled'' else ''PartiallyFilled'')\<rparr>)"

text \<open>What an execution changes: the order, the queues, the position, the costs and the ledger.\<close>

definition deliver :: "sim_setup \<Rightarrow> execution_update \<Rightarrow> sim \<Rightarrow> sim" where
  "deliver x e s = (let s1 = s\<lparr>sm_executions := sm_executions s @ [e], sm_delivery_queue := sm_delivery_queue s @ [e]\<rparr> in
     case draw x (ec_duplicate_execution_probability (sx_config x)) s1 of (s2, again) \<Rightarrow>
       if again then s2\<lparr>sm_delivery_queue := sm_delivery_queue s2 @ [e],
                        sm_duplicate_event_count := sm_duplicate_event_count s2 + 1\<rparr> else s2)"

definition book_execution :: "sim_setup \<Rightarrow> string \<Rightarrow> sim_order \<Rightarrow> execution_update \<Rightarrow> dec \<Rightarrow> client_order_role \<Rightarrow> sim \<Rightarrow> sim" where
  "book_execution x k d e first_available rl s =
     record_event ''EXECUTION'' (execution_payload e rl)
       (record_cost e first_available rl (so_request d)
         (update_protection_state (apply_position e rl
           (deliver x e (put_order k (filled_order d e (sm_now_ms s)) s)))))"

definition cancelled_order :: "sim_order \<Rightarrow> int \<Rightarrow> sim_order" where
  "cancelled_order d now = d\<lparr>so_status := ''Cancelled'', so_updated_ms := now\<rparr>"

definition execution_of :: "sim_setup \<Rightarrow> sim_order \<Rightarrow> dec \<Rightarrow> dec \<Rightarrow> sim \<Rightarrow> execution_update res" where
  "execution_of x d q price s = (let
      r = so_request d; is_maker = (po_order_type r = Limit);
      fee_rate = (if is_maker then ec_maker_fee_rate (sx_config x) else ec_taker_fee_rate (sx_config x))
    in mk_execution_update \<lparr>ex_execution_id = numbered_id ''SIM-EXEC-'' (sm_execution_sequence s),
      ex_order_id = so_order_id d, ex_order_link_id = po_order_link_id r, ex_symbol = po_symbol r, ex_side = po_side r,
      ex_price = price, ex_quantity = q, ex_fee = dmul (dmul price q) fee_rate, ex_is_maker = Some is_maker,
      ex_executed_at = sim_timestamp x (sm_now_ms s)\<rparr>)"

definition fill_order :: "sim_setup \<Rightarrow> string \<Rightarrow> sim_order \<Rightarrow> unit sim_act" where
  "fill_order x k d s = (let remaining = remaining_of d s in
     if remaining \<le> 0 then (put_order k (cancelled_order d (sm_now_ms s)) s, Inr ())
     else let part = takes_part x d remaining;
              q = (if part then proposed_part x d else remaining);
              d1 = d\<lparr>so_partial_done := so_partial_done d \<or> part\<rparr>;
              s1 = put_order k d1 (s\<lparr>sm_partial_fill_count := sm_partial_fill_count s + (if part then 1 else 0)\<rparr>)
          in case execution_price x s1 (so_request d1) of
               Inl e \<Rightarrow> (s1, Inl e)
             | Inr (first_available, price, rl) \<Rightarrow> let s2 = s1\<lparr>sm_execution_sequence := sm_execution_sequence s1 + 1\<rparr> in
                 case execution_of x d1 q price s2 of
                   Inl e \<Rightarrow> (s2, Inl e)
                 | Inr e \<Rightarrow> (book_execution x k d1 e first_available rl s2, Inr ()))"

definition eligible :: "sim_setup \<Rightarrow> sim \<Rightarrow> place_order_request \<Rightarrow> bool res" where
  "eligible x s r = (if (case po_trigger_price r of None \<Rightarrow> False
        | Some t \<Rightarrow> \<not> (if po_trigger_direction r = Some 1 then t \<le> sm_market_price s else sm_market_price s \<le> t))
     then Inr False
     else if po_order_type r = Market then Inr True
     else case po_price r of None \<Rightarrow> Inl (AssertionError ''limit order must have a price'')
       | Some price \<Rightarrow> let (bid, ask_price) = bid_ask x s
           in Inr (if po_side r = Sell then price \<le> bid else ask_price \<le> price))"

definition process_order :: "sim_setup \<Rightarrow> string \<Rightarrow> unit sim_act" where
  "process_order x k s = (case map_of (sm_orders s) k of
     None \<Rightarrow> (s, Inr ())
   | Some d \<Rightarrow> if \<not> is_active d \<or> sm_now_ms s < so_fill_ms d then (s, Inr ())
       else case eligible x s (so_request d) of
              Inl e \<Rightarrow> (s, Inl e)
            | Inr True \<Rightarrow> fill_order x k d s
            | Inr False \<Rightarrow>
                if po_time_in_force (so_request d) = IOC \<and> po_trigger_price (so_request d) = None
                then (put_order k (cancelled_order d (sm_now_ms s)) s, Inr ()) else (s, Inr ()))"

definition process_orders :: "sim_setup \<Rightarrow> unit sim_act" where
  "process_orders x s = act_for (\<lambda>k _. process_order x k) (map fst (sm_orders s)) () s"

section \<open>Time, market and connections\<close>

definition advance_time :: "sim_setup \<Rightarrow> int \<Rightarrow> unit sim_act" where
  "advance_time x elapsed_ms s =
     (if elapsed_ms < 0 then (s, Inl (ValueError ''elapsed milliseconds cannot be negative''))
      else let s1 = s\<lparr>sm_now_ms := sm_now_ms s + elapsed_ms\<rparr>;
               s2 = s1\<lparr>sm_maximum_stale_duration_ms := current_maximum_stale s1\<rparr>;
               s3 = s2\<lparr>sm_maximum_unprotected_ms := current_maximum_unprotected s2\<rparr>
           in process_orders x s3)"

definition market_hash :: "sim_setup \<Rightarrow> string \<Rightarrow> sim \<Rightarrow> string" where
  "market_hash x ty s = sx_sha256 x ((if sx_seed x < 0 then ''-'' else '''') @ nat_str (nat \<bar>sx_seed x\<bar>) @ '':'' @
     nat_str (sm_market_sequence s) @ '':'' @ ty @ '':'' @ sx_show x (sm_market_price s))"

definition market_book :: "sim_setup \<Rightarrow> string \<Rightarrow> string \<Rightarrow> sim \<Rightarrow> order_book_update res" where
  "market_book x symb hash_text s = (let (bid, ask_price) = bid_ask x s in
     mk_order_book_update \<lparr>bk_symbol = symb, bk_bids = [(bid, 100)], bk_asks = [(ask_price, 100)],
       bk_update_id = int (sm_market_sequence s), bk_sequence = int (sm_market_sequence s),
       bk_timestamp_utc = sim_timestamp x (sm_now_ms s), bk_connection_generation = 1, bk_raw_payload_hash = hash_text\<rparr>)"

definition market_ticker :: "sim_setup \<Rightarrow> string \<Rightarrow> sim \<Rightarrow> ticker_event res" where
  "market_ticker x hash_text s = (let (bid, ask_price) = bid_ask x s in
     mk_ticker_event \<lparr>tk_symbol = is_symbol (sx_instrument x), tk_timestamp_utc = sim_timestamp x (sm_now_ms s),
       tk_last_price = Some (sm_market_price s), tk_mark_price = Some (sm_market_price s),
       tk_index_price = Some (sm_market_price s), tk_bid_price = Some bid, tk_ask_price = Some ask_price,
       tk_sequence = Some (int (sm_market_sequence s)), tk_connection_generation = 1, tk_raw_payload_hash = hash_text,
       tk_bid_size = None, tk_ask_size = None, tk_bid_iv = None, tk_ask_iv = None, tk_mark_iv = None,
       tk_underlying_price = None, tk_delta = None, tk_gamma = None, tk_vega = None, tk_theta = None\<rparr>)"

definition market_trade :: "sim_setup \<Rightarrow> string \<Rightarrow> sim \<Rightarrow> trade_event res" where
  "market_trade x hash_text s = mk_trade_event \<lparr>te_symbol = is_symbol (sx_instrument x),
     te_timestamp_utc = sim_timestamp x (sm_now_ms s), te_price = sm_market_price s, te_size = 1, te_side = Sell,
     te_trade_id = numbered_id ''SIM-TRADE-'' (sm_market_sequence s), te_sequence = Some (int (sm_market_sequence s)),
     te_connection_generation = 1, te_raw_payload_hash = hash_text\<rparr>"

definition publish_market_events :: "sim_setup \<Rightarrow> unit sim_act" where
  "publish_market_events x s = (if \<not> sm_public_connected s then (s, Inr ())
     else let s1 = s\<lparr>sm_latest_published_price := sm_market_price s\<rparr>; digest = market_hash x ''market'' s1 in
       case market_ticker x digest s1 of Inl e \<Rightarrow> (s1, Inl e) | Inr ticker \<Rightarrow>
       (case market_trade x digest s1 of Inl e \<Rightarrow> (s1, Inl e) | Inr trade \<Rightarrow>
       (case market_book x (is_symbol (sx_instrument x)) digest s1 of Inl e \<Rightarrow> (s1, Inl e) | Inr book \<Rightarrow>
          (s1\<lparr>sm_ticker_queue := sm_ticker_queue s1 @ [ticker], sm_trade_queue := sm_trade_queue s1 @ [trade],
              sm_book_queue := sm_book_queue s1 @ [book]\<rparr>, Inr ()))))"

definition advance_market :: "sim_setup \<Rightarrow> dec \<Rightarrow> int \<Rightarrow> unit sim_act" where
  "advance_market x price elapsed_ms =
     (if price \<le> 0 then act_raise (ValueError ''market price must be positive'')
      else act_bind (sim_do (\<lambda>s. s\<lparr>sm_market_price := price, sm_market_sequence := sm_market_sequence s + 1\<rparr>)) (\<lambda>_.
           act_bind (publish_market_events x) (\<lambda>_. advance_time x elapsed_ms)))"

definition register_trigger_price :: "string \<Rightarrow> dec \<Rightarrow> unit sim_act" where
  "register_trigger_price link price = sim_do (\<lambda>s. s\<lparr>sm_trigger_prices := dict_set link price (sm_trigger_prices s)\<rparr>)"

definition set_private_connected :: "bool \<Rightarrow> unit sim_act" where
  "set_private_connected online = sim_do (\<lambda>s.
     record_event ''PRIVATE_CONNECTION'' [(''connected'', VBool online)] (s\<lparr>sm_private_connected := online\<rparr>))"

definition set_public_connected :: "bool \<Rightarrow> unit sim_act" where
  "set_public_connected online = sim_do (\<lambda>s. if online = sm_public_connected s then s
     else record_event ''PUBLIC_CONNECTION'' [(''connected'', VBool online)]
       ((if online then s\<lparr>sm_maximum_stale_duration_ms := current_maximum_stale s, sm_public_disconnected_since_ms := None\<rparr>
         else s\<lparr>sm_public_disconnected_since_ms := Some (sm_now_ms s),
                sm_public_disconnect_count := sm_public_disconnect_count s + 1\<rparr>)\<lparr>sm_public_connected := online\<rparr>))"

definition drain_execution_events :: "sim_setup \<Rightarrow> execution_update list sim_act" where
  "drain_execution_events x s = (if \<not> sm_private_connected s then (s, Inr [])
     else let events = sm_delivery_queue s; s1 = s\<lparr>sm_delivery_queue := []\<rparr> in
       if events = [] then (s1, Inr [])
       else case draw x (ec_reorder_probability (sx_config x)) s1 of (s2, reorder) \<Rightarrow>
         if reorder then (record_event ''EXECUTIONS_REORDERED'' [(''count'', VInt (int (length events)))] s2, Inr (rev events))
         else (s2, Inr events))"

definition apply_funding :: "dec \<Rightarrow> dec sim_act" where
  "apply_funding rate s = (let payment = dmul (dmul (sm_position_quantity s) (sm_market_price s)) rate in
     (record_event ''FUNDING_APPLIED'' [(''rate'', VDecimal rate), (''payment'', VDecimal payment)]
       (s\<lparr>sm_funding := dadd (sm_funding s) payment\<rparr>), Inr payment))"

section \<open>Orders\<close>

definition sim_ack :: "sim_setup \<Rightarrow> order_request_kind \<Rightarrow> string \<Rightarrow> string \<Rightarrow> order_request_ack sim_act" where
  "sim_ack x kind order_id link = act_query (\<lambda>s. mk_order_request_ack \<lparr>ak_request_kind = kind, ak_order_id = order_id,
     ak_order_link_id = link, ak_acknowledged_at = sim_timestamp x (sm_now_ms s)\<rparr>)"

definition accept_order :: "sim_setup \<Rightarrow> place_order_request \<Rightarrow> sim \<Rightarrow> sim \<times> string" where
  "accept_order x r s = (let n = sm_order_sequence s + 1;
      s1 = s\<lparr>sm_order_sequence := n\<rparr>; order_id = numbered_id ''SIM-ORDER-'' n in
    case draw x (ec_partial_fill_probability (sx_config x)) s1 of (s2, partial) \<Rightarrow> let
      d = \<lparr>so_request = r, so_order_id = order_id, so_created_ms = sm_now_ms s,
           so_visible_ms = sm_now_ms s + ec_visibility_delay_ms (sx_config x),
           so_fill_ms = sm_now_ms s + ec_fill_delay_ms (sx_config x),
           so_status = (if po_trigger_price r \<noteq> None then ''Untriggered'' else ''New''),
           so_filled_quantity = 0, so_fill_notional = 0, so_partial_planned = partial, so_partial_done = False,
           so_updated_ms = sm_now_ms s\<rparr>
    in (record_event ''ORDER_ACCEPTED'' [(''order_id'', VText order_id), (''order_link_id'', VText (po_order_link_id r)),
          (''visible_ms'', VInt (so_visible_ms d)), (''fill_ms'', VInt (so_fill_ms d))]
        (update_protection_state (put_order (po_order_link_id r) d s2)), order_id))"

definition draw_act :: "sim_setup \<Rightarrow> dec \<Rightarrow> bool sim_act" where
  "draw_act x p s = (case draw x p s of (s', b) \<Rightarrow> (s', Inr b))"

definition refuse_order :: "place_order_request \<Rightarrow> order_request_ack sim_act" where
  "refuse_order r = act_bind (sim_do (\<lambda>s. record_event ''ORDER_REJECTED'' [(''order_link_id'', VText (po_order_link_id r))]
       (s\<lparr>sm_rejection_count := sm_rejection_count s + 1\<rparr>))) (\<lambda>_.
     act_raise (SimulatedOrderRejectedError (''seeded rejection for '' @ po_order_link_id r)))"

definition confirm_order :: "sim_setup \<Rightarrow> place_order_request \<Rightarrow> string \<Rightarrow> order_request_ack sim_act" where
  "confirm_order x r order_id = act_bind (checkpoint ''after_order_accepted'') (\<lambda>_.
     act_bind (advance_time x (ec_acknowledgement_delay_ms (sx_config x))) (\<lambda>_.
     act_bind (draw_act x (ec_uncertain_ack_probability (sx_config x))) (\<lambda>uncertain.
     if uncertain then act_bind (sim_do (record_event ''ACK_UNCERTAIN'' [(''order_link_id'', VText (po_order_link_id r))])) (\<lambda>_.
       act_raise (UncertainOrderOutcomeError (po_order_link_id r)))
     else sim_ack x PLACE order_id (po_order_link_id r))))"

definition sim_place_order :: "sim_setup \<Rightarrow> place_order_request \<Rightarrow> order_request_ack sim_act" where
  "sim_place_order x r = act_bind (checkpoint ''before_place_order'') (\<lambda>_.
     if po_symbol r \<noteq> is_symbol (sx_instrument x) then act_raise (ValueError ''simulated order symbol does not match instrument'')
     else act_bind (act_get (\<lambda>s. map_of (sm_orders s) (po_order_link_id r) \<noteq> None)) (\<lambda>exists_already.
     if exists_already then act_raise (ValueError ''simulated client order ID already exists'')
     else act_bind (draw_act x (ec_rejection_probability (sx_config x))) (\<lambda>rejected.
     if rejected then refuse_order r
     else act_bind (\<lambda>s. case accept_order x r s of (s', i) \<Rightarrow> (s', Inr i)) (confirm_order x r))))"

definition required_order :: "string \<Rightarrow> sim_order sim_act" where
  "required_order link = act_query (\<lambda>s. case map_of (sm_orders s) link of
     None \<Rightarrow> Inl (ValueError ''simulated order does not exist'') | Some d \<Rightarrow> Inr d)"

definition amended_request :: "place_order_request \<Rightarrow> amend_order_request \<Rightarrow> place_order_request res" where
  "amended_request r a = mk_place_order_request (r\<lparr>
     po_quantity := (case am_quantity a of None \<Rightarrow> po_quantity r | Some q \<Rightarrow> q),
     po_price := (case am_price a of None \<Rightarrow> po_price r | Some p \<Rightarrow> Some p),
     po_trigger_price := (case am_trigger_price a of None \<Rightarrow> po_trigger_price r | Some p \<Rightarrow> Some p)\<rparr>)"

definition sim_amend_order :: "sim_setup \<Rightarrow> amend_order_request \<Rightarrow> order_request_ack sim_act" where
  "sim_amend_order x a = act_bind (required_order (am_order_link_id a)) (\<lambda>d.
     if \<not> is_active d then act_raise (ValueError ''only active simulated orders can be amended'')
     else act_bind (act_lift (amended_request (so_request d) a)) (\<lambda>r.
          act_bind (sim_do (\<lambda>s. record_event ''ORDER_AMENDED'' [(''order_link_id'', VText (am_order_link_id a))]
             (put_order (am_order_link_id a) (d\<lparr>so_request := r, so_updated_ms := sm_now_ms s\<rparr>) s))) (\<lambda>_.
          sim_ack x AMEND (so_order_id d) (am_order_link_id a))))"

definition cancel_if_active :: "int \<Rightarrow> sim_order \<Rightarrow> sim_order" where
  "cancel_if_active now d = (if is_active d then cancelled_order d now else d)"

definition sim_cancel_order :: "sim_setup \<Rightarrow> cancel_order_request \<Rightarrow> order_request_ack sim_act" where
  "sim_cancel_order x c = act_bind (required_order (ca_order_link_id c)) (\<lambda>d.
     act_bind (sim_do (\<lambda>s. record_event ''ORDER_CANCELLED'' [(''order_link_id'', VText (ca_order_link_id c))]
       (update_protection_state (put_order (ca_order_link_id c) (cancel_if_active (sm_now_ms s) d) s)))) (\<lambda>_.
     sim_ack x CANCEL (so_order_id d) (ca_order_link_id c)))"

definition in_scope :: "instrument_category \<Rightarrow> string option \<Rightarrow> sim_order \<Rightarrow> bool" where
  "in_scope category symb d \<longleftrightarrow> po_category (so_request d) = category
     \<and> (case symb of None \<Rightarrow> True | Some v \<Rightarrow> po_symbol (so_request d) = v)"

fun category_value :: "instrument_category \<Rightarrow> string" where
  "category_value linear_category = ''linear''"
| "category_value option_category = ''option''"

definition sim_cancel_all :: "instrument_category \<Rightarrow> string option \<Rightarrow> unit sim_act" where
  "sim_cancel_all category symb = sim_do (\<lambda>s.
     record_event ''ALL_ORDERS_CANCELLED'' [(''category'', VText (category_value category)),
         (''symbol'', case symb of None \<Rightarrow> VNone | Some v \<Rightarrow> VText v)]
       (update_protection_state (s\<lparr>sm_orders := map (\<lambda>(k, d).
         (k, if in_scope category symb d then cancel_if_active (sm_now_ms s) d else d)) (sm_orders s)\<rparr>)))"

section \<open>Queries\<close>

definition sim_visible :: "sim \<Rightarrow> sim_order \<Rightarrow> bool" where
  "sim_visible s d \<longleftrightarrow> so_visible_ms d \<le> sm_now_ms s"

definition exchange_order_of :: "sim_setup \<Rightarrow> sim_order \<Rightarrow> exchange_order res" where
  "exchange_order_of x d = (let r = so_request d in mk_exchange_order
     \<lparr>eo_category = po_category r, eo_order_id = so_order_id d, eo_order_link_id = po_order_link_id r, eo_symbol = po_symbol r,
      eo_status = so_status d, eo_side = po_side r, eo_order_type = po_order_type r, eo_price = po_price r,
      eo_quantity = po_quantity r, eo_cumulative_filled_quantity = so_filled_quantity d,
      eo_average_price = (if so_filled_quantity d = 0 then None else Some (dquot (so_fill_notional d) (so_filled_quantity d))),
      eo_reduce_only = po_reduce_only r, eo_created_at = sim_timestamp x (so_created_ms d),
      eo_updated_at = sim_timestamp x (so_updated_ms d), eo_trigger_price = po_trigger_price r,
      eo_trigger_by = po_trigger_by r, eo_trigger_direction = po_trigger_direction r,
      eo_time_in_force = Some (po_time_in_force r), eo_position_idx = Some (po_position_idx r),
      eo_close_on_trigger = po_close_on_trigger r\<rparr>)"

definition sim_open_orders :: "sim_setup \<Rightarrow> instrument_category \<Rightarrow> string option \<Rightarrow> sim \<Rightarrow> exchange_order list res" where
  "sim_open_orders x category symb s = r_map (exchange_order_of x)
     (filter (\<lambda>d. sim_visible s d \<and> is_active d \<and> in_scope category symb d) (map snd (sm_orders s)))"

definition sim_order_history :: "sim_setup \<Rightarrow> instrument_category \<Rightarrow> string option \<Rightarrow> sim \<Rightarrow> exchange_order list res" where
  "sim_order_history x category symb s = r_map (exchange_order_of x)
     (filter (\<lambda>d. sim_visible s d \<and> in_scope category symb d) (map snd (sm_orders s)))"

definition sim_order_by_link_id ::
    "sim_setup \<Rightarrow> instrument_category \<Rightarrow> string \<Rightarrow> string \<Rightarrow> sim \<Rightarrow> exchange_order option res" where
  "sim_order_by_link_id x category symb link s = (case map_of (sm_orders s) link of
     None \<Rightarrow> Inr None
   | Some d \<Rightarrow> if \<not> sim_visible s d \<or> \<not> in_scope category (Some symb) d then Inr None
       else r_bind (exchange_order_of x d) (\<lambda>v. Inr (Some v)))"

definition sim_execution_history :: "string option \<Rightarrow> string option \<Rightarrow> sim \<Rightarrow> execution_update list" where
  "sim_execution_history symb link s = filter (\<lambda>e. (case symb of None \<Rightarrow> True | Some v \<Rightarrow> ex_symbol e = v)
     \<and> (case link of None \<Rightarrow> True | Some v \<Rightarrow> ex_order_link_id e = v)) (sm_executions s)"

definition unrealized_pnl :: "sim \<Rightarrow> dec" where
  "unrealized_pnl s = dmul (dsub (sm_position_average_price s) (sm_market_price s)) (sm_position_quantity s)"

definition sim_positions :: "sim_setup \<Rightarrow> instrument_category \<Rightarrow> string option \<Rightarrow> sim \<Rightarrow> exchange_position list res" where
  "sim_positions x category symb s =
     (if category \<noteq> linear_category \<or> some_and (\<lambda>v. v \<noteq> is_symbol (sx_instrument x)) symb \<or> sm_position_quantity s = 0
      then Inr []
      else r_bind (mk_exchange_position \<lparr>ep_category = linear_category, ep_symbol = is_symbol (sx_instrument x),
        ep_side = Some Sell, ep_quantity = sm_position_quantity s, ep_average_price = Some (sm_position_average_price s),
        ep_mark_price = Some (sm_market_price s), ep_unrealized_pnl = unrealized_pnl s,
        ep_updated_at = sim_timestamp x (sm_now_ms s), ep_position_idx = 0, ep_liquidation_price = None\<rparr>) (\<lambda>p. Inr [p]))"

definition sim_equity :: "sim_setup \<Rightarrow> sim \<Rightarrow> dec" where
  "sim_equity x s = dsub (dadd (dadd (sx_wallet_balance x) (sm_realized_pnl s)) (sm_funding s))
     (dadd (sm_entry_fees s) (sm_exit_fees s))"

definition sim_wallet_state :: "sim_setup \<Rightarrow> sim \<Rightarrow> wallet_state res" where
  "sim_wallet_state x s = (let equity = sim_equity x s in
     r_bind (mk_wallet_balance \<lparr>wb_coin = ''USDT'', wb_equity = equity, wb_wallet_balance = equity,
       wb_available_balance = Some equity, wb_unrealized_pnl = unrealized_pnl s\<rparr>) (\<lambda>b.
     mk_wallet_state \<lparr>ws_account_type = ''SIMULATED'', ws_total_equity = equity, ws_total_wallet_balance = equity,
       ws_total_available_balance = Some equity, ws_balances = [b], ws_updated_at = sim_timestamp x (sm_now_ms s)\<rparr>))"

definition sim_instrument :: "sim_setup \<Rightarrow> string \<Rightarrow> instrument_spec res" where
  "sim_instrument x symb = raise_when (symb \<noteq> is_symbol (sx_instrument x)) ''unknown simulated instrument'' (Inr (sx_instrument x))"

definition sim_option_chain :: "sim_setup \<Rightarrow> string \<Rightarrow> option_market_quote list" where
  "sim_option_chain x base_coin = filter (\<lambda>q. take (length base_coin) (mq_symbol q) = base_coin) (sx_option_quotes x)"

definition sim_orderbook_snapshot :: "sim_setup \<Rightarrow> string \<Rightarrow> int \<Rightarrow> sim \<Rightarrow> order_book_update res" where
  "sim_orderbook_snapshot x symb depth s = raise_when (symb \<noteq> is_symbol (sx_instrument x) \<or> depth \<le> 0)
     ''invalid simulated order-book request'' (market_book x symb (market_hash x ''book'' s) s)"

definition sim_metrics_of :: "sim \<Rightarrow> sim_metrics" where
  "sim_metrics_of s = \<lparr>mx_mode = ''SIMULATED'', mx_entry_fees = sm_entry_fees s, mx_exit_fees = sm_exit_fees s,
     mx_tp_fees = sm_tp_fees s, mx_stop_fees = sm_stop_fees s, mx_funding = sm_funding s,
     mx_gross_trading_pnl = sm_realized_pnl s,
     mx_net_hedge_pnl = dsub (dsub (dadd (sm_realized_pnl s) (sm_funding s)) (sm_entry_fees s)) (sm_exit_fees s),
     mx_entry_slippage = sm_entry_slippage s, mx_stop_slippage = sm_stop_slippage s, mx_spread_cost = sm_spread_cost s,
     mx_rejection_count = sm_rejection_count s, mx_partial_fill_count = sm_partial_fill_count s,
     mx_duplicate_event_count = sm_duplicate_event_count s,
     mx_maximum_stale_duration_ms = current_maximum_stale s, mx_public_disconnect_count = sm_public_disconnect_count s,
     mx_maximum_unprotected_ms = current_maximum_unprotected s\<rparr>"

end
