(* ===== verification/Simulation_Properties.thy ===== *)
theory Simulation_Properties
  imports Simulated_Exchange
begin

text \<open>
  The simulated exchange keeps its books: after any sequence of method calls, also of calls that raise,
  its accounts are the replay of its event ledger, executions, orders and position are consistent, and
  what it hands out is valid.
\<close>

section \<open>The accounts are the replay of the ledger\<close>

definition account :: "sim \<Rightarrow> replay_account" where
  "account s = \<lparr>ra_quantity = sm_position_quantity s, ra_average = sm_position_average_price s, ra_gross = sm_realized_pnl s,
     ra_entry_fees = sm_entry_fees s, ra_tp_fees = sm_tp_fees s, ra_stop_fees = sm_stop_fees s, ra_funding = sm_funding s\<rparr>"

definition account_ok :: "replay_account \<Rightarrow> bool" where
  "account_ok a \<longleftrightarrow> 0 \<le> ra_quantity a \<and> (if ra_quantity a = 0 then ra_average a = 0 else 0 < ra_average a)"

definition ledger_agrees :: "sim_event list \<Rightarrow> replay_account \<Rightarrow> bool" where
  "ledger_agrees evs a \<longleftrightarrow> account_ok a \<and> map sv_sequence evs = map (\<lambda>i. int i + 1) [0..<length evs]
     \<and> (\<forall>parse. r_foldl (replay_event parse) empty_account evs = Inr a)"

lemma ledger_agrees_snoc:
  assumes "ledger_agrees evs a" "account_ok b" "sv_sequence e = int (length evs) + 1"
    and "\<And>parse. replay_event parse a e = Inr b"
  shows "ledger_agrees (evs @ [e]) b"
  using assms by (simp add: ledger_agrees_def r_foldl_append)

lemma replay_quiet:
  "sv_event_type e \<noteq> ''FUNDING_APPLIED'' \<Longrightarrow> sv_event_type e \<noteq> ''EXECUTION'' \<Longrightarrow> replay_event parse a e = Inr a"
  by (simp add: replay_event_def)

lemma role_value_inj: "role_value r = role_value r' \<longleftrightarrow> r = r'"
  by (cases r; cases r') simp_all

lemma execution_payload_fields:
  "payload_decimal parse (execution_payload e rl) ''price'' = Inr (ex_price e)"
  "payload_decimal parse (execution_payload e rl) ''quantity'' = Inr (ex_quantity e)"
  "payload_decimal parse (execution_payload e rl) ''fee'' = Inr (ex_fee e)"
  "map_of (execution_payload e rl) ''side'' = Some (VText (side_value (ex_side e)))"
  "map_of (execution_payload e rl) ''role'' = Some (VText (role_value rl))"
  by (simp_all add: payload_decimal_def execution_payload_def)

lemma replay_execution_account:
  assumes "account_ok (account s)" "0 < ex_price e" "0 < ex_quantity e"
  shows "replay_execution (account s) (execution_payload e rl) (ex_price e) (ex_quantity e) (ex_fee e)
      = Inr (account (apply_position e rl s))" (is ?replay)
    and "account_ok (account (apply_position e rl s))" (is ?ok)
proof -
  have q: "0 \<le> sm_position_quantity s" and a: "0 \<le> sm_position_average_price s"
    using assms(1) by (auto simp: account_ok_def account_def split: if_splits)
  have sold: "0 < dadd (sm_position_quantity s) (ex_quantity e)"
    using q assms(3) by (simp add: dadd_def)
  have notional: "0 < dadd (dmul (sm_position_average_price s) (sm_position_quantity s)) (dmul (ex_price e) (ex_quantity e))"
    using dmul_nonneg [OF a q] dmul_pos [OF assms(2,3)] by (simp add: dadd_def)
  show ?replay
  proof (cases "ex_side e")
    case Sell
    then show ?thesis
      using sold by (simp add: replay_execution_def execution_payload_fields Let_def ddiv_dquot account_def apply_position_def)
  next
    case Buy
    then show ?thesis
      by (simp add: replay_execution_def execution_payload_fields Let_def account_def apply_position_def role_value_inj
          del: role_value.simps)
  qed
  show ?ok
  proof (cases "ex_side e")
    case Sell
    then show ?thesis
      using sold dquot_pos [OF notional sold] by (simp add: account_ok_def account_def apply_position_def Let_def)
  next
    case Buy
    have "0 \<le> dsub (sm_position_quantity s) (min (ex_quantity e) (sm_position_quantity s))" by simp
    moreover have "sm_position_quantity s = 0 \<Longrightarrow> dsub (sm_position_quantity s) (min (ex_quantity e) (sm_position_quantity s)) = 0"
      using assms(3) by (simp add: min_def)
    ultimately show ?thesis
      using Buy assms(1) by (auto simp: account_ok_def account_def apply_position_def Let_def split: if_splits)
  qed
qed

lemma ledger_agrees_execution:
  assumes "ledger_agrees evs (account s)" "0 < ex_price e" "0 < ex_quantity e"
    and "sv_sequence v = int (length evs) + 1" "sv_event_type v = ''EXECUTION''" "sv_payload v = execution_payload e rl"
  shows "ledger_agrees (evs @ [v]) (account (apply_position e rl s))"
proof -
  have ok: "account_ok (account s)" using assms(1) by (simp add: ledger_agrees_def)
  show ?thesis
    by (rule ledger_agrees_snoc [OF assms(1) replay_execution_account(2) [OF ok assms(2,3)] assms(4)])
      (simp add: replay_event_def assms(5,6) execution_payload_fields replay_execution_account(1) [OF ok assms(2,3)])
qed

section \<open>Orders, executions and queues agree\<close>

definition fills_of :: "string \<Rightarrow> execution_update list \<Rightarrow> execution_update list" where
  "fills_of k es = filter (\<lambda>e. ex_order_link_id e = k) es"

definition filled_by :: "execution_update list \<Rightarrow> sim_order \<Rightarrow> bool" where
  "filled_by es d \<longleftrightarrow> so_filled_quantity d = foldl dadd 0 (map ex_quantity es)
     \<and> so_fill_notional d = foldl dadd 0 (map (\<lambda>e. dmul (ex_price e) (ex_quantity e)) es)"

definition execution_of_order :: "sim_order \<Rightarrow> execution_update \<Rightarrow> bool" where
  "execution_of_order d e \<longleftrightarrow> ex_order_id e = so_order_id d \<and> ex_symbol e = po_symbol (so_request d)
     \<and> ex_side e = po_side (so_request d)"

definition numbered_executions :: "nat \<Rightarrow> execution_update list \<Rightarrow> bool" where
  "numbered_executions n es \<longleftrightarrow> (\<exists>ns. map ex_execution_id es = map (numbered_id ''SIM-EXEC-'') ns
     \<and> sorted_wrt (<) ns \<and> (\<forall>i \<in> set ns. i \<le> n))"

definition books_agree ::
    "(string \<times> sim_order) list \<Rightarrow> execution_update list \<Rightarrow> execution_update list \<Rightarrow> nat \<Rightarrow> bool" where
  "books_agree os es queue n \<longleftrightarrow> distinct (map fst os)
     \<and> (\<forall>k d. map_of os k = Some d \<longrightarrow> po_order_link_id (so_request d) = k \<and> filled_by (fills_of k es) d)
     \<and> (\<forall>e \<in> set es. mk_execution_update e = Inr e
          \<and> (\<exists>d. map_of os (ex_order_link_id e) = Some d \<and> execution_of_order d e))
     \<and> numbered_executions n es \<and> set queue \<subseteq> set es"

text \<open>A change of an order that leaves its identity and its fills.\<close>

definition same_order :: "sim_order \<Rightarrow> sim_order \<Rightarrow> bool" where
  "same_order d d' \<longleftrightarrow> po_order_link_id (so_request d') = po_order_link_id (so_request d)
     \<and> po_symbol (so_request d') = po_symbol (so_request d) \<and> po_side (so_request d') = po_side (so_request d)
     \<and> so_order_id d' = so_order_id d \<and> so_filled_quantity d' = so_filled_quantity d
     \<and> so_fill_notional d' = so_fill_notional d"

lemma same_order_refl [simp]: "same_order d d"
  by (simp add: same_order_def)

lemma same_order_transfer:
  assumes "same_order d d'"
  shows "filled_by es d' \<longleftrightarrow> filled_by es d" "execution_of_order d' e \<longleftrightarrow> execution_of_order d e"
    "po_order_link_id (so_request d') = po_order_link_id (so_request d)"
  using assms by (simp_all add: same_order_def filled_by_def execution_of_order_def)

lemma books_agree_change:
  assumes b: "books_agree os es queue n"
    and keys: "map fst os' = map fst os"
    and each: "\<And>k. case map_of os k of None \<Rightarrow> map_of os' k = None
      | Some d \<Rightarrow> (\<exists>d'. map_of os' k = Some d' \<and> same_order d d')"
  shows "books_agree os' es queue n"
proof -
  have earlier: "\<exists>d. map_of os k = Some d \<and> same_order d d'" if "map_of os' k = Some d'" for k d'
    using each [of k] that by (auto split: option.splits)
  have "po_order_link_id (so_request d') = k \<and> filled_by (fills_of k es) d'" if "map_of os' k = Some d'" for k d'
    using earlier [OF that] b by (auto simp: books_agree_def same_order_transfer)
  moreover have "\<exists>d'. map_of os' (ex_order_link_id e) = Some d' \<and> execution_of_order d' e" if "e \<in> set es" for e
  proof -
    obtain d where d: "map_of os (ex_order_link_id e) = Some d" "execution_of_order d e"
      using b \<open>e \<in> set es\<close> unfolding books_agree_def by blast
    then obtain d' where "map_of os' (ex_order_link_id e) = Some d'" "same_order d d'"
      using each [of "ex_order_link_id e"] by auto
    with d(2) show ?thesis by (auto simp: same_order_transfer)
  qed
  ultimately show ?thesis using b keys unfolding books_agree_def by auto
qed

lemma books_agree_put:
  assumes "books_agree os es queue n" "map_of os k = Some d" "same_order d d'"
  shows "books_agree (dict_set k d' os) es queue n"
proof (rule books_agree_change [OF assms(1)])
  have "k \<in> fst ` set os" using assms(2) by (metis domI dom_map_of_conv_image_fst)
  then show "map fst (dict_set k d' os) = map fst os" by (simp add: keys_dict_set)
  show "case map_of os k1 of None \<Rightarrow> map_of (dict_set k d' os) k1 = None
      | Some d1 \<Rightarrow> (\<exists>d'1. map_of (dict_set k d' os) k1 = Some d'1 \<and> same_order d1 d'1)" for k1
    using assms(2,3) by (cases "map_of os k1") auto
qed

lemma books_agree_map:
  assumes "books_agree os es queue n" "\<And>d. same_order d (f d)"
  shows "books_agree (map (\<lambda>(k, d). (k, f d)) os) es queue n"
proof (rule books_agree_change [OF assms(1)])
  show "map fst (map (\<lambda>(k, d). (k, f d)) os) = map fst os" by (induction os) auto
  show "case map_of os k of None \<Rightarrow> map_of (map (\<lambda>(k, d). (k, f d)) os) k = None
      | Some d \<Rightarrow> (\<exists>d'. map_of (map (\<lambda>(k, d). (k, f d)) os) k = Some d' \<and> same_order d d')" for k
    using assms(2) by (simp add: map_of_map split: option.split)
qed

lemma books_agree_new:
  assumes b: "books_agree os es queue n" and k: "map_of os k = None" "po_order_link_id (so_request d) = k"
    and d: "so_filled_quantity d = 0" "so_fill_notional d = 0"
  shows "books_agree (dict_set k d os) es queue n"
proof -
  have "fills_of k es = []"
    using b k(1) unfolding books_agree_def fills_of_def by (fastforce simp: filter_empty_conv)
  then have "filled_by (fills_of k es) d" using d by (simp add: filled_by_def)
  then show ?thesis using b k unfolding books_agree_def by (auto simp: distinct_dict_set)
qed

lemma numbered_id_inj: "numbered_id p m = numbered_id p n \<longleftrightarrow> m = n"
proof -
  have digits: "digits_value (format_int 6 (int i)) = i" for i
    by (simp add: format_int_def pad_zero_def digits_value_pad digits_value_nat_str)
  show ?thesis
    unfolding numbered_id_def same_append_eq by (metis digits)
qed

lemma numbered_executions_distinct:
  assumes "numbered_executions n es"
  shows "distinct (map ex_execution_id es)"
proof -
  obtain ns where ids: "map ex_execution_id es = map (numbered_id ''SIM-EXEC-'') ns" and "sorted_wrt (<) ns"
    using assms unfolding numbered_executions_def by blast
  then have "distinct ns" by (simp add: strict_sorted_iff)
  then have "distinct (map (numbered_id ''SIM-EXEC-'') ns)"
    by (simp add: distinct_map inj_on_def numbered_id_inj)
  then show ?thesis using ids by metis
qed

lemma numbered_executions_snoc:
  assumes "numbered_executions n es" "ex_execution_id e = numbered_id ''SIM-EXEC-'' (n + 1)"
  shows "numbered_executions (n + 1) (es @ [e])"
proof -
  obtain ns where "map ex_execution_id es = map (numbered_id ''SIM-EXEC-'') ns" "sorted_wrt (<) ns" "\<forall>i \<in> set ns. i \<le> n"
    using assms(1) unfolding numbered_executions_def by blast
  then show ?thesis
    unfolding numbered_executions_def using assms(2)
    by (intro exI [of _ "ns @ [n + 1]"]) (auto simp: sorted_wrt_append less_Suc_eq_le)
qed

lemma fills_of_snoc: "fills_of k (es @ [e]) = fills_of k es @ (if ex_order_link_id e = k then [e] else [])"
  by (simp add: fills_of_def)

lemma books_agree_execution:
  assumes b: "books_agree os es queue n" and d: "map_of os k = Some d" and e: "mk_execution_update e = Inr e"
    "ex_execution_id e = numbered_id ''SIM-EXEC-'' (n + 1)" "ex_order_link_id e = k" "execution_of_order d e"
    and queue: "set queue' \<subseteq> insert e (set queue)"
  shows "books_agree (dict_set k (filled_order d e now) os) (es @ [e]) queue' (n + 1)"
proof -
  let ?d = "filled_order d e now"
  have same: "so_request ?d = so_request d" "so_order_id ?d = so_order_id d"
    by (simp_all add: filled_order_def Let_def)
  have link: "po_order_link_id (so_request d) = k" and f: "filled_by (fills_of k es) d"
    using b d unfolding books_agree_def by blast+
  have "filled_by (fills_of k (es @ [e])) ?d"
    using f e(3) by (simp add: filled_by_def fills_of_snoc filled_order_def Let_def)
  then have orders: "po_order_link_id (so_request d1) = k1 \<and> filled_by (fills_of k1 (es @ [e])) d1"
    if "map_of (dict_set k ?d os) k1 = Some d1" for k1 d1
    using that b e(3) link same unfolding books_agree_def by (auto simp: fills_of_snoc split: if_splits)
  have moved: "execution_of_order ?d e1 \<longleftrightarrow> execution_of_order d e1" for e1
    by (simp add: execution_of_order_def same)
  have "mk_execution_update e1 = Inr e1 \<and> (\<exists>d1. map_of (dict_set k ?d os) (ex_order_link_id e1) = Some d1 \<and> execution_of_order d1 e1)"
    if "e1 \<in> set (es @ [e])" for e1
  proof (cases "e1 = e")
    case False
    then obtain d1 where "mk_execution_update e1 = Inr e1" "map_of os (ex_order_link_id e1) = Some d1" "execution_of_order d1 e1"
      using b \<open>e1 \<in> set (es @ [e])\<close> unfolding books_agree_def by auto
    then show ?thesis using d by (auto simp: moved)
  qed (use e moved in auto)
  moreover have "distinct (map fst (dict_set k ?d os))" using b by (auto simp: books_agree_def)
  moreover have "numbered_executions n es" using b by (simp add: books_agree_def)
  then have "numbered_executions (n + 1) (es @ [e])" using e(2) by (rule numbered_executions_snoc)
  moreover have "set queue' \<subseteq> set (es @ [e])" using b queue by (auto simp: books_agree_def)
  ultimately show ?thesis using orders unfolding books_agree_def by blast
qed

section \<open>Every method keeps the books\<close>

definition sim_ok :: "sim \<Rightarrow> bool" where
  "sim_ok s \<longleftrightarrow> 0 < sm_market_price s \<and> ledger_agrees (sm_event_log s) (account s)
     \<and> books_agree (sm_orders s) (sm_executions s) (sm_delivery_queue s) (sm_execution_sequence s)"

text \<open>What the invariant depends on.\<close>

definition books :: "sim \<Rightarrow> dec \<times> sim_event list \<times> replay_account \<times> (string \<times> sim_order) list
    \<times> execution_update list \<times> execution_update list \<times> nat" where
  "books s = (sm_market_price s, sm_event_log s, account s, sm_orders s, sm_executions s, sm_delivery_queue s,
     sm_execution_sequence s)"

lemma sim_ok_books: "books s' = books s \<Longrightarrow> sim_ok s' \<longleftrightarrow> sim_ok s"
  by (simp add: books_def sim_ok_def)

lemma books_update_protection [simp]: "books (update_protection_state s) = books s"
  by (simp add: books_def update_protection_state_def account_def Let_def)

lemma books_record_cost [simp]: "books (record_cost e p rl r s) = books s"
  by (simp add: books_def record_cost_def account_def Let_def)

lemma books_draw [simp]: "books (fst (draw x p s)) = books s"
  by (simp add: books_def draw_def account_def)

lemma sim_ok_simps [simp]:
  "sim_ok (update_protection_state s) = sim_ok s" "sim_ok (fst (draw x p s)) = sim_ok s"
  by (rule sim_ok_books, simp)+

lemma sim_ok_record:
  assumes "sim_ok s" "ty \<noteq> ''FUNDING_APPLIED''" "ty \<noteq> ''EXECUTION''"
  shows "sim_ok (record_event ty p s)"
proof -
  have "ledger_agrees (sm_event_log (record_event ty p s)) (account s)"
    using assms unfolding record_event_def
    by (auto simp: sim_ok_def ledger_agrees_def r_foldl_append replay_quiet)
  then show ?thesis using assms(1) by (simp add: sim_ok_def account_def record_event_def)
qed

lemma sim_ok_put:
  assumes "sim_ok s" "map_of (sm_orders s) k = Some d" "same_order d d'"
  shows "sim_ok (put_order k d' s)"
  using assms books_agree_put [of "sm_orders s"] by (simp add: sim_ok_def put_order_def account_def)

lemma deliver_facts:
  "sm_event_log (deliver x e s) = sm_event_log s" "account (deliver x e s) = account s"
  "sm_market_price (deliver x e s) = sm_market_price s" "sm_orders (deliver x e s) = sm_orders s"
  "sm_executions (deliver x e s) = sm_executions s @ [e]" "sm_execution_sequence (deliver x e s) = sm_execution_sequence s"
  "set (sm_delivery_queue (deliver x e s)) = insert e (set (sm_delivery_queue s))"
  by (auto simp: deliver_def draw_def account_def Let_def)

lemma apply_position_facts:
  "sm_event_log (apply_position e rl s) = sm_event_log s" "sm_market_price (apply_position e rl s) = sm_market_price s"
  "sm_orders (apply_position e rl s) = sm_orders s" "sm_executions (apply_position e rl s) = sm_executions s"
  "sm_execution_sequence (apply_position e rl s) = sm_execution_sequence s"
  "sm_delivery_queue (apply_position e rl s) = sm_delivery_queue s"
  by (simp_all add: apply_position_def Let_def)

lemma sim_ok_book_execution:
  assumes ok: "sim_ok s" and d: "map_of (sm_orders s) k = Some d"
    and e: "mk_execution_update e = Inr e" "ex_execution_id e = numbered_id ''SIM-EXEC-'' (sm_execution_sequence s + 1)"
      "ex_order_link_id e = k" "execution_of_order d e"
  shows "sim_ok (book_execution x k d e p rl (s\<lparr>sm_execution_sequence := sm_execution_sequence s + 1\<rparr>))"
proof -
  let ?s = "s\<lparr>sm_execution_sequence := sm_execution_sequence s + 1\<rparr>"
  let ?s1 = "deliver x e (put_order k (filled_order d e (sm_now_ms ?s)) ?s)"
  let ?s2 = "record_cost e p rl (so_request d) (update_protection_state (apply_position e rl ?s1))"
  have "account ?s1 = account (put_order k (filled_order d e (sm_now_ms ?s)) ?s)" by (rule deliver_facts)
  then have acc: "account ?s1 = account s" by (simp add: put_order_def account_def)
  have evs: "sm_event_log ?s1 = sm_event_log s" by (simp add: deliver_facts put_order_def)
  have pos: "0 < ex_price e" "0 < ex_quantity e"
    using e(1) by (simp_all add: mk_execution_update_def not_le)
  have same: "books ?s2 = books (apply_position e rl ?s1)" by simp
  then have log2: "sm_event_log ?s2 = sm_event_log s" and acc2: "account ?s2 = account (apply_position e rl ?s1)"
    and market: "sm_market_price ?s2 = sm_market_price s"
    and orders: "sm_orders ?s2 = dict_set k (filled_order d e (sm_now_ms ?s)) (sm_orders s)"
    and executions: "sm_executions ?s2 = sm_executions s @ [e]"
    and queue: "set (sm_delivery_queue ?s2) = insert e (set (sm_delivery_queue s))"
    and number: "sm_execution_sequence ?s2 = sm_execution_sequence s + 1"
    unfolding books_def prod.inject by (simp_all add: apply_position_facts deliver_facts put_order_def)
  have "ledger_agrees (sm_event_log ?s1) (account ?s1)" using ok acc evs by (simp add: sim_ok_def)
  note ledger_agrees_execution [OF this pos, of _ rl]
  then have "ledger_agrees (sm_event_log (record_event ''EXECUTION'' (execution_payload e rl) ?s2))
      (account (record_event ''EXECUTION'' (execution_payload e rl) ?s2))"
    unfolding record_event_def using log2 acc2 evs by (simp add: account_def)
  moreover have "books_agree (sm_orders ?s2) (sm_executions ?s2) (sm_delivery_queue ?s2) (sm_execution_sequence ?s2)"
    unfolding orders executions number
    by (rule books_agree_execution [OF _ d e]) (use ok queue in \<open>auto simp: sim_ok_def\<close>)
  ultimately show ?thesis
    using ok market unfolding book_execution_def sim_ok_def by (simp add: record_event_def)
qed

lemma execution_price_role: "execution_price x s r = Inr (p, q, rl) \<Longrightarrow> \<exists>c. parse_id (po_order_link_id r) = Inr c \<and> role c = rl"
  by (auto simp: execution_price_def Let_def split: prod.splits)

lemma execution_of_facts:
  assumes "execution_of x d q price s = Inr e"
  shows "mk_execution_update e = Inr e" "ex_execution_id e = numbered_id ''SIM-EXEC-'' (sm_execution_sequence s)"
    "ex_order_link_id e = po_order_link_id (so_request d)" "execution_of_order d e" "ex_quantity e = q"
  using assms by (auto simp: execution_of_def Let_def mk_execution_update_def execution_of_order_def)

lemma fill_order_ok:
  assumes ok: "sim_ok s" and d: "map_of (sm_orders s) k = Some d" and r: "fill_order x k d s = (s', r)"
  shows "sim_ok s'"
proof -
  define part where "part = takes_part x d (remaining_of d s)"
  define q where "q = (if part then proposed_part x d else remaining_of d s)"
  define d1 where "d1 = d\<lparr>so_partial_done := so_partial_done d \<or> part\<rparr>"
  define s1 where "s1 = put_order k d1 (s\<lparr>sm_partial_fill_count := sm_partial_fill_count s + (if part then 1 else 0)\<rparr>)"
  define s2 where "s2 = s1\<lparr>sm_execution_sequence := sm_execution_sequence s1 + 1\<rparr>"
  have link: "po_order_link_id (so_request d) = k"
    using ok d by (auto simp: sim_ok_def books_agree_def)
  have d1: "so_request d1 = so_request d" "same_order d d1" by (simp_all add: d1_def same_order_def)
  have "sim_ok (s\<lparr>sm_partial_fill_count := n\<rparr>)" for n
    using ok by (subst sim_ok_books) (simp_all add: books_def account_def)
  then have ok1: "sim_ok s1" unfolding s1_def by (rule sim_ok_put) (use d d1 in simp_all)
  have here: "map_of (sm_orders s1) k = Some d1" by (simp add: s1_def put_order_def)
  have number: "numbered_executions n es \<Longrightarrow> numbered_executions (n + 1) es" for n es
    unfolding numbered_executions_def using le_SucI by fastforce
  then have ok2: "sim_ok s2"
    using ok1 by (auto simp: s2_def sim_ok_def account_def books_agree_def)
  show ?thesis
  proof (cases "remaining_of d s \<le> 0")
    case True
    then show ?thesis
      using r sim_ok_put [OF ok d, of "cancelled_order d (sm_now_ms s)"]
      by (simp add: fill_order_def same_order_def cancelled_order_def)
  next
    case False
    then have step: "fill_order x k d s = (case execution_price x s1 (so_request d1) of Inl e \<Rightarrow> (s1, Inl e)
        | Inr (first_available, price, rl) \<Rightarrow> (case execution_of x d1 q price s2 of Inl e \<Rightarrow> (s2, Inl e)
            | Inr e \<Rightarrow> (book_execution x k d1 e first_available rl s2, Inr ())))"
      unfolding fill_order_def Let_def part_def [symmetric] q_def [symmetric] d1_def [symmetric] s1_def [symmetric]
        s2_def [symmetric] by simp
    show ?thesis
    proof (cases "execution_price x s1 (so_request d1)")
      case (Inl e)
      with r step ok1 show ?thesis by simp
    next
      case (Inr t)
      obtain p price rl where t: "t = (p, price, rl)" by (metis surj_pair)
      show ?thesis
      proof (cases "execution_of x d1 q price s2")
        case (Inl e)
        with r step ok2 Inr t show ?thesis by simp
      next
        case e: (Inr e)
        note f = execution_of_facts [OF e]
        have "sim_ok (book_execution x k d1 e p rl s2)"
          unfolding s2_def
          by (rule sim_ok_book_execution [OF ok1 here f(1)]) (use f link d1 in \<open>simp_all add: s2_def\<close>)
        with r step Inr t e show ?thesis by simp
      qed
    qed
  qed
qed

lemma process_order_ok: "keeps sim_ok (process_order x k)"
proof (rule keepsI)
  fix s s' r assume r: "process_order x k s = (s', r)" and ok: "sim_ok s"
  show "sim_ok s'"
  proof (cases "map_of (sm_orders s) k")
    case None
    with r ok show ?thesis by (simp add: process_order_def)
  next
    case (Some d)
    have cancelled: "sim_ok (put_order k (cancelled_order d (sm_now_ms s)) s)"
      by (rule sim_ok_put [OF ok Some]) (simp add: same_order_def cancelled_order_def)
    show ?thesis
    proof (cases "is_active d \<and> so_fill_ms d \<le> sm_now_ms s")
      case True
      then show ?thesis
        using r Some ok cancelled fill_order_ok [OF ok Some, of x]
        by (auto simp: process_order_def split: sum.splits bool.splits if_splits)
    qed (use r Some ok in \<open>auto simp: process_order_def split: if_splits\<close>)
  qed
qed

lemma process_orders_ok: "keeps sim_ok (process_orders x)"
  unfolding process_orders_def keeps_def
  using keeps_for [of _ sim_ok "\<lambda>k _. process_order x k"] process_order_ok unfolding keeps_def by blast

lemma advance_time_ok: "keeps sim_ok (advance_time x ms)"
proof (rule keepsI)
  fix s s' r assume r: "advance_time x ms s = (s', r)" and ok: "sim_ok s"
  have later: "sim_ok (s\<lparr>sm_now_ms := n, sm_maximum_stale_duration_ms := a, sm_maximum_unprotected_ms := b\<rparr>)" for n a b
    using ok by (subst sim_ok_books) (simp_all add: books_def account_def)
  show "sim_ok s'"
  proof (cases "ms < 0")
    case False
    show ?thesis
      by (rule keepsD [OF process_orders_ok _ later]) (use r False in \<open>simp add: advance_time_def Let_def\<close>)
  qed (use r ok in \<open>simp add: advance_time_def\<close>)
qed

lemma sim_do_ok: "(\<And>s. sim_ok s \<Longrightarrow> sim_ok (f s)) \<Longrightarrow> keeps sim_ok (sim_do f)"
  by (auto simp: keeps_def sim_do_def)

lemma same_books_ok: "(\<And>s. books (fst (m s)) = books s) \<Longrightarrow> keeps sim_ok m"
  by (rule keepsI) (metis fst_conv sim_ok_books)

lemma draw_ok: "keeps sim_ok (draw_act x p)"
  by (rule same_books_ok) (simp add: draw_act_def draw_def books_def account_def)

lemma checkpoint_ok: "keeps sim_ok (checkpoint name)"
  by (rule same_books_ok) (simp add: checkpoint_def books_def account_def split: option.split prod.split)

lemma publish_ok: "keeps sim_ok (publish_market_events x)"
  by (rule same_books_ok) (simp add: publish_market_events_def books_def account_def Let_def split: sum.split)

lemma sim_ack_ok: "keeps sim_ok (sim_ack x kind i link)"
  by (simp add: sim_ack_def)

lemma required_order_ok: "keeps sim_ok (required_order link)"
  by (simp add: required_order_def)

lemma advance_market_ok: "keeps sim_ok (advance_market x price ms)"
proof (cases "price \<le> 0")
  case False
  then have "keeps sim_ok (sim_do (\<lambda>s. s\<lparr>sm_market_price := price, sm_market_sequence := sm_market_sequence s + 1\<rparr>))"
    by (intro sim_do_ok) (simp add: sim_ok_def account_def)
  then show ?thesis
    using False unfolding advance_market_def by (simp add: keeps_bind publish_ok advance_time_ok)
qed (simp add: advance_market_def)

lemma sim_ok_frame:
  assumes "sim_ok s"
  shows "sim_ok (s\<lparr>sm_private_connected := a\<rparr>)" "sim_ok (s\<lparr>sm_trigger_prices := ts\<rparr>)" "sim_ok (s\<lparr>sm_rejection_count := n\<rparr>)"
    "sim_ok (s\<lparr>sm_maximum_stale_duration_ms := b, sm_public_disconnected_since_ms := c, sm_public_connected := a\<rparr>)"
    "sim_ok (s\<lparr>sm_public_disconnected_since_ms := c, sm_public_disconnect_count := n, sm_public_connected := a\<rparr>)"
  using assms by (simp_all add: sim_ok_def account_def)

lemma books_agree_drained: "books_agree os es queue n \<Longrightarrow> books_agree os es [] n"
  unfolding books_agree_def by (elim conjE, intro conjI) (assumption | simp)+

lemma sim_ok_drained: "sim_ok s \<Longrightarrow> sim_ok (s\<lparr>sm_delivery_queue := []\<rparr>)"
  by (auto simp: sim_ok_def account_def intro: books_agree_drained)

lemma register_ok: "keeps sim_ok (register_trigger_price link price)"
  unfolding register_trigger_price_def by (rule sim_do_ok) (rule sim_ok_frame)

lemma connections_ok: "keeps sim_ok (set_private_connected online)" "keeps sim_ok (set_public_connected online)"
  unfolding set_private_connected_def set_public_connected_def
  by (rule sim_do_ok, simp add: sim_ok_record sim_ok_frame)+

lemma drain_ok: "keeps sim_ok (drain_execution_events x)"
proof (rule keepsI)
  fix s s' r assume r: "drain_execution_events x s = (s', r)" and ok: "sim_ok s"
  let ?s = "s\<lparr>sm_delivery_queue := []\<rparr>"
  have "sim_ok ?s" by (rule sim_ok_drained [OF ok])
  then have "sim_ok (fst (draw x p ?s))" for p by simp
  then show "sim_ok s'"
    using r ok by (auto simp: drain_execution_events_def Let_def sim_ok_record sim_ok_drained draw_def split: if_splits)
qed

lemma funding_ok: "keeps sim_ok (apply_funding rate)"
proof (rule keepsI)
  fix s s' r assume r: "apply_funding rate s = (s', r)" and ok: "sim_ok s"
  let ?pay = "dmul (dmul (sm_position_quantity s) (sm_market_price s)) rate"
  let ?p = "[(''rate'', VDecimal rate), (''payment'', VDecimal ?pay)]"
  let ?e = "\<lparr>sv_sequence = int (length (sm_event_log s)) + 1, sv_event_type = ''FUNDING_APPLIED'', sv_elapsed_ms = sm_now_ms s, sv_payload = ?p\<rparr>"
  let ?a = "(account s)\<lparr>ra_funding := dadd (ra_funding (account s)) ?pay\<rparr>"
  have old: "ledger_agrees (sm_event_log s) (account s)" using ok by (simp add: sim_ok_def)
  have "ledger_agrees (sm_event_log s @ [?e]) ?a"
  proof (rule ledger_agrees_snoc [OF old])
    show "account_ok ?a" using old by (simp add: ledger_agrees_def account_ok_def)
    show "replay_event parse (account s) ?e = Inr ?a" for parse
      by (simp add: replay_event_def payload_decimal_def)
  qed simp
  then show "sim_ok s'"
    using r ok by (auto simp: apply_funding_def Let_def record_event_def sim_ok_def account_def)
qed

lemma cancel_all_ok: "keeps sim_ok (sim_cancel_all category symb)"
  unfolding sim_cancel_all_def
proof (rule sim_do_ok)
  fix s assume ok: "sim_ok s"
  let ?f = "\<lambda>d. if in_scope category symb d then cancel_if_active (sm_now_ms s) d else d"
  have "same_order d (?f d)" for d by (simp add: cancel_if_active_def cancelled_order_def same_order_def)
  then have "books_agree (map (\<lambda>(k, d). (k, ?f d)) (sm_orders s)) (sm_executions s) (sm_delivery_queue s) (sm_execution_sequence s)"
    by (intro books_agree_map) (use ok in \<open>auto simp: sim_ok_def\<close>)
  then have "sim_ok (s\<lparr>sm_orders := map (\<lambda>(k, d). (k, ?f d)) (sm_orders s)\<rparr>)"
    using ok by (simp add: sim_ok_def account_def)
  then show "sim_ok (record_event ''ALL_ORDERS_CANCELLED'' [(''category'', VText (category_value category)),
         (''symbol'', case symb of None \<Rightarrow> VNone | Some v \<Rightarrow> VText v)]
       (update_protection_state (s\<lparr>sm_orders := map (\<lambda>(k, d). (k, ?f d)) (sm_orders s)\<rparr>)))"
    by (intro sim_ok_record) simp_all
qed

text \<open>A method that reads an order and writes it back.\<close>

lemma change_order_ok:
  assumes "\<And>d s. map_of (sm_orders s) link = Some d \<Longrightarrow> sim_ok s \<Longrightarrow> sim_ok (f d s)"
  shows "triple (\<lambda>s. sim_ok s \<and> map_of (sm_orders s) link = Some d) (sim_do (f d)) (\<lambda>_. sim_ok) (\<lambda>_. sim_ok)"
  using assms by (auto simp: triple_def sim_do_def)

lemma required_order_triple:
  "triple sim_ok (required_order link) (\<lambda>d s. sim_ok s \<and> map_of (sm_orders s) link = Some d) (\<lambda>_. sim_ok)"
  unfolding required_order_def by (rule triple_query) (auto split: option.splits)

lemma cancel_ok: "keeps sim_ok (sim_cancel_order x c)"
  unfolding keeps_triple sim_cancel_order_def
proof (rule triple_bind [OF required_order_triple], rule triple_bind [OF change_order_ok])
  fix d s assume "map_of (sm_orders s) (ca_order_link_id c) = Some d" "sim_ok s"
  moreover have "same_order d (cancel_if_active (sm_now_ms s) d)"
    by (simp add: cancel_if_active_def cancelled_order_def same_order_def)
  ultimately have "sim_ok (put_order (ca_order_link_id c) (cancel_if_active (sm_now_ms s) d) s)"
    by (blast intro: sim_ok_put)
  then show "sim_ok (record_event ''ORDER_CANCELLED'' [(''order_link_id'', VText (ca_order_link_id c))]
       (update_protection_state (put_order (ca_order_link_id c) (cancel_if_active (sm_now_ms s) d) s)))"
    by (intro sim_ok_record) simp_all
qed (use sim_ack_ok in \<open>simp add: keeps_triple\<close>)

lemma mk_place_order_same: "mk_place_order_request r = Inr r' \<Longrightarrow> r' = r"
  by (simp add: mk_place_order_request_def)

lemma amended_same:
  assumes "amended_request r a = Inr r'"
  shows "po_order_link_id r' = po_order_link_id r" "po_symbol r' = po_symbol r" "po_side r' = po_side r"
  using mk_place_order_same [OF assms [unfolded amended_request_def]] by simp_all

lemma amend_ok: "keeps sim_ok (sim_amend_order x a)"
  unfolding keeps_triple sim_amend_order_def
proof (rule triple_bind [OF required_order_triple], rule triple_if)
  fix d
  let ?P = "\<lambda>s. sim_ok s \<and> map_of (sm_orders s) (am_order_link_id a) = Some d"
  show "triple ?P (act_raise (ValueError ''only active simulated orders can be amended'')) (\<lambda>_. sim_ok) (\<lambda>_. sim_ok)"
    by (rule triple_raise) simp
  have "triple (\<lambda>s. ?P s \<and> amended_request (so_request d) a = Inr r) (sim_do (\<lambda>s.
       record_event ''ORDER_AMENDED'' [(''order_link_id'', VText (am_order_link_id a))]
             (put_order (am_order_link_id a) (d\<lparr>so_request := r, so_updated_ms := sm_now_ms s\<rparr>) s))) (\<lambda>_. sim_ok) (\<lambda>_. sim_ok)" for r
    using amended_same [of "so_request d" a r]
    by (auto simp: triple_def sim_do_def same_order_def intro!: sim_ok_record sim_ok_put)
  then show "triple ?P (act_bind (act_lift (amended_request (so_request d) a)) (\<lambda>r.
          act_bind (sim_do (\<lambda>s. record_event ''ORDER_AMENDED'' [(''order_link_id'', VText (am_order_link_id a))]
             (put_order (am_order_link_id a) (d\<lparr>so_request := r, so_updated_ms := sm_now_ms s\<rparr>) s))) (\<lambda>_.
          sim_ack x AMEND (so_order_id d) (am_order_link_id a)))) (\<lambda>_. sim_ok) (\<lambda>_. sim_ok)"
    by (intro triple_bind [where R = "\<lambda>r s. ?P s \<and> amended_request (so_request d) a = Inr r"] triple_lift triple_bind)
      (use sim_ack_ok in \<open>auto simp: keeps_triple\<close>)
qed

text \<open>Placing: the client id is still free when the order is accepted.\<close>

definition id_free :: "string \<Rightarrow> sim \<Rightarrow> bool" where
  "id_free link s \<longleftrightarrow> sim_ok s \<and> map_of (sm_orders s) link = None"

lemma draw_free: "triple (id_free link) (draw_act x p) (\<lambda>_. id_free link) (\<lambda>_. sim_ok)"
  using sim_ok_simps(2) [of x p] by (simp add: triple_def draw_act_def draw_def id_free_def)

lemma accept_ok: "triple (id_free (po_order_link_id r)) (\<lambda>s. case accept_order x r s of (s', i) \<Rightarrow> (s', Inr i)) (\<lambda>_. sim_ok) (\<lambda>_. sim_ok)"
proof (rule tripleI)
  fix s s' i assume p: "id_free (po_order_link_id r) s"
    and a: "(case accept_order x r s of (s', i) \<Rightarrow> (s', Inr i)) = (s', Inr i)"
  let ?s = "s\<lparr>sm_order_sequence := sm_order_sequence s + 1, sm_draws := sm_draws s + 1\<rparr>"
  have ok: "sim_ok ?s" using p by (simp add: id_free_def sim_ok_def account_def)
  have "sim_ok (put_order (po_order_link_id r) d ?s)"
    if "so_request d = r" "so_filled_quantity d = 0" "so_fill_notional d = 0" for d
    using ok p books_agree_new [of "sm_orders s" _ _ _ "po_order_link_id r" d] that
    by (simp add: id_free_def sim_ok_def account_def put_order_def)
  then show "sim_ok s'"
    using a by (auto simp: accept_order_def Let_def draw_def intro!: sim_ok_record)
qed (auto split: prod.splits)

lemma refuse_ok: "keeps sim_ok (refuse_order r)"
  unfolding refuse_order_def by (intro keeps_bind sim_do_ok sim_ok_record) (simp_all add: sim_ok_frame)

lemma confirm_ok: "keeps sim_ok (confirm_order x r i)"
  unfolding confirm_order_def
  by (intro keeps_bind keeps_if checkpoint_ok advance_time_ok draw_ok sim_do_ok sim_ok_record sim_ack_ok) simp_all

lemma place_ok: "keeps sim_ok (sim_place_order x r)"
proof -
  let ?k = "po_order_link_id r"
  have free: "triple (id_free ?k) m (\<lambda>_. sim_ok) (\<lambda>_. sim_ok)" if "keeps sim_ok m" for m :: "order_request_ack sim_act"
    using that by (auto simp: keeps_triple triple_def id_free_def)
  have raises: "keeps sim_ok (act_raise e)" for e :: py_exn by simp
  have accepted: "triple (id_free ?k) (act_bind (\<lambda>s. case accept_order x r s of (s', i) \<Rightarrow> (s', Inr i)) (confirm_order x r))
      (\<lambda>_. sim_ok) (\<lambda>_. sim_ok)"
    by (rule triple_bind [OF accept_ok]) (use confirm_ok in \<open>simp add: keeps_triple\<close>)
  have drawn: "triple (id_free ?k) (act_bind (draw_act x (ec_rejection_probability (sx_config x))) (\<lambda>rejected.
      if rejected then refuse_order r
      else act_bind (\<lambda>s. case accept_order x r s of (s', i) \<Rightarrow> (s', Inr i)) (confirm_order x r))) (\<lambda>_. sim_ok) (\<lambda>_. sim_ok)"
    by (rule triple_bind [OF draw_free], rule triple_if [OF free [OF refuse_ok] accepted])
  have checked: "triple sim_ok (act_bind (act_get (\<lambda>s. map_of (sm_orders s) ?k \<noteq> None)) (\<lambda>exists_already.
      if exists_already then act_raise e else m)) (\<lambda>_. sim_ok) (\<lambda>_. sim_ok)"
    if "triple (id_free ?k) m (\<lambda>_. sim_ok) (\<lambda>_. sim_ok)" for e and m :: "order_request_ack sim_act"
    using that by (auto simp: triple_def act_bind_def act_get_def id_free_def)
  show ?thesis
    unfolding keeps_triple sim_place_order_def
    by (rule triple_bind [OF checkpoint_ok [unfolded keeps_triple]],
        rule triple_if [OF raises [unfolded keeps_triple] checked [OF drawn]])
qed

section \<open>Any run of the exchange\<close>

inductive sim_step :: "sim_setup \<Rightarrow> sim \<Rightarrow> sim \<Rightarrow> bool" for x where
  Advance_Time: "advance_time x ms s = (s', r1) \<Longrightarrow> sim_step x s s'"
| Advance_Market: "advance_market x price ms s = (s', r1) \<Longrightarrow> sim_step x s s'"
| Register_Trigger: "register_trigger_price link price s = (s', r1) \<Longrightarrow> sim_step x s s'"
| Private_Connection: "set_private_connected online s = (s', r1) \<Longrightarrow> sim_step x s s'"
| Public_Connection: "set_public_connected online s = (s', r1) \<Longrightarrow> sim_step x s s'"
| Drain: "drain_execution_events x s = (s', r2) \<Longrightarrow> sim_step x s s'"
| Funding: "apply_funding rate s = (s', r3) \<Longrightarrow> sim_step x s s'"
| Place: "sim_place_order x request s = (s', r4) \<Longrightarrow> sim_step x s s'"
| Amend: "sim_amend_order x amendment s = (s', r4) \<Longrightarrow> sim_step x s s'"
| Cancel: "sim_cancel_order x cancellation s = (s', r4) \<Longrightarrow> sim_step x s s'"
| Cancel_All: "sim_cancel_all category symb s = (s', r1) \<Longrightarrow> sim_step x s s'"

abbreviation sim_runs :: "sim_setup \<Rightarrow> sim \<Rightarrow> sim \<Rightarrow> bool" where
  "sim_runs x \<equiv> (sim_step x)\<^sup>*\<^sup>*"

lemmas methods_ok = advance_time_ok advance_market_ok register_ok connections_ok drain_ok funding_ok place_ok amend_ok
  cancel_ok cancel_all_ok

lemma sim_step_ok: "sim_step x s s' \<Longrightarrow> sim_ok s \<Longrightarrow> sim_ok s'"
  by (induction rule: sim_step.induct) (auto intro: methods_ok [THEN keepsD])

lemma new_exchange_ok:
  assumes "new_simulated_exchange x p faults = Inr s"
  shows "sim_ok s"
proof -
  have "numbered_executions 0 []" by (simp add: numbered_executions_def)
  then have "books_agree [] [] [] 0" by (simp add: books_agree_def)
  moreover have "ledger_agrees [] empty_account" by (simp add: ledger_agrees_def account_ok_def empty_account_def)
  ultimately show ?thesis
    using assms by (auto simp: new_simulated_exchange_def sim_ok_def account_def empty_account_def not_le)
qed

lemma sim_runs_ok:
  assumes "new_simulated_exchange x p faults = Inr s0" "sim_runs x s0 s"
  shows "sim_ok s"
  using assms(2) by (induction rule: rtranclp_induct) (use new_exchange_ok [OF assms(1)] sim_step_ok in blast)+

lemma replay_of_run:
  assumes "sim_ok s"
  shows "replay_simulated_financials parse (sm_event_log s) = Inr \<lparr>rf_gross_trading_pnl = sm_realized_pnl s,
    rf_entry_fees = sm_entry_fees s, rf_tp_fees = sm_tp_fees s, rf_stop_fees = sm_stop_fees s, rf_funding = sm_funding s,
    rf_net_hedge_pnl = dsub (dadd (sm_realized_pnl s) (sm_funding s))
      (dadd (dadd (sm_entry_fees s) (sm_tp_fees s)) (sm_stop_fees s))\<rparr>"
  using assms by (simp add: sim_ok_def ledger_agrees_def replay_simulated_financials_def account_def Let_def)

text \<open>C37. The ledger explains the accounts. After any sequence of calls on a new exchange, also of calls that
  raise and of injected crashes, the events are numbered 1, 2, 3, ... and the replay of the event ledger alone
  succeeds and gives exactly the gross profit, the entry, take profit and stop fees and the funding of the
  exchange; its net result is computed from these.\<close>

theorem simulation_ledger_replay:
  assumes "new_simulated_exchange x p faults = Inr s0" and "sim_runs x s0 s"
  shows "\<exists>r. replay_simulated_financials parse (sm_event_log s) = Inr r
    \<and> rf_gross_trading_pnl r = mx_gross_trading_pnl (sim_metrics_of s) \<and> rf_entry_fees r = mx_entry_fees (sim_metrics_of s)
    \<and> rf_tp_fees r = mx_tp_fees (sim_metrics_of s) \<and> rf_stop_fees r = mx_stop_fees (sim_metrics_of s)
    \<and> rf_funding r = mx_funding (sim_metrics_of s)
    \<and> rf_net_hedge_pnl r = dsub (dadd (sm_realized_pnl s) (sm_funding s))
        (dadd (dadd (sm_entry_fees s) (sm_tp_fees s)) (sm_stop_fees s))
    \<and> map sv_sequence (sm_event_log s) = map (\<lambda>i. int i + 1) [0..<length (sm_event_log s)]"
proof -
  have "ledger_agrees (sm_event_log s) (account s)"
    using sim_runs_ok [OF assms] by (simp add: sim_ok_def)
  then show ?thesis
    using replay_of_run [OF sim_runs_ok [OF assms]] by (simp add: ledger_agrees_def sim_metrics_of_def)
qed

text \<open>C38. The books of the exchange. After any sequence of calls, execution ids are unique; every execution
  belongs to an accepted order with its order id, symbol and side; the filled quantity and the notional of
  every order are the sums over its executions; what is queued for delivery was executed; and the short
  position is never negative, with a positive average price exactly while it is open.\<close>

theorem simulation_books_agree:
  assumes "new_simulated_exchange x p faults = Inr s0" and "sim_runs x s0 s"
  shows "distinct (map ex_execution_id (sm_executions s))
    \<and> (\<forall>e \<in> set (sm_executions s). \<exists>d. map_of (sm_orders s) (ex_order_link_id e) = Some d \<and> execution_of_order d e)
    \<and> (\<forall>k d. map_of (sm_orders s) k = Some d \<longrightarrow> po_order_link_id (so_request d) = k \<and> filled_by (fills_of k (sm_executions s)) d)
    \<and> set (sm_delivery_queue s) \<subseteq> set (sm_executions s)
    \<and> 0 \<le> sm_position_quantity s \<and> 0 \<le> sm_position_average_price s
    \<and> (0 < sm_position_average_price s \<longleftrightarrow> 0 < sm_position_quantity s)"
proof -
  have "books_agree (sm_orders s) (sm_executions s) (sm_delivery_queue s) (sm_execution_sequence s)"
    and "account_ok (account s)"
    using sim_runs_ok [OF assms] by (simp_all add: sim_ok_def ledger_agrees_def)
  moreover from this(2) have "0 \<le> sm_position_quantity s \<and> 0 \<le> sm_position_average_price s
      \<and> (0 < sm_position_average_price s \<longleftrightarrow> 0 < sm_position_quantity s)"
    by (auto simp: account_ok_def account_def split: if_splits)
  ultimately show ?thesis
    unfolding books_agree_def using numbered_executions_distinct by blast
qed

text \<open>C39. What the exchange hands out is well formed. After any sequence of calls on an exchange of a valid
  instrument, the position and wallet queries return and never raise, and every execution, position and wallet
  they report passes the validation of its class.\<close>

theorem simulation_reports_valid:
  assumes "mk_instrument_spec (sx_instrument x) = Inr i" and "new_simulated_exchange x p faults = Inr s0" and "sim_runs x s0 s"
  shows "(\<forall>e \<in> set (sim_execution_history symb link s). mk_execution_update e = Inr e)
    \<and> (\<exists>ps. sim_positions x category symb s = Inr ps \<and> (\<forall>q \<in> set ps. mk_exchange_position q = Inr q))
    \<and> (\<exists>w. sim_wallet_state x s = Inr w \<and> mk_wallet_state w = Inr w)"
proof -
  have ok: "sim_ok s" using sim_runs_ok [OF assms(2,3)] .
  have "\<forall>e \<in> set (sim_execution_history symb link s). mk_execution_update e = Inr e"
    using ok by (auto simp: sim_ok_def books_agree_def sim_execution_history_def)
  moreover have "\<not> blank (is_symbol (sx_instrument x))"
    using assms(1) by (auto simp: mk_instrument_spec_def)
  then have "\<exists>ps. sim_positions x category symb s = Inr ps \<and> (\<forall>q \<in> set ps. mk_exchange_position q = Inr q)"
    using ok by (auto simp: sim_positions_def mk_exchange_position_def not_positive_def sim_timestamp_def sim_ok_def
        ledger_agrees_def account_ok_def account_def split: if_splits)
  moreover have "\<exists>w. sim_wallet_state x s = Inr w \<and> mk_wallet_state w = Inr w"
    by (simp add: sim_wallet_state_def mk_wallet_balance_def mk_wallet_state_def Let_def sim_timestamp_def blank_def py_space_def)
  ultimately show ?thesis by blast
qed

section \<open>A run\<close>

text \<open>The argument is the probability of a partial fill.\<close>

definition sample_setup :: "dec \<Rightarrow> sim_setup" where
  "sample_setup partial_fills = \<lparr>sx_instrument = \<lparr>is_symbol = ''ETHUSDT'', is_category = linear_category, is_status = ''Trading'',
       is_base_coin = ''ETH'', is_quote_coin = ''USDT'', is_settle_coin = ''USDT'',
       is_price_filter = \<lparr>tick_size = 1, min_price = None, max_price = None\<rparr>,
       is_lot_size_filter = \<lparr>qty_step = 1, min_order_qty = 1, max_order_qty = 100, max_market_order_qty = None, min_notional = None\<rparr>,
       is_contract_multiplier = 1, is_delivery_time_utc = None\<rparr>,
     sx_config = \<lparr>ec_acknowledgement_delay_ms = 1, ec_visibility_delay_ms = 0, ec_fill_delay_ms = 0,
       ec_partial_fill_probability = partial_fills, ec_rejection_probability = 0, ec_maker_fee_rate = 0, ec_taker_fee_rate = 1 / 1000,
       ec_stop_slippage_bps = 0, ec_entry_slippage_bps = 0, ec_duplicate_execution_probability = 0, ec_reorder_probability = 0,
       ec_uncertain_ack_probability = 0, ec_partial_fill_fraction = 1 / 2, ec_perp_spread_bps = 0\<rparr>,
     sx_seed = 7, sx_start_time = Aware 0, sx_option_quotes = [], sx_wallet_balance = 100000,
     sx_random = (\<lambda>_. 0), sx_float = id, sx_show = (\<lambda>_. ''3000''), sx_sha256 = (\<lambda>_. ''00'')\<rparr>"

definition sim_entry :: place_order_request where
  "sim_entry = \<lparr>po_category = linear_category, po_symbol = ''ETHUSDT'', po_side = Sell, po_order_type = Market,
     po_quantity = 4, po_order_link_id = ''ECH-a-C0001-L01-ENTRY-A01-00FF'', po_price = None, po_time_in_force = GTC,
     po_reduce_only = False, po_trigger_price = None, po_trigger_direction = None, po_trigger_by = None,
     po_position_idx = 0, po_close_on_trigger = False\<rparr>"

definition sim_amendment :: amend_order_request where
  "sim_amendment = \<lparr>am_category = linear_category, am_symbol = ''ETHUSDT'', am_order_link_id = po_order_link_id sim_entry,
     am_quantity = Some 1, am_price = None, am_trigger_price = None\<rparr>"

definition sim_start :: sim where
  "sim_start = (case new_simulated_exchange (sample_setup 0) 3000 None of Inr s \<Rightarrow> s)"

definition sim_opened :: "dec \<Rightarrow> sim" where
  "sim_opened partial_fills = fst (sim_place_order (sample_setup partial_fills) sim_entry sim_start)"

lemma sim_start_new: "new_simulated_exchange (sample_setup p) 3000 None = Inr sim_start"
proof -
  have "is_ok (new_simulated_exchange (sample_setup 0) 3000 None)" by code_simp
  moreover have "new_simulated_exchange (sample_setup p) 3000 None = new_simulated_exchange (sample_setup 0) 3000 None"
    by (simp add: new_simulated_exchange_def sample_setup_def)
  ultimately show ?thesis by (auto simp: sim_start_def is_ok_iff)
qed

lemma sim_opened_runs: "sim_runs (sample_setup p) sim_start (sim_opened p)"
  unfolding sim_opened_def by (rule r_into_rtranclp, rule sim_step.Place, rule surjective_pairing)

lemma sim_opened_account: "account (sim_opened 0) = \<lparr>ra_quantity = 4, ra_average = 3000, ra_gross = 0, ra_entry_fees = 12,
    ra_tp_fees = 0, ra_stop_fees = 0, ra_funding = 0\<rparr>"
  by code_simp

theorem simulation_ledger_replay_witness:
  "\<exists>r. replay_simulated_financials (\<lambda>_. None) (sm_event_log (sim_opened 0)) = Inr r \<and> rf_entry_fees r = 12"
proof -
  have "mx_entry_fees (sim_metrics_of (sim_opened 0)) = 12"
    using sim_opened_account by (simp add: account_def sim_metrics_of_def)
  then show ?thesis
    using simulation_ledger_replay [OF sim_start_new sim_opened_runs, where parse = "\<lambda>_. None" and p1 = 0] by auto
qed

theorem simulation_books_agree_witness:
  "sm_position_quantity (sim_opened 0) = 4 \<and> 0 < sm_position_average_price (sim_opened 0)"
proof -
  have "sm_position_quantity (sim_opened 0) = 4" using sim_opened_account by (simp add: account_def)
  then show ?thesis
    using simulation_books_agree [OF sim_start_new sim_opened_runs, of 0] by simp
qed

theorem simulation_reports_valid_witness:
  "\<exists>ps. sim_positions (sample_setup 0) linear_category None (sim_opened 0) = Inr ps \<and> (\<forall>q \<in> set ps. mk_exchange_position q = Inr q)"
proof -
  have "mk_instrument_spec (sx_instrument (sample_setup 0)) = Inr (sx_instrument (sample_setup 0))" by code_simp
  from simulation_reports_valid [OF this sim_start_new sim_opened_runs] show ?thesis by blast
qed

text \<open>Two flaws. The replay drops the fee of a buy that is neither a take profit nor a stop, which the net
  result of the exchange subtracts. An amendment may set the quantity of an order below what is already
  filled; the exchange accepts it, and no open order can be listed any more.\<close>

lemma emergency_fees_not_replayed:
  assumes "ex_side e = Buy"
  shows "mx_exit_fees (sim_metrics_of (apply_position e EMERGENCY_CLOSE s)) = dadd (mx_exit_fees (sim_metrics_of s)) (ex_fee e)"
    and "\<exists>a'. replay_execution a (execution_payload e EMERGENCY_CLOSE) (ex_price e) (ex_quantity e) (ex_fee e) = Inr a'
      \<and> ra_entry_fees a' = ra_entry_fees a \<and> ra_tp_fees a' = ra_tp_fees a \<and> ra_stop_fees a' = ra_stop_fees a"
  using assms by (simp_all add: apply_position_def sim_metrics_of_def replay_execution_def execution_payload_fields Let_def)

lemma amended_order_unreadable:
  "case sim_amend_order (sample_setup 1) sim_amendment (sim_opened 1) of (s, r) \<Rightarrow> is_ok r
     \<and> sim_open_orders (sample_setup 1) linear_category None s
       = Inl (ValueError ''cumulative filled quantity must be within order quantity'')"
  by code_simp

end
