(* ===== verification/Protective_Exits.thy ===== *)
theory Protective_Exits
  imports One_Level_Entry Instrument_Rules
begin

text \<open>
  \<open>application/protective_exits.py\<close>: the service that hosts the stop and the take profit of an open
  hedge on the exchange, restores the stop of a remainder, books the executions of the exits and
  reconciles the sibling order after one of them closed the position. The methods are translated call by
  call over an arbitrary exchange. The lemmas then follow the order of writes and calls: a protective
  order is placed only after its request and its snapshot are durable, it can only reduce the hedge, and
  a snapshot is stored as protected or closed only after the exchange has shown what that claims.
\<close>

section \<open>The service\<close>

record exit_settings =
  xs_visibility_attempts :: int
  xs_visibility_interval_seconds :: rat

definition mk_exit_settings :: "exit_settings \<Rightarrow> exit_settings res" where
  "mk_exit_settings v = check_all
    [(xs_visibility_attempts v \<le> 0, ''visibility attempts must be positive''),
     (xs_visibility_interval_seconds v < 0, ''visibility interval cannot be negative'')] (Inr v)"

definition validate_instrument :: "instrument_spec \<Rightarrow> unit res" where
  "validate_instrument i = raise_when (is_category i \<noteq> linear_category \<or> is_symbol i \<noteq> ''ETHUSDT'' \<or> is_status i \<noteq> ''Trading'')
     ''protection requires Trading ETHUSDT linear'' (Inr ())"

definition visible_as_requested :: "exchange_order \<Rightarrow> place_order_request \<Rightarrow> bool" where
  "visible_as_requested d r \<longleftrightarrow> eo_order_link_id d = po_order_link_id r \<and> eo_symbol d = po_symbol r
     \<and> eo_side d = po_side r \<and> eo_order_type d = po_order_type r \<and> eo_quantity d = po_quantity r
     \<and> eo_price d = po_price r \<and> eo_trigger_price d = po_trigger_price r \<and> eo_trigger_by d = po_trigger_by r
     \<and> eo_trigger_direction d = po_trigger_direction r \<and> eo_time_in_force d = Some (po_time_in_force r)
     \<and> eo_position_idx d = Some (po_position_idx r) \<and> eo_close_on_trigger d = po_close_on_trigger r
     \<and> eo_reduce_only d \<and> eo_status d \<in> set [''New'', ''Untriggered'', ''PartiallyFilled'']"

definition validate_visible_order :: "exchange_order \<Rightarrow> place_order_request \<Rightarrow> exchange_order res" where
  "validate_visible_order d r = raise_if (\<not> visible_as_requested d r)
     (ProtectionNotConfirmedError (''order '' @ po_order_link_id r @ '' does not match persisted intent'')) (Inr d)"

text \<open>The outcome of \<open>place_order\<close>: the acknowledgement, and the order found after an unclear answer.\<close>

definition place_or_discover ::
    "exchange \<Rightarrow> place_order_request \<Rightarrow> ('z world_scheme, order_request_ack \<times> exchange_order option) act" where
  "place_or_discover x r = act_catch
     (act_bind (place_order x r) (\<lambda>a. act_return (a, None)))
     (\<lambda>e. case e of
        UncertainOrderOutcomeError _ \<Rightarrow>
          act_bind (get_order_by_link_id x (po_category r) (po_symbol r) (po_order_link_id r)) (\<lambda>found.
            case found of
              None \<Rightarrow> act_raise e
            | Some d \<Rightarrow> act_bind (discovered_ack x d) (\<lambda>a. act_return (a, Some d)))
      | _ \<Rightarrow> act_raise e)"

text \<open>The visibility loop, by the number of attempts left.\<close>

fun await_visible :: "exchange \<Rightarrow> place_order_request \<Rightarrow> nat \<Rightarrow> ('z world_scheme, exchange_order) act" where
  "await_visible x r 0 = act_raise (ProtectionNotConfirmedError
     (''order '' @ po_order_link_id r @ '' was not confirmed visible''))"
| "await_visible x r (Suc left) =
     act_bind (get_order_by_link_id x (po_category r) (po_symbol r) (po_order_link_id r)) (\<lambda>found.
       case found of
         Some d \<Rightarrow> act_lift (validate_visible_order d r)
       | None \<Rightarrow> if 0 < left then act_bind sleep (\<lambda>_. await_visible x r left) else await_visible x r left)"

definition place_and_confirm_visible ::
    "exit_settings \<Rightarrow> exchange \<Rightarrow> place_order_request \<Rightarrow> ('z world_scheme, exchange_order) act" where
  "place_and_confirm_visible v x r = act_bind (place_or_discover x r) (\<lambda>(a, discovered).
     act_bind (on_store (record_acknowledgement a)) (\<lambda>_.
     case discovered of
       Some d \<Rightarrow> act_lift (validate_visible_order d r)
     | None \<Rightarrow> await_visible x r (nat (xs_visibility_attempts v))))"

definition set_reconciling :: "exchange \<Rightarrow> protection_snapshot \<Rightarrow> ('z world_scheme, protection_snapshot) act" where
  "set_reconciling x s = act_bind (clock x) (\<lambda>now.
     act_bind (act_lift (mark_protection_reconciling s now)) (\<lambda>s1.
     if ps_state s = RECONCILING then act_return s1
     else act_bind (on_store (transition_protection_snapshot (ps_version s) s1)) (\<lambda>_. act_return s1)))"

text \<open>The second half of the three installing methods: place the order of the snapshot \<open>s\<close> that is
  stored now, and store its confirmation.\<close>

definition place_and_confirm ::
    "exit_settings \<Rightarrow> exchange \<Rightarrow> place_order_request \<Rightarrow> protection_snapshot
     \<Rightarrow> (string \<Rightarrow> datetime \<Rightarrow> protection_snapshot res) \<Rightarrow> ('z world_scheme, protection_snapshot) act" where
  "place_and_confirm v x r s confirm = act_bind
     (act_catch (place_and_confirm_visible v x r)
        (on_exception (\<lambda>e. act_bind (set_reconciling x s) (\<lambda>_. act_raise e)))) (\<lambda>visible.
     act_bind (clock x) (\<lambda>now.
     act_bind (act_lift (confirm (eo_order_id visible) now)) (\<lambda>s1.
     act_bind (on_store (transition_protection_snapshot (ps_version s) s1)) (\<lambda>_. act_return s1))))"

definition stop_request :: "string \<Rightarrow> dec \<Rightarrow> dec \<Rightarrow> place_order_request" where
  "stop_request link quantity trigger = \<lparr>po_category = linear_category, po_symbol = ''ETHUSDT'', po_side = Buy,
     po_order_type = Market, po_quantity = quantity, po_order_link_id = link, po_price = None,
     po_time_in_force = IOC, po_reduce_only = True, po_trigger_price = Some trigger,
     po_trigger_direction = Some 1, po_trigger_by = Some LastPrice, po_position_idx = 0, po_close_on_trigger = True\<rparr>"

definition take_profit_request :: "string \<Rightarrow> dec \<Rightarrow> dec \<Rightarrow> place_order_request" where
  "take_profit_request link quantity price = \<lparr>po_category = linear_category, po_symbol = ''ETHUSDT'', po_side = Buy,
     po_order_type = Limit, po_quantity = quantity, po_order_link_id = link, po_price = Some price,
     po_time_in_force = GTC, po_reduce_only = True, po_trigger_price = None,
     po_trigger_direction = None, po_trigger_by = None, po_position_idx = 0, po_close_on_trigger = False\<rparr>"

text \<open>The trigger above the average entry, rounded away from it.\<close>

definition stop_trigger :: "instrument_spec \<Rightarrow> dec \<Rightarrow> dec \<Rightarrow> dec res" where
  "stop_trigger i average stop_rate =
     quantize_limit_price (dmul average (dadd 1 stop_rate)) (tick_size (is_price_filter i)) Buy AGGRESSIVE"

definition positive_rate :: "dec \<Rightarrow> unit res" where
  "positive_rate stop_rate = raise_when (stop_rate \<le> 0) ''stop rate must be positive'' (Inr ())"

text \<open>The entry of a first stop: its snapshot and average price.\<close>

definition filled_entry :: "string \<Rightarrow> ('z world_scheme, entry_snapshot \<times> dec) act" where
  "filled_entry link = act_bind (on_store (load_entry_snapshot link)) (\<lambda>found.
     act_bind (missing ''entry snapshot does not exist'' found) (\<lambda>entry.
     act_bind (missing ''entry has no confirmed average price'' (average_entry_price entry)) (\<lambda>average.
     act_return (entry, average))))"

definition install_stop ::
    "exit_settings \<Rightarrow> exchange \<Rightarrow> string \<Rightarrow> instrument_spec \<Rightarrow> string \<Rightarrow> dec \<Rightarrow> ('z world_scheme, protection_snapshot) act" where
  "install_stop v x entry_link i stop_link stop_rate = act_bind (act_lift (validate_instrument i)) (\<lambda>_.
     act_bind (act_lift (positive_rate stop_rate)) (\<lambda>_.
     act_bind (filled_entry entry_link) (\<lambda>(entry, average).
     act_bind (act_lift (stop_trigger i average stop_rate)) (\<lambda>trigger.
     act_bind (act_lift (mk_place_order_request (stop_request stop_link (es_filled_quantity entry) trigger))) (\<lambda>r.
     act_bind (clock x) (\<lambda>now.
     act_bind (act_lift (for_stop_intent entry stop_link trigger now)) (\<lambda>s.
     act_bind (on_store (persist_protection_intent r s (ps_updated_at s))) (\<lambda>_.
     place_and_confirm v x r s (confirm_stop s)))))))))"

definition install_take_profit ::
    "exit_settings \<Rightarrow> exchange \<Rightarrow> protection_snapshot \<Rightarrow> instrument_spec \<Rightarrow> string \<Rightarrow> dec \<Rightarrow> price_quantization_policy
     \<Rightarrow> ('z world_scheme, protection_snapshot) act" where
  "install_take_profit v x s0 i link desired_price policy = act_bind (act_lift (validate_instrument i)) (\<lambda>_.
     act_bind (act_lift (quantize_limit_price desired_price (tick_size (is_price_filter i)) Buy policy)) (\<lambda>tp_price.
     act_bind (act_lift (mk_place_order_request (take_profit_request link (ps_open_quantity s0) tp_price))) (\<lambda>r.
     act_bind (clock x) (\<lambda>now.
     act_bind (act_lift (add_take_profit_intent s0 link tp_price now)) (\<lambda>s.
     act_bind (on_store (persist_take_profit_intent (ps_version s0) r s (ps_updated_at s))) (\<lambda>_.
     place_and_confirm v x r s (confirm_take_profit s)))))))"

definition restore_stop ::
    "exit_settings \<Rightarrow> exchange \<Rightarrow> protection_snapshot \<Rightarrow> instrument_spec \<Rightarrow> string \<Rightarrow> dec
     \<Rightarrow> ('z world_scheme, protection_snapshot) act" where
  "restore_stop v x s0 i link stop_rate = act_bind (act_lift (validate_instrument i)) (\<lambda>_.
     act_bind (act_lift (positive_rate stop_rate)) (\<lambda>_.
     act_bind (act_lift (stop_trigger i (ps_average_entry_price s0) stop_rate)) (\<lambda>trigger.
     act_bind (act_lift (mk_place_order_request (stop_request link (ps_open_quantity s0) trigger))) (\<lambda>r.
     act_bind (clock x) (\<lambda>now.
     act_bind (act_lift (replace_stop_intent s0 link trigger now)) (\<lambda>s.
     act_bind (on_store (persist_replacement_stop_intent (ps_version s0) r s (ps_updated_at s))) (\<lambda>_.
     place_and_confirm v x r s (confirm_stop s))))))))"

definition book_exit_execution ::
    "execution_update \<Rightarrow> datetime \<Rightarrow> string \<Rightarrow> ('z world_scheme, protection_snapshot) act" where
  "book_exit_execution e received_at h = act_bind (on_store (load_protection_snapshot_by_exit_id (ex_order_link_id e))) (\<lambda>found.
     act_bind (missing ''execution has no persisted protection snapshot'' found) (\<lambda>s.
     act_bind (on_store (has_execution (ex_execution_id e))) (\<lambda>known.
     if known then act_return s
     else act_bind (act_lift (apply_exit_execution s e received_at)) (\<lambda>updated.
       act_bind (on_store (record_exit_execution_and_snapshot (ps_version s) e received_at h updated)) (\<lambda>inserted.
       if inserted then act_return updated
       else act_bind (on_store (load_protection_snapshot (ps_entry_order_link_id s))) (\<lambda>restored.
         case restored of
           None \<Rightarrow> act_raise (RuntimeError ''protection snapshot disappeared after duplicate'')
         | Some s1 \<Rightarrow> act_return s1))))))"

text \<open>Both exits of a snapshot; \<open>None\<close> if there is no take profit.\<close>

definition exit_ids :: "protection_snapshot \<Rightarrow> string option list" where
  "exit_ids s = [Some (ps_stop_order_link_id s), ps_tp_order_link_id s]"

definition cancel_exit :: "exchange \<Rightarrow> string option list \<Rightarrow> exchange_order \<Rightarrow> unit \<Rightarrow> ('z world_scheme, unit) act" where
  "cancel_exit x ids d u = (if Some (eo_order_link_id d) \<notin> set ids then act_return ()
     else act_catch
       (act_bind (act_lift (mk_cancel_order_request \<lparr>ca_category = linear_category, ca_symbol = ''ETHUSDT'',
            ca_order_link_id = eo_order_link_id d\<rparr>)) (\<lambda>c.
          act_bind (cancel_order x c) (\<lambda>_. act_return ())))
       (\<lambda>e. case e of UncertainOrderOutcomeError _ \<Rightarrow> act_return () | _ \<Rightarrow> act_raise e))"

definition pending_exit :: "string \<Rightarrow> ('z world_scheme, protection_snapshot) act" where
  "pending_exit link = act_bind (on_store (load_protection_snapshot link)) (\<lambda>found.
     act_bind (missing ''protection snapshot does not exist'' found) (\<lambda>s.
     if ps_state s \<noteq> CANCEL_PENDING then act_raise (ValueError ''exit reconciliation requires CANCEL_PENDING state'')
     else act_return s))"

definition unexplained_exit :: "protection_snapshot \<Rightarrow> exchange_order list \<Rightarrow> bool" where
  "unexplained_exit s orders = list_ex (\<lambda>d. Some (eo_order_link_id d) \<in> set (exit_ids s)) orders"

definition settle_exit ::
    "exchange \<Rightarrow> protection_snapshot \<Rightarrow> exchange_order list \<Rightarrow> exchange_position list \<Rightarrow> ('z world_scheme, protection_snapshot) act" where
  "settle_exit x s remaining positions = act_bind (on_store load_all_protection_snapshots) (\<lambda>all_snapshots.
     if unexplained_exit s remaining \<or> \<not> aggregate_protection_position_matches all_snapshots positions
     then set_reconciling x s
     else act_bind (clock x) (\<lambda>now.
       act_bind (act_lift (confirm_exit_reconciliation s now)) (\<lambda>closed.
       act_bind (on_store (transition_protection_snapshot (ps_version s) closed)) (\<lambda>_. act_return closed))))"

definition reconcile_after_exit :: "exchange \<Rightarrow> string \<Rightarrow> ('z world_scheme, protection_snapshot) act" where
  "reconcile_after_exit x link = act_bind (pending_exit link) (\<lambda>s.
     act_bind (get_open_orders x linear_category ''ETHUSDT'') (\<lambda>open_orders.
     act_bind (act_for (cancel_exit x (exit_ids s)) open_orders ()) (\<lambda>_.
     act_bind (get_open_orders x linear_category ''ETHUSDT'') (\<lambda>remaining.
     act_bind (get_positions x linear_category ''ETHUSDT'') (\<lambda>positions.
     settle_exit x s remaining positions)))))"

section \<open>Written ahead\<close>

text \<open>A request that hosts an exit of a snapshot: it buys back the whole open quantity, at the stop or at
  the take profit of the snapshot, and reduces only.\<close>

definition covers :: "protection_snapshot \<Rightarrow> place_order_request \<Rightarrow> bool" where
  "covers s r \<longleftrightarrow> r = stop_request (ps_stop_order_link_id s) (ps_open_quantity s) (ps_stop_trigger_price s)
     \<or> (\<exists>l p. ps_tp_order_link_id s = Some l \<and> ps_tp_price s = Some p \<and> r = take_profit_request l (ps_open_quantity s) p)"

definition durable_exit :: "database \<times> place_order_request \<Rightarrow> bool" where
  "durable_exit p = (case p of (db, r) \<Rightarrow> (\<exists>row. intent_of db (po_order_link_id r) = Some row \<and> in_request row = r)
     \<and> (\<exists>s \<in> set (db_protections db). covers s r))"

definition exits_inv :: "'z world_scheme \<Rightarrow> bool" where
  "exits_inv w \<longleftrightarrow> store_ok (w_store w) \<and> distinct (placed_links (w_calls w))
     \<and> (\<forall>l \<in> set (placed_links (w_calls w)). has_intent (w_store w) l)
     \<and> (\<forall>p \<in> set (placed (w_calls w)). durable_exit p)"

text \<open>An exit that is durable and not placed yet.\<close>

definition armed :: "place_order_request \<Rightarrow> 'z world_scheme \<Rightarrow> bool" where
  "armed r w \<longleftrightarrow> exits_inv w \<and> durable_exit (w_store w, r) \<and> po_order_link_id r \<notin> set (placed_links (w_calls w))"

lemma exits_inv_store:
  assumes "exits_inv w" "store_ok db" "evolves (w_store w) db"
  shows "exits_inv (w\<lparr>w_store := db\<rparr>)"
  using assms by (auto simp: exits_inv_def evolves_def intro: has_intent_kept simp del: has_intent_iff)

lemma exits_inv_call:
  "exits_inv w \<Longrightarrow> \<not> is_place c \<Longrightarrow> exits_inv (w\<lparr>w_calls := w_calls w @ [(w_store w, c)]\<rparr>)"
  by (simp add: exits_inv_def placed_links_def del: placed_append)

lemma keeps_exits_store: "sound_method m \<Longrightarrow> keeps exits_inv (on_store m)"
proof (rule keepsI)
  fix w w' :: "'z world_scheme" and r assume m: "sound_method m" "on_store m w = (w', r)" and inv: "exits_inv w"
  then obtain db where db: "m (w_store w) = (db, r)" "w' = w\<lparr>w_store := db\<rparr>"
    by (auto simp: on_store_def split: prod.splits)
  have "store_ok (w_store w)" using inv by (simp add: exits_inv_def)
  with sound_methodD [OF db(1) _ m(1)] inv show "exits_inv w'" by (simp add: db(2) exits_inv_store)
qed

lemma sound_queries:
  "sound_method (act_query q)" "sound_method (act_get f)"
  by (simp_all add: sound_method_def act_query_def act_get_def)

lemma keeps_quiet_ask: "\<not> is_place c \<Longrightarrow> keeps exits_inv (ask c answer)"
  by (rule keepsI) (auto simp: ask_def Let_def intro: exits_inv_call)

lemma keeps_ports [keeping]:
  "keeps exits_inv (clock x)" "keeps exits_inv sleep" "keeps exits_inv (get_order_by_link_id x c y l)"
  "keeps exits_inv (get_open_orders x c y)" "keeps exits_inv (get_positions x c y)" "keeps exits_inv (cancel_order x k)"
  by (simp_all add: port_calls keeps_quiet_ask)

lemma keeps_queries [keeping]:
  "keeps exits_inv (on_store (load_entry_snapshot l))" "keeps exits_inv (on_store (load_protection_snapshot l))"
  "keeps exits_inv (on_store (load_protection_snapshot_by_exit_id l))" "keeps exits_inv (on_store load_all_protection_snapshots)"
  "keeps exits_inv (on_store (has_execution i))"
  by (rule keeps_exits_store, simp add: load_entry_snapshot_def load_protection_snapshot_def has_execution_def
      load_protection_snapshot_by_exit_id_def load_all_protection_snapshots_def sound_queries)+

lemma keeps_writes [keeping]:
  "keeps exits_inv (on_store (record_acknowledgement a))" "keeps exits_inv (on_store (transition_protection_snapshot k s))"
  "keeps exits_inv (on_store (record_exit_execution_and_snapshot k e t h s))"
  by (rule keeps_exits_store, rule sound_methods)+

lemma keeps_missing [keeping]: "keeps I (missing msg v)"
  by (simp add: missing_def split: option.split)

lemma keeps_lift_bind: "(\<And>y. r = Inr y \<Longrightarrow> keeps I (f y)) \<Longrightarrow> keeps I (act_bind (act_lift r) f)"
  by (cases r) (auto simp: keeps_def act_bind_def act_lift_def)

lemma keeps_case_prod [keeping]: "(\<And>a b. keeps I (f a b)) \<Longrightarrow> keeps I (case p of (a, b) \<Rightarrow> f a b)"
  by (cases p) simp

lemma keeps_await [keeping]: "keeps exits_inv (await_visible x r left)"
proof (induction left)
  case 0
  show ?case unfolding await_visible.simps by (rule keeping)
next
  case (Suc left)
  show ?case unfolding await_visible.simps by (intro keeping Suc)
qed

lemma keeps_reconciling [keeping]: "keeps exits_inv (set_reconciling x s)"
  unfolding set_reconciling_def by (intro keeping)

lemma keeps_exn [keeping]:
  "keeps I f \<Longrightarrow> (\<And>e. keeps I (g e)) \<Longrightarrow> keeps I (case e of UncertainOrderOutcomeError m \<Rightarrow> f | _ \<Rightarrow> g e)"
  by (cases e) simp_all

section \<open>Placing\<close>

lemma keeps_triple_from: "keeps I m \<Longrightarrow> (\<And>w. P w \<Longrightarrow> I w) \<Longrightarrow> triple P m (\<lambda>_. I) (\<lambda>_. I)"
  unfolding keeps_triple by (erule triple_weaken)

lemma triple_place_exit: "triple (armed r) (place_order x r) (\<lambda>_. exits_inv) (\<lambda>_. exits_inv)"
  unfolding place_order_def
proof (rule triple_ask)
  fix w assume a: "armed r w"
  then have "has_intent (w_store w) (po_order_link_id r)"
    by (auto simp: armed_def durable_exit_def intent_id_def dest: find_row_SomeD)
  with a show "exits_inv (w\<lparr>w_calls := w_calls w @ [(w_store w, Place r)]\<rparr>)"
    unfolding armed_def exits_inv_def by (simp add: placed_links_def del: has_intent_iff)
  then show "exits_inv (w\<lparr>w_calls := w_calls w @ [(w_store w, Place r)]\<rparr>)" .
qed

lemma keeps_discovered [keeping]: "keeps exits_inv (discovered_ack x d)"
  unfolding discovered_ack_def by (intro keeping)

lemma triple_discover: "triple (armed r) (place_or_discover x r) (\<lambda>_. exits_inv) (\<lambda>_. exits_inv)"
  unfolding place_or_discover_def
proof (rule triple_catch)
  show "triple (armed r) (act_bind (place_order x r) (\<lambda>a. act_return (a, None))) (\<lambda>_. exits_inv) (\<lambda>_. exits_inv)"
    by (rule triple_bind [OF triple_place_exit], rule triple_return)
  show "triple exits_inv (case e of UncertainOrderOutcomeError _ \<Rightarrow>
          act_bind (get_order_by_link_id x (po_category r) (po_symbol r) (po_order_link_id r)) (\<lambda>found.
            case found of None \<Rightarrow> act_raise e
            | Some d \<Rightarrow> act_bind (discovered_ack x d) (\<lambda>a. act_return (a, Some d)))
      | _ \<Rightarrow> act_raise e) (\<lambda>_. exits_inv) (\<lambda>_. exits_inv)" for e
    by (rule keeps_triple_from, intro keeping)
qed

lemma triple_place_and_confirm: "triple (armed r) (place_and_confirm v x r s confirm) (\<lambda>_. exits_inv) (\<lambda>_. exits_inv)"
proof -
  have "triple (armed r) (place_and_confirm_visible v x r) (\<lambda>_. exits_inv) (\<lambda>_. exits_inv)"
    unfolding place_and_confirm_visible_def
    by (rule triple_bind [OF triple_discover], rule keeps_triple_from, intro keeping)
  then show ?thesis
    unfolding place_and_confirm_def
    by (intro triple_bind [where R = "\<lambda>_. exits_inv"] triple_catch [where E' = "\<lambda>_. exits_inv"])
      (assumption, (rule keeps_triple_from, intro keeping, assumption)+)
qed

text \<open>The write before the call: the request and the snapshot it covers, in one transaction.\<close>

lemma armed_after:
  assumes inv: "exits_inv w" and i: "insert_order_intent r t (w_store w) = Inr db1"
    and s: "insert_protection_snapshot s db1 = Inr db \<or> update_protection_snapshot k s db1 = Inr db" and c: "covers s r"
  shows "armed r (w\<lparr>w_store := db\<rparr>)"
proof -
  let ?l = "po_order_link_id r"
  have ok: "store_ok (w_store w)" using inv by (simp add: exits_inv_def)
  have 1: "store_ok db1" "evolves (w_store w) db1"
    using sound_insert_intent ok i unfolding sound_statement_def by blast+
  have 2: "store_ok db" "evolves db1 db"
    using sound_insert_protection sound_update_protection 1(1) s unfolding sound_statement_def by blast+
  have new: "\<not> has_intent (w_store w) ?l" using i by (auto simp: insert_order_intent_def)
  then have "intent_of (w_store w) ?l = None" by (simp add: find_row_None_iff)
  then obtain row where "intent_of db1 ?l = Some row" "in_request row = r"
    using i by (auto simp: insert_order_intent_def find_row_append intent_id_def)
  then have row: "\<exists>row. intent_of db ?l = Some row \<and> in_request row = r"
    using 2(2) unfolding evolves_def intents_kept_def by metis
  have "protection_of db (ps_entry_order_link_id s) = Some s"
    using s protections.save_writes [OF 1(1)] protections.add_writes [OF 1(1)] by auto
  then have "s \<in> set (db_protections db)" by (auto dest: find_row_SomeD)
  with row c have "durable_exit (db, r)" by (auto simp: durable_exit_def)
  moreover have "?l \<notin> set (placed_links (w_calls w))" using inv new unfolding exits_inv_def by blast
  moreover have "exits_inv (w\<lparr>w_store := db\<rparr>)" using exits_inv_store [OF inv 2(1)] 1(2) 2(2) by (blast intro: evolves_trans)
  ultimately show ?thesis by (simp add: armed_def)
qed

lemma keeps_persisted:
  assumes "triple exits_inv (on_store m :: ('z world_scheme, unit) act) (\<lambda>_. armed r) (\<lambda>_. exits_inv)"
  shows "keeps (exits_inv :: 'z world_scheme \<Rightarrow> bool) (act_bind (on_store m) (\<lambda>_. place_and_confirm v x r s confirm))"
  unfolding keeps_triple by (rule triple_bind [OF assms triple_place_and_confirm])

lemmas persist_rows = persist_protection_intent_def persist_protection_intent_rows_def persist_take_profit_intent_def
  persist_take_profit_intent_rows_def persist_replacement_stop_intent_def persist_replacement_stop_intent_rows_def commit_def

lemma triple_persist:
  assumes "covers s r"
  shows "triple exits_inv (on_store (persist_protection_intent r s t)) (\<lambda>_. armed r) (\<lambda>_. exits_inv)"
    "triple exits_inv (on_store (persist_take_profit_intent k r s t)) (\<lambda>_. armed r) (\<lambda>_. exits_inv)"
    "triple exits_inv (on_store (persist_replacement_stop_intent k r s t)) (\<lambda>_. armed r) (\<lambda>_. exits_inv)"
  unfolding persist_rows
  by (rule triple_transact; auto intro: armed_after [OF _ _ _ assms])+

section \<open>The methods\<close>

lemma stop_request_same: "mk_place_order_request r = Inr r' \<Longrightarrow> r' = r"
  by (auto simp: mk_place_order_request_def own_order_link_id_def)

lemma stop_intent_covers:
  "for_stop_intent e l p now = Inr s \<Longrightarrow> covers s (stop_request l (es_filled_quantity e) p)"
  "replace_stop_intent s0 l p now = Inr s \<Longrightarrow> covers s (stop_request l (ps_open_quantity s0) p)"
  "add_take_profit_intent s0 l p now = Inr s \<Longrightarrow> covers s (take_profit_request l (ps_open_quantity s0) p)"
  by (auto simp: covers_def for_stop_intent_def replace_stop_intent_def add_take_profit_intent_def touched_def
      dest!: mk_protection_same split: option.splits)

lemma keeps_install_stop: "keeps exits_inv (install_stop v x entry_link i stop_link stop_rate)"
  unfolding install_stop_def filled_entry_def
  by (intro keeps_lift_bind keeping keeps_persisted triple_persist) (auto dest: stop_request_same stop_intent_covers)

lemma keeps_install_take_profit: "keeps exits_inv (install_take_profit v x s0 i l desired policy)"
  unfolding install_take_profit_def
  by (intro keeps_lift_bind keeping keeps_persisted triple_persist) (auto dest: stop_request_same stop_intent_covers)

lemma keeps_restore_stop: "keeps exits_inv (restore_stop v x s0 i l stop_rate)"
  unfolding restore_stop_def
  by (intro keeps_lift_bind keeping keeps_persisted triple_persist) (auto dest: stop_request_same stop_intent_covers)

lemma keeps_book_exit: "keeps exits_inv (book_exit_execution e t h)"
  unfolding book_exit_execution_def by (intro keeping)

lemma keeps_reconcile_exit: "keeps exits_inv (reconcile_after_exit x l)"
  unfolding reconcile_after_exit_def pending_exit_def cancel_exit_def settle_exit_def by (intro keeping)

section \<open>Any sequence of calls\<close>

text \<open>The worlds a client can reach: it calls the methods with any arguments in any order, and other
  components write to the store in between.\<close>

inductive exit_run :: "exit_settings \<Rightarrow> exchange \<Rightarrow> world \<Rightarrow> bool" for v x where
  Begin: "exit_run v x \<lparr>w_store = empty_database, w_calls = []\<rparr>"
| Install_Stop: "exit_run v x w \<Longrightarrow> install_stop v x entry_link i l rate w = (w', res) \<Longrightarrow> exit_run v x w'"
| Install_Take_Profit: "exit_run v x w \<Longrightarrow> install_take_profit v x s i l price policy w = (w', res) \<Longrightarrow> exit_run v x w'"
| Restore_Stop: "exit_run v x w \<Longrightarrow> restore_stop v x s i l rate w = (w', res) \<Longrightarrow> exit_run v x w'"
| Book_Exit: "exit_run v x w \<Longrightarrow> book_exit_execution e t h w = (w', res) \<Longrightarrow> exit_run v x w'"
| Reconcile_Exit: "exit_run v x w \<Longrightarrow> reconcile_after_exit x l w = (w', res) \<Longrightarrow> exit_run v x w'"
| Elsewhere: "exit_run v x w \<Longrightarrow> store_runs (w_store w) db \<Longrightarrow> exit_run v x (w\<lparr>w_store := db\<rparr>)"

lemma exit_run_inv: "exit_run v x w \<Longrightarrow> exits_inv w"
proof (induction rule: exit_run.induct)
  case Begin
  show ?case by (simp add: exits_inv_def placed_links_def)
next
  case (Elsewhere w db)
  then have "store_ok (w_store w)" by (simp add: exits_inv_def)
  with store_runs_sound [OF Elsewhere.hyps(2)] Elsewhere.IH show ?case by (simp add: exits_inv_store)
qed (blast intro: keepsD [OF keeps_install_stop] keepsD [OF keeps_install_take_profit] keepsD [OF keeps_restore_stop]
  keepsD [OF keeps_book_exit] keepsD [OF keeps_reconcile_exit])+

text \<open>C3. Protective orders only reduce, and are written ahead. Over an exchange that may answer anything, over
  any sequence of calls of the service with any arguments, and whatever other components write to the store
  in between: no client order id is placed twice, and every order placed is a reduce-only ETHUSDT buy
  whose request, together with a snapshot that names it as its stop or take profit for exactly its open
  quantity, was in the store at that moment.\<close>

theorem protective_orders_only_reduce:
  assumes "exit_run v x w"
  shows "distinct (placed_links (w_calls w))
    \<and> (\<forall>(db, r) \<in> set (placed (w_calls w)).
        po_category r = linear_category \<and> po_symbol r = ''ETHUSDT'' \<and> po_side r = Buy \<and> po_reduce_only r
        \<and> (\<exists>row. intent_of db (po_order_link_id r) = Some row \<and> in_request row = r)
        \<and> (\<exists>s \<in> set (db_protections db). po_quantity r = ps_open_quantity s
             \<and> (po_order_link_id r = ps_stop_order_link_id s \<and> po_trigger_price r = Some (ps_stop_trigger_price s)
                 \<and> po_close_on_trigger r
               \<or> Some (po_order_link_id r) = ps_tp_order_link_id s \<and> po_price r = ps_tp_price s)))"
proof -
  have inv: "distinct (placed_links (w_calls w))" "\<forall>p \<in> set (placed (w_calls w)). durable_exit p"
    using exit_run_inv [OF assms] by (simp_all add: exits_inv_def)
  have "po_category r = linear_category \<and> po_symbol r = ''ETHUSDT'' \<and> po_side r = Buy \<and> po_reduce_only r
        \<and> po_quantity r = ps_open_quantity s
        \<and> (po_order_link_id r = ps_stop_order_link_id s \<and> po_trigger_price r = Some (ps_stop_trigger_price s)
                 \<and> po_close_on_trigger r
               \<or> Some (po_order_link_id r) = ps_tp_order_link_id s \<and> po_price r = ps_tp_price s)"
    if "covers s r" for s r
    using that by (auto simp: covers_def stop_request_def take_profit_request_def)
  with inv show ?thesis unfolding durable_exit_def by fastforce
qed

section \<open>Confirmed on the exchange\<close>

text \<open>The exchange has answered a query for the order with this one; a snapshot is the stored one.\<close>

definition shown :: "exchange \<Rightarrow> string \<Rightarrow> exchange_order \<Rightarrow> 'z world_scheme \<Rightarrow> bool" where
  "shown x l d w \<longleftrightarrow> (\<exists>h. prefix h (w_calls w) \<and> x_order x h l = Inr (Some d))"

definition standing :: "protection_snapshot \<Rightarrow> 'z world_scheme \<Rightarrow> bool" where
  "standing s w \<longleftrightarrow> store_ok (w_store w) \<and> protection_of (w_store w) (ps_entry_order_link_id s) = Some s"

text \<open>What any call, and the acknowledgement of an intent, leave alone.\<close>

definition stable :: "('z world_scheme \<Rightarrow> bool) \<Rightarrow> bool" where
  "stable I \<longleftrightarrow> (\<forall>w h. prefix (w_calls w) h \<longrightarrow> I w \<longrightarrow> I (w\<lparr>w_calls := h\<rparr>)) \<and> (\<forall>a. keeps I (on_store (record_acknowledgement a)))"

lemma stable_ask: "stable I \<Longrightarrow> keeps I (ask c answer)"
  by (rule keepsI) (auto simp: stable_def ask_def Let_def)

lemma keeps_protections_acknowledged:
  "record_acknowledgement a db = (db', r) \<Longrightarrow> db_protections db' = db_protections db"
  by (auto simp: record_acknowledgement_def transact_def commit_def acknowledge_intent_def raise_if_def split: sum.splits if_splits)

lemma stable_standing: "stable (standing s)"
  unfolding stable_def
proof (intro conjI allI impI keepsI)
  fix a and w w' :: "'a world_scheme" and r assume a: "on_store (record_acknowledgement a) w = (w', r)" "standing s w"
  then obtain db where db: "record_acknowledgement a (w_store w) = (db, r)" "w' = w\<lparr>w_store := db\<rparr>"
    by (auto simp: on_store_def split: prod.splits)
  with a(2) sound_methodD [OF db(1) _ sound_methods(13)] keeps_protections_acknowledged [OF db(1)]
  show "standing s w'" by (simp add: standing_def)
qed (simp add: standing_def)

lemma stable_shown: "stable I \<Longrightarrow> stable (\<lambda>w. I w \<and> shown x l d w)"
  unfolding stable_def keeps_def shown_def
  by (intro conjI allI impI, auto simp: on_store_def split: prod.splits intro: prefix_order.trans) metis

lemma triple_get_order:
  assumes "stable I"
  shows "triple I (get_order_by_link_id x c y l) (\<lambda>found w. I w \<and> (\<forall>d. found = Some d \<longrightarrow> shown x l d w)) (\<lambda>_. I)"
  unfolding get_order_by_link_id_def
  by (rule tripleI) (use assms in \<open>auto simp: ask_def Let_def stable_def shown_def\<close>)

lemma triple_uncertain:
  "triple P f Q E \<Longrightarrow> triple P (g e) Q E \<Longrightarrow> triple P (case e of UncertainOrderOutcomeError m \<Rightarrow> f | _ \<Rightarrow> g e) Q E"
  by (cases e) simp_all

text \<open>The order that was found, if any, is one the exchange has shown.\<close>

definition found_shown :: "('z world_scheme \<Rightarrow> bool) \<Rightarrow> exchange \<Rightarrow> string \<Rightarrow> 'a \<times> exchange_order option \<Rightarrow> 'z world_scheme \<Rightarrow> bool" where
  "found_shown I x l v w \<longleftrightarrow> I w \<and> (\<forall>d. snd v = Some d \<longrightarrow> shown x l d w)"

lemma triple_discover_shown:
  assumes I: "stable I"
  shows "triple I (place_or_discover x r) (found_shown I x (po_order_link_id r)) (\<lambda>_. I)"
  unfolding place_or_discover_def
proof (rule triple_catch [where E' = "\<lambda>_. I"])
  have ask: "triple I (ask c answer) (\<lambda>_. I) (\<lambda>_. I)" for c and answer :: "history \<Rightarrow> 'b res"
    using stable_ask [OF I] by (simp add: keeps_triple)
  show "triple I (act_bind (place_order x r) (\<lambda>a. act_return (a, None)))
      (found_shown I x (po_order_link_id r)) (\<lambda>_. I)"
    unfolding place_order_def by (rule triple_bind [OF ask], rule triple_return) (simp add: found_shown_def)
  fix e
  let ?ack = "\<lambda>found. case found of None \<Rightarrow> act_raise e | Some d \<Rightarrow> act_bind (discovered_ack x d) (\<lambda>a. act_return (a, Some d))"
  have "triple (\<lambda>w. I w \<and> (\<forall>d. found = Some d \<longrightarrow> shown x (po_order_link_id r) d w)) (?ack found)
      (found_shown I x (po_order_link_id r)) (\<lambda>_. I)" for found
  proof (cases found)
    case (Some d)
    let ?J = "\<lambda>w. I w \<and> shown x (po_order_link_id r) d w"
    have "keeps ?J (discovered_ack x d)"
      unfolding discovered_ack_def clock_def by (intro keeping stable_ask stable_shown I)
    then have "triple ?J (discovered_ack x d) (\<lambda>_. ?J) (\<lambda>_. I)"
      unfolding keeps_triple by (rule triple_weaken) auto
    then have "triple ?J (act_bind (discovered_ack x d) (\<lambda>a. act_return (a, Some d)))
       (found_shown I x (po_order_link_id r)) (\<lambda>_. I)"
      by (rule triple_bind) (rule triple_return, simp add: found_shown_def)
    then show ?thesis by (simp add: Some)
  qed (simp add: triple_raise)
  from triple_bind [OF triple_get_order [OF I] this]
  have lookup: "triple I (act_bind (get_order_by_link_id x (po_category r) (po_symbol r) (po_order_link_id r)) ?ack)
      (found_shown I x (po_order_link_id r)) (\<lambda>_. I)" .
  then show "triple I (case e of UncertainOrderOutcomeError _ \<Rightarrow>
          act_bind (get_order_by_link_id x (po_category r) (po_symbol r) (po_order_link_id r)) ?ack
      | _ \<Rightarrow> act_raise e) (found_shown I x (po_order_link_id r)) (\<lambda>_. I)"
    by (rule triple_uncertain) (rule triple_raise)
qed

abbreviation confirmed_order :: "('z world_scheme \<Rightarrow> bool) \<Rightarrow> exchange \<Rightarrow> place_order_request \<Rightarrow> exchange_order \<Rightarrow> 'z world_scheme \<Rightarrow> bool" where
  "confirmed_order I x r d w \<equiv> I w \<and> shown x (po_order_link_id r) d w \<and> visible_as_requested d r"

lemma triple_validate:
  "triple (\<lambda>w. I w \<and> shown x (po_order_link_id r) d w) (act_lift (validate_visible_order d r)) (confirmed_order I x r) (\<lambda>_. I)"
  by (rule triple_lift) (auto simp: validate_visible_order_def)

lemma triple_await:
  assumes I: "stable I"
  shows "triple I (await_visible x r left) (confirmed_order I x r) (\<lambda>_. I)"
proof (induction left)
  case 0
  show ?case unfolding await_visible.simps by (rule triple_raise)
next
  case (Suc left)
  have sleep: "triple I sleep (\<lambda>_. I) (\<lambda>_. I)"
    using stable_ask [OF I] by (simp add: keeps_triple sleep_def)
  show ?case
    unfolding await_visible.simps
  proof (rule triple_bind [OF triple_get_order [OF I]])
    fix found
    show "triple (\<lambda>w. I w \<and> (\<forall>d. found = Some d \<longrightarrow> shown x (po_order_link_id r) d w))
       (case found of None \<Rightarrow> if 0 < left then act_bind sleep (\<lambda>_. await_visible x r left) else await_visible x r left
        | Some d \<Rightarrow> act_lift (validate_visible_order d r)) (confirmed_order I x r) (\<lambda>_. I)"
    proof (cases found)
      case None
      have "triple I (if 0 < left then act_bind sleep (\<lambda>_. await_visible x r left) else await_visible x r left)
          (confirmed_order I x r) (\<lambda>_. I)"
        by (intro triple_if triple_bind [OF sleep Suc] Suc)
      then show ?thesis unfolding None option.case by (rule triple_weaken) auto
    qed (auto intro: triple_validate)
  qed
qed

lemma triple_confirm_visible:
  assumes I: "stable I"
  shows "triple I (place_and_confirm_visible v x r) (confirmed_order I x r) (\<lambda>_. I)"
  unfolding place_and_confirm_visible_def
proof (rule triple_bind [OF triple_discover_shown [OF I]])
  fix p :: "order_request_ack \<times> exchange_order option"
  obtain a found where p: "p = (a, found)" by (cases p)
  have ack: "triple I (on_store (record_acknowledgement a)) (\<lambda>_. I) (\<lambda>_. I)" if "stable I" for I
    using that by (simp add: stable_def keeps_triple)
  show "triple (found_shown I x (po_order_link_id r) p) (case p of (a, discovered) \<Rightarrow>
     act_bind (on_store (record_acknowledgement a)) (\<lambda>_. case discovered of
       None \<Rightarrow> await_visible x r (nat (xs_visibility_attempts v))
     | Some d \<Rightarrow> act_lift (validate_visible_order d r))) (confirmed_order I x r) (\<lambda>_. I)"
  proof (cases found)
    case None
    then show ?thesis unfolding found_shown_def p
      by (auto intro: triple_bind [OF ack [OF I] triple_await [OF I]])
  next
    case (Some d)
    have "triple (\<lambda>w. I w \<and> shown x (po_order_link_id r) d w) (on_store (record_acknowledgement a))
        (\<lambda>_ w. I w \<and> shown x (po_order_link_id r) d w) (\<lambda>_. I)"
      by (rule triple_weaken [OF ack [OF stable_shown [OF I]]]) auto
    then show ?thesis unfolding found_shown_def p
      by (auto simp: Some intro: triple_bind [OF _ triple_validate])
  qed
qed

text \<open>Storing the successor of the stored snapshot; what speaks of the calls only is kept.\<close>

definition of_calls :: "('z world_scheme \<Rightarrow> bool) \<Rightarrow> bool" where
  "of_calls J \<longleftrightarrow> (\<forall>w db. J (w\<lparr>w_store := db\<rparr>) = J w)"

lemma triple_save_exit:
  assumes "ps_entry_order_link_id s1 = ps_entry_order_link_id s" "of_calls J"
  shows "triple (\<lambda>w. standing s w \<and> J w) (on_store (transition_protection_snapshot k s1)) (\<lambda>_ w. standing s1 w \<and> J w) (\<lambda>_. standing s)"
  unfolding transition_protection_snapshot_def
proof (rule triple_transact)
  fix w db y assume w: "standing s w \<and> J w" and t: "commit [update_protection_snapshot k s1] (w_store w) = Inr (db, y)"
  then have u: "update_protection_snapshot k s1 (w_store w) = Inr db" and ok: "store_ok (w_store w)"
    by (simp_all add: commit_def standing_def)
  then have "store_ok db" using sound_update_protection unfolding sound_statement_def by blast
  with protections.save_writes [OF ok u] w assms(2) show "standing s1 (w\<lparr>w_store := db\<rparr>) \<and> J (w\<lparr>w_store := db\<rparr>)"
    by (simp add: standing_def of_calls_def)
qed simp

definition failed_from :: "protection_snapshot \<Rightarrow> 'z world_scheme \<Rightarrow> bool" where
  "failed_from s w \<longleftrightarrow> (\<exists>s1. standing s1 w \<and> ps_entry_order_link_id s1 = ps_entry_order_link_id s \<and> (s1 = s \<or> ps_state s1 = RECONCILING))"

lemma failed_standing: "standing s w \<Longrightarrow> failed_from s w"
  by (auto simp: failed_from_def)

lemma reconciling_facts:
  "mark_protection_reconciling s now = Inr s1 \<Longrightarrow> ps_state s1 = RECONCILING \<and> ps_entry_order_link_id s1 = ps_entry_order_link_id s
     \<and> (ps_state s = RECONCILING \<longrightarrow> s1 = s)"
  by (auto simp: mark_protection_reconciling_def touched_def dest!: mk_protection_same split: if_splits)

abbreviation set_aside :: "protection_snapshot \<Rightarrow> protection_snapshot \<Rightarrow> 'z world_scheme \<Rightarrow> bool" where
  "set_aside s s1 w \<equiv> standing s1 w \<and> ps_state s1 = RECONCILING \<and> ps_entry_order_link_id s1 = ps_entry_order_link_id s"

lemma triple_standing_clock: "triple (standing s) (clock x) (\<lambda>_. standing s) (\<lambda>_. standing s)"
  using stable_ask [OF stable_standing] by (simp add: clock_def keeps_triple)

lemma triple_set_reconciling: "triple (standing s) (set_reconciling x s) (set_aside s) (\<lambda>_. standing s)"
  unfolding set_reconciling_def
proof (rule triple_bind [OF triple_standing_clock],
    rule triple_bind [where R = "\<lambda>s1 w. standing s w \<and> mark_protection_reconciling s now = Inr s1" for now], rule triple_lift)
  fix now s1
  show "triple (\<lambda>w. standing s w \<and> mark_protection_reconciling s now = Inr s1) (if ps_state s = RECONCILING then act_return s1
     else act_bind (on_store (transition_protection_snapshot (ps_version s) s1)) (\<lambda>_. act_return s1)) (set_aside s) (\<lambda>_. standing s)"
  proof (rule triple_pre [where b = "mark_protection_reconciling s now = Inr s1"], blast, rule triple_if)
    assume m: "mark_protection_reconciling s now = Inr s1" and st: "ps_state s = RECONCILING"
    show "triple (\<lambda>w. standing s w \<and> mark_protection_reconciling s now = Inr s1) (act_return s1) (set_aside s) (\<lambda>_. standing s)"
      by (rule triple_return) (use reconciling_facts [OF m] st in auto)
  next
    assume m: "mark_protection_reconciling s now = Inr s1"
    have "triple (\<lambda>w. standing s w \<and> mark_protection_reconciling s now = Inr s1)
        (on_store (transition_protection_snapshot (ps_version s) s1)) (\<lambda>_ w. standing s1 w \<and> True) (\<lambda>_. standing s)"
      by (rule triple_weaken [OF triple_save_exit [where J = "\<lambda>_. True"]]) (use reconciling_facts [OF m] in \<open>auto simp: of_calls_def\<close>)
    then show "triple (\<lambda>w. standing s w \<and> mark_protection_reconciling s now = Inr s1)
        (act_bind (on_store (transition_protection_snapshot (ps_version s) s1)) (\<lambda>_. act_return s1)) (set_aside s) (\<lambda>_. standing s)"
      by (rule triple_bind) (rule triple_return, use reconciling_facts [OF m] in auto)
  qed
qed auto

text \<open>The snapshot is confirmed by an order the exchange has shown, or left as it was, or reconciling.\<close>

definition confirmed_by ::
    "exchange \<Rightarrow> place_order_request \<Rightarrow> (string \<Rightarrow> datetime \<Rightarrow> protection_snapshot res) \<Rightarrow> protection_snapshot \<Rightarrow> 'z world_scheme \<Rightarrow> bool" where
  "confirmed_by x r confirm s1 w \<longleftrightarrow> (\<exists>d now. shown x (po_order_link_id r) d w \<and> visible_as_requested d r
     \<and> confirm (eo_order_id d) now = Inr s1)"

lemma of_calls_shown: "of_calls (shown x l d)"
  by (simp add: of_calls_def shown_def)

lemma triple_lift_bind:
  "(\<And>y. r = Inr y \<Longrightarrow> triple P (f y) Q E) \<Longrightarrow> (\<And>e w. r = Inl e \<Longrightarrow> P w \<Longrightarrow> E e w) \<Longrightarrow> triple P (act_bind (act_lift r) f) Q E"
  by (cases r) (auto simp: triple_def act_bind_def act_lift_def)

lemma triple_confirmed:
  assumes same: "\<And>i now s1. confirm i now = Inr s1 \<Longrightarrow> ps_entry_order_link_id s1 = ps_entry_order_link_id s"
  shows "triple (standing s) (place_and_confirm v x r s confirm)
    (\<lambda>s1 w. standing s1 w \<and> confirmed_by x r confirm s1 w) (\<lambda>_. failed_from s)"
  unfolding place_and_confirm_def
proof (rule triple_bind [where R = "confirmed_order (standing s) x r"])
  have "triple (standing s) (act_bind (set_reconciling x s) (\<lambda>_. act_raise e)) (confirmed_order (standing s) x r) (\<lambda>_. failed_from s)" for e
    by (rule triple_bind [where R = "set_aside s"], rule triple_weaken [OF triple_set_reconciling])
      (assumption, assumption, rule failed_standing, assumption, rule triple_raise, unfold failed_from_def, blast)
  then show "triple (standing s) (act_catch (place_and_confirm_visible v x r)
       (on_exception (\<lambda>e. act_bind (set_reconciling x s) (\<lambda>_. act_raise e)))) (confirmed_order (standing s) x r) (\<lambda>_. failed_from s)"
    by (intro triple_catch [OF triple_confirm_visible [OF stable_standing]] triple_on_exception) (auto intro: failed_standing)
  fix d
  let ?J = "\<lambda>w. standing s w \<and> shown x (po_order_link_id r) d w"
  have now: "triple ?J (clock x) (\<lambda>_. ?J) (\<lambda>_. failed_from s)"
    by (rule triple_weaken [where P' = ?J and Q' = "\<lambda>_. ?J" and E' = "\<lambda>_. ?J"])
      (use stable_ask [OF stable_shown [OF stable_standing]] in \<open>auto simp: clock_def keeps_triple intro: failed_standing\<close>)
  have saved: "triple ?J (act_bind (on_store (transition_protection_snapshot (ps_version s) s1)) (\<lambda>_. act_return s1))
      (\<lambda>s1 w. standing s1 w \<and> confirmed_by x r confirm s1 w) (\<lambda>_. failed_from s)"
    if "visible_as_requested d r" "confirm (eo_order_id d) now = Inr s1" for now s1
  proof (rule triple_bind)
    show "triple ?J (on_store (transition_protection_snapshot (ps_version s) s1))
        (\<lambda>_ w. standing s1 w \<and> shown x (po_order_link_id r) d w) (\<lambda>_. failed_from s)"
      by (rule triple_weaken [OF triple_save_exit [OF same [OF that(2)] of_calls_shown]]) (auto intro: failed_standing)
    show "triple (\<lambda>w. standing s1 w \<and> shown x (po_order_link_id r) d w) (act_return s1)
        (\<lambda>s1 w. standing s1 w \<and> confirmed_by x r confirm s1 w) (\<lambda>_. failed_from s)"
      by (rule triple_return) (use that in \<open>auto simp: confirmed_by_def\<close>)
  qed
  show "triple (confirmed_order (standing s) x r d) (act_bind (clock x) (\<lambda>now. act_bind (act_lift (confirm (eo_order_id d) now)) (\<lambda>s1.
     act_bind (on_store (transition_protection_snapshot (ps_version s) s1)) (\<lambda>_. act_return s1))))
     (\<lambda>s1 w. standing s1 w \<and> confirmed_by x r confirm s1 w) (\<lambda>_. failed_from s)"
  proof (rule triple_pre [where b = "visible_as_requested d r"], blast)
    assume vis: "visible_as_requested d r"
    have "triple ?J (act_bind (act_lift (confirm (eo_order_id d) now)) (\<lambda>s1.
        act_bind (on_store (transition_protection_snapshot (ps_version s) s1)) (\<lambda>_. act_return s1)))
        (\<lambda>s1 w. standing s1 w \<and> confirmed_by x r confirm s1 w) (\<lambda>_. failed_from s)" for now
      by (rule triple_lift_bind [OF saved [OF vis]]) (auto intro: failed_standing)
    then show "triple (confirmed_order (standing s) x r d) (act_bind (clock x) (\<lambda>now. act_bind (act_lift (confirm (eo_order_id d) now)) (\<lambda>s1.
     act_bind (on_store (transition_protection_snapshot (ps_version s) s1)) (\<lambda>_. act_return s1))))
     (\<lambda>s1 w. standing s1 w \<and> confirmed_by x r confirm s1 w) (\<lambda>_. failed_from s)"
      by (intro triple_weaken [OF triple_bind [OF now]]) auto
  qed
qed

text \<open>The outcome of hosting a stop for the hedge \<open>link\<close>: on return the stored snapshot is the one
  returned, protected by an order the exchange has shown; after an exception it is what it was, or not
  recorded as protected.\<close>

definition stop_hosted :: "exchange \<Rightarrow> string \<Rightarrow> string \<Rightarrow> protection_snapshot \<Rightarrow> 'z world_scheme \<Rightarrow> bool" where
  "stop_hosted x link stop_link s w \<longleftrightarrow> ps_state s = ACTIVE_PROTECTED \<and> protection_of (w_store w) link = Some s
     \<and> ps_stop_order_link_id s = stop_link
     \<and> (\<exists>d. shown x stop_link d w \<and> ps_stop_order_id s = Some (eo_order_id d)
          \<and> visible_as_requested d (stop_request stop_link (ps_open_quantity s) (ps_stop_trigger_price s)))"

definition not_protected :: "string \<Rightarrow> protection_snapshot option \<Rightarrow> py_exn \<Rightarrow> 'z world_scheme \<Rightarrow> bool" where
  "not_protected link old e w \<longleftrightarrow> protection_of (w_store w) link = old
     \<or> (\<exists>s. protection_of (w_store w) link = Some s \<and> ps_state s \<in> {ACTIVE_UNPROTECTED, RECONCILING})"

abbreviation hosting :: "exchange \<Rightarrow> string \<Rightarrow> string \<Rightarrow> protection_snapshot option \<Rightarrow> ('z world_scheme, protection_snapshot) act \<Rightarrow> bool" where
  "hosting x link stop_link old m \<equiv> triple (\<lambda>w. store_ok (w_store w) \<and> protection_of (w_store w) link = old) m
     (stop_hosted x link stop_link)
     (not_protected link old)"

lemma confirm_stop_facts:
  assumes "confirm_stop s i now = Inr s1"
  shows "ps_state s1 = ACTIVE_PROTECTED" "ps_stop_order_id s1 = Some i" "ps_entry_order_link_id s1 = ps_entry_order_link_id s"
    "ps_stop_order_link_id s1 = ps_stop_order_link_id s" "ps_open_quantity s1 = ps_open_quantity s"
    "ps_stop_trigger_price s1 = ps_stop_trigger_price s"
  using assms by (auto simp: confirm_stop_def touched_def dest!: mk_protection_same)

text \<open>The intent of a stop that is not confirmed yet.\<close>

definition stop_intent :: "string \<Rightarrow> string \<Rightarrow> place_order_request \<Rightarrow> protection_snapshot \<Rightarrow> bool" where
  "stop_intent link stop_link r s \<longleftrightarrow> ps_entry_order_link_id s = link \<and> ps_stop_order_link_id s = stop_link
     \<and> ps_state s = ACTIVE_UNPROTECTED \<and> r = stop_request stop_link (ps_open_quantity s) (ps_stop_trigger_price s)"

lemma hosting_confirm:
  assumes s: "stop_intent link stop_link r s"
  shows "triple (standing s) (place_and_confirm v x r s (confirm_stop s))
     (stop_hosted x link stop_link)
     (not_protected link old)"
proof (rule triple_weaken [OF triple_confirmed [OF confirm_stop_facts(3)]])
  fix s1 w assume c: "standing s1 w \<and> confirmed_by x r (confirm_stop s) s1 w"
  then obtain d now where d: "shown x (po_order_link_id r) d w" "visible_as_requested d r" "confirm_stop s (eo_order_id d) now = Inr s1"
    by (auto simp: confirmed_by_def)
  have "po_order_link_id r = stop_link" using s by (simp add: stop_intent_def stop_request_def)
  with s c d confirm_stop_facts [OF d(3)]
  show "stop_hosted x link stop_link s1 w"
    by (auto simp: stop_hosted_def stop_intent_def standing_def)
qed (use s in \<open>auto simp: not_protected_def failed_from_def stop_intent_def standing_def\<close>)

lemma persisted_standing:
  assumes "store_ok (w_store w)"
  shows "persist_protection_intent r s t (w_store w) = (db, Inr u) \<Longrightarrow> standing s (w\<lparr>w_store := db\<rparr>)"
    "persist_replacement_stop_intent k r s t (w_store w) = (db, Inr u) \<Longrightarrow> standing s (w\<lparr>w_store := db\<rparr>)"
proof -
  have 1: "store_ok db1" if "insert_order_intent r t (w_store w) = Inr db1" for db1
    using that assms sound_insert_intent unfolding sound_statement_def by blast
  show "standing s (w\<lparr>w_store := db\<rparr>)" if p: "persist_protection_intent r s t (w_store w) = (db, Inr u)"
    using p sound_methodD [OF p assms sound_methods(5)] 1
    by (auto simp: persist_rows standing_def protections.add_then_lookup)
  show "standing s (w\<lparr>w_store := db\<rparr>)" if p: "persist_replacement_stop_intent k r s t (w_store w) = (db, Inr u)"
    using p sound_methodD [OF p assms sound_methods(7)] 1 protections.save_writes
    by (auto simp: persist_rows standing_def)
qed

lemma hosting_persisted:
  assumes s: "stop_intent link stop_link r s" and m: "m = persist_protection_intent r s t \<or> m = persist_replacement_stop_intent k r s t"
  shows "hosting x link stop_link old (act_bind (on_store m :: ('z world_scheme, unit) act) (\<lambda>_. place_and_confirm v x r s (confirm_stop s)))"
proof (rule triple_bind [OF _ hosting_confirm [OF s]])
  show "triple (\<lambda>w. store_ok (w_store w) \<and> protection_of (w_store w) link = old)
      (on_store m :: ('z world_scheme, unit) act) (\<lambda>_. standing s)
      (not_protected link old)"
  proof (rule tripleI)
    fix w w' :: "'z world_scheme" and u
    assume w: "store_ok (w_store w) \<and> protection_of (w_store w) link = old" and r: "on_store m w = (w', Inr u)"
    then obtain db where db: "m (w_store w) = (db, Inr u)" "w' = w\<lparr>w_store := db\<rparr>"
      by (auto simp: on_store_def split: prod.splits)
    with w m persisted_standing show "standing s w'" by blast
  next
    fix w w' :: "'z world_scheme" and e
    assume w: "store_ok (w_store w) \<and> protection_of (w_store w) link = old" and "on_store m w = (w', Inl e)"
    then have "w' = w" using m
      by (auto simp: on_store_def persist_protection_intent_def persist_replacement_stop_intent_def split: prod.splits)
    with w show "not_protected link old e w'" by (simp add: not_protected_def)
  qed
qed

lemma missing_cases: "missing msg v = (case v of None \<Rightarrow> act_raise (ValueError msg) | Some y \<Rightarrow> act_return y)"
  by (simp add: missing_def)

lemma hosting_quiet:
  assumes "\<And>w w' r. m w = (w', r) \<Longrightarrow> w_store w' = w_store w" "\<And>y. hosting x link stop_link old (f y)"
  shows "hosting x link stop_link old (act_bind m f)"
proof (rule triple_bind [where R = "\<lambda>_ w. store_ok (w_store w) \<and> protection_of (w_store w) link = old"])
  show "triple (\<lambda>w. store_ok (w_store w) \<and> protection_of (w_store w) link = old) m
      (\<lambda>_ w. store_ok (w_store w) \<and> protection_of (w_store w) link = old) (not_protected link old)"
    by (rule tripleI) (auto simp: not_protected_def dest!: assms(1))
qed (rule assms(2))

lemma hosting_lift:
  "(\<And>y. r = Inr y \<Longrightarrow> hosting x link stop_link old (f y)) \<Longrightarrow> hosting x link stop_link old (act_bind (act_lift r) f)"
  by (rule triple_lift_bind) (auto simp: not_protected_def)

lemma clock_quiet: "clock x w = (w', r) \<Longrightarrow> w_store w' = w_store w"
  by (auto simp: clock_def ask_def Let_def)

lemma filled_entry_facts:
  assumes "filled_entry link w = (w', r)"
  shows "w' = w" "r = Inr (e, a) \<Longrightarrow> es_order_link_id e = link"
  using assms by (auto simp: filled_entry_def act_bind_def load_entry_snapshot_def on_store_query missing_def fetch_one_Inr
      dest!: mk_entry_snapshot_same find_row_SomeD split: option.splits sum.splits)

lemma stop_intents:
  "for_stop_intent e l p now = Inr s \<Longrightarrow> stop_intent (es_order_link_id e) l (stop_request l (es_filled_quantity e) p) s"
  "replace_stop_intent s0 l p now = Inr s \<Longrightarrow> stop_intent (ps_entry_order_link_id s0) l (stop_request l (ps_open_quantity s0) p) s"
  by (auto simp: stop_intent_def for_stop_intent_def replace_stop_intent_def touched_def
      dest!: mk_protection_same split: option.splits)

lemma hosting_restore: "hosting x (ps_entry_order_link_id s0) l old (restore_stop v x s0 i l rate)"
  unfolding restore_stop_def
  by (intro hosting_lift hosting_quiet [OF clock_quiet] hosting_persisted) (auto dest: stop_request_same stop_intents)

lemma hosting_install: "hosting x link l old (install_stop v x link i l rate)"
  unfolding install_stop_def
proof (intro hosting_lift)
  let ?f = "\<lambda>(entry, average). act_bind (act_lift (stop_trigger i average rate)) (\<lambda>trigger.
     act_bind (act_lift (mk_place_order_request (stop_request l (es_filled_quantity entry) trigger))) (\<lambda>r.
     act_bind (clock x) (\<lambda>now.
     act_bind (act_lift (for_stop_intent entry l trigger now)) (\<lambda>s.
     act_bind (on_store (persist_protection_intent r s (ps_updated_at s))) (\<lambda>_.
     place_and_confirm v x r s (confirm_stop s))))))"
  let ?P = "\<lambda>w. store_ok (w_store w) \<and> protection_of (w_store w) link = old"
  show "hosting x link l old (act_bind (filled_entry link) ?f)"
  proof (rule triple_bind [where R = "\<lambda>p w. ?P w \<and> es_order_link_id (fst p) = link"])
    show "triple ?P (filled_entry link) (\<lambda>p w. ?P w \<and> es_order_link_id (fst p) = link) (not_protected link old)"
      by (rule tripleI) (auto simp: not_protected_def dest: filled_entry_facts)
    fix p
    show "triple (\<lambda>w. ?P w \<and> es_order_link_id (fst p) = link) (?f p) (stop_hosted x link l) (not_protected link old)"
    proof (rule triple_pre [where b = "es_order_link_id (fst p) = link"], blast)
      assume "es_order_link_id (fst p) = link"
      then have "hosting x link l old (?f p)"
        unfolding case_prod_beta
        by (intro hosting_lift hosting_quiet [OF clock_quiet] hosting_persisted) (auto dest: stop_request_same stop_intents)
      then show "triple (\<lambda>w. ?P w \<and> es_order_link_id (fst p) = link) (?f p) (stop_hosted x link l) (not_protected link old)"
        by (rule triple_weaken) auto
    qed
  qed
qed

text \<open>C4. A stop counts only once the exchange has shown it. When \<open>install_stop\<close> or \<open>restore_stop\<close> returns, the
  snapshot it returns is the stored one, is \<open>ACTIVE_PROTECTED\<close>, and carries the id of an order which the
  exchange has reported with exactly the requested side, quantity, trigger and flags for the snapshot's
  open quantity; when it raises, the protection of the hedge is what it was before, or is stored as
  \<open>ACTIVE_UNPROTECTED\<close> or \<open>RECONCILING\<close>.\<close>

theorem stop_confirmed:
  assumes "store_ok (w_store w)"
    and "m = install_stop v x link i l rate \<or> m = restore_stop v x s0 i l rate \<and> link = ps_entry_order_link_id s0"
    and "m w = (w', out)"
  shows "case out of
      Inr s \<Rightarrow> ps_state s = ACTIVE_PROTECTED \<and> protection_of (w_store w') link = Some s \<and> ps_stop_order_link_id s = l
        \<and> (\<exists>d. shown x l d w' \<and> ps_stop_order_id s = Some (eo_order_id d)
             \<and> visible_as_requested d (stop_request l (ps_open_quantity s) (ps_stop_trigger_price s)))
    | Inl e \<Rightarrow> protection_of (w_store w') link = protection_of (w_store w) link
        \<or> (\<exists>s. protection_of (w_store w') link = Some s \<and> ps_state s \<in> {ACTIVE_UNPROTECTED, RECONCILING})"
proof -
  have h: "hosting x link l (protection_of (w_store w) link) m"
    using assms(2) hosting_install hosting_restore by blast
  show ?thesis
  proof (cases out)
    case (Inl e)
    have "not_protected link (protection_of (w_store w) link) e w'"
      by (rule triple_Inl [OF h]) (use assms(1,3) Inl in simp_all)
    then show ?thesis unfolding Inl sum.case not_protected_def .
  next
    case (Inr s)
    have "stop_hosted x link l s w'"
      by (rule triple_Inr [OF h]) (use assms(1,3) Inr in simp_all)
    then show ?thesis unfolding Inr sum.case stop_hosted_def .
  qed
qed

section \<open>Closed on the exchange\<close>

text \<open>What the exchange has answered about open orders and positions, after the calls \<open>h0\<close>.\<close>

definition listed :: "exchange \<Rightarrow> exchange_order list \<Rightarrow> 'z world_scheme \<Rightarrow> bool" where
  "listed x orders w \<longleftrightarrow> (\<exists>h. prefix h (w_calls w) \<and> x_open_orders x h = Inr orders)"

definition reported :: "exchange \<Rightarrow> exchange_position list \<Rightarrow> 'z world_scheme \<Rightarrow> bool" where
  "reported x positions w \<longleftrightarrow> (\<exists>h. prefix h (w_calls w) \<and> x_positions x h = Inr positions)"

definition reading :: "database \<Rightarrow> 'z world_scheme \<Rightarrow> bool" where
  "reading db w \<longleftrightarrow> w_store w = db \<and> store_ok db"

lemma keeps_reading_ask [keeping]: "keeps (reading db) (ask c answer)"
  by (rule keepsI) (auto simp: ask_def Let_def reading_def)

lemma reading_ports [keeping]:
  "keeps (reading db) (clock x)" "keeps (reading db) (get_open_orders x c y)" "keeps (reading db) (cancel_order x k)"
  by (simp_all add: port_calls keeps_reading_ask)

lemma triple_listed:
  "triple (reading db) (get_open_orders x c y) (\<lambda>orders w. reading db w \<and> listed x orders w) (\<lambda>_ _. True)"
  unfolding get_open_orders_def by (rule tripleI) (auto simp: ask_def Let_def reading_def listed_def)

lemma triple_reported:
  "triple (\<lambda>w. reading db w \<and> listed x orders w) (get_positions x c y)
     (\<lambda>positions w. reading db w \<and> listed x orders w \<and> reported x positions w) (\<lambda>_ _. True)"
  unfolding get_positions_def
  by (rule tripleI) (auto simp: ask_def Let_def reading_def listed_def reported_def intro: prefix_order.trans)

lemma triple_pending:
  "triple (reading db) (pending_exit link) (\<lambda>s w. reading db w \<and> protection_of db link = Some s \<and> ps_entry_order_link_id s = link
     \<and> ps_state s = CANCEL_PENDING) (\<lambda>_ _. True)"
  unfolding pending_exit_def load_protection_snapshot_def
  by (rule tripleI) (auto simp: act_bind_def on_store_query reading_def missing_def fetch_one_Inr
      dest!: mk_protection_same find_row_SomeD split: option.splits sum.splits if_splits)

text \<open>What a closed snapshot rests on.\<close>

definition closed_on_exchange :: "exchange \<Rightarrow> database \<Rightarrow> protection_snapshot \<Rightarrow> protection_snapshot \<Rightarrow> 'z world_scheme \<Rightarrow> bool" where
  "closed_on_exchange x db s0 s w \<longleftrightarrow> ps_pending_terminal_state s0 = Some (ps_state s)
     \<and> (\<exists>orders positions all_snapshots. listed x orders w \<and> \<not> unexplained_exit s0 orders
          \<and> reported x positions w \<and> snd (load_all_protection_snapshots db) = Inr all_snapshots
          \<and> aggregate_protection_position_matches all_snapshots positions)"

definition settled :: "exchange \<Rightarrow> database \<Rightarrow> protection_snapshot \<Rightarrow> protection_snapshot \<Rightarrow> 'z world_scheme \<Rightarrow> bool" where
  "settled x db s0 s w \<longleftrightarrow> protection_of (w_store w) (ps_entry_order_link_id s0) = Some s
     \<and> (ps_state s = RECONCILING \<or> closed_on_exchange x db s0 s w)"

lemma confirm_exit_facts:
  "confirm_exit_reconciliation s now = Inr s1 \<Longrightarrow>
     ps_pending_terminal_state s = Some (ps_state s1) \<and> ps_entry_order_link_id s1 = ps_entry_order_link_id s"
  by (auto simp: confirm_exit_reconciliation_def touched_def dest!: mk_protection_same split: option.splits)

lemma of_calls_facts: "of_calls (\<lambda>w. listed x orders w \<and> reported x positions w)"
  by (simp add: of_calls_def listed_def reported_def)

lemma triple_closing:
  fixes x :: exchange
  assumes c: "\<not> unexplained_exit s orders" "snd (load_all_protection_snapshots db) = Inr snaps"
    "aggregate_protection_position_matches snaps positions" and s1: "confirm_exit_reconciliation s now = Inr s1"
  shows "triple (\<lambda>w. standing s w \<and> listed x orders w \<and> reported x positions w)
    (act_bind (on_store (transition_protection_snapshot (ps_version s) s1)) (\<lambda>_. act_return s1)) (settled x db s) (\<lambda>_ _. True)"
proof (rule triple_bind)
  show "triple (\<lambda>w. standing s w \<and> listed x orders w \<and> reported x positions w)
      (on_store (transition_protection_snapshot (ps_version s) s1))
      (\<lambda>_ w. standing s1 w \<and> listed x orders w \<and> reported x positions w) (\<lambda>_ _. True)"
    by (rule triple_weaken [OF triple_save_exit [OF _ of_calls_facts]]) (use confirm_exit_facts [OF s1] in auto)
  show "triple (\<lambda>w. standing s1 w \<and> listed x orders w \<and> reported x positions w) (act_return s1) (settled x db s) (\<lambda>_ _. True)"
    by (rule triple_return)
      (use c confirm_exit_facts [OF s1] in \<open>auto simp: settled_def closed_on_exchange_def standing_def\<close>)
qed

lemma triple_facts_clock:
  "triple (\<lambda>w. standing s w \<and> listed x orders w \<and> reported x positions w) (clock x)
     (\<lambda>_ w. standing s w \<and> listed x orders w \<and> reported x positions w) (\<lambda>_ _. True)"
  unfolding clock_def
  by (rule triple_ask) (auto simp: standing_def listed_def reported_def intro: prefix_order.trans)

lemma triple_settle:
  assumes "ps_entry_order_link_id s = link"
  shows "triple (\<lambda>w. (reading db w \<and> listed x orders w \<and> reported x positions w) \<and> protection_of db link = Some s)
     (settle_exit x s orders positions) (settled x db s) (\<lambda>_ _. True)"
  unfolding settle_exit_def
proof (rule triple_bind [where R = "\<lambda>snaps w. (standing s w \<and> listed x orders w \<and> reported x positions w)
      \<and> snd (load_all_protection_snapshots db) = Inr snaps"])
  show "triple (\<lambda>w. (reading db w \<and> listed x orders w \<and> reported x positions w) \<and> protection_of db link = Some s)
     (on_store load_all_protection_snapshots) (\<lambda>snaps w. (standing s w \<and> listed x orders w \<and> reported x positions w)
      \<and> snd (load_all_protection_snapshots db) = Inr snaps) (\<lambda>_ _. True)"
    using assms by (auto simp: triple_def load_all_protection_snapshots_def on_store_query reading_def standing_def act_query_def
        split: sum.splits)
  fix snaps
  let ?P = "\<lambda>w. standing s w \<and> listed x orders w \<and> reported x positions w"
  show "triple (\<lambda>w. ?P w \<and> snd (load_all_protection_snapshots db) = Inr snaps)
     (if unexplained_exit s orders \<or> \<not> aggregate_protection_position_matches snaps positions then set_reconciling x s
      else act_bind (clock x) (\<lambda>now. act_bind (act_lift (confirm_exit_reconciliation s now)) (\<lambda>closed.
        act_bind (on_store (transition_protection_snapshot (ps_version s) closed)) (\<lambda>_. act_return closed))))
     (settled x db s) (\<lambda>_ _. True)"
  proof (rule triple_pre [where b = "snd (load_all_protection_snapshots db) = Inr snaps"], blast, rule triple_if)
    show "triple (\<lambda>w. ?P w \<and> snd (load_all_protection_snapshots db) = Inr snaps) (set_reconciling x s) (settled x db s) (\<lambda>_ _. True)"
      by (rule triple_weaken [OF triple_set_reconciling]) (auto simp: settled_def standing_def)
    assume c: "snd (load_all_protection_snapshots db) = Inr snaps"
      "\<not> (unexplained_exit s orders \<or> \<not> aggregate_protection_position_matches snaps positions)"
    have "triple ?P (act_bind (act_lift (confirm_exit_reconciliation s now)) (\<lambda>closed.
        act_bind (on_store (transition_protection_snapshot (ps_version s) closed)) (\<lambda>_. act_return closed)))
       (settled x db s) (\<lambda>_ _. True)" for now
      by (rule triple_lift_bind [OF triple_closing]) (use c in auto)
    then show "triple (\<lambda>w. ?P w \<and> snd (load_all_protection_snapshots db) = Inr snaps) (act_bind (clock x) (\<lambda>now.
        act_bind (act_lift (confirm_exit_reconciliation s now)) (\<lambda>closed.
        act_bind (on_store (transition_protection_snapshot (ps_version s) closed)) (\<lambda>_. act_return closed))))
       (settled x db s) (\<lambda>_ _. True)"
      by (intro triple_weaken [OF triple_bind [OF triple_facts_clock]]) auto
  qed
qed

lemma triple_reconcile_exit:
  "triple (reading db) (reconcile_after_exit x link)
     (\<lambda>s w. \<exists>s0. protection_of db link = Some s0 \<and> ps_state s0 = CANCEL_PENDING \<and> ps_entry_order_link_id s0 = link
        \<and> settled x db s0 s w) (\<lambda>_ _. True)"
  unfolding reconcile_after_exit_def
proof (rule triple_bind [OF triple_pending])
  fix s0
  let ?B = "protection_of db link = Some s0 \<and> ps_entry_order_link_id s0 = link \<and> ps_state s0 = CANCEL_PENDING"
  let ?rest = "\<lambda>_. act_bind (get_open_orders x linear_category ''ETHUSDT'') (\<lambda>remaining.
     act_bind (get_positions x linear_category ''ETHUSDT'') (\<lambda>positions. settle_exit x s0 remaining positions))"
  have keep: "triple (reading db) (act_for (cancel_exit x (exit_ids s0)) orders ()) (\<lambda>_. reading db) (\<lambda>_ _. True)" for orders
    by (rule triple_weaken [where P' = "reading db" and Q' = "\<lambda>_. reading db" and E' = "\<lambda>_. reading db"])
      (simp_all add: keeps_triple [symmetric] cancel_exit_def keeping)
  show "triple (\<lambda>w. reading db w \<and> ?B) (act_bind (get_open_orders x linear_category ''ETHUSDT'') (\<lambda>open_orders.
     act_bind (act_for (cancel_exit x (exit_ids s0)) open_orders ()) ?rest))
     (\<lambda>s w. \<exists>s0. protection_of db link = Some s0 \<and> ps_state s0 = CANCEL_PENDING \<and> ps_entry_order_link_id s0 = link
        \<and> settled x db s0 s w) (\<lambda>_ _. True)"
  proof (rule triple_pre [where b = ?B], blast)
    assume b: ?B
    have settle: "triple (\<lambda>w. reading db w \<and> listed x orders w \<and> reported x positions w) (settle_exit x s0 orders positions)
        (settled x db s0) (\<lambda>_ _. True)" for orders positions
      by (rule triple_weaken [OF triple_settle [where link = link]]) (use b in auto)
    have "triple (reading db) (act_bind (get_open_orders x linear_category ''ETHUSDT'') (\<lambda>open_orders.
        act_bind (act_for (cancel_exit x (exit_ids s0)) open_orders ()) ?rest)) (settled x db s0) (\<lambda>_ _. True)"
      by (rule triple_bind, rule triple_weaken [OF triple_listed], assumption, erule conjunct1, assumption,
          rule triple_bind [OF keep], rule triple_bind [OF triple_listed], rule triple_bind [OF triple_reported settle])
    then show "triple (\<lambda>w. reading db w \<and> ?B) (act_bind (get_open_orders x linear_category ''ETHUSDT'') (\<lambda>open_orders.
        act_bind (act_for (cancel_exit x (exit_ids s0)) open_orders ()) ?rest))
       (\<lambda>s w. \<exists>s0. protection_of db link = Some s0 \<and> ps_state s0 = CANCEL_PENDING \<and> ps_entry_order_link_id s0 = link
        \<and> settled x db s0 s w) (\<lambda>_ _. True)"
      by (rule triple_weaken) (use b in auto)
  qed
qed

text \<open>C5. A hedge counts as closed only when the exchange says so. When \<open>reconcile_after_exit\<close> returns, the
  stored snapshot was waiting for cancellation, the one returned is stored in its place, and it is either
  \<open>RECONCILING\<close>, or it has taken over the pending terminal state after the exchange has listed open orders
  none of which is an exit of the hedge, and positions that match the open quantities of all stored
  snapshots.\<close>

theorem closed_only_when_flat:
  assumes "store_ok (w_store w)" and "reconcile_after_exit x link w = (w', Inr s)"
  shows "\<exists>s0. protection_of (w_store w) link = Some s0 \<and> ps_state s0 = CANCEL_PENDING \<and> protection_of (w_store w') link = Some s
    \<and> (ps_state s = RECONCILING
       \<or> ps_pending_terminal_state s0 = Some (ps_state s)
         \<and> (\<exists>orders positions snaps. listed x orders w' \<and> \<not> unexplained_exit s0 orders \<and> reported x positions w'
              \<and> snd (load_all_protection_snapshots (w_store w)) = Inr snaps
              \<and> aggregate_protection_position_matches snaps positions))"
proof -
  have "reading (w_store w) w" using assms(1) by (simp add: reading_def)
  from triple_Inr [OF triple_reconcile_exit this assms(2)] show ?thesis
    unfolding settled_def closed_on_exchange_def by blast
qed

section \<open>An example run\<close>

definition sample_instrument :: instrument_spec where
  "sample_instrument = \<lparr>is_symbol = ''ETHUSDT'', is_category = linear_category, is_status = ''Trading'', is_base_coin = ''ETH'',
     is_quote_coin = ''USDT'', is_settle_coin = ''USDT'',
     is_price_filter = \<lparr>tick_size = 1 / 100, min_price = None, max_price = None\<rparr>,
     is_lot_size_filter = \<lparr>qty_step = 1 / 100, min_order_qty = 1 / 100, max_order_qty = 100, max_market_order_qty = None, min_notional = None\<rparr>,
     is_contract_multiplier = 1, is_delivery_time_utc = None\<rparr>"

text \<open>An exchange that shows every order placed as it was requested, with no open order and no position.\<close>

definition order_shown :: "place_order_request \<Rightarrow> exchange_order" where
  "order_shown r = \<lparr>eo_category = po_category r, eo_order_id = ''s1'', eo_order_link_id = po_order_link_id r, eo_symbol = po_symbol r,
     eo_status = ''Untriggered'', eo_side = po_side r, eo_order_type = po_order_type r, eo_price = po_price r,
     eo_quantity = po_quantity r, eo_cumulative_filled_quantity = 0, eo_average_price = None, eo_reduce_only = po_reduce_only r,
     eo_created_at = Aware 4, eo_updated_at = Aware 4, eo_trigger_price = po_trigger_price r, eo_trigger_by = po_trigger_by r,
     eo_trigger_direction = po_trigger_direction r, eo_time_in_force = Some (po_time_in_force r),
     eo_position_idx = Some (po_position_idx r), eo_close_on_trigger = po_close_on_trigger r\<rparr>"

definition showing_exchange :: exchange where
  "showing_exchange = prompt_exchange\<lparr>x_order := (\<lambda>h link.
     Inr (map_option (\<lambda>(db, r). order_shown r) (find (\<lambda>(db, r). po_order_link_id r = link) (placed h))))\<rparr>"

definition sample_settings :: exit_settings where
  "sample_settings = \<lparr>xs_visibility_attempts = 3, xs_visibility_interval_seconds = 1 / 4\<rparr>"

definition hedge_store :: database where
  "hedge_store = fst (persist_entry_intent sample_entry_request filled_sample (Aware 1) empty_database)"

definition hedge_world :: world where
  "hedge_world = \<lparr>w_store = hedge_store, w_calls = []\<rparr>"

definition protected_world :: world where
  "protected_world = fst (install_stop sample_settings showing_exchange sample_link sample_instrument sample_stop_link (1 / 100) hedge_world)"

definition sample_stop_fill :: execution_update where
  "sample_stop_fill = \<lparr>ex_execution_id = ''x1'', ex_order_id = ''s1'', ex_order_link_id = sample_stop_link,
     ex_symbol = ''ETHUSDT'', ex_side = Buy, ex_price = 3030, ex_quantity = 1, ex_fee = 1 / 10,
     ex_is_maker = Some False, ex_executed_at = Aware 5\<rparr>"

text \<open>A hedge whose stop has been filled, before the reconciliation.\<close>

definition stopped_hedge :: protection_snapshot where
  "stopped_hedge = \<lparr>ps_entry_order_link_id = sample_link, ps_state = CANCEL_PENDING, ps_entry_quantity = 1, ps_open_quantity = 0,
     ps_average_entry_price = 3000, ps_entry_fees = 0, ps_stop_order_link_id = sample_stop_link, ps_stop_order_id = Some ''s1'',
     ps_stop_trigger_price = 3030, ps_tp_order_link_id = None, ps_tp_order_id = None, ps_tp_price = None,
     ps_tp_filled_quantity = 0, ps_stop_filled_quantity = 1, ps_exit_notional = 3030, ps_exit_fees = 0,
     ps_confirmed_recovery_debt = 30, ps_pending_terminal_state = Some CLOSED_STOP, ps_version = 3, ps_updated_at = Aware 5\<rparr>"

definition stopped_store :: database where
  "stopped_store = fst (persist_protection_intent (stop_request sample_stop_link 1 3030) stopped_hedge (Aware 2) hedge_store)"

definition stopped_world :: world where
  "stopped_world = \<lparr>w_store = stopped_store, w_calls = []\<rparr>"

lemma hedge_runs: "store_runs empty_database hedge_store"
  unfolding hedge_store_def by (rule r_into_rtranclp, rule store_step.Persist_Entry, rule surjective_pairing)

lemma protected_world_run: "exit_run sample_settings showing_exchange protected_world"
proof -
  have "exit_run sample_settings showing_exchange hedge_world"
    using exit_run.Elsewhere [OF exit_run.Begin, of hedge_store] hedge_runs by (simp add: hedge_world_def)
  from exit_run.Install_Stop [OF this surjective_pairing] show ?thesis unfolding protected_world_def by blast
qed

lemma hedge_stores: "store_ok hedge_store" "store_ok (w_store stopped_world)"
proof -
  show ok: "store_ok hedge_store" using store_runs_sound [OF hedge_runs] by simp
  have "store_step hedge_store stopped_store"
    unfolding stopped_store_def by (rule store_step.Persist_Protection, rule surjective_pairing)
  with ok show "store_ok (w_store stopped_world)" using store_step_sound by (simp add: stopped_world_def)
qed

text \<open>The installation and the reconciliation, evaluated.\<close>

lemma example_run:
  "case install_stop sample_settings showing_exchange sample_link sample_instrument sample_stop_link (1 / 100) hedge_world of
     (w1, r1) \<Rightarrow> is_ok r1 \<and> map (\<lambda>(db, r). po_reduce_only r) (placed (w_calls w1)) = [True]"
  by code_simp

lemma example_close:
  "case snd (reconcile_after_exit showing_exchange sample_link stopped_world) of Inr s \<Rightarrow> ps_state s = CLOSED_STOP | _ \<Rightarrow> False"
  by code_simp

lemma example_facts:
  "is_ok (snd (install_stop sample_settings showing_exchange sample_link sample_instrument sample_stop_link (1 / 100) hedge_world))"
  "map (\<lambda>(db, r). po_reduce_only r) (placed (w_calls protected_world)) = [True]"
  "\<exists>s. snd (reconcile_after_exit showing_exchange sample_link stopped_world) = Inr s \<and> ps_state s = CLOSED_STOP"
  using example_run example_close by (auto simp: protected_world_def split: prod.splits sum.splits)

theorem protective_orders_only_reduce_witness:
  "exit_run sample_settings showing_exchange protected_world
     \<and> map (\<lambda>(db, r). po_reduce_only r) (placed (w_calls protected_world)) = [True]
     \<and> distinct (placed_links (w_calls protected_world))"
  using protected_world_run example_facts(2) protective_orders_only_reduce [OF protected_world_run] by blast

theorem stop_confirmed_witness:
  "\<exists>s. snd (install_stop sample_settings showing_exchange sample_link sample_instrument sample_stop_link (1 / 100) hedge_world) = Inr s
     \<and> ps_state s = ACTIVE_PROTECTED \<and> protection_of (w_store protected_world) sample_link = Some s"
proof -
  let ?m = "install_stop sample_settings showing_exchange sample_link sample_instrument sample_stop_link (1 / 100)"
  obtain s where s: "snd (?m hedge_world) = Inr s" using example_facts(1) by (auto simp: is_ok_iff)
  then have run: "?m hedge_world = (protected_world, Inr s)" by (simp add: protected_world_def prod_eq_iff)
  have ok: "store_ok (w_store hedge_world)" using hedge_stores(1) by (simp add: hedge_world_def)
  have "ps_state s = ACTIVE_PROTECTED \<and> protection_of (w_store protected_world) sample_link = Some s"
    using stop_confirmed [where m = ?m and w = hedge_world and w' = protected_world and out = "Inr s" and link = sample_link
        and l = sample_stop_link and x = showing_exchange, OF ok _ run] by auto
  with s show ?thesis by blast
qed

theorem closed_only_when_flat_witness:
  "\<exists>w' s. reconcile_after_exit showing_exchange sample_link stopped_world = (w', Inr s) \<and> ps_state s = CLOSED_STOP
     \<and> protection_of (w_store w') sample_link = Some s"
proof -
  obtain s where s: "snd (reconcile_after_exit showing_exchange sample_link stopped_world) = Inr s" "ps_state s = CLOSED_STOP"
    using example_facts(3) by blast
  then obtain w' where run: "reconcile_after_exit showing_exchange sample_link stopped_world = (w', Inr s)"
    by (metis surjective_pairing)
  from closed_only_when_flat [OF hedge_stores(2) run] run s(2) show ?thesis by blast
qed

end
