(* ===== verification/Option_Spread_Entry.thy ===== *)
theory Option_Spread_Entry
  imports Protective_Exits
begin

text \<open>
  \<open>application/option_spread_entry.py\<close>: the service that opens the credit spread, the protective long
  first. The methods are translated call by call over an arbitrary exchange. The hash of an execution
  (\<open>execution_hash.py\<close>, SHA-256 of a JSON text) and the text of an exception are parameters of the
  service, and the plan is any record, whether or not its constructor would accept it. Then any sequence
  of calls is shown to sell the short leg only when the store holds the executions of the long leg that
  cover it, and never to record more short than long.
\<close>

section \<open>The service\<close>

record spread_service =
  sv_fill_attempts :: int
  sv_fill_interval_seconds :: rat
  sv_payload_hash :: "execution_update \<Rightarrow> string"
  sv_text :: "py_exn \<Rightarrow> string"

definition mk_spread_service :: "spread_service \<Rightarrow> spread_service res" where
  "mk_spread_service v = check_all
    [(sv_fill_attempts v \<le> 0, ''fill attempts must be positive''),
     (sv_fill_interval_seconds v < 0, ''fill interval cannot be negative'')] (Inr v)"

record spread_plan =
  pl_cycle_id :: string
  pl_long_symbol :: string
  pl_short_symbol :: string
  pl_expiry_time_utc :: datetime
  pl_quantity :: dec
  pl_long_limit_price :: dec
  pl_short_limit_price :: dec
  pl_expected_net_credit :: dec
  pl_long_order_link_id :: string
  pl_short_order_link_id :: string

definition terminal_order_statuses :: "string list" where
  "terminal_order_statuses = [''Cancelled'', ''Deactivated'', ''Filled'', ''PartiallyFilledCanceled'', ''Rejected'']"

definition not_opened :: "string \<Rightarrow> ('s, 'a) act" where
  "not_opened msg = act_raise (OptionSpreadNotOpenedError msg)"

definition required_spread :: "string \<Rightarrow> ('z world_scheme, spread_snapshot) act" where
  "required_spread cycle_id = act_bind (on_store (load_option_spread_snapshot cycle_id)) (\<lambda>found. case found of
     None \<Rightarrow> act_raise (RuntimeError ''option spread snapshot disappeared'')
   | Some s \<Rightarrow> act_return s)"

definition mark_error :: "exchange \<Rightarrow> string \<Rightarrow> ('z world_scheme, unit) act" where
  "mark_error x cycle_id = act_bind (required_spread cycle_id) (\<lambda>current.
     act_bind (clock x) (\<lambda>now.
     act_bind (act_lift (mark_option_execution_error current now)) (\<lambda>failed.
     if os_state current = P_ERROR then act_return ()
     else on_store (transition_option_spread_snapshot (os_version current) failed))))"

text \<open>The handler of the two \<open>try\<close> blocks: the stored snapshot is marked, whatever was raised.\<close>

definition not_opened_on_error ::
    "spread_service \<Rightarrow> exchange \<Rightarrow> string \<Rightarrow> ('z world_scheme, 'a) act \<Rightarrow> ('z world_scheme, 'a) act" where
  "not_opened_on_error v x cycle_id m = act_catch m
     (on_exception (\<lambda>e. act_bind (mark_error x cycle_id) (\<lambda>_. not_opened (sv_text v e))))"

definition place_option_order :: "exchange \<Rightarrow> place_order_request \<Rightarrow> ('z world_scheme, order_request_ack) act" where
  "place_option_order x r = act_catch (place_order x r) (\<lambda>e. case e of
     UncertainOrderOutcomeError _ \<Rightarrow>
       act_bind (get_order_by_link_id x (po_category r) (po_symbol r) (po_order_link_id r)) (\<lambda>found. case found of
         None \<Rightarrow> act_raise e
       | Some d \<Rightarrow> discovered_ack x d)
   | _ \<Rightarrow> act_raise e)"

definition submit_leg :: "exchange \<Rightarrow> spread_snapshot \<Rightarrow> place_order_request \<Rightarrow> ('z world_scheme, spread_snapshot) act" where
  "submit_leg x s r = act_bind (place_option_order x r) (\<lambda>a.
     act_bind (clock x) (\<lambda>now.
     act_bind (act_lift (acknowledge_option_order s a now)) (\<lambda>s1.
     act_bind (on_store (record_option_acknowledgement_and_snapshot (os_version s) a s1)) (\<lambda>_. act_return s1))))"

text \<open>The body of the loop over the executions, and the loop.\<close>

definition book_new_execution ::
    "spread_service \<Rightarrow> exchange \<Rightarrow> execution_update \<Rightarrow> spread_snapshot \<Rightarrow> ('z world_scheme, spread_snapshot) act" where
  "book_new_execution v x e s = act_bind (clock x) (\<lambda>now.
     act_bind (act_lift (apply_option_execution s e now)) (\<lambda>updated.
     act_bind (clock x) (\<lambda>received_at.
     act_bind (on_store (record_option_execution_and_snapshot (os_version s) e received_at (sv_payload_hash v e) updated)) (\<lambda>inserted.
     if inserted then act_return updated else required_spread (os_cycle_id s)))))"

definition book_leg_execution ::
    "spread_service \<Rightarrow> exchange \<Rightarrow> execution_update \<Rightarrow> spread_snapshot \<Rightarrow> ('z world_scheme, spread_snapshot) act" where
  "book_leg_execution v x e s = act_bind (on_store (has_execution (ex_execution_id e))) (\<lambda>known.
     if known then act_return s else book_new_execution v x e s)"

definition book_leg_executions ::
    "spread_service \<Rightarrow> exchange \<Rightarrow> execution_update list \<Rightarrow> spread_snapshot \<Rightarrow> ('z world_scheme, spread_snapshot) act" where
  "book_leg_executions v x es s =
     act_for (book_leg_execution v x) (sort_key (\<lambda>e. (instant (ex_executed_at e), ex_execution_id e)) es) s"

definition leg_filled :: "place_order_request \<Rightarrow> spread_snapshot \<Rightarrow> dec" where
  "leg_filled r s = (if po_side r = Buy then os_long_filled_quantity s else os_short_filled_quantity s)"

definition finalize_leg :: "place_order_request \<Rightarrow> option_entry_policy \<Rightarrow> spread_snapshot \<Rightarrow> datetime \<Rightarrow> spread_snapshot res" where
  "finalize_leg r policy s now =
     (if po_side r = Buy then finalize_protective_long s policy now else finalize_short_premium s policy now)"

text \<open>What the order of the leg says: whether the leg is settled, and its snapshot.\<close>

definition settle_leg ::
    "exchange \<Rightarrow> place_order_request \<Rightarrow> option_entry_policy \<Rightarrow> spread_snapshot \<Rightarrow> exchange_order option
     \<Rightarrow> ('z world_scheme, bool \<times> spread_snapshot) act" where
  "settle_leg x r policy s order = (case order of
     None \<Rightarrow> act_return (False, s)
   | Some d \<Rightarrow>
       if eo_status d \<notin> set terminal_order_statuses \<or> leg_filled r s < eo_cumulative_filled_quantity d then act_return (False, s)
       else if eo_cumulative_filled_quantity d < leg_filled r s
       then act_raise (ValueError ''option order reports less fill than local state'')
       else act_bind (clock x) (\<lambda>now.
         act_bind (act_lift (finalize_leg r policy s now)) (\<lambda>finalized.
         act_bind (on_store (transition_option_spread_snapshot (os_version s) finalized)) (\<lambda>_. act_return (True, finalized)))))"

fun await_leg ::
    "spread_service \<Rightarrow> exchange \<Rightarrow> place_order_request \<Rightarrow> option_entry_policy \<Rightarrow> nat \<Rightarrow> spread_snapshot
     \<Rightarrow> ('z world_scheme, spread_snapshot) act" where
  "await_leg v x r policy 0 s = act_raise (TimeoutError (''option leg '' @ po_order_link_id r @ '' did not settle''))"
| "await_leg v x r policy (Suc left) s =
     act_bind (get_execution_history x option_category (po_symbol r) (po_order_link_id r)) (\<lambda>es.
     act_bind (book_leg_executions v x es s) (\<lambda>s1.
     act_bind (get_order_by_link_id x option_category (po_symbol r) (po_order_link_id r)) (\<lambda>order.
     act_bind (settle_leg x r policy s1 order) (\<lambda>(over, s2).
     if over then act_return s2
     else if 0 < left then act_bind sleep (\<lambda>_. await_leg v x r policy left s2)
     else await_leg v x r policy left s2))))"

definition run_leg ::
    "spread_service \<Rightarrow> exchange \<Rightarrow> place_order_request \<Rightarrow> option_entry_policy \<Rightarrow> spread_snapshot \<Rightarrow> ('z world_scheme, spread_snapshot) act" where
  "run_leg v x r policy s = not_opened_on_error v x (os_cycle_id s)
     (act_bind (submit_leg x s r) (await_leg v x r policy (nat (sv_fill_attempts v))))"

definition leg_request :: "string \<Rightarrow> order_side \<Rightarrow> dec \<Rightarrow> string \<Rightarrow> dec \<Rightarrow> place_order_request" where
  "leg_request symb side quantity link limit_price = \<lparr>po_category = option_category, po_symbol = symb, po_side = side,
     po_order_type = Limit, po_quantity = quantity, po_order_link_id = link, po_price = Some limit_price,
     po_time_in_force = IOC, po_reduce_only = False, po_trigger_price = None, po_trigger_direction = None,
     po_trigger_by = None, po_position_idx = 0, po_close_on_trigger = False\<rparr>"

definition complete_from_protective_long ::
    "spread_service \<Rightarrow> exchange \<Rightarrow> spread_snapshot \<Rightarrow> dec \<Rightarrow> string \<Rightarrow> option_entry_policy \<Rightarrow> ('z world_scheme, spread_snapshot) act" where
  "complete_from_protective_long v x s short_limit_price short_link policy =
     (if os_state s \<noteq> LONG_PROTECTION_FILLED then not_opened ''short premium requires a reconciled protective long''
      else act_bind (act_lift (mk_place_order_request
          (leg_request (os_short_symbol s) Sell (os_long_filled_quantity s) short_link short_limit_price))) (\<lambda>r.
        act_bind (clock x) (\<lambda>now.
        act_bind (act_lift (start_short_premium s r now)) (\<lambda>with_short.
        act_bind (on_store (persist_option_short_intent (os_version s) r with_short (os_updated_at with_short))) (\<lambda>_.
        act_bind (run_leg v x r policy with_short) (\<lambda>s1.
        if os_state s1 \<noteq> P_OPEN then not_opened ''short fill did not open a full spread'' else act_return s1))))))"

definition open_spread ::
    "spread_service \<Rightarrow> exchange \<Rightarrow> spread_plan \<Rightarrow> option_entry_policy \<Rightarrow> ('z world_scheme, spread_snapshot) act" where
  "open_spread v x plan policy = act_bind (act_lift (mk_place_order_request
      (leg_request (pl_long_symbol plan) Buy (pl_quantity plan) (pl_long_order_link_id plan) (pl_long_limit_price plan)))) (\<lambda>r.
     act_bind (clock x) (\<lambda>now.
     act_bind (act_lift (for_long_intent r (pl_cycle_id plan) (pl_short_symbol plan) (pl_expiry_time_utc plan)
       (pl_expected_net_credit plan) now)) (\<lambda>s.
     act_bind (on_store (persist_option_long_intent r s (os_updated_at s))) (\<lambda>_.
     act_bind (run_leg v x r policy s) (\<lambda>s1.
     if os_state s1 \<noteq> LONG_PROTECTION_FILLED then not_opened ''protective long did not fully fill''
     else complete_from_protective_long v x s1 (pl_short_limit_price plan) (pl_short_order_link_id plan) policy)))))"

definition reconcile_protective_long ::
    "spread_service \<Rightarrow> exchange \<Rightarrow> spread_snapshot \<Rightarrow> option_entry_policy \<Rightarrow> ('z world_scheme, spread_snapshot) act" where
  "reconcile_protective_long v x s policy =
     (if os_short_order_link_id s \<noteq> None \<or> os_short_order_id s \<noteq> None \<or> os_short_filled_quantity s \<noteq> 0
      then not_opened ''cannot reconcile a protective long after the short started''
      else act_bind (on_store (load_order_intent (os_long_order_link_id s))) (\<lambda>found. case found of
          None \<Rightarrow> not_opened ''protective long has no durable order intent''
        | Some r \<Rightarrow> act_bind (not_opened_on_error v x (os_cycle_id s)
              (await_leg v x r policy (nat (sv_fill_attempts v)) s)) (\<lambda>s1.
            if os_state s1 \<noteq> LONG_PROTECTION_FILLED then not_opened ''protective long did not fully fill during reconciliation''
            else act_return s1)))"

section \<open>Booked legs\<close>

text \<open>The quantity of recorded executions, added as the reducers add them.\<close>

definition quantity_of :: "execution_update list \<Rightarrow> dec" where
  "quantity_of es = foldl (\<lambda>q e. dadd q (ex_quantity e)) 0 es"

definition short_fills :: "database \<Rightarrow> spread_snapshot \<Rightarrow> execution_update list" where
  "short_fills db s = (case os_short_order_link_id s of None \<Rightarrow> [] | Some l \<Rightarrow> fills_of db l)"

definition booked_legs :: "database \<Rightarrow> spread_snapshot \<Rightarrow> bool" where
  "booked_legs db s \<longleftrightarrow> os_long_filled_quantity s = quantity_of (fills_of db (os_long_order_link_id s))
     \<and> os_short_filled_quantity s = quantity_of (short_fills db s)"

definition spread_row_ok :: "spread_snapshot \<Rightarrow> bool" where
  "spread_row_ok s \<longleftrightarrow> valid_spread_snapshot s \<and> (os_state s = LONG_PROTECTION_FILLED \<longrightarrow> os_short_order_link_id s = None)"

text \<open>The store, but for the booking of some cycles within a transaction.\<close>

definition spreads_ok_but :: "string set \<Rightarrow> database \<Rightarrow> bool" where
  "spreads_ok_but X db \<longleftrightarrow> store_ok db
     \<and> (\<forall>s \<in> set (db_spreads db). spread_row_ok s \<and> (os_cycle_id s \<notin> X \<longrightarrow> booked_legs db s))"

abbreviation spreads_ok :: "database \<Rightarrow> bool" where
  "spreads_ok \<equiv> spreads_ok_but {}"

text \<open>A snapshot some client holds: it is the stored one, or older.\<close>

definition issued :: "database \<Rightarrow> spread_snapshot \<Rightarrow> bool" where
  "issued db s \<longleftrightarrow> (\<exists>s'. spread_of db (os_cycle_id s) = Some s' \<and> (s' = s \<or> os_version s < os_version s'))"

lemma issued_later: "issued db s \<Longrightarrow> evolves db db' \<Longrightarrow> issued db' s"
  unfolding issued_def evolves_def by (blast intro: advances_newer)

lemma issued_stored:
  assumes "issued db s" "store_ok db" "update_option_spread_snapshot (os_version s) s1 db = Inr db'" "os_cycle_id s1 = os_cycle_id s"
  shows "spread_of db (os_cycle_id s) = Some s"
  using spreads.save_reads [OF assms(2,3)] assms(1,4) by (auto simp: issued_def)

lemma spreads_ok_save:
  assumes ok: "spreads_ok_but {os_cycle_id s1} db" and save: "update_option_spread_snapshot v s1 db = Inr db'"
    and s1: "spread_row_ok s1" "booked_legs db s1"
  shows "spreads_ok db'" "evolves db db'" "issued db' s1"
proof -
  have ok0: "store_ok db" using ok by (simp add: spreads_ok_but_def)
  have ok': "store_ok db'" "evolves db db'" using sound_update_spread ok0 save unfolding sound_statement_def by blast+
  show "evolves db db'" by fact
  have stored: "spread_of db' (os_cycle_id s1) = Some s1" using spreads.save_writes [OF ok0 save] by simp
  then show "issued db' s1" by (simp add: issued_def)
  have db': "db' = db\<lparr>db_spreads := write_version os_cycle_id os_version v s1 (db_spreads db)\<rparr>"
    using save by (auto simp: update_option_spread_snapshot_def update_version_Inr)
  have same: "booked_legs db' = booked_legs db"
    by (simp add: db' booked_legs_def short_fills_def fills_of_def fun_eq_iff split: option.split)
  have "spread_row_ok s \<and> booked_legs db' s" if s: "s \<in> set (db_spreads db')" for s
  proof (cases "os_cycle_id s = os_cycle_id s1")
    case True
    then have "spread_of db' (os_cycle_id s1) = Some s"
      using s find_row_iff [OF store_ok_keys(4) [OF ok'(1)]] by metis
    with stored s1 show ?thesis by (simp add: same)
  next
    case False
    then have "s \<in> set (db_spreads db)" using s by (auto simp: db' dest!: set_write_version)
    with ok False show ?thesis by (simp add: spreads_ok_but_def same)
  qed
  with ok'(1) show "spreads_ok db'" by (simp add: spreads_ok_but_def)
qed

lemma spreads_ok_weaken: "spreads_ok db \<Longrightarrow> spreads_ok_but X db"
  by (simp add: spreads_ok_but_def)

text \<open>A reducer that leaves the legs and the orders alone.\<close>

definition quiet_successor :: "spread_snapshot \<Rightarrow> spread_snapshot \<Rightarrow> bool" where
  "quiet_successor s s1 \<longleftrightarrow> os_cycle_id s1 = os_cycle_id s \<and> os_long_order_link_id s1 = os_long_order_link_id s
     \<and> os_short_order_link_id s1 = os_short_order_link_id s \<and> os_long_filled_quantity s1 = os_long_filled_quantity s
     \<and> os_short_filled_quantity s1 = os_short_filled_quantity s \<and> (spread_row_ok s \<longrightarrow> spread_row_ok s1)"

lemma stored_spread: "spreads_ok db \<Longrightarrow> spread_of db k = Some s \<Longrightarrow> s \<in> set (db_spreads db) \<and> spread_row_ok s \<and> booked_legs db s"
  by (auto simp: spreads_ok_but_def dest: find_row_SomeD)

lemma spreads_ok_quiet:
  assumes ok: "spreads_ok db" and s: "issued db s" and q: "quiet_successor s s1"
    and save: "update_option_spread_snapshot (os_version s) s1 db = Inr db'"
  shows "spreads_ok db'" "evolves db db'" "issued db' s1"
proof -
  have "spread_of db (os_cycle_id s) = Some s"
    using issued_stored [OF s _ save] ok q by (simp add: spreads_ok_but_def quiet_successor_def)
  with stored_spread [OF ok this] q have "spread_row_ok s1" "booked_legs db s1"
    by (simp_all add: quiet_successor_def booked_legs_def short_fills_def)
  from spreads_ok_save [OF spreads_ok_weaken [OF ok] save this]
  show "spreads_ok db'" "evolves db db'" "issued db' s1" .
qed

lemma spreads_ok_acknowledged:
  assumes ok: "spreads_ok db" and a: "acknowledge_intent msg a db = Inr db'"
  shows "spreads_ok db'" "evolves db db'" "spread_of db' = spread_of db"
proof -
  have db': "db' = db\<lparr>db_intents := map (acknowledge_row a) (db_intents db)\<rparr>"
    using a by (simp add: acknowledge_intent_def)
  have ok': "store_ok db'" "evolves db db'"
    using sound_acknowledge a ok unfolding sound_statement_def spreads_ok_but_def by blast+
  show "evolves db db'" "spread_of db' = spread_of db" using ok'(2) by (simp_all add: db')
  have "booked_legs db' = booked_legs db"
    by (simp add: db' booked_legs_def short_fills_def fills_of_def fun_eq_iff split: option.split)
  with ok ok'(1) show "spreads_ok db'" by (simp add: spreads_ok_but_def db')
qed

lemma quiet_reducers:
  "acknowledge_option_order s a t = Inr s1 \<Longrightarrow> quiet_successor s s1"
  "mark_option_execution_error s t = Inr s1 \<Longrightarrow> quiet_successor s s1"
  "(po_side r = Buy \<Longrightarrow> os_short_order_link_id s = None) \<Longrightarrow> finalize_leg r policy s t = Inr s1 \<Longrightarrow> quiet_successor s s1"
  by (auto simp: spread_reducers quiet_successor_def spread_row_ok_def finalize_leg_def dest!: mk_spread_same split: if_splits)

lemma no_fills:
  assumes "store_ok db" "\<not> has_intent db l"
  shows "fills_of db l = []"
proof -
  have "\<forall>x \<in> set (db_executions db). has_intent db (ex_order_link_id (xr_execution x))"
    using assms(1) unfolding store_defs by blast
  with assms(2) show ?thesis by (auto simp: fills_of_def filter_empty_conv simp del: has_intent_iff)
qed

lemma spreads_ok_intent:
  assumes ok: "spreads_ok db" and i: "insert_order_intent r t db = Inr db1"
  shows "spreads_ok db1" "evolves db db1" "spread_of db1 = spread_of db" "fills_of db1 (po_order_link_id r) = []"
    "\<not> has_intent db (po_order_link_id r)" "intent_of db1 (po_order_link_id r) = Some (\<lparr>in_request = r, in_persisted_at = t,
       in_exchange_order_id = None, in_acknowledged_at = None\<rparr>)"
proof -
  have ok0: "store_ok db" using ok by (simp add: spreads_ok_but_def)
  have 1: "store_ok db1" "evolves db db1" using sound_insert_intent ok0 i unfolding sound_statement_def by blast+
  show "evolves db db1" by fact
  show new: "\<not> has_intent db (po_order_link_id r)" using i by (auto simp: insert_order_intent_def)
  have db1: "db_spreads db1 = db_spreads db" "db_executions db1 = db_executions db" using i by (auto simp: insert_order_intent_def)
  then have same: "fills_of db1 = fills_of db" by (simp add: fills_of_def fun_eq_iff)
  then have "booked_legs db1 = booked_legs db" by (simp add: booked_legs_def short_fills_def fun_eq_iff split: option.split)
  with ok 1(1) db1 show "spreads_ok db1" by (simp add: spreads_ok_but_def)
  show "spread_of db1 = spread_of db" by (simp add: db1)
  show "fills_of db1 (po_order_link_id r) = []" using no_fills [OF ok0 new] by (simp add: same)
  from new have "intent_of db (po_order_link_id r) = None" by (simp add: find_row_None_iff)
  with i show "intent_of db1 (po_order_link_id r) = Some (\<lparr>in_request = r, in_persisted_at = t,
       in_exchange_order_id = None, in_acknowledged_at = None\<rparr>)"
    by (auto simp: insert_order_intent_def find_row_append intent_id_def)
qed

lemma quantity_of_Nil [simp]: "quantity_of [] = 0"
  by (simp add: quantity_of_def)

lemma spreads_ok_long:
  assumes ok: "spreads_ok db" and s: "for_long_intent r c y ex cr now = Inr s"
    and i: "insert_order_intent r t db = Inr db1" and j: "insert_option_spread s db1 = Inr db'"
  shows "spreads_ok db'" "evolves db db'" "spread_of db' (os_cycle_id s) = Some s" "intent_of db' = intent_of db1"
proof -
  note 1 = spreads_ok_intent [OF ok i]
  have s_facts: "os_long_order_link_id s = po_order_link_id r" "os_long_filled_quantity s = 0" "os_short_filled_quantity s = 0"
      "os_short_order_link_id s = None" "os_state s = LONG_PROTECTION_PENDING" "valid_spread_snapshot s"
    using s by (auto simp: for_long_intent_def dest!: mk_spread_same)
  have ok1: "store_ok db1" using 1(1) by (simp add: spreads_ok_but_def)
  have ok': "store_ok db'" "evolves db1 db'" using sound_insert_spread ok1 j unfolding sound_statement_def by blast+
  show "evolves db db'" using 1(2) ok'(2) by (rule evolves_trans)
  show "spread_of db' (os_cycle_id s) = Some s" by (rule spreads.add_then_lookup [OF ok1 j])
  have db': "db' = db1\<lparr>db_spreads := db_spreads db1 @ [s]\<rparr>" using j by (simp add: insert_option_spread_def)
  then show "intent_of db' = intent_of db1" by simp
  have same: "booked_legs db' = booked_legs db1"
    by (simp add: db' booked_legs_def short_fills_def fills_of_def fun_eq_iff split: option.split)
  have "booked_legs db1 s" using s_facts 1(4) by (simp add: booked_legs_def short_fills_def)
  moreover have "set (db_spreads db') = insert s (set (db_spreads db1))" by (simp add: db')
  ultimately show "spreads_ok db'" using 1(1) ok'(1) s_facts by (simp add: spreads_ok_but_def same spread_row_ok_def)
qed

lemma start_short_facts:
  assumes "start_short_premium s r now = Inr s1"
  shows "os_state s = LONG_PROTECTION_FILLED" "os_cycle_id s1 = os_cycle_id s" "os_state s1 = SHORT_PREMIUM_PENDING"
    "os_short_order_link_id s1 = Some (po_order_link_id r)" "os_long_order_link_id s1 = os_long_order_link_id s"
    "os_long_filled_quantity s1 = os_long_filled_quantity s" "os_short_filled_quantity s1 = os_short_filled_quantity s"
    "valid_spread_snapshot s1" "os_short_symbol s1 = os_short_symbol s" "po_quantity r = os_long_filled_quantity s"
    "po_category r = option_category" "po_side r = Sell" "po_symbol r = os_short_symbol s"
  using assms by (auto simp: start_short_premium_def spread_touched_def dest!: mk_spread_same)

lemma spreads_ok_short:
  assumes ok: "spreads_ok db" and s: "issued db s" "start_short_premium s r now = Inr s1"
    and i: "insert_order_intent r t db = Inr db1" and j: "update_option_spread_snapshot (os_version s) s1 db1 = Inr db'"
  shows "spreads_ok db'" "evolves db db'" "spread_of db' (os_cycle_id s) = Some s1" "intent_of db' = intent_of db1"
proof -
  note 1 = spreads_ok_intent [OF ok i]
  note f = start_short_facts [OF s(2)]
  have ok1: "store_ok db1" using 1(1) by (simp add: spreads_ok_but_def)
  have "issued db1 s" using s(1) 1(2) by (rule issued_later)
  then have st: "spread_of db1 (os_cycle_id s) = Some s" by (rule issued_stored [OF _ ok1 j f(2)])
  from stored_spread [OF 1(1) st] f(1) have "os_short_filled_quantity s = 0" "spread_row_ok s"
      "os_long_filled_quantity s = quantity_of (fills_of db1 (os_long_order_link_id s))"
    by (auto simp: booked_legs_def short_fills_def spread_row_ok_def)
  with f 1(4) have "spread_row_ok s1" "booked_legs db1 s1"
    by (simp_all add: spread_row_ok_def booked_legs_def short_fills_def)
  note saved = spreads_ok_save [OF spreads_ok_weaken [OF 1(1)] j this]
  show "spreads_ok db'" by (rule saved)
  show "evolves db db'" using 1(2) saved(2) by (rule evolves_trans)
  show "spread_of db' (os_cycle_id s) = Some s1" using spreads.save_writes [OF ok1 j] f(2) by simp
  show "intent_of db' = intent_of db1" using j by (auto simp: update_option_spread_snapshot_def)
qed

text \<open>The long and the short orders of a cycle belong to no other cycle.\<close>

lemma legs_apart:
  assumes "spreads_ok db" "s \<in> set (db_spreads db)" "s' \<in> set (db_spreads db)" "os_cycle_id s' \<noteq> os_cycle_id s"
    and l: "l = os_long_order_link_id s \<or> Some l = os_short_order_link_id s"
  shows "l \<noteq> os_long_order_link_id s'" "Some l \<noteq> os_short_order_link_id s'"
proof -
  have u: "unique_col os_cycle_id (\<lambda>s. Some (os_long_order_link_id s)) (db_spreads db)"
    "unique_col os_cycle_id os_short_order_link_id (db_spreads db)"
    using assms(1) by (simp_all add: spreads_ok_but_def store_defs)
  have v: "valid_spread_snapshot s" "valid_spread_snapshot s'"
    using assms(1-3) by (simp_all add: spreads_ok_but_def spread_row_ok_def)
  have cross: "os_short_order_link_id b \<noteq> Some (os_long_order_link_id a)" if "valid_spread_snapshot a" "valid_spread_snapshot b" for a b
    using that by (auto simp: valid_spread_snapshot_def mk_spread_iff)
  have long: "os_long_order_link_id s \<noteq> os_long_order_link_id s'" using u(1) assms(2-4) unfolding unique_col_def by metis
  have short: "os_short_order_link_id s = Some l \<Longrightarrow> os_short_order_link_id s' \<noteq> Some l"
    using u(2) assms(2-4) unfolding unique_col_def by metis
  from l show "l \<noteq> os_long_order_link_id s'"
  proof
    assume "Some l = os_short_order_link_id s"
    with cross [OF v(2,1)] show ?thesis by metis
  qed (use long in simp)
  from l show "Some l \<noteq> os_short_order_link_id s'"
  proof
    assume "Some l = os_short_order_link_id s"
    with short show ?thesis by metis
  next
    assume "l = os_long_order_link_id s"
    with cross [OF v] show ?thesis by metis
  qed
qed

lemma quantity_of_snoc: "quantity_of (es @ [e]) = dadd (quantity_of es) (ex_quantity e)"
  by (simp add: quantity_of_def)

lemma execution_facts:
  assumes "apply_option_execution s e now = Inr s1"
  shows "os_cycle_id s1 = os_cycle_id s" "os_long_order_link_id s1 = os_long_order_link_id s"
    "os_short_order_link_id s1 = os_short_order_link_id s" "os_state s1 = os_state s" "valid_spread_snapshot s1"
    "ex_order_link_id e = os_long_order_link_id s \<or> Some (ex_order_link_id e) = os_short_order_link_id s"
    "os_long_filled_quantity s1 = (if ex_order_link_id e = os_long_order_link_id s
       then dadd (os_long_filled_quantity s) (ex_quantity e) else os_long_filled_quantity s)"
    "os_short_filled_quantity s1 = (if ex_order_link_id e = os_long_order_link_id s
       then os_short_filled_quantity s else dadd (os_short_filled_quantity s) (ex_quantity e))"
  using assms by (auto simp: apply_option_execution_def spread_touched_def dest!: mk_spread_same split: if_splits)

lemma spreads_ok_execution:
  assumes ok: "spreads_ok db" and s: "issued db s" and u: "apply_option_execution s e now = Inr s1"
    and i: "insert_execution_if_new e t h db = Inr (db1, True)"
    and j: "update_option_spread_snapshot (os_version s) s1 db1 = Inr db'"
  shows "spreads_ok db'" "evolves db db'" "issued db' s1"
proof -
  note f = execution_facts [OF u]
  note g = fills_insert [OF i]
  have ok0: "store_ok db" using ok by (simp add: spreads_ok_but_def)
  have 1: "store_ok db1" "evolves db db1" using sound_insert_execution [OF ok0 i] by blast+
  have rows: "db_spreads db1 = db_spreads db" using i by (auto simp: insert_execution_if_new_def split: if_splits)
  have "issued db1 s" using s 1(2) by (rule issued_later)
  then have st: "spread_of db (os_cycle_id s) = Some s" using issued_stored [OF _ 1(1) j f(1)] by (simp add: rows)
  note stored = stored_spread [OF ok st]
  have others: "booked_legs db1 s'" if s': "s' \<in> set (db_spreads db)" "os_cycle_id s' \<noteq> os_cycle_id s" for s'
  proof -
    have "ex_order_link_id e \<noteq> os_long_order_link_id s'" "Some (ex_order_link_id e) \<noteq> os_short_order_link_id s'"
      using legs_apart [OF ok _ s' f(6)] stored by blast+
    moreover have "booked_legs db s'" using ok s'(1) by (simp add: spreads_ok_but_def)
    ultimately show ?thesis by (auto simp: booked_legs_def short_fills_def g(1) split: option.splits)
  qed
  have "valid_spread_snapshot s" using stored by (simp add: spread_row_ok_def)
  then have "os_short_order_link_id s \<noteq> Some (os_long_order_link_id s)"
    by (auto simp: valid_spread_snapshot_def mk_spread_iff)
  then have "booked_legs db1 s1"
    using stored f by (auto simp: booked_legs_def short_fills_def g(1) quantity_of_snoc split: option.splits)
  moreover have "spread_row_ok s1" using stored f by (simp add: spread_row_ok_def)
  moreover have "spreads_ok_but {os_cycle_id s1} db1"
    using ok 1(1) others by (simp add: spreads_ok_but_def rows f(1))
  ultimately have saved: "spreads_ok db'" "evolves db1 db'" "issued db' s1" using spreads_ok_save [OF _ j] by blast+
  then show "spreads_ok db'" "issued db' s1" by simp_all
  show "evolves db db'" using 1(2) saved(2) by (rule evolves_trans)
qed

section \<open>The methods of the service\<close>

text \<open>When a leg is placed its request is durable, and the store holds the spread it belongs to: the long
  before anything is filled, the short for exactly the long executions recorded.\<close>

definition leg_of :: "place_order_request \<Rightarrow> spread_snapshot \<Rightarrow> bool" where
  "leg_of r s \<longleftrightarrow> po_category r = option_category \<and>
     (po_side r = Buy \<and> po_order_link_id r = os_long_order_link_id s \<and> os_state s = LONG_PROTECTION_PENDING
        \<and> po_symbol r = os_long_symbol s \<and> po_quantity r = os_requested_quantity s
      \<or> po_side r = Sell \<and> os_short_order_link_id s = Some (po_order_link_id r) \<and> os_state s = SHORT_PREMIUM_PENDING
        \<and> po_symbol r = os_short_symbol s \<and> po_quantity r = os_long_filled_quantity s)"

definition leg_ahead :: "database \<times> place_order_request \<Rightarrow> bool" where
  "leg_ahead p = (case p of (db, r) \<Rightarrow> (\<exists>row. intent_of db (po_order_link_id r) = Some row \<and> in_request row = r)
     \<and> (\<exists>s \<in> set (db_spreads db). booked_legs db s \<and> leg_of r s))"

definition sinv :: "spread_snapshot set \<Rightarrow> 'z world_scheme \<Rightarrow> bool" where
  "sinv I w \<longleftrightarrow> spreads_ok (w_store w) \<and> (\<forall>s \<in> I. issued (w_store w) s) \<and> distinct (placed_links (w_calls w))
     \<and> (\<forall>l \<in> set (placed_links (w_calls w)). has_intent (w_store w) l) \<and> (\<forall>p \<in> set (placed (w_calls w)). leg_ahead p)"

abbreviation gives :: "spread_snapshot set \<Rightarrow> ('z world_scheme, spread_snapshot) act \<Rightarrow> bool" where
  "gives I m \<equiv> triple (sinv I) m (\<lambda>s. sinv (insert s I)) (\<lambda>_. sinv I)"

lemma sinv_insert: "sinv (insert s I) w \<longleftrightarrow> sinv I w \<and> issued (w_store w) s"
  by (auto simp: sinv_def)

lemma sinv_store:
  assumes "sinv I w" "spreads_ok db" "evolves (w_store w) db"
  shows "sinv I (w\<lparr>w_store := db\<rparr>)"
  using assms by (auto simp: sinv_def intro: issued_later has_intent_kept [of "w_store w"] simp: evolves_def simp del: has_intent_iff)

lemma keeps_sinv_ask: "\<not> is_place c \<Longrightarrow> keeps (sinv I) (ask c answer)"
  by (rule keepsI) (auto simp: ask_def Let_def sinv_def placed_links_def simp del: placed_append)

lemma sinv_ports [keeping]:
  "keeps (sinv I) (clock x)" "keeps (sinv I) sleep" "keeps (sinv I) (get_order_by_link_id x c y l)"
  "keeps (sinv I) (get_execution_history x c y l)"
  by (simp_all add: port_calls keeps_sinv_ask)

lemma triple_sinv_clock: "triple (sinv I) (clock x) (\<lambda>_. sinv I) (\<lambda>_. sinv I)"
  using sinv_ports(1) by (simp add: keeps_triple)

lemma sinv_discovered [keeping]: "keeps (sinv I) (discovered_ack x d)"
  unfolding discovered_ack_def by (intro keeping)

text \<open>A write of the store, given what it does to a store that is in order.\<close>

lemma triple_spread_write:
  assumes "\<And>db db' y. spreads_ok db \<Longrightarrow> (\<forall>s \<in> I. issued db s) \<Longrightarrow> P db \<Longrightarrow> t db = Inr (db', y)
      \<Longrightarrow> spreads_ok db' \<and> evolves db db' \<and> N y db'"
  shows "triple (\<lambda>w. sinv I w \<and> P (w_store w)) (on_store (transact t)) (\<lambda>y w. sinv I w \<and> N y (w_store w)) (\<lambda>_. sinv I)"
proof (rule triple_transact)
  fix w db y assume w: "sinv I w \<and> P (w_store w)" and t: "t (w_store w) = Inr (db, y)"
  have "spreads_ok db \<and> evolves (w_store w) db \<and> N y db"
    by (rule assms [OF _ _ _ t]) (use w in \<open>simp_all add: sinv_def\<close>)
  with w show "sinv I (w\<lparr>w_store := db\<rparr>) \<and> N y (w_store (w\<lparr>w_store := db\<rparr>))" by (simp add: sinv_store)
qed simp

lemma triple_quiet_write:
  assumes "s \<in> I" "quiet_successor s s1"
  shows "triple (sinv I) (on_store (transition_option_spread_snapshot (os_version s) s1)) (\<lambda>_. sinv (insert s1 I)) (\<lambda>_. sinv I)"
    "triple (sinv I) (on_store (record_option_acknowledgement_and_snapshot (os_version s) a s1)) (\<lambda>_. sinv (insert s1 I)) (\<lambda>_. sinv I)"
proof -
  have saved: "spreads_ok db' \<and> evolves db db' \<and> issued db' s1"
    if "spreads_ok db" "issued db s" "update_option_spread_snapshot (os_version s) s1 db = Inr db'" for db db'
    using spreads_ok_quiet [OF that(1,2) assms(2) that(3)] by blast
  show "triple (sinv I) (on_store (transition_option_spread_snapshot (os_version s) s1)) (\<lambda>_. sinv (insert s1 I)) (\<lambda>_. sinv I)"
    unfolding transition_option_spread_snapshot_def
    by (rule triple_weaken [OF triple_spread_write [where P = "\<lambda>_. True" and N = "\<lambda>_ db. issued db s1"]])
      (use assms(1) saved in \<open>auto simp: commit_def sinv_insert\<close>)
  have acknowledged: "spreads_ok db' \<and> evolves db db' \<and> issued db' s1"
    if ok: "spreads_ok db" and s: "issued db s" and a: "acknowledge_intent m a db = Inr db1"
      and u: "update_option_spread_snapshot (os_version s) s1 db1 = Inr db'" for db db1 db' m
  proof -
    note 1 = spreads_ok_acknowledged [OF ok a]
    have "issued db1 s" using s 1(2) by (rule issued_later)
    from saved [OF 1(1) this u] 1(2) show ?thesis by (blast intro: evolves_trans)
  qed
  show "triple (sinv I) (on_store (record_option_acknowledgement_and_snapshot (os_version s) a s1)) (\<lambda>_. sinv (insert s1 I)) (\<lambda>_. sinv I)"
    unfolding record_option_acknowledgement_and_snapshot_def
    by (rule triple_weaken [OF triple_spread_write [where P = "\<lambda>_. True" and N = "\<lambda>_ db. issued db s1"]])
      (use assms(1) in \<open>auto simp: commit_def sinv_insert dest: acknowledged\<close>)
qed

lemma triple_required_spread:
  "triple (sinv I) (required_spread k) (\<lambda>s w. sinv (insert s I) w \<and> os_cycle_id s = k) (\<lambda>_. sinv I)"
  unfolding required_spread_def load_option_spread_snapshot_def
  by (rule tripleI) (auto simp: act_bind_def on_store_query fetch_one_Inr sinv_insert issued_def
      dest!: mk_spread_same dest: find_row_SomeD split: option.splits sum.splits)

lemma keeps_mark_error: "keeps (sinv I) (mark_error x k)"
  unfolding keeps_triple mark_error_def
proof (rule triple_bind [OF triple_required_spread])
  fix s
  let ?J = "insert s I"
  have "triple (sinv ?J) (act_bind (clock x) (\<lambda>now. act_bind (act_lift (mark_option_execution_error s now)) (\<lambda>failed.
     if os_state s = P_ERROR then act_return ()
     else on_store (transition_option_spread_snapshot (os_version s) failed)))) (\<lambda>_. sinv ?J) (\<lambda>_. sinv ?J)"
  proof (rule triple_bind [OF triple_sinv_clock], rule triple_lift_bind)
    fix now failed assume "mark_option_execution_error s now = Inr failed"
    then have q: "quiet_successor s failed" by (rule quiet_reducers)
    show "triple (sinv ?J) (if os_state s = P_ERROR then act_return ()
       else on_store (transition_option_spread_snapshot (os_version s) failed)) (\<lambda>_. sinv ?J) (\<lambda>_. sinv ?J)"
      by (rule triple_if, rule triple_return, assumption, rule triple_weaken [OF triple_quiet_write(1) [OF insertI1 q]])
        (auto simp: sinv_insert)
  qed
  then show "triple (\<lambda>w. sinv (insert s I) w \<and> os_cycle_id s = k) (act_bind (clock x) (\<lambda>now.
     act_bind (act_lift (mark_option_execution_error s now)) (\<lambda>failed.
     if os_state s = P_ERROR then act_return ()
     else on_store (transition_option_spread_snapshot (os_version s) failed)))) (\<lambda>_. sinv I) (\<lambda>_. sinv I)"
    by (rule triple_weaken) (auto simp: sinv_insert)
qed

lemma gives_on_error:
  assumes "triple P m (\<lambda>s w. sinv (insert s I) w \<and> Q s) (\<lambda>_. sinv I)"
  shows "triple P (not_opened_on_error v x k m) (\<lambda>s w. sinv (insert s I) w \<and> Q s) (\<lambda>_. sinv I)"
  unfolding not_opened_on_error_def
proof (rule triple_catch [OF assms], rule triple_on_exception, assumption)
  fix e
  show "triple (sinv I) (act_bind (mark_error x k) (\<lambda>_. not_opened (sv_text v e))) (\<lambda>s w. sinv (insert s I) w \<and> Q s) (\<lambda>_. sinv I)"
    unfolding not_opened_def
    by (rule triple_bind [where R = "\<lambda>_. sinv I"]) (use keeps_mark_error in \<open>auto simp: keeps_triple intro: triple_raise\<close>)
qed

text \<open>A leg that is durable and not placed yet.\<close>

definition ready_leg :: "spread_snapshot set \<Rightarrow> place_order_request \<Rightarrow> 'z world_scheme \<Rightarrow> bool" where
  "ready_leg I r w \<longleftrightarrow> sinv I w \<and> leg_ahead (w_store w, r) \<and> po_order_link_id r \<notin> set (placed_links (w_calls w))"

lemma triple_place_leg: "triple (ready_leg I r) (place_order x r) (\<lambda>_. sinv I) (\<lambda>_. sinv I)"
  unfolding place_order_def
proof (rule triple_ask)
  fix w assume a: "ready_leg I r w"
  then have "has_intent (w_store w) (po_order_link_id r)"
    by (auto simp: ready_leg_def leg_ahead_def intent_id_def dest: find_row_SomeD)
  with a show "sinv I (w\<lparr>w_calls := w_calls w @ [(w_store w, Place r)]\<rparr>)"
    unfolding ready_leg_def sinv_def by (simp add: placed_links_def del: has_intent_iff)
  then show "sinv I (w\<lparr>w_calls := w_calls w @ [(w_store w, Place r)]\<rparr>)" .
qed

lemma triple_place_option: "triple (ready_leg I r) (place_option_order x r) (\<lambda>_. sinv I) (\<lambda>_. sinv I)"
  unfolding place_option_order_def
  by (rule triple_catch [OF triple_place_leg], rule keeps_triple_from, intro keeping)

lemma acknowledged_links: "acknowledge_option_order s a t = Inr s1 \<Longrightarrow> os_short_order_link_id s1 = os_short_order_link_id s"
  using quiet_reducers(1) by (auto simp: quiet_successor_def)

lemma triple_submit_leg:
  assumes "s \<in> I"
  shows "triple (ready_leg I r) (submit_leg x s r)
    (\<lambda>s1 w. sinv (insert s1 I) w \<and> os_short_order_link_id s1 = os_short_order_link_id s) (\<lambda>_. sinv I)"
  unfolding submit_leg_def
proof (rule triple_bind [OF triple_place_option], rule triple_bind [OF triple_sinv_clock], rule triple_lift_bind)
  fix a now s1 assume s1: "acknowledge_option_order s a now = Inr s1"
  show "triple (sinv I) (act_bind (on_store (record_option_acknowledgement_and_snapshot (os_version s) a s1)) (\<lambda>_. act_return s1))
    (\<lambda>s1 w. sinv (insert s1 I) w \<and> os_short_order_link_id s1 = os_short_order_link_id s) (\<lambda>_. sinv I)"
    by (rule triple_bind [OF triple_quiet_write(2) [OF assms quiet_reducers(1) [OF s1]]], rule triple_return)
      (simp add: acknowledged_links [OF s1])
qed

text \<open>Booking an execution: it is not in the store, so it is inserted.\<close>

definition unrecorded :: "execution_update \<Rightarrow> database \<Rightarrow> bool" where
  "unrecorded e db \<longleftrightarrow> \<not> has_row execution_id (db_executions db) (ex_execution_id e)"

lemma triple_unrecorded_clock:
  "triple (\<lambda>w. sinv I w \<and> unrecorded e (w_store w)) (clock x) (\<lambda>_ w. sinv I w \<and> unrecorded e (w_store w)) (\<lambda>_. sinv I)"
  unfolding clock_def
  by (rule tripleI) (auto simp: ask_def Let_def sinv_def placed_links_def simp del: placed_append)

lemma triple_record_leg:
  assumes "s \<in> I" "apply_option_execution s e now = Inr s1"
  shows "triple (\<lambda>w. sinv I w \<and> unrecorded e (w_store w)) (on_store (record_option_execution_and_snapshot (os_version s) e t h s1))
    (\<lambda>b w. sinv (insert s1 I) w \<and> b) (\<lambda>_. sinv I)"
proof -
  have rows: "spreads_ok db' \<and> evolves db db' \<and> issued db' s1 \<and> b"
    if ok: "spreads_ok db" and held: "\<forall>s \<in> I. issued db s" and new: "unrecorded e db"
      and t: "record_option_execution_and_snapshot_rows (os_version s) e t (lower h) s1 db = Inr (db', b)" for db db' b
  proof -
    from t obtain db1 where i: "insert_execution_if_new e t (lower h) db = Inr (db1, b)"
      and u: "if b then update_option_spread_snapshot (os_version s) s1 db1 = Inr db' else db' = db1"
      by (auto simp: record_option_execution_and_snapshot_rows_def commit_execution_def split: if_splits)
    from i new have b: "b" by (auto simp: insert_execution_if_new_def unrecorded_def)
    have s: "issued db s" using held assms(1) by blast
    from i b have i1: "insert_execution_if_new e t (lower h) db = Inr (db1, True)" by simp
    from u b have u1: "update_option_spread_snapshot (os_version s) s1 db1 = Inr db'" by simp
    from spreads_ok_execution [OF ok s assms(2) i1 u1] b show ?thesis by blast
  qed
  show ?thesis
    unfolding record_option_execution_and_snapshot_def
    by (rule triple_weaken [OF triple_spread_write [where P = "unrecorded e" and N = "\<lambda>b db. issued db s1 \<and> b"]])
      (auto simp: sinv_insert raise_bad_hash_def dest: rows)
qed

abbreviation same_orders :: "spread_snapshot set \<Rightarrow> spread_snapshot \<Rightarrow> spread_snapshot \<Rightarrow> 'z world_scheme \<Rightarrow> bool" where
  "same_orders I s s1 w \<equiv> sinv (insert s1 I) w \<and> os_short_order_link_id s1 = os_short_order_link_id s"

lemma triple_book_new:
  assumes s: "s \<in> I"
  shows "triple (\<lambda>w. sinv I w \<and> unrecorded e (w_store w)) (book_new_execution v x e s) (same_orders I s) (\<lambda>_. sinv I)"
  unfolding book_new_execution_def
proof (rule triple_bind [OF triple_unrecorded_clock], rule triple_lift_bind, rule triple_bind [OF triple_unrecorded_clock])
  fix now s1 t assume s1: "apply_option_execution s e now = Inr s1"
  show "triple (\<lambda>w. sinv I w \<and> unrecorded e (w_store w))
      (act_bind (on_store (record_option_execution_and_snapshot (os_version s) e t (sv_payload_hash v e) s1)) (\<lambda>inserted.
        if inserted then act_return s1 else required_spread (os_cycle_id s))) (same_orders I s) (\<lambda>_. sinv I)"
  proof (rule triple_bind [OF triple_record_leg [OF s s1]])
    fix b show "triple (\<lambda>w. sinv (insert s1 I) w \<and> b) (if b then act_return s1 else required_spread (os_cycle_id s))
        (same_orders I s) (\<lambda>_. sinv I)"
      by (rule triple_pre [where b = b]) (auto intro!: triple_return simp: execution_facts(3) [OF s1])
  qed
qed simp

lemma triple_book_leg:
  assumes s: "s \<in> I"
  shows "triple (sinv I) (book_leg_execution v x e s) (same_orders I s) (\<lambda>_. sinv I)"
  unfolding book_leg_execution_def
proof (rule triple_bind [where R = "\<lambda>known w. sinv I w \<and> (\<not> known \<longrightarrow> unrecorded e (w_store w))"])
  show "triple (sinv I) (on_store (has_execution (ex_execution_id e)))
      (\<lambda>known w. sinv I w \<and> (\<not> known \<longrightarrow> unrecorded e (w_store w))) (\<lambda>_. sinv I)"
    unfolding has_execution_def by (rule triple_has) (simp add: unrecorded_def)
  fix known
  show "triple (\<lambda>w. sinv I w \<and> (\<not> known \<longrightarrow> unrecorded e (w_store w)))
      (if known then act_return s else book_new_execution v x e s) (same_orders I s) (\<lambda>_. sinv I)"
    by (rule triple_if, rule triple_return, use s in \<open>simp add: insert_absorb\<close>, rule triple_weaken [OF triple_book_new [OF s]]) auto
qed

lemma same_orders_trans: "same_orders (insert s1 I) s1 s2 w \<Longrightarrow> os_short_order_link_id s1 = os_short_order_link_id s \<Longrightarrow> same_orders I s s2 w"
  by (auto simp: sinv_insert)

text \<open>Continuing with a snapshot that was handed out by the step before.\<close>

lemma triple_then:
  assumes "triple P m (same_orders I s) (\<lambda>_. sinv I)"
    and "\<And>s1. os_short_order_link_id s1 = os_short_order_link_id s \<Longrightarrow> triple (sinv (insert s1 I)) (f s1) Q (\<lambda>_. sinv (insert s1 I))"
  shows "triple P (act_bind m f) Q (\<lambda>_. sinv I)"
proof (rule triple_bind [OF assms(1)])
  fix s1
  show "triple (same_orders I s s1) (f s1) Q (\<lambda>_. sinv I)"
    by (rule triple_pre [where b = "os_short_order_link_id s1 = os_short_order_link_id s"], blast,
        rule triple_weaken [OF assms(2)]) (auto simp: sinv_insert)
qed

lemma triple_book_all:
  "s \<in> I \<Longrightarrow> triple (sinv I :: 'z world_scheme \<Rightarrow> bool) (act_for (book_leg_execution v x) es s) (same_orders I s) (\<lambda>_. sinv I)"
proof (induction es arbitrary: s I)
  case Nil
  then show ?case unfolding act_for.simps by (intro triple_return) (simp add: insert_absorb)
next
  case (Cons e es)
  show ?case
    unfolding act_for.simps
  proof (rule triple_then [OF triple_book_leg [OF Cons.prems]])
    fix s1 :: spread_snapshot assume s1: "os_short_order_link_id s1 = os_short_order_link_id s"
    show "triple (sinv (insert s1 I) :: 'z world_scheme \<Rightarrow> bool) (act_for (book_leg_execution v x) es s1) (same_orders I s) (\<lambda>_. sinv (insert s1 I))"
      by (rule triple_weaken [OF Cons.IH [OF insertI1]]) (use s1 in \<open>auto simp: sinv_insert\<close>)
  qed
qed

text \<open>A long leg is only settled while there is no short order.\<close>

definition side_ok :: "place_order_request \<Rightarrow> spread_snapshot \<Rightarrow> bool" where
  "side_ok r s \<longleftrightarrow> (po_side r = Buy \<longrightarrow> os_short_order_link_id s = None)"

lemma triple_settle_leg:
  assumes s: "s \<in> I" "side_ok r s"
  shows "triple (sinv I) (settle_leg x r policy s order) (\<lambda>(b, s1). same_orders I s s1) (\<lambda>_. sinv I)"
proof -
  have finalize: "triple (sinv I) (act_bind (act_lift (finalize_leg r policy s now)) (\<lambda>finalized.
      act_bind (on_store (transition_option_spread_snapshot (os_version s) finalized)) (\<lambda>_. act_return (True, finalized))))
      (\<lambda>(b, s1). same_orders I s s1) (\<lambda>_. sinv I)" for now
  proof (rule triple_lift_bind)
    fix s1 assume "finalize_leg r policy s now = Inr s1"
    then have q: "quiet_successor s s1" by (rule quiet_reducers(3) [rotated]) (use s(2) in \<open>simp add: side_ok_def\<close>)
    show "triple (sinv I) (act_bind (on_store (transition_option_spread_snapshot (os_version s) s1)) (\<lambda>_. act_return (True, s1)))
        (\<lambda>(b, s1). same_orders I s s1) (\<lambda>_. sinv I)"
      by (rule triple_bind [OF triple_quiet_write(1) [OF s(1) q]], rule triple_return) (use q in \<open>simp add: quiet_successor_def\<close>)
  qed
  have stay: "triple (sinv I) (act_return (False, s)) (\<lambda>(b, s1). same_orders I s s1) (\<lambda>_. sinv I)"
    by (rule triple_return) (use s(1) in \<open>simp add: insert_absorb\<close>)
  show ?thesis
    unfolding settle_leg_def
    by (cases order) (auto intro!: stay triple_if triple_raise triple_bind [OF triple_sinv_clock finalize])
qed

lemma triple_await_leg:
  "s \<in> I \<Longrightarrow> side_ok r s \<Longrightarrow> triple (sinv I :: 'z world_scheme \<Rightarrow> bool) (await_leg v x r policy left s) (same_orders I s) (\<lambda>_. sinv I)"
proof (induction left arbitrary: s I)
  case 0
  show ?case unfolding await_leg.simps by (rule triple_raise)
next
  case (Suc left)
  have quiet: "triple (sinv J :: 'z world_scheme \<Rightarrow> bool) (get_execution_history x c y l) (\<lambda>_. sinv J) (\<lambda>_. sinv J)"
    "triple (sinv J :: 'z world_scheme \<Rightarrow> bool) (get_order_by_link_id x c y l) (\<lambda>_. sinv J) (\<lambda>_. sinv J)"
    "triple (sinv J :: 'z world_scheme \<Rightarrow> bool) sleep (\<lambda>_. sinv J) (\<lambda>_. sinv J)" for J c y l
    using sinv_ports by (simp_all add: keeps_triple)
  let ?settle = "\<lambda>s1 order. act_bind (settle_leg x r policy s1 order) (\<lambda>(over, s2). if over then act_return s2
     else if 0 < left then act_bind sleep (\<lambda>_. await_leg v x r policy left s2) else await_leg v x r policy left s2)"
  have settle: "triple (sinv J :: 'z world_scheme \<Rightarrow> bool) (?settle s1 order) (same_orders J s1) (\<lambda>_. sinv J)" if s1: "s1 \<in> J" "side_ok r s1" for J s1 order
  proof (rule triple_bind [OF triple_settle_leg [OF s1]])
    fix p :: "bool \<times> spread_snapshot"
    obtain b s2 where p: "p = (b, s2)" by (cases p)
    have next_poll: "triple (sinv (insert s2 J) :: 'z world_scheme \<Rightarrow> bool) (await_leg v x r policy left s2) (same_orders J s1) (\<lambda>_. sinv J)"
      if "os_short_order_link_id s2 = os_short_order_link_id s1"
      by (rule triple_weaken [OF Suc.IH [OF insertI1]]) (use that s1(2) in \<open>auto simp: sinv_insert side_ok_def\<close>)
    have next_sleep: "triple (sinv (insert s2 J) :: 'z world_scheme \<Rightarrow> bool) (act_bind sleep (\<lambda>_. await_leg v x r policy left s2))
        (same_orders J s1) (\<lambda>_. sinv J)" if "os_short_order_link_id s2 = os_short_order_link_id s1"
    proof (rule triple_bind)
      show "triple (sinv (insert s2 J) :: 'z world_scheme \<Rightarrow> bool) sleep (\<lambda>_. sinv (insert s2 J)) (\<lambda>_. sinv J)"
        by (rule triple_weaken [OF quiet(3) [of "insert s2 J"]]) (auto simp: sinv_insert)
    qed (rule next_poll [OF that])
    have "triple (\<lambda>w :: 'z world_scheme. same_orders J s1 s2 w) (if b then act_return s2
        else if 0 < left then act_bind sleep (\<lambda>_. await_leg v x r policy left s2) else await_leg v x r policy left s2)
        (same_orders J s1) (\<lambda>_. sinv J)"
    proof (rule triple_pre [where b = "os_short_order_link_id s2 = os_short_order_link_id s1"], blast)
      assume o: "os_short_order_link_id s2 = os_short_order_link_id s1"
      show "triple (\<lambda>w :: 'z world_scheme. same_orders J s1 s2 w) (if b then act_return s2
          else if 0 < left then act_bind sleep (\<lambda>_. await_leg v x r policy left s2) else await_leg v x r policy left s2)
          (same_orders J s1) (\<lambda>_. sinv J)"
        by (intro triple_if triple_return triple_weaken [OF next_sleep [OF o]] triple_weaken [OF next_poll [OF o]]) auto
    qed
    then show "triple ((case p of (b, s2) \<Rightarrow> same_orders J s1 s2) :: 'z world_scheme \<Rightarrow> bool) (case p of (over, s2) \<Rightarrow> if over then act_return s2
        else if 0 < left then act_bind sleep (\<lambda>_. await_leg v x r policy left s2) else await_leg v x r policy left s2)
        (same_orders J s1) (\<lambda>_. sinv J)"
      unfolding p case_prod_conv .
  qed
  show ?case
    unfolding await_leg.simps book_leg_executions_def
  proof (rule triple_bind [OF quiet(1)], rule triple_then [OF triple_book_all [OF Suc.prems(1)]])
    fix es and s1 :: spread_snapshot assume s1: "os_short_order_link_id s1 = os_short_order_link_id s"
    have "triple (sinv (insert s1 I) :: 'z world_scheme \<Rightarrow> bool) (act_bind (get_order_by_link_id x option_category (po_symbol r) (po_order_link_id r)) (?settle s1))
        (same_orders (insert s1 I) s1) (\<lambda>_. sinv (insert s1 I))"
      by (rule triple_bind [OF quiet(2)], rule settle) (use s1 Suc.prems(2) in \<open>simp_all add: side_ok_def\<close>)
    then show "triple (sinv (insert s1 I) :: 'z world_scheme \<Rightarrow> bool) (act_bind (get_order_by_link_id x option_category (po_symbol r) (po_order_link_id r)) (?settle s1))
        (same_orders I s) (\<lambda>_. sinv (insert s1 I))"
      by (rule triple_weaken) (use s1 in \<open>auto simp: sinv_insert\<close>)
  qed
qed

lemma triple_run_leg:
  assumes "s \<in> I" "side_ok r s"
  shows "triple (ready_leg I r) (run_leg v x r policy s) (same_orders I s) (\<lambda>_. sinv I)"
  unfolding run_leg_def
proof (rule gives_on_error, rule triple_then [OF triple_submit_leg [OF assms(1)]])
  fix s1 :: spread_snapshot assume s1: "os_short_order_link_id s1 = os_short_order_link_id s"
  show "triple (sinv (insert s1 I) :: 'z world_scheme \<Rightarrow> bool) (await_leg v x r policy (nat (sv_fill_attempts v)) s1)
      (same_orders I s) (\<lambda>_. sinv (insert s1 I))"
    by (rule triple_weaken [OF triple_await_leg [OF insertI1]]) (use s1 assms(2) in \<open>auto simp: sinv_insert side_ok_def\<close>)
qed

lemma same_request: "mk_place_order_request r = Inr r' \<Longrightarrow> r' = r"
  by (rule stop_request_same)

text \<open>After an intent is persisted its leg is ready to be placed.\<close>

lemma ready_after:
  assumes w: "sinv I w" and i: "insert_order_intent r t (w_store w) = Inr db1" and e: "evolves (w_store w) db"
    and db: "spreads_ok db" "spread_of db (os_cycle_id s) = Some s" "intent_of db = intent_of db1" and l: "leg_of r s"
  shows "ready_leg (insert s I) r (w\<lparr>w_store := db\<rparr>)"
proof -
  have ok: "spreads_ok (w_store w)" using w by (simp add: sinv_def)
  note 1 = spreads_ok_intent [OF ok i]
  have "leg_ahead (db, r)"
    using db l 1(6) stored_spread [OF db(1,2)] by (auto simp: leg_ahead_def)
  moreover have "po_order_link_id r \<notin> set (placed_links (w_calls w))" using w 1(5) unfolding sinv_def by blast
  moreover have "issued db s" using db(2) by (simp add: issued_def)
  ultimately show ?thesis using sinv_store [OF w db(1) e] by (simp add: ready_leg_def sinv_insert)
qed

lemma triple_persist_long:
  assumes "for_long_intent r c y ex cr now = Inr s" "po_order_type r = Limit"
  shows "triple (sinv I) (on_store (persist_option_long_intent r s t)) (\<lambda>_. ready_leg (insert s I) r) (\<lambda>_. sinv I)"
  unfolding persist_option_long_intent_def persist_option_long_intent_rows_def commit_def
proof (rule triple_transact)
  fix w db y'
  assume w: "sinv I w"
    and "raise_naive t ''option intent persistence time'' (on_integrity_error ''option long intent is already persisted''
      (\<lambda>db. r_bind (r_foldl (\<lambda>d st. st d) db [insert_order_intent r t, insert_option_spread s]) (\<lambda>db'. Inr (db', ()))) (w_store w))
      = Inr (db, y')"
  then obtain db1 where i: "insert_order_intent r t (w_store w) = Inr db1" and j: "insert_option_spread s db1 = Inr db"
    by auto
  have ok: "spreads_ok (w_store w)" using w by (simp add: sinv_def)
  note f = spreads_ok_long [OF ok assms(1) i j]
  have "leg_of r s" using assms by (auto simp: leg_of_def for_long_intent_def dest!: mk_spread_same)
  from ready_after [OF w i f(2,1,3,4) this] show "ready_leg (insert s I) r (w\<lparr>w_store := db\<rparr>)" .
qed simp

lemma triple_persist_short:
  assumes "s \<in> I" "start_short_premium s r now = Inr s1"
  shows "triple (sinv I) (on_store (persist_option_short_intent (os_version s) r s1 t)) (\<lambda>_. ready_leg (insert s1 I) r) (\<lambda>_. sinv I)"
  unfolding persist_option_short_intent_def persist_option_short_intent_rows_def commit_def
proof (rule triple_transact)
  fix w db y'
  assume w: "sinv I w"
    and "raise_naive t ''option intent persistence time'' (on_integrity_error ''option short intent is already persisted''
      (\<lambda>db. r_bind (r_foldl (\<lambda>d st. st d) db [insert_order_intent r t, update_option_spread_snapshot (os_version s) s1])
        (\<lambda>db'. Inr (db', ()))) (w_store w)) = Inr (db, y')"
  then obtain db1 where i: "insert_order_intent r t (w_store w) = Inr db1"
    and j: "update_option_spread_snapshot (os_version s) s1 db1 = Inr db" by auto
  have ok: "spreads_ok (w_store w)" and s: "issued (w_store w) s" using w assms(1) by (simp_all add: sinv_def)
  note f = spreads_ok_short [OF ok s assms(2) i j]
  note g = start_short_facts [OF assms(2)]
  have "leg_of r s1" using g by (simp add: leg_of_def)
  moreover have "spread_of db (os_cycle_id s1) = Some s1" using f(3) g(2) by simp
  ultimately show "ready_leg (insert s1 I) r (w\<lparr>w_store := db\<rparr>)" by (intro ready_after [OF w i f(2,1) _ f(4)])
qed simp

lemma gives_complete:
  assumes "s \<in> I"
  shows "gives I (complete_from_protective_long v x s price link policy)"
proof -
  have run: "triple (ready_leg (insert s1 I) r) (act_bind (run_leg v x r policy s1) (\<lambda>s2.
      if os_state s2 \<noteq> P_OPEN then not_opened ''short fill did not open a full spread'' else act_return s2))
      (\<lambda>s. sinv (insert s I)) (\<lambda>_. sinv I)" if "start_short_premium s r now = Inr s1" for r now s1
  proof -
    have "side_ok r s1" using start_short_facts [OF that] by (simp add: side_ok_def)
    show ?thesis
      unfolding not_opened_def
    proof (rule triple_bind)
      show "triple (ready_leg (insert s1 I) r) (run_leg v x r policy s1) (same_orders (insert s1 I) s1) (\<lambda>_. sinv I)"
        by (rule triple_weaken [OF triple_run_leg [OF insertI1 \<open>side_ok r s1\<close>]]) (auto simp: sinv_insert)
    qed (auto intro!: triple_if triple_raise triple_return simp: sinv_insert)
  qed
  have "triple (sinv I) (act_bind (clock x) (\<lambda>now. act_bind (act_lift (start_short_premium s r now)) (\<lambda>with_short.
      act_bind (on_store (persist_option_short_intent (os_version s) r with_short (os_updated_at with_short))) (\<lambda>_.
      act_bind (run_leg v x r policy with_short) (\<lambda>s1.
        if os_state s1 \<noteq> P_OPEN then not_opened ''short fill did not open a full spread'' else act_return s1)))))
      (\<lambda>s. sinv (insert s I)) (\<lambda>_. sinv I)" for r
    by (rule triple_bind [OF triple_sinv_clock], rule triple_lift_bind,
        rule triple_bind [OF triple_persist_short [OF assms]], assumption, rule run, assumption, assumption)
  then show ?thesis
    unfolding complete_from_protective_long_def not_opened_def
    by (intro triple_if triple_raise triple_lift_bind) auto
qed

lemma gives_open: "gives I (open_spread v x plan policy)"
  unfolding open_spread_def
proof (rule triple_lift_bind, rule triple_bind [OF triple_sinv_clock], rule triple_lift_bind)
  let ?request = "leg_request (pl_long_symbol plan) Buy (pl_quantity plan) (pl_long_order_link_id plan) (pl_long_limit_price plan)"
  fix r now s assume r: "mk_place_order_request ?request = Inr r"
    and s: "for_long_intent r (pl_cycle_id plan) (pl_short_symbol plan) (pl_expiry_time_utc plan) (pl_expected_net_credit plan) now = Inr s"
  have limit: "po_order_type r = Limit" using same_request [OF r] by (simp add: leg_request_def)
  have side: "side_ok r s" using s by (auto simp: side_ok_def for_long_intent_def dest!: mk_spread_same)
  let ?rest = "\<lambda>s1. if os_state s1 \<noteq> LONG_PROTECTION_FILLED then not_opened ''protective long did not fully fill''
     else complete_from_protective_long v x s1 (pl_short_limit_price plan) (pl_short_order_link_id plan) policy"
  have rest: "triple (same_orders (insert s I) s s1) (?rest s1) (\<lambda>s. sinv (insert s I)) (\<lambda>_. sinv I)" for s1
  proof -
    have "triple (sinv (insert s1 I)) (?rest s1) (\<lambda>s. sinv (insert s (insert s1 I))) (\<lambda>_. sinv (insert s1 I))"
      unfolding not_opened_def by (intro triple_if triple_raise gives_complete insertI1)
    then show ?thesis by (rule triple_weaken) (auto simp: sinv_insert)
  qed
  show "triple (sinv I) (act_bind (on_store (persist_option_long_intent r s (os_updated_at s))) (\<lambda>_.
      act_bind (run_leg v x r policy s) ?rest)) (\<lambda>s. sinv (insert s I)) (\<lambda>_. sinv I)"
  proof (rule triple_bind [OF triple_persist_long [OF s limit]])
    show "triple (ready_leg (insert s I) r) (act_bind (run_leg v x r policy s) ?rest) (\<lambda>s. sinv (insert s I)) (\<lambda>_. sinv I)"
    proof (rule triple_bind [OF _ rest])
      show "triple (ready_leg (insert s I) r) (run_leg v x r policy s) (same_orders (insert s I) s) (\<lambda>_. sinv I)"
        by (rule triple_weaken [OF triple_run_leg [OF insertI1 side]]) (auto simp: sinv_insert)
    qed
  qed
qed auto

lemma gives_reconcile:
  assumes "s \<in> I"
  shows "gives I (reconcile_protective_long v x s policy)"
  unfolding reconcile_protective_long_def not_opened_def
proof (rule triple_if, rule triple_raise, assumption)
  assume "\<not> (os_short_order_link_id s \<noteq> None \<or> os_short_order_id s \<noteq> None \<or> os_short_filled_quantity s \<noteq> 0)"
  then have side: "side_ok r s" for r by (simp add: side_ok_def)
  have load: "triple (sinv I) (on_store (load_order_intent (os_long_order_link_id s))) (\<lambda>_. sinv I) (\<lambda>_. sinv I)"
    unfolding load_order_intent_def by (rule triple_load)
  have poll: "triple (sinv I) (act_bind (not_opened_on_error v x (os_cycle_id s) (await_leg v x r policy (nat (sv_fill_attempts v)) s)) (\<lambda>s1.
      if os_state s1 \<noteq> LONG_PROTECTION_FILLED
      then act_raise (OptionSpreadNotOpenedError ''protective long did not fully fill during reconciliation'') else act_return s1))
      (\<lambda>s. sinv (insert s I)) (\<lambda>_. sinv I)" for r
    by (rule triple_bind [OF gives_on_error [OF triple_await_leg [OF assms side]]])
      (auto intro!: triple_if triple_raise triple_return simp: sinv_insert)
  have "triple (sinv I) (case found of None \<Rightarrow> act_raise (OptionSpreadNotOpenedError ''protective long has no durable order intent'')
      | Some r \<Rightarrow> act_bind (not_opened_on_error v x (os_cycle_id s) (await_leg v x r policy (nat (sv_fill_attempts v)) s)) (\<lambda>s1.
      if os_state s1 \<noteq> LONG_PROTECTION_FILLED
      then act_raise (OptionSpreadNotOpenedError ''protective long did not fully fill during reconciliation'') else act_return s1))
      (\<lambda>s. sinv (insert s I)) (\<lambda>_. sinv I)" for found
    by (cases found) (simp_all add: triple_raise poll)
  from triple_bind [OF load this]
  show "triple (sinv I) (act_bind (on_store (load_order_intent (os_long_order_link_id s))) (\<lambda>found. case found of
      None \<Rightarrow> act_raise (OptionSpreadNotOpenedError ''protective long has no durable order intent'')
      | Some r \<Rightarrow> act_bind (not_opened_on_error v x (os_cycle_id s) (await_leg v x r policy (nat (sv_fill_attempts v)) s)) (\<lambda>s1.
      if os_state s1 \<noteq> LONG_PROTECTION_FILLED
      then act_raise (OptionSpreadNotOpenedError ''protective long did not fully fill during reconciliation'') else act_return s1)))
      (\<lambda>s. sinv (insert s I)) (\<lambda>_. sinv I)" .
qed

section \<open>Any sequence of calls\<close>

fun handed :: "'a res \<Rightarrow> 'a set \<Rightarrow> 'a set" where
  "handed (Inr s) I = insert s I"
| "handed (Inl e) I = I"

text \<open>Other components write to the same store: anything but the spreads and the executions of their legs.\<close>

definition besides_spreads :: "database \<Rightarrow> database \<Rightarrow> bool" where
  "besides_spreads db db' \<longleftrightarrow> store_runs db db' \<and> db_spreads db' = db_spreads db
     \<and> (\<forall>s \<in> set (db_spreads db). fills_of db' (os_long_order_link_id s) = fills_of db (os_long_order_link_id s)
          \<and> short_fills db' s = short_fills db s)"

text \<open>The worlds a client can reach, with the snapshots it holds: it calls the methods in any order, with
  snapshots it was given or has loaded.\<close>

inductive spread_run :: "spread_service \<Rightarrow> exchange \<Rightarrow> spread_snapshot set \<Rightarrow> world \<Rightarrow> bool" for v x where
  Begin: "spread_run v x {} \<lparr>w_store = empty_database, w_calls = []\<rparr>"
| Load: "spread_run v x I w \<Longrightarrow> s \<in> set (db_spreads (w_store w)) \<Longrightarrow> spread_run v x (insert s I) w"
| Open: "spread_run v x I w \<Longrightarrow> open_spread v x plan policy w = (w', res) \<Longrightarrow> spread_run v x (handed res I) w'"
| Reconcile: "spread_run v x I w \<Longrightarrow> s \<in> I \<Longrightarrow> reconcile_protective_long v x s policy w = (w', res) \<Longrightarrow> spread_run v x (handed res I) w'"
| Complete: "spread_run v x I w \<Longrightarrow> s \<in> I \<Longrightarrow> complete_from_protective_long v x s price link policy w = (w', res)
    \<Longrightarrow> spread_run v x (handed res I) w'"
| Elsewhere: "spread_run v x I w \<Longrightarrow> besides_spreads (w_store w) db \<Longrightarrow> spread_run v x I (w\<lparr>w_store := db\<rparr>)"

lemma gives_handed:
  assumes "gives I m" "m w = (w', res)" "sinv I w"
  shows "sinv (handed res I) w'"
  using assms by (cases res) (auto dest: triple_Inr triple_Inl)

lemma besides_spreads_inv:
  assumes "sinv I w" "besides_spreads (w_store w) db"
  shows "sinv I (w\<lparr>w_store := db\<rparr>)"
proof (rule sinv_store [OF assms(1)])
  have ok: "spreads_ok (w_store w)" using assms(1) by (simp add: sinv_def)
  then have "store_ok db \<and> evolves (w_store w) db"
    using assms(2) store_runs_sound [of "w_store w" db] by (simp add: besides_spreads_def spreads_ok_but_def)
  with ok assms(2) show "spreads_ok db" "evolves (w_store w) db"
    by (simp_all add: spreads_ok_but_def besides_spreads_def booked_legs_def)
qed

lemma spread_run_inv: "spread_run v x I w \<Longrightarrow> sinv I w"
proof (induction rule: spread_run.induct)
  case Begin
  show ?case by (simp add: sinv_def spreads_ok_but_def placed_links_def) (simp add: empty_database_def)
next
  case (Load I w s)
  have "spread_of (w_store w) (os_cycle_id s) = Some s"
    using Load find_row_iff [OF store_ok_keys(4)] by (simp add: sinv_def spreads_ok_but_def)
  with Load.IH show ?case by (simp add: sinv_insert issued_def)
next
  case (Open I w plan policy w' res)
  then show ?case by (blast intro: gives_handed [OF gives_open])
next
  case (Reconcile I w s policy w' res)
  then show ?case by (blast intro: gives_handed [OF gives_reconcile])
next
  case (Complete I w s price link policy w' res)
  then show ?case by (blast intro: gives_handed [OF gives_complete])
next
  case (Elsewhere I w db)
  then show ?case by (blast intro: besides_spreads_inv)
qed

text \<open>C2. The short is sold only against recorded protection. Over an exchange that may answer anything, over any
  sequence of calls of the service with snapshots it was given or has loaded, mixed with writes of other
  components: no client order id is placed twice; every order placed is an option order whose request was
  in the store at that moment; a sell was the short leg of a stored spread, for exactly the quantity of the
  executions of its protective long in the store then, and a buy was the long leg of a stored spread; and
  for every stored spread the recorded executions of the short never add up to more than those of the
  long.\<close>

theorem short_only_against_long:
  assumes "spread_run v x I w"
  shows "distinct (placed_links (w_calls w))
    \<and> (\<forall>(db, r) \<in> set (placed (w_calls w)). po_category r = option_category
        \<and> (\<exists>row. intent_of db (po_order_link_id r) = Some row \<and> in_request row = r)
        \<and> (\<exists>s \<in> set (db_spreads db).
             po_side r = Buy \<and> po_order_link_id r = os_long_order_link_id s \<and> po_symbol r = os_long_symbol s
               \<and> po_quantity r = os_requested_quantity s
             \<or> po_side r = Sell \<and> os_short_order_link_id s = Some (po_order_link_id r) \<and> po_symbol r = os_short_symbol s
               \<and> po_quantity r = foldl (\<lambda>q e. dadd q (ex_quantity e)) 0 (fills_of db (os_long_order_link_id s))))
    \<and> (\<forall>s \<in> set (db_spreads (w_store w)). \<forall>l. os_short_order_link_id s = Some l \<longrightarrow>
        foldl (\<lambda>q e. dadd q (ex_quantity e)) 0 (fills_of (w_store w) l)
          \<le> foldl (\<lambda>q e. dadd q (ex_quantity e)) 0 (fills_of (w_store w) (os_long_order_link_id s)))"
proof -
  have inv: "spreads_ok (w_store w)" "distinct (placed_links (w_calls w))" "\<forall>p \<in> set (placed (w_calls w)). leg_ahead p"
    using spread_run_inv [OF assms] by (simp_all add: sinv_def)
  have covered: "quantity_of (fills_of (w_store w) l) \<le> quantity_of (fills_of (w_store w) (os_long_order_link_id s))"
    if "s \<in> set (db_spreads (w_store w))" "os_short_order_link_id s = Some l" for s l
  proof -
    have "valid_spread_snapshot s" "booked_legs (w_store w) s" using inv(1) that(1) by (simp_all add: spreads_ok_but_def spread_row_ok_def)
    with valid_spread_facts(4) [of s] that(2) show ?thesis by (simp add: booked_legs_def short_fills_def)
  qed
  have legs: "case p of (db, r) \<Rightarrow> po_category r = option_category
        \<and> (\<exists>row. intent_of db (po_order_link_id r) = Some row \<and> in_request row = r)
        \<and> (\<exists>s \<in> set (db_spreads db).
             po_side r = Buy \<and> po_order_link_id r = os_long_order_link_id s \<and> po_symbol r = os_long_symbol s
               \<and> po_quantity r = os_requested_quantity s
             \<or> po_side r = Sell \<and> os_short_order_link_id s = Some (po_order_link_id r) \<and> po_symbol r = os_short_symbol s
               \<and> po_quantity r = quantity_of (fills_of db (os_long_order_link_id s)))" if p: "p \<in> set (placed (w_calls w))" for p
    using inv(3) p by (fastforce simp: leg_ahead_def leg_of_def booked_legs_def)
  show ?thesis using inv(2) covered legs unfolding quantity_of_def by blast
qed

section \<open>An example run\<close>

text \<open>An exchange that fills every order completely at its limit price.\<close>

definition fill_of :: "place_order_request \<Rightarrow> execution_update" where
  "fill_of r = \<lparr>ex_execution_id = po_symbol r, ex_order_id = ''o1'', ex_order_link_id = po_order_link_id r, ex_symbol = po_symbol r,
     ex_side = po_side r, ex_price = (case po_price r of None \<Rightarrow> 1 | Some p \<Rightarrow> p), ex_quantity = po_quantity r, ex_fee = 0,
     ex_is_maker = Some False, ex_executed_at = Aware 3\<rparr>"

definition placed_request :: "history \<Rightarrow> string \<Rightarrow> place_order_request option" where
  "placed_request h link = map_option snd (find (\<lambda>(db, r). po_order_link_id r = link) (placed h))"

definition filling_exchange :: exchange where
  "filling_exchange = prompt_exchange\<lparr>
     x_order := (\<lambda>h link. Inr (map_option (\<lambda>r. (order_shown r)\<lparr>eo_status := ''Filled'',
        eo_cumulative_filled_quantity := po_quantity r\<rparr>) (placed_request h link))),
     x_executions := (\<lambda>h link. Inr (map fill_of (case placed_request h link of None \<Rightarrow> [] | Some r \<Rightarrow> [r])))\<rparr>"

definition sample_service :: spread_service where
  "sample_service = \<lparr>sv_fill_attempts = 1, sv_fill_interval_seconds = 1 / 4, sv_payload_hash = (\<lambda>_. replicate 64 (CHR ''a'')),
     sv_text = (\<lambda>_. [])\<rparr>"

definition sample_plan :: spread_plan where
  "sample_plan = \<lparr>pl_cycle_id = ''C7'', pl_long_symbol = ''L'', pl_short_symbol = ''S'', pl_expiry_time_utc = Aware 99,
     pl_quantity = 1, pl_long_limit_price = 1, pl_short_limit_price = 2, pl_expected_net_credit = 1,
     pl_long_order_link_id = sample_long_link, pl_short_order_link_id = ''ECH-a1-C0007-L00-OS-A01-00FF3A''\<rparr>"

definition sample_policy :: option_entry_policy where
  "sample_policy = \<lparr>max_leg_wait_seconds = 10, allow_partial_spread = False, minimum_matched_quantity = 1,
     maximum_credit_deviation = 1, oe_unmatched_long_policy = CLOSE_LONG\<rparr>"

definition opened_world :: world where
  "opened_world = fst (open_spread sample_service filling_exchange sample_plan sample_policy \<lparr>w_store = empty_database, w_calls = []\<rparr>)"

lemma opened_sides: "map (\<lambda>(db, r). (po_side r, po_quantity r)) (placed (w_calls opened_world)) = [(Buy, 1), (Sell, 1)]"
  by code_simp

lemma opened_run: "\<exists>I. spread_run sample_service filling_exchange I opened_world"
  using spread_run.Open [OF spread_run.Begin surjective_pairing] unfolding opened_world_def by blast

theorem short_only_against_long_witness:
  "\<exists>I. spread_run sample_service filling_exchange I opened_world
     \<and> map (\<lambda>(db, r). (po_side r, po_quantity r)) (placed (w_calls opened_world)) = [(Buy, 1), (Sell, 1)]
     \<and> distinct (placed_links (w_calls opened_world))"
proof -
  obtain I where I: "spread_run sample_service filling_exchange I opened_world" using opened_run by blast
  from I opened_sides conjunct1 [OF short_only_against_long [OF I]] show ?thesis by (intro exI [of _ I] conjI)
qed

end
