(* ===== verification/Entry_Client.thy ===== *)
theory Entry_Client
  imports Protective_Exits
begin

text \<open>
  What a client of the entry service can rely on. A predicate \<open>I P\<close> on the world, for the orders \<open>P\<close> placed
  so far, that survives the writes of the service and follows each placed order, is carried through a
  submission: it places its order once, in a world where the store satisfies \<open>S\<close>, or raises before.
  The clients are the recovery service, the trigger coordinators and the lifecycle.
\<close>

type_synonym order_log = "(database \<times> place_order_request) list"

locale entry_client =
  fixes I :: "order_log \<Rightarrow> entry_world \<Rightarrow> bool" and S :: "database \<Rightarrow> bool"
  assumes quiet_call: "\<not> is_place c \<Longrightarrow> I P w \<Longrightarrow> I P (w\<lparr>w_calls := w_calls w @ [(w_store w, c)]\<rparr>)"
    and place_call: "I P w \<Longrightarrow> I (P @ [(w_store w, r)]) (w\<lparr>w_calls := w_calls w @ [(w_store w, Place r)]\<rparr>)"
    and active_any: "I P w \<Longrightarrow> I P (w\<lparr>w_active := a\<rparr>)"
    and at_store: "I P w \<Longrightarrow> S (w_store w)"
    and intent_write: "keeps (I P) (on_store (persist_entry_intent r s t))"
    and row_write: "keeps (I P) (on_store (transition_entry_row k s))"
    and ack_write: "keeps (I P) (on_store (record_acknowledgement_and_snapshot k b s))"
begin

lemma keeps_quiet_call: "\<not> is_place c \<Longrightarrow> keeps (I P) (ask c answer)"
  by (rule keepsI) (auto simp: ask_def Let_def intro: quiet_call)

lemma keeps_calls: "keeps (I P) (clock x)" "keeps (I P) (get_order_by_link_id x c y l)"
  by (simp_all add: port_calls keeps_quiet_call)

lemma keeps_load: "keeps (I P) (on_store (load_order_intent l))"
  by (rule keepsI) (auto simp: load_order_intent_def on_store_query)

lemma keeps_active: "keeps (I P) (set_active l)"
  by (rule keepsI) (auto simp: set_active_def intro: active_any)

lemma keeps_move: "keeps (I P) (move_entry x s st)"
  unfolding move_entry_def by (intro keeping keeps_calls row_write)

lemma keeps_found: "keeps (I P) (discovered_ack x d)"
  unfolding discovered_ack_def by (intro keeping keeps_calls)

lemma keeps_failed: "keeps (I P) (place_failed x r s e)"
  unfolding place_failed_def by (intro keeping keeps_calls keeps_move keeps_found)

lemma keeps_acknowledge: "keeps (I P) (acknowledge x s a)"
  unfolding acknowledge_def by (intro keeping keeps_calls ack_write)

lemma keeps_intent: "keeps (I P) (persist_intent x r)"
  unfolding persist_intent_def by (intro keeping keeps_calls intent_write keeps_active)

definition placed_one :: "order_log \<Rightarrow> place_order_request \<Rightarrow> entry_world \<Rightarrow> bool" where
  "placed_one P r w \<longleftrightarrow> (\<exists>db. S db \<and> I (P @ [(db, r)]) w)"

definition placed_at_most :: "order_log \<Rightarrow> place_order_request \<Rightarrow> entry_world \<Rightarrow> bool" where
  "placed_at_most P r w \<longleftrightarrow> I P w \<or> placed_one P r w"

lemma triple_place_one: "triple (I P) (place_order x r) (\<lambda>_. placed_one P r) (\<lambda>_. placed_one P r)"
  unfolding place_order_def by (rule triple_ask) (auto simp: placed_one_def intro: place_call at_store)

lemma before_place:
  assumes "keeps (I P) m" shows "triple (I P) m (\<lambda>_. I P) (\<lambda>_. placed_at_most P r)"
  using assms unfolding keeps_triple by (rule triple_weaken) (auto simp: placed_at_most_def)

lemma after_place:
  assumes "\<And>P'. keeps (I P') m" shows "triple (placed_one P r) m (\<lambda>_. placed_one P r) (\<lambda>_. placed_at_most P r)"
proof -
  have "keeps (placed_one P r) m" using assms by (fastforce simp: keeps_def placed_one_def)
  then show ?thesis unfolding keeps_triple by (rule triple_weaken) (auto simp: placed_at_most_def)
qed

lemma triple_submit_one:
  "triple (I P) (submit_persisted_entry x r s) (\<lambda>_. placed_one P r) (\<lambda>_. placed_at_most P r)"
proof -
  have "triple (I P) (place_and_acknowledge x r s1) (\<lambda>_. placed_one P r) (\<lambda>_. placed_at_most P r)" for s1
    unfolding place_and_acknowledge_def
    by (rule triple_bind [OF triple_catch [OF triple_place_one]]; rule after_place; rule keeps_failed keeps_acknowledge)
  then show ?thesis
    unfolding submit_persisted_entry_def
    by (intro triple_if triple_raise triple_bind [OF before_place])
      (auto simp: placed_at_most_def intro: keeps_load keeps_active keeps_move)
qed

lemma triple_submit_entry:
  "triple (I P) (submit_entry x r) (\<lambda>_. placed_one P r) (\<lambda>_. placed_at_most P r)"
  unfolding submit_entry_def by (rule triple_bind [OF before_place [OF keeps_intent] triple_submit_one])

end

section \<open>The bare log of orders\<close>

definition placed_is :: "order_log \<Rightarrow> 'z world_scheme \<Rightarrow> bool" where
  "placed_is P w \<longleftrightarrow> placed (w_calls w) = P"

lemma keeps_placed_store: "keeps (placed_is P) (on_store m)"
  by (rule keepsI) (auto simp: on_store_def placed_is_def split: prod.splits)

interpretation logged: entry_client placed_is "\<lambda>_. True"
  by unfold_locales (auto simp: placed_is_def simp del: placed_append intro: keeps_placed_store,
      auto simp: placed_snoc)

lemma submit_entry_places:
  assumes "submit_entry x r w = (w', res)"
  shows "placed (w_calls w') = placed (w_calls w) \<and> \<not> is_ok res
    \<or> (\<exists>db. placed (w_calls w') = placed (w_calls w) @ [(db, r)])"
proof -
  have w: "placed_is (placed (w_calls w)) w" by (simp add: placed_is_def)
  note t = logged.triple_submit_entry [of "placed (w_calls w)" x r]
  show ?thesis
    using triple_Inr [OF t w] triple_Inl [OF t w] assms
    by (cases res) (auto simp: placed_is_def logged.placed_one_def logged.placed_at_most_def)
qed

section \<open>What every service keeps\<close>

lemma keeps_sound_store:
  "sound_method m \<Longrightarrow> keeps (\<lambda>w. store_ok (w_store w)) (on_store m)"
  by (rule keepsI) (auto simp: on_store_def dest: sound_methodD split: prod.splits)

section \<open>The orders a service sends\<close>

text \<open>\<open>sends Rs m\<close>: when \<open>m\<close> returns it has placed one order for each condition of \<open>Rs\<close>, in that order; when it
  raises, orders for some first conditions.\<close>

definition sent_as :: "order_log \<Rightarrow> (place_order_request \<Rightarrow> bool) list \<Rightarrow> 'z world_scheme \<Rightarrow> bool" where
  "sent_as P Rs w \<longleftrightarrow> (\<exists>new. placed (w_calls w) = P @ new \<and> list_all2 (\<lambda>p R. R (snd p)) new Rs)"

definition sends :: "(place_order_request \<Rightarrow> bool) list \<Rightarrow> ('z world_scheme, 'a) act \<Rightarrow> bool" where
  "sends Rs m \<longleftrightarrow> (\<forall>P. triple (placed_is P) m (\<lambda>_. sent_as P Rs) (\<lambda>_ w. \<exists>n. sent_as P (take n Rs) w))"

lemma sends_quiet:
  assumes "\<And>P. keeps (placed_is P) m" shows "sends [] m"
  unfolding sends_def
proof
  fix P
  from assms [of P, unfolded keeps_triple]
  show "triple (placed_is P) m (\<lambda>_. sent_as P []) (\<lambda>_ w. \<exists>n. sent_as P (take n []) w)"
    by (rule triple_weaken) (auto simp: placed_is_def sent_as_def)
qed

lemma sends_raise: "sends Rs (act_raise e)"
  unfolding sends_def by (intro allI triple_raise exI [of _ 0]) (simp add: placed_is_def sent_as_def)

lemma sends_bind:
  fixes m :: "('z world_scheme, 'a) act" and f :: "'a \<Rightarrow> ('z world_scheme, 'b) act"
  assumes "sends Rs m" "\<And>y. sends Rs' (f y)"
  shows "sends (Rs @ Rs') (act_bind m f)"
  unfolding sends_def
proof
  fix P
  have f: "triple (sent_as P Rs) (f y) (\<lambda>_. sent_as P (Rs @ Rs')) (\<lambda>_ w. \<exists>n. sent_as P (take n (Rs @ Rs')) w)" for y
  proof (rule triple_pointwise)
    fix w :: "'z world_scheme" assume "sent_as P Rs w"
    then obtain new where new: "placed (w_calls w) = P @ new" "list_all2 (\<lambda>p R. R (snd p)) new Rs" by (auto simp: sent_as_def)
    have later: "sent_as P (Rs @ Rs1) w'" if l: "sent_as (P @ new) Rs1 w'" for Rs1 and w' :: "'z world_scheme"
    proof -
      obtain new1 where "placed (w_calls w') = P @ (new @ new1)" "list_all2 (\<lambda>p R. R (snd p)) new1 Rs1"
        using l by (auto simp: sent_as_def)
      with new(2) show ?thesis unfolding sent_as_def by (blast intro: list_all2_appendI)
    qed
    have "triple (placed_is (P @ new)) (f y) (\<lambda>_. sent_as (P @ new) Rs') (\<lambda>_ w. \<exists>n. sent_as (P @ new) (take n Rs') w)"
      using assms(2) by (simp add: sends_def)
    then show "triple (\<lambda>w'. w' = w) (f y) (\<lambda>_. sent_as P (Rs @ Rs')) (\<lambda>_ w. \<exists>n. sent_as P (take n (Rs @ Rs')) w)"
    proof (rule triple_weaken)
      fix w' :: "'z world_scheme" assume "\<exists>n. sent_as (P @ new) (take n Rs') w'"
      then obtain n where "sent_as (P @ new) (take n Rs') w'" ..
      from later [OF this] show "\<exists>n. sent_as P (take n (Rs @ Rs')) w'" by (intro exI [of _ "length Rs + n"]) simp
    qed (auto simp: placed_is_def new(1) later)
  qed
  have "triple (placed_is P) m (\<lambda>_. sent_as P Rs) (\<lambda>_ w. \<exists>n. sent_as P (take n (Rs @ Rs')) w)"
  proof (rule triple_weaken [OF assms(1) [unfolded sends_def, rule_format]])
    fix w :: "'z world_scheme" assume "\<exists>n. sent_as P (take n Rs) w"
    then obtain n where "sent_as P (take n Rs) w" ..
    then have "sent_as P (take (min n (length Rs)) (Rs @ Rs')) w" by (cases "n \<le> length Rs") simp_all
    then show "\<exists>n. sent_as P (take n (Rs @ Rs')) w" ..
  qed
  then show "triple (placed_is P) (act_bind m f) (\<lambda>_. sent_as P (Rs @ Rs')) (\<lambda>_ w. \<exists>n. sent_as P (take n (Rs @ Rs')) w)"
    by (rule triple_bind) (rule f)
qed

lemma sent_nil [simp]: "sent_as P [] = placed_is P"
  by (auto simp: fun_eq_iff sent_as_def placed_is_def)

lemma sends_all:
  assumes "\<And>P. triple (placed_is P) m (\<lambda>_. sent_as P Rs) (\<lambda>_. sent_as P Rs)" shows "sends Rs m"
  unfolding sends_def
proof
  fix P
  show "triple (placed_is P) m (\<lambda>_. sent_as P Rs) (\<lambda>_ w. \<exists>n. sent_as P (take n Rs) w)"
    by (rule triple_weaken [OF assms]) (auto intro: exI [of _ "length Rs"])
qed

lemmas sends_after_quiet = sends_bind [where Rs = "[]", unfolded append_Nil]
lemmas sends_then_quiet = sends_bind [where Rs' = "[]", unfolded append_Nil2]

lemma sends_lift: "(\<And>y. r = Inr y \<Longrightarrow> sends Rs (f y)) \<Longrightarrow> sends Rs (act_bind (act_lift r) f)"
  using sends_raise by (cases r) (fastforce simp: sends_def triple_def act_bind_def act_lift_def)+

lemma sends_outcome:
  fixes m :: "('z world_scheme, 'a) act"
  assumes "sends Rs m" "m w = (w', out)"
  shows "\<exists>new n. placed (w_calls w') = placed (w_calls w) @ new \<and> list_all2 (\<lambda>p R. R (snd p)) new (take n Rs)
    \<and> (is_ok out \<longrightarrow> length new = length Rs)"
proof -
  have w: "placed_is (placed (w_calls w)) w" by (simp add: placed_is_def)
  note t = assms(1) [unfolded sends_def, rule_format]
  show ?thesis
  proof (cases out)
    case (Inr y)
    with triple_Inr [OF t w] assms(2) obtain new where
      "placed (w_calls w') = placed (w_calls w) @ new" "list_all2 (\<lambda>p R. R (snd p)) new Rs" by (auto simp: sent_as_def)
    then show ?thesis by (intro exI [of _ new] exI [of _ "length Rs"]) (simp add: list_all2_lengthD)
  next
    case (Inl e)
    with triple_Inl [OF t w] assms(2) show ?thesis by (auto simp: sent_as_def)
  qed
qed

section \<open>What the methods keep\<close>

text \<open>A predicate that survives every call but the placing of an order, and every write of the store, survives
  the methods that place nothing.\<close>

locale observer =
  fixes I :: "'z world_scheme \<Rightarrow> bool"
  assumes other_call: "\<not> is_place c \<Longrightarrow> I w \<Longrightarrow> I (w\<lparr>w_calls := w_calls w @ [(w_store w, c)]\<rparr>)"
    and any_write: "I w \<Longrightarrow> (store_ok (w_store w) \<Longrightarrow> store_ok db \<and> evolves (w_store w) db) \<Longrightarrow> I (w\<lparr>w_store := db\<rparr>)"
begin

lemma keeps_other_ask: "\<not> is_place c \<Longrightarrow> keeps I (ask c answer)"
  by (rule keepsI) (auto simp: ask_def Let_def intro: other_call)

lemma keeps_every_port: "keeps I (clock x)" "keeps I sleep" "keeps I (get_order_by_link_id x c y l)"
  "keeps I (get_open_orders x c y)" "keeps I (get_positions x c y)" "keeps I (cancel_order x k)"
  "keeps I (get_execution_history x c y l)"
  by (simp_all add: port_calls keeps_other_ask)

lemma keeps_method: "sound_method m \<Longrightarrow> keeps I (on_store m)"
proof (rule keepsI)
  fix w w' :: "'z world_scheme" and r assume m: "sound_method m" "on_store m w = (w', r)" and inv: "I w"
  then obtain db where db: "m (w_store w) = (db, r)" "w' = w\<lparr>w_store := db\<rparr>"
    by (auto simp: on_store_def split: prod.splits)
  with any_write [OF inv sound_methodD [OF db(1) _ m(1)]] show "I w'" by simp
qed

lemma keeps_every_query:
  "keeps I (on_store (load_entry_snapshot l))" "keeps I (on_store (load_protection_snapshot l))"
  "keeps I (on_store (load_protection_snapshot_by_exit_id l))" "keeps I (on_store load_all_protection_snapshots)"
  "keeps I (on_store (has_execution i))" "keeps I (on_store (load_order_intent l))"
  by (rule keeps_method, simp add: load_entry_snapshot_def load_protection_snapshot_def has_execution_def
      load_protection_snapshot_by_exit_id_def load_all_protection_snapshots_def load_order_intent_def sound_queries)+

lemmas kept = keeping keeps_every_port keeps_every_query sound_methods [THEN keeps_method]

lemma keeps_discovery: "keeps I (discovered_ack x d)"
  unfolding discovered_ack_def by (intro kept)

lemma keeps_entry_move: "keeps I (move_entry x s st)"
  unfolding move_entry_def by (intro kept)

lemma keeps_apply: "keeps I (apply_execution e t h)"
  unfolding apply_execution_def required_snapshot_def by (intro kept)

lemma keeps_finalize: "keeps I (finalize_partial_fill x l)"
  unfolding finalize_partial_fill_def required_snapshot_def by (intro kept)

lemma keeps_visible: "keeps I (await_visible x r left)"
proof (induction left)
  case 0
  show ?case unfolding await_visible.simps by (intro kept)
next
  case (Suc left)
  show ?case unfolding await_visible.simps by (intro kept Suc)
qed

lemma keeps_aside: "keeps I (set_reconciling x s)"
  unfolding set_reconciling_def by (intro kept)

lemma keeps_exit_booking: "keeps I (book_exit_execution e t h)"
  unfolding book_exit_execution_def by (intro kept)

lemma keeps_exit_reconciliation: "keeps I (reconcile_after_exit x l)"
  unfolding reconcile_after_exit_def pending_exit_def cancel_exit_def settle_exit_def by (intro kept keeps_aside)

end

text \<open>One that also survives the placing of an order survives the exits.\<close>

locale recorder = observer +
  assumes order_call: "I w \<Longrightarrow> I (w\<lparr>w_calls := w_calls w @ [(w_store w, Place r)]\<rparr>)"
begin

lemma keeps_placing: "keeps I (place_order x r)"
  unfolding place_order_def by (rule keepsI) (auto simp: ask_def Let_def intro: order_call)

lemma keeps_confirming: "keeps I (place_and_confirm v x r s confirm)"
  unfolding place_and_confirm_def place_and_confirm_visible_def place_or_discover_def
  by (intro kept keeps_placing keeps_visible keeps_aside keeps_discovery)

lemma keeps_installing: "keeps I (install_stop v x link i l rate)" "keeps I (install_take_profit v x s i l price policy)"
  unfolding install_stop_def install_take_profit_def filled_entry_def by (intro kept keeps_confirming)+

end

text \<open>One that does not look at the entry last submitted survives the methods of the entry service.\<close>

locale entry_observer = observer I for I :: "entry_world \<Rightarrow> bool" +
  assumes any_active: "I w \<Longrightarrow> I (w\<lparr>w_active := a\<rparr>)"
begin

lemma keeps_reconcile_position: "keeps I (reconcile_position x positions)"
proof -
  have "keeps I active_link" by (rule keepsI) (auto simp: active_link_def)
  then show ?thesis
    unfolding reconcile_position_def required_snapshot_def by (intro kept keeps_entry_move)
qed

end

locale entry_recorder = recorder I + entry_observer I for I :: "entry_world \<Rightarrow> bool"
begin

lemma keeps_activation: "keeps I (set_active l)"
  by (rule keepsI) (auto simp: set_active_def intro: any_active)

lemma keeps_submitting: "keeps I (submit_entry x r)"
  unfolding submit_entry_def persist_intent_def submit_persisted_entry_def place_and_acknowledge_def place_failed_def
    acknowledge_def
  by (intro kept keeps_placing keeps_entry_move keeps_discovery keeps_activation)

end

interpretation past: recorder "shown x l d" for x l d
  by unfold_locales (auto simp: shown_def intro: prefix_order.trans)

interpretation sound: recorder "\<lambda>w. store_ok (w_store w)"
  by unfold_locales simp_all

interpretation bare: observer "sent_as P Rs" for P Rs
  by unfold_locales (auto simp: sent_as_def simp del: placed_append)

interpretation entry_bare: entry_observer "sent_as P Rs :: entry_world \<Rightarrow> bool" for P Rs
  by unfold_locales (auto simp: sent_as_def)

interpretation entry_sound: entry_recorder "\<lambda>w :: entry_world. store_ok (w_store w)"
  by unfold_locales simp_all

lemma get_positions_reports:
  assumes "get_positions x c y w = (w', Inr positions)"
  shows "reported x positions w'" "w_store w' = w_store w" "shown x l d w \<Longrightarrow> shown x l d w'"
  using assms keepsD [OF past.keeps_every_port(5) assms] by (auto simp: get_positions_def ask_def Let_def reported_def)

end
