(* ===== verification/Same_Level_Recovery.thy ===== *)
theory Same_Level_Recovery
  imports Entry_Client
begin

text \<open>
  \<open>application/same_level_recovery.py\<close>: the service that books confirmed stop losses as recovery debt of
  a level and submits the recovery entry that is to earn it back. It composes the planner, the durable
  debts and the entry service. The lemmas follow \<open>submit_recovery\<close>: the order it places, at most one,
  carries the quantity of an approved plan, and at the moment of placing the debt it is to earn is
  allocated in the store.
\<close>

section \<open>The service\<close>

record recovery_submission =
  sb_plan :: recovery_entry_plan
  sb_entry_snapshot :: "entry_snapshot option"
  sb_debt_snapshot :: recovery_debt_snapshot

text \<open>A new version of a stored debt: the reducer, the clock, then the constructor.\<close>

definition next_debt ::
    "exchange \<Rightarrow> recovery_debt_snapshot \<Rightarrow> recovery_debt_state res \<Rightarrow> ('z world_scheme, recovery_debt_snapshot) act" where
  "next_debt x s r = act_bind (act_lift r) (\<lambda>d. act_bind (clock x) (\<lambda>now.
     act_lift (mk_recovery_debt_snapshot (s\<lparr>rd_debt := d, rd_version := rd_version s + 1, rd_updated_at := now\<rparr>))))"

definition move_debt ::
    "exchange \<Rightarrow> recovery_debt_snapshot \<Rightarrow> recovery_debt_state res \<Rightarrow> ('z world_scheme, recovery_debt_snapshot) act" where
  "move_debt x s r = act_bind (next_debt x s r) (\<lambda>s1.
     act_bind (on_store (transition_recovery_debt_snapshot (rd_version s) s1)) (\<lambda>_. act_return s1))"

definition with_projection :: "recovery_debt_state \<Rightarrow> dec \<Rightarrow> recovery_debt_state res" where
  "with_projection d projected = mk_recovery_debt_state (d\<lparr>projected_debt := projected\<rparr>)"

definition required_debt :: "int \<Rightarrow> ('z world_scheme, recovery_debt_snapshot) act" where
  "required_debt lid = act_bind (on_store (load_recovery_debt_snapshot lid))
     (missing ''recovery debt snapshot does not exist'')"

definition first_debt :: "exchange \<Rightarrow> int \<Rightarrow> dec \<Rightarrow> dec \<Rightarrow> ('z world_scheme, recovery_debt_snapshot) act" where
  "first_debt x lid lost projected =
     act_bind (act_lift (r_bind (empty_debt projected) (\<lambda>d. add_confirmed_stop_debt d lost))) (\<lambda>d.
     act_bind (clock x) (\<lambda>now.
     act_bind (act_lift (mk_recovery_debt_snapshot \<lparr>rd_level_id = lid, rd_debt = d, rd_version = 1, rd_updated_at = now\<rparr>)) (\<lambda>s.
     act_bind (on_store (persist_recovery_debt_snapshot s)) (\<lambda>_. act_return s))))"

definition record_confirmed_stop_debt :: "exchange \<Rightarrow> int \<Rightarrow> dec \<Rightarrow> dec \<Rightarrow> ('z world_scheme, recovery_debt_snapshot) act" where
  "record_confirmed_stop_debt x lid lost projected =
     act_bind (on_store (load_recovery_debt_snapshot lid)) (\<lambda>current. case current of
       None \<Rightarrow> first_debt x lid lost projected
     | Some s \<Rightarrow> move_debt x s (r_bind (with_projection (rd_debt s) projected) (\<lambda>d. add_confirmed_stop_debt d lost)))"

text \<open>The kill switch, if there is one, vetoes an approved plan.\<close>

definition gated_plan :: "bool option \<Rightarrow> recovery_entry_plan \<Rightarrow> recovery_entry_plan" where
  "gated_plan gate plan = (if rp_approved plan \<and> gate = Some False
     then plan\<lparr>rp_approved := False, rp_quantity := None, rp_allocated_debt := 0,
       rp_reasons := rp_reasons plan @ [''kill switch blocks new entries''], rp_locked_action := None\<rparr>
     else plan)"

definition recovery_request :: "dec \<Rightarrow> string \<Rightarrow> place_order_request" where
  "recovery_request quantity link = \<lparr>po_category = linear_category, po_symbol = ''ETHUSDT'', po_side = Sell, po_order_type = Market,
     po_quantity = quantity, po_order_link_id = link, po_price = None, po_time_in_force = IOC, po_reduce_only = False,
     po_trigger_price = None, po_trigger_direction = None, po_trigger_by = None, po_position_idx = 0, po_close_on_trigger = False\<rparr>"

text \<open>Submission of the persisted entry: after an uncertain outcome the debt stays allocated, after any other
  exception it is released.\<close>

definition submit_allocated ::
    "exchange \<Rightarrow> place_order_request \<Rightarrow> entry_snapshot \<Rightarrow> recovery_debt_snapshot \<Rightarrow> entry_snapshot entry_act" where
  "submit_allocated x r entry allocated = act_catch (submit_persisted_entry x r entry)
     (\<lambda>e. case e of
        UncertainOrderOutcomeError _ \<Rightarrow> act_raise e
      | _ \<Rightarrow> on_exception (\<lambda>e. act_bind (move_debt x allocated (release_allocated_debt (rd_debt allocated))) (\<lambda>_. act_raise e)) e)"

definition submit_plan ::
    "exchange \<Rightarrow> recovery_entry_plan \<Rightarrow> recovery_debt_snapshot \<Rightarrow> dec \<Rightarrow> string \<Rightarrow> recovery_submission entry_act" where
  "submit_plan x plan s quantity link = act_bind (act_lift (mk_place_order_request (recovery_request quantity link))) (\<lambda>r.
     act_bind (persist_intent x r) (\<lambda>entry.
     act_bind (move_debt x s (allocate_confirmed_debt (rd_debt s))) (\<lambda>allocated.
     act_bind (submit_allocated x r entry allocated) (\<lambda>submitted.
     act_return \<lparr>sb_plan = plan, sb_entry_snapshot = Some submitted, sb_debt_snapshot = allocated\<rparr>))))"

definition submit_recovery ::
    "exchange \<Rightarrow> bool option \<Rightarrow> hedge_level \<Rightarrow> instrument_spec \<Rightarrow> risk_state \<Rightarrow> risk_limits \<Rightarrow> string \<Rightarrow> recovery_submission entry_act" where
  "submit_recovery x gate l instrument rs limits link = act_bind (required_debt (int (level_id l))) (\<lambda>s.
     act_bind (act_lift (plan_recovery l (rd_debt s) instrument rs limits)) (\<lambda>planned.
     let plan = gated_plan gate planned
     in case rp_quantity plan of
          None \<Rightarrow> act_return \<lparr>sb_plan = plan, sb_entry_snapshot = None, sb_debt_snapshot = s\<rparr>
        | Some q \<Rightarrow> if \<not> rp_approved plan
            then act_return \<lparr>sb_plan = plan, sb_entry_snapshot = None, sb_debt_snapshot = s\<rparr>
            else submit_plan x plan s q link))"

definition settle_take_profit :: "exchange \<Rightarrow> int \<Rightarrow> dec \<Rightarrow> dec \<Rightarrow> ('z world_scheme, recovery_debt_snapshot) act" where
  "settle_take_profit x lid realized zone = act_bind (required_debt lid) (\<lambda>s.
     move_debt x s (settle_recovery_take_profit (rd_debt s) realized zone))"

definition record_recovery_stop_debt :: "exchange \<Rightarrow> int \<Rightarrow> dec \<Rightarrow> dec \<Rightarrow> ('z world_scheme, recovery_debt_snapshot) act" where
  "record_recovery_stop_debt x lid lost projected = act_bind (required_debt lid) (\<lambda>s.
     if allocated_debt (rd_debt s) = 0 then act_raise (ValueError ''recovery stop requires explicitly allocated debt'')
     else move_debt x s (r_bind (release_allocated_debt (rd_debt s)) (\<lambda>released.
       r_bind (with_projection released projected) (\<lambda>d. add_confirmed_stop_debt d lost))))"

section \<open>One submission\<close>

text \<open>The debt of a level and the orders placed so far. The entry service leaves the debts alone.\<close>

definition debt_at :: "(database \<times> place_order_request) list \<Rightarrow> int \<Rightarrow> recovery_debt_snapshot option \<Rightarrow> 'z world_scheme \<Rightarrow> bool" where
  "debt_at P lv D w \<longleftrightarrow> store_ok (w_store w) \<and> debt_of (w_store w) lv = D \<and> placed (w_calls w) = P"

definition leaves_debts :: "(database, 'a) act \<Rightarrow> bool" where
  "leaves_debts m \<longleftrightarrow> (\<forall>db db' r. m db = (db', r) \<longrightarrow> db_debts db' = db_debts db)"

lemma keeps_debt_store: "sound_method m \<Longrightarrow> leaves_debts m \<Longrightarrow> keeps (debt_at P lv D) (on_store m)"
proof (rule keepsI)
  fix w w' :: "'z world_scheme" and r
  assume m: "sound_method m" "leaves_debts m" "on_store m w = (w', r)" and d: "debt_at P lv D w"
  then obtain db where db: "m (w_store w) = (db, r)" "w' = w\<lparr>w_store := db\<rparr>"
    by (auto simp: on_store_def split: prod.splits)
  with m(2) have "db_debts db = db_debts (w_store w)" by (simp add: leaves_debts_def)
  with sound_methodD [OF db(1) _ m(1)] d show "debt_at P lv D w'" by (simp add: debt_at_def db(2))
qed

lemma leaves_debts_queries: "leaves_debts (act_query q)" "leaves_debts (act_get f)"
  by (simp_all add: leaves_debts_def act_query_def act_get_def)

lemma leaves_debts_writes:
  "leaves_debts (persist_entry_intent r s t)" "leaves_debts (transition_entry_row k s)"
  "leaves_debts (record_acknowledgement_and_snapshot k a s)"
  by (auto simp: leaves_debts_def persist_entry_intent_def persist_entry_intent_rows_def transition_entry_row_def
      record_acknowledgement_and_snapshot_def record_acknowledgement_and_snapshot_rows_def transact_def commit_def
      insert_order_intent_def insert_entry_snapshot_def update_snapshot_def acknowledge_intent_def on_integrity_error_def
      r_bind_eq_Inr split: sum.splits py_exn.splits if_splits)

lemma keeps_debt_clock: "keeps (debt_at P lv D) (clock x)"
  by (rule keepsI) (auto simp: port_calls ask_def Let_def debt_at_def)

lemma keeps_debt_rules:
  "keeps (debt_at P lv D) (on_store (persist_entry_intent r s t))"
  "keeps (debt_at P lv D) (on_store (transition_entry_row k s))"
  "keeps (debt_at P lv D) (on_store (record_acknowledgement_and_snapshot k a s))"
  by (rule keeps_debt_store; simp add: leaves_debts_writes sound_methods)+

interpretation indebted: entry_client "\<lambda>P. debt_at P lv (Some s)" "\<lambda>db. debt_of db lv = Some s"
  by unfold_locales (auto simp: debt_at_def simp del: placed_append intro: keeps_debt_rules,
      auto simp: placed_snoc)

abbreviation placed_with :: "order_log \<Rightarrow> int \<Rightarrow> recovery_debt_snapshot \<Rightarrow> place_order_request \<Rightarrow> entry_world \<Rightarrow> bool" where
  "placed_with P lv s r \<equiv> indebted.placed_one lv s P r"

abbreviation maybe_placed :: "order_log \<Rightarrow> int \<Rightarrow> recovery_debt_snapshot \<Rightarrow> place_order_request \<Rightarrow> entry_world \<Rightarrow> bool" where
  "maybe_placed P lv s r \<equiv> indebted.placed_at_most lv s P r"

lemmas placed_with_def = indebted.placed_one_def

text \<open>Writing the next version of the debt.\<close>

lemma mk_recovery_debt_same: "mk_recovery_debt_snapshot s = Inr s' \<Longrightarrow> s' = s" "mk_recovery_debt_state d = Inr d' \<Longrightarrow> d' = d"
  by (auto simp: mk_recovery_debt_snapshot_def mk_recovery_debt_state_def check_all_Inr)

definition next_of :: "recovery_debt_snapshot \<Rightarrow> recovery_debt_state \<Rightarrow> recovery_debt_snapshot \<Rightarrow> bool" where
  "next_of s d s1 \<longleftrightarrow> rd_level_id s1 = rd_level_id s \<and> rd_version s1 = rd_version s + 1 \<and> rd_debt s1 = d"

text \<open>The clock is a parameter; the store refuses a reading without a time zone. With a clock that has one, a
  debt that was read from the store moves whenever its reducer succeeds.\<close>

definition aware_clock :: "exchange \<Rightarrow> bool" where
  "aware_clock x \<longleftrightarrow> (\<forall>h. is_aware (x_clock x h))"

definition versioned_debt :: "recovery_debt_snapshot \<Rightarrow> bool" where
  "versioned_debt s \<longleftrightarrow> 0 < rd_level_id s \<and> 0 < rd_version s"

lemma update_debt_succeeds:
  assumes "debt_of db (rd_level_id s) = Some s" "rd_level_id s1 = rd_level_id s" "rd_version s1 = rd_version s + 1"
  shows "is_ok (update_recovery_debt (rd_version s) s1 db)"
proof -
  have "list_ex (\<lambda>r. rd_level_id r = rd_level_id s1 \<and> rd_version r = rd_version s) (db_debts db)"
    using find_row_SomeD [OF assms(1)] assms(2) by (auto simp: list_ex_iff)
  with assms(3) show ?thesis by (simp add: update_recovery_debt_def update_version_def raise_if_def)
qed

lemma triple_move_debt:
  assumes lv: "rd_level_id s = lv"
  shows "triple (debt_at Ps lv (Some s)) (move_debt x s r)
    (\<lambda>s1 w. debt_at Ps lv (Some s1) w \<and> (\<exists>d. r = Inr d \<and> next_of s d s1))
    (\<lambda>_ w. debt_at Ps lv (Some s) w \<and> (is_ok r \<and> versioned_debt s \<longrightarrow> \<not> aware_clock x))"
    (is "triple ?D _ ?Q ?E")
proof -
  have clk: "triple ?D (clock x) (\<lambda>now w. ?D w \<and> (aware_clock x \<longrightarrow> is_aware now)) ?E"
    by (rule tripleI) (auto simp: clock_def ask_def Let_def debt_at_def aware_clock_def)
  have moved': "triple ?D (next_debt x s r) (\<lambda>s1 w. ?D w \<and> (\<exists>d. r = Inr d \<and> next_of s d s1)) ?E"
  proof (cases r)
    case (Inr d)
    have made: "triple (\<lambda>w. ?D w \<and> (aware_clock x \<longrightarrow> is_aware now))
        (act_lift (mk_recovery_debt_snapshot (s\<lparr>rd_debt := d, rd_version := rd_version s + 1, rd_updated_at := now\<rparr>)))
        (\<lambda>s1 w. ?D w \<and> (\<exists>d. r = Inr d \<and> next_of s d s1)) ?E" for now
      by (rule triple_lift) (auto simp: Inr next_of_def versioned_debt_def mk_recovery_debt_snapshot_def check_all.simps split: if_splits)
    show ?thesis
      unfolding next_debt_def by (rule triple_lift_bind) (use triple_bind [OF clk made] Inr in auto)
  qed (simp add: next_debt_def act_lift_def act_bind_def triple_def)
  have stored: "triple (\<lambda>w. ?D w \<and> (\<exists>d. r = Inr d \<and> next_of s d s1))
      (on_store (transition_recovery_debt_snapshot (rd_version s) s1))
      (\<lambda>_ w. debt_at Ps lv (Some s1) w \<and> (\<exists>d. r = Inr d \<and> next_of s d s1)) ?E" for s1
    unfolding transition_recovery_debt_snapshot_def
  proof (rule triple_transact)
    fix w db y assume w: "?D w \<and> (\<exists>d. r = Inr d \<and> next_of s d s1)"
      and "commit [update_recovery_debt (rd_version s) s1] (w_store w) = Inr (db, y)"
    then have u: "update_recovery_debt (rd_version s) s1 (w_store w) = Inr db" by (auto simp: commit_def)
    have ok: "store_ok (w_store w)" using w by (simp add: debt_at_def)
    have "store_ok db" using sound_update_debt ok u unfolding sound_statement_def by blast
    moreover have "debt_of db lv = Some s1"
      using debts.save_writes [OF ok u] w lv by (auto simp: next_of_def)
    ultimately show "debt_at Ps lv (Some s1) (w\<lparr>w_store := db\<rparr>) \<and> (\<exists>d. r = Inr d \<and> next_of s d s1)"
      using w by (simp add: debt_at_def)
  next
    fix w e assume w: "?D w \<and> (\<exists>d. r = Inr d \<and> next_of s d s1)"
      and "commit [update_recovery_debt (rd_version s) s1] (w_store w) = Inl e"
    then have "\<not> is_ok (update_recovery_debt (rd_version s) s1 (w_store w))" by (auto simp: commit_def is_ok_iff)
    with update_debt_succeeds w lv show "?D w \<and> (is_ok r \<and> versioned_debt s \<longrightarrow> \<not> aware_clock x)"
      by (auto simp: debt_at_def next_of_def)
  qed
  show ?thesis
    unfolding move_debt_def by (rule triple_bind [OF moved' triple_bind [OF stored]]) (rule triple_return)
qed

lemma triple_required_debt:
  "triple (debt_at Ps lv D) (required_debt lv) (\<lambda>s w. debt_at Ps lv (Some s) w \<and> D = Some s \<and> rd_level_id s = lv)
     (\<lambda>_. debt_at Ps lv D)"
  unfolding required_debt_def load_recovery_debt_snapshot_def
proof (rule triple_bind [where R = "\<lambda>v w. debt_at Ps lv D w \<and> (\<forall>s. v = Some s \<longrightarrow> D = Some s \<and> rd_level_id s = lv)"],
    rule triple_load)
  fix v
  show "triple (\<lambda>w. debt_at Ps lv D w \<and> (\<forall>s. v = Some s \<longrightarrow> D = Some s \<and> rd_level_id s = lv))
      (missing ''recovery debt snapshot does not exist'' v)
      (\<lambda>s w. debt_at Ps lv (Some s) w \<and> D = Some s \<and> rd_level_id s = lv) (\<lambda>_. debt_at Ps lv D)"
    by (cases v) (auto simp: missing_def intro!: triple_raise triple_return)
qed (auto simp: debt_at_def fetch_one_Inr recovery_debt_from_row_def r_bind_eq_Inr dest!: mk_recovery_debt_same
      dest: find_row_SomeD split: option.splits)

section \<open>Debt before exposure\<close>

definition one_more :: "(database \<times> place_order_request) list \<Rightarrow> int \<Rightarrow> recovery_debt_snapshot \<Rightarrow> place_order_request
    \<Rightarrow> (database \<times> place_order_request) list \<Rightarrow> bool" where
  "one_more P lv s r P' \<longleftrightarrow> P' = P \<or> (\<exists>db. debt_of db lv = Some s \<and> P' = P @ [(db, r)])"

text \<open>An uncertain outcome, and a crash of the process, which no handler runs after, leave the debt allocated.
  After any other exception the debt of the level is the next version, with nothing allocated and all that is
  confirmed remaining again; only a clock reading the store refuses can keep that version from it.\<close>

definition keeps_allocation :: "py_exn \<Rightarrow> bool" where
  "keeps_allocation e \<longleftrightarrow> (case e of UncertainOrderOutcomeError _ \<Rightarrow> True | InjectedProcessCrash _ \<Rightarrow> True | _ \<Rightarrow> False)"

definition released_from :: "recovery_debt_snapshot \<Rightarrow> recovery_debt_snapshot \<Rightarrow> bool" where
  "released_from a s1 \<longleftrightarrow> rd_level_id s1 = rd_level_id a \<and> rd_version s1 = rd_version a + 1
     \<and> rd_debt s1 = (rd_debt a)\<lparr>allocated_debt := 0, remaining_debt := confirmed_debt (rd_debt a)\<rparr>"

definition debt_left :: "exchange \<Rightarrow> recovery_debt_snapshot \<Rightarrow> py_exn \<Rightarrow> recovery_debt_snapshot option \<Rightarrow> bool" where
  "debt_left x a e D \<longleftrightarrow> (if keeps_allocation e then D = Some a
     else (\<exists>s1. D = Some s1 \<and> released_from a s1) \<or> \<not> aware_clock x \<and> D = Some a)"

definition allocation_failed :: "exchange \<Rightarrow> (database \<times> place_order_request) list \<Rightarrow> int \<Rightarrow> recovery_debt_snapshot \<Rightarrow> place_order_request
    \<Rightarrow> py_exn \<Rightarrow> 'z world_scheme \<Rightarrow> bool" where
  "allocation_failed x P lv s r e w \<longleftrightarrow> one_more P lv s r (placed (w_calls w)) \<and> debt_left x s e (debt_of (w_store w) lv)"

lemma triple_some:
  "(\<And>v. K v \<Longrightarrow> triple (A v) m Q E) \<Longrightarrow> triple (\<lambda>w. \<exists>v. K v \<and> A v w) m Q E"
  by (fastforce simp: triple_def)

lemma maybe_placed_iff: "maybe_placed P lv s r = (\<lambda>w. \<exists>P'. one_more P lv s r P' \<and> debt_at P' lv (Some s) w)"
  by (auto simp: indebted.placed_at_most_def placed_with_def one_more_def fun_eq_iff)

text \<open>What allocation makes of a debt read from the store: the release of it succeeds.\<close>

definition allocated_from :: "recovery_debt_snapshot \<Rightarrow> recovery_debt_snapshot \<Rightarrow> bool" where
  "allocated_from s a \<longleftrightarrow> rd_level_id a = rd_level_id s \<and> rd_version a = rd_version s + 1
     \<and> rd_debt a = (rd_debt s)\<lparr>allocated_debt := remaining_debt (rd_debt s), remaining_debt := 0\<rparr>"

definition releasable :: "recovery_debt_snapshot \<Rightarrow> bool" where
  "releasable a \<longleftrightarrow> versioned_debt a \<and> release_allocated_debt (rd_debt a)
     = Inr ((rd_debt a)\<lparr>allocated_debt := 0, remaining_debt := confirmed_debt (rd_debt a)\<rparr>)"

lemma release_of_allocated:
  assumes "allocate_confirmed_debt d = Inr d'" "mk_recovery_debt_state d = Inr d"
  shows "release_allocated_debt d' = Inr (d'\<lparr>allocated_debt := 0, remaining_debt := confirmed_debt d'\<rparr>)"
  using assms
  by (auto simp: allocate_confirmed_debt_def release_allocated_debt_def mk_recovery_debt_state_def check_all_Inr check_all.simps
      split: if_splits)

lemma allocated_next:
  assumes "allocate_confirmed_debt (rd_debt s) = Inr d" "next_of s d a"
    and "mk_recovery_debt_state (rd_debt s) = Inr (rd_debt s)" "versioned_debt s"
  shows "allocated_from s a" "releasable a"
proof -
  show "allocated_from s a"
    using assms(1,2) by (auto simp: allocate_confirmed_debt_def allocated_from_def next_of_def dest!: mk_recovery_debt_same)
  show "releasable a"
    using release_of_allocated [OF assms(1,3)] assms(2,4) by (simp add: releasable_def versioned_debt_def next_of_def)
qed

lemma triple_release:
  assumes "rd_level_id s = lv" "releasable s" "\<not> keeps_allocation e"
  shows "triple (maybe_placed P lv s r)
    (act_bind (move_debt x s (release_allocated_debt (rd_debt s))) (\<lambda>_. act_raise e)) Q (allocation_failed x P lv s r)"
  unfolding maybe_placed_iff
proof (rule triple_some)
  fix P' assume P': "one_more P lv s r P'"
  show "triple (debt_at P' lv (Some s)) (act_bind (move_debt x s (release_allocated_debt (rd_debt s))) (\<lambda>_. act_raise e))
      Q (allocation_failed x P lv s r)"
  proof (rule triple_bind)
    show "triple (debt_at P' lv (Some s)) (move_debt x s (release_allocated_debt (rd_debt s)))
        (\<lambda>_ w. \<exists>s1. debt_at P' lv (Some s1) w \<and> released_from s s1) (allocation_failed x P lv s r)"
      by (rule triple_weaken [OF triple_move_debt [OF assms(1)]])
        (use P' assms(2) in \<open>auto simp: next_of_def released_from_def releasable_def allocation_failed_def debt_left_def debt_at_def\<close>)
  qed (use P' assms(3) in \<open>auto simp: allocation_failed_def debt_left_def debt_at_def intro!: triple_raise\<close>)
qed

lemma maybe_kept: "maybe_placed P lv s r w \<Longrightarrow> keeps_allocation e \<Longrightarrow> allocation_failed x P lv s r e w"
  by (auto simp: maybe_placed_iff allocation_failed_def debt_left_def debt_at_def)

lemma triple_submit_allocated:
  assumes "rd_level_id s = lv" "releasable s"
  shows "triple (debt_at P lv (Some s)) (submit_allocated x r entry s) (\<lambda>_. placed_with P lv s r) (allocation_failed x P lv s r)"
  unfolding submit_allocated_def
proof (rule triple_catch [OF indebted.triple_submit_one])
  fix e
  show "triple (maybe_placed P lv s r) (case e of UncertainOrderOutcomeError _ \<Rightarrow> act_raise e
      | _ \<Rightarrow> on_exception (\<lambda>e. act_bind (move_debt x s (release_allocated_debt (rd_debt s))) (\<lambda>_. act_raise e)) e)
      (\<lambda>_. placed_with P lv s r) (allocation_failed x P lv s r)"
  proof (cases "keeps_allocation e")
    case True
    then show ?thesis
      by (cases e) (auto simp: keeps_allocation_def on_exception_def intro!: triple_raise maybe_kept)
  next
    case False
    from triple_release [OF assms this] False show ?thesis
      by (cases e) (simp_all add: keeps_allocation_def on_exception_def)
  qed
qed

text \<open>A submission that fails before the allocation leaves the debt as it was.\<close>

definition submission_failed :: "exchange \<Rightarrow> (database \<times> place_order_request) list \<Rightarrow> recovery_debt_snapshot \<Rightarrow> place_order_request
    \<Rightarrow> py_exn \<Rightarrow> 'z world_scheme \<Rightarrow> bool" where
  "submission_failed x P s r e w \<longleftrightarrow> debt_at P (rd_level_id s) (Some s) w
     \<or> (\<exists>a. allocated_from s a \<and> allocation_failed x P (rd_level_id s) a r e w)"

lemma triple_submit_plan:
  assumes lv: "rd_level_id s = lv" and s: "mk_recovery_debt_state (rd_debt s) = Inr (rd_debt s)" "versioned_debt s"
  shows "triple (debt_at P lv (Some s)) (submit_plan x plan s q link)
    (\<lambda>sub w. \<exists>a. allocated_from s a \<and> placed_with P lv a (recovery_request q link) w)
    (submission_failed x P s (recovery_request q link))"
    (is "triple ?D _ ?Q ?E")
proof -
  let ?r = "recovery_request q link"
  let ?A = "\<lambda>a w. debt_at P lv (Some a) w \<and> (\<exists>d. allocate_confirmed_debt (rd_debt s) = Inr d \<and> next_of s d a)"
  have rest: "triple (?A a) (act_bind (submit_allocated x ?r entry a)
        (\<lambda>submitted. act_return \<lparr>sb_plan = plan, sb_entry_snapshot = Some submitted, sb_debt_snapshot = a\<rparr>)) ?Q ?E" for entry a
  proof (rule triple_pre [where b = "allocated_from s a \<and> releasable a"])
    assume a: "allocated_from s a \<and> releasable a"
    then have "rd_level_id a = lv" "releasable a" using lv by (simp_all add: allocated_from_def)
    from triple_submit_allocated [OF this, of P x ?r entry]
    have "triple (?A a) (submit_allocated x ?r entry a) (\<lambda>_. placed_with P lv a ?r) ?E"
      by (rule triple_weaken) (use a lv in \<open>auto simp: submission_failed_def\<close>)
    then show "triple (?A a) (act_bind (submit_allocated x ?r entry a)
        (\<lambda>submitted. act_return \<lparr>sb_plan = plan, sb_entry_snapshot = Some submitted, sb_debt_snapshot = a\<rparr>)) ?Q ?E"
      by (rule triple_bind) (use a in \<open>auto intro: triple_return\<close>)
  qed (use s in \<open>auto dest: allocated_next\<close>)
  have move: "triple ?D (move_debt x s (allocate_confirmed_debt (rd_debt s))) ?A ?E"
    by (rule triple_weaken [OF triple_move_debt [OF lv]]) (auto simp: submission_failed_def lv)
  have intent: "triple ?D (persist_intent x r) (\<lambda>_. ?D) ?E" for r
    using indebted.keeps_intent unfolding keeps_triple by (rule triple_weaken) (auto simp: submission_failed_def lv)
  have "triple ?D (act_bind (persist_intent x r) (\<lambda>entry. act_bind (move_debt x s (allocate_confirmed_debt (rd_debt s)))
      (\<lambda>a. act_bind (submit_allocated x r entry a)
        (\<lambda>submitted. act_return \<lparr>sb_plan = plan, sb_entry_snapshot = Some submitted, sb_debt_snapshot = a\<rparr>)))) ?Q ?E"
    if "r = ?r" for r
    unfolding that by (rule triple_bind [OF intent triple_bind [OF move]]) (rule rest)
  then show ?thesis
    unfolding submit_plan_def
    by (intro triple_lift_bind) (auto simp: submission_failed_def lv dest: stop_request_same)
qed

lemma required_debt_reads:
  assumes "required_debt lv w = (w', r)"
  shows "w' = w" "r = Inr s \<Longrightarrow> debt_of (w_store w) lv = Some s \<and> rd_level_id s = lv"
    "r = Inr s \<Longrightarrow> mk_recovery_debt_state (rd_debt s) = Inr (rd_debt s) \<and> versioned_debt s"
  using assms
  by (auto simp: versioned_debt_def required_debt_def load_recovery_debt_snapshot_def act_bind_def on_store_query missing_def act_raise_def
      act_return_def fetch_one_def recovery_debt_from_row_def r_bind_eq_Inr mk_recovery_debt_state_def
      mk_recovery_debt_snapshot_def check_all_Inr dest: find_row_SomeD split: option.splits sum.splits)

lemma submit_recovery_cases:
  assumes "submit_recovery x gate l instrument rs limits link w = (w', res)"
  obtains (refused) "w' = w" "\<And>sub. res = Inr sub \<Longrightarrow> sb_entry_snapshot sub = None"
  | (planned) s plan q where "debt_of (w_store w) (int (level_id l)) = Some s" "rd_level_id s = int (level_id l)"
      "mk_recovery_debt_state (rd_debt s) = Inr (rd_debt s)" "versioned_debt s"
      "plan_recovery l (rd_debt s) instrument rs limits = Inr plan" "rp_approved plan" "rp_quantity plan = Some q"
      "gate \<noteq> Some False" "submit_plan x plan s q link w = (w', res)"
proof (cases "required_debt (int (level_id l)) w")
  case (Pair w1 r)
  note reads = required_debt_reads [OF this]
  show thesis
  proof (cases r)
    case (Inl e)
    then show thesis using assms Pair reads(1) refused by (auto simp: submit_recovery_def act_bind_def)
  next
    case (Inr s)
    show thesis
    proof (cases "plan_recovery l (rd_debt s) instrument rs limits")
      case (Inl e)
      then show thesis
        using assms Pair Inr reads(1) refused by (auto simp: submit_recovery_def act_bind_def act_lift_def)
    next
      case (Inr plan)
      note run = assms [unfolded submit_recovery_def act_bind_def Pair \<open>r = Inr s\<close>] Inr
      show thesis
      proof (cases "rp_approved (gated_plan gate plan) \<and> rp_quantity (gated_plan gate plan) \<noteq> None")
        case True
        then obtain q where q: "rp_quantity (gated_plan gate plan) = Some q" by blast
        with True have "gate \<noteq> Some False" "gated_plan gate plan = plan" by (auto simp: gated_plan_def split: if_splits)
        then show thesis
          using planned [of s plan q] reads(2,3) [OF \<open>r = Inr s\<close>] Inr True q run reads(1)
          by (simp add: act_bind_def act_lift_def)
      next
        case False
        then show thesis
          using run reads(1) refused by (auto simp: act_bind_def act_lift_def act_return_def Let_def split: option.splits if_splits)
      qed
    qed
  qed
qed

text \<open>C9. Debt is allocated before exposure and released when the outcome demands it. A recovery submission
  places at most one order, a market sell of exactly the quantity of an approved plan for the stored debt of
  the level, never against a closed gate, and at that moment the store already holds the whole debt as
  allocated. If it returns after placing, or ends in an uncertain outcome or a crash, the store still holds
  that allocated debt. If it ends in any other exception after placing, the store holds the next version, in
  which nothing is allocated and all that is confirmed remains, unless the clock reading for that version has
  no time zone. A submission that places nothing and returns has changed nothing; one that places nothing and
  raises leaves the debt as it was before, or, having allocated it, as just said.\<close>

theorem recovery_allocates_first:
  fixes w :: entry_world
  assumes "submit_recovery x gate l instrument rs limits link w = (w', res)" and "store_ok (w_store w)"
  shows "placed (w_calls w') = placed (w_calls w) \<and> (\<forall>sub. res = Inr sub \<longrightarrow> w' = w \<and> sb_entry_snapshot sub = None)
        \<and> (\<forall>e. res = Inl e \<longrightarrow> debt_of (w_store w') (int (level_id l)) = debt_of (w_store w) (int (level_id l))
             \<or> (\<exists>s a. debt_of (w_store w) (int (level_id l)) = Some s \<and> allocated_from s a
                  \<and> debt_left x a e (debt_of (w_store w') (int (level_id l)))))
    \<or> (\<exists>db s a plan q. placed (w_calls w') = placed (w_calls w) @ [(db, recovery_request q link)]
        \<and> debt_of (w_store w) (int (level_id l)) = Some s \<and> plan_recovery l (rd_debt s) instrument rs limits = Inr plan
        \<and> rp_approved plan \<and> rp_quantity plan = Some q \<and> gate \<noteq> Some False
        \<and> debt_of db (int (level_id l)) = Some a \<and> allocated_from s a
        \<and> (\<forall>sub. res = Inr sub \<longrightarrow> debt_of (w_store w') (int (level_id l)) = Some a)
        \<and> (\<forall>e. res = Inl e \<longrightarrow> debt_left x a e (debt_of (w_store w') (int (level_id l)))))"
  using assms(1)
proof (cases rule: submit_recovery_cases)
  case refused
  then show ?thesis by auto
next
  case (planned s plan q)
  let ?P = "placed (w_calls w)" and ?lv = "int (level_id l)" and ?r = "recovery_request q link"
  note t = triple_submit_plan [OF planned(2-4), of ?P x plan q link]
  have d: "debt_at ?P ?lv (Some s) w" using planned(1) assms(2) by (simp add: debt_at_def)
  show ?thesis
  proof (cases res)
    case (Inr sub)
    with triple_Inr [OF t d] planned(9) obtain a where "allocated_from s a" "placed_with ?P ?lv a ?r w'" by blast
    with planned Inr show ?thesis unfolding placed_with_def debt_at_def by blast
  next
    case (Inl e)
    with triple_Inl [OF t d] planned(9) have "submission_failed x ?P s ?r e w'" by blast
    then consider "debt_at ?P ?lv (Some s) w'" | a where "allocated_from s a" "allocation_failed x ?P ?lv a ?r e w'"
      unfolding submission_failed_def planned(2) by blast
    then show ?thesis
    proof cases
      case 1
      with Inl planned(1) show ?thesis by (simp add: debt_at_def)
    next
      case 2
      with planned Inl show ?thesis unfolding allocation_failed_def one_more_def by blast
    qed
  qed
qed

section \<open>An example, and an order without debt\<close>

lemma keeps_sound_debt [keeping]:
  "keeps (\<lambda>w. store_ok (w_store w)) (clock x)" "keeps (\<lambda>w. store_ok (w_store w)) (on_store (load_recovery_debt_snapshot lid))"
  "keeps (\<lambda>w. store_ok (w_store w)) (on_store (persist_recovery_debt_snapshot s))"
  "keeps (\<lambda>w. store_ok (w_store w)) (on_store (transition_recovery_debt_snapshot k s))"
  by (rule keepsI, auto simp: clock_def ask_def Let_def,
      (rule keeps_sound_store, simp add: load_recovery_debt_snapshot_def sound_queries sound_methods)+)

lemma record_debt_sound: "keeps (\<lambda>w. store_ok (w_store w)) (record_confirmed_stop_debt x lid lost projected)"
  unfolding record_confirmed_stop_debt_def first_debt_def move_debt_def next_debt_def by (intro keeping)

definition indebted_world :: entry_world where
  "indebted_world = fst (record_confirmed_stop_debt prompt_exchange 1 5 5 start_world)"

lemma indebted_sound: "store_ok (w_store indebted_world)"
  unfolding indebted_world_def
  by (rule keepsD [OF record_debt_sound [of prompt_exchange 1 5 5] prod.collapse [symmetric]]) (simp add: start_world_def)

definition recovered_world :: "exchange \<Rightarrow> entry_world \<times> recovery_submission res" where
  "recovered_world x = submit_recovery x None sample_level eth_perp sample_state sample_limits sample_link indebted_world"

definition debt_summary :: "entry_world \<Rightarrow> (dec \<times> dec) option" where
  "debt_summary w = map_option (\<lambda>s. (allocated_debt (rd_debt s), remaining_debt (rd_debt s))) (debt_of (w_store w) 1)"

definition indebted :: recovery_debt_snapshot where
  "indebted = \<lparr>rd_level_id = 1, rd_debt = no_debt\<lparr>projected_debt := 5, confirmed_debt := 5, remaining_debt := 5\<rparr>,
     rd_version = 1, rd_updated_at = Aware 1\<rparr>"

definition approved_plan :: recovery_entry_plan where
  "approved_plan = \<lparr>rp_approved = True, rp_raw_desired_quantity = 12 / 10, rp_entry_price = 3000,
     rp_quantity = Some (12 / 10), rp_expected_take_profit = 30, rp_allocated_debt = 5, rp_reasons = [],
     rp_locked_action = None\<rparr>"

lemma indebted_required: "snd (required_debt 1 indebted_world) = Inr indebted"
  by code_simp

lemma indebted_plan: "plan_recovery sample_level (rd_debt indebted) eth_perp sample_state sample_limits = Inr approved_plan"
  by code_simp

lemma recovered_world_plan:
  "recovered_world x = submit_plan x approved_plan indebted (12 / 10) sample_link indebted_world"
proof -
  have "required_debt 1 indebted_world = (indebted_world, Inr indebted)"
    using indebted_required required_debt_reads(1) [of 1 indebted_world] by (metis prod.collapse)
  moreover have "level_id sample_level = 1" by (simp add: sample_level_def fresh_level_def)
  ultimately show ?thesis
    by (simp add: recovered_world_def submit_recovery_def act_bind_def act_lift_def indebted_plan gated_plan_def
        approved_plan_def)
qed

fun run_summary :: "entry_world \<times> recovery_submission res \<Rightarrow> dec list \<times> (dec \<times> dec) option \<times> bool" where
  "run_summary (w, r) = (map (po_quantity \<circ> snd) (placed (w_calls w)), debt_summary w, is_ok r)"

lemma recovered_facts: "run_summary (recovered_world prompt_exchange) = ([12 / 10], Some (5, 0), True)"
  unfolding recovered_world_plan by code_simp

theorem recovery_allocates_first_witness:
  "\<exists>w' sub db a. recovered_world prompt_exchange = (w', Inr sub)
     \<and> placed (w_calls w') = placed (w_calls indebted_world) @ [(db, recovery_request (12 / 10) sample_link)]
     \<and> debt_of db 1 = Some a \<and> allocated_debt (rd_debt a) = 5"
proof (cases "recovered_world prompt_exchange")
  case (Pair w' res)
  then have f: "map (po_quantity \<circ> snd) (placed (w_calls w')) = [12 / 10]" "is_ok res"
    using recovered_facts by auto
  have "placed (w_calls indebted_world) = []" by code_simp
  with f(1) have new: "placed (w_calls w') \<noteq> placed (w_calls indebted_world)" by auto
  have l: "int (level_id sample_level) = 1" by (simp add: sample_level_def fresh_level_def)
  have s: "debt_of (w_store indebted_world) 1 = Some indebted"
    by (rule required_debt_reads(2) [THEN conjunct1], rule prod.collapse [symmetric], rule indebted_required)
  obtain db a plan q where a: "placed (w_calls w') = placed (w_calls indebted_world) @ [(db, recovery_request q sample_link)]"
      "plan_recovery sample_level (rd_debt indebted) eth_perp sample_state sample_limits = Inr plan" "rp_quantity plan = Some q"
      "debt_of db 1 = Some a" "allocated_from indebted a"
    using recovery_allocates_first [OF Pair [unfolded recovered_world_def] indebted_sound] new s unfolding l by auto
  have q: "q = 12 / 10" using a(2,3) indebted_plan by (auto simp: approved_plan_def)
  obtain sub where "res = Inr sub" using f(2) by (auto simp: is_ok_iff)
  moreover have "allocated_debt (rd_debt a) = 5" using a(5) by (simp add: indebted_def allocated_from_def)
  ultimately show ?thesis using a(1,4) Pair unfolding q by blast
qed

text \<open>An exchange whose acknowledgement names another order. The order is placed, recording the
  acknowledgement raises, and the debt is released although the order may be live: the next submission
  plans the same debt a second time.\<close>

definition mislabelling_exchange :: exchange where
  "mislabelling_exchange = prompt_exchange\<lparr>x_place := \<lambda>h r. Inr \<lparr>ak_request_kind = PLACE, ak_order_id = ''o1'',
     ak_order_link_id = ''other'', ak_acknowledged_at = Aware (int (length h))\<rparr>\<rparr>"

lemma debt_released_with_live_order:
  "run_summary (recovered_world mislabelling_exchange) = ([12 / 10], Some (0, 5), False)"
  unfolding recovered_world_plan by code_simp

end
