(* ===== verification/Trigger_Coordinators.thy ===== *)
theory Trigger_Coordinators
  imports Entry_Client Market_Data Option_Position Live_Recovery
begin

text \<open>
  \<open>application/one_level_coordinator.py\<close> and \<open>application/multi_level_execution.py\<close>: the coordinators
  that turn trigger prices into entries. Each keeps the last price of the current connection and which
  levels are armed; a downward crossing of an armed entry price passes the kill switch, the state of level
  and options, order rules and risk gate before one market sell is submitted. The coordinator's own
  state and the world of the entry service form a pair; the answer of the kill switch and the generated
  client order id are arguments of a call. The lemmas follow any sequence of triggers: when an order goes
  out, at most one per level, and within one trigger within the limits together.
\<close>

section \<open>Own state next to the service\<close>

type_synonym ('c, 'a) coordinator_act = "('c \<times> entry_world, 'a) act"

definition in_service :: "'a entry_act \<Rightarrow> ('c, 'a) coordinator_act" where
  "in_service m s = (case m (snd s) of (w, r) \<Rightarrow> ((fst s, w), r))"

definition set_own :: "'c \<Rightarrow> ('c, unit) coordinator_act" where
  "set_own c s = ((c, snd s), Inr ())"

definition get_own :: "('c, 'c) coordinator_act" where
  "get_own s = (s, Inr (fst s))"

section \<open>From a level to an order\<close>

definition level_proposal :: "string \<Rightarrow> quantized_risk_result \<Rightarrow> trade_proposal res" where
  "level_proposal symb q = mk_trade_proposal \<lparr>tp_symbol = symb, tp_side = Sell, tp_quantity = qr_quantity q,
     tp_price = qr_entry_price q, tp_notional = qr_notional q,
     tp_projected_stop_loss = qr_projected_stop_loss q, opens_new_level = True\<rparr>"

text \<open>Order rules, then the risk gate: the reasons for a refusal, or the sized entry.\<close>

definition approved_entry ::
    "instrument_spec \<Rightarrow> dec \<Rightarrow> hedge_level \<Rightarrow> dec \<Rightarrow> risk_state \<Rightarrow> risk_limits \<Rightarrow> (string list + quantized_risk_result) res" where
  "approved_entry i quantity l debt rs limits =
     r_bind (normalize_and_validate_order i Sell quantity (Some (entry_price l)) False None PASSIVE) (\<lambda>validation.
     r_bind (recalculate_quantized_risk validation i Sell (tp_price l) (stop_price l) debt
         (maximum_perp_notional limits) (maximum_projected_stop_loss limits)) (\<lambda>q.
     if \<not> qr_accepted q then Inr (Inl (qr_errors q))
     else r_bind (level_proposal (is_symbol i) q) (\<lambda>p.
       let decision = evaluate p rs limits
       in if \<not> approved decision then Inr (Inl (reasons decision))
          else raise_if (approved_quantity decision \<noteq> Some (qr_quantity q))
            (AssertionError ''approved risk quantity must be exact'') (Inr (Inr q)))))"

definition entry_request :: "string \<Rightarrow> dec \<Rightarrow> string \<Rightarrow> place_order_request" where
  "entry_request symb quantity link = \<lparr>po_category = linear_category, po_symbol = symb, po_side = Sell, po_order_type = Market,
     po_quantity = quantity, po_order_link_id = link, po_price = None, po_time_in_force = IOC, po_reduce_only = False,
     po_trigger_price = None, po_trigger_direction = None, po_trigger_by = None, po_position_idx = 0, po_close_on_trigger = False\<rparr>"

text \<open>What both coordinators refuse before they look at the connection.\<close>

definition refusals :: "instrument_spec \<Rightarrow> trigger_price_event \<Rightarrow> market_data_health_result \<Rightarrow> string list option" where
  "refusals i e health = (if tr_symbol e \<noteq> is_symbol i then Some [''trigger symbol does not match'']
     else if tr_source e \<noteq> LAST_TRADE then Some [''trigger source is not LAST_TRADE'']
     else if \<not> mr_trading_allowed health then Some (mr_reasons health) else None)"

definition gate_closed :: "bool option \<Rightarrow> bool" where
  "gate_closed gate \<longleftrightarrow> gate = Some False"

section \<open>One level\<close>

record one_level_setup =
  ol_position :: put_credit_spread_position
  ol_level :: hedge_level
  ol_instrument :: instrument_spec
  ol_limits :: risk_limits

record one_level_state =
  oc_previous_price :: "dec option"
  oc_generation :: "int option"
  oc_armed :: bool
  oc_submitted :: bool

definition mk_one_level_coordinator :: "one_level_setup \<Rightarrow> one_level_state res" where
  "mk_one_level_coordinator s = check_all
    [(level_id (ol_level s) \<noteq> 1, ''one-level coordinator requires level 1''),
     (is_category (ol_instrument s) \<noteq> linear_category \<or> is_symbol (ol_instrument s) \<noteq> ''ETHUSDT'',
      ''one-level coordinator requires ETHUSDT linear'')]
    (Inr \<lparr>oc_previous_price = None, oc_generation = None, oc_armed = False, oc_submitted = False\<rparr>)"

record one_level_result =
  or_triggered :: bool
  or_reasons :: "string list"
  or_snapshot :: "entry_snapshot option"
  or_request :: "place_order_request option"

definition not_triggered :: "string list \<Rightarrow> (one_level_state, one_level_result) coordinator_act" where
  "not_triggered rsns = act_return \<lparr>or_triggered = False, or_reasons = rsns, or_snapshot = None, or_request = None\<rparr>"

definition reset_segment :: "one_level_setup \<Rightarrow> trigger_price_event \<Rightarrow> one_level_state \<Rightarrow> one_level_state" where
  "reset_segment s e c = c\<lparr>oc_generation := Some (tr_connection_generation e), oc_previous_price := Some (tr_observed_price e),
     oc_armed := \<not> oc_submitted c \<and> entry_price (ol_level s) \<le> tr_observed_price e\<rparr>"

definition submit_level ::
    "exchange \<Rightarrow> one_level_setup \<Rightarrow> string \<Rightarrow> one_level_state \<Rightarrow> quantized_risk_result \<Rightarrow> (one_level_state, one_level_result) coordinator_act" where
  "submit_level x s link c q =
     act_bind (act_lift (mk_place_order_request (entry_request (is_symbol (ol_instrument s)) (qr_quantity q) link))) (\<lambda>r.
     act_bind (set_own (c\<lparr>oc_submitted := True\<rparr>)) (\<lambda>_.
     act_bind (in_service (submit_entry x r)) (\<lambda>snap.
     act_return \<lparr>or_triggered = True, or_reasons = [], or_snapshot = Some snap, or_request = Some r\<rparr>)))"

definition on_crossing ::
    "exchange \<Rightarrow> one_level_setup \<Rightarrow> bool option \<Rightarrow> string \<Rightarrow> risk_state \<Rightarrow> one_level_state \<Rightarrow> (one_level_state, one_level_result) coordinator_act" where
  "on_crossing x s gate link rs c =
     (if oc_submitted c then not_triggered [''entry is already submitted'']
      else if gate_closed gate then not_triggered [''kill switch blocks new entries'']
      else if state (ol_level s) \<noteq> READY then not_triggered [''virtual level is not READY'']
      else if sp_state (ol_position s) \<noteq> P_OPEN then not_triggered [''option spread is not OPEN'']
      else act_bind (act_lift (approved_entry (ol_instrument s) (matched_quantity (ol_position s)) (ol_level s)
          (confirmed_recovery_debt rs) rs (ol_limits s))) (\<lambda>outcome.
        case outcome of Inl rsns \<Rightarrow> not_triggered rsns | Inr q \<Rightarrow> submit_level x s link c q))"

definition on_price ::
    "exchange \<Rightarrow> one_level_setup \<Rightarrow> bool option \<Rightarrow> string \<Rightarrow> risk_state \<Rightarrow> dec \<Rightarrow> one_level_state \<Rightarrow> (one_level_state, one_level_result) coordinator_act" where
  "on_price x s gate link rs current c = (case oc_previous_price c of
     None \<Rightarrow> act_raise (AssertionError ''initialized segment must have a previous price'')
   | Some previous \<Rightarrow>
       let entry = entry_price (ol_level s);
           arm = oc_armed c \<or> (entry \<le> current \<and> \<not> oc_submitted c);
           crossing = (arm \<and> entry < previous \<and> current \<le> entry);
           c1 = c\<lparr>oc_armed := arm \<and> \<not> crossing, oc_previous_price := Some current\<rparr>
       in act_bind (set_own c1) (\<lambda>_. if crossing then on_crossing x s gate link rs c1 else not_triggered []))"

definition on_trigger ::
    "exchange \<Rightarrow> one_level_setup \<Rightarrow> bool option \<Rightarrow> string \<Rightarrow> trigger_price_event \<Rightarrow> market_data_health_result \<Rightarrow> risk_state
     \<Rightarrow> (one_level_state, one_level_result) coordinator_act" where
  "on_trigger x s gate link e health rs = (case refusals (ol_instrument s) e health of
     Some rsns \<Rightarrow> not_triggered rsns
   | None \<Rightarrow> act_bind get_own (\<lambda>c. case oc_generation c of
       None \<Rightarrow> act_bind (set_own (reset_segment s e c)) (\<lambda>_. not_triggered [])
     | Some g \<Rightarrow>
         if tr_connection_generation e < g then not_triggered [''connection generation is stale'']
         else if g < tr_connection_generation e
         then act_bind (set_own (reset_segment s e c)) (\<lambda>_. not_triggered [''connection generation changed''])
         else on_price x s gate link rs (tr_observed_price e) c))"

section \<open>Several levels\<close>

record multi_setup =
  ml_position :: put_credit_spread_position
  ml_levels :: "hedge_level list"
  ml_instrument :: instrument_spec
  ml_limits :: risk_limits

record multi_state =
  mc_previous_price :: "dec option"
  mc_generation :: "int option"
  mc_armed :: "(nat \<times> bool) list"
  mc_attempts :: "(nat \<times> int) list"
  mc_submitted :: "(nat \<times> string) list"

definition mk_multi_coordinator :: "multi_setup \<Rightarrow> multi_state res" where
  "mk_multi_coordinator s = (let ids = map level_id (ml_levels s); prices = map entry_price (ml_levels s) in check_all
    [(ml_levels s = [], ''multi-level coordinator requires at least one level''),
     (ids \<noteq> [1..<length (ml_levels s) + 1], ''level IDs must be contiguous from 1''),
     (prices \<noteq> rev (sort prices), ''levels must be ordered from highest entry to lowest''),
     (is_category (ml_instrument s) \<noteq> linear_category \<or> is_symbol (ml_instrument s) \<noteq> ''ETHUSDT'',
      ''multi-level coordinator requires ETHUSDT linear'')]
    (Inr \<lparr>mc_previous_price = None, mc_generation = None, mc_armed = map (\<lambda>i. (i, False)) ids,
       mc_attempts = map (\<lambda>i. (i, 0)) ids, mc_submitted = []\<rparr>))"

record level_submission =
  lv_level_id :: nat
  lv_request :: place_order_request
  lv_snapshot :: entry_snapshot

type_synonym level_block = "nat \<times> string list"

record multi_result =
  mr_entries :: "level_submission list"
  mr_blocked :: "level_block list"
  mr_refused :: "string list"

definition is_armed :: "multi_state \<Rightarrow> hedge_level \<Rightarrow> bool" where
  "is_armed c l \<longleftrightarrow> map_of (mc_armed c) (level_id l) = Some True"

definition is_submitted :: "multi_state \<Rightarrow> hedge_level \<Rightarrow> bool" where
  "is_submitted c l \<longleftrightarrow> map_of (mc_submitted c) (level_id l) \<noteq> None"

definition set_armed :: "hedge_level \<Rightarrow> bool \<Rightarrow> multi_state \<Rightarrow> multi_state" where
  "set_armed l b c = c\<lparr>mc_armed := dict_set (level_id l) b (mc_armed c)\<rparr>"

definition reset_segments :: "multi_setup \<Rightarrow> trigger_price_event \<Rightarrow> multi_state \<Rightarrow> multi_state" where
  "reset_segments s e c = foldl
     (\<lambda>c l. set_armed l (\<not> is_submitted c l \<and> entry_price l \<le> tr_observed_price e) c)
     (c\<lparr>mc_generation := Some (tr_connection_generation e), mc_previous_price := Some (tr_observed_price e)\<rparr>) (ml_levels s)"

definition arm_levels :: "multi_setup \<Rightarrow> dec \<Rightarrow> multi_state \<Rightarrow> multi_state" where
  "arm_levels s current c = foldl
     (\<lambda>c l. if entry_price l \<le> current \<and> \<not> is_submitted c l then set_armed l True c else c) c (ml_levels s)"

definition crossed_levels :: "multi_setup \<Rightarrow> dec \<Rightarrow> dec \<Rightarrow> multi_state \<Rightarrow> hedge_level list" where
  "crossed_levels s previous current c =
     filter (\<lambda>l. is_armed c l \<and> entry_price l < previous \<and> current \<le> entry_price l) (ml_levels s)"

definition preflight_reasons :: "multi_setup \<Rightarrow> multi_state \<Rightarrow> hedge_level \<Rightarrow> string list" where
  "preflight_reasons s c l = (if is_submitted c l then [''level entry is already submitted'']
     else if state l \<noteq> READY then [''virtual level is not READY'']
     else if sp_state (ml_position s) \<noteq> P_OPEN then [''option spread is not OPEN''] else [])"

text \<open>The loop over the crossed levels carries the entries, the blocks and the risk state after them.\<close>

record progress =
  pg_entries :: "level_submission list"
  pg_blocked :: "level_block list"
  pg_risk :: risk_state

definition block_level :: "hedge_level \<Rightarrow> string list \<Rightarrow> progress \<Rightarrow> (multi_state, progress) coordinator_act" where
  "block_level l rsns p = act_return (p\<lparr>pg_blocked := pg_blocked p @ [(level_id l, rsns)]\<rparr>)"

definition risk_after :: "quantized_risk_result \<Rightarrow> risk_state \<Rightarrow> risk_state res" where
  "risk_after q rs = mk_risk_state (rs\<lparr>current_perp_quantity := dadd (current_perp_quantity rs) (qr_quantity q),
     current_perp_notional := dadd (current_perp_notional rs) (qr_notional q),
     active_levels := active_levels rs + 1, order_requests_last_minute := order_requests_last_minute rs + 1\<rparr>)"

definition submit_one ::
    "exchange \<Rightarrow> (nat \<Rightarrow> int \<Rightarrow> string) \<Rightarrow> hedge_level \<Rightarrow> quantized_risk_result \<Rightarrow> multi_state \<Rightarrow> progress
     \<Rightarrow> (multi_state, progress) coordinator_act" where
  "submit_one x link l q c p = (let attempt = the (map_of (mc_attempts c) (level_id l)) + 1 in
     act_bind (act_lift (mk_place_order_request (entry_request ''ETHUSDT'' (qr_quantity q) (link (level_id l) attempt)))) (\<lambda>r.
     act_bind (set_own (c\<lparr>mc_attempts := dict_set (level_id l) attempt (mc_attempts c),
       mc_submitted := dict_set (level_id l) (po_order_link_id r) (mc_submitted c)\<rparr>)) (\<lambda>_.
     act_bind (in_service (submit_entry x r)) (\<lambda>snap.
     act_bind (act_lift (risk_after q (pg_risk p))) (\<lambda>rs.
     act_return (p\<lparr>pg_entries := pg_entries p @ [\<lparr>lv_level_id = level_id l, lv_request = r, lv_snapshot = snap\<rparr>],
       pg_risk := rs\<rparr>))))))"

definition on_level ::
    "exchange \<Rightarrow> multi_setup \<Rightarrow> (nat \<Rightarrow> bool) option \<Rightarrow> (nat \<Rightarrow> int \<Rightarrow> string) \<Rightarrow> hedge_level \<Rightarrow> progress
     \<Rightarrow> (multi_state, progress) coordinator_act" where
  "on_level x s gate link l p = act_bind get_own (\<lambda>c0. let c = set_armed l False c0 in
     act_bind (set_own c) (\<lambda>_.
     if gate_closed (map_option (\<lambda>g. g (level_id l)) gate) then block_level l [''kill switch blocks new entries''] p
     else if preflight_reasons s c l \<noteq> [] then block_level l (preflight_reasons s c l) p
     else act_bind (act_lift (approved_entry (ml_instrument s) (matched_quantity (ml_position s)) l 0 (pg_risk p) (ml_limits s)))
       (\<lambda>outcome. case outcome of Inl rsns \<Rightarrow> block_level l rsns p | Inr q \<Rightarrow> submit_one x link l q c p)))"

definition no_entries :: "string list \<Rightarrow> (multi_state, multi_result) coordinator_act" where
  "no_entries rsns = act_return \<lparr>mr_entries = [], mr_blocked = [], mr_refused = rsns\<rparr>"

definition on_prices ::
    "exchange \<Rightarrow> multi_setup \<Rightarrow> (nat \<Rightarrow> bool) option \<Rightarrow> (nat \<Rightarrow> int \<Rightarrow> string) \<Rightarrow> risk_state \<Rightarrow> dec \<Rightarrow> multi_state
     \<Rightarrow> (multi_state, multi_result) coordinator_act" where
  "on_prices x s gate link rs current c = (case mc_previous_price c of
     None \<Rightarrow> act_raise (AssertionError ''initialized segment must have a previous price'')
   | Some previous \<Rightarrow> let c1 = arm_levels s current c in
       act_bind (set_own (c1\<lparr>mc_previous_price := Some current\<rparr>)) (\<lambda>_.
       act_bind (act_for (on_level x s gate link) (crossed_levels s previous current c1)
         \<lparr>pg_entries = [], pg_blocked = [], pg_risk = rs\<rparr>) (\<lambda>p.
       act_return \<lparr>mr_entries = pg_entries p, mr_blocked = pg_blocked p, mr_refused = []\<rparr>)))"

definition on_triggers ::
    "exchange \<Rightarrow> multi_setup \<Rightarrow> (nat \<Rightarrow> bool) option \<Rightarrow> (nat \<Rightarrow> int \<Rightarrow> string) \<Rightarrow> trigger_price_event
     \<Rightarrow> market_data_health_result \<Rightarrow> risk_state \<Rightarrow> (multi_state, multi_result) coordinator_act" where
  "on_triggers x s gate link e health rs = (case refusals (ml_instrument s) e health of
     Some rsns \<Rightarrow> no_entries rsns
   | None \<Rightarrow> act_bind get_own (\<lambda>c. case mc_generation c of
       None \<Rightarrow> act_bind (set_own (reset_segments s e c)) (\<lambda>_. no_entries [])
     | Some g \<Rightarrow>
         if tr_connection_generation e < g then no_entries [''connection generation is stale'']
         else if g < tr_connection_generation e
         then act_bind (set_own (reset_segments s e c)) (\<lambda>_. no_entries [''connection generation changed''])
         else on_prices x s gate link rs (tr_observed_price e) c))"

text \<open>The aggregate position: what all submitted levels filled together. The ids are visited in order.\<close>

definition submitted_snapshot :: "nat \<times> string \<Rightarrow> entry_snapshot list \<Rightarrow> (multi_state, entry_snapshot list) coordinator_act" where
  "submitted_snapshot row acc = act_bind (in_service (on_store (load_entry_snapshot (snd row)))) (\<lambda>found. case found of
     None \<Rightarrow> act_raise (RuntimeError (''entry snapshot disappeared for level '' @ nat_str (fst row)))
   | Some s \<Rightarrow> act_return (acc @ [s]))"

definition mark_level :: "exchange_position list \<Rightarrow> entry_snapshot \<Rightarrow> unit \<Rightarrow> (multi_state, unit) coordinator_act" where
  "mark_level positions s u = (if es_state s = RECONCILING then act_return ()
     else act_bind (act_lift (transition_entry_snapshot s RECONCILING
         (case positions of [] \<Rightarrow> es_updated_at s | p # _ \<Rightarrow> ep_updated_at p) None)) (\<lambda>s1.
       in_service (on_store (transition_entry_row (es_version s) s1))))"

definition aggregate_matches :: "dec \<Rightarrow> exchange_position list \<Rightarrow> bool" where
  "aggregate_matches expected positions =
     (if expected = 0 then eth_positions positions = [] else single_short positions expected)"

definition reconcile_aggregate_position :: "exchange_position list \<Rightarrow> (multi_state, bool) coordinator_act" where
  "reconcile_aggregate_position positions = act_bind get_own (\<lambda>c.
     act_bind (act_for submitted_snapshot (sort_key fst (mc_submitted c)) []) (\<lambda>snapshots.
     if aggregate_matches (dsum (map es_filled_quantity snapshots)) positions then act_return True
     else act_bind (act_for (mark_level positions) snapshots ()) (\<lambda>_. act_return False)))"

section \<open>What an approved entry satisfies\<close>

definition sized_proposal :: "quantized_risk_result \<Rightarrow> trade_proposal" where
  "sized_proposal q = \<lparr>tp_symbol = ''ETHUSDT'', tp_side = Sell, tp_quantity = qr_quantity q, tp_price = qr_entry_price q,
     tp_notional = qr_notional q, tp_projected_stop_loss = qr_projected_stop_loss q, opens_new_level = True\<rparr>"

lemma approved_entry_limits:
  assumes "approved_entry i quantity l debt rs limits = Inr (Inr q)" "is_symbol i = ''ETHUSDT''"
  shows "qr_accepted q" "within_limits (sized_proposal q) rs limits" "0 < qr_quantity q" "0 < qr_notional q"
  using assms
  by (auto simp: approved_entry_def r_bind_eq_Inr level_proposal_def sized_proposal_def mk_trade_proposal_def check_all_Inr
      approved_iff [symmetric] Let_def raise_if_def split: if_splits)

section \<open>The one-level coordinator\<close>

text \<open>The observations a coordinator has admitted, newest first: connection generation and price.\<close>

type_synonym observations = "(int \<times> dec) list"

definition observe :: "instrument_spec \<Rightarrow> trigger_price_event \<Rightarrow> market_data_health_result \<Rightarrow> observations \<Rightarrow> observations" where
  "observe i e health obs =
     (if refusals i e health = None \<and> (obs = [] \<or> fst (hd obs) \<le> tr_connection_generation e)
      then (tr_connection_generation e, tr_observed_price e) # obs else obs)"

text \<open>A fresh downward crossing: two consecutive observations of one connection, above the price and then not.\<close>

fun fresh_crossing :: "dec \<Rightarrow> observations \<Rightarrow> bool" where
  "fresh_crossing price ((g, q) # (g', p) # _) = (g = g' \<and> price < p \<and> q \<le> price)"
| "fresh_crossing price _ = False"

definition new_orders :: "entry_world \<Rightarrow> entry_world \<Rightarrow> place_order_request list" where
  "new_orders w w' = map snd (drop (length (placed (w_calls w))) (placed (w_calls w')))"

text \<open>The life of a coordinator: triggers in any order, the world of the entry service changing in between
  as it likes. \<open>sent\<close> are its orders, each with the observations at that moment.\<close>

inductive one_level_run :: "exchange \<Rightarrow> one_level_setup \<Rightarrow> observations \<Rightarrow> (observations \<times> place_order_request) list
    \<Rightarrow> one_level_state \<Rightarrow> bool" for x s where
  Begin: "mk_one_level_coordinator s = Inr c \<Longrightarrow> one_level_run x s [] [] c"
| Trigger: "one_level_run x s obs sent c \<Longrightarrow> on_trigger x s gate link e health rs (c, w) = ((c', w'), res)
    \<Longrightarrow> one_level_run x s (observe (ol_instrument s) e health obs)
          (sent @ map (Pair (observe (ol_instrument s) e health obs)) (new_orders w w')) c'"

definition one_level_inv :: "one_level_setup \<Rightarrow> observations \<Rightarrow> one_level_state \<Rightarrow> bool" where
  "one_level_inv s obs c \<longleftrightarrow> (case obs of
       [] \<Rightarrow> oc_generation c = None \<and> \<not> oc_submitted c
     | (g, p) # _ \<Rightarrow> oc_generation c = Some g \<and> oc_previous_price c = Some p
         \<and> (entry_price (ol_level s) < p \<and> \<not> oc_submitted c \<longrightarrow> oc_armed c))
     \<and> (oc_armed c \<longrightarrow> \<not> oc_submitted c)"

text \<open>What a fresh crossing needs to become an order.\<close>

definition entry_ready :: "one_level_setup \<Rightarrow> bool option \<Rightarrow> string \<Rightarrow> risk_state \<Rightarrow> place_order_request \<Rightarrow> bool" where
  "entry_ready s gate link rs r \<longleftrightarrow> \<not> gate_closed gate \<and> state (ol_level s) = READY \<and> sp_state (ol_position s) = P_OPEN
     \<and> (\<exists>q. approved_entry (ol_instrument s) (matched_quantity (ol_position s)) (ol_level s)
             (confirmed_recovery_debt rs) rs (ol_limits s) = Inr (Inr q)
           \<and> r = entry_request (is_symbol (ol_instrument s)) (qr_quantity q) link \<and> is_ok (mk_place_order_request r))"

definition submission_result :: "one_level_state \<Rightarrow> place_order_request \<Rightarrow> entry_world \<times> entry_snapshot res
    \<Rightarrow> (one_level_state \<times> entry_world) \<times> one_level_result res" where
  "submission_result c r out = ((c, fst out), case snd out of Inl e \<Rightarrow> Inl e
     | Inr snap \<Rightarrow> Inr \<lparr>or_triggered = True, or_reasons = [], or_snapshot = Some snap, or_request = Some r\<rparr>)"

lemmas coordinator_calls = act_bind_def act_return_def act_raise_def act_lift_def in_service_def set_own_def get_own_def

text \<open>One call, case by case: nothing is sent, or a fresh crossing of an armed level is submitted.\<close>

lemma on_crossing_cases:
  assumes "\<not> oc_submitted c"
  shows "(\<exists>r. entry_ready s gate link rs r
      \<and> on_crossing x s gate link rs c (c, w) = submission_result (c\<lparr>oc_submitted := True\<rparr>) r (submit_entry x r w))
    \<or> (\<nexists>r. entry_ready s gate link rs r) \<and> (\<exists>res. on_crossing x s gate link rs c (c, w) = ((c, w), res) \<and> (\<forall>y. res = Inr y \<longrightarrow> \<not> or_triggered y))"
  using assms
  by (auto simp: on_crossing_def not_triggered_def submit_level_def entry_ready_def coordinator_calls is_ok_iff
      submission_result_def dest: stop_request_same split: sum.splits prod.splits)

definition fires :: "one_level_setup \<Rightarrow> observations \<Rightarrow> bool option \<Rightarrow> string \<Rightarrow> trigger_price_event
    \<Rightarrow> market_data_health_result \<Rightarrow> risk_state \<Rightarrow> one_level_state \<Rightarrow> place_order_request \<Rightarrow> bool" where
  "fires s obs gate link e health rs c r \<longleftrightarrow> (let h = observe (ol_instrument s) e health obs in
     h \<noteq> obs \<and> fresh_crossing (entry_price (ol_level s)) h \<and> \<not> oc_submitted c \<and> entry_ready s gate link rs r)"

definition after_submission :: "trigger_price_event \<Rightarrow> one_level_state \<Rightarrow> one_level_state" where
  "after_submission e c = c\<lparr>oc_armed := False, oc_previous_price := Some (tr_observed_price e), oc_submitted := True\<rparr>"

definition no_order :: "one_level_setup \<Rightarrow> observations \<Rightarrow> one_level_state \<Rightarrow> entry_world
    \<Rightarrow> (one_level_state \<times> entry_world) \<times> one_level_result res \<Rightarrow> bool" where
  "no_order s h c w out \<longleftrightarrow> (\<exists>c' res. out = ((c', w), res) \<and> one_level_inv s h c' \<and> oc_submitted c' = oc_submitted c
     \<and> (\<forall>y. res = Inr y \<longrightarrow> \<not> or_triggered y))"

lemma reset_inv:
  assumes "one_level_inv s obs c"
  shows "one_level_inv s ((tr_connection_generation e, tr_observed_price e) # obs) (reset_segment s e c)"
  using assms by (auto simp: one_level_inv_def reset_segment_def)

text \<open>An observation of the connection the coordinator is on.\<close>

lemma on_price_step:
  assumes inv: "one_level_inv s ((g, p) # rest) c"
  shows "if \<exists>r. fresh_crossing (entry_price (ol_level s)) ((g, q) # (g, p) # rest) \<and> \<not> oc_submitted c \<and> entry_ready s gate link rs r
    then \<exists>r. entry_ready s gate link rs r \<and> on_price x s gate link rs q c (c, w)
           = submission_result (c\<lparr>oc_armed := False, oc_previous_price := Some q, oc_submitted := True\<rparr>) r (submit_entry x r w)
    else no_order s ((g, q) # (g, p) # rest) c w (on_price x s gate link rs q c (c, w))"
proof -
  let ?entry = "entry_price (ol_level s)"
  define arm where "arm \<longleftrightarrow> oc_armed c \<or> (?entry \<le> q \<and> \<not> oc_submitted c)"
  define crossing where "crossing \<longleftrightarrow> arm \<and> ?entry < p \<and> q \<le> ?entry"
  define c1 where "c1 = c\<lparr>oc_armed := arm \<and> \<not> crossing, oc_previous_price := Some q\<rparr>"
  have c: "oc_previous_price c = Some p" "oc_generation c = Some g" "?entry < p \<and> \<not> oc_submitted c \<longrightarrow> oc_armed c"
    "oc_armed c \<longrightarrow> \<not> oc_submitted c"
    using inv by (simp_all add: one_level_inv_def)
  have crossing: "crossing \<longleftrightarrow> ?entry < p \<and> q \<le> ?entry \<and> \<not> oc_submitted c"
    using c(3,4) by (auto simp: crossing_def arm_def)
  have inv1: "one_level_inv s ((g, q) # (g, p) # rest) c1"
    using c by (auto simp: one_level_inv_def c1_def arm_def crossing)
  have step: "on_price x s gate link rs q c (c, w)
      = (if crossing then on_crossing x s gate link rs c1 (c1, w) else not_triggered [] (c1, w))"
    unfolding on_price_def c(1) option.case Let_def arm_def [symmetric] crossing_def [symmetric] c1_def [symmetric]
    by (simp add: act_bind_def set_own_def)
  show ?thesis
  proof (cases crossing)
    case True
    then have "\<not> oc_submitted c1" by (simp add: c1_def crossing)
    from on_crossing_cases [OF this, of s gate link rs x w] True inv1 show ?thesis
      by (auto simp: step crossing no_order_def c1_def)
  next
    case False
    then show ?thesis using inv1 by (auto simp: step crossing no_order_def not_triggered_def act_return_def c1_def)
  qed
qed

lemma on_trigger_step:
  assumes "one_level_inv s obs c"
  shows "if \<exists>r. fires s obs gate link e health rs c r
    then \<exists>r. fires s obs gate link e health rs c r \<and> on_trigger x s gate link e health rs (c, w)
           = submission_result (after_submission e c) r (submit_entry x r w)
    else no_order s (observe (ol_instrument s) e health obs) c w (on_trigger x s gate link e health rs (c, w))"
proof (cases "refusals (ol_instrument s) e health")
  case (Some rsns)
  then show ?thesis
    using assms by (simp add: fires_def observe_def on_trigger_def not_triggered_def act_return_def no_order_def)
next
  case None
  let ?g = "tr_connection_generation e" and ?q = "tr_observed_price e"
  show ?thesis
  proof (cases obs)
    case Nil
    with assms have "oc_generation c = None" by (simp add: one_level_inv_def)
    with None Nil reset_inv [OF assms] show ?thesis
      by (auto simp: fires_def observe_def on_trigger_def coordinator_calls not_triggered_def no_order_def reset_segment_def)
  next
    case (Cons o1 rest)
    obtain g p where o1: "o1 = (g, p)" by (cases o1)
    with assms Cons have g: "oc_generation c = Some g" by (simp add: one_level_inv_def)
    consider "?g < g" | "g < ?g" | "?g = g" by linarith
    then show ?thesis
    proof cases
      case 1
      with None Cons o1 g assms show ?thesis
        by (auto simp: fires_def observe_def on_trigger_def coordinator_calls not_triggered_def no_order_def)
    next
      case 2
      with None Cons o1 g reset_inv [OF assms] show ?thesis
        by (auto simp: fires_def observe_def on_trigger_def coordinator_calls not_triggered_def no_order_def reset_segment_def)
    next
      case 3
      have "on_trigger x s gate link e health rs (c, w) = on_price x s gate link rs ?q c (c, w)"
        using None g 3 by (simp add: on_trigger_def act_bind_def get_own_def)
      moreover have "observe (ol_instrument s) e health obs = (g, ?q) # (g, p) # rest" "(g, ?q) # (g, p) # rest \<noteq> obs"
        using None Cons o1 3 by (simp_all add: observe_def)
      ultimately show ?thesis
        using on_price_step [of s g p rest c ?q gate link rs x w] assms Cons o1
        by (auto simp: fires_def after_submission_def)
    qed
  qed
qed

lemma fires_order:
  assumes "fires s obs gate link e health rs c r" "is_symbol (ol_instrument s) = ''ETHUSDT''"
  shows "\<exists>q. r = entry_request ''ETHUSDT'' (qr_quantity q) link \<and> qr_accepted q \<and> within_limits (sized_proposal q) rs (ol_limits s)"
  using assms approved_entry_limits unfolding fires_def entry_ready_def Let_def by metis

definition sound_order :: "one_level_setup \<Rightarrow> observations \<times> place_order_request \<Rightarrow> bool" where
  "sound_order s hr \<longleftrightarrow> fresh_crossing (entry_price (ol_level s)) (fst hr) \<and> state (ol_level s) = READY
     \<and> sp_state (ol_position s) = P_OPEN
     \<and> (\<exists>q rs link. snd hr = entry_request ''ETHUSDT'' (qr_quantity q) link \<and> qr_accepted q
          \<and> within_limits (sized_proposal q) rs (ol_limits s))"

lemma fires_sound:
  assumes "fires s obs gate link e health rs c r" "is_symbol (ol_instrument s) = ''ETHUSDT''"
  shows "sound_order s (observe (ol_instrument s) e health obs, r)"
  using assms fires_order [OF assms] unfolding sound_order_def fires_def entry_ready_def Let_def fst_conv snd_conv by blast

lemma fires_inv:
  assumes "fires s obs gate link e health rs c r" "one_level_inv s obs c"
  shows "one_level_inv s (observe (ol_instrument s) e health obs) (after_submission e c)"
proof -
  have h: "observe (ol_instrument s) e health obs = (tr_connection_generation e, tr_observed_price e) # obs"
    using assms(1) by (auto simp: fires_def Let_def observe_def split: if_splits)
  obtain g p rest where o: "obs = (g, p) # rest" "tr_connection_generation e = g"
    using assms(1) unfolding fires_def Let_def h by (cases obs) auto
  then show ?thesis using assms(2) unfolding h by (simp add: one_level_inv_def after_submission_def)
qed

lemma one_level_run_inv:
  assumes "one_level_run x s obs sent c"
  shows "one_level_inv s obs c \<and> is_symbol (ol_instrument s) = ''ETHUSDT'' \<and> length sent \<le> 1
    \<and> (sent = [] \<or> oc_submitted c) \<and> (\<forall>hr \<in> set sent. sound_order s hr)"
  using assms
proof (induction rule: one_level_run.induct)
  case (Begin c)
  then show ?case by (auto simp: mk_one_level_coordinator_def check_all_Inr one_level_inv_def)
next
  case (Trigger obs sent c gate link e health rs w c' w' res)
  let ?h = "observe (ol_instrument s) e health obs"
  note step = on_trigger_step [of s obs c gate link e health rs x w]
  show ?case
  proof (cases "\<exists>r. fires s obs gate link e health rs c r")
    case True
    then obtain r where f: "fires s obs gate link e health rs c r"
        and out: "((c', w'), res) = submission_result (after_submission e c) r (submit_entry x r w)"
      using step Trigger by auto
    have ns: "sent = []" using f Trigger.IH by (auto simp: fires_def Let_def)
    have c': "c' = after_submission e c" and sub: "submit_entry x r w = (w', snd (submit_entry x r w))"
      using out by (auto simp: submission_result_def)
    from submit_entry_places [OF sub] have new: "new_orders w w' = [] \<or> new_orders w w' = [r]"
      by (auto simp: new_orders_def)
    have "one_level_inv s ?h c'" "oc_submitted c'" "sound_order s (?h, r)"
      using fires_inv [OF f] fires_sound [OF f] Trigger.IH by (simp_all add: c') (simp add: after_submission_def)
    with new Trigger.IH show ?thesis by (auto simp: ns)
  next
    case False
    with step Trigger have "no_order s ?h c w ((c', w'), res)" by auto
    then show ?thesis using Trigger.IH by (auto simp: no_order_def new_orders_def)
  qed
qed

text \<open>C7. One order per coordinator, exactly at a fresh crossing. Over any sequence of triggers, whatever the
  exchange answers and whatever else happens to the world of the entry service, a coordinator sends at most
  one order, a market sell within order rules and risk limits, and only when two consecutive admitted prices
  of one connection cross the entry price downwards, with level READY and options OPEN. Conversely, the first
  such crossing that passes gate, rules and limits is submitted, and its outcome is that of the entry service;
  any other trigger leaves the world unchanged.\<close>

theorem one_level_trigger:
  assumes "one_level_run x s obs sent c"
  shows "length sent \<le> 1
    \<and> (\<forall>(h, r) \<in> set sent. fresh_crossing (entry_price (ol_level s)) h \<and> state (ol_level s) = READY \<and> sp_state (ol_position s) = P_OPEN
        \<and> (\<exists>q rs link. r = entry_request ''ETHUSDT'' (qr_quantity q) link \<and> qr_accepted q
             \<and> within_limits (sized_proposal q) rs (ol_limits s)))
    \<and> (if \<exists>r. fires s obs gate link e health rs c r
       then \<exists>r. fires s obs gate link e health rs c r \<and> on_trigger x s gate link e health rs (c, w)
              = submission_result (after_submission e c) r (submit_entry x r w)
       else snd (fst (on_trigger x s gate link e health rs (c, w))) = w)"
proof -
  note inv = one_level_run_inv [OF assms]
  then have "one_level_inv s obs c" by blast
  from on_trigger_step [OF this, of gate link e health rs x w]
  have "if \<exists>r. fires s obs gate link e health rs c r
       then \<exists>r. fires s obs gate link e health rs c r \<and> on_trigger x s gate link e health rs (c, w)
              = submission_result (after_submission e c) r (submit_entry x r w)
       else snd (fst (on_trigger x s gate link e health rs (c, w))) = w"
    by (auto simp: no_order_def)
  with inv show ?thesis unfolding sound_order_def by fastforce
qed

section \<open>The multi-level coordinator\<close>

definition risk_counted :: "quantized_risk_result \<Rightarrow> risk_state \<Rightarrow> risk_state" where
  "risk_counted q rs = rs\<lparr>current_perp_quantity := dadd (current_perp_quantity rs) (qr_quantity q),
     current_perp_notional := dadd (current_perp_notional rs) (qr_notional q),
     active_levels := active_levels rs + 1, order_requests_last_minute := order_requests_last_minute rs + 1\<rparr>"

lemma risk_after_Inr: "risk_after q rs = Inr rs' \<Longrightarrow> rs' = risk_counted q rs"
  by (auto simp: risk_after_def risk_counted_def mk_risk_state_def check_all_Inr)

lemma dict_set_new: "k \<notin> fst ` set d \<Longrightarrow> dict_set k v d = d @ [(k, v)]"
  by (induction k v d rule: dict_set.induct) auto

lemma is_submitted_iff: "is_submitted c l \<longleftrightarrow> level_id l \<in> fst ` set (mc_submitted c)"
  by (auto simp: is_submitted_def map_of_eq_None_iff)

lemma set_armed_submitted [simp]: "mc_submitted (set_armed l b c) = mc_submitted c" "mc_attempts (set_armed l b c) = mc_attempts c"
  by (simp_all add: set_armed_def)

lemma is_submitted_set_armed [simp]: "is_submitted (set_armed l b c) = is_submitted c"
  by (simp add: is_submitted_def fun_eq_iff)

definition enters :: "multi_setup \<Rightarrow> (nat \<Rightarrow> int \<Rightarrow> string) \<Rightarrow> hedge_level \<Rightarrow> progress \<Rightarrow> multi_state
    \<Rightarrow> quantized_risk_result \<Rightarrow> place_order_request \<Rightarrow> bool" where
  "enters s link l p c q r \<longleftrightarrow> \<not> is_submitted c l \<and> state l = READY \<and> sp_state (ml_position s) = P_OPEN
     \<and> approved_entry (ml_instrument s) (matched_quantity (ml_position s)) l 0 (pg_risk p) (ml_limits s) = Inr (Inr q)
     \<and> r = entry_request ''ETHUSDT'' (qr_quantity q) (link (level_id l) (the (map_of (mc_attempts c) (level_id l)) + 1))"

lemma submit_one_cases:
  assumes "submit_one x link l q c p (c0, w) = ((c', w'), res)" "\<not> is_submitted c l"
  shows "w' = w \<and> c' = c0 \<and> \<not> is_ok res
    \<or> (let r = entry_request ''ETHUSDT'' (qr_quantity q) (link (level_id l) (the (map_of (mc_attempts c) (level_id l)) + 1))
       in \<exists>out. submit_entry x r w = (w', out) \<and> mc_submitted c' = mc_submitted c @ [(level_id l, po_order_link_id r)]
            \<and> (\<forall>p'. res = Inr p' \<longrightarrow> (\<exists>snap. out = Inr snap \<and> p' = p\<lparr>pg_entries := pg_entries p
                @ [\<lparr>lv_level_id = level_id l, lv_request = r, lv_snapshot = snap\<rparr>], pg_risk := risk_counted q (pg_risk p)\<rparr>)))"
  using assms
  by (auto simp: submit_one_def Let_def coordinator_calls is_submitted_iff dict_set_new
      dest!: stop_request_same risk_after_Inr split: sum.splits prod.splits)

lemma on_level_cases:
  assumes "on_level x s gate link l p (c, w) = ((c', w'), res)"
  shows "w' = w \<and> mc_submitted c' = mc_submitted c
      \<and> (\<forall>p'. res = Inr p' \<longrightarrow> pg_entries p' = pg_entries p \<and> pg_risk p' = pg_risk p)
    \<or> (\<exists>q r out. enters s link l p c q r \<and> submit_entry x r w = (w', out)
        \<and> mc_submitted c' = mc_submitted c @ [(level_id l, po_order_link_id r)]
        \<and> (\<forall>p'. res = Inr p' \<longrightarrow> (\<exists>snap. out = Inr snap \<and> p' = p\<lparr>pg_entries := pg_entries p
             @ [\<lparr>lv_level_id = level_id l, lv_request = r, lv_snapshot = snap\<rparr>], pg_risk := risk_counted q (pg_risk p)\<rparr>)))"
    (is "?quiet \<or> ?enters")
proof -
  let ?c = "set_armed l False c"
  let ?outcome = "approved_entry (ml_instrument s) (matched_quantity (ml_position s)) l 0 (pg_risk p) (ml_limits s)"
  let ?closed = "gate_closed (map_option (\<lambda>g. g (level_id l)) gate)"
  show ?thesis
  proof (cases "\<not> ?closed \<and> preflight_reasons s c l = [] \<and> (\<exists>q. ?outcome = Inr (Inr q))")
    case False
    then have ?quiet
      using assms by (auto simp: on_level_def Let_def coordinator_calls block_level_def preflight_reasons_def split: sum.splits if_splits)
    then show ?thesis ..
  next
    case True
    then obtain q where q: "?outcome = Inr (Inr q)" by blast
    have pre: "\<not> is_submitted c l" "state l = READY" "sp_state (ml_position s) = P_OPEN"
      using True by (auto simp: preflight_reasons_def split: if_splits)
    have "submit_one x link l q ?c p (?c, w) = ((c', w'), res)"
      using assms True q by (simp add: on_level_def Let_def act_bind_def get_own_def set_own_def act_lift_def preflight_reasons_def)
    from submit_one_cases [OF this, unfolded is_submitted_set_armed, OF pre(1)] show ?thesis
      unfolding enters_def Let_def set_armed_submitted using pre q by (auto simp: is_ok_iff)
  qed
qed

text \<open>The orders of one trigger together. \<open>exposure_after\<close> is the risk state given with what the entries of this
  trigger add to it: their quantities, their notionals, one level and one request each. The order of an entry
  is sized and passed by the gate on the exposure after the entries before it; \<open>within_together\<close> spells out what
  that makes of the sums.\<close>

definition exposure_after :: "risk_state \<Rightarrow> quantized_risk_result list \<Rightarrow> risk_state" where
  "exposure_after rs qs = rs\<lparr>current_perp_quantity := foldl dadd (current_perp_quantity rs) (map qr_quantity qs),
     current_perp_notional := foldl dadd (current_perp_notional rs) (map qr_notional qs),
     active_levels := active_levels rs + int (length qs),
     order_requests_last_minute := order_requests_last_minute rs + int (length qs)\<rparr>"

definition entered_for :: "multi_setup \<Rightarrow> multi_state \<Rightarrow> risk_state \<Rightarrow> quantized_risk_result \<Rightarrow> place_order_request \<Rightarrow> bool" where
  "entered_for s c rs q r \<longleftrightarrow> (\<exists>l \<in> set (ml_levels s). (level_id l, po_order_link_id r) \<in> set (mc_submitted c)
     \<and> state l = READY \<and> sp_state (ml_position s) = P_OPEN
     \<and> approved_entry (ml_instrument s) (matched_quantity (ml_position s)) l 0 rs (ml_limits s) = Inr (Inr q))
     \<and> r = entry_request ''ETHUSDT'' (qr_quantity q) (po_order_link_id r)"

definition entered :: "multi_setup \<Rightarrow> multi_state \<Rightarrow> risk_state \<Rightarrow> quantized_risk_result list \<Rightarrow> place_order_request list \<Rightarrow> bool" where
  "entered s c rs qs new \<longleftrightarrow> length qs = length new
     \<and> (\<forall>k < length new. entered_for s c (exposure_after rs (take k qs)) (qs ! k) (new ! k))"

definition within_together :: "risk_state \<Rightarrow> risk_limits \<Rightarrow> quantized_risk_result list \<Rightarrow> bool" where
  "within_together rs limits qs \<longleftrightarrow> (qs \<noteq> [] \<longrightarrow>
       foldl dadd (current_perp_quantity rs) (map qr_quantity qs) \<le> maximum_perp_quantity limits
       \<and> foldl dadd (current_perp_notional rs) (map qr_notional qs) \<le> maximum_perp_notional limits
       \<and> active_levels rs + int (length qs) \<le> maximum_active_levels limits
       \<and> order_requests_last_minute rs + int (length qs) \<le> maximum_order_requests_per_minute limits)
     \<and> (\<forall>q \<in> set qs. 0 < qr_quantity q \<and> 0 < qr_notional q \<and> qr_projected_stop_loss q \<le> maximum_projected_stop_loss limits)"

lemma exposure_after_snoc: "exposure_after rs (qs @ [q]) = risk_counted q (exposure_after rs qs)"
  by (simp add: exposure_after_def risk_counted_def)

lemma exposure_after_Nil [simp]: "exposure_after rs [] = rs"
  by (simp add: exposure_after_def)

lemma entered_snoc:
  assumes "entered s c rs qs new" "entered_for s c (exposure_after rs qs) q r"
  shows "entered s c rs (qs @ [q]) (new @ [r])"
  using assms by (auto simp: entered_def less_Suc_eq nth_append)

lemma entered_more:
  "set (mc_submitted c) \<subseteq> set (mc_submitted c') \<Longrightarrow> entered s c rs qs new \<Longrightarrow> entered s c' rs qs new"
  unfolding entered_def entered_for_def by blast

lemma entered_for_limits:
  assumes "entered_for s c rs q r" "is_symbol (ml_instrument s) = ''ETHUSDT''"
  shows "within_limits (sized_proposal q) rs (ml_limits s) \<and> 0 < qr_quantity q \<and> 0 < qr_notional q"
proof -
  obtain l where "approved_entry (ml_instrument s) (matched_quantity (ml_position s)) l 0 rs (ml_limits s) = Inr (Inr q)"
    using assms(1) unfolding entered_for_def by blast
  from approved_entry_limits [OF this assms(2)] show ?thesis by blast
qed

lemma entered_within:
  assumes e: "entered s c rs qs new" and i: "is_symbol (ml_instrument s) = ''ETHUSDT''"
  shows "within_together rs (ml_limits s) qs"
proof -
  have each: "within_limits (sized_proposal (qs ! k)) (exposure_after rs (take k qs)) (ml_limits s)
      \<and> 0 < qr_quantity (qs ! k) \<and> 0 < qr_notional (qs ! k)" if "k < length qs" for k
    using e that by (intro entered_for_limits [OF _ i]) (auto simp: entered_def)
  then have "\<forall>q \<in> set qs. 0 < qr_quantity q \<and> 0 < qr_notional q \<and> qr_projected_stop_loss q \<le> maximum_projected_stop_loss (ml_limits s)"
    by (auto simp: in_set_conv_nth within_limits_def sized_proposal_def)
  moreover have "within_limits (sized_proposal q) (exposure_after rs qs') (ml_limits s)" if "qs = qs' @ [q]" for q qs'
    using each [of "length qs'"] that by simp
  ultimately show ?thesis
    by (cases qs rule: rev_cases) (auto simp: within_together_def within_limits_def sized_proposal_def exposure_after_def)
qed

definition order_inv :: "multi_setup \<Rightarrow> risk_state \<Rightarrow> order_log \<Rightarrow> place_order_request list \<Rightarrow> nat set
    \<Rightarrow> place_order_request list \<Rightarrow> multi_state \<times> entry_world \<Rightarrow> bool" where
  "order_inv s rs0 P old K new cw \<longleftrightarrow> (\<exists>q. placed (w_calls (snd cw)) = P @ q \<and> map snd q = new)
     \<and> (\<exists>qs. entered s (fst cw) rs0 qs new) \<and> distinct (map fst (mc_submitted (fst cw)))
     \<and> fst ` set (mc_submitted (fst cw)) \<subseteq> K
     \<and> subseq (map po_order_link_id (old @ new)) (map snd (mc_submitted (fst cw)))"

text \<open>An entry attempt: the level's key and link are recorded, and the order goes out or fails before it does.\<close>

lemma entered_enter:
  assumes "entered s c rs0 qs new" "pg_risk p = exposure_after rs0 qs" "enters s link l p c q r" "l \<in> set (ml_levels s)"
    and c': "mc_submitted c' = mc_submitted c @ [(level_id l, po_order_link_id r)]"
  shows "entered s c' rs0 qs new" "entered s c' rs0 (qs @ [q]) (new @ [r])"
proof -
  show old: "entered s c' rs0 qs new" by (rule entered_more [OF _ assms(1)]) (auto simp: c')
  have "entered_for s c' (exposure_after rs0 qs) q r"
    using assms(2-4) c' by (auto simp: entered_for_def enters_def entry_request_def)
  then show "entered s c' rs0 (qs @ [q]) (new @ [r])" by (rule entered_snoc [OF old])
qed

lemma order_inv_enter:
  assumes inv: "order_inv s rs0 P old K new (c, w)" and k: "entered s c rs0 qs new" "pg_risk p = exposure_after rs0 qs"
    and e: "enters s link l p c q r" and sub: "submit_entry x r w = (w', out)"
    and c': "mc_submitted c' = mc_submitted c @ [(level_id l, po_order_link_id r)]"
    and l: "level_id l \<in> K" "l \<in> set (ml_levels s)"
  shows "order_inv s rs0 P old K (new @ [r]) (c', w') \<or> \<not> is_ok out \<and> order_inv s rs0 P old K new (c', w')"
proof -
  have keys: "distinct (map fst (mc_submitted c'))" "fst ` set (mc_submitted c') \<subseteq> K"
    using inv e l by (auto simp: order_inv_def c' enters_def is_submitted_iff)
  have links: "subseq (map po_order_link_id (old @ new)) (map snd (mc_submitted c))"
    using inv by (simp add: order_inv_def)
  have links': "subseq (map po_order_link_id (old @ new)) (map snd (mc_submitted c'))"
    "subseq (map po_order_link_id (old @ new @ [r])) (map snd (mc_submitted c'))"
    using list_emb_append_mono [OF links, of "[]" "[po_order_link_id r]"]
      list_emb_append_mono [OF links, of "[po_order_link_id r]" "[po_order_link_id r]"] by (simp_all add: c')
  note sized = entered_enter [OF k e l(2) c']
  from submit_entry_places [OF sub] show ?thesis
  proof (elim disjE exE conjE)
    assume "placed (w_calls w') = placed (w_calls w)" "\<not> is_ok out"
    with inv keys links'(1) sized(1) show ?thesis by (auto simp: order_inv_def)
  next
    fix db assume "placed (w_calls w') = placed (w_calls w) @ [(db, r)]"
    with inv keys links'(2) sized(2) show ?thesis by (auto simp: order_inv_def)
  qed
qed

definition loop_inv :: "multi_setup \<Rightarrow> risk_state \<Rightarrow> order_log \<Rightarrow> place_order_request list \<Rightarrow> nat set
    \<Rightarrow> progress \<Rightarrow> multi_state \<times> entry_world \<Rightarrow> bool" where
  "loop_inv s rs0 P old K p cw \<longleftrightarrow> (let new = map lv_request (pg_entries p) in
     order_inv s rs0 P old K new cw \<and> (\<exists>qs. entered s (fst cw) rs0 qs new \<and> pg_risk p = exposure_after rs0 qs))"

lemma loop_invE:
  assumes "loop_inv s rs0 P old K p (c, w)"
  obtains qs where "order_inv s rs0 P old K (map lv_request (pg_entries p)) (c, w)"
    "entered s c rs0 qs (map lv_request (pg_entries p))" "pg_risk p = exposure_after rs0 qs"
  using assms by (auto simp: loop_inv_def Let_def)

lemma order_inv_same:
  assumes "order_inv s rs0 P old K new (c, w)" "mc_submitted c' = mc_submitted c"
  shows "order_inv s rs0 P old K new (c', w)"
proof -
  have "entered s c' rs0 qs new" if "entered s c rs0 qs new" for qs
    using entered_more [OF _ that] assms(2) by simp
  with assms show ?thesis unfolding order_inv_def fst_conv snd_conv assms(2) by blast
qed

lemma triple_on_level:
  assumes "level_id l \<in> K" "l \<in> set (ml_levels s)"
  shows "triple (loop_inv s rs0 P old K p) (on_level x s gate link l p) (loop_inv s rs0 P old K)
    (\<lambda>_ cw. \<exists>new. order_inv s rs0 P old K new cw)"
proof (rule tripleI)
  fix cw cw' p' assume inv: "loop_inv s rs0 P old K p cw" and run: "on_level x s gate link l p cw = (cw', Inr p')"
  obtain c w c' w' where cw: "cw = (c, w)" "cw' = (c', w')" by (cases cw; cases cw')
  let ?new = "map lv_request (pg_entries p)"
  obtain qs where o: "order_inv s rs0 P old K ?new (c, w)" and k: "entered s c rs0 qs ?new" "pg_risk p = exposure_after rs0 qs"
    using loop_invE [OF inv [unfolded cw]] .
  from on_level_cases [OF run [unfolded cw]] show "loop_inv s rs0 P old K p' cw'"
  proof (elim disjE exE conjE)
    assume "w' = w" and same: "mc_submitted c' = mc_submitted c"
      and p': "\<forall>y. Inr p' = Inr y \<longrightarrow> pg_entries y = pg_entries p \<and> pg_risk y = pg_risk p"
    have "entered s c' rs0 qs ?new" using entered_more [OF _ k(1)] same by simp
    moreover have "pg_entries p' = pg_entries p" "pg_risk p' = pg_risk p" using p' by simp_all
    ultimately show ?thesis
      using order_inv_same [OF o same] k(2) unfolding loop_inv_def Let_def cw \<open>w' = w\<close> fst_conv by metis
  next
    fix q r out assume e: "enters s link l p c q r" and sub: "submit_entry x r w = (w', out)"
      and c': "mc_submitted c' = mc_submitted c @ [(level_id l, po_order_link_id r)]"
      and p': "\<forall>y. Inr p' = Inr y \<longrightarrow> (\<exists>snap. out = Inr snap \<and> y = p\<lparr>pg_entries := pg_entries p
         @ [\<lparr>lv_level_id = level_id l, lv_request = r, lv_snapshot = snap\<rparr>], pg_risk := risk_counted q (pg_risk p)\<rparr>)"
    from p' obtain snap where new: "out = Inr snap" "map lv_request (pg_entries p') = ?new @ [r]"
        "pg_risk p' = exposure_after rs0 (qs @ [q])"
      by (auto simp: exposure_after_snoc k(2))
    with order_inv_enter [OF o k e sub c' assms] entered_enter(2) [OF k e assms(2) c'] show ?thesis
      unfolding loop_inv_def Let_def cw new is_ok_simps fst_conv by blast
  qed
next
  fix cw cw' e1 assume inv: "loop_inv s rs0 P old K p cw" and run: "on_level x s gate link l p cw = (cw', Inl e1)"
  obtain c w c' w' where cw: "cw = (c, w)" "cw' = (c', w')" by (cases cw; cases cw')
  obtain qs where o: "order_inv s rs0 P old K (map lv_request (pg_entries p)) (c, w)"
      and k: "entered s c rs0 qs (map lv_request (pg_entries p))" "pg_risk p = exposure_after rs0 qs"
    using loop_invE [OF inv [unfolded cw]] .
  from on_level_cases [OF run [unfolded cw]] show "\<exists>new. order_inv s rs0 P old K new cw'"
  proof (elim disjE exE conjE)
    assume same: "w' = w" "mc_submitted c' = mc_submitted c"
    show ?thesis using order_inv_same [OF o same(2)] unfolding cw same(1) by blast
  next
    fix q r out assume "enters s link l p c q r" "submit_entry x r w = (w', out)"
      "mc_submitted c' = mc_submitted c @ [(level_id l, po_order_link_id r)]"
    from order_inv_enter [OF o k this assms] show ?thesis unfolding cw by blast
  qed
qed

text \<open>The levels a trigger may enter: crossed by it and the price before it, on the same connection.\<close>

definition crossed_ids :: "multi_setup \<Rightarrow> multi_state \<Rightarrow> trigger_price_event \<Rightarrow> nat set" where
  "crossed_ids s c e = {level_id l | l p. l \<in> set (ml_levels s) \<and> mc_generation c = Some (tr_connection_generation e)
     \<and> mc_previous_price c = Some p \<and> entry_price l < p \<and> tr_observed_price e \<le> entry_price l}"

definition book :: "multi_setup \<Rightarrow> place_order_request list \<Rightarrow> multi_state \<Rightarrow> bool" where
  "book s old c \<longleftrightarrow> distinct (map fst (mc_submitted c)) \<and> fst ` set (mc_submitted c) \<subseteq> level_id ` set (ml_levels s)
     \<and> subseq (map po_order_link_id old) (map snd (mc_submitted c))"

lemma arming_submitted [simp]:
  "mc_submitted (reset_segments s e c) = mc_submitted c" "mc_submitted (arm_levels s q c) = mc_submitted c"
proof -
  have "mc_submitted (foldl (\<lambda>c l. set_armed l (f c l) c) c ls) = mc_submitted c" for f c ls
    by (induction ls arbitrary: c) simp_all
  then show "mc_submitted (reset_segments s e c) = mc_submitted c" by (simp add: reset_segments_def)
  have "mc_submitted (foldl (\<lambda>c l. if f c l then set_armed l True c else c) c ls) = mc_submitted c" for f c ls
    by (induction ls arbitrary: c) simp_all
  then show "mc_submitted (arm_levels s q c) = mc_submitted c" by (simp add: arm_levels_def)
qed

lemma order_inv_start:
  assumes "book s old c" "fst ` set (mc_submitted c) \<subseteq> K" "mc_submitted c' = mc_submitted c"
  shows "order_inv s rs0 (placed (w_calls w)) old K [] (c', w)"
  using assms by (simp add: order_inv_def book_def entered_def)

lemma on_prices_orders:
  assumes g: "mc_generation c = Some (tr_connection_generation e)" and b: "book s old c"
    and run: "on_prices x s gate link rs (tr_observed_price e) c (c, w) = (cw', res)"
  shows "\<exists>new. order_inv s rs (placed (w_calls w)) old (fst ` set (mc_submitted c) \<union> crossed_ids s c e) new cw'
    \<and> (\<forall>y. res = Inr y \<longrightarrow> map lv_request (mr_entries y) = new)"
proof (cases "mc_previous_price c")
  case None
  with run have "cw' = (c, w)" "\<not> is_ok res" by (auto simp: on_prices_def act_raise_def)
  with order_inv_start [OF b] show ?thesis by (auto intro: exI [of _ "[]"] simp: is_ok_iff)
next
  case (Some p)
  let ?q = "tr_observed_price e" and ?K = "fst ` set (mc_submitted c) \<union> crossed_ids s c e"
  let ?c1 = "arm_levels s ?q c" and ?p0 = "\<lparr>pg_entries = [], pg_blocked = [], pg_risk = rs\<rparr>"
  let ?ls = "crossed_levels s p ?q ?c1" and ?P = "placed (w_calls w)"
  have ids: "level_id l \<in> ?K" "l \<in> set (ml_levels s)" if "l \<in> set ?ls" for l
    using that Some g by (auto simp: crossed_levels_def crossed_ids_def)
  have "order_inv s rs ?P old ?K [] (?c1\<lparr>mc_previous_price := Some ?q\<rparr>, w)"
    by (rule order_inv_start [OF b]) auto
  then have start: "loop_inv s rs ?P old ?K ?p0 (?c1\<lparr>mc_previous_price := Some ?q\<rparr>, w)"
    by (auto simp: loop_inv_def entered_def)
  have loop: "triple (loop_inv s rs ?P old ?K ?p0) (act_for (on_level x s gate link) ?ls ?p0)
      (loop_inv s rs ?P old ?K) (\<lambda>_ cw. \<exists>new. order_inv s rs ?P old ?K new cw)"
    by (rule triple_for) (rule triple_on_level [OF ids])
  obtain cw1 r1 where out: "act_for (on_level x s gate link) ?ls ?p0 (?c1\<lparr>mc_previous_price := Some ?q\<rparr>, w) = (cw1, r1)"
    by fastforce
  with run Some have cw': "cw' = cw1" and res: "res = (case r1 of Inl er \<Rightarrow> Inl er
      | Inr p' \<Rightarrow> Inr \<lparr>mr_entries = pg_entries p', mr_blocked = pg_blocked p', mr_refused = []\<rparr>)"
    by (auto simp: on_prices_def Let_def act_bind_def set_own_def act_return_def split: sum.splits)
  show ?thesis
  proof (cases r1)
    case (Inl er)
    with triple_Inl [OF loop start] out show ?thesis by (auto simp: cw' res)
  next
    case (Inr p')
    with triple_Inr [OF loop start] out show ?thesis by (auto simp: cw' res loop_inv_def Let_def)
  qed
qed

lemma on_triggers_orders:
  assumes b: "book s old c"
    and run: "on_triggers x s gate link e health rs (c, w) = (cw', res)"
  shows "\<exists>new. order_inv s rs (placed (w_calls w)) old (fst ` set (mc_submitted c) \<union> crossed_ids s c e) new cw'
    \<and> (\<forall>y. res = Inr y \<longrightarrow> map lv_request (mr_entries y) = new)"
proof -
  have quiet: ?thesis if "fst cw' = c \<or> fst cw' = reset_segments s e c" "snd cw' = w" "\<And>y. res = Inr y \<Longrightarrow> mr_entries y = []"
    using order_inv_start [OF b, where c' = "fst cw'" and w = w and K = "fst ` set (mc_submitted c) \<union> crossed_ids s c e" and ?rs0.0 = rs]
      that by (cases cw') (auto intro!: exI [of _ "[]"])
  consider "refusals (ml_instrument s) e health \<noteq> None" | "refusals (ml_instrument s) e health = None" "mc_generation c \<noteq> Some (tr_connection_generation e)"
    | "refusals (ml_instrument s) e health = None" "mc_generation c = Some (tr_connection_generation e)" by blast
  then show ?thesis
  proof cases
    case 3
    then have "on_prices x s gate link rs (tr_observed_price e) c (c, w) = (cw', res)"
      using run by (simp add: on_triggers_def act_bind_def get_own_def)
    from on_prices_orders [OF 3(2) b this] show ?thesis .
  qed (rule quiet; use run in \<open>auto simp: on_triggers_def no_entries_def coordinator_calls split: option.splits if_splits\<close>)+
qed

text \<open>The entries are visited from the highest to the lowest level.\<close>

lemma loop_in_order:
  "act_for (on_level x s gate link) ls p cw = (cw', Inr p')
   \<Longrightarrow> \<exists>ids. subseq ids (map level_id ls) \<and> map lv_level_id (pg_entries p') = map lv_level_id (pg_entries p) @ ids"
proof (induction ls arbitrary: p cw)
  case Nil
  then show ?case by (simp add: act_return_def)
next
  case (Cons l ls)
  then obtain cw1 p1 where 1: "on_level x s gate link l p cw = (cw1, Inr p1)" "act_for (on_level x s gate link) ls p1 cw1 = (cw', Inr p')"
    by (auto simp: act_bind_def split: prod.splits sum.splits)
  obtain c w c1 w1 where cw: "cw = (c, w)" "cw1 = (c1, w1)" by (cases cw; cases cw1)
  from on_level_cases [OF 1(1) [unfolded cw]]
  have "map lv_level_id (pg_entries p1) = map lv_level_id (pg_entries p)
      \<or> map lv_level_id (pg_entries p1) = map lv_level_id (pg_entries p) @ [level_id l]" by auto
  with Cons.IH [OF 1(2)] show ?case by (elim exE disjE) (auto intro: exI [of _ "level_id l # ids" for ids])
qed

lemma entries_in_order:
  assumes "on_triggers x s gate link e health rs (c, w) = (cw', Inr y)"
  shows "subseq (map lv_level_id (mr_entries y)) (map level_id (ml_levels s))"
proof -
  have loop: "subseq (map lv_level_id (pg_entries p')) (map level_id (ml_levels s))"
    if run: "act_for (on_level x s gate link) (crossed_levels s p q c1) \<lparr>pg_entries = [], pg_blocked = [], pg_risk = rs\<rparr> cw = (cw1, Inr p')"
    for p q c1 cw cw1 p'
  proof -
    obtain ids where ids: "subseq ids (map level_id (crossed_levels s p q c1))" "map lv_level_id (pg_entries p') = ids"
      using loop_in_order [OF run] by auto
    have "subseq (map level_id (crossed_levels s p q c1)) (map level_id (ml_levels s))"
      unfolding crossed_levels_def by (rule subseq_map) simp
    with ids show ?thesis using subseq_order.trans by blast
  qed
  show ?thesis
    using assms by (auto simp: on_triggers_def on_prices_def no_entries_def coordinator_calls Let_def
        dest: loop split: option.splits if_splits sum.splits prod.splits)
qed

text \<open>The life of a coordinator: triggers and position checks in any order, the world changing in between.\<close>

inductive multi_run :: "exchange \<Rightarrow> multi_setup \<Rightarrow> place_order_request list \<Rightarrow> multi_state \<Rightarrow> bool" for x s where
  Begin: "mk_multi_coordinator s = Inr c \<Longrightarrow> multi_run x s [] c"
| Trigger: "multi_run x s sent c \<Longrightarrow> on_triggers x s gate link e health rs (c, w) = ((c', w'), res)
    \<Longrightarrow> multi_run x s (sent @ new_orders w w') c'"
| Reconcile: "multi_run x s sent c \<Longrightarrow> reconcile_aggregate_position positions (c, w) = ((c', w'), b) \<Longrightarrow> multi_run x s sent c'"

lemma keeps_own [keeping]:
  "keeps (\<lambda>cw. fst cw = c) (in_service m)" "keeps (\<lambda>cw. fst cw = c) get_own"
  by (auto simp: keeps_def in_service_def get_own_def split: prod.splits)

lemma reconcile_keeps_own: "keeps (\<lambda>cw. fst cw = c) (reconcile_aggregate_position positions)"
  unfolding reconcile_aggregate_position_def submitted_snapshot_def mark_level_def by (intro keeping)

lemma order_inv_new:
  assumes "order_inv s rs (placed (w_calls w)) old K new (c', w')"
  shows "new_orders w w' = new"
  using assms by (auto simp: order_inv_def new_orders_def)

lemma multi_run_inv:
  assumes "multi_run x s sent c"
  shows "book s sent c \<and> is_symbol (ml_instrument s) = ''ETHUSDT'' \<and> distinct (map level_id (ml_levels s))"
  using assms
proof (induction rule: multi_run.induct)
  case (Begin c)
  then have "map level_id (ml_levels s) = [1..<length (ml_levels s) + 1]"
    by (auto simp: mk_multi_coordinator_def check_all_Inr Let_def)
  then have "distinct (map level_id (ml_levels s))" by (simp only: distinct_upt)
  with Begin show ?case by (auto simp: mk_multi_coordinator_def check_all_Inr Let_def book_def)
next
  case (Trigger sent c gate link e health rs w c' w' res)
  then obtain new where o: "order_inv s rs (placed (w_calls w)) sent (fst ` set (mc_submitted c) \<union> crossed_ids s c e) new (c', w')"
    using on_triggers_orders by blast
  have "crossed_ids s c e \<subseteq> level_id ` set (ml_levels s)" by (auto simp: crossed_ids_def)
  moreover have "fst ` set (mc_submitted c') \<subseteq> fst ` set (mc_submitted c) \<union> crossed_ids s c e" using o by (simp add: order_inv_def)
  ultimately have "fst ` set (mc_submitted c') \<subseteq> level_id ` set (ml_levels s)" using Trigger.IH unfolding book_def by blast
  with o Trigger.IH show ?case by (simp add: order_inv_new [OF o] order_inv_def book_def)
next
  case (Reconcile sent c positions w c' w' b)
  then have "c' = c" using keepsD [OF reconcile_keeps_own Reconcile(2)] by simp
  with Reconcile.IH show ?case by simp
qed

text \<open>C6. One order per level, and the orders of one trigger within the limits together. Over any sequence of
  triggers and position checks, whatever the exchange answers: every order sent belongs to a level of its
  own, so there are at most as many as levels. The orders of a trigger belong to levels that its price and the
  one before it cross on the same connection, in the order from high to low. Each was sized and approved on
  the risk state given increased by exactly the quantity and the notional of each entry of this trigger before
  it, one level and one request each; so their quantities and their notionals, summed on top of the position
  given, and their numbers stay within the limits, and the projected stop loss of each within its limit.\<close>

theorem multi_level_trigger:
  assumes "multi_run x s sent c" and "on_triggers x s gate link e health rs (c, w) = ((c', w'), res)"
  shows "distinct (map fst (mc_submitted c')) \<and> fst ` set (mc_submitted c') \<subseteq> fst ` set (mc_submitted c) \<union> crossed_ids s c e
    \<and> subseq (map po_order_link_id (sent @ new_orders w w')) (map snd (mc_submitted c'))
    \<and> length (sent @ new_orders w w') \<le> length (ml_levels s)
    \<and> (\<exists>qs. entered s c' rs qs (new_orders w w') \<and> within_together rs (ml_limits s) qs)
    \<and> (\<forall>y. res = Inr y \<longrightarrow> map lv_request (mr_entries y) = new_orders w w'
         \<and> subseq (map lv_level_id (mr_entries y)) (map level_id (ml_levels s)))"
proof -
  note inv = multi_run_inv [OF assms(1)]
  obtain new where o: "order_inv s rs (placed (w_calls w)) sent (fst ` set (mc_submitted c) \<union> crossed_ids s c e) new (c', w')"
      "\<forall>y. res = Inr y \<longrightarrow> map lv_request (mr_entries y) = new"
    using on_triggers_orders [OF _ assms(2)] inv by blast
  have "book s (sent @ new) c'" using multi_run_inv [OF multi_run.Trigger [OF assms]] order_inv_new [OF o(1)] by simp
  then have "card (fst ` set (mc_submitted c')) = length (mc_submitted c')"
      "fst ` set (mc_submitted c') \<subseteq> level_id ` set (ml_levels s)"
      "length (sent @ new) \<le> length (mc_submitted c')"
    by (auto simp: book_def distinct_card simp flip: set_map dest: list_emb_length)
  moreover have "card (level_id ` set (ml_levels s)) = length (ml_levels s)"
    using inv by (metis distinct_card length_map set_map)
  ultimately have "length (sent @ new) \<le> length (ml_levels s)"
    using card_mono [of "level_id ` set (ml_levels s)" "fst ` set (mc_submitted c')"] by simp
  moreover have "\<exists>qs. entered s c' rs qs new \<and> within_together rs (ml_limits s) qs"
    using o(1) entered_within inv by (auto simp: order_inv_def)
  ultimately show ?thesis
    using o entries_in_order assms(2) unfolding order_inv_new [OF o(1)] by (auto simp: order_inv_def)
qed

section \<open>An example crossing\<close>

definition demo_leg :: "string \<Rightarrow> leg_side \<Rightarrow> dec \<Rightarrow> dec \<Rightarrow> option_leg_position" where
  "demo_leg symb side strike price = \<lparr>lg_contract = \<lparr>oc_symbol = symb, oc_base_coin = ''ETH'', oc_quote_coin = ''USDT'',
       oc_settle_coin = ''USDT'', oc_option_type = Put, oc_strike = strike, oc_expiry_time_utc = Aware 9, oc_contract_multiplier = 1\<rparr>,
     lg_side = side, lg_requested_quantity = 1, lg_filled_quantity = 1, lg_average_entry_price = price, lg_fees_paid = 1, lg_fills = []\<rparr>"

definition demo_setup :: one_level_setup where
  "demo_setup = \<lparr>ol_position = \<lparr>short_put = demo_leg ''S'' Short 3000 40, long_put = demo_leg ''L'' Long 2900 10,
       sp_state = P_OPEN, sp_opened_time_utc = None\<rparr>,
     ol_level = sample_level, ol_instrument = eth_perp, ol_limits = sample_limits\<rparr>"

definition trade_at :: "dec \<Rightarrow> trigger_price_event" where
  "trade_at price = \<lparr>tr_symbol = ''ETHUSDT'', tr_source = LAST_TRADE, tr_observed_price = price,
     tr_observed_timestamp = Aware 1, tr_connection_generation = 1\<rparr>"

definition healthy :: market_data_health_result where
  "healthy = \<lparr>mr_trading_allowed = True, mr_reasons = [], mr_event_type = MARKET_DATA_RECOVERED\<rparr>"

definition armed_state :: one_level_state where
  "armed_state = \<lparr>oc_previous_price = Some 3010, oc_generation = Some 1, oc_armed = True, oc_submitted = False\<rparr>"

lemma demo_refusals: "refusals eth_perp (trade_at price) healthy = None"
  by (simp add: refusals_def trade_at_def healthy_def eth_perp_def)

lemma demo_armed_run: "one_level_run x demo_setup [(1, 3010)] [] armed_state"
proof -
  let ?c0 = "\<lparr>oc_previous_price = None, oc_generation = None, oc_armed = False, oc_submitted = False\<rparr> :: one_level_state"
  have "mk_one_level_coordinator demo_setup = Inr ?c0"
    by (simp add: mk_one_level_coordinator_def check_all.simps demo_setup_def sample_level_def fresh_level_def eth_perp_def)
  then have run: "one_level_run x demo_setup [] [] ?c0" by (rule one_level_run.Begin)
  have "\<exists>res. on_trigger x demo_setup None [] (trade_at 3010) healthy sample_state (?c0, start_world) = ((armed_state, start_world), res)"
    by (simp add: on_trigger_def demo_setup_def demo_refusals coordinator_calls not_triggered_def reset_segment_def armed_state_def)
       (simp add: trade_at_def sample_level_def fresh_level_def)
  then obtain res where "on_trigger x demo_setup None [] (trade_at 3010) healthy sample_state (?c0, start_world) = ((armed_state, start_world), res)"
    by blast
  from one_level_run.Trigger [OF run this] show ?thesis
    by (simp add: observe_def demo_setup_def demo_refusals new_orders_def) (simp add: trade_at_def)
qed

lemma demo_sizing:
  "(case approved_entry eth_perp 1 sample_level 10 sample_state sample_limits of Inr (Inr q) \<Rightarrow> qr_quantity q = 1 | _ \<Rightarrow> False)"
  "is_ok (mk_place_order_request (entry_request ''ETHUSDT'' 1 sample_link))"
  by code_simp+

lemma demo_fires:
  "fires demo_setup [(1, 3010)] None sample_link (trade_at 2990) healthy sample_state armed_state (entry_request ''ETHUSDT'' 1 sample_link)"
proof -
  obtain q where q: "approved_entry eth_perp 1 sample_level 10 sample_state sample_limits = Inr (Inr q)" "qr_quantity q = 1"
    using demo_sizing(1) by (auto split: sum.splits)
  have o: "observe eth_perp (trade_at 2990) healthy [(1, 3010)] = [(1, 2990), (1, 3010)]"
    by (simp add: observe_def demo_refusals) (simp add: trade_at_def)
  have s: "ol_instrument demo_setup = eth_perp" "ol_level demo_setup = sample_level" "ol_limits demo_setup = sample_limits"
    "matched_quantity (ol_position demo_setup) = 1" "sp_state (ol_position demo_setup) = P_OPEN"
    by (simp_all add: demo_setup_def matched_quantity_def demo_leg_def)
  have l: "entry_price sample_level = 3000" "state sample_level = READY" "confirmed_recovery_debt sample_state = 10"
    "is_symbol eth_perp = ''ETHUSDT''"
    by (simp_all add: sample_level_def fresh_level_def sample_state_def eth_perp_def)
  have "entry_ready demo_setup None sample_link sample_state (entry_request ''ETHUSDT'' 1 sample_link)"
    unfolding entry_ready_def s l using q demo_sizing(2) by (auto simp: gate_closed_def)
  then show ?thesis by (simp add: fires_def s o l armed_state_def)
qed

theorem one_level_trigger_witness:
  "\<exists>r. fires demo_setup [(1, 3010)] None sample_link (trade_at 2990) healthy sample_state armed_state r
     \<and> on_trigger prompt_exchange demo_setup None sample_link (trade_at 2990) healthy sample_state (armed_state, start_world)
       = submission_result (after_submission (trade_at 2990) armed_state) r (submit_entry prompt_exchange r start_world)"
  using one_level_trigger [OF demo_armed_run [of prompt_exchange],
      of None sample_link "trade_at 2990" healthy sample_state start_world] demo_fires by meson

definition demo_levels :: multi_setup where
  "demo_levels = \<lparr>ml_position = ol_position demo_setup, ml_levels = [sample_level], ml_instrument = eth_perp, ml_limits = sample_limits\<rparr>"

definition armed_levels :: multi_state where
  "armed_levels = \<lparr>mc_previous_price = Some 3010, mc_generation = Some 1, mc_armed = [(1, True)], mc_attempts = [(1, 0)], mc_submitted = []\<rparr>"

lemma demo_levels_run: "multi_run x demo_levels [] armed_levels"
proof -
  let ?c0 = "\<lparr>mc_previous_price = None, mc_generation = None, mc_armed = [(1, False)], mc_attempts = [(1, 0)], mc_submitted = []\<rparr> :: multi_state"
  have "mk_multi_coordinator demo_levels = Inr ?c0"
    by (simp add: mk_multi_coordinator_def check_all.simps demo_levels_def sample_level_def fresh_level_def eth_perp_def Let_def)
  then have run: "multi_run x demo_levels [] ?c0" by (rule multi_run.Begin)
  have "\<exists>res. on_triggers x demo_levels None (\<lambda>_ _. []) (trade_at 3010) healthy sample_state (?c0, start_world) = ((armed_levels, start_world), res)"
    by (simp add: on_triggers_def demo_levels_def demo_refusals coordinator_calls no_entries_def reset_segments_def armed_levels_def)
       (simp add: trade_at_def sample_level_def fresh_level_def set_armed_def is_submitted_def)
  then obtain res where "on_triggers x demo_levels None (\<lambda>_ _. []) (trade_at 3010) healthy sample_state (?c0, start_world) = ((armed_levels, start_world), res)"
    by blast
  from multi_run.Trigger [OF run this] show ?thesis by (simp add: new_orders_def)
qed

definition crossed_run :: "(multi_state \<times> entry_world) \<times> multi_result res" where
  "crossed_run = on_triggers prompt_exchange demo_levels None (\<lambda>_ _. sample_link) (trade_at 2990) healthy sample_state (armed_levels, start_world)"

fun crossed_summary :: "(multi_state \<times> entry_world) \<times> multi_result res \<Rightarrow> dec list \<times> (nat \<times> string) list" where
  "crossed_summary ((c, w), r) = (map po_quantity (new_orders start_world w), mc_submitted c)"

lemma crossed_facts: "crossed_summary crossed_run = ([1], [(1, sample_link)])"
  by code_simp

theorem multi_level_trigger_witness:
  "\<exists>c' w' res. crossed_run = ((c', w'), res) \<and> map po_quantity (new_orders start_world w') = [1]
     \<and> mc_submitted c' = [(1, sample_link)]
     \<and> (\<exists>qs. entered demo_levels c' sample_state qs (new_orders start_world w') \<and> within_together sample_state sample_limits qs)
     \<and> map po_order_link_id (new_orders start_world w') = [sample_link]"
proof -
  obtain c' w' res where run: "crossed_run = ((c', w'), res)" by (metis prod.collapse)
  have f: "map po_quantity (new_orders start_world w') = [1]" "mc_submitted c' = [(1, sample_link)]"
    using crossed_facts unfolding run by simp_all
  note m = multi_level_trigger [OF demo_levels_run run [unfolded crossed_run_def]]
  then have "subseq (map po_order_link_id (new_orders start_world w')) [sample_link]" using f(2) by simp
  moreover have "length (new_orders start_world w') = 1" using f(1) by (metis length_map length_Cons list.size(3) One_nat_def)
  ultimately have "map po_order_link_id (new_orders start_world w') = [sample_link]"
    by (metis subseq_same_length length_map length_Cons list.size(3) One_nat_def)
  moreover have "\<exists>qs. entered demo_levels c' sample_state qs (new_orders start_world w') \<and> within_together sample_state sample_limits qs"
    using m by (simp add: demo_levels_def)
  ultimately show ?thesis using run f by (intro exI [of _ c'] exI [of _ w'] exI [of _ res] conjI)
qed

end
