(* ===== verification/One_Level_Lifecycle.thy ===== *)
theory One_Level_Lifecycle
  imports Entry_Client
begin

text \<open>
  \<open>application/one_level_lifecycle.py\<close>: the service that drives one entry from its order through its fills
  to its stop and take profit, and later to an exit. It composes the entry service and the protective
  exits over the same exchange and store. The hash of an execution is a parameter of the service; a history
  that is not restricted to one order is asked for with the empty link. The lemmas follow \<open>open_and_protect\<close>:
  which orders go out in which order, and what the exchange has shown when it returns; and \<open>await_exit\<close>.
\<close>

section \<open>The service\<close>

record lifecycle =
  lf_instrument :: instrument_spec
  lf_fill_attempts :: int
  lf_fill_interval_seconds :: rat
  lf_payload_hash :: "execution_update \<Rightarrow> string"
  lf_exits :: exit_settings

definition mk_lifecycle :: "lifecycle \<Rightarrow> lifecycle res" where
  "mk_lifecycle f = check_all
    [(is_category (lf_instrument f) \<noteq> linear_category \<or> is_symbol (lf_instrument f) \<noteq> ''ETHUSDT''
        \<or> is_status (lf_instrument f) \<noteq> ''Trading'', ''lifecycle requires Trading ETHUSDT linear''),
     (lf_fill_attempts f \<le> 0, ''fill attempts must be positive''),
     (lf_fill_interval_seconds f < 0, ''fill interval cannot be negative'')] (Inr f)"

record protected_level =
  pv_entry :: entry_snapshot
  pv_protection :: protection_snapshot

definition ended_statuses :: "string list" where
  "ended_statuses = [''Cancelled'', ''Deactivated'', ''Filled'', ''PartiallyFilledCanceled'', ''Rejected'']"

definition by_time :: "execution_update list \<Rightarrow> execution_update list" where
  "by_time es = sort_key (\<lambda>e. (instant (ex_executed_at e), ex_execution_id e)) es"

section \<open>Waiting for the entry\<close>

definition book_entry_fill ::
    "lifecycle \<Rightarrow> exchange \<Rightarrow> execution_update \<Rightarrow> entry_snapshot \<Rightarrow> ('z world_scheme, entry_snapshot) act" where
  "book_entry_fill f x e s = act_bind (clock x) (\<lambda>now. apply_execution e now (lf_payload_hash f e))"

text \<open>What an order that has ended says: \<open>Some\<close> snapshot if the wait is over, \<open>None\<close> to ask again.\<close>

definition judge_order ::
    "exchange \<Rightarrow> entry_snapshot \<Rightarrow> exchange_order option \<Rightarrow> ('z world_scheme, entry_snapshot option) act" where
  "judge_order x s order = (case order of
     None \<Rightarrow> act_return None
   | Some d \<Rightarrow>
       if eo_status d \<notin> set ended_statuses then act_return None
       else if eo_cumulative_filled_quantity d < es_filled_quantity s
       then act_raise (EntryFillNotConfirmedError ''exchange order reports less fill than the durable snapshot'')
       else if eo_cumulative_filled_quantity d \<noteq> es_filled_quantity s then act_return None
       else if es_state s = ENTRY_PARTIALLY_FILLED
       then act_bind (finalize_partial_fill x (es_order_link_id s)) (\<lambda>s1. act_return (Some s1))
       else if es_filled_quantity s = 0
       then act_raise (EntryFillNotConfirmedError (''entry '' @ es_order_link_id s @ '' ended without a fill''))
       else act_return None)"

fun await_fill :: "lifecycle \<Rightarrow> exchange \<Rightarrow> nat \<Rightarrow> entry_snapshot \<Rightarrow> ('z world_scheme, entry_snapshot) act" where
  "await_fill f x 0 s = act_raise (EntryFillNotConfirmedError (''entry '' @ es_order_link_id s @ '' fill was not confirmed''))"
| "await_fill f x (Suc left) s =
     act_bind (get_execution_history x linear_category ''ETHUSDT'' (es_order_link_id s)) (\<lambda>es.
     act_bind (act_for (book_entry_fill f x) (by_time es) s) (\<lambda>s1.
     if es_state s1 = ACTIVE_UNPROTECTED then act_return s1
     else act_bind (get_order_by_link_id x linear_category ''ETHUSDT'' (es_order_link_id s1)) (\<lambda>order.
       act_bind (judge_order x s1 order) (\<lambda>over. case over of
         Some s2 \<Rightarrow> act_return s2
       | None \<Rightarrow> if 0 < left then act_bind sleep (\<lambda>_. await_fill f x left s1) else await_fill f x left s1))))"

definition await_entry_fill :: "lifecycle \<Rightarrow> exchange \<Rightarrow> entry_snapshot \<Rightarrow> ('z world_scheme, entry_snapshot) act" where
  "await_entry_fill f x s = await_fill f x (nat (lf_fill_attempts f)) s"

section \<open>Opening and protecting\<close>

definition mismatch :: "string \<Rightarrow> ('s, 'a) act" where
  "mismatch msg = act_raise (LifecyclePositionMismatchError msg)"

definition install_exits ::
    "lifecycle \<Rightarrow> exchange \<Rightarrow> string \<Rightarrow> string \<Rightarrow> string \<Rightarrow> dec \<Rightarrow> dec \<Rightarrow> ('z world_scheme, protection_snapshot) act" where
  "install_exits f x link stop_link tp_link stop_rate price =
     act_bind (install_stop (lf_exits f) x link (lf_instrument f) stop_link stop_rate) (\<lambda>s.
     install_take_profit (lf_exits f) x s (lf_instrument f) tp_link price PASSIVE)"

definition protect_submitted_entry ::
    "lifecycle \<Rightarrow> exchange \<Rightarrow> entry_snapshot \<Rightarrow> string \<Rightarrow> string \<Rightarrow> dec \<Rightarrow> dec \<Rightarrow> protected_level entry_act" where
  "protect_submitted_entry f x s stop_link tp_link stop_rate price =
     act_bind (await_entry_fill f x s) (\<lambda>entry.
     act_bind (get_positions x linear_category ''ETHUSDT'') (\<lambda>positions.
     act_bind (reconcile_position x positions) (\<lambda>agrees.
     if \<not> agrees then mismatch ''entry executions do not match the ETHUSDT position''
     else act_bind (install_exits f x (es_order_link_id entry) stop_link tp_link stop_rate price) (\<lambda>protection.
       act_bind (get_positions x linear_category ''ETHUSDT'') (\<lambda>positions.
       if \<not> protection_position_matches protection positions then mismatch ''protected quantity does not match the ETHUSDT position''
       else act_return \<lparr>pv_entry = entry, pv_protection = protection\<rparr>)))))"

definition one_way_short :: "place_order_request \<Rightarrow> order_validation_result \<Rightarrow> bool" where
  "one_way_short r v \<longleftrightarrow> po_category r = linear_category \<and> po_symbol r = ''ETHUSDT'' \<and> po_side r = Sell
     \<and> po_order_type r = Market \<and> \<not> po_reduce_only r \<and> po_position_idx r = 0 \<and> ov_accepted v
     \<and> ov_normalized_quantity v = po_quantity r"

fun join_reasons :: "string list \<Rightarrow> string" where
  "join_reasons [] = ''''"
| "join_reasons [r] = r"
| "join_reasons (r # rs) = r @ ''; '' @ join_reasons rs"

definition check_entry_request :: "lifecycle \<Rightarrow> place_order_request \<Rightarrow> dec \<Rightarrow> unit res" where
  "check_entry_request f r reference =
     r_bind (normalize_and_validate_order (lf_instrument f) Sell (po_quantity r) None True (Some reference) PASSIVE) (\<lambda>v.
     raise_when (\<not> one_way_short r v)
       (join_reasons (if ov_errors v = [] then [''entry request is not a valid one-way short''] else ov_errors v)) (Inr ()))"

definition open_and_protect ::
    "lifecycle \<Rightarrow> exchange \<Rightarrow> place_order_request \<Rightarrow> string \<Rightarrow> string \<Rightarrow> dec \<Rightarrow> dec \<Rightarrow> dec \<Rightarrow> protected_level entry_act" where
  "open_and_protect f x r stop_link tp_link stop_rate price reference =
     act_bind (act_lift (check_entry_request f r reference)) (\<lambda>_.
     act_bind (submit_entry x r) (\<lambda>entry.
     protect_submitted_entry f x entry stop_link tp_link stop_rate price))"

section \<open>Waiting for an exit\<close>

definition required_protection :: "string \<Rightarrow> ('z world_scheme, protection_snapshot) act" where
  "required_protection link = act_bind (on_store (load_protection_snapshot link)) (missing ''protection snapshot does not exist'')"

definition book_exit_fill ::
    "lifecycle \<Rightarrow> exchange \<Rightarrow> execution_update \<Rightarrow> protection_snapshot \<Rightarrow> ('z world_scheme, protection_snapshot) act" where
  "book_exit_fill f x e s = act_bind (clock x) (\<lambda>now. book_exit_execution e now (lf_payload_hash f e))"

definition exit_fills :: "string option list \<Rightarrow> execution_update list \<Rightarrow> execution_update list" where
  "exit_fills ids es = by_time (filter (\<lambda>e. Some (ex_order_link_id e) \<in> set ids) es)"

definition reconcile_pending :: "exchange \<Rightarrow> string \<Rightarrow> protection_snapshot \<Rightarrow> ('z world_scheme, protection_snapshot) act" where
  "reconcile_pending x link s = (if ps_state s = CANCEL_PENDING then reconcile_after_exit x link else act_return s)"

fun await_exit_from ::
    "lifecycle \<Rightarrow> exchange \<Rightarrow> string \<Rightarrow> string option list \<Rightarrow> nat \<Rightarrow> protection_snapshot \<Rightarrow> ('z world_scheme, protection_snapshot) act" where
  "await_exit_from f x link ids 0 s =
     act_raise (ExitFillNotConfirmedError (''protective exit for '' @ link @ '' was not confirmed''))"
| "await_exit_from f x link ids (Suc left) s =
     act_bind (get_execution_history x linear_category ''ETHUSDT'' '''') (\<lambda>es.
     act_bind (act_for (book_exit_fill f x) (exit_fills ids es) s) (\<lambda>s1.
     act_bind (reconcile_pending x link s1) (\<lambda>s2.
     if ps_state s2 \<in> {CLOSED_TP, CLOSED_STOP} then act_return s2
     else if 0 < left then act_bind sleep (\<lambda>_. await_exit_from f x link ids left s2)
     else await_exit_from f x link ids left s2)))"

definition await_exit :: "lifecycle \<Rightarrow> exchange \<Rightarrow> string \<Rightarrow> ('z world_scheme, protection_snapshot) act" where
  "await_exit f x link = act_bind (required_protection link) (\<lambda>s.
     await_exit_from f x link (exit_ids s) (nat (lf_fill_attempts f)) s)"

section \<open>What is kept\<close>

context observer begin

lemma keeps_entry_wait: "keeps I (await_fill f x left s)"
proof (induction f x left s rule: await_fill.induct)
  case 1
  show ?case unfolding await_fill.simps by (intro kept)
next
  case (2 f x left s)
  have "keeps I (judge_order x s1 order)" for s1 order
    unfolding judge_order_def by (intro kept keeps_finalize)
  then show ?case
    unfolding await_fill.simps book_entry_fill_def by (intro kept keeps_apply 2)
qed

lemma keeps_exit_wait: "keeps I (await_exit f x link)"
proof -
  have "keeps I (await_exit_from f x link ids left s)" for ids left s
  proof (induction f x link ids left s rule: await_exit_from.induct)
    case 1
    show ?case unfolding await_exit_from.simps by (intro kept)
  next
    case (2 f x link ids left s)
    then show ?case
      unfolding await_exit_from.simps book_exit_fill_def reconcile_pending_def
      by (intro kept keeps_exit_booking keeps_exit_reconciliation)
  qed
  then show ?thesis
    unfolding await_exit_def required_protection_def by (intro kept)
qed

end

section \<open>The orders that go out\<close>

lemma sends_placing:
  assumes "R r" shows "sends [R] (place_and_confirm v x r s confirm)"
proof (rule sends_all)
  fix P
  let ?S = "sent_as P [R]"
  have place: "triple (placed_is P) (place_order x r) (\<lambda>_. ?S) (\<lambda>_. ?S)"
    unfolding place_order_def by (rule triple_ask) (use assms in \<open>auto simp: placed_is_def sent_as_def\<close>)
  have "triple (placed_is P) (place_or_discover x r) (\<lambda>_. ?S) (\<lambda>_. ?S)"
    unfolding place_or_discover_def
    by (rule triple_catch [OF triple_bind [OF place triple_return]], assumption, rule keeps_triple_from)
      (intro bare.kept bare.keeps_discovery)
  then have "triple (placed_is P) (place_and_confirm_visible v x r) (\<lambda>_. ?S) (\<lambda>_. ?S)"
    unfolding place_and_confirm_visible_def
    by (rule triple_bind, rule_tac keeps_triple_from, intro bare.kept bare.keeps_visible)
  then show "triple (placed_is P) (place_and_confirm v x r s confirm) (\<lambda>_. ?S) (\<lambda>_. ?S)"
    unfolding place_and_confirm_def
    by (intro triple_bind [where R = "\<lambda>_. ?S"] triple_catch [where E' = "\<lambda>_. ?S"])
      (assumption, (rule keeps_triple_from, intro bare.kept bare.keeps_aside, assumption)+)
qed

lemma sends_skip: "(\<And>P. keeps (placed_is P) m) \<Longrightarrow> (\<And>y. sends Rs (f y)) \<Longrightarrow> sends Rs (act_bind m f)"
  by (rule sends_after_quiet [OF sends_quiet])

lemma keeps_bare: "(\<And>Rs. keeps (sent_as P Rs) m) \<Longrightarrow> keeps (placed_is P) m"
  using sent_nil by metis

definition stop_of :: "string \<Rightarrow> place_order_request \<Rightarrow> bool" where
  "stop_of l q \<longleftrightarrow> (\<exists>quantity trigger. q = stop_request l quantity trigger)"

definition take_profit_of :: "string \<Rightarrow> place_order_request \<Rightarrow> bool" where
  "take_profit_of l q \<longleftrightarrow> (\<exists>quantity price. q = take_profit_request l quantity price)"

lemma sends_stop: "sends [stop_of l] (install_stop v x link i l rate)"
  unfolding install_stop_def filled_entry_def split_def
  by (intro sends_lift sends_skip sends_placing keeps_bare bare.kept)
    (auto simp: stop_of_def dest!: stop_request_same)

lemma sends_take_profit: "sends [take_profit_of l] (install_take_profit v x s i l price policy)"
  unfolding install_take_profit_def
  by (intro sends_lift sends_skip sends_placing keeps_bare bare.kept)
    (auto simp: take_profit_of_def dest!: stop_request_same)

lemma sends_submit: "sends [\<lambda>q. q = r] (submit_entry x r)"
  unfolding sends_def
proof
  fix P
  show "triple (placed_is P) (submit_entry x r) (\<lambda>_. sent_as P [\<lambda>q. q = r]) (\<lambda>_ w. \<exists>n. sent_as P (take n [\<lambda>q. q = r]) w)"
    by (rule triple_weaken [OF logged.triple_submit_entry])
      (auto simp: logged.placed_one_def logged.placed_at_most_def placed_is_def sent_as_def intro: exI [of _ 0] exI [of _ 1])
qed

lemma sends_if: "sends Rs m \<Longrightarrow> sends Rs n \<Longrightarrow> sends Rs (if b then m else n)"
  by simp

lemma sends_exits: "sends [stop_of stop_link, take_profit_of tp_link] (install_exits f x l stop_link tp_link rate price)"
  unfolding install_exits_def
  by (rule sends_bind [OF sends_stop sends_take_profit, unfolded append_Cons append_Nil])

lemma sends_protect: "sends [stop_of stop_link, take_profit_of tp_link] (protect_submitted_entry f x s stop_link tp_link rate price)"
  unfolding protect_submitted_entry_def await_entry_fill_def mismatch_def
  by (rule sends_skip, rule keeps_bare, rule bare.keeps_entry_wait,
      rule sends_skip, rule keeps_bare, rule bare.keeps_every_port,
      rule sends_skip, rule keeps_bare, rule entry_bare.keeps_reconcile_position,
      rule sends_if, rule sends_raise, rule sends_then_quiet, rule sends_exits,
      rule sends_quiet, rule keeps_bare, intro bare.kept)

lemma sends_open:
  "sends [\<lambda>q. q = r, stop_of stop_link, take_profit_of tp_link] (open_and_protect f x r stop_link tp_link rate price reference)"
  unfolding open_and_protect_def
  by (rule sends_lift, rule sends_bind [OF sends_submit sends_protect, unfolded append_Cons append_Nil])

section \<open>What the exchange has shown\<close>

text \<open>The take profit of a stored snapshot, shown as requested; the stop is \<open>stop_hosted\<close>.\<close>

definition take_profit_hosted :: "exchange \<Rightarrow> string \<Rightarrow> protection_snapshot \<Rightarrow> 'z world_scheme \<Rightarrow> bool" where
  "take_profit_hosted x tp_link s w \<longleftrightarrow> ps_tp_order_link_id s = Some tp_link
     \<and> (\<exists>d p. shown x tp_link d w \<and> ps_tp_price s = Some p \<and> ps_tp_order_id s = Some (eo_order_id d)
          \<and> visible_as_requested d (take_profit_request tp_link (ps_open_quantity s) p))"

text \<open>What the second exit leaves of the first.\<close>

definition same_stop :: "protection_snapshot \<Rightarrow> protection_snapshot \<Rightarrow> bool" where
  "same_stop s s1 \<longleftrightarrow> ps_state s1 = ps_state s \<and> ps_entry_order_link_id s1 = ps_entry_order_link_id s
     \<and> ps_open_quantity s1 = ps_open_quantity s \<and> ps_stop_order_link_id s1 = ps_stop_order_link_id s
     \<and> ps_stop_order_id s1 = ps_stop_order_id s \<and> ps_stop_trigger_price s1 = ps_stop_trigger_price s"

lemma take_profit_facts:
  "add_take_profit_intent s0 l p now = Inr s \<Longrightarrow> same_stop s0 s \<and> ps_tp_order_link_id s = Some l \<and> ps_tp_price s = Some p"
  "confirm_take_profit s i now = Inr s1 \<Longrightarrow> same_stop s s1 \<and> ps_tp_order_id s1 = Some i
     \<and> ps_tp_order_link_id s1 = ps_tp_order_link_id s \<and> ps_tp_price s1 = ps_tp_price s"
  by (auto simp: same_stop_def add_take_profit_intent_def confirm_take_profit_def touched_def
      dest!: mk_protection_same split: option.splits if_splits)

lemma same_stop_trans: "same_stop s s1 \<Longrightarrow> same_stop s1 s2 \<Longrightarrow> same_stop s s2"
  by (simp add: same_stop_def)

lemma take_profit_standing:
  assumes "store_ok (w_store w)" "persist_take_profit_intent k r s t (w_store w) = (db, Inr u)"
  shows "standing s (w\<lparr>w_store := db\<rparr>)"
proof -
  have "store_ok db1" if "insert_order_intent r t (w_store w) = Inr db1" for db1
    using that assms sound_insert_intent unfolding sound_statement_def by blast
  with assms sound_methodD [OF assms(2,1) sound_methods(6)] protections.save_writes show ?thesis
    by (auto simp: persist_rows standing_def)
qed

definition both_hosted :: "exchange \<Rightarrow> protection_snapshot \<Rightarrow> string \<Rightarrow> protection_snapshot \<Rightarrow> 'z world_scheme \<Rightarrow> bool" where
  "both_hosted x s0 tp_link s w \<longleftrightarrow> standing s w \<and> same_stop s0 s \<and> take_profit_hosted x tp_link s w"

lemma triple_sound_clock:
  "triple (\<lambda>w. store_ok (w_store w)) (clock x) (\<lambda>_ w. store_ok (w_store w)) (\<lambda>_ _. True)"
  unfolding clock_def by (rule triple_ask) simp_all

lemma triple_take_profit:
  "triple (\<lambda>w. store_ok (w_store w)) (install_take_profit v x s0 i l price policy) (both_hosted x s0 l) (\<lambda>_ _. True)"
proof -
  have host: "triple (\<lambda>w. store_ok (w_store w)) (act_bind (on_store (persist_take_profit_intent k r s t))
      (\<lambda>_. place_and_confirm v x r s (confirm_take_profit s))) (both_hosted x s0 l) (\<lambda>_ _. True)"
    if s: "add_take_profit_intent s0 l p now = Inr s" "r = take_profit_request l (ps_open_quantity s0) p" for k r s t p now
  proof (rule triple_bind [where R = "\<lambda>_. standing s"])
    show "triple (\<lambda>w. store_ok (w_store w)) (on_store (persist_take_profit_intent k r s t)) (\<lambda>_. standing s) (\<lambda>_ _. True)"
      by (rule tripleI) (auto simp: on_store_def split: prod.splits dest: take_profit_standing)
    have "ps_entry_order_link_id s1 = ps_entry_order_link_id s" if "confirm_take_profit s i now = Inr s1" for i now s1
      using take_profit_facts(2) [OF that] by (simp add: same_stop_def)
    then show "triple (standing s) (place_and_confirm v x r s (confirm_take_profit s)) (both_hosted x s0 l) (\<lambda>_ _. True)"
    proof (rule triple_weaken [OF triple_confirmed])
      fix s1 w assume "standing s1 w \<and> confirmed_by x r (confirm_take_profit s) s1 w"
      then obtain d now where d: "standing s1 w" "shown x (po_order_link_id r) d w" "visible_as_requested d r"
          "confirm_take_profit s (eo_order_id d) now = Inr s1" by (auto simp: confirmed_by_def)
      then have "same_stop s s1" "same_stop s0 s" using take_profit_facts s(1) by blast+
      with d take_profit_facts(1) [OF s(1)] take_profit_facts(2) [OF d(4)] s(2) same_stop_trans [of s0 s s1]
      show "both_hosted x s0 l s1 w"
        unfolding both_hosted_def take_profit_hosted_def same_stop_def by (auto simp: take_profit_request_def)
    qed simp_all
  qed
  show ?thesis
    unfolding install_take_profit_def
    by (intro triple_lift_bind triple_bind [OF triple_sound_clock]) (auto dest!: stop_request_same intro: host)
qed

text \<open>Both exits are shown, and the reported position is the open quantity.\<close>

definition protected_as_stored ::
    "exchange \<Rightarrow> string \<Rightarrow> string \<Rightarrow> string \<Rightarrow> protection_snapshot \<Rightarrow> 'z world_scheme \<Rightarrow> bool" where
  "protected_as_stored x link stop_link tp_link s w \<longleftrightarrow> ps_entry_order_link_id s = link
     \<and> stop_hosted x link stop_link s w \<and> take_profit_hosted x tp_link s w
     \<and> (\<exists>positions. reported x positions w \<and> protection_position_matches s positions)"

lemma installed_exits:
  assumes run: "install_exits f x link stop_link tp_link rate price w = (w', Inr s)" and ok: "store_ok (w_store w)"
  shows "standing s w'" "stop_hosted x link stop_link s w'" "take_profit_hosted x tp_link s w'"
proof -
  obtain w1 s0 where stop: "install_stop (lf_exits f) x link (lf_instrument f) stop_link rate w = (w1, Inr s0)"
    and tp: "install_take_profit (lf_exits f) x s0 (lf_instrument f) tp_link price PASSIVE w1 = (w', Inr s)"
    using run by (auto simp: install_exits_def)
  have h: "stop_hosted x link stop_link s0 w1"
    using triple_Inr [OF hosting_install _ stop] ok by blast
  have b: "both_hosted x s0 tp_link s w'"
    using triple_Inr [OF triple_take_profit _ tp] keepsD [OF sound.keeps_installing(1) stop] ok by blast
  then show "standing s w'" "take_profit_hosted x tp_link s w'" by (simp_all add: both_hosted_def)
  obtain d where d: "shown x stop_link d w1" "ps_stop_order_id s0 = Some (eo_order_id d)"
      "visible_as_requested d (stop_request stop_link (ps_open_quantity s0) (ps_stop_trigger_price s0))"
    using h by (auto simp: stop_hosted_def)
  have "shown x stop_link d w'" by (rule keepsD [OF past.keeps_installing(2) tp d(1)])
  moreover have "ps_entry_order_link_id s0 = link" using h by (auto simp: stop_hosted_def dest: find_row_SomeD)
  ultimately show "stop_hosted x link stop_link s w'"
    using d h b by (auto simp: stop_hosted_def both_hosted_def same_stop_def standing_def)
qed

lemma judge_order_over:
  "judge_order x s order w = (w', Inr (Some s1)) \<Longrightarrow> es_state s1 = ACTIVE_UNPROTECTED"
  by (auto simp: judge_order_def finalize_partial_fill_def finalize_partial_entry_def act_lift_def
      dest!: mk_entry_snapshot_same split: option.splits if_splits)

lemma await_fill_active: "await_fill f x left s w = (w', Inr s1) \<Longrightarrow> es_state s1 = ACTIVE_UNPROTECTED"
proof (induction f x left s arbitrary: w w' rule: await_fill.induct)
  case (2 f x left s)
  from 2(3) show ?case
    by (auto dest: judge_order_over 2(1) 2(2) split: if_splits option.splits)
qed simp

lemma protected_level:
  assumes run: "open_and_protect f x r stop_link tp_link rate price reference w = (w', Inr lvl)" and ok: "store_ok (w_store w)"
  shows "es_state (pv_entry lvl) = ACTIVE_UNPROTECTED
    \<and> protected_as_stored x (es_order_link_id (pv_entry lvl)) stop_link tp_link (pv_protection lvl) w'"
proof -
  obtain w1 s where e: "submit_entry x r w = (w1, Inr s)"
    and p: "protect_submitted_entry f x s stop_link tp_link rate price w1 = (w', Inr lvl)"
    using run by (auto simp: open_and_protect_def act_lift_def)
  obtain w2 s2 w3 positions w4 w5 s5 positions6 where
    "await_entry_fill f x s w1 = (w2, Inr s2)"
    "get_positions x linear_category ''ETHUSDT'' w2 = (w3, Inr positions)"
    "reconcile_position x positions w3 = (w4, Inr True)"
    "install_exits f x (es_order_link_id s2) stop_link tp_link rate price w4 = (w5, Inr s5)"
    "get_positions x linear_category ''ETHUSDT'' w5 = (w', Inr positions6)"
    "protection_position_matches s5 positions6" "lvl = \<lparr>pv_entry = s2, pv_protection = s5\<rparr>"
    using p by (auto simp: protect_submitted_entry_def mismatch_def split: if_splits)
  note steps = this
  have "store_ok (w_store w4)"
    using keepsD [OF entry_sound.keeps_submitting e ok] keepsD [OF sound.keeps_entry_wait steps(1) [unfolded await_entry_fill_def]]
      keepsD [OF sound.keeps_every_port(5) steps(2)] keepsD [OF entry_sound.keeps_reconcile_position steps(3)] by blast
  note installed = installed_exits [OF steps(4) this] and shows_on = get_positions_reports [OF steps(5)]
  have "es_state s2 = ACTIVE_UNPROTECTED" using await_fill_active steps(1) by (auto simp: await_entry_fill_def)
  moreover have "stop_hosted x (es_order_link_id s2) stop_link s5 w'" "take_profit_hosted x tp_link s5 w'"
    using installed(2,3) shows_on by (auto simp: stop_hosted_def take_profit_hosted_def)
  ultimately show ?thesis
    using steps(6,7) shows_on(1) by (auto simp: protected_as_stored_def stop_hosted_def dest: find_row_SomeD)
qed

text \<open>C8. An entry is protected before the service returns, and the orders go out in the safe order. Over an
  exchange that may answer anything, a call of \<open>open_and_protect\<close> places, in this order and nothing else,
  a prefix of: the entry as requested, a reduce-only stop with the given client order id, a reduce-only
  take profit with the given client order id; a request that is not a valid one-way short places nothing and changes
  nothing. When it returns, all three were placed, the entry was confirmed as \<open>ACTIVE_UNPROTECTED\<close> by its executions, the protection
  is the stored one and \<open>ACTIVE_PROTECTED\<close>, the exchange has shown the stop and the take profit as requested for exactly
  the open quantity, and has reported a position of that quantity.\<close>

theorem lifecycle_protects:
  assumes "store_ok (w_store w)" and "open_and_protect f x r stop_link tp_link rate price reference w = (w', out)"
  shows "\<exists>new n. placed (w_calls w') = placed (w_calls w) @ new
      \<and> list_all2 (\<lambda>p R. R (snd p)) new (take n [\<lambda>q. q = r, stop_of stop_link, take_profit_of tp_link])
      \<and> (is_ok (check_entry_request f r reference) \<or> w' = w \<and> \<not> is_ok out)
      \<and> (\<forall>lvl. out = Inr lvl \<longrightarrow> length new = 3 \<and> es_state (pv_entry lvl) = ACTIVE_UNPROTECTED
          \<and> protected_as_stored x (es_order_link_id (pv_entry lvl)) stop_link tp_link (pv_protection lvl) w')"
proof -
  have rejected: "is_ok (check_entry_request f r reference) \<or> w' = w \<and> \<not> is_ok out"
    using assms(2) by (cases "check_entry_request f r reference") (auto simp: open_and_protect_def act_bind_def act_lift_def)
  show ?thesis
    using sends_outcome [OF sends_open assms(2)] rejected protected_level [OF _ assms(1)] assms(2) by fastforce
qed

text \<open>Waiting for an exit places nothing and returns only a closed hedge.\<close>

lemma exit_wait:
  fixes w :: "'z world_scheme"
  assumes "await_exit f x link w = (w', out)"
  shows "placed (w_calls w') = placed (w_calls w) \<and> (\<forall>s. out = Inr s \<longrightarrow> ps_state s \<in> {CLOSED_TP, CLOSED_STOP})"
proof -
  let ?t = "\<lambda>_. True" and ?closed = "\<lambda>s _. ps_state s \<in> {CLOSED_TP, CLOSED_STOP}"
  have any: "triple ?t m (\<lambda>_ _. True) (\<lambda>_ _. True)" for m :: "('z world_scheme, 'b) act"
    by (rule tripleI) simp_all
  have "triple ?t (await_exit_from f x link ids left s :: ('z world_scheme, protection_snapshot) act) ?closed (\<lambda>_ _. True)" for ids left s
  proof (induction f x link ids left s rule: await_exit_from.induct)
    case (2 f x link ids left s)
    show ?case
      unfolding await_exit_from.simps
      by (intro triple_bind [OF any] triple_if triple_return 2) simp_all
  next
    case 1
    show ?case unfolding await_exit_from.simps by (rule triple_raise) simp
  qed
  note loop = this
  have t: "triple ?t (await_exit f x link :: ('z world_scheme, protection_snapshot) act) ?closed (\<lambda>_ _. True)"
    unfolding await_exit_def by (rule triple_bind [OF any loop])
  have "ps_state s \<in> {CLOSED_TP, CLOSED_STOP}" if "out = Inr s" for s
    using triple_Inr [OF t] assms that by blast
  moreover have "placed_is (placed (w_calls w)) w'"
    using keepsD [OF keeps_bare [OF bare.keeps_exit_wait] assms] by (simp add: placed_is_def)
  ultimately show ?thesis by (simp add: placed_is_def)
qed

section \<open>An example run\<close>

definition sample_tp_link :: string where
  "sample_tp_link = ''ECH-a1-C0007-L03-TP-A01-00FF3B''"

definition filling_exchange :: exchange where
  "filling_exchange = showing_exchange\<lparr>x_executions := (\<lambda>h link. Inr [fst (sample_fill 3000 1)]),
     x_positions := (\<lambda>h. Inr [\<lparr>ep_category = linear_category, ep_symbol = ''ETHUSDT'', ep_side = Some Sell, ep_quantity = 1,
       ep_average_price = Some 3000, ep_mark_price = Some 3000, ep_unrealized_pnl = 0, ep_updated_at = Aware 9,
       ep_position_idx = 0, ep_liquidation_price = None\<rparr>])\<rparr>"

definition sample_lifecycle :: lifecycle where
  "sample_lifecycle = \<lparr>lf_instrument = sample_instrument, lf_fill_attempts = 2, lf_fill_interval_seconds = 1,
     lf_payload_hash = (\<lambda>_. replicate 64 (CHR ''a'')), lf_exits = sample_settings\<rparr>"

definition protected_run :: "entry_world \<times> protected_level res" where
  "protected_run = open_and_protect sample_lifecycle filling_exchange sample_entry_request sample_stop_link sample_tp_link (1 / 100) 2970 3000 start_world"

fun protected_summary :: "entry_world \<times> protected_level res \<Rightarrow> bool list \<times> dec" where
  "protected_summary (w, r) = (map (\<lambda>(db, q). po_reduce_only q) (placed (w_calls w)),
     case r of Inl _ \<Rightarrow> 0 | Inr l \<Rightarrow> ps_open_quantity (pv_protection l))"

lemma protected_facts: "protected_summary protected_run = ([False, True, True], 1)"
  by code_simp

theorem lifecycle_protects_witness:
  "\<exists>w' lvl. protected_run = (w', Inr lvl) \<and> length (placed (w_calls w')) = 3 \<and> ps_open_quantity (pv_protection lvl) = 1
     \<and> protected_as_stored filling_exchange (es_order_link_id (pv_entry lvl)) sample_stop_link sample_tp_link (pv_protection lvl) w'"
proof -
  obtain w' out where run: "protected_run = (w', out)" by (cases protected_run)
  note f = protected_facts [unfolded run protected_summary.simps prod.inject]
  from f have n: "length (placed (w_calls w')) = 3" by (metis length_map length_Cons list.size(3) numeral_3_eq_3)
  from f obtain lvl where lvl: "out = Inr lvl" "ps_open_quantity (pv_protection lvl) = 1" by (cases out) simp_all
  have "store_ok (w_store start_world)" by (simp add: start_world_def)
  from lifecycle_protects [OF this run [unfolded protected_run_def]] run lvl n show ?thesis by blast
qed

end
