(* ===== verification/Emergency_Flatten.thy ===== *)
theory Emergency_Flatten
  imports Entry_Client
begin

text \<open>
  \<open>application/emergency_flatten.py\<close>: the service that closes the one ETHUSDT short with a reduce-only market
  buy. Like the protective exits it places an order only after the intent is durable, and looks up an
  order after an unclear answer; an acknowledgement never counts as a closed position. The lemmas follow
  any sequence of its calls: what is placed is exactly the short the exchange has reported.
\<close>

section \<open>The service\<close>

record flatten_result =
  fr_request :: place_order_request
  fr_acknowledgement :: order_request_ack
  fr_position_confirmed_flat :: bool

definition nonzero_positions :: "exchange_position list \<Rightarrow> exchange_position list" where
  "nonzero_positions positions = filter (\<lambda>p. 0 < ep_quantity p) positions"

definition only_short :: "exchange_position list \<Rightarrow> exchange_position res" where
  "only_short positions = (case nonzero_positions positions of
     [p] \<Rightarrow> raise_if (ep_category p \<noteq> linear_category \<or> ep_symbol p \<noteq> ''ETHUSDT'' \<or> ep_side p \<noteq> Some Sell)
       (RuntimeError ''flatten requires exactly one ETHUSDT short position'') (Inr p)
   | _ \<Rightarrow> Inl (RuntimeError ''flatten requires exactly one ETHUSDT short position''))"

definition flatten_request :: "dec \<Rightarrow> string \<Rightarrow> place_order_request" where
  "flatten_request quantity link = \<lparr>po_category = linear_category, po_symbol = ''ETHUSDT'', po_side = Buy, po_order_type = Market,
     po_quantity = quantity, po_order_link_id = link, po_price = None, po_time_in_force = GTC, po_reduce_only = True,
     po_trigger_price = None, po_trigger_direction = None, po_trigger_by = None, po_position_idx = 0, po_close_on_trigger = False\<rparr>"

definition submit_flatten :: "exchange \<Rightarrow> place_order_request \<Rightarrow> ('z world_scheme, flatten_result) act" where
  "submit_flatten x r = act_bind (place_or_discover x r) (\<lambda>(a, found).
     act_bind (on_store (record_acknowledgement a)) (\<lambda>_.
     act_return \<lparr>fr_request = r, fr_acknowledgement = a, fr_position_confirmed_flat = False\<rparr>))"

definition flatten_short :: "exchange \<Rightarrow> string \<Rightarrow> ('z world_scheme, flatten_result) act" where
  "flatten_short x link = act_bind (get_positions x linear_category ''ETHUSDT'') (\<lambda>positions.
     act_bind (act_lift (only_short positions)) (\<lambda>p.
     act_bind (act_lift (mk_place_order_request (flatten_request (ep_quantity p) link))) (\<lambda>r.
     act_bind (clock x) (\<lambda>now.
     act_bind (on_store (persist_order_intent r now)) (\<lambda>_. submit_flatten x r)))))"

definition confirm_flattened :: "exchange \<Rightarrow> ('z world_scheme, bool) act" where
  "confirm_flattened x = act_bind (get_positions x linear_category ''ETHUSDT'') (\<lambda>positions.
     act_return (\<not> list_ex (\<lambda>p. 0 < ep_quantity p) positions))"

definition emergency_close :: "place_order_request \<Rightarrow> execution_update \<Rightarrow> bool" where
  "emergency_close r e \<longleftrightarrow> po_symbol r = ''ETHUSDT'' \<and> po_side r = Buy \<and> po_order_type r = Market \<and> po_reduce_only r
     \<and> ex_order_id e \<noteq> '''' \<and> ex_symbol e = ''ETHUSDT'' \<and> ex_side e = Buy \<and> ex_quantity e \<le> po_quantity r"

definition record_fill :: "execution_update \<Rightarrow> datetime \<Rightarrow> string \<Rightarrow> ('z world_scheme, bool) act" where
  "record_fill e received_at h = act_bind (on_store (load_order_intent (ex_order_link_id e))) (\<lambda>found.
     if \<not> some_and (\<lambda>r. emergency_close r e) found
     then act_raise (ValueError ''execution is not a persisted emergency close fill'')
     else on_store (record_execution e received_at h))"

section \<open>Any sequence of calls\<close>

text \<open>A close for exactly the short that the exchange has reported, durable when it is placed.\<close>

definition reported_close :: "exchange \<Rightarrow> place_order_request \<Rightarrow> 'z world_scheme \<Rightarrow> bool" where
  "reported_close x r w \<longleftrightarrow> (\<exists>positions p. reported x positions w \<and> only_short positions = Inr p
     \<and> r = flatten_request (ep_quantity p) (po_order_link_id r))"

definition close_ready :: "database \<Rightarrow> place_order_request \<Rightarrow> bool" where
  "close_ready db r \<longleftrightarrow> (\<exists>row. intent_of db (po_order_link_id r) = Some row \<and> in_request row = r)"

definition closes_inv :: "exchange \<Rightarrow> 'z world_scheme \<Rightarrow> bool" where
  "closes_inv x w \<longleftrightarrow> store_ok (w_store w) \<and> distinct (placed_links (w_calls w))
     \<and> (\<forall>l \<in> set (placed_links (w_calls w)). has_intent (w_store w) l)
     \<and> (\<forall>(db, r) \<in> set (placed (w_calls w)). close_ready db r \<and> reported_close x r w)"

lemma reported_later: "reported x positions w \<Longrightarrow> prefix (w_calls w) (w_calls w') \<Longrightarrow> reported x positions w'"
  unfolding reported_def by (blast intro: prefix_order.trans)

lemma reported_close_later: "reported_close x r w \<Longrightarrow> prefix (w_calls w) (w_calls w') \<Longrightarrow> reported_close x r w'"
  unfolding reported_close_def by (blast intro: reported_later)

lemma reported_close_store [simp]: "reported_close x r (w\<lparr>w_store := db\<rparr>) = reported_close x r w"
  by (simp add: reported_close_def reported_def)

interpretation closes: observer "closes_inv x" for x
proof
  fix c and w :: "'z world_scheme" assume "\<not> is_place c" "closes_inv x w"
  then show "closes_inv x (w\<lparr>w_calls := w_calls w @ [(w_store w, c)]\<rparr>)"
    by (auto simp: closes_inv_def placed_links_def simp del: placed_append intro: reported_close_later)
next
  fix w :: "'z world_scheme" and db
  assume "closes_inv x w" "store_ok (w_store w) \<Longrightarrow> store_ok db \<and> evolves (w_store w) db"
  then show "closes_inv x (w\<lparr>w_store := db\<rparr>)"
    by (auto simp: closes_inv_def evolves_def intro: has_intent_kept simp del: has_intent_iff)
qed

definition close_armed :: "exchange \<Rightarrow> place_order_request \<Rightarrow> 'z world_scheme \<Rightarrow> bool" where
  "close_armed x r w \<longleftrightarrow> closes_inv x w \<and> close_ready (w_store w) r \<and> reported_close x r w
     \<and> po_order_link_id r \<notin> set (placed_links (w_calls w))"

lemma triple_place_close: "triple (close_armed x r) (place_order x r) (\<lambda>_. closes_inv x) (\<lambda>_. closes_inv x)"
  unfolding place_order_def
proof (rule triple_ask)
  fix w :: "'z world_scheme" assume a: "close_armed x r w"
  let ?w = "w\<lparr>w_calls := w_calls w @ [(w_store w, Place r)]\<rparr>"
  have "has_intent (w_store w) (po_order_link_id r)"
    using a by (auto simp: close_armed_def close_ready_def intent_id_def dest: find_row_SomeD)
  moreover have "reported_close x q ?w" if "reported_close x q w" for q by (rule reported_close_later [OF that]) simp
  ultimately show "closes_inv x ?w"
    using a unfolding close_armed_def closes_inv_def by (auto simp: placed_links_def simp del: has_intent_iff)
  then show "closes_inv x ?w" .
qed

lemma triple_submit_flatten: "triple (close_armed x r) (submit_flatten x r) (\<lambda>_. closes_inv x) (\<lambda>_. closes_inv x)"
proof -
  have "triple (close_armed x r) (place_or_discover x r) (\<lambda>_. closes_inv x) (\<lambda>_. closes_inv x)"
    unfolding place_or_discover_def
    by (rule triple_catch [OF triple_bind [OF triple_place_close triple_return]], assumption, rule keeps_triple_from)
      (intro closes.kept closes.keeps_discovery)
  then show ?thesis
    unfolding submit_flatten_def by (rule triple_bind, rule_tac keeps_triple_from, intro closes.kept)
qed

lemma triple_persist_close:
  assumes r: "r = flatten_request (ep_quantity p) link" and p: "only_short positions = Inr p"
  shows "triple (\<lambda>w. closes_inv x w \<and> reported x positions w) (on_store (persist_order_intent r now))
     (\<lambda>_. close_armed x r) (\<lambda>_. closes_inv x)"
proof (rule tripleI)
  fix w w' :: "'z world_scheme" and u assume w: "closes_inv x w \<and> reported x positions w"
    and s: "on_store (persist_order_intent r now) w = (w', Inr u)"
  then obtain db where db: "persist_order_intent r now (w_store w) = (db, Inr u)" "w' = w\<lparr>w_store := db\<rparr>"
    by (auto simp: on_store_def split: prod.splits)
  have i: "insert_order_intent r now (w_store w) = Inr db"
    using db(1) by (auto simp: persist_order_intent_def persist_order_intent_rows_def commit_def)
  then have new: "\<not> has_intent (w_store w) (po_order_link_id r)" by (auto simp: insert_order_intent_def)
  then have "intent_of (w_store w) (po_order_link_id r) = None" by (simp add: find_row_None_iff)
  then have "close_ready db r" using i by (auto simp: close_ready_def insert_order_intent_def find_row_append intent_id_def)
  moreover have "reported_close x r w'"
    using w r p by (auto simp: reported_close_def reported_def db(2) flatten_request_def)
  moreover have "closes_inv x w'" by (rule keepsD [OF closes.keeps_method [OF sound_methods(1)] s]) (use w in blast)
  moreover have "po_order_link_id r \<notin> set (placed_links (w_calls w'))" using w new by (auto simp: db(2) closes_inv_def simp del: has_intent_iff)
  ultimately show "close_armed x r w'" by (simp add: close_armed_def db(2))
next
  fix w w' :: "'z world_scheme" and e assume "closes_inv x w \<and> reported x positions w"
    "on_store (persist_order_intent r now) w = (w', Inl e)"
  with keepsD [OF closes.keeps_method [OF sound_methods(1)]] show "closes_inv x w'" by blast
qed

lemma keeps_flatten: "keeps (closes_inv x) (flatten_short x link)"
  unfolding keeps_triple flatten_short_def
proof (rule triple_bind)
  show "triple (closes_inv x) (get_positions x linear_category ''ETHUSDT'') (\<lambda>positions w. closes_inv x w \<and> reported x positions w) (\<lambda>_. closes_inv x)"
    using keepsD [OF closes.keeps_every_port(5)]
    by (intro tripleI) (auto simp: get_positions_def ask_def Let_def reported_def intro: closes.other_call)
  fix positions
  let ?J = "\<lambda>w. closes_inv x w \<and> reported x positions w"
  have now: "triple ?J (clock x) (\<lambda>_. ?J) (\<lambda>_. closes_inv x)"
    unfolding clock_def
    by (rule triple_ask) (auto intro: closes.other_call reported_later simp: reported_def)
  show "triple ?J (act_bind (act_lift (only_short positions)) (\<lambda>p.
     act_bind (act_lift (mk_place_order_request (flatten_request (ep_quantity p) link))) (\<lambda>r.
     act_bind (clock x) (\<lambda>now. act_bind (on_store (persist_order_intent r now)) (\<lambda>_. submit_flatten x r)))))
     (\<lambda>_. closes_inv x) (\<lambda>_. closes_inv x)"
    by (intro triple_lift_bind triple_bind [OF now] triple_bind [OF triple_persist_close triple_submit_flatten])
      (auto dest!: stop_request_same)
qed

inductive flatten_run :: "exchange \<Rightarrow> world \<Rightarrow> bool" for x where
  Begin: "flatten_run x \<lparr>w_store = empty_database, w_calls = []\<rparr>"
| Flatten: "flatten_run x w \<Longrightarrow> flatten_short x link w = (w', res1) \<Longrightarrow> flatten_run x w'"
| Confirm: "flatten_run x w \<Longrightarrow> confirm_flattened x w = (w', res2) \<Longrightarrow> flatten_run x w'"
| Record: "flatten_run x w \<Longrightarrow> record_fill e t h w = (w', res2) \<Longrightarrow> flatten_run x w'"
| Elsewhere: "flatten_run x w \<Longrightarrow> store_runs (w_store w) db \<Longrightarrow> flatten_run x (w\<lparr>w_store := db\<rparr>)"

lemma flatten_run_inv: "flatten_run x w \<Longrightarrow> closes_inv x w"
proof (induction rule: flatten_run.induct)
  case Begin
  show ?case by (simp add: closes_inv_def placed_links_def)
next
  case (Elsewhere w db)
  with store_runs_sound [OF Elsewhere.hyps(2)] show ?case by (intro closes.any_write) auto
next
  case (Confirm w w' res2)
  have "keeps (closes_inv x) (confirm_flattened x)" unfolding confirm_flattened_def by (intro closes.kept)
  with Confirm show ?case by (blast intro: keepsD)
next
  case (Record w e t h w' res2)
  have "keeps (closes_inv x) (record_fill e t h)" unfolding record_fill_def by (intro closes.kept)
  with Record show ?case by (blast intro: keepsD)
qed (blast intro: keepsD [OF keeps_flatten])

text \<open>What counts as flat, and what is booked.\<close>

lemma confirmed_flat:
  assumes "confirm_flattened x w = (w', Inr True)"
  shows "\<exists>positions. reported x positions w' \<and> nonzero_positions positions = []"
proof -
  obtain positions where "get_positions x linear_category ''ETHUSDT'' w = (w', Inr positions)" "nonzero_positions positions = []"
    using assms by (auto simp: confirm_flattened_def nonzero_positions_def list_ex_iff filter_empty_conv)
  with get_positions_reports(1) show ?thesis by blast
qed

lemma recorded_fill:
  assumes "record_fill e t h w = (w', Inr b)"
  shows "\<exists>row. intent_of (w_store w) (ex_order_link_id e) = Some row \<and> emergency_close (in_request row) e
    \<and> (b \<longleftrightarrow> \<not> has_row execution_id (db_executions (w_store w)) (ex_execution_id e))"
proof -
  obtain r where l: "on_store (load_order_intent (ex_order_link_id e)) w = (w, Inr (Some r))" and c: "emergency_close r e"
    and s: "on_store (record_execution e t h) w = (w', Inr b)"
    using assms by (auto simp: record_fill_def load_order_intent_def on_store_query some_and_iff split: if_splits)
  from l obtain row where "intent_of (w_store w) (ex_order_link_id e) = Some row" "in_request row = r"
    by (auto simp: load_order_intent_def on_store_query fetch_one_Inr dest!: stop_request_same split: option.splits)
  moreover have "b \<longleftrightarrow> \<not> has_row execution_id (db_executions (w_store w)) (ex_execution_id e)"
    using s by (auto simp: on_store_def record_execution_def insert_execution_if_new_def raise_bad_hash_def raise_if_def split: prod.splits if_splits)
  ultimately show ?thesis using c by blast
qed

text \<open>C11. An emergency close closes exactly the short that was reported, once. Over an exchange that may answer
  anything, over any sequence of calls and whatever other components write to the store: no client order
  id is placed twice, and every order placed was durable at that moment and is a reduce-only market buy
  of exactly the quantity of the one nonzero position, an ETHUSDT short, of some answer of the exchange. An
  acknowledgement is never reported as flat, flatness is confirmed only from reported positions without a
  quantity, and a fill is booked, once, only for a stored request that is such a close.\<close>

theorem flatten_closes_reported_short:
  assumes "flatten_run x w"
  shows "distinct (placed_links (w_calls w))
    \<and> (\<forall>(db, r) \<in> set (placed (w_calls w)). (\<exists>row. intent_of db (po_order_link_id r) = Some row \<and> in_request row = r)
        \<and> (\<exists>positions p. reported x positions w \<and> nonzero_positions positions = [p] \<and> ep_symbol p = ''ETHUSDT'' \<and> ep_side p = Some Sell
             \<and> r = flatten_request (ep_quantity p) (po_order_link_id r)))
    \<and> (\<forall>link w' v. flatten_short x link w = (w', Inr v) \<longrightarrow> \<not> fr_position_confirmed_flat v)
    \<and> (\<forall>w'. confirm_flattened x w = (w', Inr True) \<longrightarrow> (\<exists>positions. reported x positions w' \<and> nonzero_positions positions = []))
    \<and> (\<forall>e t h w' b. record_fill e t h w = (w', Inr b) \<longrightarrow> (\<exists>row. intent_of (w_store w) (ex_order_link_id e) = Some row
        \<and> emergency_close (in_request row) e \<and> (b \<longleftrightarrow> \<not> has_row execution_id (db_executions (w_store w)) (ex_execution_id e))))"
proof -
  have short: "nonzero_positions positions = [p] \<and> ep_symbol p = ''ETHUSDT'' \<and> ep_side p = Some Sell"
    if "only_short positions = Inr p" for positions p
    using that by (auto simp: only_short_def split: list.splits)
  have flat: "\<not> fr_position_confirmed_flat v" if "flatten_short x link w = (w', Inr v)" for link w' v
    using that by (auto simp: flatten_short_def submit_flatten_def)
  have orders: "(\<exists>row. intent_of db (po_order_link_id r) = Some row \<and> in_request row = r)
        \<and> (\<exists>positions p. reported x positions w \<and> nonzero_positions positions = [p] \<and> ep_symbol p = ''ETHUSDT'' \<and> ep_side p = Some Sell
             \<and> r = flatten_request (ep_quantity p) (po_order_link_id r))" if "(db, r) \<in> set (placed (w_calls w))" for db r
  proof -
    have "close_ready db r" "reported_close x r w" using flatten_run_inv [OF assms] that unfolding closes_inv_def by auto
    then show ?thesis using short unfolding close_ready_def reported_close_def by blast
  qed
  have links: "distinct (placed_links (w_calls w))" using flatten_run_inv [OF assms] by (simp add: closes_inv_def)
  show ?thesis by (intro conjI allI impI ballI links recorded_fill confirmed_flat) (use orders flat in auto)
qed

section \<open>An example run\<close>

definition shorted_exchange :: exchange where
  "shorted_exchange = prompt_exchange\<lparr>x_positions := (\<lambda>h. Inr [\<lparr>ep_category = linear_category, ep_symbol = ''ETHUSDT'',
     ep_side = Some Sell, ep_quantity = 3 / 4, ep_average_price = Some 3000, ep_mark_price = Some 3000, ep_unrealized_pnl = 0,
     ep_updated_at = Aware 9, ep_position_idx = 0, ep_liquidation_price = None\<rparr>])\<rparr>"

definition flattened :: world where
  "flattened = fst (flatten_short shorted_exchange sample_link \<lparr>w_store = empty_database, w_calls = []\<rparr>)"

lemma flattened_facts: "map (\<lambda>(db, r). po_quantity r) (placed (w_calls flattened)) = [3 / 4]"
  by code_simp

theorem flatten_closes_reported_short_witness:
  "flatten_run shorted_exchange flattened \<and> (\<exists>db r. placed (w_calls flattened) = [(db, r)] \<and> po_quantity r = 3 / 4
     \<and> (\<exists>row. intent_of db (po_order_link_id r) = Some row \<and> in_request row = r))"
proof -
  have run: "flatten_run shorted_exchange flattened"
    unfolding flattened_def by (rule flatten_run.Flatten [OF flatten_run.Begin surjective_pairing])
  obtain db r where p: "placed (w_calls flattened) = [(db, r)]" "po_quantity r = 3 / 4"
    using flattened_facts by (auto simp: map_eq_Cons_conv)
  from flatten_closes_reported_short [OF run] p(1)
  have "\<exists>row. intent_of db (po_order_link_id r) = Some row \<and> in_request row = r" by auto
  with run p show ?thesis by blast
qed

end
