(* ===== verification/Operator_Commands.thy ===== *)
theory Operator_Commands
  imports Actions "HOL-Library.Sublist"
begin

text \<open>
  \<open>domain/operator_commands.py\<close>, \<open>application/operator_commands.py\<close> and the store
  \<open>infrastructure/persistence/file_operator_command_store.py\<close>: commands of an operator, authenticated,
  written ahead and audited. A call of the service is a small state machine: one phase per \<open>await\<close>, so that
  several calls, and a crash, can come between any two of them. The file is modelled as the records its
  JSON text encodes; authenticator, actions, audit and clock answer from the history of calls. The lemmas
  follow every interleaving: a command id is acted on at most once, after its intent is durable.
\<close>

section \<open>Commands, results and audits\<close>

datatype operator_command_type = SOFT_PAUSE | RESUME_AFTER_RECONCILIATION | CANCEL_PENDING_ENTRY | RESTORE_PROTECTION
  | CLOSE_HEDGE_POSITION | CLOSE_OPTION_SPREAD | FLATTEN_STRATEGY | ACKNOWLEDGE_INCIDENT

definition all_command_types :: "operator_command_type list" where
  "all_command_types = [SOFT_PAUSE, RESUME_AFTER_RECONCILIATION, CANCEL_PENDING_ENTRY, RESTORE_PROTECTION,
     CLOSE_HEDGE_POSITION, CLOSE_OPTION_SPREAD, FLATTEN_STRATEGY, ACKNOWLEDGE_INCIDENT]"

definition mk_operator_credential :: "string \<Rightarrow> string res" where
  "mk_operator_credential v = raise_when (v = []) ''operator credential cannot be empty'' (Inr v)"

record operator_command =
  cmd_id :: string
  cmd_type :: operator_command_type
  cmd_operator :: string
  cmd_reason :: string
  cmd_issued_at :: datetime

definition mk_operator_command :: "operator_command \<Rightarrow> operator_command res" where
  "mk_operator_command c = check_all
    [text_guard (cmd_id c) ''operator command command_id'', text_guard (cmd_operator c) ''operator command operator_id'',
     text_guard (cmd_reason c) ''operator command reason'', utc_guard (cmd_issued_at c) ''operator command timestamp'']
    (Inr c)"

record operator_result =
  out_command_id :: string
  out_type :: operator_command_type
  out_outcome :: string
  out_detail :: string
  out_completed_at :: datetime

definition mk_operator_result :: "operator_result \<Rightarrow> operator_result res" where
  "mk_operator_result r = check_all
    [(blank (out_command_id r) \<or> blank (out_outcome r) \<or> blank (out_detail r), ''operator command result fields cannot be empty''),
     utc_guard (out_completed_at r) ''operator result timestamp''] (Inr r)"

record operator_audit =
  ad_command_id :: string
  ad_type :: operator_command_type
  ad_operator :: string
  ad_outcome :: string
  ad_timestamp :: datetime
  ad_detail :: string

definition mk_operator_audit :: "operator_audit \<Rightarrow> operator_audit res" where
  "mk_operator_audit a = check_all [utc_guard (ad_timestamp a) ''operator audit timestamp''] (Inr a)"

section \<open>The world of the service\<close>

datatype desk_event = Authenticated string string | Acted operator_command | Audited operator_audit | Ticked

record desk =
  dk_records :: "string \<rightharpoonup> operator_command \<times> operator_result option"
  dk_history :: "desk_event list"

type_synonym handler = "desk_event list \<Rightarrow> operator_command \<Rightarrow> string res"

record desk_ports =
  dp_authenticate :: "desk_event list \<Rightarrow> string \<Rightarrow> string \<Rightarrow> bool res"
  dp_actions :: "(operator_command_type \<times> handler) list"
  dp_audit :: "desk_event list \<Rightarrow> operator_audit \<Rightarrow> unit res"
  dp_clock :: "desk_event list \<Rightarrow> datetime"

definition desk_ask :: "desk_event \<Rightarrow> (desk_event list \<Rightarrow> 'a res) \<Rightarrow> (desk, 'a) act" where
  "desk_ask ev answer d = (let h = dk_history d @ [ev] in (d\<lparr>dk_history := h\<rparr>, answer h))"

text \<open>The registry of actions must know every command type.\<close>

definition mk_action_registry :: "(operator_command_type \<times> handler) list \<Rightarrow> (operator_command_type \<times> handler) list res" where
  "mk_action_registry hs = raise_when (\<not> list_all (\<lambda>t. t \<in> set (map fst hs)) all_command_types)
     ''operator action registry must define every command'' (Inr hs)"

definition perform :: "desk_ports \<Rightarrow> operator_command \<Rightarrow> (desk, string) act" where
  "perform p c = (case map_of (dp_actions p) (cmd_type c) of
     None \<Rightarrow> act_raise KeyError
   | Some f \<Rightarrow> desk_ask (Acted c) (\<lambda>h. f h c))"

section \<open>The store\<close>

definition load_command :: "string \<Rightarrow> (desk, operator_command option) act" where
  "load_command i = act_get (\<lambda>d. map_option fst (dk_records d i))"

definition load_result :: "string \<Rightarrow> (desk, operator_result option) act" where
  "load_result i = act_get (\<lambda>d. case dk_records d i of None \<Rightarrow> None | Some (c, r) \<Rightarrow> r)"

definition persist_command :: "operator_command \<Rightarrow> (desk, bool) act" where
  "persist_command c d = (if dk_records d (cmd_id c) \<noteq> None then (d, Inr False)
     else (d\<lparr>dk_records := (dk_records d)(cmd_id c \<mapsto> (c, None))\<rparr>, Inr True))"

definition complete_command :: "operator_result \<Rightarrow> (desk, unit) act" where
  "complete_command r d = (case dk_records d (out_command_id r) of
     None \<Rightarrow> (d, Inl (RuntimeError ''operator command intent is not persisted''))
   | Some (c, existing) \<Rightarrow>
       if existing \<noteq> None \<and> existing \<noteq> Some r then (d, Inl (RuntimeError ''operator command already has a different result''))
       else (d\<lparr>dk_records := (dk_records d)(out_command_id r \<mapsto> (c, Some r))\<rparr>, Inr ()))"

section \<open>A call of the service\<close>

datatype phase =
    Authenticating
  | Denying
  | Loading
  | Loading_Result "operator_command option"
  | Persisting
  | Reloading
  | Acting
  | Failing py_exn
  | Completing operator_result
  | Auditing operator_result
  | Finished "operator_result res"

record call =
  cl_command :: operator_command
  cl_credential :: string
  cl_phase :: phase

definition record_audit :: "desk_ports \<Rightarrow> operator_command \<Rightarrow> string \<Rightarrow> string \<Rightarrow> (desk, unit) act" where
  "record_audit p c outcome detail = act_bind (desk_ask Ticked (\<lambda>h. Inr (dp_clock p h))) (\<lambda>now.
     act_bind (act_lift (mk_operator_audit \<lparr>ad_command_id = cmd_id c, ad_type = cmd_type c, ad_operator = cmd_operator c,
       ad_outcome = outcome, ad_timestamp = now, ad_detail = detail\<rparr>)) (\<lambda>a.
     desk_ask (Audited a) (\<lambda>h. dp_audit p h a)))"

fun exn_name :: "py_exn \<Rightarrow> string" where
  "exn_name (ValueError _) = ''ValueError''"
| "exn_name (AssertionError _) = ''AssertionError''"
| "exn_name (RuntimeError _) = ''RuntimeError''"
| "exn_name (DecimalException _) = ''DecimalException''"
| "exn_name IndexError = ''IndexError''"
| "exn_name KeyError = ''KeyError''"
| "exn_name IntegrityError = ''IntegrityError''"
| "exn_name (TimeoutError _) = ''TimeoutError''"
| "exn_name (PermissionError _) = ''PermissionError''"
| "exn_name (ConcurrentSnapshotUpdateError _) = ''ConcurrentSnapshotUpdateError''"
| "exn_name (UncertainOrderOutcomeError _) = ''UncertainOrderOutcomeError''"
| "exn_name (ProtectionNotConfirmedError _) = ''ProtectionNotConfirmedError''"
| "exn_name (EntryFillNotConfirmedError _) = ''EntryFillNotConfirmedError''"
| "exn_name (ExitFillNotConfirmedError _) = ''ExitFillNotConfirmedError''"
| "exn_name (LifecyclePositionMismatchError _) = ''LifecyclePositionMismatchError''"
| "exn_name (OptionSpreadNotOpenedError _) = ''OptionSpreadNotOpenedError''"
| "exn_name (SimulatedOrderRejectedError _) = ''SimulatedOrderRejectedError''"
| "exn_name (InjectedProcessCrash _) = ''InjectedProcessCrash''"
| "exn_name (BybitClockError k) = (case k of NOT_SYNCHRONIZED \<Rightarrow> ''ClockNotSynchronizedError''
     | DRIFT \<Rightarrow> ''ClockDriftError'' | UNCERTAINTY \<Rightarrow> ''ClockUncertaintyError'' | STALE \<Rightarrow> ''ClockStaleError'')"

definition known_command :: "operator_command \<Rightarrow> operator_command \<Rightarrow> operator_result option \<Rightarrow> phase" where
  "known_command c existing found = Finished (if existing \<noteq> c
     then Inl (ValueError ''operator command ID is already bound to other input'')
     else case found of Some r \<Rightarrow> Inr r
       | None \<Rightarrow> Inl (RuntimeError ''operator command was started but its outcome is unknown''))"

text \<open>The result of an action that returned, before it is stored.\<close>

definition completed :: "desk_ports \<Rightarrow> operator_command \<Rightarrow> string \<Rightarrow> (desk, phase) act" where
  "completed p c detail = act_bind (desk_ask Ticked (\<lambda>h. Inr (dp_clock p h))) (\<lambda>now.
     act_bind (act_lift (mk_operator_result \<lparr>out_command_id = cmd_id c, out_type = cmd_type c, out_outcome = ''COMPLETED'',
       out_detail = detail, out_completed_at = now\<rparr>)) (\<lambda>r. act_return (Completing r)))"

definition attempted :: "desk_ports \<Rightarrow> operator_command \<Rightarrow> (desk, py_exn + string) act" where
  "attempted p c = act_catch (act_bind (perform p c) (\<lambda>detail. act_return (Inr detail)))
     (on_exception (\<lambda>e. act_return (Inl e)))"

fun phase_step :: "desk_ports \<Rightarrow> operator_command \<Rightarrow> string \<Rightarrow> phase \<Rightarrow> (desk, phase) act" where
  "phase_step p c cred Authenticating =
     act_bind (desk_ask (Authenticated (cmd_operator c) cred) (\<lambda>h. dp_authenticate p h (cmd_operator c) cred))
       (\<lambda>ok. act_return (if ok then Loading else Denying))"
| "phase_step p c cred Denying = act_bind (record_audit p c ''DENIED'' ''authentication failed'')
     (\<lambda>_. act_raise (PermissionError ''operator authentication failed''))"
| "phase_step p c cred Loading = act_bind (load_command (cmd_id c)) (\<lambda>existing. act_return (Loading_Result existing))"
| "phase_step p c cred (Loading_Result existing) = act_bind (load_result (cmd_id c)) (\<lambda>found. act_return (case existing of
     None \<Rightarrow> Persisting | Some e \<Rightarrow> known_command c e found))"
| "phase_step p c cred Persisting = act_bind (persist_command c) (\<lambda>inserted. act_return (if inserted then Acting else Reloading))"
| "phase_step p c cred Reloading = act_bind (load_result (cmd_id c)) (\<lambda>found. act_return (Finished (case found of
     Some r \<Rightarrow> Inr r
   | None \<Rightarrow> Inl (RuntimeError ''operator command was concurrently started and its outcome is unknown''))))"
| "phase_step p c cred Acting = act_bind (attempted p c) (\<lambda>out. case out of
     Inl e \<Rightarrow> act_return (Failing e) | Inr detail \<Rightarrow> completed p c detail)"
| "phase_step p c cred (Failing e) = act_bind (record_audit p c ''FAILED'' (exn_name e @ '': action failed'')) (\<lambda>_. act_raise e)"
| "phase_step p c cred (Completing r) = act_bind (complete_command r) (\<lambda>_. act_return (Auditing r))"
| "phase_step p c cred (Auditing r) = act_bind (record_audit p c ''COMPLETED'' (out_detail r)) (\<lambda>_. act_return (Finished (Inr r)))"
| "phase_step p c cred (Finished r) = act_return (Finished r)"

text \<open>One step of a call; an exception ends it.\<close>

definition advance :: "desk_ports \<Rightarrow> call \<Rightarrow> desk \<Rightarrow> call \<times> desk" where
  "advance p cl d = (case phase_step p (cl_command cl) (cl_credential cl) (cl_phase cl) d of
     (d', Inl e) \<Rightarrow> (cl\<lparr>cl_phase := Finished (Inl e)\<rparr>, d') | (d', Inr f) \<Rightarrow> (cl\<lparr>cl_phase := f\<rparr>, d'))"

definition new_call :: "operator_command \<Rightarrow> string \<Rightarrow> call" where
  "new_call c cred = \<lparr>cl_command = c, cl_credential = cred, cl_phase = Authenticating\<rparr>"

text \<open>A call on its own: its phases one after the other. Eight steps are enough (\<open>execute_command_finishes\<close>).\<close>

fun run_call :: "desk_ports \<Rightarrow> nat \<Rightarrow> call \<Rightarrow> desk \<Rightarrow> call \<times> desk" where
  "run_call p 0 cl d = (cl, d)"
| "run_call p (Suc n) cl d = (case advance p cl d of (cl', d') \<Rightarrow> run_call p n cl' d')"

definition execute_command :: "desk_ports \<Rightarrow> operator_command \<Rightarrow> string \<Rightarrow> (desk, operator_result) act" where
  "execute_command p c cred d = (case run_call p 8 (new_call c cred) d of (cl, d') \<Rightarrow>
     (d', case cl_phase cl of Finished r \<Rightarrow> r | _ \<Rightarrow> Inl (TimeoutError ''phases left'')))"

section \<open>Every call ends\<close>

fun phases_left :: "phase \<Rightarrow> nat" where
  "phases_left Authenticating = 8"
| "phases_left Denying = 1"
| "phases_left Loading = 7"
| "phases_left (Loading_Result _) = 6"
| "phases_left Persisting = 5"
| "phases_left Reloading = 1"
| "phases_left Acting = 4"
| "phases_left (Failing _) = 1"
| "phases_left (Completing _) = 2"
| "phases_left (Auditing _) = 1"
| "phases_left (Finished _) = 0"

lemma phases_left_known [simp]: "phases_left (known_command c e found) = 0"
  by (simp add: known_command_def)

lemma triple_anything: "triple P m (\<lambda>_ _. True) (\<lambda>_ _. True)"
  by (rule tripleI) simp_all

lemma phase_step_left:
  "triple (\<lambda>_. True) (phase_step p c cred f) (\<lambda>f' _. phases_left f' \<le> phases_left f - 1) (\<lambda>_ _. True)"
proof -
  have complete: "triple (\<lambda>_. True) (completed p c detail) (\<lambda>f' _. phases_left f' \<le> 3) (\<lambda>_ _. True)" for detail
    unfolding completed_def by (intro triple_bind [OF triple_anything] triple_return) simp
  have act: "triple (\<lambda>_. True) (case out of Inl e \<Rightarrow> act_return (Failing e) | Inr detail \<Rightarrow> completed p c detail)
      (\<lambda>f' _. phases_left f' \<le> phases_left Acting - 1) (\<lambda>_ _. True)" for out
    using complete by (cases out) (simp_all add: triple_return)
  show ?thesis
    by (induction f; unfold phase_step.simps)
      (rule triple_bind [OF triple_anything] triple_return, (rule triple_return triple_raise act)?,
        simp split: option.split)+
qed

lemma advance_left: "phases_left (cl_phase (fst (advance p cl d))) \<le> phases_left (cl_phase cl) - 1"
  using triple_Inr [OF phase_step_left] by (fastforce simp: advance_def split: prod.splits sum.splits)

lemma run_call_finishes: "phases_left (cl_phase cl) \<le> n \<Longrightarrow> \<exists>r. cl_phase (fst (run_call p n cl d)) = Finished r"
proof (induction n arbitrary: cl d)
  case 0
  then show ?case by (cases "cl_phase cl") simp_all
next
  case (Suc n)
  obtain cl' d' where a: "advance p cl d = (cl', d')" by fastforce
  have "phases_left (cl_phase cl') \<le> n" using advance_left [of p cl d] a Suc.prems by simp
  with Suc.IH a show ?case by simp
qed

lemma execute_command_finishes:
  "\<exists>cl d' r. run_call p 8 (new_call c cred) d = (cl, d') \<and> cl_phase cl = Finished r \<and> execute_command p c cred d = (d', r)"
proof -
  obtain cl d' where e: "run_call p 8 (new_call c cred) d = (cl, d')" by fastforce
  have "phases_left (cl_phase (new_call c cred)) \<le> 8" by (simp add: new_call_def)
  from run_call_finishes [OF this, of p d] obtain r where r: "cl_phase cl = Finished r" unfolding e by auto
  with e have "execute_command p c cred d = (d', r)" by (simp only: execute_command_def prod.case phase.case)
  with e r show ?thesis by blast
qed

section \<open>Interleaved calls\<close>

text \<open>The actions started so far, and the credentials accepted: at the moment the authenticator was asked about
  exactly this operator and this credential, it said yes.\<close>

fun acted :: "desk_event list \<Rightarrow> operator_command list" where
  "acted [] = []"
| "acted (Acted c # h) = c # acted h"
| "acted (_ # h) = acted h"

lemma acted_append [simp]: "acted (g @ h) = acted g @ acted h"
  by (induction g rule: acted.induct) simp_all

definition authenticated :: "desk_ports \<Rightarrow> operator_command \<Rightarrow> string \<Rightarrow> desk \<Rightarrow> bool" where
  "authenticated p c cred d \<longleftrightarrow> (\<exists>h. prefix (h @ [Authenticated (cmd_operator c) cred]) (dk_history d)
     \<and> dp_authenticate p (h @ [Authenticated (cmd_operator c) cred]) (cmd_operator c) cred = Inr True)"

abbreviation actions :: "desk \<Rightarrow> operator_command list" where
  "actions d \<equiv> acted (dk_history d)"

text \<open>Any number of calls, of one or several services on the same file, step in any order; a crash loses the
  calls under way, and what they have written stays. \<open>B\<close> lists all calls ever begun: the command and the
  credential each came with.\<close>

inductive desk_run :: "desk_ports \<Rightarrow> (operator_command \<times> string) list \<Rightarrow> call list \<Rightarrow> desk \<Rightarrow> bool" for p where
  Begin: "desk_run p [] [] \<lparr>dk_records = Map.empty, dk_history = []\<rparr>"
| Call: "desk_run p B cs d \<Longrightarrow> desk_run p (B @ [(c, cred)]) (cs @ [new_call c cred]) d"
| Advance: "desk_run p B cs d \<Longrightarrow> i < length cs \<Longrightarrow> advance p (cs ! i) d = (cl, d') \<Longrightarrow> desk_run p B (cs[i := cl]) d'"
| Crash: "desk_run p B cs d \<Longrightarrow> desk_run p B [] d"

text \<open>A call that owns its command has persisted the intent and not yet stored the result.\<close>

fun owning :: "phase \<Rightarrow> bool" where
  "owning Acting = True"
| "owning (Completing _) = True"
| "owning _ = False"

definition call_ok :: "desk_ports \<Rightarrow> desk \<Rightarrow> operator_command \<Rightarrow> string \<Rightarrow> phase \<Rightarrow> bool" where
  "call_ok p d c cred f = (case f of
     Authenticating \<Rightarrow> True | Denying \<Rightarrow> True | Failing _ \<Rightarrow> True
   | Acting \<Rightarrow> authenticated p c cred d \<and> dk_records d (cmd_id c) = Some (c, None) \<and> cmd_id c \<notin> cmd_id ` set (actions d)
   | Completing r \<Rightarrow> authenticated p c cred d \<and> dk_records d (cmd_id c) = Some (c, None) \<and> c \<in> set (actions d) \<and> out_command_id r = cmd_id c
   | Auditing r \<Rightarrow> (\<exists>c'. dk_records d (cmd_id c) = Some (c', Some r))
   | Finished out \<Rightarrow> (\<forall>r. out = Inr r \<longrightarrow> (\<exists>c'. dk_records d (cmd_id c) = Some (c', Some r)))
   | _ \<Rightarrow> authenticated p c cred d)"

definition records_ok :: "desk_ports \<Rightarrow> (operator_command \<times> string) list \<Rightarrow> desk \<Rightarrow> bool" where
  "records_ok p B d \<longleftrightarrow> distinct (map cmd_id (actions d))
     \<and> (\<forall>c \<in> set (actions d). (\<exists>cred. (c, cred) \<in> set B \<and> authenticated p c cred d)
          \<and> (\<exists>r. dk_records d (cmd_id c) = Some (c, r)))
     \<and> (\<forall>i c r. dk_records d i = Some (c, Some r) \<longrightarrow> c \<in> set (actions d) \<and> cmd_id c = i)"

text \<open>What a step may change: entries only grow, and only an owner changes an entry that exists.\<close>

definition grows :: "operator_command \<Rightarrow> bool \<Rightarrow> desk \<Rightarrow> desk \<Rightarrow> bool" where
  "grows c own d d' \<longleftrightarrow> prefix (dk_history d) (dk_history d')
     \<and> (\<forall>k e. dk_records d k = Some e \<longrightarrow> dk_records d' k = Some e
          \<or> own \<and> k = cmd_id c \<and> snd e = None \<and> (\<exists>r. dk_records d' k = Some (fst e, Some r)))
     \<and> (actions d' = actions d \<or> own \<and> actions d' = actions d @ [c])"

definition quiet_since :: "desk \<Rightarrow> desk \<Rightarrow> bool" where
  "quiet_since d d' \<longleftrightarrow> prefix (dk_history d) (dk_history d') \<and> dk_records d' = dk_records d \<and> actions d' = actions d"

lemma keeps_desk_ask: "(\<And>c. ev \<noteq> Acted c) \<Longrightarrow> keeps (quiet_since d) (desk_ask ev answer)"
  by (rule keepsI) (cases ev; auto simp: desk_ask_def Let_def quiet_since_def intro: prefix_order.trans)

lemma keeps_loads: "keeps (quiet_since d) (load_command i)" "keeps (quiet_since d) (load_result i)"
  by (simp_all add: load_command_def load_result_def)

lemma keeps_audit: "keeps (quiet_since d) (record_audit p c outcome detail)"
  unfolding record_audit_def by (intro keeping keeps_desk_ask) simp_all

lemma keeps_completed: "keeps (quiet_since d) (completed p c detail)"
  unfolding completed_def by (intro keeping keeps_desk_ask) simp_all

lemma quiet_phase:
  assumes "\<not> owning f" "f \<noteq> Persisting" shows "keeps (quiet_since d) (phase_step p c cred f)"
  using assms
  by (induction f; unfold phase_step.simps) (simp_all only: owning.simps not_True_eq_False, (intro keeping keeps_loads keeps_audit keeps_desk_ask; simp)+)

lemma authenticated_later: "authenticated p c cred d \<Longrightarrow> prefix (dk_history d) (dk_history d') \<Longrightarrow> authenticated p c cred d'"
  unfolding authenticated_def by (blast intro: prefix_order.trans)

lemma known_command_Inr: "known_command c e found = Finished (Inr r) \<longleftrightarrow> e = c \<and> found = Some r"
  by (auto simp: known_command_def split: option.splits)

lemma load_result_Some: "load_result i d = (d', Inr (Some r)) \<longleftrightarrow> d' = d \<and> (\<exists>c. dk_records d i = Some (c, Some r))"
  by (auto simp: load_result_def act_get_def split: option.splits)

lemma call_ok_known: "call_ok p d c cred (known_command c e found) \<longleftrightarrow> (e = c \<longrightarrow> (\<forall>r. found = Some r \<longrightarrow> (\<exists>c'. dk_records d (cmd_id c) = Some (c', Some r))))"
  by (auto simp: call_ok_def known_command_def split: option.splits)

text \<open>The phases that only ask and read.\<close>

lemma quiet_outcome:
  assumes "\<not> owning f" "f \<noteq> Persisting" "call_ok p d c cred f" "phase_step p c cred f d = (d', Inr f')"
  shows "call_ok p d' c cred f'"
proof -
  have q: "quiet_since d d'"
    by (rule keepsD [OF quiet_phase [OF assms(1,2)] assms(4)]) (simp add: quiet_since_def)
  show ?thesis
  proof (cases f)
    case Authenticating
    with assms(4) have "f' = Loading \<and> authenticated p c cred d' \<or> f' = Denying"
      by (auto simp: desk_ask_def Let_def authenticated_def split: if_splits)
    then show ?thesis by (auto simp: call_ok_def)
  next
    case Loading
    with assms(3,4) show ?thesis by (auto simp: load_command_def act_get_def call_ok_def)
  next
    case (Loading_Result e)
    with assms(4) obtain found where r: "load_result (cmd_id c) d = (d', Inr found)"
      and f': "f' = (case e of None \<Rightarrow> Persisting | Some e \<Rightarrow> known_command c e found)" by auto
    have "authenticated p c cred d'" using assms(3) Loading_Result q authenticated_later
      by (auto simp: call_ok_def quiet_since_def)
    moreover have "call_ok p d' c cred (known_command c e' found)" for e'
      using r load_result_Some q by (auto simp: call_ok_known quiet_since_def)
    ultimately show ?thesis unfolding f' by (auto simp: call_ok_def split: option.split)
  next
    case Reloading
    with assms(4) obtain found where r: "load_result (cmd_id c) d = (d', Inr found)"
      and f': "f' = Finished (case found of Some r \<Rightarrow> Inr r
        | None \<Rightarrow> Inl (RuntimeError ''operator command was concurrently started and its outcome is unknown''))" by auto
    with q load_result_Some show ?thesis by (auto simp: call_ok_def quiet_since_def split: option.splits)
  next
    case (Auditing r)
    with assms(3,4) q show ?thesis by (auto simp: call_ok_def quiet_since_def)
  next
    case (Finished out)
    with assms(3,4) show ?thesis by auto
  qed (use assms in auto)
qed

text \<open>The three phases that write.\<close>

definition ends_in :: "desk_ports \<Rightarrow> operator_command \<Rightarrow> string \<Rightarrow> desk \<Rightarrow> phase res \<Rightarrow> bool" where
  "ends_in p c cred d out \<longleftrightarrow> (case out of Inl _ \<Rightarrow> True | Inr f \<Rightarrow> call_ok p d c cred f)"

lemma persisting_step:
  assumes "phase_step p c cred Persisting d = (d', out)" "authenticated p c cred d" "records_ok p B d"
  shows "dk_history d' = dk_history d" "grows c False d d'" "ends_in p c cred d' out"
    "dk_records d' = dk_records d \<and> out = Inr Reloading
     \<or> dk_records d (cmd_id c) = None \<and> dk_records d' = (dk_records d)(cmd_id c \<mapsto> (c, None)) \<and> out = Inr Acting"
proof -
  consider (known) "dk_records d (cmd_id c) \<noteq> None" "d' = d" "out = Inr Reloading"
    | (fresh) "dk_records d (cmd_id c) = None" "d' = d\<lparr>dk_records := (dk_records d)(cmd_id c \<mapsto> (c, None))\<rparr>" "out = Inr Acting"
    using assms(1) by (cases "dk_records d (cmd_id c)") (auto simp: persist_command_def act_bind_def)
  then show "dk_history d' = dk_history d" "grows c False d d'" "ends_in p c cred d' out"
    "dk_records d' = dk_records d \<and> out = Inr Reloading
     \<or> dk_records d (cmd_id c) = None \<and> dk_records d' = (dk_records d)(cmd_id c \<mapsto> (c, None)) \<and> out = Inr Acting"
    using assms(2,3) by (cases; fastforce simp: grows_def ends_in_def call_ok_def authenticated_def records_ok_def)+
qed

lemma acting_step:
  assumes "phase_step p c cred Acting d = (d', out)" "call_ok p d c cred Acting"
  shows "dk_records d' = dk_records d" "grows c True d d'" "ends_in p c cred d' out"
    "\<forall>f. out = Inr f \<longrightarrow> (\<exists>e. f = Failing e) \<or> (\<exists>r. f = Completing r)"
proof -
  obtain d1 out1 where a: "attempted p c d = (d1, out1)" by fastforce
  have 1: "dk_records d1 = dk_records d" "prefix (dk_history d) (dk_history d1)"
    "actions d1 = actions d \<or> actions d1 = actions d @ [c]" "\<forall>s. out1 = Inr (Inr s) \<longrightarrow> actions d1 = actions d @ [c]"
    using a by (auto simp: attempted_def act_catch_def act_bind_def perform_def desk_ask_def Let_def on_exception_def
        split: option.splits sum.splits py_exn.splits)
  have 2: "quiet_since d1 d' \<and> (out1 = Inr (Inl e) \<longrightarrow> out = Inr (Failing e))
      \<and> (\<forall>f. out = Inr f \<longrightarrow> (\<exists>e. f = Failing e) \<or> (\<exists>s r. out1 = Inr (Inr s) \<and> f = Completing r \<and> out_command_id r = cmd_id c))" for e
  proof (cases out1)
    case (Inr o1)
    show ?thesis
    proof (cases o1)
      case (Inr s)
      with a \<open>out1 = Inr o1\<close> assms(1) have co: "completed p c s d1 = (d', out)" by (simp add: act_bind_def)
      have "quiet_since d1 d'" by (rule keepsD [OF keeps_completed co]) (simp add: quiet_since_def)
      moreover have "\<exists>r. f = Completing r \<and> out_command_id r = cmd_id c" if "out = Inr f" for f
        using co that by (auto simp: completed_def act_lift_def mk_operator_result_def)
      ultimately show ?thesis using Inr \<open>out1 = Inr o1\<close> by blast
    qed (use a \<open>out1 = Inr o1\<close> assms(1) in \<open>auto simp: act_bind_def quiet_since_def\<close>)
  qed (use a assms(1) in \<open>auto simp: act_bind_def quiet_since_def\<close>)
  from 1 2 show "dk_records d' = dk_records d" by (simp add: quiet_since_def)
  from 1 2 show "grows c True d d'" by (auto simp: grows_def quiet_since_def intro: prefix_order.trans)
  from 2 show "\<forall>f. out = Inr f \<longrightarrow> (\<exists>e. f = Failing e) \<or> (\<exists>r. f = Completing r)" by blast
  have "prefix (dk_history d) (dk_history d')" using 1(2) 2 by (auto simp: quiet_since_def intro: prefix_order.trans)
  with assms(2) have auth: "authenticated p c cred d'" "dk_records d (cmd_id c) = Some (c, None)"
    by (auto simp: call_ok_def intro: authenticated_later)
  have "call_ok p d' c cred f" if f: "out = Inr f" for f
  proof -
    from 2 f consider e where "f = Failing e" | s r where "out1 = Inr (Inr s)" "f = Completing r" "out_command_id r = cmd_id c"
      by blast
    then show ?thesis using 1 2 auth by cases (auto simp: call_ok_def quiet_since_def)
  qed
  then show "ends_in p c cred d' out" by (auto simp: ends_in_def split: sum.split)
qed

lemma completing_step:
  assumes "phase_step p c cred (Completing r) d = (d', out)" "call_ok p d c cred (Completing r)"
  shows "out = Inr (Auditing r)" "d' = d\<lparr>dk_records := (dk_records d)(cmd_id c \<mapsto> (c, Some r))\<rparr>" "grows c True d d'" "ends_in p c cred d' out"
  using assms by (auto simp: call_ok_def complete_command_def act_bind_def grows_def ends_in_def split: option.splits if_splits)

lemma call_ok_authenticated:
  "call_ok p d c cred f \<Longrightarrow> f = Persisting \<or> f = Acting \<Longrightarrow> authenticated p c cred d"
  by (auto simp: call_ok_def)

lemma records_ok_later:
  assumes "records_ok p B d" "dk_records d' = dk_records d" "prefix (dk_history d) (dk_history d')"
    and "actions d' = actions d \<or> actions d' = actions d @ [c] \<and> call_ok p d c cred Acting \<and> (c, cred) \<in> set B"
  shows "records_ok p B d'"
  using assms authenticated_later [OF _ assms(3)] unfolding records_ok_def call_ok_def by (auto, blast+)

lemma records_ok_put:
  assumes ok: "records_ok p B d" and d': "dk_history d' = dk_history d" "dk_records d' = (dk_records d)(cmd_id c \<mapsto> (c, x))"
    and c: "dk_records d (cmd_id c) = None \<and> x = None \<or> dk_records d (cmd_id c) = Some (c, None) \<and> c \<in> set (actions d)"
  shows "records_ok p B d'"
proof -
  have "\<exists>r. dk_records d' (cmd_id b) = Some (b, r)" if b: "b \<in> set (actions d)" for b
  proof -
    obtain r where "dk_records d (cmd_id b) = Some (b, r)" using ok b unfolding records_ok_def by blast
    with c d'(2) show ?thesis by (cases "cmd_id b = cmd_id c") auto
  qed
  moreover have "b \<in> set (actions d) \<and> cmd_id b = i" if "dk_records d' i = Some (b, Some r)" for i b r
    using that ok c unfolding d'(2) records_ok_def by (cases "i = cmd_id c") auto
  ultimately show ?thesis using ok d'(1) by (simp add: records_ok_def authenticated_def)
qed

lemma not_owning_known [simp]: "\<not> owning (known_command c e found)"
  by (simp add: known_command_def)

lemma quiet_owns_nothing:
  assumes "\<not> owning f" "f \<noteq> Persisting"
  shows "triple (\<lambda>_. True) (phase_step p c cred f) (\<lambda>f' _. \<not> owning f') (\<lambda>_ _. True)"
  using assms
  by (induction f; unfold phase_step.simps)
    (simp_all only: owning.simps not_True_eq_False,
      (rule triple_bind [OF triple_anything] triple_return, (rule triple_return triple_raise)?, simp split: option.split)+)

lemma step_facts:
  assumes ok: "records_ok p B d" "call_ok p d c cred f" "(c, cred) \<in> set B" and s: "phase_step p c cred f d = (d', out)"
  shows "records_ok p B d'" "ends_in p c cred d' out" "grows c (owning f) d d'"
    "\<forall>f'. out = Inr f' \<and> owning f' \<longrightarrow> owning f \<or> dk_records d (cmd_id c) = None"
proof -
  have "records_ok p B d' \<and> ends_in p c cred d' out \<and> grows c (owning f) d d'
    \<and> (\<forall>f'. out = Inr f' \<and> owning f' \<longrightarrow> owning f \<or> dk_records d (cmd_id c) = None)"
  proof (cases "owning f \<or> f = Persisting")
    case False
    then have f: "\<not> owning f" "f \<noteq> Persisting" by blast+
    have q: "quiet_since d d'" by (rule keepsD [OF quiet_phase [OF f] s]) (simp add: quiet_since_def)
    have o: "\<not> owning f'" if "out = Inr f'" for f'
      using triple_Inr [OF quiet_owns_nothing [OF f] TrueI s [unfolded that]] .
    have "ends_in p c cred d' out" using quiet_outcome [OF f ok(2)] s by (cases out) (auto simp: ends_in_def)
    with q o records_ok_later [OF ok(1)] show ?thesis by (auto simp: quiet_since_def grows_def)
  next
    case True
    then consider "f = Persisting" | "f = Acting" | r where "f = Completing r" by (cases f) auto
    then show ?thesis
    proof cases
      case 1
      note p = persisting_step [OF s [unfolded 1] call_ok_authenticated [OF ok(2) disjI1 [OF 1]] ok(1)]
      have "records_ok p B d'" using p(4)
      proof
        assume "dk_records d' = dk_records d \<and> out = Inr Reloading"
        with p(1) records_ok_later [OF ok(1)] show ?thesis by simp
      next
        assume "dk_records d (cmd_id c) = None \<and> dk_records d' = (dk_records d)(cmd_id c \<mapsto> (c, None)) \<and> out = Inr Acting"
        with records_ok_put [OF ok(1) p(1)] show ?thesis by blast
      qed
      with p 1 show ?thesis by auto
    next
      case 2
      note a = acting_step [OF s [unfolded 2] ok(2) [unfolded 2]]
      have "records_ok p B d'" by (rule records_ok_later [OF ok(1)]) (use a(1,2) ok(2,3) 2 in \<open>auto simp: grows_def\<close>)
      with a 2 show ?thesis by auto
    next
      case (3 r)
      note co = completing_step [OF s [unfolded 3] ok(2) [unfolded 3]]
      have "records_ok p B d'" by (rule records_ok_put [OF ok(1)]) (use co(2) ok(2) 3 in \<open>auto simp: call_ok_def\<close>)
      with co 3 show ?thesis by auto
    qed
  qed
  note all = this
  show "records_ok p B d'" by (rule all [THEN conjunct1])
  show "ends_in p c cred d' out" by (rule all [THEN conjunct2, THEN conjunct1])
  show "grows c (owning f) d d'" by (rule all [THEN conjunct2, THEN conjunct2, THEN conjunct1])
  show "\<forall>f'. out = Inr f' \<and> owning f' \<longrightarrow> owning f \<or> dk_records d (cmd_id c) = None"
    by (rule all [THEN conjunct2, THEN conjunct2, THEN conjunct2])
qed

text \<open>What the step of one call leaves of another: owners own different ids.\<close>

lemma call_ok_other:
  assumes "call_ok p d c2 cred2 f2" "grows c own d d'" "own \<longrightarrow> owning f2 \<longrightarrow> cmd_id c2 \<noteq> cmd_id c"
  shows "call_ok p d' c2 cred2 f2"
proof -
  have rec: "dk_records d' k = Some e \<or> own \<and> k = cmd_id c \<and> snd e = None" if "dk_records d k = Some e" for k e
    using assms(2) that unfolding grows_def by blast
  have closed: "dk_records d' k = Some (b, Some r)" if "dk_records d k = Some (b, Some r)" for k b r
    using rec [OF that] by simp
  have kept: "dk_records d' (cmd_id c2) = Some e" if "dk_records d (cmd_id c2) = Some e" "owning f2" for e
    using rec [OF that(1)] assms(3) that(2) by auto
  have acts: "set (actions d) \<subseteq> set (actions d')" "cmd_id ` set (actions d') \<subseteq> insert (cmd_id c) (cmd_id ` set (actions d))"
    "\<not> own \<Longrightarrow> actions d' = actions d"
    using assms(2) unfolding grows_def by auto
  have auth: "authenticated p c2 cred2 d \<Longrightarrow> authenticated p c2 cred2 d'"
    using assms(2) authenticated_later unfolding grows_def by blast
  show ?thesis
  proof (cases f2)
    case Acting
    then show ?thesis using assms(1,3) kept acts(2,3) auth unfolding call_ok_def by (cases own) auto
  next
    case (Completing r)
    then show ?thesis using assms(1) kept acts(1) auth unfolding call_ok_def by auto
  qed (use assms(1) auth closed in \<open>auto simp: call_ok_def\<close>)
qed

definition desk_inv :: "desk_ports \<Rightarrow> (operator_command \<times> string) list \<Rightarrow> call list \<Rightarrow> desk \<Rightarrow> bool" where
  "desk_inv p B cs d \<longleftrightarrow> records_ok p B d \<and> (\<forall>cl \<in> set cs. (cl_command cl, cl_credential cl) \<in> set B \<and> call_ok p d (cl_command cl) (cl_credential cl) (cl_phase cl))
     \<and> (\<forall>i j. i < length cs \<and> j < length cs \<and> i \<noteq> j \<and> owning (cl_phase (cs ! i)) \<and> owning (cl_phase (cs ! j))
          \<longrightarrow> cmd_id (cl_command (cs ! i)) \<noteq> cmd_id (cl_command (cs ! j)))"

lemma advance_facts:
  assumes ok: "records_ok p B d" "call_ok p d (cl_command cl) (cl_credential cl) (cl_phase cl)" "(cl_command cl, cl_credential cl) \<in> set B"
    and s: "advance p cl d = (cl', d')"
  shows "records_ok p B d'" "cl_command cl' = cl_command cl" "cl_credential cl' = cl_credential cl" "call_ok p d' (cl_command cl) (cl_credential cl) (cl_phase cl')"
    "grows (cl_command cl) (owning (cl_phase cl)) d d'"
    "owning (cl_phase cl') \<Longrightarrow> owning (cl_phase cl) \<or> dk_records d (cmd_id (cl_command cl)) = None"
proof -
  obtain out where p: "phase_step p (cl_command cl) (cl_credential cl) (cl_phase cl) d = (d', out)"
    and cl': "cl' = cl\<lparr>cl_phase := (case out of Inl e \<Rightarrow> Finished (Inl e) | Inr f \<Rightarrow> f)\<rparr>"
    using s by (auto simp: advance_def split: prod.splits sum.splits)
  note f = step_facts [OF ok p]
  from f cl' show "records_ok p B d'" "cl_command cl' = cl_command cl" "cl_credential cl' = cl_credential cl" "call_ok p d' (cl_command cl) (cl_credential cl) (cl_phase cl')"
    "grows (cl_command cl) (owning (cl_phase cl)) d d'"
    "owning (cl_phase cl') \<Longrightarrow> owning (cl_phase cl) \<or> dk_records d (cmd_id (cl_command cl)) = None"
    by (cases out; simp add: ends_in_def call_ok_def)+
qed

lemma records_ok_more: "records_ok p B d \<Longrightarrow> set B \<subseteq> set B' \<Longrightarrow> records_ok p B' d"
  unfolding records_ok_def by blast

lemma desk_run_inv: "desk_run p B cs d \<Longrightarrow> desk_inv p B cs d"
proof (induction rule: desk_run.induct)
  case Begin
  show ?case by (simp add: desk_inv_def records_ok_def)
next
  case (Call B cs d c cred)
  have "\<not> owning (cl_phase (new_call c cred))" "call_ok p d c cred (cl_phase (new_call c cred))"
    by (simp_all add: new_call_def call_ok_def)
  with Call.IH records_ok_more [of p B d "B @ [(c, cred)]"] show ?case by (auto simp: desk_inv_def nth_append new_call_def)
next
  case (Advance B cs d i cl' d')
  let ?cl = "cs ! i"
  have ok: "records_ok p B d" "call_ok p d (cl_command ?cl) (cl_credential ?cl) (cl_phase ?cl)" "(cl_command ?cl, cl_credential ?cl) \<in> set B"
    and begun: "\<And>j. j < length cs \<Longrightarrow> (cl_command (cs ! j), cl_credential (cs ! j)) \<in> set B"
    and others: "\<And>j. j < length cs \<Longrightarrow> call_ok p d (cl_command (cs ! j)) (cl_credential (cs ! j)) (cl_phase (cs ! j))"
    and apart: "\<And>j. j < length cs \<Longrightarrow> j \<noteq> i \<Longrightarrow> owning (cl_phase ?cl) \<Longrightarrow> owning (cl_phase (cs ! j))
      \<Longrightarrow> cmd_id (cl_command (cs ! j)) \<noteq> cmd_id (cl_command ?cl)"
    using Advance.IH Advance.hyps(2) by (auto simp: desk_inv_def)
  note f = advance_facts [OF ok Advance.hyps(3)]
  have calls: "call_ok p d' (cl_command (cs[i := cl'] ! j)) (cl_credential (cs[i := cl'] ! j)) (cl_phase (cs[i := cl'] ! j))
      \<and> (cl_command (cs[i := cl'] ! j), cl_credential (cs[i := cl'] ! j)) \<in> set B" if "j < length cs" for j
    using f(2-4) begun [OF that] call_ok_other [OF others [OF that] f(5)] apart [OF that] that by (cases "j = i") auto
  have fresh: "cmd_id (cl_command (cs ! j)) \<noteq> cmd_id (cl_command cl')"
    if j: "j < length cs" "j \<noteq> i" "owning (cl_phase cl')" "owning (cl_phase (cs ! j))" for j
    using f(2,6) apart j others [OF j(1)] by (cases "cl_phase (cs ! j)") (auto simp: call_ok_def)
  have apart': "cmd_id (cl_command (cs[i := cl'] ! j)) \<noteq> cmd_id (cl_command (cs[i := cl'] ! k))"
    if jk: "j < length cs" "k < length cs" "j \<noteq> k" and o: "owning (cl_phase (cs[i := cl'] ! j))" "owning (cl_phase (cs[i := cl'] ! k))" for j k
  proof (cases "j = i \<or> k = i")
    case True
    with jk o fresh [of j] fresh [of k] show ?thesis by auto
  next
    case False
    with jk o Advance.IH show ?thesis by (auto simp: desk_inv_def)
  qed
  with f(1) calls apart' show ?case unfolding desk_inv_def by (auto simp: in_set_conv_nth simp del: nth_list_update)
next
  case (Crash B cs d)
  then show ?case by (simp add: desk_inv_def)
qed

text \<open>C10. Every command is acted on at most once, and only for an operator whose credential was accepted. Whatever
  authenticator, actions, audit and clock answer, over any interleaving of any calls and with crashes anywhere:
  no command id is acted on twice; every command acted on came with a call whose own credential the
  authenticator accepted for the operator of the command, and is recorded; a step that starts an action
  starts the command of the call that steps, after the authenticator accepted that call's credential, and
  with its intent in the file without a result; a call that returns a result returns the stored result of a
  command with that id, which was acted on; and a stored result never changes.\<close>

theorem commands_act_once:
  assumes "desk_run p B cs d"
  shows "distinct (map cmd_id (actions d))
    \<and> (\<forall>c \<in> set (actions d). (\<exists>cred. (c, cred) \<in> set B \<and> authenticated p c cred d) \<and> (\<exists>r. dk_records d (cmd_id c) = Some (c, r)))
    \<and> (\<forall>cl \<in> set cs. \<forall>r. cl_phase cl = Finished (Inr r)
         \<longrightarrow> (\<exists>c \<in> set (actions d). cmd_id c = cmd_id (cl_command cl) \<and> dk_records d (cmd_id c) = Some (c, Some r)))
    \<and> (\<forall>i cl d'. i < length cs \<and> advance p (cs ! i) d = (cl, d')
         \<longrightarrow> (\<forall>k c r. dk_records d k = Some (c, Some r) \<longrightarrow> dk_records d' k = Some (c, Some r))
           \<and> (actions d' = actions d
              \<or> (let c = cl_command (cs ! i) in actions d' = actions d @ [c]
                   \<and> authenticated p c (cl_credential (cs ! i)) d \<and> dk_records d (cmd_id c) = Some (c, None))))"
proof -
  have inv: "records_ok p B d"
      "\<And>cl. cl \<in> set cs \<Longrightarrow> (cl_command cl, cl_credential cl) \<in> set B \<and> call_ok p d (cl_command cl) (cl_credential cl) (cl_phase cl)"
    using desk_run_inv [OF assms] by (simp_all add: desk_inv_def)
  have returned: "\<exists>c \<in> set (actions d). cmd_id c = cmd_id (cl_command cl) \<and> dk_records d (cmd_id c) = Some (c, Some r)"
    if "cl \<in> set cs" "cl_phase cl = Finished (Inr r)" for cl r
    using inv(2) [OF that(1)] inv(1) that(2) unfolding call_ok_def records_ok_def by fastforce
  have step: "(\<forall>k c r. dk_records d k = Some (c, Some r) \<longrightarrow> dk_records d' k = Some (c, Some r))
      \<and> (actions d' = actions d
         \<or> (let c = cl_command (cs ! i) in actions d' = actions d @ [c]
              \<and> authenticated p c (cl_credential (cs ! i)) d \<and> dk_records d (cmd_id c) = Some (c, None)))"
    if i: "i < length cs" and a: "advance p (cs ! i) d = (cl, d')" for i cl d'
  proof -
    let ?f = "cl_phase (cs ! i)" and ?c = "cl_command (cs ! i)"
    note c = inv(2) [OF nth_mem [OF i]]
    note g = advance_facts(5) [OF inv(1) c [THEN conjunct2] c [THEN conjunct1] a]
    have "dk_records d' k = Some (c, Some r)" if "dk_records d k = Some (c, Some r)" for k c r
      using g that unfolding grows_def by fastforce
    moreover have "authenticated p ?c (cl_credential (cs ! i)) d \<and> dk_records d (cmd_id ?c) = Some (?c, None)" if "owning ?f"
      using c that by (cases ?f) (simp_all add: call_ok_def)
    ultimately show ?thesis using g unfolding grows_def Let_def by blast
  qed
  from inv(1) returned step show ?thesis unfolding records_ok_def by blast
qed

section \<open>Example runs\<close>

lemma run_call_steps:
  "desk_run p B cs d \<Longrightarrow> i < length cs \<Longrightarrow> run_call p n (cs ! i) d = (cl, d') \<Longrightarrow> desk_run p B (cs[i := cl]) d'"
proof (induction n arbitrary: cs d)
  case (Suc n)
  obtain cl1 d1 where a: "advance p (cs ! i) d = (cl1, d1)" by fastforce
  then have "desk_run p B (cs[i := cl1]) d1" using desk_run.Advance Suc.prems(1,2) by blast
  with Suc.IH [of "cs[i := cl1]" d1] a Suc.prems show ?case by simp
next
  case 0
  then show ?case using list_update_id [of cs i] by simp
qed

definition sample_ports :: desk_ports where
  "sample_ports = \<lparr>dp_authenticate = (\<lambda>h u cred. Inr (cred = ''s'')),
     dp_actions = map (\<lambda>t. (t, \<lambda>h c. Inr ''ok'')) all_command_types, dp_audit = (\<lambda>h a. Inr ()), dp_clock = (\<lambda>h. Aware (int (length h)))\<rparr>"

definition sample_command :: "operator_command_type \<Rightarrow> operator_command" where
  "sample_command t = \<lparr>cmd_id = ''k'', cmd_type = t, cmd_operator = ''u'', cmd_reason = ''r'', cmd_issued_at = Aware 1\<rparr>"

abbreviation empty_desk :: desk where
  "empty_desk \<equiv> \<lparr>dk_records = Map.empty, dk_history = []\<rparr>"

definition paused :: "call \<times> desk" where
  "paused = run_call sample_ports 8 (new_call (sample_command SOFT_PAUSE) ''s'') empty_desk"

fun result_type :: "call \<times> desk \<Rightarrow> operator_command_type option \<times> nat" where
  "result_type (cl, d) = (case cl_phase cl of Finished (Inr r) \<Rightarrow> Some (out_type r) | _ \<Rightarrow> None, length (actions d))"

lemma paused_facts: "result_type paused = (Some SOFT_PAUSE, 1)"
  by code_simp

lemma paused_run: "desk_run sample_ports [(sample_command SOFT_PAUSE, ''s'')] [fst paused] (snd paused)"
  using run_call_steps [OF desk_run.Call [OF desk_run.Begin, of sample_ports "sample_command SOFT_PAUSE" "''s''"], of 0 8 "fst paused" "snd paused"]
  by (simp add: paused_def)

theorem commands_act_once_witness:
  "desk_run sample_ports [(sample_command SOFT_PAUSE, ''s'')] [fst paused] (snd paused)
     \<and> actions (snd paused) = [sample_command SOFT_PAUSE]
     \<and> authenticated sample_ports (sample_command SOFT_PAUSE) ''s'' (snd paused)"
proof -
  obtain cl d where p: "paused = (cl, d)" by fastforce
  have "length (actions (snd paused)) = 1" using paused_facts unfolding p by simp
  then obtain c where c: "actions (snd paused) = [c]" by (auto simp: length_Suc_conv)
  have "c = sample_command SOFT_PAUSE \<and> authenticated sample_ports (sample_command SOFT_PAUSE) ''s'' (snd paused)"
    using commands_act_once [OF paused_run, THEN conjunct2, THEN conjunct1] unfolding c by auto
  with paused_run c show ?thesis by blast
qed

text \<open>The caller whose intent lost the race is given the result that is stored, without a comparison of the
  commands: a resume that races with a pause of the same id returns the pause's result.\<close>

definition raced :: "call \<times> desk" where
  "raced = (let (resume, d1) = run_call sample_ports 3 (new_call (sample_command RESUME_AFTER_RECONCILIATION) ''s'') empty_desk;
     (pause, d2) = run_call sample_ports 8 (new_call (sample_command SOFT_PAUSE) ''s'') d1
     in run_call sample_ports 2 resume d2)"

lemma other_commands_result: "result_type raced = (Some SOFT_PAUSE, 1)"
  by code_simp

end
