(* ===== verification/Bybit_Clock.thy ===== *)
theory Bybit_Clock
  imports Decimal_Arith Actions
begin

text \<open>
  \<open>infrastructure/bybit/clock.py\<close>: the clock that signs private requests with the time of the exchange.
  A sample takes the middle of a request as the moment the server read its clock; half the round trip is
  what that can be wrong by. The lemmas show that bound, for the time stamps too, and when a time stamp
  is refused. Seconds of the monotonic clock are floats, and so is their difference.
\<close>

section \<open>Floats\<close>

text \<open>The nearest float: 53 significant bits, ties to even. Overflow and subnormal numbers are not modelled.\<close>

definition binary_mag :: "rat \<Rightarrow> int" where
  "binary_mag x = (case quotient_of \<bar>x\<bar> of (p, q) \<Rightarrow>
     let k = bitlen p - bitlen q in if (2::rat) powi k \<le> \<bar>x\<bar> then k else k - 1)"

definition float_of :: "rat \<Rightarrow> rat" where
  "float_of x = (if x = 0 then 0 else let u = (2::rat) powi (binary_mag x - 52) in of_int (half_even (x / u)) * u)"

text \<open>\<open>int\<close> of a \<open>Decimal\<close>.\<close>

definition toward_zero :: "rat \<Rightarrow> int" where
  "toward_zero x = (if x < 0 then \<lceil>x\<rceil> else \<lfloor>x\<rfloor>)"

section \<open>The clock\<close>

record clock_sample =
  cs_offset_ms :: dec
  cs_round_trip_time_ms :: int
  cs_uncertainty_ms :: dec
  cs_synchronized_at :: rat

record server_clock =
  sc_max_absolute_offset_ms :: dec
  sc_max_uncertainty_ms :: dec
  sc_max_age_seconds :: rat
  sc_sample :: "clock_sample option"

definition mk_server_clock :: "int \<Rightarrow> int \<Rightarrow> rat \<Rightarrow> server_clock res" where
  [post_init]: "mk_server_clock max_offset max_uncertainty max_age = check_all
    [(max_offset < 0, ''maximum absolute offset must not be negative''),
     (max_uncertainty < 0, ''maximum uncertainty must not be negative''),
     (max_age \<le> 0, ''maximum clock sample age must be positive'')]
    (Inr \<lparr>sc_max_absolute_offset_ms = of_int max_offset, sc_max_uncertainty_ms = of_int max_uncertainty,
      sc_max_age_seconds = max_age, sc_sample = None\<rparr>)"

definition validate_quality :: "server_clock \<Rightarrow> clock_sample \<Rightarrow> 'a res \<Rightarrow> 'a res" where
  "validate_quality c s k = raise_if (sc_max_absolute_offset_ms c < dabs (cs_offset_ms s)) (BybitClockError DRIFT)
     (raise_if (sc_max_uncertainty_ms c < cs_uncertainty_ms s) (BybitClockError UNCERTAINTY) k)"

text \<open>The sample of a request sent at \<open>sent\<close> and answered at \<open>received\<close> on the local clock, with the server time of
  the answer; \<open>now\<close> is the monotonic clock.\<close>

definition sample_of :: "int \<Rightarrow> int \<Rightarrow> int \<Rightarrow> rat \<Rightarrow> clock_sample" where
  "sample_of sent received server now = (let middle = dquot (dadd (of_int sent) (of_int received)) 2 in
     \<lparr>cs_offset_ms = dsub (of_int server) middle, cs_round_trip_time_ms = received - sent,
      cs_uncertainty_ms = dquot (of_int (received - sent)) 2, cs_synchronized_at = now\<rparr>)"

definition record_sample :: "int \<Rightarrow> int \<Rightarrow> int \<Rightarrow> rat \<Rightarrow> (server_clock, clock_sample) act" where
  "record_sample sent received server now c =
     (let s = sample_of sent received server now in
      case raise_when (received < sent) ''response time must not precede request time'' (validate_quality c s (Inr s)) of
        Inl e \<Rightarrow> (c, Inl e) | Inr s \<Rightarrow> (c\<lparr>sc_sample := Some s\<rparr>, Inr s))"

definition float_sub :: "rat \<Rightarrow> rat \<Rightarrow> rat" where
  "float_sub x y = float_of (x - y)"

definition timestamp_ms :: "server_clock \<Rightarrow> rat \<Rightarrow> int \<Rightarrow> int res" where
  "timestamp_ms c now wall = (case sc_sample c of None \<Rightarrow> Inl (BybitClockError NOT_SYNCHRONIZED)
     | Some s \<Rightarrow> let age = float_sub now (cs_synchronized_at s) in
         raise_if (age < 0 \<or> sc_max_age_seconds c < age) (BybitClockError STALE)
        (validate_quality c s (Inr (toward_zero (dadd (of_int wall) (cs_offset_ms s))))))"

section \<open>The error of the clock\<close>

definition good_sample :: "server_clock \<Rightarrow> clock_sample \<Rightarrow> bool" where
  "good_sample c s \<longleftrightarrow> dabs (cs_offset_ms s) \<le> sc_max_absolute_offset_ms c \<and> cs_uncertainty_ms s \<le> sc_max_uncertainty_ms c"

lemma validate_quality_Inr [simp]: "validate_quality c s k = Inr x \<longleftrightarrow> good_sample c s \<and> k = Inr x"
  by (auto simp: validate_quality_def good_sample_def raise_if_def not_less)

lemma validate_quality_cases:
  "validate_quality c s k = (if good_sample c s then k else Inl (BybitClockError
     (if sc_max_absolute_offset_ms c < dabs (cs_offset_ms s) then DRIFT else UNCERTAINTY)))"
  by (auto simp: validate_quality_def good_sample_def raise_if_def not_less)

lemma record_sample_Inr:
  "record_sample sent received server now c = (c', Inr s) \<longleftrightarrow> sent \<le> received \<and> s = sample_of sent received server now
     \<and> good_sample c s \<and> c' = c\<lparr>sc_sample := Some s\<rparr>"
  by (auto simp: record_sample_def Let_def validate_quality_cases raise_if_def split: sum.splits)

lemma record_sample_Inl: "record_sample sent received server now c = (c', Inl e) \<Longrightarrow> c' = c"
  by (auto simp: record_sample_def Let_def split: sum.splits)

text \<open>Milliseconds of the next million years.\<close>

definition wall_ms :: "int \<Rightarrow> bool" where
  "wall_ms t \<longleftrightarrow> 0 \<le> t \<and> t \<le> 10 ^ 20"

lemma half_representable:
  assumes "\<bar>n\<bar> \<le> 10 ^ 25" shows "representable (of_int n / 2)"
proof (rule on_grid_representable [of 1])
  have "of_int n / 2 * 10 ^ 1 = (of_int (n * 5) :: rat)" by simp
  then show "on_grid 1 (of_int n / 2)" unfolding on_grid_def by (metis Ints_of_int)
  have "(of_int \<bar>n\<bar> :: rat) \<le> of_int (10 ^ 25)" using assms by (simp only: of_int_le_iff)
  then show "\<bar>of_int n / 2\<bar> * 10 ^ 1 \<le> (10::rat) ^ 28" by simp
qed

lemma sample_exact:
  assumes "wall_ms sent" "wall_ms received" "wall_ms server"
  shows "cs_offset_ms (sample_of sent received server now) = of_int server - (of_int sent + of_int received) / 2"
    "cs_uncertainty_ms (sample_of sent received server now) = (of_int received - of_int sent) / 2"
proof -
  have r: "rnd (of_int n) = of_int n" "rnd (of_int n / 2) = of_int n / 2" if "\<bar>n\<bar> \<le> 10 ^ 25" for n
    unfolding rnd_eq_iff by (rule representable_of_int, use that in simp) (rule half_representable [OF that])
  have b: "\<bar>sent + received\<bar> \<le> 10 ^ 25" "\<bar>received - sent\<bar> \<le> 10 ^ 25" "\<bar>2 * server - (sent + received)\<bar> \<le> 10 ^ 25"
    using assms by (auto simp: wall_ms_def)
  have half: "(of_int sent + of_int received) / 2 = (of_int (sent + received) / 2 :: rat)"
    "(of_int received - of_int sent) / 2 = (of_int (received - sent) / 2 :: rat)"
    "of_int server - of_int (sent + received) / 2 = (of_int (2 * server - (sent + received)) / 2 :: rat)"
    by (simp_all add: field_simps)
  have sum: "of_int sent + of_int received = (of_int (sent + received) :: rat)" by simp
  show "cs_offset_ms (sample_of sent received server now) = of_int server - (of_int sent + of_int received) / 2"
    unfolding half(1) by (simp only: sample_of_def dsub_def dadd_def dquot_def Let_def clock_sample.simps sum
        r(1) [OF b(1)] r(2) [OF b(1)] half(3) r(2) [OF b(3)])
  show "cs_uncertainty_ms (sample_of sent received server now) = (of_int received - of_int sent) / 2"
    unfolding half(2) by (simp only: sample_of_def dquot_def Let_def clock_sample.simps r(2) [OF b(2)])
qed

lemma toward_zero_error: "\<bar>of_int (toward_zero x) - x\<bar> \<le> (1::rat)"
  unfolding toward_zero_def by (cases "x < 0") (simp_all, linarith+)

lemma timestamp_exact:
  assumes "wall_ms sent" "wall_ms received" "wall_ms server" "wall_ms wall"
  shows "dadd (of_int wall) (cs_offset_ms (sample_of sent received server now))
    = of_int wall + cs_offset_ms (sample_of sent received server now)"
proof -
  have "\<bar>2 * wall + (2 * server - (sent + received))\<bar> \<le> 10 ^ 25" using assms by (auto simp: wall_ms_def)
  from half_representable [OF this]
  have "representable (of_int wall + cs_offset_ms (sample_of sent received server now))"
    unfolding sample_exact [OF assms(1-3)] by (simp add: field_simps)
  then show ?thesis by (simp add: dadd_def rnd_eq_iff)
qed

lemma timestamp_Inr:
  "timestamp_ms (c\<lparr>sc_sample := Some s\<rparr>) now wall = Inr ts \<longleftrightarrow> good_sample c s
     \<and> 0 \<le> float_sub now (cs_synchronized_at s) \<and> float_sub now (cs_synchronized_at s) \<le> sc_max_age_seconds c
     \<and> ts = toward_zero (dadd (of_int wall) (cs_offset_ms s))"
  by (auto simp: timestamp_ms_def Let_def good_sample_def not_less)

lemma record_sample_refused:
  assumes "record_sample sent received server now c = (c', Inl e)" "sent \<le> received"
  shows "\<not> good_sample c (sample_of sent received server now) \<and> c' = c \<and> e = BybitClockError
    (if sc_max_absolute_offset_ms c < dabs (cs_offset_ms (sample_of sent received server now)) then DRIFT else UNCERTAINTY)"
  using assms by (auto simp: record_sample_def Let_def validate_quality_cases raise_if_def split: if_splits)

lemma dabs_half:
  assumes "\<bar>n\<bar> \<le> 10 ^ 25" shows "dabs (of_int n / 2) = \<bar>of_int n / 2\<bar>"
proof -
  have "\<bar>of_int n / 2\<bar> = (of_int \<bar>n\<bar> / 2 :: rat)" by simp
  moreover have "representable (of_int \<bar>n\<bar> / 2)" by (rule half_representable) (use assms in simp)
  ultimately show ?thesis by (simp add: dabs_def rnd_exact)
qed

lemma sample_offset_abs:
  assumes "wall_ms sent" "wall_ms received" "wall_ms server"
  shows "dabs (cs_offset_ms (sample_of sent received server now)) = \<bar>of_int server - (of_int sent + of_int received) / 2\<bar>"
proof -
  have "\<bar>2 * server - (sent + received)\<bar> \<le> 10 ^ 25" using assms by (auto simp: wall_ms_def)
  moreover have "of_int server - (of_int sent + of_int received) / 2 = (of_int (2 * server - (sent + received)) / 2 :: rat)"
    by (simp add: field_simps)
  ultimately show ?thesis unfolding sample_exact [OF assms] by (simp only: dabs_half)
qed

text \<open>C40. The server clock. Let the clock of the exchange be ahead of the local one by \<open>delta\<close> milliseconds, and
  let the exchange have read it, truncated to milliseconds, while the request was under way. The sample is
  accepted exactly if the distance of the server time from the middle of the request is at most the
  configured maximum drift, and half the round trip at most the configured maximum uncertainty; otherwise the
  error says which failed, drift first, and the clock is as it was. If accepted, these two numbers are recorded,
  exactly; the recorded offset is then within the recorded uncertainty plus one millisecond of \<open>delta\<close>, and every
  later time stamp within the maximum uncertainty plus two milliseconds of the time of the exchange. A time
  stamp is given exactly while the age of the sample is within the maximum.\<close>

theorem clock_error_bounded:
  assumes "wall_ms sent" "wall_ms received" "wall_ms server"
    and "of_int sent \<le> moment" "moment \<le> of_int received" "server = \<lfloor>moment + delta\<rfloor>"
    and "record_sample sent received server now c = (c', out)"
  shows "let offset = of_int server - (of_int sent + of_int received) / 2; uncertainty = (of_int received - of_int sent) / 2 in
    case out of
      Inl e \<Rightarrow> c' = c \<and> (if sc_max_absolute_offset_ms c < \<bar>offset\<bar> then e = BybitClockError DRIFT
        else sc_max_uncertainty_ms c < uncertainty \<and> e = BybitClockError UNCERTAINTY)
    | Inr s \<Rightarrow> c' = c\<lparr>sc_sample := Some s\<rparr> \<and> cs_offset_ms s = offset \<and> cs_uncertainty_ms s = uncertainty
        \<and> \<bar>offset\<bar> \<le> sc_max_absolute_offset_ms c \<and> uncertainty \<le> sc_max_uncertainty_ms c
        \<and> \<bar>offset - delta\<bar> \<le> uncertainty + 1
        \<and> (\<forall>later wall. wall_ms wall \<longrightarrow> (let age = float_sub later (cs_synchronized_at s) in
            is_ok (timestamp_ms c' later wall) \<longleftrightarrow> 0 \<le> age \<and> age \<le> sc_max_age_seconds c')
          \<and> (\<forall>ts. timestamp_ms c' later wall = Inr ts
               \<longrightarrow> \<bar>of_int ts - (of_int wall + delta)\<bar> \<le> sc_max_uncertainty_ms c + 2))"
proof (cases out)
  case (Inl e)
  have "(of_int sent :: rat) \<le> of_int received" using assms(4,5) by linarith
  then have "sent \<le> received" by simp
  with record_sample_refused [OF assms(7) [unfolded Inl]] show ?thesis
    unfolding Inl sum.case Let_def good_sample_def sample_offset_abs [OF assms(1-3)] sample_exact(2) [OF assms(1-3)]
    by (auto simp: not_le)
next
  case (Inr s)
  note sample = assms(7) [unfolded Inr record_sample_Inr]
  note s = sample [THEN conjunct1] sample [THEN conjunct2, THEN conjunct1] sample [THEN conjunct2, THEN conjunct2, THEN conjunct1]
    sample [THEN conjunct2, THEN conjunct2, THEN conjunct2]
  have exact: "cs_offset_ms s = of_int server - (of_int sent + of_int received) / 2"
    "cs_uncertainty_ms s = (of_int received - of_int sent) / 2"
    using sample_exact [OF assms(1-3)] s(2) by simp_all
  have floor: "of_int server \<le> moment + delta" "moment + delta < of_int server + 1" unfolding assms(6) by linarith+
  have offset: "\<bar>cs_offset_ms s - delta\<bar> \<le> cs_uncertainty_ms s + 1"
    unfolding exact abs_le_iff using floor assms(4,5) by (simp add: field_simps)
  have stamp: "\<bar>of_int ts - (of_int wall + delta)\<bar> \<le> sc_max_uncertainty_ms c' + 2"
    if "wall_ms wall" "timestamp_ms c' later wall = Inr ts" for wall later ts
  proof -
    from that s have ts: "ts = toward_zero (of_int wall + cs_offset_ms s)"
      by (simp add: timestamp_Inr timestamp_exact [OF assms(1-3)])
    have "cs_uncertainty_ms s \<le> sc_max_uncertainty_ms c'" using s(3,4) by (simp add: good_sample_def)
    with toward_zero_error [of "of_int wall + cs_offset_ms s"] offset show ?thesis unfolding ts by linarith
  qed
  have good: "\<bar>of_int server - (of_int sent + of_int received) / 2\<bar> \<le> sc_max_absolute_offset_ms c"
      "(of_int received - of_int sent) / 2 \<le> sc_max_uncertainty_ms c"
    using s(3) sample_offset_abs [OF assms(1-3), of now] exact(2) unfolding good_sample_def s(2) by simp_all
  have "is_ok (timestamp_ms c' later wall) \<longleftrightarrow> 0 \<le> float_sub later (cs_synchronized_at s)
      \<and> float_sub later (cs_synchronized_at s) \<le> sc_max_age_seconds c'" for later wall
    using s by (simp add: is_ok_iff timestamp_Inr)
  with Inr s(4) offset stamp good exact show ?thesis by (simp add: Let_def)
qed

theorem clock_error_bounded_witness:
  "(case mk_server_clock 500 250 60 of Inl _ \<Rightarrow> False | Inr c \<Rightarrow>
     \<exists>c' s. record_sample 1000 1100 1070 (7 / 2) c = (c', Inr s) \<and> cs_offset_ms s = 20
       \<and> timestamp_ms c' 60 2000 = Inr 2020 \<and> \<bar>of_int 2020 - (of_int 2000 + 41 / 2)\<bar> \<le> sc_max_uncertainty_ms c + 2
       \<and> \<not> is_ok (timestamp_ms c' 64 2000))"
proof -
  have run: "case mk_server_clock 500 250 60 of Inl _ \<Rightarrow> False | Inr c \<Rightarrow>
     (case record_sample 1000 1100 1070 (7 / 2) c of (c', Inl _) \<Rightarrow> False | (c', Inr s) \<Rightarrow>
        cs_offset_ms s = 20 \<and> (case timestamp_ms c' 60 2000 of Inl _ \<Rightarrow> False | Inr t \<Rightarrow> t = 2020)
        \<and> \<not> is_ok (timestamp_ms c' 64 2000))"
    by code_simp
  then obtain c where c: "mk_server_clock 500 250 60 = Inr c" by (cases "mk_server_clock 500 250 60") simp_all
  obtain c' out where out: "record_sample 1000 1100 1070 (7 / 2) c = (c', out)" by fastforce
  with run c obtain s where r: "record_sample 1000 1100 1070 (7 / 2) c = (c', Inr s)" by (cases out) simp_all
  with run c have f: "cs_offset_ms s = 20" "timestamp_ms c' 60 2000 = Inr 2020" "\<not> is_ok (timestamp_ms c' 64 2000)"
    by (simp_all split: sum.splits)
  have w: "wall_ms 1000" "wall_ms 1100" "wall_ms 1070" "wall_ms 2000" by (simp_all add: wall_ms_def)
  have k: "(of_int 1000 :: rat) \<le> 1050" "(1050 :: rat) \<le> of_int 1100" by simp_all
  have "(1070::int) = \<lfloor>1050 + 41 / 2 :: rat\<rfloor>" by (simp add: floor_eq_iff)
  note b = clock_error_bounded [OF w(1-3) k this r, unfolded sum.case Let_def]
  have "\<bar>of_int 2020 - (of_int 2000 + 41 / 2)\<bar> \<le> sc_max_uncertainty_ms c + 2" using b w(4) f(2) by blast
  with r f show ?thesis unfolding c sum.case by blast
qed

end
