(* ===== verification/Spec2Isabelle.thy ===== *)
theory Spec2Isabelle
  imports Engine_Properties Client_Order_Ids Kill_Switch Instrument_Rules Risk Live_Recovery
    Live_Option_Execution Market_Data
    One_Level_Entry Startup Simulation_Properties Option_Spread_Entry
    Same_Level_Recovery Trigger_Coordinators One_Level_Lifecycle
    Emergency_Flatten Operator_Commands Bybit_Clock
begin

text \<open>
  The verification development of the ETH credit spread hedge: a program that sells a put credit spread on ETH
  and hedges it with shorts of the perpetual, one per price level between the strikes. A deterministic core
  decides where a hedge is opened and closed; the live services place, protect and account for the orders on
  the exchange; a simulated exchange runs the same services in tests. File names below are relative to
  \<open>src/src/eth_credit_hedge/\<close>; definitions keep the names of the functions they model.

  \<^bold>\<open>Conventions\<close> (\<open>Prelude\<close>, \<open>Decimal_Arith\<close>, \<open>Actions\<close>).
  A dataclass is a record and an \<open>Enum\<close> a datatype; a constructor validates a raw record (\<open>mk_...\<close>) and returns it
  or the exception. What may raise returns \<open>'a res\<close>, an exception or a value. A \<open>Decimal\<close> is a rational, and every
  arithmetic operation rounds to 28 digits, half to even, as the default context does. A method of a service is an
  action on the world, \<open>('s, 'a) act\<close>; what it did before it raised stays done. Properties of actions are triples
  \<open>triple P m Q E\<close>, with a postcondition for returns and one for exceptions. Exchange, clocks and other ports are
  arbitrary functions of the history of the calls made, so a theorem over them holds for every behaviour of the
  outside, errors and lies included.

  \<^bold>\<open>The deterministic core.\<close>
  \<^item> \<open>Credit_Spread\<close>, \<open>Virtual_Levels\<close>, \<open>Ledger\<close>, \<open>Strategy_Config\<close>: \<open>core/credit_spread.py\<close>, \<open>core/virtual_levels.py\<close>,
    \<open>core/ledger.py\<close> and \<open>config/schema.py\<close>. The payoff and its bounds, the tiling of the interval between the strikes,
    the ledger as a replay of its events.
  \<^item> \<open>Hedge_Engine\<close>: \<open>core/hedge_engine.py\<close> and \<open>core/crossing_engine.py\<close>. The crossing loop ends by its own measure.
    \<open>Engine_Invariant\<close> and \<open>Engine_Properties\<close> follow whole price paths: no exception, at most one hedge open, stop
    losses within the premium, order and number of crossings, targets reached, accounts of the run.

  \<^bold>\<open>The domain model\<close> (\<open>domain/\<close>).
  \<^item> \<open>Client_Order_Ids\<close>, \<open>Instruments\<close>, \<open>Instrument_Rules\<close>, \<open>Risk\<close>, \<open>Execution\<close>, \<open>Market_Data\<close>, \<open>Option_Lifecycle\<close>,
    \<open>Option_Position\<close>: the files of these names. Round trip of identifiers, rounding to the grid, the gate, the order
    book as a replay of the feed, the loss of a position.
  \<^item> \<open>Live_Execution\<close>, \<open>Protected_Execution\<close>, \<open>Live_Option_Execution\<close>, \<open>Live_Recovery\<close>: the snapshots and their reducers,
    as step relations with an invariant of all reachable snapshots.

  \<^bold>\<open>Persistence\<close> (\<open>infrastructure/persistence/\<close>).
  \<^item> \<open>Execution_Store\<close>: the tables, constraints and transactions of \<open>sqlite_execution_store.py\<close>. The locales
    \<open>versioned_table\<close> and \<open>versioned_store\<close> state the optimistic locking of snapshots, and are interpreted on the four
    tables of snapshots.
  \<^item> \<open>Journal\<close>: \<open>domain/journal.py\<close>, \<open>sqlite_journal_store.py\<close> and \<open>application/startup_replay.py\<close>, with the port of the
    journal as a locale. \<open>Kill_Switch\<close> has its file store, with the locale \<open>version_store\<close>, and \<open>Operator_Commands\<close> has
    the store of commands.

  \<^bold>\<open>The services\<close> (\<open>application/\<close>), over the world of \<open>Ports\<close>: the store, and the log of what was asked and placed.
  \<^item> \<open>One_Level_Entry\<close>, \<open>Protective_Exits\<close>, \<open>Option_Spread_Entry\<close>: every method; over any sequence of calls, orders are
    durable before they are placed, no identifier is placed twice, exits only reduce, shorts are sold only against
    recorded longs.
  \<^item> \<open>Entry_Client\<close>: what the callers of the entry service rely on, as the locales \<open>entry_client\<close>, \<open>observer\<close>, \<open>recorder\<close>,
    \<open>entry_observer\<close> and \<open>entry_recorder\<close>, interpreted on the model of the service; and the calculus \<open>sends\<close> of the
    orders an action places.
  \<^item> \<open>One_Level_Lifecycle\<close>, \<open>Same_Level_Recovery\<close>, \<open>Trigger_Coordinators\<close> (\<open>one_level_coordinator.py\<close>,
    \<open>multi_level_execution.py\<close>), \<open>Emergency_Flatten\<close>: the clients.
  \<^item> \<open>Kill_Switch\<close>: controllers that share a store, with their interleavings, and the emergency loop.
  \<^item> \<open>Operator_Commands\<close>: a call is a state machine with one phase per \<open>await\<close>, so the theorem covers any interleaving
    of calls and crashes. Eight phases are enough for a call on its own (\<open>execute_command_finishes\<close>).
  \<^item> \<open>Reconciliation\<close> and \<open>Startup\<close>: \<open>startup_reconciliation.py\<close>, \<open>read_only_reconciliation.py\<close> and
    \<open>domain/reconciliation.py\<close>. The report, when it allows trading, and the startup service over journal and store.

  \<^bold>\<open>The exchange.\<close>
  \<^item> \<open>Simulated_Exchange\<close> and \<open>Simulation_Properties\<close>: \<open>backtesting/simulated_exchange.py\<close> and
    \<open>backtesting/fault_injection.py\<close>. After any sequence of calls the accounts are the replay of the ledger.
  \<^item> \<open>Bybit_Clock\<close>: \<open>infrastructure/bybit/clock.py\<close>, the bound on the error of signed time stamps.

  \<^bold>\<open>Bounds.\<close> No fuel stands for a loop of the code, except for the eight phases above; loops with a configured number of
  attempts recurse on it. Where the rounding of decimals would blur a statement, the theorem assumes that the inputs have
  few enough digits for the 28 of the context (\<open>on_grid\<close>, \<open>representable\<close>), or states the error.

  \<^bold>\<open>What the model showed.\<close> Lemmas on concrete runs record behaviour that the code does not intend:
  \<open>stop_budget_overrun_without_ladder\<close> (two hedges open at once overrun the budget), \<open>unprotected_short_allowed\<close>
  (startup allows trading beside a short without a stop), \<open>emergency_fees_not_replayed\<close> and \<open>amended_order_unreadable\<close>
  (simulated exchange), \<open>other_commands_result\<close> (a lost race reports the result of another command). A recovery
  submission that fails after the order was placed releases the debt the order is to earn
  (\<open>recovery_allocates_first\<close> states what holds).

  \<^bold>\<open>Not modelled.\<close> The decoding of JSON, HTTP, WebSockets and signatures of the exchange adapters: the services are
  verified over an arbitrary exchange. The text that stores write (JSON, digits, ISO times) is identified with the
  values it encodes; SHA-256, random nonces and the private state capture are arguments. Real concurrency inside one
  service: methods run one after the other, except in \<open>Kill_Switch\<close> and \<open>Operator_Commands\<close>. Decimals beyond the finite ones
  and the exponent range of the context. The drivers that feed paths to the engine and print reports
  (\<open>backtesting/\<close> apart from the two files above, \<open>interfaces/\<close>, \<open>visualization/\<close>, \<open>data/\<close>, the scripts), the shadow mode,
  monitoring, recording and the deployment checklist: they display, record or check configuration, and the staged demo
  runner is a script over the services above.
\<close>

end
